(* ===== verification/Prelude.thy ===== *)
theory Prelude
  imports Main "HOL-Library.Multiset" "HOL-Library.Word"
begin

text \<open>
  Shared vocabulary of the development: results of operations that may run into
  undefined behaviour, the ordered map behind \<open>std::map\<close>, the priority queue behind
  \<open>std::priority_queue\<close>, and the generic list lemmas the components share.
\<close>

unbundle bit_operations_syntax

section \<open>Results\<close>

text \<open>
  An operation of the program either returns (\<open>Inr\<close>) or runs into an error of the
  component's own error type (\<open>Inl\<close>).  \<open>bind_r\<close> sequences two operations and stops at the
  first error.
\<close>

named_theorems result_simps

definition bind_r :: "'e + 'a \<Rightarrow> ('a \<Rightarrow> 'e + 'b) \<Rightarrow> 'e + 'b" where
  "bind_r m f = (case m of Inl e \<Rightarrow> Inl e | Inr a \<Rightarrow> f a)"

lemma bind_r_Inr [simp]: "bind_r (Inr a) f = f a"
  by (simp add: bind_r_def)

lemma bind_r_Inl [simp]: "bind_r (Inl e) f = Inl e"
  by (simp add: bind_r_def)

lemma bind_r_eq_Inr: "bind_r m f = Inr b \<longleftrightarrow> (\<exists>a. m = Inr a \<and> f a = Inr b)"
  by (cases m) auto

lemma bind_r_eq_Inl: "bind_r m f = Inl e \<longleftrightarrow> m = Inl e \<or> (\<exists>a. m = Inr a \<and> f a = Inl e)"
  by (cases m) auto

lemma bind_r_InrE:
  assumes "bind_r m f = Inr b"
  obtains a where "m = Inr a" "f a = Inr b"
  using assms by (auto simp: bind_r_eq_Inr)

lemma bind_r_cong:
  assumes "m = m'" "\<And>a. m' = Inr a \<Longrightarrow> f a = f' a"
  shows "bind_r m f = bind_r m' f'"
  using assms by (cases m') auto

declare bind_r_eq_Inr [result_simps] bind_r_eq_Inl [result_simps]

definition ok_r :: "'e + 'a \<Rightarrow> bool" where
  "ok_r m = (case m of Inl _ \<Rightarrow> False | Inr _ \<Rightarrow> True)"

lemma ok_r_simps [simp]: "ok_r (Inr a)" "\<not> ok_r (Inl e)"
  by (simp_all add: ok_r_def)

lemma ok_r_iff: "ok_r m \<longleftrightarrow> (\<exists>a. m = Inr a)"
  by (cases m) auto

section \<open>Ordered maps\<close>

text \<open>
  \<open>std::map\<close> keeps its entries in the order of the keys, and the code iterates over it in
  that order.  The model is an association list sorted by key; \<open>map_of\<close> is \<open>find\<close>,
  \<open>sm_set\<close> is \<open>m[k] = v\<close>, \<open>sm_insert\<close> is \<open>m.insert({k, v})\<close> (which keeps an
  entry that is there) and \<open>sm_erase\<close> is \<open>m.erase(k)\<close>.
\<close>

type_synonym ('k, 'v) std_map = "('k \<times> 'v) list"

fun sm_set :: "'k::linorder \<Rightarrow> 'v \<Rightarrow> ('k, 'v) std_map \<Rightarrow> ('k, 'v) std_map" where
  "sm_set k v [] = [(k, v)]"
| "sm_set k v ((k', v') # m) =
     (if k < k' then (k, v) # (k', v') # m
      else if k = k' then (k, v) # m
      else (k', v') # sm_set k v m)"

definition sm_insert :: "'k::linorder \<Rightarrow> 'v \<Rightarrow> ('k, 'v) std_map \<Rightarrow> ('k, 'v) std_map" where
  "sm_insert k v m = (case map_of m k of None \<Rightarrow> sm_set k v m | Some _ \<Rightarrow> m)"

definition sm_erase :: "'k \<Rightarrow> ('k, 'v) std_map \<Rightarrow> ('k, 'v) std_map" where
  "sm_erase k m = filter (\<lambda>e. fst e \<noteq> k) m"

definition sm_ok :: "('k::linorder, 'v) std_map \<Rightarrow> bool" where
  "sm_ok m = sorted_wrt (<) (map fst m)"

definition sm_map :: "('k \<Rightarrow> 'v \<Rightarrow> 'w) \<Rightarrow> ('k, 'v) std_map \<Rightarrow> ('k, 'w) std_map" where
  "sm_map f m = map (\<lambda>e. (fst e, f (fst e) (snd e))) m"

lemma sm_ok_Nil [simp]: "sm_ok []"
  by (simp add: sm_ok_def)

lemma sm_ok_Cons: "sm_ok ((k, v) # m) \<longleftrightarrow> (\<forall>k' \<in> fst ` set m. k < k') \<and> sm_ok m"
  by (auto simp: sm_ok_def)

lemma sm_ok_distinct: "sm_ok m \<Longrightarrow> distinct (map fst m)"
  by (simp add: sm_ok_def strict_sorted_iff)

lemma map_of_sm_set [simp]: "map_of (sm_set k v m) = (map_of m)(k \<mapsto> v)"
  by (induction k v m rule: sm_set.induct) auto

lemma keys_sm_set [simp]: "fst ` set (sm_set k v m) = insert k (fst ` set m)"
  by (induction k v m rule: sm_set.induct) auto

lemma sm_ok_set [simp, intro]: "sm_ok m \<Longrightarrow> sm_ok (sm_set k v m)"
  by (induction k v m rule: sm_set.induct) (auto simp: sm_ok_Cons)

lemma map_of_sm_insert:
  "map_of (sm_insert k v m) = (if k \<in> dom (map_of m) then map_of m else (map_of m)(k \<mapsto> v))"
  by (auto simp: sm_insert_def split: option.splits)

lemma sm_ok_insert [simp, intro]: "sm_ok m \<Longrightarrow> sm_ok (sm_insert k v m)"
  by (auto simp: sm_insert_def split: option.splits)

lemma map_of_sm_erase [simp]: "map_of (sm_erase k m) = (map_of m)(k := None)"
  by (induction m) (auto simp: sm_erase_def)

lemma sm_ok_erase [simp, intro]: "sm_ok m \<Longrightarrow> sm_ok (sm_erase k m)"
  by (induction m) (auto simp: sm_erase_def sm_ok_Cons)

lemma set_sm_set_subset: "set (sm_set k v m) \<subseteq> insert (k, v) (set m)"
  by (induction k v m rule: sm_set.induct) auto

lemma map_of_sm_map [simp]: "map_of (sm_map f m) k = map_option (f k) (map_of m k)"
  by (induction m) (auto simp: sm_map_def)

lemma keys_sm_map [simp]: "map fst (sm_map f m) = map fst m"
  by (simp add: sm_map_def comp_def)

lemma sm_ok_map [simp]: "sm_ok (sm_map f m) = sm_ok m"
  by (simp add: sm_ok_def)

text \<open>
  A multiset collected over the entries of an ordered map, and how writing one entry
  changes it.
\<close>

definition sm_sum :: "('k \<Rightarrow> 'v \<Rightarrow> 'a multiset) \<Rightarrow> ('k, 'v) std_map \<Rightarrow> 'a multiset" where
  "sm_sum F m = sum_list (map (\<lambda>e. F (fst e) (snd e)) m)"

lemma sm_sum_simps [simp]:
  "sm_sum F [] = {#}" "sm_sum F (e # m) = F (fst e) (snd e) + sm_sum F m"
  by (simp_all add: sm_sum_def)

lemma sm_sum_set:
  assumes "sm_ok m"
  shows "sm_sum F (sm_set k v m) + (case map_of m k of None \<Rightarrow> {#} | Some w \<Rightarrow> F k w)
         = sm_sum F m + F k v"
  using assms
proof (induction k v m rule: sm_set.induct)
  case (2 k v k' v' m)
  have "map_of m k = None" if "k < k'"
    using that "2.prems" by (force simp: sm_ok_Cons map_of_eq_None_iff)
  with 2 show ?case
    by (auto simp: sm_ok_Cons ac_simps split: option.splits)
qed simp

lemma sm_sum_mono: "map_of m k = Some w \<Longrightarrow> F k w \<subseteq># sm_sum F m"
  by (induction m)
    (auto split: if_splits intro: subset_mset.add_increasing subset_mset.add_increasing2)

lemma in_sm_sum: "x \<in># sm_sum F m \<longleftrightarrow> (\<exists>e \<in> set m. x \<in># F (fst e) (snd e))"
  by (induction m) auto

lemma filter_sm_sum:
  "filter_mset P (sm_sum F m) = sm_sum (\<lambda>k v. filter_mset P (F k v)) m"
  by (induction m) auto

lemma filter_mset_none: "\<forall>x \<in># M. \<not> P x \<Longrightarrow> filter_mset P M = {#}"
  by (induction M) auto

lemma filter_mset_all: "\<forall>x \<in># M. P x \<Longrightarrow> filter_mset P M = M"
  by (induction M) auto

lemma filter_mset_recombine:
  "filter_mset (\<lambda>x. \<not> P x) M + filter_mset (\<lambda>x. \<not> Q x) (filter_mset P M)
   = filter_mset (\<lambda>x. \<not> (P x \<and> Q x)) M"
  by (induction M) auto

lemma filter_mset_none_iff: "filter_mset P M = {#} \<longleftrightarrow> (\<forall>x \<in># M. \<not> P x)"
  by (induction M) auto

lemma mset_chain:
  fixes a :: "'a multiset"
  assumes "a + d = g + t" "s + g = r + a"
  shows "s + d = r + t"
proof -
  have "(s + d) + g = (s + g) + d" by (simp only: ac_simps)
  also have "\<dots> = r + (a + d)" by (simp only: assms(2) add.assoc)
  also have "\<dots> = r + (g + t)" by (simp only: assms(1))
  also have "\<dots> = (r + t) + g" by (simp only: ac_simps)
  finally show ?thesis by simp
qed

lemma mset_replace:
  fixes s :: "'a multiset"
  assumes "s + d = r + t" "r = d + f"
  shows "s = f + t"
  using assms by (simp add: ac_simps)

lemma mset_add_diff: "t \<in># B \<Longrightarrow> A + (B - {#t#}) = A + B - {#t#}"
  by (auto dest!: multi_member_split)

text \<open>Multisets without a repeated element.\<close>

definition uniq :: "'a multiset \<Rightarrow> bool" where
  "uniq M = (\<forall>x. count M x \<le> 1)"

lemma uniq_empty [simp]: "uniq {#}"
  by (simp add: uniq_def)

lemma uniq_add [simp]: "uniq (add_mset x M) \<longleftrightarrow> x \<notin># M \<and> uniq M"
  by (force simp: uniq_def not_in_iff le_Suc_eq)

lemma uniq_mono: "A \<subseteq># B \<Longrightarrow> uniq B \<Longrightarrow> uniq A"
  unfolding uniq_def by (meson mset_subset_eq_count order_trans)

lemma uniq_union: "uniq (A + B) \<longleftrightarrow> uniq A \<and> uniq B \<and> (\<forall>x \<in># A. x \<notin># B)"
  by (induction A) auto

lemma uniq_image_filter: "uniq (image_mset f A) \<Longrightarrow> uniq (image_mset f (filter_mset P A))"
  by (rule uniq_mono [rotated]) (auto intro: image_mset_subseteq_mono)

lemma uniq_image_inj:
  "uniq (image_mset f A) \<Longrightarrow> x \<in># A \<Longrightarrow> y \<in># A \<Longrightarrow> f x = f y \<Longrightarrow> x = y"
  by (metis image_eqI insert_DiffM insert_noteq_member multiset.set_map uniq_add
      image_mset_add_mset)

lemma uniq_mset: "uniq (mset xs) \<longleftrightarrow> distinct xs"
  by (induction xs) auto

text \<open>The contract of a finite map, for the components that only use it as one.\<close>

locale finite_map =
  fixes look :: "'m \<Rightarrow> 'k \<Rightarrow> 'v option"
    and upd :: "'k \<Rightarrow> 'v \<Rightarrow> 'm \<Rightarrow> 'm"
    and del :: "'k \<Rightarrow> 'm \<Rightarrow> 'm"
    and ok :: "'m \<Rightarrow> bool"
  assumes look_upd: "look (upd k v m) = (look m)(k \<mapsto> v)"
    and look_del: "look (del k m) = (look m)(k := None)"
    and ok_upd: "ok m \<Longrightarrow> ok (upd k v m)"
    and ok_del: "ok m \<Longrightarrow> ok (del k m)"
begin

definition insert_new :: "'k \<Rightarrow> 'v \<Rightarrow> 'm \<Rightarrow> 'm" where
  "insert_new k v m = (if look m k = None then upd k v m else m)"

lemma look_upd_same: "look (upd k v m) k = Some v"
  by (simp add: look_upd)

lemma look_upd_other: "k' \<noteq> k \<Longrightarrow> look (upd k v m) k' = look m k'"
  by (simp add: look_upd)

lemma insert_new_keeps: "look m k = Some w \<Longrightarrow> look (insert_new k v m) k = Some w"
  by (simp add: insert_new_def)

lemma insert_new_present: "look (insert_new k v m) k \<noteq> None"
  by (simp add: insert_new_def look_upd)

lemma del_upd: "look (del k (upd k v m)) = look (del k m)"
  by (simp add: look_upd look_del)

lemma ok_insert_new: "ok m \<Longrightarrow> ok (insert_new k v m)"
  by (simp add: insert_new_def ok_upd)

end

interpretation sm: finite_map map_of sm_set sm_erase sm_ok
  by unfold_locales auto

lemma sm_insert_is_insert_new: "sm_insert = sm.insert_new"
  by (intro ext) (auto simp: sm_insert_def sm.insert_new_def split: option.splits)

section \<open>Priority queues\<close>

text \<open>
  \<open>std::priority_queue\<close> with a comparison that puts the least key on top.  The standard
  leaves the order of equal keys open; the model keeps the queue as a list sorted by the key,
  with the element pushed last first among equals.  The theorems about the queues only use the
  contract \<open>min_queue\<close>, which every order of equal keys satisfies.
\<close>

definition pq_push :: "('a \<Rightarrow> 'k::linorder) \<Rightarrow> 'a \<Rightarrow> 'a list \<Rightarrow> 'a list" where
  "pq_push key x q = insort_key key x q"

definition pq_top :: "'a list \<Rightarrow> 'a" where
  "pq_top q = hd q"

definition pq_pop :: "'a list \<Rightarrow> 'a list" where
  "pq_pop q = tl q"

definition pq_ok :: "('a \<Rightarrow> 'k::linorder) \<Rightarrow> 'a list \<Rightarrow> bool" where
  "pq_ok key q = sorted (map key q)"

locale min_queue =
  fixes key :: "'a \<Rightarrow> 'k::linorder"
    and push :: "'a \<Rightarrow> 'q \<Rightarrow> 'q"
    and top :: "'q \<Rightarrow> 'a"
    and pop :: "'q \<Rightarrow> 'q"
    and empty :: 'q
    and elems :: "'q \<Rightarrow> 'a multiset"
    and ok :: "'q \<Rightarrow> bool"
  assumes elems_empty: "elems empty = {#}"
    and ok_empty: "ok empty"
    and elems_push: "elems (push x q) = add_mset x (elems q)"
    and ok_push: "ok q \<Longrightarrow> ok (push x q)"
    and top_in: "elems q \<noteq> {#} \<Longrightarrow> top q \<in># elems q"
    and top_least: "ok q \<Longrightarrow> y \<in># elems q \<Longrightarrow> key (top q) \<le> key y"
    and elems_pop: "elems q \<noteq> {#} \<Longrightarrow> elems (pop q) = elems q - {#top q#}"
    and ok_pop: "ok q \<Longrightarrow> ok (pop q)"
begin

definition push_all :: "'a list \<Rightarrow> 'q \<Rightarrow> 'q" where
  "push_all xs q = fold push xs q"

lemma ok_push_all: "ok q \<Longrightarrow> ok (push_all xs q)"
  by (induction xs arbitrary: q) (auto simp: push_all_def ok_push)

lemma elems_push_all: "elems (push_all xs q) = mset xs + elems q"
  by (induction xs arbitrary: q) (auto simp: push_all_def elems_push)

lemma top_of_pushed:
  assumes "xs \<noteq> []"
  shows "top (push_all xs empty) \<in> set xs"
    and "x \<in> set xs \<Longrightarrow> key (top (push_all xs empty)) \<le> key x"
proof -
  let ?q = "push_all xs empty"
  have e: "elems ?q = mset xs" by (simp add: elems_push_all elems_empty)
  with assms have "elems ?q \<noteq> {#}" by simp
  from top_in [OF this] e show "top ?q \<in> set xs" by (metis set_mset_mset)
  have "ok ?q" by (intro ok_push_all ok_empty)
  then show "key (top ?q) \<le> key x" if "x \<in> set xs"
    using top_least [of ?q x] that e by simp
qed

lemma pop_keeps_later:
  assumes "ok q" "y \<in># elems (pop q)" "elems q \<noteq> {#}"
  shows "key (top q) \<le> key y"
  using assms elems_pop [of q] top_least [of q y] by (metis in_diffD)

end

lemma mset_insort_key [simp]: "mset (insort_key f x xs) = add_mset x (mset xs)"
  by (induction xs) auto

lemma min_queue_pq: "min_queue key (pq_push key) pq_top pq_pop [] mset (pq_ok key)"
proof
  fix q :: "'a list" and y
  show "pq_ok key q \<Longrightarrow> y \<in># mset q \<Longrightarrow> key (pq_top q) \<le> key y"
    by (cases q) (auto simp: pq_ok_def pq_top_def)
  show "mset q \<noteq> {#} \<Longrightarrow> mset (pq_pop q) = mset q - {#pq_top q#}"
    by (cases q) (auto simp: pq_pop_def pq_top_def)
qed (auto simp: pq_push_def pq_ok_def pq_top_def pq_pop_def sorted_insort_key sorted_tl map_tl)

section \<open>Lists\<close>

lemma distinct_map_filter_keep: "distinct (map f xs) \<Longrightarrow> distinct (map f (filter P xs))"
  by (rule distinct_map_filter)

lemma concat_map_filter: "concat (map (\<lambda>x. filter P (f x)) xs) = filter P (concat (map f xs))"
  by (induction xs) auto

lemma find_SomeD: "find P xs = Some x \<Longrightarrow> x \<in> set xs \<and> P x"
  by (auto simp: find_Some_iff in_set_conv_nth)

lemma find_None_iff_set: "find P xs = None \<longleftrightarrow> (\<forall>x \<in> set xs. \<not> P x)"
  by (auto simp: find_None_iff)

end
