(* ===== verification/Text_Utils.thy ===== *)
theory Text_Utils
  imports Prelude "HOL-Library.Word" "HOL-Library.Char_ord"
begin

text \<open>
  The string helpers of \<^verbatim>\<open>refsapi_misc.h\<close> and \<^verbatim>\<open>refsapi_misc.cpp\<close> that the managers and
  natives share: trimming, quotes, number tests, copying into a plugin's cells, escaping of
  control characters and removal of repeated characters.  The overloads for \<^verbatim>\<open>std::string\<close>
  and \<^verbatim>\<open>std::wstring\<close> differ in their character type only, so they are one polymorphic
  definition here.
\<close>

section \<open>Trimming\<close>

definition remove_chars :: "'a list \<Rightarrow> 'a list \<Rightarrow> 'a list" where
  "remove_chars s chars = filter (\<lambda>c. c \<notin> set chars) s"

definition ltrim :: "'a list \<Rightarrow> 'a list \<Rightarrow> 'a list" where
  "ltrim s chars = dropWhile (\<lambda>c. c \<in> set chars) s"

definition rtrim :: "'a list \<Rightarrow> 'a list \<Rightarrow> 'a list" where
  "rtrim s chars = rev (dropWhile (\<lambda>c. c \<in> set chars) (rev s))"

definition trim :: "'a list \<Rightarrow> 'a list \<Rightarrow> 'a list" where
  "trim s chars = ltrim (rtrim s chars) chars"

definition TRIM_CHARS :: string where
  "TRIM_CHARS = [CHR '' '', CHR 0x0D, CHR 0x09, CHR 0x0A, CHR 0x08, CHR 0x07]"

text \<open>\<^verbatim>\<open>rtrim_zero\<close>: the zeros behind the last decimal point are cut off, the point stays.\<close>

definition rtrim_zero :: "string \<Rightarrow> string" where
  "rtrim_zero s =
     (let r = rev s; frac = takeWhile (\<lambda>c. c \<noteq> CHR ''.'') r; rest = dropWhile (\<lambda>c. c \<noteq> CHR ''.'') r
      in if rest = [] then s else rev (dropWhile (\<lambda>c. c = CHR ''0'') frac @ rest))"

lemma rtrim_prefix: "\<exists>post. s = rtrim s chars @ post \<and> set post \<subseteq> set chars"
proof -
  have "rev s = takeWhile (\<lambda>c. c \<in> set chars) (rev s) @ dropWhile (\<lambda>c. c \<in> set chars) (rev s)"
    by simp
  then have "s = rev (dropWhile (\<lambda>c. c \<in> set chars) (rev s))
                 @ rev (takeWhile (\<lambda>c. c \<in> set chars) (rev s))"
    by (metis rev_append rev_rev_ident)
  moreover have "set (rev (takeWhile (\<lambda>c. c \<in> set chars) (rev s))) \<subseteq> set chars"
    by (auto dest: set_takeWhileD)
  ultimately show ?thesis unfolding rtrim_def by blast
qed

lemma ltrim_suffix: "\<exists>pre. s = pre @ ltrim s chars \<and> set pre \<subseteq> set chars"
  unfolding ltrim_def
  by (rule exI [of _ "takeWhile (\<lambda>c. c \<in> set chars) s"]) (auto dest: set_takeWhileD)

lemma last_rtrim: "rtrim s chars \<noteq> [] \<Longrightarrow> last (rtrim s chars) \<notin> set chars"
  using hd_dropWhile [of "\<lambda>c. c \<in> set chars" "rev s"] by (simp add: rtrim_def last_rev)

lemma hd_ltrim: "ltrim s chars \<noteq> [] \<Longrightarrow> hd (ltrim s chars) \<notin> set chars"
  using hd_dropWhile [of "\<lambda>c. c \<in> set chars" s] by (simp add: ltrim_def)

text \<open>
  Trimming cuts a string into a part of trimmed characters, the result, and another such
  part, and the result neither starts nor ends with one of them.
\<close>

theorem trim_spec:
  "\<exists>pre post. s = pre @ trim s chars @ post \<and> set pre \<subseteq> set chars \<and> set post \<subseteq> set chars
     \<and> (trim s chars = [] \<or> hd (trim s chars) \<notin> set chars \<and> last (trim s chars) \<notin> set chars)"
proof -
  obtain post where post: "s = rtrim s chars @ post" "set post \<subseteq> set chars"
    using rtrim_prefix [of s chars] by blast
  obtain pre where pre: "rtrim s chars = pre @ trim s chars" "set pre \<subseteq> set chars"
    unfolding trim_def using ltrim_suffix [of "rtrim s chars" chars] by blast
  have "last (trim s chars) \<notin> set chars" if "trim s chars \<noteq> []"
  proof -
    have "last (rtrim s chars) = last (trim s chars)" using that pre(1) by (metis last_appendR)
    with last_rtrim [of s chars] that pre(1) show ?thesis by auto
  qed
  moreover have "hd (trim s chars) \<notin> set chars" if "trim s chars \<noteq> []"
    using hd_ltrim that unfolding trim_def by blast
  moreover have "s = pre @ trim s chars @ post" using post(1) pre(1) by (metis append.assoc)
  ultimately show ?thesis using post(2) pre(2) by blast
qed

lemma takeWhile_replicate: "takeWhile (\<lambda>c. c = a) s = replicate (length (takeWhile (\<lambda>c. c = a) s)) a"
  by (induction s) auto

lemma rtrim_zero_spec: "\<exists>k. s = rtrim_zero s @ replicate k (CHR ''0'')"
proof -
  let ?r = "rev s"
  let ?frac = "takeWhile (\<lambda>c. c \<noteq> CHR ''.'') ?r" and ?rest = "dropWhile (\<lambda>c. c \<noteq> CHR ''.'') ?r"
  let ?z = "takeWhile (\<lambda>c. c = CHR ''0'') ?frac" and ?d = "dropWhile (\<lambda>c. c = CHR ''0'') ?frac"
  show ?thesis
  proof (cases "?rest = []")
    case True
    then show ?thesis by (intro exI [of _ 0]) (simp add: rtrim_zero_def)
  next
    case False
    have "rev s = ?frac @ ?rest" by simp
    then have "rev s = ?z @ ?d @ ?rest"
      using takeWhile_dropWhile_id [of "\<lambda>c. c = CHR ''0''" ?frac] by (metis append.assoc)
    then have "s = rev (?z @ ?d @ ?rest)" by (simp only: rev_swap)
    then have a: "s = rev (?d @ ?rest) @ rev ?z" by (simp only: rev_append append.assoc)
    have b: "rev ?z = replicate (length ?z) (CHR ''0'')"
      by (subst takeWhile_replicate) (rule rev_replicate)
    have u: "rtrim_zero s = rev (?d @ ?rest)"
      using False unfolding rtrim_zero_def Let_def by (rule if_not_P)
    have "s = rtrim_zero s @ replicate (length ?z) (CHR ''0'')"
      unfolding u b [symmetric] by (rule a)
    then show ?thesis by (rule exI)
  qed
qed

section \<open>Quotes\<close>

datatype text_error = UB_erase_past_end  \<comment> \<open>\<^verbatim>\<open>erase\<close> at an invalid iterator\<close>

text \<open>The quote characters; the loops run over the whole array, its final NUL included.\<close>

definition QQ :: string where
  "QQ = [CHR 0x22, CHR 0x27, CHR 0x60, CHR 0x00]"

text \<open>
  \<^verbatim>\<open>rm_quote\<close>: the first quote character the string starts with decides.  \<open>f[1]\<close> is only
  assigned when \<open>f[0]\<close> is true, so a quote at the end alone is not a mismatch.  The two calls of
  \<^verbatim>\<open>erase\<close> need two characters.  The narrow overload trims what is left, the wide one does
  not: \<open>post\<close> is that last step.
\<close>

fun rm_quote_loop :: "('a list \<Rightarrow> 'a list) \<Rightarrow> 'a list \<Rightarrow> 'a list \<Rightarrow> text_error + int \<times> 'a list" where
  "rm_quote_loop post [] s = Inr (0, s)"
| "rm_quote_loop post (q # qs) s =
     (if hd s = q \<and> last s = q
      then if length s < 2 then Inl UB_erase_past_end else Inr (1, post (butlast (tl s)))
      else if hd s = q then Inr (- 1, s)
      else rm_quote_loop post qs s)"

definition rm_quote :: "string \<Rightarrow> text_error + int \<times> string" where
  "rm_quote s = (if s = [] then Inr (0, s) else rm_quote_loop (\<lambda>t. trim t TRIM_CHARS) QQ s)"

definition rm_quote_w :: "'a list \<Rightarrow> 'a list \<Rightarrow> text_error + int \<times> 'a list" where
  "rm_quote_w QQ_L s = (if s = [] then Inr (0, s) else rm_quote_loop id QQ_L s)"

fun rm_quote_c_loop :: "'a list \<Rightarrow> 'a list \<Rightarrow> text_error + 'a list" where
  "rm_quote_c_loop [] s = Inr s"
| "rm_quote_c_loop (q # qs) s =
     (if hd s = q \<and> last s = q
      then if length s < 2 then Inl UB_erase_past_end else Inr (butlast (tl s))
      else rm_quote_c_loop qs s)"

definition rm_quote_c :: "'a list \<Rightarrow> 'a list \<Rightarrow> text_error + 'a list" where
  "rm_quote_c quotes s = (if s = [] then Inr s else rm_quote_c_loop quotes s)"

lemma rm_quote_loop_spec:
  assumes "s \<noteq> []"
  shows "rm_quote_loop post qs s =
    (if hd s \<in> set qs
     then if last s = hd s
          then if length s < 2 then Inl UB_erase_past_end else Inr (1, post (butlast (tl s)))
          else Inr (- 1, s)
     else Inr (0, s))"
  by (induction qs) auto

text \<open>
  \<^verbatim>\<open>rm_quote\<close> strips and trims exactly the strings that start and end with the same
  quote character; it reports an opening quote without a partner, but not a closing one; and it
  erases past the end exactly on a string that is a single quote character.
\<close>

theorem rm_quote_spec:
  "rm_quote s =
     (case s of
        [] \<Rightarrow> Inr (0, [])
      | q # t \<Rightarrow>
          if q \<in> set QQ
          then if t = [] then Inl UB_erase_past_end
               else if last t = q then Inr (1, trim (butlast t) TRIM_CHARS)
               else Inr (- 1, s)
          else Inr (0, s))"
  by (cases s) (auto simp: rm_quote_def rm_quote_loop_spec Suc_le_eq)

section \<open>Numbers\<close>

definition isdigit :: "char \<Rightarrow> bool" where
  "isdigit c = (CHR ''0'' \<le> c \<and> c \<le> CHR ''9'')"

text \<open>C's \<^verbatim>\<open>atoi\<close> without overflow.\<close>

fun atoi_digits :: "int \<Rightarrow> string \<Rightarrow> int" where
  "atoi_digits n [] = n"
| "atoi_digits n (c # s) =
     (if isdigit c then atoi_digits (10 * n + (int (of_char c) - 48)) s else n)"

definition isspace :: "char \<Rightarrow> bool" where
  "isspace c = (c \<in> {CHR '' '', CHR 0x09, CHR 0x0A, CHR 0x0B, CHR 0x0C, CHR 0x0D})"

definition atoi :: "string \<Rightarrow> int" where
  "atoi s =
     (case dropWhile isspace s of
        [] \<Rightarrow> 0
      | c # t \<Rightarrow> if c = CHR ''-'' then - atoi_digits 0 t
                  else if c = CHR ''+'' then atoi_digits 0 t
                  else atoi_digits 0 (c # t))"

text \<open>The loop of \<^verbatim>\<open>is_number\<close>: whether it reaches the end; the flag is \<^verbatim>\<open>dp_found\<close>.\<close>

fun is_number_loop :: "bool \<Rightarrow> string \<Rightarrow> bool" where
  "is_number_loop dp [] = True"
| "is_number_loop dp (c # cs) =
     (if \<not> isdigit c
      then if \<not> dp \<and> c = CHR ''.'' \<and> cs \<noteq> [] then is_number_loop True cs else False
      else is_number_loop dp cs)"

definition is_number :: "string \<Rightarrow> bool \<times> string" where
  "is_number s0 =
     (let s = trim s0 TRIM_CHARS
      in (case s of
            [] \<Rightarrow> False
          | c # cs \<Rightarrow> if c = CHR ''+'' \<or> c = CHR ''-''
                       then if cs = [] then False else is_number_loop False cs
                       else is_number_loop False s,
          s))"

lemma not_isdigit_dot [simp]: "\<not> isdigit (CHR ''.'')"
  by (simp add: isdigit_def)

lemma is_number_loop_True: "is_number_loop True cs \<longleftrightarrow> (\<forall>c \<in> set cs. isdigit c)"
  by (induction cs) auto

lemma is_number_loop_False:
  "is_number_loop False cs \<longleftrightarrow> (\<forall>c \<in> set cs. isdigit c)
     \<or> (\<exists>ip fp. cs = ip @ CHR ''.'' # fp \<and> fp \<noteq> [] \<and> (\<forall>c \<in> set ip \<union> set fp. isdigit c))"
proof (induction cs)
  case (Cons c cs)
  show ?case
  proof (cases "isdigit c")
    case True
    then have "(\<exists>ip fp. c # cs = ip @ CHR ''.'' # fp \<and> fp \<noteq> [] \<and> (\<forall>d \<in> set ip \<union> set fp. isdigit d))
      \<longleftrightarrow> (\<exists>ip fp. cs = ip @ CHR ''.'' # fp \<and> fp \<noteq> [] \<and> (\<forall>d \<in> set ip \<union> set fp. isdigit d))"
      (is "?l \<longleftrightarrow> ?r")
    proof (intro iffI)
      assume ?l
      then obtain ip fp where s: "c # cs = ip @ CHR ''.'' # fp" "fp \<noteq> []"
        "\<forall>d \<in> set ip \<union> set fp. isdigit d" by blast
      with True obtain ip' where "ip = c # ip'" by (cases ip) auto
      with s show ?r by (intro exI [of _ ip'] exI [of _ fp]) auto
    next
      assume ?r
      then obtain ip fp where "cs = ip @ CHR ''.'' # fp" "fp \<noteq> []"
        "\<forall>d \<in> set ip \<union> set fp. isdigit d" by blast
      with True show ?l by (intro exI [of _ "c # ip"] exI [of _ fp]) auto
    qed
    with True Cons show ?thesis by simp
  next
    case False
    have "(\<exists>ip fp. c # cs = ip @ CHR ''.'' # fp \<and> fp \<noteq> [] \<and> (\<forall>d \<in> set ip \<union> set fp. isdigit d))
      \<longleftrightarrow> c = CHR ''.'' \<and> cs \<noteq> [] \<and> (\<forall>d \<in> set cs. isdigit d)" (is "?l \<longleftrightarrow> ?r")
    proof (intro iffI)
      assume ?l
      with False show ?r by (auto simp: Cons_eq_append_conv)
    next
      assume ?r
      then show ?l by (intro exI [of _ "[]"] exI [of _ cs]) auto
    qed
    with False show ?thesis by (simp add: is_number_loop_True)
  qed
qed simp

lemma optional_sign:
  "(\<exists>sign body. c # cs = sign @ body \<and> sign \<in> {[], ''+'', ''-''} \<and> P body) \<longleftrightarrow>
     P (c # cs) \<or> (c = CHR ''+'' \<or> c = CHR ''-'') \<and> P cs" (is "?l \<longleftrightarrow> ?r")
proof
  assume ?r
  then show ?l
    by (elim disjE conjE) (rule exI [of _ "[]"], simp, rule exI [of _ "[c]"], simp,
        rule exI [of _ "[c]"], simp)
qed (auto simp: Cons_eq_append_conv)

text \<open>Digits, or digits (possibly none), a decimal point and at least one more digit.\<close>

definition unsigned_decimal :: "string \<Rightarrow> bool" where
  "unsigned_decimal b = (b \<noteq> [] \<and> (list_all isdigit b
     \<or> (\<exists>ip fp. b = ip @ CHR ''.'' # fp \<and> fp \<noteq> [] \<and> list_all isdigit (ip @ fp))))"

lemma is_number_loop_decimal: "b \<noteq> [] \<and> is_number_loop False b \<longleftrightarrow> unsigned_decimal b"
  unfolding is_number_loop_False unsigned_decimal_def by (auto simp: list_all_iff)

lemma signed_not_unsigned:
  "c = CHR ''+'' \<or> c = CHR ''-'' \<Longrightarrow> \<not> unsigned_decimal (c # cs)"
  by (auto simp: unsigned_decimal_def Cons_eq_append_conv isdigit_def)

text \<open>
  \<^verbatim>\<open>is_number\<close> accepts exactly the strings that are, after trimming, an optional sign
  followed by digits, or by digits (possibly none), a decimal point and at least one more digit.
\<close>

theorem is_number_spec:
  "fst (is_number s) \<longleftrightarrow>
     (\<exists>sign body. trim s TRIM_CHARS = sign @ body \<and> sign \<in> {[], ''+'', ''-''}
        \<and> unsigned_decimal body)"
  (is "_ \<longleftrightarrow> ?R")
proof (cases "trim s TRIM_CHARS")
  case Nil
  then show ?thesis by (simp add: is_number_def unsigned_decimal_def)
next
  case (Cons c cs)
  show ?thesis
  proof (cases "c = CHR ''+'' \<or> c = CHR ''-''")
    case True
    then have "fst (is_number s) \<longleftrightarrow> unsigned_decimal cs"
      using Cons is_number_loop_decimal [of cs] by (auto simp: is_number_def Let_def)
    also have "\<dots> \<longleftrightarrow> ?R"
      unfolding Cons optional_sign using True signed_not_unsigned [OF True] by simp
    finally show ?thesis .
  next
    case False
    then have "fst (is_number s) \<longleftrightarrow> unsigned_decimal (c # cs)"
      using Cons is_number_loop_decimal [of "c # cs"] by (auto simp: is_number_def Let_def)
    also have "\<dots> \<longleftrightarrow> ?R" unfolding Cons optional_sign using False by simp
    finally show ?thesis .
  qed
qed

section \<open>Copying into a plugin's cells\<close>

text \<open>A \<^verbatim>\<open>char\<close> is signed: a byte from 128 on becomes a negative cell.\<close>

definition cell_of_char :: "char \<Rightarrow> 32 word" where
  "cell_of_char c = signed (of_char c :: 8 word)"

text \<open>
  The loop of \<^verbatim>\<open>set_amx_string\<close>: \<open>str\<close> is the rest of the C string (up to its NUL), the
  result is the count and the cells stored so far.
\<close>

fun copy_loop :: "string \<Rightarrow> nat \<Rightarrow> nat \<Rightarrow> 32 word list \<Rightarrow> nat \<times> 32 word list" where
  "copy_loop [] n max_size out = (n, out)"
| "copy_loop (c # str) n max_size out =
     (if n + 1 < max_size then copy_loop str (n + 1) max_size (out @ [cell_of_char c])
      else (n + 1, out))"

text \<open>
  \<open>dest\<close> is the array behind the pointer (\<open>None\<close> for a null pointer), \<open>str\<close> the C string
  (\<open>None\<close> for a null pointer); the result is the count and the array afterwards.
\<close>

definition set_amx_string ::
  "32 word list option \<Rightarrow> string option \<Rightarrow> nat \<Rightarrow> nat \<times> 32 word list option" where
  "set_amx_string dest str max_size =
     (case dest of
        None \<Rightarrow> (0, None)
      | Some d \<Rightarrow>
          if max_size = 0 then (0, Some d)
          else (case copy_loop (case str of None \<Rightarrow> [] | Some s \<Rightarrow> takeWhile (\<lambda>c. c \<noteq> CHR 0x00) s)
                       0 max_size [] of
                  (n, out) \<Rightarrow> (n, Some (out @ [0] @ drop (length out + 1) d))))"

lemma copy_loop_spec:
  "n < max_size \<Longrightarrow> copy_loop s n max_size out =
     (if n + length s < max_size then (n + length s, out @ map cell_of_char s)
      else (max_size, out @ map cell_of_char (take (max_size - 1 - n) s)))"
proof (induction s arbitrary: n out)
  case (Cons c s)
  show ?case
  proof (cases "n + 1 < max_size")
    case True
    then have "max_size - 1 - n = Suc (max_size - 1 - (n + 1))" by simp
    with True Cons.IH [of "n + 1"] show ?thesis by simp
  next
    case False
    with Cons.prems show ?thesis by (simp add: le_less_Suc_eq)
  qed
qed simp

text \<open>
  \<^verbatim>\<open>set_amx_string\<close> stores a terminated prefix of at most \<open>max_size - 1\<close> characters and
  leaves the rest of the array alone, so it stays within \<open>max_size\<close> cells.  It returns the number
  of characters stored, except that a string that does not fit yields \<open>max_size\<close>, one more than
  it stored.
\<close>

theorem set_amx_string_spec:
  assumes "0 < max_size" "max_size \<le> length d" "CHR 0x00 \<notin> set s"
  defines "stored \<equiv> map cell_of_char (take (max_size - 1) s)"
  shows "set_amx_string (Some d) (Some s) max_size =
     (if length s < max_size then length s else max_size,
      Some (stored @ [0] @ drop (length stored + 1) d))
   \<and> length (stored @ [0] @ drop (length stored + 1) d) = length d"
proof -
  have t: "takeWhile (\<lambda>c. c \<noteq> CHR 0x00) s = s"
    using assms(3) by (intro takeWhile_eq_all_conv [THEN iffD2]) blast
  have "length stored < max_size" using assms(1) by (simp add: stored_def)
  with assms(1,2) show ?thesis
    by (auto simp: set_amx_string_def t copy_loop_spec stored_def)
qed

theorem set_amx_string_spec_witness:
  "set_amx_string (Some [9, 9, 9, 9]) (Some ''abcd'') 3 = (3, Some [97, 98, 0, 9])"
  using set_amx_string_spec [of 3 "[9, 9, 9, 9]" "''abcd''"]
  by (simp add: cell_of_char_def of_char_def numeral_eq_Suc)

section \<open>Control characters and repetitions\<close>

text \<open>Wide strings are lists of code points.\<close>

type_synonym wstring = "nat list"

definition wide :: "string \<Rightarrow> wstring" where
  "wide s = map of_char s"

text \<open>The table of \<^verbatim>\<open>cc\<close>, and \<^verbatim>\<open>%02X\<close> of a value below 256.\<close>

definition cc_map :: "(nat \<times> wstring) list" where
  "cc_map = [(0, [48]), (7, [97]), (8, [98]), (9, [116]), (10, [110]), (11, [118]), (12, [102]),
             (13, [114]), (26, [120, 49, 65]), (27, [120, 49, 66]), (92, [92])]"

definition hex_digit :: "nat \<Rightarrow> nat" where
  "hex_digit n = (if n < 10 then 48 + n else 55 + n)"

definition cc_char :: "bool \<Rightarrow> nat \<Rightarrow> nat \<Rightarrow> wstring" where
  "cc_char with_slashes esc c =
     (if c \<noteq> 92 \<or> with_slashes
      then (case map_of cc_map c of
              Some e \<Rightarrow> esc # e
            | None \<Rightarrow>
                if c < 32 \<or> c = 127 then [esc, 120, hex_digit (c div 16), hex_digit (c mod 16)]
                else [c])
      else [c])"

definition cc :: "wstring \<Rightarrow> bool \<Rightarrow> nat \<Rightarrow> wstring" where
  "cc str with_slashes esc = concat (map (cc_char with_slashes esc) str)"

text \<open>A reader of the escapes, the abstract meaning of the output.\<close>

definition unhex :: "nat \<Rightarrow> nat" where
  "unhex d = (if d < 65 then d - 48 else d - 55)"

definition unescape :: "nat \<Rightarrow> nat" where
  "unescape e = (case map_of [(48, 0), (97, 7), (98, 8), (116, 9), (110, 10), (118, 11), (102, 12),
                              (114, 13)] e of Some c \<Rightarrow> c | None \<Rightarrow> e)"

fun uncc :: "wstring \<Rightarrow> wstring" where
  "uncc [] = []"
| "uncc (c # r) =
     (if c \<noteq> 92 then c # uncc r
      else (case r of
              [] \<Rightarrow> [c]
            | e # r' \<Rightarrow>
                if e = 120 then (case r' of
                                   h # l # r'' \<Rightarrow> (16 * unhex h + unhex l) # uncc r''
                                 | _ \<Rightarrow> [c])
                else unescape e # uncc r'))"

lemma uncc_plain: "c \<noteq> 92 \<Longrightarrow> uncc (c # t) = c # uncc t"
  by simp

lemma uncc_escape: "e \<noteq> 120 \<Longrightarrow> uncc (92 # e # t) = unescape e # uncc t"
  by simp

lemma uncc_hex: "uncc (92 # 120 # h # l # t) = (16 * unhex h + unhex l) # uncc t"
  by simp

declare uncc.simps(2) [simp del]

lemma unhex_hex_digit: "n < 16 \<Longrightarrow> unhex (hex_digit n) = n"
  by (simp add: unhex_def hex_digit_def)

lemma cc_map_escapes:
  "(c, e) \<in> set cc_map \<Longrightarrow> uncc (92 # e @ t) = c # uncc t"
  unfolding cc_map_def
  by (elim insertE emptyE | simp only: list.set prod.inject)+
     (simp_all add: uncc_escape uncc_hex unescape_def unhex_def)

lemma cc_map_None: "map_of cc_map c = None \<Longrightarrow> c \<noteq> 92"
  by (auto simp: cc_map_def)

lemma uncc_cc_char: "uncc (cc_char True 92 c @ t) = c # uncc t"
proof (cases "map_of cc_map c")
  case None
  show ?thesis
  proof (cases "c < 32 \<or> c = 127")
    case True
    then have "c div 16 < 16" by auto
    then have "16 * unhex (hex_digit (c div 16)) + unhex (hex_digit (c mod 16)) = c"
      by (simp add: unhex_hex_digit)
    with None True show ?thesis by (simp add: cc_char_def uncc_hex)
  next
    case False
    with None show ?thesis by (simp add: cc_char_def uncc_plain cc_map_None)
  qed
next
  case (Some e)
  have "uncc (92 # e @ t) = c # uncc t" by (rule cc_map_escapes [OF map_of_SomeD [OF Some]])
  with Some show ?thesis by (simp add: cc_char_def)
qed

text \<open>
  With slashes escaped and the backslash as escape character, nothing is lost: reading the
  escapes back gives the original text.
\<close>

theorem cc_reversible: "uncc (cc str True 92) = str"
  by (induction str) (simp_all add: cc_def uncc_cc_char)

text \<open>\<^verbatim>\<open>remove_duplicates\<close>: the outer loop at \<open>i\<close>, with its inner loop.\<close>

fun skip_same :: "'a \<Rightarrow> 'a list \<Rightarrow> 'a list" where
  "skip_same p [] = []"
| "skip_same p (c # cs) = (if c = p then skip_same c cs else c # cs)"

lemma length_skip_same [termination_simp]: "length (skip_same p s) \<le> length s"
  by (induction p s rule: skip_same.induct) auto

fun remove_duplicates :: "'a list \<Rightarrow> 'a list" where
  "remove_duplicates [] = []"
| "remove_duplicates (c # cs) = c # remove_duplicates (skip_same c cs)"

text \<open>
  \<^verbatim>\<open>remove_duplicates\<close> keeps one character of every run of equal characters: no two
  neighbours of the result are equal, the set of characters is the same, and a text without
  equal neighbours is unchanged.
\<close>

theorem remove_duplicates_spec:
  "remove_duplicates s = remdups_adj s \<and> distinct_adj (remove_duplicates s)
   \<and> set (remove_duplicates s) = set s \<and> (remove_duplicates s = s \<longleftrightarrow> distinct_adj s)"
proof -
  have skip: "remdups_adj (c # cs) = c # remdups_adj (skip_same c cs)" for c :: 'a and cs
  proof (induction cs)
    case (Cons d cs)
    then show ?case by (cases "d = c") auto
  qed simp
  have eq: "remove_duplicates s = remdups_adj s"
  proof (induction s rule: remove_duplicates.induct)
    case (2 c cs)
    then show ?case by (simp only: remove_duplicates.simps skip)
  qed simp
  show ?thesis unfolding eq
    by (metis distinct_adj_altdef distinct_adj_remdups_adj remdups_adj_set)
qed

end
