(* ===== verification/Nick_Similarity.thy ===== *)
theory Nick_Similarity
  imports Complex_Main Text_Utils
begin

text \<open>
  The nickname checks of \<^verbatim>\<open>refsapi_misc.cpp\<close>: edit distance, longest common substring,
  bigrams, repeated substrings and the scores built from them.  The dynamic programs keep their
  rows as lists, one list per row of the C++ arrays; \<^verbatim>\<open>int\<close> results are natural numbers, as
  they are bounded by the lengths.  Scores are exact rationals.
\<close>

section \<open>Edit distance\<close>

text \<open>
  One row of \<^verbatim>\<open>fast_levenshtein\<close>: \<open>left\<close> is \<^verbatim>\<open>curr[j - 1]\<close>, \<open>diag\<close> is \<^verbatim>\<open>prev[j - 1]\<close>, the list
  holds \<^verbatim>\<open>prev[j]\<close> and up.
\<close>

fun lev_row :: "'a \<Rightarrow> 'a list \<Rightarrow> nat \<Rightarrow> nat \<Rightarrow> nat list \<Rightarrow> nat list" where
  "lev_row a (b # bs) left diag (up # ups) =
     (let cost = (if a = b then 0 else 1);
          here = min (left + 1) (min (up + 1) (diag + cost))
      in here # lev_row a bs here up ups)"
| "lev_row a bs left diag ups = []"

fun lev_rows :: "nat \<Rightarrow> 'a list \<Rightarrow> 'a list \<Rightarrow> nat list \<Rightarrow> nat list" where
  "lev_rows i [] s2 prev = prev"
| "lev_rows i (a # s1) s2 prev =
     (case prev of
        [] \<Rightarrow> []
      | diag # ups \<Rightarrow> lev_rows (i + 1) s1 s2 (i # lev_row a s2 i diag ups))"

definition fast_levenshtein :: "'a list \<Rightarrow> 'a list \<Rightarrow> nat" where
  "fast_levenshtein s1 s2 =
     (if length s1 = 0 then length s2
      else if length s2 = 0 then length s1
      else if 255 < length s1 \<or> 255 < length s2 then max (length s1) (length s2)
      else lev_rows 1 s1 s2 [0..<length s2 + 1] ! length s2)"

text \<open>
  The edit distance: the least number of insertions, deletions and substitutions, as scripts.
\<close>

inductive edits :: "nat \<Rightarrow> 'a list \<Rightarrow> 'a list \<Rightarrow> bool" where
  none: "edits 0 [] []"
| keep: "edits n xs ys \<Longrightarrow> edits n (xs @ [a]) (ys @ [a])"
| change: "edits n xs ys \<Longrightarrow> edits (n + 1) (xs @ [a]) (ys @ [b])"
| delete: "edits n xs ys \<Longrightarrow> edits (n + 1) (xs @ [a]) ys"
| insert: "edits n xs ys \<Longrightarrow> edits (n + 1) xs (ys @ [b])"

definition lev_dist :: "nat \<Rightarrow> 'a list \<Rightarrow> 'a list \<Rightarrow> bool" where
  "lev_dist n xs ys = (edits n xs ys \<and> (\<forall>m. edits m xs ys \<longrightarrow> n \<le> m))"

lemma edits_Nil_left: "edits n [] ys \<Longrightarrow> length ys \<le> n"
  by (induction n "[] :: 'a list" ys rule: edits.induct) auto

lemma edits_Nil_right: "edits n xs [] \<Longrightarrow> length xs \<le> n"
  by (induction n xs "[] :: 'a list" rule: edits.induct) auto

lemma edits_delete_all: "edits (length xs) xs []"
  by (induction xs rule: rev_induct) (auto intro: edits.intros dest: edits.delete)

lemma edits_insert_all: "edits (length ys) [] ys"
  by (induction ys rule: rev_induct) (auto intro: edits.intros dest: edits.insert)

lemma lev_dist_Nil: "lev_dist (length ys) [] ys" "lev_dist (length xs) xs []"
  by (auto simp: lev_dist_def edits_delete_all edits_insert_all dest: edits_Nil_left edits_Nil_right)

lemma edits_snoc_cases:
  assumes "edits n (xs @ [a]) (ys @ [b])"
  shows "(\<exists>m. edits m xs ys \<and> m + (if a = b then 0 else 1) \<le> n)
       \<or> (\<exists>m. edits m xs (ys @ [b]) \<and> m + 1 \<le> n) \<or> (\<exists>m. edits m (xs @ [a]) ys \<and> m + 1 \<le> n)"
  using assms
  by (cases rule: edits.cases) (auto intro: exI)

lemma lev_dist_snoc:
  assumes "lev_dist l (xs @ [a]) ys" "lev_dist u xs (ys @ [b])" "lev_dist d xs ys"
  shows "lev_dist (min (l + 1) (min (u + 1) (d + (if a = b then 0 else 1)))) (xs @ [a]) (ys @ [b])"
    (is "lev_dist ?n _ _")
proof -
  have "edits (l + 1) (xs @ [a]) (ys @ [b])" "edits (u + 1) (xs @ [a]) (ys @ [b])"
    "edits (d + (if a = b then 0 else 1)) (xs @ [a]) (ys @ [b])"
    using assms by (auto simp: lev_dist_def intro: edits.intros edits.insert [simplified]
        edits.delete [simplified] edits.change [simplified])
  then have "edits ?n (xs @ [a]) (ys @ [b])" by (simp add: min_def)
  moreover have "?n \<le> m" if "edits m (xs @ [a]) (ys @ [b])" for m
    using edits_snoc_cases [OF that] assms unfolding lev_dist_def
    by (elim disjE exE conjE) force+
  ultimately show ?thesis by (simp add: lev_dist_def)
qed

text \<open>A row holds the distances to all prefixes of the second string.\<close>

lemma lev_row_correct:
  assumes "lev_dist left (xs @ [a]) ys" "lev_dist diag xs ys" "length ups = length bs"
    and "\<And>j. j < length bs \<Longrightarrow> lev_dist (ups ! j) xs (ys @ take (j + 1) bs)"
  shows "length (lev_row a bs left diag ups) = length bs \<and>
    (\<forall>j < length bs. lev_dist (lev_row a bs left diag ups ! j) (xs @ [a]) (ys @ take (j + 1) bs))"
  using assms
proof (induction a bs left diag ups arbitrary: ys rule: lev_row.induct)
  case (1 a b bs left diag up ups)
  let ?here = "min (left + 1) (min (up + 1) (diag + (if a = b then 0 else 1)))"
  have up: "lev_dist up xs (ys @ [b])" using "1.prems"(4) [of 0] by simp
  have here: "lev_dist ?here (xs @ [a]) (ys @ [b])"
    by (rule lev_dist_snoc [OF "1.prems"(1) up "1.prems"(2)])
  have ups: "lev_dist (ups ! j) xs ((ys @ [b]) @ take (j + 1) bs)" if "j < length bs" for j
    using "1.prems"(4) [of "j + 1"] that by simp
  have "length ups = length bs" using "1.prems"(3) by simp
  note IH = "1.IH" [OF refl refl, of "ys @ [b]", OF here up this ups]
  have "lev_dist (lev_row a (b # bs) left diag (up # ups) ! j) (xs @ [a]) (ys @ take (j + 1) (b # bs))"
    if "j < length (b # bs)" for j
    using that IH here by (cases j) (auto simp: Let_def)
  with IH show ?case by (auto simp: Let_def)
qed auto

lemma upt_lev_dist: "j < length bs + 1 \<Longrightarrow> lev_dist ([0..<length bs + 1] ! j) [] (take j bs)"
proof -
  assume "j < length bs + 1"
  then have "length (take j bs) = j" "[0..<length bs + 1] ! j = j" by (simp_all del: upt_Suc)
  with lev_dist_Nil(1) [of "take j bs"] show ?thesis by simp
qed

lemma lev_rows_correct:
  assumes "length prev = length s2 + 1" "\<And>j. j \<le> length s2 \<Longrightarrow> lev_dist (prev ! j) xs (take j s2)"
    "i = length xs + 1"
  shows "lev_dist (lev_rows i s1 s2 prev ! length s2) (xs @ s1) s2"
  using assms
proof (induction i s1 s2 prev arbitrary: xs rule: lev_rows.induct)
  case (1 i s2 prev)
  then show ?case using "1.prems"(2) [of "length s2"] by simp
next
  case (2 i a s1 s2 prev)
  obtain diag ups where prev: "prev = diag # ups" using "2.prems"(1) by (cases prev) auto
  have l: "lev_dist i (xs @ [a]) []" using lev_dist_Nil(2) [of "xs @ [a]"] "2.prems"(3) by simp
  have d: "lev_dist diag xs []" using "2.prems"(2) [of 0] prev by simp
  have len: "length ups = length s2" using "2.prems"(1) prev by simp
  have u: "lev_dist (ups ! j) xs ([] @ take (j + 1) s2)" if "j < length s2" for j
    using "2.prems"(2) [of "j + 1"] prev that by simp
  note row = lev_row_correct [OF l d len u]
  let ?row = "i # lev_row a s2 i diag ups"
  have "lev_dist (?row ! j) (xs @ [a]) (take j s2)" if "j \<le> length s2" for j
    using that row l by (cases j) auto
  moreover have "length ?row = length s2 + 1" using row by simp
  ultimately have "lev_dist (lev_rows (i + 1) s1 s2 ?row ! length s2) ((xs @ [a]) @ s1) s2"
    using "2.prems"(3) by (intro "2.IH" [OF prev]) auto
  with prev show ?case by simp
qed

lemma fast_levenshtein_dist:
  assumes "length s1 \<le> 255" "length s2 \<le> 255"
  shows "lev_dist (fast_levenshtein s1 s2) s1 s2"
proof (cases "s1 = [] \<or> s2 = []")
  case True
  then show ?thesis by (auto simp: fast_levenshtein_def lev_dist_Nil)
next
  case False
  have "lev_dist ([0..<length s2 + 1] ! j) [] (take j s2)" if "j \<le> length s2" for j
    using upt_lev_dist [of j s2] that by simp
  then have "lev_dist (lev_rows 1 s1 s2 [0..<length s2 + 1] ! length s2) ([] @ s1) s2"
    by (intro lev_rows_correct) (simp_all del: upt_Suc)
  with False assms show ?thesis by (simp add: fast_levenshtein_def)
qed

text \<open>
  C25: On strings of at most 255 characters \<^verbatim>\<open>fast_levenshtein\<close> returns the edit distance:
  that many insertions, deletions and substitutions turn one string into the other, and no fewer
  do.
\<close>

theorem fast_levenshtein_correct:
  assumes "length s1 \<le> 255" "length s2 \<le> 255"
  shows "lev_dist (fast_levenshtein s1 s2) s1 s2"
  using assms by (rule fast_levenshtein_dist)

theorem fast_levenshtein_correct_witness: "lev_dist 3 ''kitten'' ''sitting''"
proof -
  have "fast_levenshtein ''kitten'' ''sitting'' = 3"
    by (simp add: fast_levenshtein_def upt_rec)
  with fast_levenshtein_correct [of "''kitten''" "''sitting''"] show ?thesis by simp
qed

section \<open>Longest common substring\<close>

text \<open>
  One row of \<^verbatim>\<open>longest_common_substring\<close>: \<open>diag\<close> is \<^verbatim>\<open>dp[i - 1][j - 1]\<close>, the list holds
  \<^verbatim>\<open>dp[i - 1][j]\<close> and up, \<open>best\<close> is \<^verbatim>\<open>max_len\<close>; entries of unequal characters keep their
  initial 0.
\<close>

fun lcs_row :: "'a \<Rightarrow> 'a list \<Rightarrow> nat \<Rightarrow> nat list \<Rightarrow> nat \<Rightarrow> nat list \<times> nat" where
  "lcs_row a (b # bs) diag (up # ups) best =
     (let here = (if a = b then diag + 1 else 0);
          best' = (if a = b then max best here else best);
          (row, m) = lcs_row a bs up ups best'
      in (here # row, m))"
| "lcs_row a bs diag ups best = ([], best)"

fun lcs_rows :: "'a list \<Rightarrow> 'a list \<Rightarrow> nat list \<Rightarrow> nat \<Rightarrow> nat" where
  "lcs_rows [] s2 prev best = best"
| "lcs_rows (a # s1) s2 prev best =
     (let (row, m) = lcs_row a s2 (hd prev) (tl prev) best in lcs_rows s1 s2 (0 # row) m)"

definition longest_common_substring :: "'a list \<Rightarrow> 'a list \<Rightarrow> nat" where
  "longest_common_substring s1 s2 = lcs_rows s1 s2 (replicate (length s2 + 1) 0) 0"

text \<open>The length of the longest common prefix, and the rows in its terms.\<close>

fun lcp :: "'a list \<Rightarrow> 'a list \<Rightarrow> nat" where
  "lcp (a # as) (b # bs) = (if a = b then lcp as bs + 1 else 0)"
| "lcp as bs = 0"

fun suffix_row :: "'a list \<Rightarrow> 'a list \<Rightarrow> 'a list \<Rightarrow> nat list" where
  "suffix_row xs ys [] = []"
| "suffix_row xs ys (b # bs) = lcp (rev xs) (b # rev ys) # suffix_row xs (ys @ [b]) bs"

lemma lcp_Nil [simp]: "lcp xs [] = 0" "lcp [] ys = 0"
  by (cases xs; simp)+

lemma lcp_take: "take (lcp xs ys) xs = take (lcp xs ys) ys"
  by (induction xs ys rule: lcp.induct) auto

lemma lcp_le: "lcp xs ys \<le> length xs" "lcp xs ys \<le> length ys"
  by (induction xs ys rule: lcp.induct) auto

lemma lcp_append: "length zs \<le> lcp (zs @ xs) (zs @ ys)"
  by (induction zs) auto

lemma lcs_row_eq:
  "lcs_row a bs (lcp (rev xs) (rev ys)) (suffix_row xs ys bs) best =
     (suffix_row (xs @ [a]) ys bs, fold max (suffix_row (xs @ [a]) ys bs) best)"
proof (induction bs arbitrary: ys best)
  case (Cons b bs)
  have m: "max (0 :: nat) n = n" "max n 0 = n" for n by simp_all
  show ?case
    using Cons.IH [of "ys @ [b]"] by (simp add: Let_def max.commute)
qed simp

definition common :: "nat \<Rightarrow> 'a list \<Rightarrow> 'a list \<Rightarrow> bool" where
  "common n xs ys = (\<exists>zs p q p' q'. length zs = n \<and> xs = p @ zs @ q \<and> ys = p' @ zs @ q')"

lemma common_lcp: "common (lcp (rev xs) (rev ys)) (xs @ xs') (ys @ ys')"
proof -
  let ?n = "lcp (rev xs) (rev ys)"
  have t: "take ?n (rev xs) = take ?n (rev ys)" by (rule lcp_take)
  have "rev xs = take ?n (rev xs) @ drop ?n (rev xs)" "rev ys = take ?n (rev xs) @ drop ?n (rev ys)"
    using t by (metis append_take_drop_id)+
  then have "xs = rev (drop ?n (rev xs)) @ rev (take ?n (rev xs))"
    "ys = rev (drop ?n (rev ys)) @ rev (take ?n (rev xs))"
    by (metis rev_append rev_rev_ident)+
  moreover have "length (rev (take ?n (rev xs))) = ?n"
    using lcp_le(1) [of "rev xs" "rev ys"] by simp
  ultimately show ?thesis unfolding common_def by (metis append.assoc)
qed

lemma suffix_row_common:
  "n \<in> set (suffix_row xs ys bs) \<Longrightarrow> common n (xs @ xs') (ys @ bs)"
proof (induction xs ys bs rule: suffix_row.induct)
  case (2 xs ys b bs)
  then consider "n = lcp (rev xs) (rev (ys @ [b]))" | "n \<in> set (suffix_row xs (ys @ [b]) bs)"
    by auto
  then show ?case
  proof cases
    case 1
    with common_lcp [of xs "ys @ [b]" xs' bs] show ?thesis by simp
  next
    case 2
    with "2.IH" show ?thesis by simp
  qed
qed simp

lemma suffix_row_mem:
  "0 < j \<Longrightarrow> j \<le> length bs \<Longrightarrow> lcp (rev xs) (rev (ys @ take j bs)) \<in> set (suffix_row xs ys bs)"
proof (induction xs ys bs arbitrary: j rule: suffix_row.induct)
  case (2 xs ys b bs)
  show ?case
  proof (cases "j = 1")
    case False
    with "2.prems" obtain k where "j = Suc k" "0 < k" "k \<le> length bs" by (cases j) auto
    with "2.IH" [of k] show ?thesis by simp
  qed simp
qed simp

lemma fold_max_ge: "m \<le> fold max ns (m :: nat)"
proof (induction ns arbitrary: m)
  case (Cons a ns)
  from Cons [of "max a m"] show ?case by simp
qed simp

lemma fold_max_mem: "n \<in> set ns \<Longrightarrow> n \<le> fold max ns (m :: nat)"
proof (induction ns arbitrary: m)
  case (Cons a ns)
  then show ?case using fold_max_ge [of "max a m" ns] by auto
qed simp

lemma fold_max_in: "fold max ns (m :: nat) = m \<or> fold max ns m \<in> set ns"
proof (induction ns arbitrary: m)
  case (Cons a ns)
  then show ?case using Cons [of "max a m"] by (auto simp: max_def split: if_splits)
qed simp

lemma lcs_rows_spec:
  "best \<le> lcs_rows s1 s2 (0 # suffix_row xs [] s2) best
   \<and> (lcs_rows s1 s2 (0 # suffix_row xs [] s2) best = best
      \<or> common (lcs_rows s1 s2 (0 # suffix_row xs [] s2) best) (xs @ s1) s2)
   \<and> (\<forall>i j. 0 < i \<and> i \<le> length s1 \<and> 0 < j \<and> j \<le> length s2
        \<longrightarrow> lcp (rev (xs @ take i s1)) (rev (take j s2)) \<le> lcs_rows s1 s2 (0 # suffix_row xs [] s2) best)"
proof (induction s1 arbitrary: xs best)
  case (Cons a s1)
  let ?row = "suffix_row (xs @ [a]) [] s2"
  let ?m = "fold max ?row best"
  let ?r = "lcs_rows s1 s2 (0 # ?row) ?m"
  have r: "lcs_rows (a # s1) s2 (0 # suffix_row xs [] s2) best = ?r"
    using lcs_row_eq [of a s2 xs "[]" best] by simp
  note IH = Cons.IH [of ?m "xs @ [a]"]
  have ge: "best \<le> ?r" using IH fold_max_ge [of best ?row] by simp
  have "?r = best \<or> common ?r (xs @ a # s1) s2"
  proof (cases "?r = ?m")
    case True
    with fold_max_in [of ?row best] suffix_row_common [of ?m "xs @ [a]" "[]" s2 s1] show ?thesis
      by auto
  next
    case False
    with IH show ?thesis by simp
  qed
  moreover have "lcp (rev (xs @ take i (a # s1))) (rev (take j s2)) \<le> ?r"
    if "0 < i" "i \<le> length (a # s1)" "0 < j" "j \<le> length s2" for i j
  proof (cases "i = 1")
    case True
    have "lcp (rev (xs @ [a])) (rev (take j s2)) \<in> set ?row"
      using suffix_row_mem [OF that(3,4), of "xs @ [a]" "[]"] by simp
    with fold_max_mem [of _ ?row best] IH True show ?thesis by fastforce
  next
    case False
    with that obtain k where "i = Suc k" "0 < k" "k \<le> length s1" by (cases i) auto
    with IH that show ?thesis by simp
  qed
  ultimately show ?case unfolding r using ge by blast
qed simp

lemma suffix_row_Nil: "suffix_row [] ys bs = replicate (length bs) 0"
  by (induction bs arbitrary: ys) auto

lemma lcs_longest:
  "common (longest_common_substring s1 s2) s1 s2
   \<and> (common n s1 s2 \<longrightarrow> n \<le> longest_common_substring s1 s2)"
proof -
  let ?r = "longest_common_substring s1 s2"
  have r: "?r = lcs_rows s1 s2 (0 # suffix_row [] [] s2) 0"
    by (simp add: longest_common_substring_def suffix_row_Nil)
  note spec = lcs_rows_spec [where best = 0 and ?s1.0 = s1 and ?s2.0 = s2 and xs = "[]",
      folded r, simplified]
  have sp: "lcp (rev (take i s1)) (rev (take j s2)) \<le> ?r"
    if "0 < i" "i \<le> length s1" "0 < j" "j \<le> length s2" for i j using spec that by blast
  have "common 0 s1 s2" by (auto simp: common_def)
  then have c: "common ?r s1 s2" using spec by (metis append_Nil)
  have "n \<le> ?r" if "common n s1 s2"
  proof (cases "n = 0")
    case False
    from that obtain zs p q p' q' where z: "length zs = n" "s1 = p @ zs @ q" "s2 = p' @ zs @ q'"
      by (auto simp: common_def)
    let ?i = "length (p @ zs)" and ?j = "length (p' @ zs)"
    have "n \<le> lcp (rev zs @ rev p) (rev zs @ rev p')" using lcp_append [of "rev zs"] z(1) by simp
    moreover have "take ?i s1 = p @ zs" "take ?j s2 = p' @ zs" using z by simp_all
    ultimately have "n \<le> lcp (rev (take ?i s1)) (rev (take ?j s2))" by (metis rev_append)
    also have "\<dots> \<le> ?r" by (rule sp) (use z False in simp_all)
    finally show ?thesis .
  qed simp
  with c show ?thesis by blast
qed

text \<open>
  C26: \<^verbatim>\<open>longest_common_substring\<close> returns the length of a longest common substring: the two
  strings have one of that length, and none that is longer.
\<close>

theorem longest_common_substring_correct:
  "common (longest_common_substring s1 s2) s1 s2
   \<and> (common n s1 s2 \<longrightarrow> n \<le> longest_common_substring s1 s2)"
  by (rule lcs_longest)

theorem longest_common_substring_correct_witness: "\<not> common 4 ''refsapi'' ''myapis''"
proof -
  have "longest_common_substring ''refsapi'' ''myapis'' = 3"
    by (simp add: longest_common_substring_def numeral_eq_Suc)
  with longest_common_substring_correct [of "''refsapi''" "''myapis''" 4] show ?thesis by simp
qed

section \<open>Repeated substrings\<close>

text \<open>The innermost loop of \<^verbatim>\<open>max_rep_len\<close>: \<open>limit\<close> is \<^verbatim>\<open>n - j\<close>.\<close>

function match_len :: "'a list \<Rightarrow> nat \<Rightarrow> nat \<Rightarrow> nat \<Rightarrow> nat \<Rightarrow> nat" where
  "match_len s i j k limit =
     (if k < limit \<and> s ! (i + k) = s ! (j + k) then match_len s i j (k + 1) limit else k)"
  by auto
termination by (relation "measure (\<lambda>(s, i, j, k, limit). limit - k)") auto

declare match_len.simps [simp del]

function rep_inner :: "'a list \<Rightarrow> nat \<Rightarrow> nat \<Rightarrow> nat \<Rightarrow> nat" where
  "rep_inner s i j max_len =
     (let n = length s
      in if j < n - max_len
         then if s ! i \<noteq> s ! j then rep_inner s i (j + 1) max_len
              else let k = match_len s i j 1 (n - j)
                   in rep_inner s i (j + 1) (if max_len < k then k else max_len)
         else max_len)"
  by auto
termination by (relation "measure (\<lambda>(s, i, j, max_len). length s - j)") auto

declare rep_inner.simps [simp del]

function rep_outer :: "'a list \<Rightarrow> nat \<Rightarrow> nat \<Rightarrow> nat" where
  "rep_outer s i max_len =
     (if i < length s - max_len then rep_outer s (i + 1) (rep_inner s i (i + 1) max_len)
      else max_len)"
  by auto
termination by (relation "measure (\<lambda>(s, i, max_len). length s - i)") auto

declare rep_outer.simps [simp del]

definition max_rep_len :: "'a list \<Rightarrow> nat" where
  "max_rep_len s = (if length s < 2 then 0 else rep_outer s 0 0)"

lemma match_len_eq:
  assumes "i < j" "j + k \<le> length s" "limit = length s - j"
  shows "match_len s i j k limit = k + lcp (drop (i + k) s) (drop (j + k) s)"
  using assms
proof (induction s i j k limit rule: match_len.induct)
  case (1 s i j k limit)
  show ?case
  proof (cases "k < limit")
    case True
    then have d: "drop (i + k) s = s ! (i + k) # drop (i + (k + 1)) s"
      "drop (j + k) s = s ! (j + k) # drop (j + (k + 1)) s"
      using "1.prems" by (simp_all add: Cons_nth_drop_Suc)
    show ?thesis
    proof (cases "s ! (i + k) = s ! (j + k)")
      case eq: True
      with True "1.IH" "1.prems" show ?thesis
        by (subst match_len.simps) (simp add: d del: drop_drop)
    next
      case False
      with True show ?thesis by (subst match_len.simps) (simp add: d del: drop_drop)
    qed
  next
    case False
    with "1.prems" show ?thesis by (subst match_len.simps) simp
  qed
qed

text \<open>The length of the repetition that starts at \<open>i\<close> and again at \<open>j\<close>.\<close>

definition rep_at :: "'a list \<Rightarrow> nat \<Rightarrow> nat \<Rightarrow> nat" where
  "rep_at s i j = lcp (drop i s) (drop j s)"

lemma rep_at_le: "rep_at s i j \<le> length s - j"
  using lcp_le(2) [of "drop i s" "drop j s"] by (simp add: rep_at_def)

lemma rep_at_differs:
  "i < j \<Longrightarrow> j < length s \<Longrightarrow> s ! i \<noteq> s ! j \<Longrightarrow> rep_at s i j = 0"
  by (simp add: rep_at_def Cons_nth_drop_Suc [symmetric])

lemma match_len_rep:
  assumes "i < j" "j < length s" "s ! i = s ! j"
  shows "match_len s i j 1 (length s - j) = rep_at s i j"
proof -
  have "drop i s = s ! i # drop (i + 1) s" "drop j s = s ! j # drop (j + 1) s"
    using assms Cons_nth_drop_Suc [of i s] Cons_nth_drop_Suc [of j s] by auto
  with assms match_len_eq [of i j 1 s "length s - j"] show ?thesis by (simp add: rep_at_def)
qed

lemma rep_inner_spec:
  assumes "i < j"
  shows "max_len \<le> rep_inner s i j max_len
    \<and> (rep_inner s i j max_len = max_len
       \<or> (\<exists>j' \<ge> j. j' < length s \<and> rep_inner s i j max_len = rep_at s i j'))
    \<and> (\<forall>j' \<ge> j. rep_at s i j' \<le> rep_inner s i j max_len)"
  using assms
proof (induction s i j max_len rule: rep_inner.induct)
  case (1 s i j max_len)
  show ?case
  proof (cases "j < length s - max_len")
    case False
    have "rep_at s i j' \<le> max_len" if "j \<le> j'" for j' using rep_at_le [of s i j'] that False by simp
    with False show ?thesis by (subst (1 2 3 4) rep_inner.simps) simp
  next
    case True
    define m where "m = max max_len (rep_at s i j)"
    have eq: "rep_inner s i j max_len = rep_inner s i (j + 1) m"
    proof (cases "s ! i = s ! j")
      case eq: True
      have "match_len s i j 1 (length s - j) = rep_at s i j"
        by (rule match_len_rep) (use eq "1.prems" True in simp_all)
      with True eq show ?thesis by (subst rep_inner.simps) (simp add: Let_def m_def max_def)
    next
      case False
      have "rep_at s i j = 0" by (rule rep_at_differs) (use False "1.prems" True in simp_all)
      with True False show ?thesis by (subst rep_inner.simps) (simp add: m_def)
    qed
    have IH: "m \<le> rep_inner s i (j + 1) m \<and> (rep_inner s i (j + 1) m = m
        \<or> (\<exists>j' \<ge> j + 1. j' < length s \<and> rep_inner s i (j + 1) m = rep_at s i j'))
       \<and> (\<forall>j' \<ge> j + 1. rep_at s i j' \<le> rep_inner s i (j + 1) m)"
    proof (cases "s ! i = s ! j")
      case eq: True
      have "match_len s i j 1 (length s - j) = rep_at s i j"
        by (rule match_len_rep) (use eq "1.prems" True in simp_all)
      then have a: "m = (if max_len < match_len s i j 1 (length s - j)
                      then match_len s i j 1 (length s - j) else max_len)"
        by (simp add: m_def max_def)
      note h = "1.IH"(2) [OF refl True _ refl, folded a]
      from h eq "1.prems" show ?thesis by simp
    next
      case False
      have "rep_at s i j = 0" by (rule rep_at_differs) (use False "1.prems" True in simp_all)
      then have "m = max_len" by (simp add: m_def)
      then show ?thesis using "1.IH"(1) [OF refl True] False "1.prems" by simp
    qed
    let ?r = "rep_inner s i (j + 1) m"
    have "max_len \<le> ?r" "rep_at s i j \<le> ?r" using IH by (auto simp: m_def)
    moreover have "?r = max_len \<or> (\<exists>j' \<ge> j. j' < length s \<and> ?r = rep_at s i j')"
    proof (cases "?r = m")
      case True
      have "j < length s" using \<open>j < length s - max_len\<close> by simp
      with True show ?thesis by (auto simp: m_def max_def)
    next
      case False
      with IH show ?thesis by (metis add_leD1)
    qed
    moreover have "\<forall>j' \<ge> j. rep_at s i j' \<le> ?r"
      using IH calculation(2) by (metis Suc_eq_plus1 le_neq_implies_less Suc_leI)
    ultimately show ?thesis unfolding eq by blast
  qed
qed

lemma rep_outer_spec:
  "max_len \<le> rep_outer s i max_len
    \<and> (rep_outer s i max_len = max_len
       \<or> (\<exists>i' j'. i' < j' \<and> j' < length s \<and> rep_outer s i max_len = rep_at s i' j'))
    \<and> (\<forall>i' j'. i \<le> i' \<and> i' < j' \<longrightarrow> rep_at s i' j' \<le> rep_outer s i max_len)"
proof (induction s i max_len rule: rep_outer.induct)
  case (1 s i max_len)
  show ?case
  proof (cases "i < length s - max_len")
    case False
    have "rep_at s i' j' \<le> max_len" if "i \<le> i'" "i' < j'" for i' j'
      using rep_at_le [of s i' j'] that False by simp
    with False show ?thesis by (subst (1 2 3 4) rep_outer.simps) simp
  next
    case True
    define m where "m = rep_inner s i (i + 1) max_len"
    have eq: "rep_outer s i max_len = rep_outer s (i + 1) m"
      using True by (subst rep_outer.simps) (simp add: m_def)
    note IH = "1.IH" [OF True, folded m_def]
    have inner: "max_len \<le> m"
      "m = max_len \<or> (\<exists>j' \<ge> i + 1. j' < length s \<and> m = rep_at s i j')"
      "\<forall>j' \<ge> i + 1. rep_at s i j' \<le> m"
      using rep_inner_spec [of i "i + 1" max_len s] unfolding m_def by simp_all
    let ?r = "rep_outer s (i + 1) m"
    have "rep_at s i' j' \<le> ?r" if "i \<le> i'" "i' < j'" for i' j'
    proof (cases "i' = i")
      case True
      with that inner(3) have "rep_at s i' j' \<le> m" by simp
      with IH show ?thesis by simp
    next
      case False
      with that IH show ?thesis by simp
    qed
    moreover have "?r = max_len \<or> (\<exists>i' j'. i' < j' \<and> j' < length s \<and> ?r = rep_at s i' j')"
      using IH inner(2) by (metis Suc_eq_plus1 Suc_le_eq)
    moreover have "max_len \<le> ?r" using IH inner(1) by simp
    ultimately show ?thesis unfolding eq by blast
  qed
qed

text \<open>\<open>s\<close> contains a string of length \<open>k\<close> at the positions \<open>i\<close> and \<open>j\<close>, which may overlap.\<close>

definition repeats_at :: "'a list \<Rightarrow> nat \<Rightarrow> nat \<Rightarrow> nat \<Rightarrow> bool" where
  "repeats_at s i j k = (i < j \<and> j + k \<le> length s \<and> take k (drop i s) = take k (drop j s))"

lemma take_eq_lcp: "take k xs = take k ys \<Longrightarrow> k \<le> length xs \<Longrightarrow> k \<le> length ys \<Longrightarrow> k \<le> lcp xs ys"
proof (induction xs ys arbitrary: k rule: lcp.induct)
  case (1 a as b bs)
  then show ?case by (cases k) auto
qed auto

text \<open>
  \<^verbatim>\<open>max_rep_len\<close> returns the length of the longest substring that occurs at two
  positions, although its loops skip the positions near the end: such a repetition exists (or the
  result is 0), and none is longer.
\<close>

theorem max_rep_len_correct:
  "(max_rep_len s = 0 \<or> (\<exists>i j. repeats_at s i j (max_rep_len s)))
   \<and> (repeats_at s i j k \<longrightarrow> k \<le> max_rep_len s)"
proof (cases "length s < 2")
  case True
  then have "k = 0" if "repeats_at s i j k"
    using that by (cases s; cases k) (auto simp: repeats_at_def)
  with True show ?thesis by (auto simp: max_rep_len_def)
next
  case False
  then have r: "max_rep_len s = rep_outer s 0 0" by (simp add: max_rep_len_def)
  note spec = rep_outer_spec [of 0 s 0, folded r]
  have "repeats_at s i j (rep_at s i j)" if "i < j" "j < length s" for i j
    using that rep_at_le [of s i j] lcp_take [of "drop i s" "drop j s"]
    by (auto simp: repeats_at_def rep_at_def)
  then have "max_rep_len s = 0 \<or> (\<exists>i j. repeats_at s i j (max_rep_len s))" using spec by metis
  moreover have "k \<le> max_rep_len s" if "repeats_at s i j k"
  proof -
    have "k \<le> rep_at s i j" using that by (auto simp: repeats_at_def rep_at_def intro!: take_eq_lcp)
    also have "\<dots> \<le> max_rep_len s" using spec that by (auto simp: repeats_at_def)
    finally show ?thesis .
  qed
  ultimately show ?thesis by blast
qed

theorem max_rep_len_correct_witness: "2 \<le> max_rep_len ''abcab''"
proof -
  have "repeats_at ''abcab'' 0 3 2" by (simp add: repeats_at_def numeral_eq_Suc)
  with max_rep_len_correct [of "''abcab''" 0 3 2] show ?thesis by blast
qed

section \<open>Normalisation\<close>

text \<open>\<^verbatim>\<open>RU_TO_LAT_MAP\<close>; the keys are the Cyrillic letters U+0430 and up.\<close>

definition RU_TO_LAT_MAP :: "(nat \<times> wstring) list" where
  "RU_TO_LAT_MAP =
     [(1072, [97]), (1073, [98]), (1074, [118]), (1075, [103]), (1076, [100]), 
      (1077, [101]), (1105, [121, 111]), (1078, [122, 104]), (1079, [122]), 
      (1080, [105]), (1081, [106]), (1082, [107]), (1083, [108]), (1084, [109]), 
      (1085, [110]), (1086, [111]), (1087, [112]), (1088, [114]), (1089, [115]), 
      (1090, [116]), (1091, [76]), (1092, [102]), (1093, [104]), (1095, [99, 122]), 
      (1096, [115, 104]), (1097, [115, 104, 99]), (1098, [94]), (1099, [121]), 
      (1100, [39]), (1101, [101]), (1102, [121, 76]), (1103, [121, 97])]"

definition transliterate_ru_to_lat :: "wstring \<Rightarrow> wstring" where
  "transliterate_ru_to_lat input =
     concat (map (\<lambda>c. case map_of RU_TO_LAT_MAP c of Some l \<Rightarrow> l | None \<Rightarrow> [c]) input)"

text \<open>
  \<open>table\<close> is \<^verbatim>\<open>SIMILAR_CHARS_MAP\<close> in the iteration order of the unordered map, which the
  language leaves open; 0 stands for "no replacement".
\<close>

definition find_replacement :: "(nat \<times> wstring) list \<Rightarrow> nat \<Rightarrow> nat" where
  "find_replacement table symbol =
     (case find (\<lambda>e. symbol \<in> set (snd e)) table of Some e \<Rightarrow> fst e | None \<Rightarrow> 0)"

definition replace_similar :: "(nat \<times> wstring) list \<Rightarrow> wstring \<Rightarrow> wstring" where
  "replace_similar table input =
     map (\<lambda>c. let replacement = find_replacement table c
              in if replacement \<noteq> 0 then replacement else c) input"

text \<open>\<open>tolower\<close> and \<open>isalnum\<close> are the functions of the C library for the configured locale.\<close>

definition normalization_str ::
  "(nat \<times> wstring) list \<Rightarrow> (nat \<Rightarrow> nat) \<Rightarrow> (nat \<Rightarrow> bool) \<Rightarrow> wstring \<Rightarrow> wstring" where
  "normalization_str table tolower isalnum s =
     (let s1 = map tolower s;
          s2 = remove_duplicates s1;
          s3 = transliterate_ru_to_lat s2;
          s4 = replace_similar table s3;
          s5 = trim s4 (wide TRIM_CHARS)
      in filter isalnum s5)"

section \<open>Bigrams\<close>

text \<open>\<^verbatim>\<open>get_cached_ngrams\<close> with its cache \<^verbatim>\<open>g_cache_ngrams\<close>, which is keyed by the string alone.\<close>

type_synonym ngram_cache = "wstring \<Rightarrow> wstring set option"

definition ngrams :: "wstring \<Rightarrow> nat \<Rightarrow> wstring set" where
  "ngrams s n = (if length s < n then {} else set (map (\<lambda>i. take n (drop i s)) [0..<length s - n + 1]))"

definition get_cached_ngrams ::
  "wstring \<Rightarrow> nat \<Rightarrow> ngram_cache \<Rightarrow> wstring set \<times> ngram_cache" where
  "get_cached_ngrams s n cache =
     (if length s < n then ({}, cache)
      else (case cache s of
              Some g \<Rightarrow> (g, cache)
            | None \<Rightarrow>
                let g = set (map (\<lambda>i. take n (drop i s)) [0..<length s - n + 1])
                in (g, cache(s \<mapsto> g))))"

section \<open>The similarity of two nicknames\<close>

definition similarity_score ::
  "(wstring \<Rightarrow> wstring) \<Rightarrow> rat \<Rightarrow> rat \<Rightarrow> rat \<Rightarrow> rat \<Rightarrow> wstring \<Rightarrow> wstring \<Rightarrow> ngram_cache \<Rightarrow>
     rat \<times> ngram_cache" where
  "similarity_score nrm lcs_threshold k_lev k_tan k_lcs nick1 nick2 cache =
     (let n1 = nrm nick1; n2 = nrm nick2;
          longest = of_nat (max (length n1) (length n2))
      in if length n1 < 2 \<or> length n2 < 2 \<or> 5 < \<bar>int (length n1) - int (length n2)\<bar> then (0, cache)
         else if n1 = n2 then (1, cache)
         else
           let lcs = longest_common_substring n1 n2
           in if 3 \<le> lcs \<and> lcs_threshold < of_nat lcs / longest then (of_nat lcs / longest, cache)
              else
                let lcs_len = (if 3 \<le> lcs then lcs else 0);
                    lev_score = 1 - of_nat (fast_levenshtein n1 n2) / longest;
                    (ngrams1, cache1) = get_cached_ngrams n1 2 cache;
                    (ngrams2, cache2) = get_cached_ngrams n2 2 cache1;
                    intersection = card (ngrams1 \<inter> ngrams2);
                    tan_score = of_nat intersection
                                / of_nat (card ngrams1 + card ngrams2 - intersection)
                in (k_lev * lev_score + k_tan * tan_score + k_lcs * (of_nat lcs_len / longest),
                    cache2))"

text \<open>The cache holds the bigrams of its keys.\<close>

definition cache_ok :: "ngram_cache \<Rightarrow> bool" where
  "cache_ok cache = (\<forall>s g. cache s = Some g \<longrightarrow> g = ngrams s 2)"

lemma get_cached_ngrams_eq:
  "get_cached_ngrams s n cache =
     (if length s < n then (ngrams s n, cache)
      else (case cache s of
              Some g \<Rightarrow> (g, cache)
            | None \<Rightarrow> (ngrams s n, cache(s \<mapsto> ngrams s n))))"
  by (simp add: get_cached_ngrams_def ngrams_def Let_def split: option.splits)

lemma get_cached_ngrams_ok:
  assumes "cache_ok cache" "get_cached_ngrams s 2 cache = (g, cache')"
  shows "g = ngrams s 2 \<and> cache_ok cache'"
  using assms unfolding get_cached_ngrams_eq cache_ok_def
  by (auto split: if_splits option.splits)

lemma edits_upper: "\<exists>n \<le> max (length xs) (length ys). edits n xs ys"
proof (induction xs arbitrary: ys rule: rev_induct)
  case Nil
  show ?case by (rule exI [of _ "length ys"]) (simp add: edits_insert_all)
next
  case (snoc a xs)
  show ?case
  proof (cases ys rule: rev_cases)
    case Nil
    then show ?thesis using edits_delete_all [of "xs @ [a]"] by (intro exI [of _ "length xs + 1"]) simp
  next
    case (snoc ys' b)
    obtain n where "n \<le> max (length xs) (length ys')" "edits n xs ys'" using snoc.IH by blast
    with snoc show ?thesis using edits.change [of n xs ys' a b] by (intro exI [of _ "n + 1"]) auto
  qed
qed

lemma fast_levenshtein_le: "fast_levenshtein s1 s2 \<le> max (length s1) (length s2)"
proof (cases "length s1 \<le> 255 \<and> length s2 \<le> 255")
  case True
  then have "lev_dist (fast_levenshtein s1 s2) s1 s2"
    using fast_levenshtein_dist by blast
  then show ?thesis using edits_upper [of s1 s2] unfolding lev_dist_def by (meson le_trans)
next
  case False
  then show ?thesis by (auto simp: fast_levenshtein_def)
qed

lemma common_le: "common n xs ys \<Longrightarrow> n \<le> max (length xs) (length ys)"
  by (auto simp: common_def)

lemma finite_ngrams: "finite (ngrams s n)"
  by (simp add: ngrams_def)

lemma ratio_le_1: "m \<le> n \<Longrightarrow> (of_nat m :: rat) / of_nat n \<le> 1"
  by (cases "n = 0") (simp_all add: divide_le_eq)

lemma convex_bounds:
  fixes a b c x y z :: rat
  assumes "0 \<le> a" "0 \<le> b" "0 \<le> c" "a + b + c \<le> 1" "0 \<le> x" "x \<le> 1" "0 \<le> y" "y \<le> 1" "0 \<le> z" "z \<le> 1"
  shows "0 \<le> a * x + b * y + c * z \<and> a * x + b * y + c * z \<le> 1"
proof -
  have "a * x \<le> a * 1" "b * y \<le> b * 1" "c * z \<le> c * 1"
    using assms by (intro mult_left_mono; simp)+
  moreover have "0 \<le> a * x" "0 \<le> b * y" "0 \<le> c * z" using assms by simp_all
  ultimately show ?thesis using assms(4) by simp
qed

text \<open>
  With non-negative weights of sum at most 1 and a cache of bigrams, the similarity of two
  nicknames lies between 0 and 1 and the cache keeps its meaning, so that later calls see the
  same bigrams as without a cache.
\<close>

theorem similarity_score_bounds:
  assumes "0 \<le> k_lev" "0 \<le> k_tan" "0 \<le> k_lcs" "k_lev + k_tan + k_lcs \<le> 1" "cache_ok cache"
    and "similarity_score nrm lcs_threshold k_lev k_tan k_lcs nick1 nick2 cache = (score, cache')"
  shows "0 \<le> score \<and> score \<le> 1 \<and> cache_ok cache'"
proof -
  let ?n1 = "nrm nick1" and ?n2 = "nrm nick2"
  let ?l = "max (length ?n1) (length ?n2)"
  let ?lcs = "longest_common_substring ?n1 ?n2"
  obtain g1 cache1 where g1: "get_cached_ngrams ?n1 2 cache = (g1, cache1)" by force
  obtain g2 cache2 where g2: "get_cached_ngrams ?n2 2 cache1 = (g2, cache2)" by force
  have c1: "g1 = ngrams ?n1 2" "cache_ok cache1" using get_cached_ngrams_ok [OF assms(5) g1] by auto
  have c2: "g2 = ngrams ?n2 2" "cache_ok cache2" using get_cached_ngrams_ok [OF c1(2) g2] by auto
  let ?i = "card (g1 \<inter> g2)"
  have "?i \<le> card g1" "?i \<le> card g2"
    unfolding c1 c2 by (simp_all add: card_mono finite_ngrams)
  then have tan: "of_nat ?i / of_nat (card g1 + card g2 - ?i) \<le> (1 :: rat)"
    by (intro ratio_le_1) simp
  have lcs: "?lcs \<le> ?l" using lcs_longest common_le by blast
  have lcs1: "(of_nat k :: rat) / of_nat ?l \<le> 1" if "k \<le> ?l" for k using that by (rule ratio_le_1)
  have lev: "(of_nat (fast_levenshtein ?n1 ?n2) :: rat) / of_nat ?l \<le> 1"
    by (rule ratio_le_1 [OF fast_levenshtein_le])
  let ?k = "if 3 \<le> ?lcs then ?lcs else 0"
  have k: "?k \<le> ?l" using lcs by simp
  let ?s = "k_lev * (1 - of_nat (fast_levenshtein ?n1 ?n2) / of_nat ?l)
     + k_tan * (of_nat ?i / of_nat (card g1 + card g2 - ?i)) + k_lcs * (of_nat ?k / of_nat ?l)"
  have s: "0 \<le> ?s \<and> ?s \<le> 1"
    by (rule convex_bounds [OF assms(1-4)]) (use tan lev lcs1 [OF k] in simp_all)
  have "(score, cache') \<in> {(0, cache), (1, cache), (of_nat ?lcs / of_nat ?l, cache), (?s, cache2)}"
    using assms(6) g1 g2 unfolding similarity_score_def Let_def
    by (simp only: prod.case) (auto split: if_splits)
  then show ?thesis using assms(5) c2(2) s lcs1 [OF lcs] by auto
qed

definition demo_score :: "rat \<times> ngram_cache" where
  "demo_score = similarity_score id (7/10) (6/10) (3/10) (1/10) (wide ''player'') (wide ''playboy'')
     Map.empty"

theorem similarity_score_bounds_witness: "0 \<le> fst demo_score \<and> fst demo_score \<le> 1"
proof -
  have "cache_ok Map.empty" by (simp add: cache_ok_def)
  moreover obtain score cache' where d: "demo_score = (score, cache')" by force
  ultimately show ?thesis
    using similarity_score_bounds [of "6/10" "3/10" "1/10" Map.empty id "7/10" "wide ''player''"
        "wide ''playboy''" score cache']
    by (simp add: demo_score_def)
qed

text \<open>
  The cache of bigrams is keyed by the string alone, so once it has served one length it
  answers a request for another length with the wrong grams.
\<close>

theorem ngram_cache_ignores_length:
  "fst (get_cached_ngrams (wide ''abc'') 3
          (snd (get_cached_ngrams (wide ''abc'') 2 Map.empty))) = {wide ''ab'', wide ''bc''}
   \<and> ngrams (wide ''abc'') 3 = {wide ''abc''}"
  by (simp add: get_cached_ngrams_eq ngrams_def wide_def numeral_eq_Suc)

section \<open>Patterns in a text\<close>

text \<open>The loop of \<^verbatim>\<open>pattern_analysis\<close> over runs of equal characters.\<close>

fun consecutive_loop :: "'a \<Rightarrow> 'a list \<Rightarrow> nat \<Rightarrow> nat \<Rightarrow> nat" where
  "consecutive_loop prev [] current best = best"
| "consecutive_loop prev (c # cs) current best =
     (if c = prev
      then consecutive_loop c cs (current + 1) (if best < current + 1 then current + 1 else best)
      else consecutive_loop c cs 1 best)"

definition pattern_analysis :: "string \<Rightarrow> rat \<times> rat" where
  "pattern_analysis s =
     (case s of
        [] \<Rightarrow> (1, 1)
      | c # cs \<Rightarrow>
          (of_nat (max_rep_len s) / of_nat (length s),
           of_nat (consecutive_loop c cs 1 1) / of_nat (length s)))"

definition isalpha :: "char \<Rightarrow> bool" where
  "isalpha c = ((CHR ''a'' \<le> c \<and> c \<le> CHR ''z'') \<or> (CHR ''A'' \<le> c \<and> c \<le> CHR ''Z''))"

definition distribution_analysis :: "string \<Rightarrow> rat" where
  "distribution_analysis s =
     (if s = [] then 1
      else
        let digit_ratio = of_nat (length (filter isdigit s)) / of_nat (length s);
            letter_ratio = of_nat (length (filter (\<lambda>c. \<not> isdigit c \<and> isalpha c) s)) / of_nat (length s)
        in \<bar>digit_ratio - 1 / 2\<bar> + \<bar>letter_ratio - 1 / 2\<bar>)"

lemma max_rep_len_le: "max_rep_len s \<le> length s"
proof (cases "length s < 2")
  case False
  then show ?thesis
    using rep_outer_spec [of 0 s 0] rep_at_le [of s] by (auto simp: max_rep_len_def) (metis diff_le_self le_trans)
qed (simp add: max_rep_len_def)

lemma consecutive_loop_le:
  "current \<le> m \<Longrightarrow> best \<le> m + length cs \<Longrightarrow> consecutive_loop p cs current best \<le> m + length cs"
proof (induction p cs current best arbitrary: m rule: consecutive_loop.induct)
  case (2 prev c cs current best)
  show ?case
  proof (cases "c = prev")
    case True
    then show ?thesis
      using "2.IH"(1) [of "m + 1"] "2.prems" by simp
  next
    case False
    then show ?thesis
      using "2.IH"(2) [of "m + 1"] "2.prems" by simp
  qed
qed simp

lemma two_halves:
  fixes x y :: rat
  shows "0 \<le> x \<Longrightarrow> 0 \<le> y \<Longrightarrow> x + y \<le> 1 \<Longrightarrow> \<bar>x - 1 / 2\<bar> + \<bar>y - 1 / 2\<bar> \<le> 1"
  by (cases "x \<le> 1 / 2"; cases "y \<le> 1 / 2") auto

text \<open>
  Both pattern scores and the distribution score of a text lie between 0 and 1.
\<close>

theorem pattern_scores_bounds:
  "0 \<le> fst (pattern_analysis s) \<and> fst (pattern_analysis s) \<le> 1
   \<and> 0 \<le> snd (pattern_analysis s) \<and> snd (pattern_analysis s) \<le> 1
   \<and> 0 \<le> distribution_analysis s \<and> distribution_analysis s \<le> 1"
proof (cases s)
  case Nil
  then show ?thesis by (simp add: pattern_analysis_def distribution_analysis_def)
next
  case (Cons c cs)
  have "consecutive_loop c cs 1 1 \<le> 1 + length cs" by (rule consecutive_loop_le) simp_all
  then have a: "(of_nat (consecutive_loop c cs 1 1) :: rat) / of_nat (length s) \<le> 1"
    using Cons by (intro ratio_le_1) simp
  have b: "(of_nat (max_rep_len s) :: rat) / of_nat (length s) \<le> 1"
    by (rule ratio_le_1 [OF max_rep_len_le])
  let ?d = "length (filter isdigit s)" and ?l = "length (filter (\<lambda>c. \<not> isdigit c \<and> isalpha c) s)"
  have "?d + ?l \<le> length s" by (induction s) auto
  then have dl: "(of_nat ?d :: rat) / of_nat (length s) + of_nat ?l / of_nat (length s) \<le> 1"
    using ratio_le_1 [of "?d + ?l" "length s"] by (simp add: add_divide_distrib)
  then have "\<bar>of_nat ?d / of_nat (length s) - 1 / 2\<bar> + \<bar>of_nat ?l / of_nat (length s) - 1 / 2 :: rat\<bar> \<le> 1"
    by (intro two_halves) simp_all
  with a b Cons show ?thesis
    by (simp add: pattern_analysis_def distribution_analysis_def Let_def)
qed

end
