(* ===== verification/Artificiality.thy ===== *)
theory Artificiality
  imports Nick_Similarity
begin

text \<open>
  The artificiality of a nickname in \<^verbatim>\<open>refsapi_misc.cpp\<close>: the entropy of its characters, the patterns and
  the distribution of \<open>Nick_Similarity\<close>, put together by weights.  Doubles are exact reals, \<^verbatim>\<open>log2\<close> is the
  logarithm; the entries of an unordered map are listed in the order in which they came in, and the sum
  over them does not depend on it.
\<close>

section \<open>Entropy\<close>

text \<open>\<^verbatim>\<open>freq[c]++\<close>\<close>

fun bump :: "'a \<Rightarrow> ('a \<times> nat) list \<Rightarrow> ('a \<times> nat) list" where
  "bump c [] = [(c, 1)]"
| "bump c ((d, n) # freq) = (if c = d then (d, n + 1) # freq else (d, n) # bump c freq)"

definition char_freq :: "'a list \<Rightarrow> ('a \<times> nat) list" where
  "char_freq s = fold bump s []"

definition entropy_step :: "real \<Rightarrow> 'a \<times> nat \<Rightarrow> real \<Rightarrow> real" where
  "entropy_step len cn entropy = (let p = real (snd cn) / len in entropy - p * log 2 p)"

definition calculate_entropy :: "string \<Rightarrow> real" where
  "calculate_entropy s = (if s = [] then 0 else fold (entropy_step (real (length s))) (char_freq s) 0)"

section \<open>The score\<close>

definition SEPARATORS :: string where
  "SEPARATORS = ''_- '' @ map char_of [13, 9, 10, 8, 7 :: nat]"

text \<open>
  \<^verbatim>\<open>remove_chars\<close> is given a reference to \<^verbatim>\<open>s\<close>: what follows works on the cleaned text, also where it
  says \<^verbatim>\<open>s\<close>.
\<close>

definition entropy_based_score :: "string \<Rightarrow> real" where
  "entropy_based_score clean_s =
     (let entropy = calculate_entropy clean_s;
          max_entropy = log 2 (real (length clean_s))
      in if max_entropy > 0 then 1 - entropy / max_entropy else 1)"

definition final_score :: "string \<Rightarrow> real \<Rightarrow> real \<Rightarrow> real \<Rightarrow> real" where
  "final_score s k1 k2 k3 =
     (let (repeat_score, consecutive_score) = pattern_analysis s;
          pattern_based_score = (of_rat repeat_score + of_rat consecutive_score) / 2
      in entropy_based_score s * k1 + pattern_based_score * k2 + of_rat (distribution_analysis s) * k3)"

definition artificiality_score :: "string \<Rightarrow> real \<Rightarrow> real \<Rightarrow> real \<Rightarrow> real" where
  "artificiality_score s0 k1 k2 k3 =
     (let s = remove_chars s0 SEPARATORS
      in if s = [] then 1 else max 0 (min 1 (final_score s k1 k2 k3)))"

section \<open>Frequencies\<close>

lemma bump_keys: "fst ` set (bump c freq) = insert c (fst ` set freq)"
  by (induction c freq rule: bump.induct) auto

lemma bump_distinct: "distinct (map fst freq) \<Longrightarrow> distinct (map fst (bump c freq))"
proof (induction c freq rule: bump.induct)
  case (2 c d n freq)
  then show ?case
    using bump_keys [of c freq] by (auto simp flip: set_map)
qed simp

lemma bump_value:
  "distinct (map fst freq) \<Longrightarrow>
     map_of (bump c freq) = (map_of freq)(c \<mapsto> (case map_of freq c of None \<Rightarrow> 1 | Some n \<Rightarrow> n + 1))"
  by (induction c freq rule: bump.induct) auto

lemma fold_bump:
  "distinct (map fst freq) \<Longrightarrow> distinct (map fst (fold bump s freq)) \<and> fst ` set (fold bump s freq) = set s \<union> fst ` set freq
    \<and> (\<forall>c n. (c, n) \<in> set (fold bump s freq) \<longrightarrow> n = count_list s c + (case map_of freq c of None \<Rightarrow> 0 | Some k \<Rightarrow> k))"
proof (induction s arbitrary: freq)
  case Nil
  then show ?case
    by (auto simp: map_of_eq_Some_iff)
next
  case (Cons x s)
  note ih = Cons.IH [OF bump_distinct [OF Cons.prems, of x]]
  have "n = count_list (x # s) c + (case map_of freq c of None \<Rightarrow> 0 | Some k \<Rightarrow> k)"
    if "(c, n) \<in> set (fold bump s (bump x freq))" for c n
    using ih that bump_value [OF Cons.prems, of x] by (auto split: option.splits if_splits)
  with ih show ?case
    by (auto simp: bump_keys)
qed

lemma char_freq_spec:
  "distinct (map fst (char_freq s))" "fst ` set (char_freq s) = set s" "(c, n) \<in> set (char_freq s) \<Longrightarrow> n = count_list s c"
  using fold_bump [of "[]" s] by (auto simp: char_freq_def)

text \<open>The entropy is the sum over the characters.\<close>

definition share :: "string \<Rightarrow> char \<Rightarrow> real" where
  "share s c = real (count_list s c) / real (length s)"

lemma count_list_pos: "c \<in> set s \<Longrightarrow> 1 \<le> count_list s c"
  using count_list_0_iff [of s c] by (metis One_nat_def Suc_leI not_gr0)

lemma share_range:
  assumes "c \<in> set s"
  shows "0 < share s c" "share s c \<le> 1"
proof -
  have "0 < length s" "real (count_list s c) \<le> real (length s)" "0 < real (count_list s c)"
    using count_list_pos [OF assms] count_le_length [of s c] assms by (auto simp: length_pos_if_in_set)
  then show "0 < share s c" "share s c \<le> 1"
    by (simp_all add: share_def del: length_greater_0_conv)
qed

lemma fold_entropy: "fold (entropy_step len) cs e = e - (\<Sum>cn\<leftarrow>cs. real (snd cn) / len * log 2 (real (snd cn) / len))"
  by (induction cs arbitrary: e) (simp_all add: entropy_step_def Let_def)

lemma calculate_entropy_sum: "calculate_entropy s = (\<Sum>c \<in> set s. share s c * log 2 (1 / share s c))"
proof (cases "s = []")
  case False
  let ?f = "\<lambda>c. share s c * log 2 (share s c)"
  have "(\<Sum>cn\<leftarrow>char_freq s. real (snd cn) / real (length s) * log 2 (real (snd cn) / real (length s)))
      = (\<Sum>cn\<leftarrow>char_freq s. ?f (fst cn))"
    using char_freq_spec(3) [of _ _ s] by (intro arg_cong [of _ _ sum_list] map_cong) (auto simp: share_def)
  also have "\<dots> = (\<Sum>c\<leftarrow>map fst (char_freq s). ?f c)"
    by (simp add: comp_def)
  also have "\<dots> = (\<Sum>c \<in> set s. ?f c)"
    using sum_list_distinct_conv_sum_set [OF char_freq_spec(1) [of s], of ?f] char_freq_spec(2) [of s] by (simp del: map_map)
  finally have "calculate_entropy s = - (\<Sum>c \<in> set s. ?f c)"
    using False by (simp add: calculate_entropy_def fold_entropy)
  also have "\<dots> = (\<Sum>c \<in> set s. share s c * log 2 (1 / share s c))"
    unfolding sum_negf [symmetric] by (rule sum.cong) (use share_range in \<open>auto simp: log_divide\<close>)
  finally show ?thesis .
qed (simp add: calculate_entropy_def)

section \<open>Bounds of the entropy\<close>

lemma log_0: "log 2 (0 :: real) = 0"
  by (simp add: log_def)

lemma log_zero: "0 < x \<Longrightarrow> log 2 x = 0 \<longleftrightarrow> x = (1 :: real)"
  by (simp add: log_def)

lemma share_log: "0 < x \<Longrightarrow> x \<le> 1 \<Longrightarrow> x * log 2 x \<le> (0 :: real)"
  by (intro mult_nonneg_nonpos) simp_all

lemma sum_shares: "s \<noteq> [] \<Longrightarrow> (\<Sum>c \<in> set s. share s c) = 1"
proof -
  assume "s \<noteq> []"
  have "(\<Sum>c \<in> set s. real (count_list s c)) = real (length s)"
    using sum_count_set [of s "set s"] by (metis List.finite_set of_nat_sum order_refl)
  then show ?thesis
    using \<open>s \<noteq> []\<close> by (simp add: share_def flip: sum_divide_distrib)
qed

lemma entropy_nonneg: "0 \<le> calculate_entropy s"
  unfolding calculate_entropy_sum
  by (rule sum_nonneg) (use share_range in \<open>auto intro!: mult_nonneg_nonneg simp: less_imp_le\<close>)

lemma entropy_zero:
  assumes "s \<noteq> []"
  shows "calculate_entropy s = 0 \<longleftrightarrow> set s = {hd s}"
proof -
  have part: "0 \<le> share s c * log 2 (1 / share s c)" "share s c * log 2 (1 / share s c) = 0 \<longleftrightarrow> share s c = 1" if "c \<in> set s" for c
    using share_range [OF that] by (auto simp: log_divide share_log log_zero)
  have "calculate_entropy s = 0 \<longleftrightarrow> (\<forall>c \<in> set s. share s c = 1)"
    unfolding calculate_entropy_sum using part by (subst sum_nonneg_eq_0_iff) auto
  also have "\<dots> \<longleftrightarrow> set s = {hd s}"
  proof
    assume all: "\<forall>c \<in> set s. share s c = 1"
    then have "real (card (set s)) = 1"
      using sum_shares [OF assms] by simp
    then have "card (set s) = 1"
      by linarith
    then show "set s = {hd s}"
      using assms by (metis card_1_singletonE hd_in_set singletonD)
  next
    assume one: "set s = {hd s}"
    then show "\<forall>c \<in> set s. share s c = 1"
      using sum_shares [OF assms] by simp
  qed
  finally show ?thesis .
qed

text \<open>What is missing to the largest entropy.\<close>

lemma entropy_gap:
  assumes "s \<noteq> []"
  shows "log 2 (real (length s)) - calculate_entropy s = (\<Sum>c \<in> set s. share s c * log 2 (real (count_list s c)))"
proof -
  let ?N = "real (length s)"
  have split: "share s c * log 2 (1 / share s c) = share s c * log 2 ?N - share s c * log 2 (real (count_list s c))"
    if "c \<in> set s" for c
    using count_list_pos [OF that] assms by (simp add: share_def log_divide right_diff_distrib)
  have "calculate_entropy s = (\<Sum>c \<in> set s. share s c * log 2 ?N - share s c * log 2 (real (count_list s c)))"
    unfolding calculate_entropy_sum by (rule sum.cong) (use split in auto)
  also have "\<dots> = (\<Sum>c \<in> set s. share s c) * log 2 ?N - (\<Sum>c \<in> set s. share s c * log 2 (real (count_list s c)))"
    by (simp add: sum_subtractf sum_distrib_right)
  finally show ?thesis
    using sum_shares [OF assms] by simp
qed

lemma entropy_max:
  assumes "s \<noteq> []"
  shows "calculate_entropy s \<le> log 2 (real (length s))"
    "calculate_entropy s = log 2 (real (length s)) \<longleftrightarrow> distinct s"
proof -
  have part: "0 \<le> share s c * log 2 (real (count_list s c))"
    "share s c * log 2 (real (count_list s c)) = 0 \<longleftrightarrow> count_list s c = 1" if "c \<in> set s" for c
    using share_range [OF that] count_list_pos [OF that] by (auto simp: log_zero)
  have "0 \<le> (\<Sum>c \<in> set s. share s c * log 2 (real (count_list s c)))"
    by (rule sum_nonneg) (use part in blast)
  then show "calculate_entropy s \<le> log 2 (real (length s))"
    using entropy_gap [OF assms] by simp
  have "(\<Sum>c \<in> set s. share s c * log 2 (real (count_list s c))) = 0 \<longleftrightarrow> (\<forall>c \<in> set s. count_list s c = 1)"
    using part by (subst sum_nonneg_eq_0_iff) auto
  also have "\<dots> \<longleftrightarrow> distinct s"
  proof
    assume "\<forall>c \<in> set s. count_list s c = 1"
    then have "card (set s) = length s"
      using sum_count_set [of s "set s"] by simp
    then show "distinct s"
      by (rule card_distinct)
  next
    assume "distinct s"
    then show "\<forall>c \<in> set s. count_list s c = 1"
      by (simp add: distinct_count_atmost_1 flip: count_mset)
  qed
  finally show "calculate_entropy s = log 2 (real (length s)) \<longleftrightarrow> distinct s"
    using entropy_gap [OF assms] by linarith
qed

text \<open>
  C34: The entropy of a text lies between 0 and the logarithm of its length; it is 0 just when all
  characters are the same, and largest just when no character comes twice.
\<close>
theorem entropy_extremes:
  "0 \<le> calculate_entropy s \<and> calculate_entropy s \<le> log 2 (real (length s))
    \<and> (calculate_entropy s = 0 \<longleftrightarrow> card (set s) \<le> 1)
    \<and> (calculate_entropy s = log 2 (real (length s)) \<longleftrightarrow> distinct s)"
proof (cases "s = []")
  case False
  have "set s = {hd s} \<longleftrightarrow> card (set s) \<le> 1"
  proof
    assume "card (set s) \<le> 1"
    moreover have "0 < card (set s)"
      using False by (simp add: card_gt_0_iff)
    ultimately have "card (set s) = 1"
      by simp
    then show "set s = {hd s}"
      using False by (metis card_1_singletonE hd_in_set singletonD)
  next
    assume "set s = {hd s}"
    then have "card (set s) = card {hd s}"
      by (rule arg_cong)
    then show "card (set s) \<le> 1"
      by simp
  qed
  then show ?thesis
    using entropy_nonneg [of s] entropy_zero [OF False] entropy_max [OF False] by simp
qed (simp add: calculate_entropy_def log_0)

section \<open>The score of a nickname\<close>

lemma entropy_score_range: "0 \<le> entropy_based_score s \<and> entropy_based_score s \<le> 1"
proof (cases "0 < log 2 (real (length s))")
  case True
  then have "s \<noteq> []"
    by (auto simp: log_0)
  with True show ?thesis
    using entropy_nonneg [of s] entropy_max(1) [of s] by (simp add: entropy_based_score_def Let_def divide_le_eq)
qed (simp add: entropy_based_score_def Let_def)

lemma rat_range: "0 \<le> (q :: rat) \<Longrightarrow> q \<le> 1 \<Longrightarrow> 0 \<le> (of_rat q :: real) \<and> of_rat q \<le> (1 :: real)"
  using of_rat_less_eq [of q 1, where 'a = real] of_rat_less_eq [of 0 q, where 'a = real] by simp

lemma average: "x \<le> 1 \<Longrightarrow> y \<le> 1 \<Longrightarrow> (x + y) / 2 \<le> (1 :: real)"
  by simp

lemma final_score_range:
  assumes "0 \<le> k1" "0 \<le> k2" "0 \<le> k3" "k1 + k2 + k3 \<le> 1"
  shows "0 \<le> final_score s k1 k2 k3" "final_score s k1 k2 k3 \<le> 1"
proof -
  obtain a b where p: "pattern_analysis s = (a, b)"
    by fastforce
  define e where "e = entropy_based_score s"
  define m where "m = ((of_rat a + of_rat b) / 2 :: real)"
  define d where "d = (of_rat (distribution_analysis s) :: real)"
  have q: "0 \<le> a \<and> a \<le> 1 \<and> 0 \<le> b \<and> b \<le> 1 \<and> 0 \<le> distribution_analysis s \<and> distribution_analysis s \<le> 1"
    using pattern_scores_bounds [of s] by (simp add: p)
  have ab: "0 \<le> (of_rat a :: real) \<and> of_rat a \<le> (1 :: real)" "0 \<le> (of_rat b :: real) \<and> of_rat b \<le> (1 :: real)"
    using q by (simp_all add: rat_range)
  have "m \<le> 1"
    unfolding m_def by (rule average) (use ab in blast)+
  moreover have "0 \<le> d \<and> d \<le> 1"
    unfolding d_def using q by (simp add: rat_range)
  ultimately have r: "0 \<le> m" "m \<le> 1" "0 \<le> d" "d \<le> 1" "0 \<le> e" "e \<le> 1"
    using entropy_score_range [of s] q by (auto simp: m_def e_def)
  have f: "final_score s k1 k2 k3 = e * k1 + m * k2 + d * k3"
    by (simp add: final_score_def p e_def m_def d_def Let_def)
  show "0 \<le> final_score s k1 k2 k3"
    unfolding f using r assms by simp
  have "e * k1 \<le> k1" "m * k2 \<le> k2" "d * k3 \<le> k3"
    using r assms by (simp_all add: mult_left_le_one_le)
  then show "final_score s k1 k2 k3 \<le> 1"
    unfolding f using assms(4) by linarith
qed

text \<open>
  With weights that are not negative and add up to at most 1, as the default ones do, the score of a
  nickname is its weighted sum as it is: the limits 0 and 1 are never reached from outside.
\<close>
theorem artificiality_not_clamped:
  assumes "0 \<le> k1" "0 \<le> k2" "0 \<le> k3" "k1 + k2 + k3 \<le> 1" "remove_chars s0 SEPARATORS \<noteq> []"
  shows "artificiality_score s0 k1 k2 k3 = final_score (remove_chars s0 SEPARATORS) k1 k2 k3"
  using final_score_range [OF assms(1-4), of "remove_chars s0 SEPARATORS"] assms(5)
  by (simp add: artificiality_score_def Let_def)

lemma artificiality_not_clamped_witness:
  "artificiality_score ''ab_ab'' (4/10) (3/10) (3/10) = final_score ''abab'' (4/10) (3/10) (3/10)"
proof -
  have "remove_chars ''ab_ab'' SEPARATORS = ''abab''"
    by (simp add: remove_chars_def SEPARATORS_def char_of_def)
  then show ?thesis
    using artificiality_not_clamped [of "4/10" "3/10" "3/10" "''ab_ab''"] by simp
qed

end
