(* ===== verification/Convert.thy ===== *)
theory Convert
  imports Artificiality
begin

text \<open>
  The conversions of \<^verbatim>\<open>refsapi_misc.h\<close> between the bytes of the engine and wide strings, the rounding of
  numbers, and the natives of \<^verbatim>\<open>natives_refsapi.cpp\<close> that compute with both.  The codec
  \<^verbatim>\<open>std::codecvt_utf8\<close> of \<^verbatim>\<open>g_converter\<close> is a pair of functions; \<open>None\<close> is the exception it throws.
\<close>

section \<open>Bytes and wide strings\<close>

type_synonym bytes = "nat list"

definition stows :: "(bytes \<Rightarrow> wstring option) \<Rightarrow> bytes \<Rightarrow> wstring" where
  "stows from_bytes s =
     (case from_bytes s of Some w \<Rightarrow> w | None \<Rightarrow> fold (\<lambda>c result. result @ [c AND 255]) s [])"

definition wstos :: "(wstring \<Rightarrow> bytes option) \<Rightarrow> wstring \<Rightarrow> bytes" where
  "wstos to_bytes w = (case to_bytes w of Some s \<Rightarrow> s | None \<Rightarrow> [])"

text \<open>
  What the documentation of the codec says: it decodes what it encodes and encodes what it decodes, and
  the empty text is empty.
\<close>

definition codec_ok :: "(bytes \<Rightarrow> wstring option) \<Rightarrow> (wstring \<Rightarrow> bytes option) \<Rightarrow> bool" where
  "codec_ok from_bytes to_bytes \<longleftrightarrow>
     (\<forall>s w. from_bytes s = Some w \<longleftrightarrow> to_bytes w = Some s) \<and> from_bytes [] = Some []"

lemma stows_decoded: "from_bytes s = Some w \<Longrightarrow> stows from_bytes s = w"
  by (simp add: stows_def)

lemma stows_raw: "from_bytes s = None \<Longrightarrow> stows from_bytes s = map (\<lambda>c. c AND 255) s"
proof -
  have "fold (\<lambda>c result. result @ [c AND 255]) s r = r @ map (\<lambda>c. c AND 255) s" for r :: wstring
    by (induction s arbitrary: r) simp_all
  then show "from_bytes s = None \<Longrightarrow> stows from_bytes s = map (\<lambda>c. c AND 255) s"
    by (simp add: stows_def)
qed

lemma wstos_encoded: "to_bytes w = Some s \<Longrightarrow> wstos to_bytes w = s"
  by (simp add: wstos_def)

text \<open>
  A text of the engine comes back unchanged from the conversion to a wide string and back just when
  it is valid for the codec; on valid texts the conversion is injective, and a wide string that can be
  encoded at all comes back unchanged as well.
\<close>
theorem conversion_round_trip:
  assumes "codec_ok from_bytes to_bytes"
  shows "(wstos to_bytes (stows from_bytes s) = s \<longleftrightarrow> from_bytes s \<noteq> None)
    \<and> (from_bytes s \<noteq> None \<and> from_bytes t \<noteq> None \<and> stows from_bytes s = stows from_bytes t \<longrightarrow> s = t)
    \<and> (to_bytes w \<noteq> None \<longrightarrow> stows from_bytes (wstos to_bytes w) = w)"
proof -
  note law = assms [unfolded codec_ok_def]
  have valid: "wstos to_bytes (stows from_bytes s) = s" if ok: "from_bytes s \<noteq> None" for s
  proof -
    obtain w where "from_bytes s = Some w"
      using ok by blast
    then show ?thesis
      using law by (simp add: stows_decoded wstos_encoded)
  qed
  have decoded: "from_bytes s \<noteq> None" if "wstos to_bytes (stows from_bytes s) = s"
  proof (cases "to_bytes (stows from_bytes s)")
    case None
    with that have "s = []"
      by (simp add: wstos_def)
    with law show ?thesis
      by simp
  next
    case (Some s')
    with that law have "from_bytes s = Some (stows from_bytes s)"
      by (simp add: wstos_def)
    then show ?thesis
      by simp
  qed
  have "from_bytes y = Some w" if "to_bytes w = Some y" for y
    using law that by blast
  then have "to_bytes w \<noteq> None \<longrightarrow> stows from_bytes (wstos to_bytes w) = w"
    by (auto simp: wstos_encoded stows_decoded)
  moreover have "from_bytes s \<noteq> None \<and> from_bytes t \<noteq> None \<and> stows from_bytes s = stows from_bytes t \<longrightarrow> s = t"
    using valid by metis
  ultimately show ?thesis
    using valid decoded by blast
qed

text \<open>A codec for the characters up to 2047.\<close>

fun enc2 :: "wstring \<Rightarrow> bytes option" where
  "enc2 [] = Some []"
| "enc2 (n # w) =
     (case enc2 w of None \<Rightarrow> None
      | Some s \<Rightarrow> if n < 128 then Some (n # s)
                  else if n < 2048 then Some ((192 + n div 64) # (128 + n mod 64) # s) else None)"

fun dec2 :: "bytes \<Rightarrow> wstring option" where
  "dec2 [] = Some []"
| "dec2 (b # s) =
     (if b < 128 then map_option (Cons b) (dec2 s)
      else case s of [] \<Rightarrow> None
           | c # s' \<Rightarrow> if 194 \<le> b \<and> b < 224 \<and> 128 \<le> c \<and> c < 192
                       then map_option (Cons ((b - 192) * 64 + (c - 128))) (dec2 s') else None)"

lemma dec2_enc2: "enc2 w = Some s \<Longrightarrow> dec2 s = Some w"
proof (induction w arbitrary: s)
  case (Cons n w)
  then obtain r where r: "enc2 w = Some r"
    by (auto split: option.splits)
  consider "n < 128" | "128 \<le> n" "n < 2048"
    using Cons.prems r by (force split: if_splits)
  then show ?case
  proof cases
    case 1
    then show ?thesis
      using Cons r by auto
  next
    case 2
    then have "s = (192 + n div 64) # (128 + n mod 64) # r"
      using Cons.prems r by auto
    moreover have "194 \<le> 192 + n div 64" "192 + n div 64 < 224"
      using 2 by linarith+
    ultimately show ?thesis
      using Cons.IH [OF r] by simp
  qed
qed simp

lemma two_parts: "(y :: nat) < 64 \<Longrightarrow> (x * 64 + y) div 64 = x" "y < 64 \<Longrightarrow> (x * 64 + y) mod 64 = (y :: nat)"
  by simp_all

lemma enc2_dec2: "dec2 s = Some w \<Longrightarrow> enc2 w = Some s"
proof (induction s arbitrary: w rule: dec2.induct)
  case (2 b s)
  show ?case
  proof (cases "b < 128")
    case True
    with 2 show ?thesis
      by auto
  next
    case False
    then obtain c s' v where s: "s = c # s'" "194 \<le> b" "b < 224" "128 \<le> c" "c < 192" "dec2 s' = Some v"
        "w = ((b - 192) * 64 + (c - 128)) # v"
      using 2(3) by (auto split: list.splits if_splits)
    then have "enc2 v = Some s'"
      using 2(2) False by simp
    moreover have "128 \<le> (b - 192) * 64 + (c - 128)" "(b - 192) * 64 + (c - 128) < 2048"
      using s(2-5) by linarith+
    moreover have "((b - 192) * 64 + (c - 128)) div 64 = b - 192" "((b - 192) * 64 + (c - 128)) mod 64 = c - 128"
      using two_parts [of "c - 128" "b - 192"] s(4,5) by simp_all
    ultimately show ?thesis
      using s by simp
  qed
qed simp

lemma codec2_ok: "codec_ok dec2 enc2"
proof -
  have "dec2 s = Some w \<longleftrightarrow> enc2 w = Some s" for s w
    using dec2_enc2 [of w s] enc2_dec2 [of s w] by blast
  then show ?thesis
    unfolding codec_ok_def by simp
qed

lemma conversion_round_trip_witness:
  "wstos enc2 (stows dec2 [97, 195, 169]) = [97, 195, 169] \<and> wstos enc2 (stows dec2 [97, 233]) \<noteq> [97, 233]"
  using conversion_round_trip [OF codec2_ok, of "[97, 195, 169]"] conversion_round_trip [OF codec2_ok, of "[97, 233]"]
  by simp

text \<open>Two different names are one wide string when one of them is not valid.\<close>

lemma invalid_name_collides: "stows dec2 [97, 233] = stows dec2 [97, 195, 169]"
  using stows_raw [of dec2 "[97, 233]"] stows_decoded [of dec2 "[97, 195, 169]" "[97, 233]"] by (simp add: and_nat_def)

section \<open>Rounding\<close>

text \<open>The places are counted from the right: \<open>precision\<close> is the power of ten that is kept.\<close>

definition roundd :: "real \<Rightarrow> int \<Rightarrow> real" where
  "roundd v precision =
     (let pow10 = 10 powi (- precision) in of_int \<lfloor>v * pow10 + 1 / 2\<rfloor> / pow10)"

definition rf_roundfloat :: "(real \<Rightarrow> real) \<Rightarrow> real \<Rightarrow> int \<Rightarrow> real" where
  "rf_roundfloat to_float v precision = to_float (roundd v precision)"

lemma roundd_scaled: "roundd v p = of_int \<lfloor>v / 10 powi p + 1 / 2\<rfloor> * 10 powi p"
  by (simp add: roundd_def Let_def power_int_minus field_simps)

lemma floor_half_nearest: "\<bar>of_int \<lfloor>x + 1 / 2\<rfloor> - x\<bar> \<le> \<bar>of_int k - (x :: real)\<bar>"
proof -
  have f: "of_int \<lfloor>x + 1 / 2\<rfloor> \<le> x + 1 / 2" "x + 1 / 2 < of_int \<lfloor>x + 1 / 2\<rfloor> + 1"
    by linarith+
  consider "k = \<lfloor>x + 1 / 2\<rfloor>" | "k \<le> \<lfloor>x + 1 / 2\<rfloor> - 1" | "\<lfloor>x + 1 / 2\<rfloor> + 1 \<le> k"
    by linarith
  then show ?thesis
    using f by cases linarith+
qed

text \<open>
  Rounding gives a multiple of the power of ten, and none is nearer to the number; a number that is
  rounded stays as it is, and rounding keeps the order.
\<close>
theorem roundd_nearest:
  "(\<exists>k. roundd v p = of_int k * 10 powi p)
    \<and> (\<forall>k. \<bar>roundd v p - v\<bar> \<le> \<bar>of_int k * 10 powi p - v\<bar>)
    \<and> roundd (roundd v p) p = roundd v p
    \<and> (v \<le> v' \<longrightarrow> roundd v p \<le> roundd v' p)"
proof (intro conjI allI impI)
  let ?P = "10 powi p :: real"
  have pos: "0 < ?P"
    by simp
  show "\<exists>k. roundd v p = of_int k * ?P"
    unfolding roundd_scaled by blast
  show "\<bar>roundd v p - v\<bar> \<le> \<bar>of_int k * ?P - v\<bar>" for k
  proof -
    have scale: "\<bar>of_int m * ?P - v\<bar> = \<bar>of_int m - v / ?P\<bar> * ?P" for m
    proof -
      have "of_int m * ?P - v = (of_int m - v / ?P) * ?P"
        using pos by (simp add: left_diff_distrib)
      then show ?thesis
        using pos by (simp add: abs_mult)
    qed
    show ?thesis
      unfolding roundd_scaled scale using floor_half_nearest pos by (intro mult_right_mono) auto
  qed
  show "roundd (roundd v p) p = roundd v p"
  proof -
    have "roundd (of_int k * ?P) p = of_int k * ?P" for k
    proof -
      have "\<lfloor>real_of_int k + 1 / 2\<rfloor> = k"
        by linarith
      then show ?thesis
        unfolding roundd_scaled using pos by simp
    qed
    then show ?thesis
      unfolding roundd_scaled [of v] by blast
  qed
  show "roundd v p \<le> roundd v' p" if "v \<le> v'"
    unfolding roundd_scaled using that pos
    by (intro mult_right_mono) (auto intro!: floor_mono divide_right_mono add_right_mono)
qed

section \<open>Natives\<close>

definition rf_similarity_score ::
  "(wstring \<Rightarrow> wstring) \<Rightarrow> (bytes \<Rightarrow> wstring option) \<Rightarrow> rat \<Rightarrow> rat \<Rightarrow> rat \<Rightarrow> rat \<Rightarrow> bytes \<Rightarrow> bytes \<Rightarrow>
   ngram_cache \<Rightarrow> rat \<times> ngram_cache" where
  "rf_similarity_score nrm from_bytes lcs_threshold k_lev k_tan k_lcs s1 s2 cache =
     (let str_1 = stows from_bytes s1; str_2 = stows from_bytes s2
      in if str_1 \<noteq> [] \<and> str_2 \<noteq> []
         then similarity_score nrm lcs_threshold k_lev k_tan k_lcs str_1 str_2 cache else (0, cache))"

end
