(* ===== verification/Flags.thy ===== *)
theory Flags
  imports Prelude "HOL-Library.Char_ord"
begin

text \<open>
  The flag strings of \<^verbatim>\<open>sdk_util.cpp\<close>: letters for the bits of a cell.  A shift by a negative or too
  large count is an error value.
\<close>

datatype flag_error = UB_shift

text \<open>The value of a \<^verbatim>\<open>char\<close>, which is signed.\<close>

definition char_val :: "char \<Rightarrow> int" where
  "char_val c = (let n = int (of_char c) in if n \<ge> 128 then n - 256 else n)"

fun UTIL_ReadFlags_loop :: "string \<Rightarrow> 32 word \<Rightarrow> flag_error + 32 word" where
  "UTIL_ReadFlags_loop [] flags = Inr flags"
| "UTIL_ReadFlags_loop (c # cs) flags =
     (let k = char_val c - char_val (CHR ''a'')
      in if 0 \<le> k \<and> k < 32 then UTIL_ReadFlags_loop cs (flags OR push_bit (nat k) 1) else Inl UB_shift)"

definition UTIL_ReadFlags :: "string \<Rightarrow> flag_error + 32 word" where
  "UTIL_ReadFlags c = UTIL_ReadFlags_loop c 0"

fun UTIL_GetFlags_loop :: "nat list \<Rightarrow> 32 word \<Rightarrow> string" where
  "UTIL_GetFlags_loop [] a = []"
| "UTIL_GetFlags_loop (i # is) a =
     (if a AND 1 \<noteq> 0 then char_of i # UTIL_GetFlags_loop is (signed_drop_bit 1 a)
      else UTIL_GetFlags_loop is (signed_drop_bit 1 a))"

definition UTIL_GetFlags :: "32 word \<Rightarrow> string" where
  "UTIL_GetFlags a = UTIL_GetFlags_loop [97..<123] a"

section \<open>Round trip\<close>

lemma char_val_a: "char_val (CHR ''a'') = 97"
  by (simp add: char_val_def)

lemma letter_val: "97 \<le> n \<Longrightarrow> n < 123 \<Longrightarrow> char_val (char_of n) = int n"
  by (simp add: char_val_def)

lemma bit_sdrop: "n < 31 \<Longrightarrow> bit (signed_drop_bit 1 a) n = bit (a :: 32 word) (n + 1)"
  by (simp add: bit_signed_drop_bit_iff)

text \<open>What the letters of the bits of \<open>a\<close> from \<open>k\<close> on add up to.\<close>

lemma read_get_loop:
  "k + m = 26 \<Longrightarrow>
   UTIL_ReadFlags_loop (UTIL_GetFlags_loop [97 + k..<123] a) flags =
     Inr (flags OR push_bit k (a AND mask m))"
proof (induction m arbitrary: k a flags)
  case 0
  then show ?case by simp
next
  case (Suc m)
  have l: "[97 + k..<123] = (97 + k) # [97 + Suc k..<123]"
    using Suc.prems by (simp add: upt_rec)
  have v: "char_val (char_of (97 + k)) - char_val (CHR ''a'') = int k"
    using Suc.prems by (simp add: char_val_a letter_val)
  let ?a = "signed_drop_bit 1 a"
  have IH: "UTIL_ReadFlags_loop (UTIL_GetFlags_loop [97 + Suc k..<123] ?a) f =
      Inr (f OR push_bit (Suc k) (?a AND mask m))" for f
    using Suc.IH [of "Suc k" ?a f] Suc.prems by simp
  have split: "push_bit k (a AND mask (Suc m)) =
      (if a AND 1 \<noteq> 0 then push_bit k 1 else 0) OR push_bit (Suc k) (?a AND mask m)" (is "?l = ?r")
  proof (rule bit_word_eqI)
    fix n
    assume n: "n < LENGTH(32)"
    have a1: "a AND 1 \<noteq> 0 \<longleftrightarrow> bit a 0" by (simp add: and_one_eq bit_0 odd_iff_mod_2_eq_one)
    show "bit ?l n = bit ?r n"
    proof (cases "n \<le> k")
      case True
      then show ?thesis
        using n a1
        by (cases "n = k") (auto simp: bit_simps bit_0 mask_Suc_double)
    next
      case False
      then obtain j where j: "n = Suc k + j" by (metis add_Suc_right less_imp_Suc_add not_le add_Suc)
      have "bit ?a j = bit a (Suc j)" using bit_sdrop [of j a] j n by simp
      then show ?thesis
        using n a1 j by (auto simp: bit_simps simp del: push_bit_Suc)
    qed
  qed
  show ?case
  proof (cases "a AND 1 = 0")
    case True
    show ?thesis
      unfolding l UTIL_GetFlags_loop.simps split
      by (simp only: True simp_thms if_False IH or.left_neutral)
  next
    case False
    have k: "0 \<le> int k \<and> int k < 32" using Suc.prems by simp
    show ?thesis
      unfolding l UTIL_GetFlags_loop.simps split
      by (simp only: False if_True if_False simp_thms UTIL_ReadFlags_loop.simps Let_def v k nat_int IH or.assoc)
  qed
qed

text \<open>
  C37: Reading back the letters written for a cell gives its 26 lowest bits, whatever the sign of the
  cell.
\<close>

theorem flags_round_trip: "UTIL_ReadFlags (UTIL_GetFlags a) = Inr (a AND mask 26)"
  using read_get_loop [of 0 26 a 0] by (simp add: UTIL_ReadFlags_def UTIL_GetFlags_def)

end
