(* ===== verification/Cvar_Mngr.thy ===== *)
theory Cvar_Mngr
  imports Complex_Main Prelude Text_Utils Flags "HOL-Library.List_Lexorder"
begin

text \<open>
  The cvar manager of \<^verbatim>\<open>refsapi_cvar_mngr.h\<close>: the entries it keeps for the cvars of the engine,
  the variables of plugins bound to them, the hooks called when they change and the range they are kept
  in.  Pointers to cvars and entries are numbers; a freed entry is absent from \<open>heap\<close> and its use is
  an error value.  The engine is a record of functions.  Setting a cvar calls the hook of the manager,
  which may set the cvar again: \<open>cvar_direct_set\<close> takes the depth the stack still has.  Floats are
  exact numbers; \<^verbatim>\<open>std::wstring\<close> and \<^verbatim>\<open>std::string\<close> are both lists of characters.
\<close>

section \<open>Data\<close>

datatype cvar_type = CVAR_TYPE_NONE | CVAR_TYPE_NUM | CVAR_TYPE_FLT | CVAR_TYPE_STR | CVAR_TYPE_FLG

datatype cvar_error =
    UB_dangling        \<comment> \<open>a freed entry\<close>
  | UB_float_to_int    \<comment> \<open>the number has no \<^verbatim>\<open>int\<close> value\<close>
  | UB_flag_shift
  | UB_erase           \<comment> \<open>a value that is a single quotation mark\<close>
  | Stack_overflow

record ecvar =
  ev_name :: string
  ev_string :: string
  ev_value :: rat
  ev_flags :: int

type_synonym ecvars = "nat \<Rightarrow> ecvar option"

record m_cvar =
  mc_cvar :: nat
  mc_name :: string
  mc_value :: string
  mc_desc :: string
  mc_type :: cvar_type
  mc_flags :: int
  has_min :: bool
  has_max :: bool
  min_val :: rat
  max_val :: rat

record ptr_bind =
  pb_ptr :: nat
  pb_type :: cvar_type
  pb_size :: nat

datatype amx_val = A_int int | A_flt rat | A_word "32 word" | A_str "32 word list"

text \<open>
  The engine and the C library: lookup by name, registration, \<^verbatim>\<open>Cvar_DirectSet\<close> without hooks, the
  value it computes from a text, the text of \<^verbatim>\<open>CVAR_SET_FLOAT\<close>, \<^verbatim>\<open>strtod\<close> (value, unread rest, \<^verbatim>\<open>ERANGE\<close>) and the lower case of
  the locale.
\<close>

record engine =
  CVAR_GET_POINTER :: "string \<Rightarrow> ecvars \<Rightarrow> nat option"
  CVAR_REGISTER :: "ecvar \<Rightarrow> ecvars \<Rightarrow> ecvars"
  engine_set :: "nat \<Rightarrow> string \<Rightarrow> ecvars \<Rightarrow> ecvars"
  engine_atof :: "string \<Rightarrow> rat"
  engine_ftoa :: "rat \<Rightarrow> string"
  strtod :: "string \<Rightarrow> rat \<times> string \<times> bool"
  to_lower :: "char \<Rightarrow> char"

record cvar_mngr =
  ecvars :: ecvars
  heap :: "nat \<Rightarrow> m_cvar option"
  fresh :: nat
  cvar_list :: "(string, nat) std_map"
  plugin_cvars :: "(int, nat list) std_map"
  p_cvar :: "nat \<Rightarrow> nat option"
  bind_list :: "nat \<Rightarrow> ptr_bind list option"
  hook_state :: "(int, bool) std_map"
  cvar_hook_list :: "nat \<Rightarrow> int list option"
  cells :: "nat \<Rightarrow> amx_val"                      \<comment> \<open>the variables of the plugins\<close>
  forwards :: "(int \<times> nat \<times> string \<times> string) list"   \<comment> \<open>callbacks executed\<close>
  unregistered :: "int list"

section \<open>Numbers and text\<close>

definition safe_stod :: "engine \<Rightarrow> string \<Rightarrow> rat option" where
  "safe_stod E str =
     (if str = [] then None
      else (case strtod E str of
              (result, rest, erange) \<Rightarrow>
                if rest = str then None
                else if dropWhile isspace rest \<noteq> [] then None
                else if erange then None
                else Some result))"

text \<open>The conversion of a \<^verbatim>\<open>double\<close> to \<^verbatim>\<open>int\<close> drops the fraction.\<close>

definition trunc :: "rat \<Rightarrow> int" where
  "trunc d = (if d \<ge> 0 then \<lfloor>d\<rfloor> else - \<lfloor>- d\<rfloor>)"

definition to_int :: "rat \<Rightarrow> cvar_error + int" where
  "to_int d = (if - (2 ^ 31) \<le> trunc d \<and> trunc d < 2 ^ 31 then Inr (trunc d) else Inl UB_float_to_int)"

fun show_nat :: "nat \<Rightarrow> string" where
  "show_nat n = (if n < 10 then [char_of (48 + n)] else show_nat (n div 10) @ [char_of (48 + n mod 10)])"

declare show_nat.simps [simp del]

definition to_string_int :: "int \<Rightarrow> string" where
  "to_string_int i = (if i < 0 then CHR ''-'' # show_nat (nat (- i)) else show_nat (nat i))"

text \<open>\<^verbatim>\<open>std::to_string\<close> of a float: six decimals, ties to even.\<close>

definition round_even :: "rat \<Rightarrow> int" where
  "round_even x =
     (let f = \<lfloor>x\<rfloor>; d = x - of_int f
      in if d < 1 / 2 then f else if d > 1 / 2 then f + 1 else if even f then f else f + 1)"

definition pad6 :: "string \<Rightarrow> string" where
  "pad6 s = replicate (6 - length s) (CHR ''0'') @ s"

definition to_string_float :: "rat \<Rightarrow> string" where
  "to_string_float r =
     (let n = nat (round_even (\<bar>r\<bar> * 1000000))
      in (if r < 0 then ''-'' else []) @ show_nat (n div 1000000) @ ''.'' @ pad6 (show_nat (n mod 1000000)))"

definition read_flags :: "string \<Rightarrow> cvar_error + 32 word" where
  "read_flags s = (case UTIL_ReadFlags s of Inl _ \<Rightarrow> Inl UB_flag_shift | Inr w \<Rightarrow> Inr w)"

text \<open>The text put at an address; nothing is written into a buffer of size 0.\<close>

definition put_str :: "nat \<Rightarrow> string \<Rightarrow> nat \<Rightarrow> (nat \<Rightarrow> amx_val) \<Rightarrow> nat \<Rightarrow> amx_val" where
  "put_str ptr s sz mem =
     (case set_amx_string (Some []) (Some s) sz of
        (_, Some (w # ws)) \<Rightarrow> mem(ptr := A_str (w # ws))
      | _ \<Rightarrow> mem)"

section \<open>Range and binds\<close>

type_synonym setter = "string \<Rightarrow> string \<Rightarrow> cvar_mngr \<Rightarrow> cvar_error + cvar_mngr"

text \<open>
  \<open>setc\<close> is \<^verbatim>\<open>CVAR_SET_STRING\<close>: the name and the text.  The result is whether the value of the
  cvar was in range.
\<close>

definition override_of :: "m_cvar \<Rightarrow> rat \<Rightarrow> rat option" where
  "override_of m result =
     (if has_min m \<and> result < min_val m then Some (min_val m)
      else if has_max m \<and> result > max_val m then Some (max_val m)
      else None)"

definition num_result :: "cvar_type \<Rightarrow> rat \<Rightarrow> cvar_error + rat" where
  "num_result ty result =
     (if ty = CVAR_TYPE_NUM
      then if \<bar>result\<bar> < 2 ^ 31 then Inr (of_int (trunc result)) else Inl UB_float_to_int
      else Inr result)"

definition check_range :: "engine \<Rightarrow> setter \<Rightarrow> nat \<Rightarrow> cvar_mngr \<Rightarrow> cvar_error + bool \<times> cvar_mngr" where
  "check_range E setc p st =
     (case heap st p of
        None \<Rightarrow> Inl UB_dangling
      | Some m \<Rightarrow>
          if mc_type m = CVAR_TYPE_NONE \<or> mc_type m = CVAR_TYPE_STR \<or> mc_type m = CVAR_TYPE_FLG
          then Inr (True, st)
          else
            (case ecvars st (mc_cvar m) of
               None \<Rightarrow> Inl UB_dangling
             | Some e \<Rightarrow>
                 let (num, s) = is_number (ev_string e);
                     zero = bind_r (setc (ev_name e) ''0'' st) (\<lambda>st'. Inr (False, st'))
                 in if \<not> num then zero
                    else (case safe_stod E s of
                            None \<Rightarrow> zero
                          | Some d \<Rightarrow>
                              bind_r (num_result (mc_type m) d) (\<lambda>result.
                                case override_of m result of
                                  None \<Rightarrow> Inr (True, st)
                                | Some r \<Rightarrow>
                                    bind_r (setc (mc_name m) (engine_ftoa E r) st) (\<lambda>st'. Inr (False, st'))))))"

definition copy_bind ::
  "engine \<Rightarrow> ptr_bind \<Rightarrow> ecvar \<Rightarrow> (nat \<Rightarrow> amx_val) \<Rightarrow> cvar_error + (nat \<Rightarrow> amx_val)" where
  "copy_bind E b e mem =
     (case pb_type b of
        CVAR_TYPE_NUM \<Rightarrow>
          bind_r (to_int (case safe_stod E (ev_string e) of None \<Rightarrow> 0 | Some d \<Rightarrow> d))
            (\<lambda>i. Inr (mem(pb_ptr b := A_int i)))
      | CVAR_TYPE_FLT \<Rightarrow> Inr (mem(pb_ptr b := A_flt (ev_value e)))
      | CVAR_TYPE_STR \<Rightarrow> Inr (put_str (pb_ptr b) (ev_string e) (pb_size b) mem)
      | CVAR_TYPE_FLG \<Rightarrow> bind_r (read_flags (ev_string e)) (\<lambda>w. Inr (mem(pb_ptr b := A_word w)))
      | CVAR_TYPE_NONE \<Rightarrow> Inr mem)"

fun copy_binds ::
  "engine \<Rightarrow> ptr_bind list \<Rightarrow> ecvar \<Rightarrow> (nat \<Rightarrow> amx_val) \<Rightarrow> cvar_error + (nat \<Rightarrow> amx_val)" where
  "copy_binds E [] e mem = Inr mem"
| "copy_binds E (b # bs) e mem = bind_r (copy_bind E b e mem) (copy_binds E bs e)"

definition on_change :: "engine \<Rightarrow> nat \<Rightarrow> string \<Rightarrow> cvar_mngr \<Rightarrow> cvar_error + cvar_mngr" where
  "on_change E p new_value st =
     (case heap st p of
        None \<Rightarrow> Inl UB_dangling
      | Some m \<Rightarrow>
          (case ecvars st (mc_cvar m) of
             None \<Rightarrow> Inl UB_dangling
           | Some e \<Rightarrow>
               bind_r (copy_binds E (case bind_list st p of None \<Rightarrow> [] | Some bs \<Rightarrow> bs) e (cells st))
                 (\<lambda>mem.
                   let hs = (case cvar_hook_list st (mc_cvar m) of None \<Rightarrow> [] | Some hs \<Rightarrow> hs);
                       on = filter (\<lambda>h. map_of (hook_state st) h = Some True) hs
                   in Inr (st\<lparr>cells := mem,
                              forwards := forwards st @ map (\<lambda>h. (h, p, mc_value m, new_value)) on\<rparr>))))"

section \<open>Entries\<close>

definition upd_m :: "nat \<Rightarrow> (m_cvar \<Rightarrow> m_cvar) \<Rightarrow> cvar_mngr \<Rightarrow> cvar_mngr" where
  "upd_m p f st = st\<lparr>heap := (heap st)(p := map_option f (heap st p))\<rparr>"

definition add_exists ::
  "nat option \<Rightarrow> string \<Rightarrow> bool \<Rightarrow> rat \<Rightarrow> bool \<Rightarrow> rat \<Rightarrow> cvar_mngr \<Rightarrow> cvar_error + nat option \<times> cvar_mngr" where
  "add_exists cvar desc hmin mn hmax mx st =
     (case cvar of
        None \<Rightarrow> Inr (None, st)
      | Some c \<Rightarrow>
          (case p_cvar st c of
             Some p \<Rightarrow> Inr (Some p, st)
           | None \<Rightarrow>
               (case ecvars st c of
                  None \<Rightarrow> Inl UB_dangling
                | Some e \<Rightarrow>
                    let p = fresh st;
                        m = \<lparr>mc_cvar = c, mc_name = ev_name e, mc_value = ev_string e, mc_desc = desc,
                             mc_type = CVAR_TYPE_NONE, mc_flags = ev_flags e, has_min = hmin,
                             has_max = hmax, min_val = mn, max_val = mx\<rparr>
                    in Inr (Some p,
                         st\<lparr>heap := (heap st)(p \<mapsto> m), fresh := p + 1,
                            cvar_list := sm_insert (mc_name m) p (cvar_list st),
                            p_cvar := (p_cvar st)(c \<mapsto> p)\<rparr>))))"

definition get_by_cvar :: "nat \<Rightarrow> cvar_mngr \<Rightarrow> cvar_error + nat option \<times> cvar_mngr" where
  "get_by_cvar c st =
     (case p_cvar st c of
        Some p \<Rightarrow> Inr (Some p, st)
      | None \<Rightarrow> add_exists (Some c) [] False 0 False 0 st)"

definition get_by_name :: "engine \<Rightarrow> string \<Rightarrow> cvar_mngr \<Rightarrow> cvar_error + nat option \<times> cvar_mngr" where
  "get_by_name E name0 st =
     (if name0 = [] then Inr (None, st)
      else let name = map (to_lower E) name0 in
        (case map_of (cvar_list st) name of
           Some p \<Rightarrow> Inr (Some p, st)
         | None \<Rightarrow>
             (case CVAR_GET_POINTER E name (ecvars st) of
                Some c \<Rightarrow> add_exists (Some c) [] False 0 False 0 st
              | None \<Rightarrow> Inr (None, st))))"

definition get_by_plugin :: "int \<Rightarrow> cvar_mngr \<Rightarrow> nat list option" where
  "get_by_plugin plugin_id st = map_of (plugin_cvars st) plugin_id"

definition create_cvar :: "engine \<Rightarrow> string \<Rightarrow> string \<Rightarrow> int \<Rightarrow> cvar_mngr \<Rightarrow> nat option \<times> cvar_mngr" where
  "create_cvar E name value flags st =
     (case CVAR_GET_POINTER E name (ecvars st) of
        Some c \<Rightarrow> (Some c, st)
      | None \<Rightarrow>
          let st1 = st\<lparr>ecvars := CVAR_REGISTER E
                \<lparr>ev_name = name, ev_string = value, ev_value = 0, ev_flags = flags\<rparr> (ecvars st)\<rparr>
          in (CVAR_GET_POINTER E name (ecvars st1), st1))"

section \<open>Setting a cvar\<close>

definition on_direct_set ::
  "engine \<Rightarrow> setter \<Rightarrow> nat \<Rightarrow> string \<Rightarrow> cvar_mngr \<Rightarrow> cvar_error + cvar_mngr" where
  "on_direct_set E setc c value st =
     bind_r (get_by_cvar c st) (\<lambda>(mp, st1).
       case mp of
         None \<Rightarrow> Inr st1
       | Some p \<Rightarrow>
           (case heap st1 p of
              None \<Rightarrow> Inl UB_dangling
            | Some m \<Rightarrow>
                if mc_value m = value then Inr st1
                else if mc_type m = CVAR_TYPE_NONE then Inr (upd_m p (\<lambda>m. m\<lparr>mc_value := value\<rparr>) st1)
                else
                  bind_r (check_range E setc p st1) (\<lambda>(ok, st2).
                    if \<not> ok then Inr st2
                    else bind_r (on_change E p value st2) (\<lambda>st3.
                           Inr (upd_m p (\<lambda>m. m\<lparr>mc_value := value\<rparr>) st3)))))"

text \<open>
  \<^verbatim>\<open>RF_Cvar_DirectSet_RH\<close>: the engine sets the cvar, then the manager is told.  \<open>set_by_name\<close> is
  \<^verbatim>\<open>CVAR_SET_STRING\<close>, which finds the cvar by name and sets it the same way.
\<close>

fun cvar_direct_set :: "engine \<Rightarrow> nat \<Rightarrow> nat \<Rightarrow> string \<Rightarrow> cvar_mngr \<Rightarrow> cvar_error + cvar_mngr" where
  "cvar_direct_set E 0 c value st = Inl Stack_overflow"
| "cvar_direct_set E (Suc n) c value st =
     on_direct_set E
       (\<lambda>name v st'. case CVAR_GET_POINTER E name (ecvars st') of
                        None \<Rightarrow> Inr st'
                      | Some c' \<Rightarrow> cvar_direct_set E n c' v st')
       c value (st\<lparr>ecvars := engine_set E c value (ecvars st)\<rparr>)"

definition set_by_name :: "engine \<Rightarrow> nat \<Rightarrow> setter" where
  "set_by_name E n name v st =
     (case CVAR_GET_POINTER E name (ecvars st) of
        None \<Rightarrow> Inr st
      | Some c \<Rightarrow> cvar_direct_set E n c v st)"

lemma cvar_direct_set_Suc:
  "cvar_direct_set E (Suc n) c value st =
     on_direct_set E (set_by_name E n) c value (st\<lparr>ecvars := engine_set E c value (ecvars st)\<rparr>)"
  by (simp add: set_by_name_def [abs_def])

declare cvar_direct_set.simps (2) [simp del]

section \<open>Adding and binding\<close>

definition add_to_plugin :: "int \<Rightarrow> nat \<Rightarrow> cvar_mngr \<Rightarrow> cvar_mngr" where
  "add_to_plugin plugin_id p st =
     (case map_of (plugin_cvars st) plugin_id of
        Some pc \<Rightarrow> if p \<in> set pc then st
                    else st\<lparr>plugin_cvars := sm_set plugin_id (pc @ [p]) (plugin_cvars st)\<rparr>
      | None \<Rightarrow> st\<lparr>plugin_cvars := sm_set plugin_id [p] (plugin_cvars st)\<rparr>)"

definition add_cvar ::
  "engine \<Rightarrow> int \<Rightarrow> string \<Rightarrow> string \<Rightarrow> int \<Rightarrow> string \<Rightarrow> bool \<Rightarrow> rat \<Rightarrow> bool \<Rightarrow> rat \<Rightarrow> cvar_mngr \<Rightarrow>
   cvar_error + nat option \<times> cvar_mngr" where
  "add_cvar E plugin_id name value flags desc hmin mn hmax mx st =
     (if name = [] then Inr (None, st)
      else
        bind_r (get_by_name E name st) (\<lambda>(mp, st1).
          bind_r
            (case mp of
               Some p \<Rightarrow>
                 Inr (Some p, upd_m p (\<lambda>m. m\<lparr>mc_name := name, mc_value := value, mc_flags := flags,
                   mc_desc := desc, mc_type := CVAR_TYPE_NONE, has_min := hmin, has_max := hmax,
                   min_val := mn, max_val := mx\<rparr>) st1)
             | None \<Rightarrow>
                 (case create_cvar E name value flags st1 of
                    (c, st2) \<Rightarrow> add_exists c desc hmin mn hmax mx st2))
            (\<lambda>(mp', st3).
               Inr (mp', case mp' of
                           Some p \<Rightarrow> if desc \<noteq> [] then add_to_plugin plugin_id p st3 else st3
                         | None \<Rightarrow> st3))))"

definition bind_cvar ::
  "engine \<Rightarrow> setter \<Rightarrow> cvar_type \<Rightarrow> nat option \<Rightarrow> nat \<Rightarrow> nat \<Rightarrow> cvar_mngr \<Rightarrow> cvar_error + cvar_mngr" where
  "bind_cvar E setc type mp ptr sz st =
     (case mp of
        None \<Rightarrow> Inr st
      | Some p \<Rightarrow>
          (case heap st p of
             None \<Rightarrow> Inl UB_dangling
           | Some m \<Rightarrow>
               if mc_type m \<noteq> CVAR_TYPE_NONE \<and> mc_type m \<noteq> type then Inr st
               else
                 let bs = (case bind_list st p of None \<Rightarrow> [] | Some bs \<Rightarrow> bs);
                     b = \<lparr>pb_ptr = ptr, pb_type = type, pb_size = sz\<rparr>
                 in if list_ex (\<lambda>b. pb_ptr b = ptr) bs then Inr st
                    else
                      (case ecvars st (mc_cvar m) of
                         None \<Rightarrow> Inl UB_dangling
                       | Some e \<Rightarrow>
                           bind_r (copy_bind E b e (cells st)) (\<lambda>mem.
                             bind_r (check_range E setc p
                               (upd_m p (\<lambda>m. m\<lparr>mc_type := type\<rparr>)
                                  (st\<lparr>cells := mem, bind_list := (bind_list st)(p \<mapsto> bs @ [b])\<rparr>)))
                               (\<lambda>(ok, st'). Inr st')))))"

section \<open>Reading and writing values\<close>

definition get_value ::
  "cvar_type \<Rightarrow> nat option \<Rightarrow> nat \<Rightarrow> nat \<Rightarrow> cvar_mngr \<Rightarrow> cvar_error + amx_val \<times> cvar_mngr" where
  "get_value type mp ptr ptr_len st =
     (case mp of
        None \<Rightarrow> Inr (A_int 0, st)
      | Some p \<Rightarrow>
          (case heap st p of
             None \<Rightarrow> Inl UB_dangling
           | Some m \<Rightarrow>
               (case ecvars st (mc_cvar m) of
                  None \<Rightarrow> Inl UB_dangling
                | Some e \<Rightarrow>
                    (case type of
                       CVAR_TYPE_NUM \<Rightarrow> bind_r (to_int (ev_value e)) (\<lambda>i. Inr (A_int i, st))
                     | CVAR_TYPE_FLT \<Rightarrow> Inr (A_flt (ev_value e), st)
                     | CVAR_TYPE_STR \<Rightarrow>
                         let result = min ptr_len (length (mc_value m))
                         in Inr (A_int (int result),
                                 st\<lparr>cells := put_str ptr (mc_value m) (result + 1) (cells st)\<rparr>)
                     | CVAR_TYPE_FLG \<Rightarrow> bind_r (read_flags (mc_value m)) (\<lambda>w. Inr (A_word w, st))
                     | CVAR_TYPE_NONE \<Rightarrow> Inr (A_int 0, st)))))"

text \<open>The type and the value of a set, the value read as that type.\<close>

datatype set_val = Set_num int | Set_flt rat | Set_str string | Set_flg "32 word" | Set_none

definition set_value ::
  "(nat \<Rightarrow> string \<Rightarrow> cvar_mngr \<Rightarrow> cvar_error + cvar_mngr) \<Rightarrow> set_val \<Rightarrow> nat option \<Rightarrow> cvar_mngr \<Rightarrow>
   cvar_error + cvar_mngr" where
  "set_value direct_set v mp st =
     (case mp of
        None \<Rightarrow> Inr st
      | Some p \<Rightarrow>
          (case heap st p of
             None \<Rightarrow> Inl UB_dangling
           | Some m \<Rightarrow>
               (case v of
                  Set_num i \<Rightarrow> direct_set (mc_cvar m) (to_string_int i) st
                | Set_flt r \<Rightarrow> direct_set (mc_cvar m) (to_string_float r) st
                | Set_str s \<Rightarrow> direct_set (mc_cvar m) s st
                | Set_flg w \<Rightarrow> direct_set (mc_cvar m) (UTIL_GetFlags w) st
                | Set_none \<Rightarrow> Inr st)))"

section \<open>Hooks\<close>

definition create_hook :: "int \<Rightarrow> nat option \<Rightarrow> bool \<Rightarrow> cvar_mngr \<Rightarrow> cvar_error + int \<times> cvar_mngr" where
  "create_hook fwd mp is_enable st =
     (case mp of
        None \<Rightarrow> Inr (- 1, st)
      | Some p \<Rightarrow>
          if map_of (hook_state st) fwd \<noteq> None then Inr (- 1, st)
          else
            (case heap st p of
               None \<Rightarrow> Inl UB_dangling
             | Some m \<Rightarrow>
                 let hs = (case cvar_hook_list st (mc_cvar m) of None \<Rightarrow> [] | Some hs \<Rightarrow> hs)
                 in Inr (fwd, st\<lparr>hook_state := sm_insert fwd is_enable (hook_state st),
                                 cvar_hook_list := (cvar_hook_list st)(mc_cvar m \<mapsto> hs @ [fwd])\<rparr>)))"

definition cvar_hook_state :: "int \<Rightarrow> bool \<Rightarrow> cvar_mngr \<Rightarrow> bool \<times> cvar_mngr" where
  "cvar_hook_state fwd is_enable st =
     (case map_of (hook_state st) fwd of
        None \<Rightarrow> (False, st)
      | Some _ \<Rightarrow> (True, st\<lparr>hook_state := sm_set fwd is_enable (hook_state st)\<rparr>))"

section \<open>Clearing\<close>

definition clear_plugin :: "int \<Rightarrow> cvar_mngr \<Rightarrow> cvar_mngr" where
  "clear_plugin plugin_id st =
     (case map_of (plugin_cvars st) plugin_id of
        None \<Rightarrow> st
      | Some _ \<Rightarrow> st\<lparr>plugin_cvars := sm_set plugin_id [] (plugin_cvars st)\<rparr>)"

definition clear_plugin_all :: "cvar_mngr \<Rightarrow> cvar_mngr" where
  "clear_plugin_all st = st\<lparr>plugin_cvars := []\<rparr>"

definition clear_cvar_list :: "cvar_mngr \<Rightarrow> cvar_mngr" where
  "clear_cvar_list st =
     st\<lparr>heap := (\<lambda>p. if p \<in> snd ` set (cvar_list st) then None else heap st p), cvar_list := []\<rparr>"

definition clear_pcvar_all :: "cvar_mngr \<Rightarrow> cvar_mngr" where
  "clear_pcvar_all st = st\<lparr>p_cvar := (\<lambda>_. None)\<rparr>"

definition clear_bind_list :: "cvar_mngr \<Rightarrow> cvar_mngr" where
  "clear_bind_list st = st\<lparr>bind_list := (\<lambda>_. None)\<rparr>"

definition clear_hook_list :: "cvar_mngr \<Rightarrow> cvar_mngr" where
  "clear_hook_list st = st\<lparr>cvar_hook_list := (\<lambda>_. None)\<rparr>"

definition clear_hook_state :: "cvar_mngr \<Rightarrow> cvar_mngr" where
  "clear_hook_state st =
     st\<lparr>unregistered := unregistered st @ filter (\<lambda>h. h \<noteq> - 1) (map fst (hook_state st)), hook_state := []\<rparr>"

definition clear_cvars :: "cvar_mngr \<Rightarrow> cvar_mngr" where
  "clear_cvars st = clear_plugin_all (clear_bind_list (clear_hook_state (clear_hook_list st)))"

definition clear_cvars_all :: "cvar_mngr \<Rightarrow> cvar_mngr" where
  "clear_cvars_all st =
     clear_pcvar_all (clear_cvar_list (clear_plugin_all (clear_bind_list (clear_hook_state
       (clear_hook_list st)))))"

end
