(* ===== verification/Cvar_Props.thy ===== *)
theory Cvar_Props
  imports Cvar_Mngr
begin

text \<open>
  What the cvar manager promises: a bound cvar stays in its range and the variables bound to it follow
  it, as long as the bounds can be met; one entry per cvar; and the cases in which sets get lost.
\<close>

section \<open>The engine\<close>

text \<open>
  What is used of the engine: setting a cvar changes its text and value and nothing else, a lookup by
  name does not depend on texts and values and finds a cvar that exists, and registering a cvar keeps
  the others and keeps the names distinct.
\<close>

definition names_ok :: "ecvars \<Rightarrow> bool" where
  "names_ok ecv \<longleftrightarrow>
     (\<forall>c c' e e'. ecv c = Some e \<longrightarrow> ecv c' = Some e' \<longrightarrow> ev_name e = ev_name e' \<longrightarrow> c = c')"

definition engine_ok :: "engine \<Rightarrow> bool" where
  "engine_ok E \<longleftrightarrow>
     (\<forall>c v ecv e. ecv c = Some e \<longrightarrow>
        engine_set E c v ecv = ecv(c \<mapsto> e\<lparr>ev_string := v, ev_value := engine_atof E v\<rparr>)) \<and>
     (\<forall>nm c v ecv. CVAR_GET_POINTER E nm (engine_set E c v ecv) = CVAR_GET_POINTER E nm ecv) \<and>
     (\<forall>nm ecv c. CVAR_GET_POINTER E nm ecv = Some c \<longrightarrow> ecv c \<noteq> None) \<and>
     (\<forall>e ecv. names_ok ecv \<longrightarrow> names_ok (CVAR_REGISTER E e ecv)) \<and>
     (\<forall>e ecv c e'. ecv c = Some e' \<longrightarrow> CVAR_REGISTER E e ecv c = Some e')"

lemma engine_set_ok:
  "engine_ok E \<Longrightarrow> ecv c = Some e \<Longrightarrow>
   engine_set E c v ecv = ecv(c \<mapsto> e\<lparr>ev_string := v, ev_value := engine_atof E v\<rparr>)"
  by (simp add: engine_ok_def)

lemma engine_get_ok [simp]:
  "engine_ok E \<Longrightarrow> CVAR_GET_POINTER E nm (engine_set E c v ecv) = CVAR_GET_POINTER E nm ecv"
  by (simp add: engine_ok_def)

section \<open>One cvar\<close>

text \<open>
  What a text is for an entry: a good one is left alone, another one is replaced, by the bound or by
  \<open>0\<close>.  \<open>fits\<close> excludes the numbers that have no \<^verbatim>\<open>int\<close> value.
\<close>

definition numeric :: "m_cvar \<Rightarrow> bool" where
  "numeric m \<longleftrightarrow> mc_type m = CVAR_TYPE_NUM \<or> mc_type m = CVAR_TYPE_FLT"

definition number_of :: "engine \<Rightarrow> string \<Rightarrow> rat option" where
  "number_of E v = (if fst (is_number v) then safe_stod E (snd (is_number v)) else None)"

definition used_number :: "m_cvar \<Rightarrow> rat \<Rightarrow> rat" where
  "used_number m d = (if mc_type m = CVAR_TYPE_NUM then of_int (trunc d) else d)"

definition fits :: "engine \<Rightarrow> string \<Rightarrow> bool" where
  "fits E v \<longleftrightarrow> (case safe_stod E v of None \<Rightarrow> True | Some d \<Rightarrow> \<bar>d\<bar> < 2 ^ 31)
     \<and> (case number_of E v of None \<Rightarrow> True | Some d \<Rightarrow> \<bar>d\<bar> < 2 ^ 31)"

definition good :: "engine \<Rightarrow> m_cvar \<Rightarrow> string \<Rightarrow> bool" where
  "good E m v \<longleftrightarrow> fits E v
     \<and> (case number_of E v of None \<Rightarrow> False | Some d \<Rightarrow> override_of m (used_number m d) = None)"

text \<open>The replacement of a text that is not good.\<close>

definition replacement :: "engine \<Rightarrow> m_cvar \<Rightarrow> string \<Rightarrow> string" where
  "replacement E m v =
     (case number_of E v of
        None \<Rightarrow> ''0''
      | Some d \<Rightarrow> (case override_of m (used_number m d) of None \<Rightarrow> v | Some r \<Rightarrow> engine_ftoa E r))"

text \<open>What a variable bound to the cvar is to hold when its text is \<open>v\<close>.\<close>

definition bound_val :: "engine \<Rightarrow> m_cvar \<Rightarrow> string \<Rightarrow> amx_val" where
  "bound_val E m v =
     (if mc_type m = CVAR_TYPE_NUM
      then A_int (trunc (case safe_stod E v of None \<Rightarrow> 0 | Some d \<Rightarrow> d))
      else A_flt (engine_atof E v))"

lemma num_result_fits:
  "number_of E v = Some d \<Longrightarrow> fits E v \<Longrightarrow> num_result (mc_type m) d = Inr (used_number m d)"
  by (auto simp: num_result_def used_number_def fits_def)

lemma check_range_numeric:
  assumes "heap st p = Some m" "numeric m" "ecvars st (mc_cvar m) = Some e" "fits E (ev_string e)"
  shows "check_range E setc p st =
    (case number_of E (ev_string e) of
       None \<Rightarrow> bind_r (setc (ev_name e) ''0'' st) (\<lambda>st'. Inr (False, st'))
     | Some d \<Rightarrow>
         (case override_of m (used_number m d) of
            None \<Rightarrow> Inr (True, st)
          | Some r \<Rightarrow> bind_r (setc (mc_name m) (engine_ftoa E r) st) (\<lambda>st'. Inr (False, st'))))"
proof -
  have t: "\<not> (mc_type m = CVAR_TYPE_NONE \<or> mc_type m = CVAR_TYPE_STR \<or> mc_type m = CVAR_TYPE_FLG)"
    using assms(2) by (auto simp: numeric_def)
  obtain num s where ns: "is_number (ev_string e) = (num, s)" by fastforce
  show ?thesis
  proof (cases "number_of E (ev_string e)")
    case None
    then show ?thesis
      using assms t ns by (auto simp: check_range_def number_of_def split: if_splits)
  next
    case (Some d)
    then have n: num "safe_stod E s = Some d"
      using ns by (auto simp: number_of_def split: if_splits)
    from num_result_fits [OF Some assms(4)] have "num_result (mc_type m) d = Inr (used_number m d)" .
    with n Some show ?thesis
      using assms t ns by (simp add: check_range_def)
  qed
qed

text \<open>The binds of a cvar have its type; writing them one by one never fails.\<close>

definition binds_of :: "cvar_mngr \<Rightarrow> nat \<Rightarrow> ptr_bind list" where
  "binds_of st p = (case bind_list st p of None \<Rightarrow> [] | Some bs \<Rightarrow> bs)"

lemma trunc_bound: "\<bar>d\<bar> < 2 ^ 31 \<Longrightarrow> - (2 ^ 31) \<le> trunc d \<and> trunc d < 2 ^ 31"
proof -
  assume "\<bar>d\<bar> < 2 ^ 31"
  then have d: "d < 2147483648" "- d < 2147483648" by auto
  have up: "\<lfloor>x\<rfloor> < 2147483648" if "x < 2147483648" for x :: rat
    using that by (simp add: floor_less_iff)
  show ?thesis
  proof (cases "d \<ge> 0")
    case True
    then have "0 \<le> \<lfloor>d\<rfloor>" by simp
    then show ?thesis using True up [OF d(1)] by (simp add: trunc_def)
  next
    case False
    then have "0 \<le> - d" by simp
    then have "0 \<le> \<lfloor>- d\<rfloor>" by (simp only: zero_le_floor)
    moreover define k where "k = \<lfloor>- d\<rfloor>"
    ultimately have "0 \<le> k" "k < 2147483648" using up [OF d(2)] by (simp_all only:)
    moreover have "trunc d = - k" by (simp only: trunc_def False if_False k_def)
    ultimately show ?thesis by simp
  qed
qed

lemma copy_bind_numeric:
  assumes "numeric m" "pb_type b = mc_type m" "fits E (ev_string e)" "ev_value e = engine_atof E (ev_string e)"
  shows "copy_bind E b e mem = Inr (mem(pb_ptr b := bound_val E m (ev_string e)))"
proof (cases "mc_type m = CVAR_TYPE_NUM")
  case True
  let ?d = "case safe_stod E (ev_string e) of None \<Rightarrow> 0 | Some d \<Rightarrow> d"
  have "\<bar>?d\<bar> < 2 ^ 31" using assms(3) by (auto simp: fits_def split: option.splits)
  from trunc_bound [OF this] have "to_int ?d = Inr (trunc ?d)" by (simp add: to_int_def)
  then show ?thesis using True assms(2) by (simp add: copy_bind_def bound_val_def)
next
  case False
  then have "mc_type m = CVAR_TYPE_FLT" using assms(1) by (simp add: numeric_def)
  then show ?thesis using assms by (simp add: copy_bind_def bound_val_def)
qed

lemma copy_binds_numeric:
  assumes "numeric m" "list_all (\<lambda>b. pb_type b = mc_type m) bs" "fits E (ev_string e)"
    and "ev_value e = engine_atof E (ev_string e)"
  shows "copy_binds E bs e mem =
    Inr (\<lambda>a. if a \<in> pb_ptr ` set bs then bound_val E m (ev_string e) else mem a)"
  using assms(2)
proof (induction bs arbitrary: mem)
  case (Cons b bs)
  then show ?case
    using copy_bind_numeric [OF assms(1) _ assms(3,4), of b mem] by (auto simp: fun_eq_iff)
qed simp

section \<open>A tracked cvar\<close>

text \<open>
  \<open>entry_at\<close>: the entry \<open>p\<close> belongs to the cvar \<open>c\<close> and has a number type.  \<open>tracks\<close>: its value is a
  good one, and every variable bound to it holds that value.
\<close>

definition entry_at :: "engine \<Rightarrow> nat \<Rightarrow> nat \<Rightarrow> m_cvar \<Rightarrow> ecvar \<Rightarrow> cvar_mngr \<Rightarrow> bool" where
  "entry_at E c p m e st \<longleftrightarrow>
     p_cvar st c = Some p \<and> heap st p = Some m \<and> mc_cvar m = c \<and> ecvars st c = Some e
     \<and> CVAR_GET_POINTER E (ev_name e) (ecvars st) = Some c
     \<and> CVAR_GET_POINTER E (mc_name m) (ecvars st) = Some c
     \<and> numeric m"

definition tracks :: "engine \<Rightarrow> nat \<Rightarrow> nat \<Rightarrow> m_cvar \<Rightarrow> ecvar \<Rightarrow> cvar_mngr \<Rightarrow> bool" where
  "tracks E c p m e st \<longleftrightarrow>
     entry_at E c p m e st \<and> good E m (mc_value m)
     \<and> list_all (\<lambda>b. pb_type b = mc_type m \<and> cells st (pb_ptr b) = bound_val E m (mc_value m))
         (binds_of st p)"

definition with_text :: "engine \<Rightarrow> string \<Rightarrow> ecvar \<Rightarrow> ecvar" where
  "with_text E v e = e\<lparr>ev_string := v, ev_value := engine_atof E v\<rparr>"

lemma with_text_simps [simp]:
  "ev_name (with_text E v e) = ev_name e" "ev_string (with_text E v e) = v"
  "ev_value (with_text E v e) = engine_atof E v" "with_text E w (with_text E v e) = with_text E w e"
  by (simp_all add: with_text_def)

lemma value_irrelevant0 [simp]:
  "override_of (m\<lparr>mc_value := v\<rparr>) = override_of m" "used_number (m\<lparr>mc_value := v\<rparr>) = used_number m"
  by (rule ext, simp add: override_of_def, rule ext, simp add: used_number_def)

lemma value_irrelevant [simp]:
  "numeric (m\<lparr>mc_value := v\<rparr>) = numeric m" "good E (m\<lparr>mc_value := v\<rparr>) w = good E m w"
  "bound_val E (m\<lparr>mc_value := v\<rparr>) w = bound_val E m w"
  "replacement E (m\<lparr>mc_value := v\<rparr>) w = replacement E m w"
  by (simp_all add: numeric_def good_def bound_val_def replacement_def cong: option.case_cong)

text \<open>The state the engine leaves for the hook.\<close>

definition after_engine :: "engine \<Rightarrow> nat \<Rightarrow> string \<Rightarrow> ecvar \<Rightarrow> cvar_mngr \<Rightarrow> cvar_mngr" where
  "after_engine E c v e st = st\<lparr>ecvars := (ecvars st)(c \<mapsto> with_text E v e)\<rparr>"

lemma after_engine_simps [simp]:
  "p_cvar (after_engine E c v e st) = p_cvar st" "heap (after_engine E c v e st) = heap st"
  "ecvars (after_engine E c v e st) = (ecvars st)(c \<mapsto> with_text E v e)"
  "bind_list (after_engine E c v e st) = bind_list st" "cells (after_engine E c v e st) = cells st"
  "cvar_hook_list (after_engine E c v e st) = cvar_hook_list st"
  "hook_state (after_engine E c v e st) = hook_state st"
  "forwards (after_engine E c v e st) = forwards st"
  "binds_of (after_engine E c v e st) p = binds_of st p"
  by (simp_all add: after_engine_def binds_of_def)

lemma entry_after_engine:
  assumes "engine_ok E" "entry_at E c p m e st"
  shows "entry_at E c p m (with_text E v e) (after_engine E c v e st)"
    and "st\<lparr>ecvars := engine_set E c v (ecvars st)\<rparr> = after_engine E c v e st"
proof -
  from assms(2) have e: "ecvars st c = Some e" by (simp add: entry_at_def)
  with assms(1) have s: "engine_set E c v (ecvars st) = (ecvars st)(c \<mapsto> with_text E v e)"
    by (simp add: engine_set_ok with_text_def)
  then show "st\<lparr>ecvars := engine_set E c v (ecvars st)\<rparr> = after_engine E c v e st"
    by (simp add: after_engine_def)
  have "CVAR_GET_POINTER E nm ((ecvars st)(c \<mapsto> with_text E v e)) = CVAR_GET_POINTER E nm (ecvars st)" for nm
    using assms(1) s engine_get_ok by metis
  then show "entry_at E c p m (with_text E v e) (after_engine E c v e st)"
    using assms(2) by (simp add: entry_at_def)
qed

lemma tracks_after_engine:
  assumes "engine_ok E" "tracks E c p m e st"
  shows "tracks E c p m (with_text E v e) (after_engine E c v e st)"
  using entry_after_engine (1) [OF assms(1)] assms(2) by (simp add: tracks_def)

lemma bind_r_Inr_right [simp]: "bind_r m Inr = m"
  by (cases m) simp_all

lemma on_change_ok:
  assumes "heap st p = Some m" "ecvars st (mc_cvar m) = Some e"
    and "copy_binds E (binds_of st p) e (cells st) = Inr mem"
  shows "\<exists>fw. on_change E p v st = Inr (st\<lparr>cells := mem, forwards := fw\<rparr>)"
  using assms by (simp add: on_change_def binds_of_def Let_def) (rule exI, rule refl)

text \<open>A good text is accepted.\<close>

lemma set_good:
  assumes "engine_ok E" "tracks E c p m e st" "good E m v"
  shows "\<exists>st'. cvar_direct_set E (Suc n) c v st = Inr st'
    \<and> tracks E c p (m\<lparr>mc_value := v\<rparr>) (with_text E v e) st' \<and> bind_list st' = bind_list st"
proof -
  let ?s = "after_engine E c v e st"
  have en: "entry_at E c p m e st" using assms(2) by (simp add: tracks_def)
  note t = tracks_after_engine [OF assms(1,2), of v] entry_after_engine(2) [OF assms(1) en, of v]
  note tr = t(1) [unfolded tracks_def entry_at_def]
  have get: "get_by_cvar c ?s = Inr (Some p, ?s)" using tr by (simp add: get_by_cvar_def)
  show ?thesis
  proof (cases "mc_value m = v")
    case True
    then have "cvar_direct_set E (Suc n) c v st = Inr ?s"
      using tr get by (simp add: cvar_direct_set_Suc t(2) on_direct_set_def)
    moreover have "m\<lparr>mc_value := v\<rparr> = m" using True by auto
    ultimately show ?thesis using t(1) by simp
  next
    case False
    have num: "numeric m" and ec: "ecvars ?s (mc_cvar m) = Some (with_text E v e)" using tr by simp_all
    have ty: "mc_type m \<noteq> CVAR_TYPE_NONE" using num by (auto simp: numeric_def)
    from assms(3) have f: "fits E v" by (simp add: good_def)
    from assms(3) obtain d where "number_of E v = Some d" "override_of m (used_number m d) = None"
      by (auto simp: good_def split: option.splits)
    then have cr: "check_range E (set_by_name E n) p ?s = Inr (True, ?s)"
      using check_range_numeric [of ?s p m "with_text E v e"] tr num ec f by simp
    have bt: "list_all (\<lambda>b. pb_type b = mc_type m) (binds_of ?s p)"
      using tr by (auto simp: list_all_iff)
    let ?mem = "\<lambda>a. if a \<in> pb_ptr ` set (binds_of ?s p) then bound_val E m v else cells ?s a"
    have cb: "copy_binds E (binds_of ?s p) (with_text E v e) (cells ?s) = Inr ?mem"
      using copy_binds_numeric [OF num bt, of E "with_text E v e"] f by (simp add: fun_eq_iff)
    obtain fw where oc: "on_change E p v ?s = Inr (?s\<lparr>cells := ?mem, forwards := fw\<rparr>)"
      using on_change_ok [OF _ ec cb] tr by auto
    let ?t = "upd_m p (\<lambda>m. m\<lparr>mc_value := v\<rparr>) (?s\<lparr>cells := ?mem, forwards := fw\<rparr>)"
    have "cvar_direct_set E (Suc n) c v st = Inr ?t"
      using tr get False ty cr oc by (simp add: cvar_direct_set_Suc t(2) on_direct_set_def)
    moreover have "tracks E c p (m\<lparr>mc_value := v\<rparr>) (with_text E v e) ?t \<and> bind_list ?t = bind_list st"
      using tr assms(3) by (simp add: tracks_def entry_at_def upd_m_def binds_of_def list_all_iff)
    ultimately show ?thesis by blast
  qed
qed

text \<open>Another one is replaced in a nested call.\<close>

lemma set_bad:
  assumes "engine_ok E" "entry_at E c p m e st" "\<not> good E m v" "fits E v" "mc_value m \<noteq> v"
  shows "cvar_direct_set E (Suc n) c v st =
    cvar_direct_set E n c (replacement E m v) (after_engine E c v e st)"
proof -
  let ?s = "after_engine E c v e st"
  note t = entry_after_engine [OF assms(1,2), of v]
  note tr = t(1) [unfolded entry_at_def]
  have get: "get_by_cvar c ?s = Inr (Some p, ?s)" using tr by (simp add: get_by_cvar_def)
  have num: "numeric m" and ec: "ecvars ?s (mc_cvar m) = Some (with_text E v e)" using tr by simp_all
  have ty: "mc_type m \<noteq> CVAR_TYPE_NONE" using num by (auto simp: numeric_def)
  have nm: "set_by_name E n (ev_name e) w ?s = cvar_direct_set E n c w ?s"
    "set_by_name E n (mc_name m) w ?s = cvar_direct_set E n c w ?s" for w
    using tr by (simp_all add: set_by_name_def)
  have "check_range E (set_by_name E n) p ?s =
      bind_r (cvar_direct_set E n c (replacement E m v) ?s) (\<lambda>st'. Inr (False, st'))"
  proof (cases "number_of E v")
    case None
    then show ?thesis
      using check_range_numeric [of ?s p m "with_text E v e"] tr num ec assms(4) nm
      by (simp add: replacement_def)
  next
    case (Some d)
    then obtain r where r: "override_of m (used_number m d) = Some r"
      using assms(3,4) by (auto simp: good_def)
    then show ?thesis
      using check_range_numeric [of ?s p m "with_text E v e"] tr num ec assms(4) nm Some
      by (simp add: replacement_def)
  qed
  then show ?thesis
    using tr get ty assms(5)
    by (cases "cvar_direct_set E n c (replacement E m v) ?s")
       (simp_all add: cvar_direct_set_Suc t(2) on_direct_set_def)
qed

section \<open>Range and termination\<close>

text \<open>
  The bounds can be met: \<open>0\<close> is a number, and the text the engine writes for a bound is a good one.
\<close>

definition bounds_ok :: "engine \<Rightarrow> m_cvar \<Rightarrow> bool" where
  "bounds_ok E m \<longleftrightarrow> number_of E ''0'' = Some 0 \<and> fits E ''0''
     \<and> (\<not> has_min m \<or> good E m (engine_ftoa E (min_val m)))
     \<and> (\<not> has_max m \<or> good E m (engine_ftoa E (max_val m)))"

definition settled_text :: "engine \<Rightarrow> m_cvar \<Rightarrow> string \<Rightarrow> string" where
  "settled_text E m v =
     (let r = replacement E m v
      in if good E m v then v else if good E m r then r else replacement E m r)"

lemma override_cases:
  "override_of m d = Some r \<Longrightarrow> has_min m \<and> r = min_val m \<or> has_max m \<and> r = max_val m"
  by (auto simp: override_of_def split: if_splits)

lemma replaced_number:
  assumes "bounds_ok E m" "\<not> good E m v" "fits E v" "number_of E v = Some d"
  shows "good E m (replacement E m v)"
proof -
  obtain r where "override_of m (used_number m d) = Some r"
    using assms(2-4) by (auto simp: good_def)
  with override_cases [OF this] show ?thesis
    using assms(1,4) by (auto simp: bounds_ok_def replacement_def)
qed

lemma settled_cases:
  assumes "bounds_ok E m" "fits E v" "\<not> good E m v"
  shows "good E m (replacement E m v)
    \<or> \<not> good E m (replacement E m v) \<and> fits E (replacement E m v)
      \<and> good E m (replacement E m (replacement E m v))"
proof (cases "number_of E v")
  case None
  then have r: "replacement E m v = ''0''" by (simp add: replacement_def)
  have z: "fits E ''0''" "number_of E ''0'' = Some 0" using assms(1) by (simp_all add: bounds_ok_def)
  show ?thesis using replaced_number [OF assms(1) _ z] r z by auto
next
  case (Some d)
  from replaced_number [OF assms(1,3,2) this] show ?thesis by blast
qed


text \<open>
  As long as an integer cvar with two bounds is tracked, and its text needs no trimming, every
  variable bound to it holds an integer between the bounds.
\<close>

theorem bound_variable_in_range:
  assumes "tracks E c p m e st" "mc_type m = CVAR_TYPE_NUM" "has_min m" "has_max m"
    and "snd (is_number (mc_value m)) = mc_value m" "b \<in> set (binds_of st p)"
  shows "\<exists>i. cells st (pb_ptr b) = A_int i \<and> min_val m \<le> of_int i \<and> of_int i \<le> max_val m"
proof -
  from assms(1) have g: "good E m (mc_value m)"
    and v: "cells st (pb_ptr b) = bound_val E m (mc_value m)"
    using assms(6) by (auto simp: tracks_def list_all_iff)
  from g obtain d where d: "number_of E (mc_value m) = Some d" "override_of m (used_number m d) = None"
    by (auto simp: good_def split: option.splits)
  then have "safe_stod E (mc_value m) = Some d"
    using assms(5) by (auto simp: number_of_def split: if_splits)
  then have "cells st (pb_ptr b) = A_int (trunc d)"
    using v assms(2) by (simp add: bound_val_def)
  moreover have "min_val m \<le> of_int (trunc d) \<and> of_int (trunc d) \<le> max_val m"
    using d(2) assms(2-4) by (auto simp: override_of_def used_number_def split: if_splits)
  ultimately show ?thesis by blast
qed

section \<open>Bounds that contradict each other\<close>

text \<open>
  When the minimum of an entry is above its maximum, both written back exactly by the engine, any
  number makes the manager set the one bound after the other without end: the call fails for every
  depth of the stack.
\<close>

theorem contradicting_bounds_overflow:
  assumes "engine_ok E" "entry_at E c p m e st" "fits E v" "number_of E v = Some d" "mc_value m \<noteq> v"
    and "has_min m" "has_max m" "max_val m < min_val m"
    and "list_all (\<lambda>r. fits E (engine_ftoa E r) \<and> mc_value m \<noteq> engine_ftoa E r
           \<and> map_option (used_number m) (number_of E (engine_ftoa E r)) = Some r) [min_val m, max_val m]"
  shows "cvar_direct_set E n c v st = Inl Stack_overflow"
  using assms(2-5)
proof (induction n arbitrary: v d st e)
  case (Suc n)
  have bad: "\<not> good E m v"
    using Suc.prems(3) assms(6-8) by (auto simp: good_def override_of_def)
  obtain r where r: "r = min_val m \<or> r = max_val m" "replacement E m v = engine_ftoa E r"
    using Suc.prems(3) assms(6-8) by (cases "used_number m d < min_val m")
      (auto simp: replacement_def override_of_def)
  from r(1) assms(9) have f: "fits E (engine_ftoa E r)" "mc_value m \<noteq> engine_ftoa E r"
    and "number_of E (engine_ftoa E r) \<noteq> None" by auto
  then obtain d' where d': "number_of E (engine_ftoa E r) = Some d'" by auto
  show ?case
    using set_bad [OF assms(1) Suc.prems(1) bad Suc.prems(2,4)]
      Suc.IH [OF entry_after_engine(1) [OF assms(1) Suc.prems(1)] f(1) d' f(2)] r(2) by simp
qed simp

section \<open>A cvar that is added again\<close>

text \<open>
  When a plugin creates a cvar that is known already, its entry loses its type: from then on
  setting the cvar changes neither the variables bound to it nor calls the hooks, of any plugin,
  until some plugin binds it again.
\<close>

theorem added_again_is_silent:
  assumes "engine_ok E" "p_cvar st c = Some p" "heap st p = Some m" "ecvars st c = Some e"
    and "map_of (cvar_list st) (map (to_lower E) name) = Some p" "name \<noteq> []"
  shows "\<exists>st1 st2. add_cvar E plugin_id name value flags desc hmin mn hmax mx st = Inr (Some p, st1)
    \<and> cvar_direct_set E (Suc n) c v st1 = Inr st2
    \<and> cells st2 = cells st \<and> forwards st2 = forwards st \<and> bind_list st2 = bind_list st
    \<and> map_option ev_string (ecvars st2 c) = Some v"
proof -
  let ?m = "m\<lparr>mc_name := name, mc_value := value, mc_flags := flags, mc_desc := desc,
    mc_type := CVAR_TYPE_NONE, has_min := hmin, has_max := hmax, min_val := mn, max_val := mx\<rparr>"
  let ?s = "st\<lparr>heap := (heap st)(p := Some ?m)\<rparr>"
  let ?s1 = "if desc \<noteq> [] then add_to_plugin plugin_id p ?s else ?s"
  have add: "add_cvar E plugin_id name value flags desc hmin mn hmax mx st = Inr (Some p, ?s1)"
    using assms by (simp add: add_cvar_def get_by_name_def upd_m_def)
  have s1: "p_cvar ?s1 c = Some p" "heap ?s1 p = Some ?m" "ecvars ?s1 = ecvars st" "cells ?s1 = cells st"
    "forwards ?s1 = forwards st" "bind_list ?s1 = bind_list st"
    using assms(2) by (simp_all add: add_to_plugin_def split: option.splits)
  define s1 where "s1 = ?s1"
  note s1 = s1 [folded s1_def]
  let ?e = "(ecvars st)(c \<mapsto> e\<lparr>ev_string := v, ev_value := engine_atof E v\<rparr>)"
  have es: "engine_set E c v (ecvars s1) = ?e"
    using s1(3) assms(4) by (simp add: engine_set_ok [OF assms(1)])
  let ?t = "s1\<lparr>ecvars := ?e\<rparr>"
  define t2 where "t2 = (if mc_value ?m = v then ?t else upd_m p (\<lambda>m. m\<lparr>mc_value := v\<rparr>) ?t)"
  have set2: "cvar_direct_set E (Suc n) c v s1 = Inr t2"
    unfolding cvar_direct_set_Suc es on_direct_set_def get_by_cvar_def t2_def
    using s1(1,2) by simp
  have "cells t2 = cells st \<and> forwards t2 = forwards st \<and> bind_list t2 = bind_list st
      \<and> map_option ev_string (ecvars t2 c) = Some v"
    using s1 by (simp add: t2_def upd_m_def)
  then show ?thesis
    by (intro exI [of _ s1] exI [of _ t2] conjI) (use add [folded s1_def] set2 in simp_all)
qed

section \<open>Examples\<close>

text \<open>A small engine with one cvar, whole numbers and the identity for lower case.\<close>

definition digits_value :: "string \<Rightarrow> rat" where
  "digits_value s = of_nat (fold (\<lambda>c a. a * 10 + (of_char c - 48)) s 0)"

definition small_engine :: engine where
  "small_engine = \<lparr>
     CVAR_GET_POINTER = (\<lambda>nm ecv. if nm = ''sv_x'' \<and> ecv 1 \<noteq> None then Some 1 else None),
     CVAR_REGISTER = (\<lambda>e ecv. ecv),
     engine_set = (\<lambda>c v ecv. case ecv c of None \<Rightarrow> ecv
                     | Some e \<Rightarrow> ecv(c \<mapsto> e\<lparr>ev_string := v, ev_value := digits_value v\<rparr>)),
     engine_atof = digits_value,
     engine_ftoa = (\<lambda>r. show_nat (nat \<lfloor>r\<rfloor>)),
     strtod = (\<lambda>s. (digits_value s, [], False)),
     to_lower = (\<lambda>c. c)\<rparr>"

lemma small_engine_ok: "engine_ok small_engine"
  by (auto simp: engine_ok_def small_engine_def split: option.splits)

definition x_cvar :: "string \<Rightarrow> ecvar" where
  "x_cvar v = \<lparr>ev_name = ''sv_x'', ev_string = v, ev_value = digits_value v, ev_flags = 0\<rparr>"

definition no_entries :: "string \<Rightarrow> cvar_mngr" where
  "no_entries v = \<lparr>ecvars = (\<lambda>_. None)(1 \<mapsto> x_cvar v), heap = (\<lambda>_. None), fresh = 0, cvar_list = [],
     plugin_cvars = [], p_cvar = (\<lambda>_. None), bind_list = (\<lambda>_. None), hook_state = [],
     cvar_hook_list = (\<lambda>_. None), cells = (\<lambda>_. A_int 0), forwards = [], unregistered = []\<rparr>"

definition x_entry :: "rat \<Rightarrow> rat \<Rightarrow> string \<Rightarrow> m_cvar" where
  "x_entry mn mx v = \<lparr>mc_cvar = 1, mc_name = ''sv_x'', mc_value = v, mc_desc = [], mc_type = CVAR_TYPE_NUM,
     mc_flags = 0, has_min = True, has_max = True, min_val = mn, max_val = mx\<rparr>"

definition x_bound :: "rat \<Rightarrow> rat \<Rightarrow> cvar_mngr" where
  "x_bound mn mx = (no_entries ''3'')\<lparr>heap := (\<lambda>_. None)(0 \<mapsto> x_entry mn mx ''3''), fresh := 1,
     cvar_list := [(''sv_x'', 0)], p_cvar := (\<lambda>_. None)(1 \<mapsto> 0),
     bind_list := (\<lambda>_. None)(0 \<mapsto> [\<lparr>pb_ptr = 40, pb_type = CVAR_TYPE_NUM, pb_size = 1\<rparr>]),
     cells := (\<lambda>_. A_int 0)(40 := A_int 3)\<rparr>"

lemma small_simps [simp]:
  "CVAR_GET_POINTER small_engine nm ecv = (if nm = ''sv_x'' \<and> ecv 1 \<noteq> None then Some 1 else None)"
  "engine_atof small_engine = digits_value" "engine_ftoa small_engine r = show_nat (nat \<lfloor>r\<rfloor>)"
  "safe_stod small_engine s = (if s = [] then None else Some (digits_value s))"
  "to_lower small_engine c = c"
  by (simp_all add: small_engine_def safe_stod_def)

lemma digit_texts:
  "is_number ''0'' = (True, ''0'')" "is_number ''1'' = (True, ''1'')" "is_number ''3'' = (True, ''3'')"
  "is_number ''5'' = (True, ''5'')" "is_number ''9'' = (True, ''9'')"
  "digits_value ''0'' = 0" "digits_value ''1'' = 1" "digits_value ''3'' = 3" "digits_value ''5'' = 5"
  "digits_value ''9'' = 9" "show_nat (Suc 0) = ''1''" "show_nat 5 = ''5''" "show_nat 3 = ''3''"
  by (simp_all add: is_number_def trim_def ltrim_def rtrim_def TRIM_CHARS_def isdigit_def digits_value_def
      show_nat.simps char_of_def bit_0)

lemma x_facts:
  "number_of small_engine ''0'' = Some 0" "number_of small_engine ''1'' = Some 1"
  "number_of small_engine ''3'' = Some 3" "number_of small_engine ''5'' = Some 5"
  "number_of small_engine ''9'' = Some 9" "fits small_engine ''0''" "fits small_engine ''1''"
  "fits small_engine ''3''" "fits small_engine ''5''" "fits small_engine ''9''"
  by (simp_all add: number_of_def fits_def digit_texts)

lemma trunc_digits [simp]: "trunc 0 = 0" "trunc 1 = 1" "trunc 3 = 3" "trunc 5 = 5" "trunc 9 = 9"
  by (simp_all add: trunc_def)

lemma x_value [simp]: "(x_entry mn mx v)\<lparr>mc_value := w\<rparr> = x_entry mn mx w"
  by (simp add: x_entry_def)

lemma x_at: "entry_at small_engine 1 0 (x_entry mn mx ''3'') (x_cvar ''3'') (x_bound mn mx)"
  by (simp add: entry_at_def x_bound_def x_entry_def x_cvar_def no_entries_def numeric_def)

lemma x_tracks: "tracks small_engine 1 0 (x_entry 1 5 ''3'') (x_cvar ''3'') (x_bound 1 5)"
  using x_at by (simp add: tracks_def x_entry_def good_def override_of_def used_number_def x_facts
      binds_of_def x_bound_def bound_val_def digit_texts no_entries_def)

lemma x_bounds: "bounds_ok small_engine (x_entry 1 5 ''3'')"
  by (simp add: bounds_ok_def x_facts digit_texts good_def override_of_def x_entry_def used_number_def)

lemma x_settled: "settled_text small_engine (x_entry 1 5 ''3'') ''9'' = ''5''"
  by (simp add: settled_text_def replacement_def x_facts good_def override_of_def x_entry_def used_number_def
      digit_texts Let_def)


theorem bound_variable_in_range_witness:
  "\<exists>i. cells (x_bound 1 5) 40 = A_int i \<and> 1 \<le> (of_int i :: rat) \<and> of_int i \<le> (5 :: rat)"
proof -
  let ?b = "\<lparr>pb_ptr = 40, pb_type = CVAR_TYPE_NUM, pb_size = 1\<rparr>"
  have "?b \<in> set (binds_of (x_bound 1 5) 0)" by (simp add: binds_of_def x_bound_def)
  from bound_variable_in_range [OF x_tracks _ _ _ _ this] show ?thesis
    by (simp add: x_entry_def digit_texts)
qed

theorem contradicting_bounds_overflow_witness:
  "cvar_direct_set small_engine 1000 1 ''9'' (x_bound 5 1) = Inl Stack_overflow"
  by (rule contradicting_bounds_overflow [OF small_engine_ok x_at x_facts(10,5)])
     (simp_all add: x_entry_def digit_texts x_facts used_number_def)

theorem added_again_is_silent_witness:
  "\<exists>st1 st2. add_cvar small_engine 7 ''sv_x'' ''2'' 0 ''d'' False 0 False 0 (x_bound 1 5) = Inr (Some 0, st1)
    \<and> cvar_direct_set small_engine 9 1 ''4'' st1 = Inr st2
    \<and> map_option ev_string (ecvars st2 1) = Some ''4'' \<and> cells st2 40 = A_int 3"
proof -
  have e: "ecvars (x_bound 1 5) 1 = Some (x_cvar ''3'')" by (simp add: x_bound_def no_entries_def)
  have m: "heap (x_bound 1 5) 0 = Some (x_entry 1 5 ''3'')" "p_cvar (x_bound 1 5) 1 = Some 0"
    "map_of (cvar_list (x_bound 1 5)) (map (to_lower small_engine) ''sv_x'') = Some 0"
    "cells (x_bound 1 5) 40 = A_int 3"
    by (simp_all add: x_bound_def)
  show ?thesis
    using added_again_is_silent [OF small_engine_ok m(2,1) e m(3), of 7 "''2''" 0 "''d''" False 0 False 0 8 "''4''"]
      m(4) by (auto simp: numeral_eq_Suc)
qed

text \<open>
  A cvar the engine knows with the value 5 is created again with the default 1 and bound: the
  variable gets 5.  Setting the cvar to its default 1 is then taken for no change: the variable keeps 5.
\<close>

theorem set_to_default_is_lost:
  "\<exists>st1 st2 st3. add_cvar small_engine 7 ''sv_x'' ''1'' 0 [] False 0 False 0 (no_entries ''5'') = Inr (Some 0, st1)
    \<and> bind_cvar small_engine (set_by_name small_engine 9) CVAR_TYPE_NUM (Some 0) 40 1 st1 = Inr st2
    \<and> cvar_direct_set small_engine 9 1 ''1'' st2 = Inr st3
    \<and> map_option ev_string (ecvars st3 1) = Some ''1'' \<and> cells st3 40 = A_int 5"
proof -
  let ?m = "\<lparr>mc_cvar = 1, mc_name = ''sv_x'', mc_value = ''1'', mc_desc = [], mc_type = CVAR_TYPE_NONE,
    mc_flags = 0, has_min = False, has_max = False, min_val = 0, max_val = 0\<rparr>"
  let ?s1 = "(no_entries ''5'')\<lparr>heap := (\<lambda>_. None)(0 := Some ?m), fresh := 1, cvar_list := [(''sv_x'', 0)],
    p_cvar := (\<lambda>_. None)(1 \<mapsto> 0)\<rparr>"
  let ?s2 = "?s1\<lparr>cells := (\<lambda>_. A_int 0)(40 := A_int 5),
    bind_list := (\<lambda>_. None)(0 \<mapsto> [\<lparr>pb_ptr = 40, pb_type = CVAR_TYPE_NUM, pb_size = 1\<rparr>]),
    heap := (\<lambda>_. None)(0 := Some (?m\<lparr>mc_type := CVAR_TYPE_NUM\<rparr>))\<rparr>"
  let ?s3 = "?s2\<lparr>ecvars := (\<lambda>_. None)(1 \<mapsto> x_cvar ''1'')\<rparr>"
  have 1: "add_cvar small_engine 7 ''sv_x'' ''1'' 0 [] False 0 False 0 (no_entries ''5'') = Inr (Some 0, ?s1)"
    by (simp add: add_cvar_def get_by_name_def no_entries_def add_exists_def x_cvar_def sm_insert_def
        upd_m_def Let_def)
  have 2: "bind_cvar small_engine (set_by_name small_engine 9) CVAR_TYPE_NUM (Some 0) 40 1 ?s1 = Inr ?s2"
    by (simp add: bind_cvar_def no_entries_def x_cvar_def copy_bind_def digit_texts to_int_def upd_m_def
        check_range_def num_result_def override_of_def)
  have "engine_set small_engine 1 ''1'' (ecvars ?s2) = (\<lambda>_. None)(1 \<mapsto> x_cvar ''1'')"
    by (simp add: small_engine_def no_entries_def x_cvar_def)
  then have 3: "cvar_direct_set small_engine (Suc 8) 1 ''1'' ?s2 = Inr ?s3"
    unfolding cvar_direct_set_Suc by (simp add: on_direct_set_def get_by_cvar_def)
  show ?thesis
    by (rule exI [of _ ?s1], rule exI [of _ ?s2], rule exI [of _ ?s3])
       (use 1 2 3 in \<open>simp add: x_cvar_def\<close>)
qed

end
