(* ===== verification/Cvar_Inv.thy ===== *)
theory Cvar_Inv
  imports Cvar_Props
begin

text \<open>
  The registry of the cvar manager over any sequence of its operations: one live entry per cvar, lists
  and binds that name live entries only, hooks whose state exists, and nothing left after
  \<^verbatim>\<open>clear_all\<close>.
\<close>

section \<open>The invariant\<close>

definition registry_ok :: "cvar_mngr \<Rightarrow> bool" where
  "registry_ok st \<longleftrightarrow>
     names_ok (ecvars st)
     \<and> (\<forall>c p. p_cvar st c = Some p \<longrightarrow> (\<exists>m. heap st p = Some m \<and> mc_cvar m = c))
     \<and> (\<forall>p m. heap st p = Some m \<longrightarrow>
          p_cvar st (mc_cvar m) = Some p \<and> p < fresh st
          \<and> (\<exists>e. ecvars st (mc_cvar m) = Some e \<and> (ev_name e, p) \<in> set (cvar_list st)))
     \<and> (\<forall>nm p. (nm, p) \<in> set (cvar_list st) \<longrightarrow>
          (\<exists>m e. heap st p = Some m \<and> ecvars st (mc_cvar m) = Some e \<and> ev_name e = nm))"

definition lists_ok :: "cvar_mngr \<Rightarrow> bool" where
  "lists_ok st \<longleftrightarrow>
     (\<forall>i ps. (i, ps) \<in> set (plugin_cvars st) \<longrightarrow> distinct ps \<and> (\<forall>p \<in> set ps. heap st p \<noteq> None))
     \<and> (\<forall>p bs. bind_list st p = Some bs \<longrightarrow> heap st p \<noteq> None \<and> distinct (map pb_ptr bs))
     \<and> (\<forall>c hs. cvar_hook_list st c = Some hs \<longrightarrow> set hs \<subseteq> fst ` set (hook_state st))"

text \<open>A change of the entries that keeps which entry belongs to which cvar.\<close>

definition same_entries :: "cvar_mngr \<Rightarrow> cvar_mngr \<Rightarrow> bool" where
  "same_entries st st' \<longleftrightarrow>
     (\<forall>c. map_option ev_name (ecvars st' c) = map_option ev_name (ecvars st c))
     \<and> (\<forall>p. map_option mc_cvar (heap st' p) = map_option mc_cvar (heap st p))
     \<and> fresh st' = fresh st \<and> cvar_list st' = cvar_list st \<and> p_cvar st' = p_cvar st"

lemma map_option_eqD: "map_option f x = map_option f y \<Longrightarrow> y = Some a \<Longrightarrow> \<exists>b. x = Some b \<and> f b = f a"
  by auto

lemma same_entries_heap:
  "same_entries st st' \<Longrightarrow> heap st' p = Some m' \<Longrightarrow> \<exists>m. heap st p = Some m \<and> mc_cvar m = mc_cvar m'"
  unfolding same_entries_def by (metis map_option_eqD)

lemma same_entries_heap':
  "same_entries st st' \<Longrightarrow> heap st p = Some m \<Longrightarrow> \<exists>m'. heap st' p = Some m' \<and> mc_cvar m' = mc_cvar m"
  unfolding same_entries_def by (metis map_option_eqD)

lemma same_entries_ecvars:
  "same_entries st st' \<Longrightarrow> ecvars st' c = Some e' \<Longrightarrow> \<exists>e. ecvars st c = Some e \<and> ev_name e = ev_name e'"
  unfolding same_entries_def by (metis map_option_eqD)

lemma same_entries_ecvars':
  "same_entries st st' \<Longrightarrow> ecvars st c = Some e \<Longrightarrow> \<exists>e'. ecvars st' c = Some e' \<and> ev_name e' = ev_name e"
  unfolding same_entries_def by (metis map_option_eqD)

lemma registry_ok_same:
  assumes "same_entries st st'" "registry_ok st"
  shows "registry_ok st'"
proof -
  have eq: "fresh st' = fresh st" "cvar_list st' = cvar_list st" "p_cvar st' = p_cvar st"
    using assms(1) by (simp_all add: same_entries_def)
  note h = same_entries_heap [OF assms(1)] same_entries_heap' [OF assms(1)]
    same_entries_ecvars [OF assms(1)] same_entries_ecvars' [OF assms(1)]
  have n: "names_ok (ecvars st')"
    using assms(2) h(3) unfolding registry_ok_def names_ok_def by metis
  have p: "\<exists>m. heap st' p = Some m \<and> mc_cvar m = c" if "p_cvar st' c = Some p" for c p
    using that assms(2) h(2) unfolding registry_ok_def eq by metis
  have m: "p_cvar st' (mc_cvar m) = Some p \<and> p < fresh st'
      \<and> (\<exists>e. ecvars st' (mc_cvar m) = Some e \<and> (ev_name e, p) \<in> set (cvar_list st'))"
    if "heap st' p = Some m" for p m
    using h(1) [OF that] assms(2) h(4) unfolding registry_ok_def eq by metis
  have l: "\<exists>m e. heap st' p = Some m \<and> ecvars st' (mc_cvar m) = Some e \<and> ev_name e = nm"
    if "(nm, p) \<in> set (cvar_list st')" for nm p
    using that assms(2) h(2,4) unfolding registry_ok_def eq by metis
  show ?thesis unfolding registry_ok_def using n p m l by blast
qed

lemma lists_ok_mono:
  assumes "lists_ok st" "plugin_cvars st' = plugin_cvars st" "bind_list st' = bind_list st"
    and "cvar_hook_list st' = cvar_hook_list st" "fst ` set (hook_state st') = fst ` set (hook_state st)"
    and "\<And>p. heap st p \<noteq> None \<Longrightarrow> heap st' p \<noteq> None"
  shows "lists_ok st'"
  using assms unfolding lists_ok_def by (metis (no_types, lifting))

text \<open>Both together, and what all operations but clearing keep.\<close>

definition cvars_ok :: "cvar_mngr \<Rightarrow> bool" where
  "cvars_ok st \<longleftrightarrow> registry_ok st \<and> lists_ok st"

lemma cvars_ok_same:
  assumes "cvars_ok st" "same_entries st st'" "plugin_cvars st' = plugin_cvars st"
    and "bind_list st' = bind_list st" "cvar_hook_list st' = cvar_hook_list st"
    and "fst ` set (hook_state st') = fst ` set (hook_state st)"
  shows "cvars_ok st'"
proof -
  have "heap st p \<noteq> None \<Longrightarrow> heap st' p \<noteq> None" for p
    using same_entries_heap' [OF assms(2)] by blast
  then show ?thesis
    using assms(1) registry_ok_same [OF assms(2)] lists_ok_mono [OF _ assms(3-6)]
    unfolding cvars_ok_def by blast
qed

lemma same_entries_upd:
  "(\<And>m. mc_cvar (f m) = mc_cvar m) \<Longrightarrow> same_entries st (upd_m p f st)"
  by (auto simp: same_entries_def upd_m_def option.map_comp comp_def)

lemma cvars_ok_upd:
  "cvars_ok st \<Longrightarrow> (\<And>m. mc_cvar (f m) = mc_cvar m) \<Longrightarrow> cvars_ok (upd_m p f st)"
  by (erule cvars_ok_same [OF _ same_entries_upd]) (simp_all add: upd_m_def)

lemma cvars_ok_engine_set:
  assumes "engine_ok E" "cvars_ok st" "ecvars st c \<noteq> None"
  shows "cvars_ok (st\<lparr>ecvars := engine_set E c v (ecvars st)\<rparr>)"
proof -
  obtain e where "ecvars st c = Some e" using assms(3) by auto
  then have "same_entries st (st\<lparr>ecvars := engine_set E c v (ecvars st)\<rparr>)"
    by (simp add: same_entries_def engine_set_ok [OF assms(1)])
  then show ?thesis by (rule cvars_ok_same [OF assms(2)]) simp_all
qed

section \<open>New entries\<close>

lemma set_sm_insert: "set (sm_insert k v m) \<subseteq> insert (k, v) (set m)"
  and set_sm_insert_new: "map_of m k = None \<Longrightarrow> set (sm_insert k v m) = insert (k, v) (set m)"
proof -
  note * = set_sm_set_subset [of k v m]
  from * show "set (sm_insert k v m) \<subseteq> insert (k, v) (set m)"
    by (auto simp: sm_insert_def split: option.splits)
  have "map_of m k = None \<Longrightarrow> insert (k, v) (set m) \<subseteq> set (sm_set k v m)"
    by (induction m) (auto split: if_splits)
  then show "map_of m k = None \<Longrightarrow> set (sm_insert k v m) = insert (k, v) (set m)"
    using * by (auto simp: sm_insert_def)
qed

lemma add_exists_ok:
  assumes "cvars_ok st" "add_exists oc desc hmin mn hmax mx st = Inr (mp, st')"
  shows "cvars_ok st' \<and> ecvars st' = ecvars st \<and> (case mp of None \<Rightarrow> True | Some p \<Rightarrow> heap st' p \<noteq> None)"
proof (cases oc)
  case (Some c)
  show ?thesis
  proof (cases "p_cvar st c")
    case None
    then obtain e where e: "ecvars st c = Some e"
      using assms(2) Some by (auto simp: add_exists_def split: option.splits)
    let ?m = "\<lparr>mc_cvar = c, mc_name = ev_name e, mc_value = ev_string e, mc_desc = desc,
      mc_type = CVAR_TYPE_NONE, mc_flags = ev_flags e, has_min = hmin, has_max = hmax, min_val = mn,
      max_val = mx\<rparr>"
    let ?p = "fresh st"
    have st': "mp = Some ?p" "st' = st\<lparr>heap := (heap st)(?p \<mapsto> ?m), fresh := ?p + 1,
        cvar_list := sm_insert (ev_name e) ?p (cvar_list st), p_cvar := (p_cvar st)(c \<mapsto> ?p)\<rparr>"
      using assms(2) Some None e by (auto simp: add_exists_def Let_def)
    note r = assms(1) [unfolded cvars_ok_def registry_ok_def]
    have fr: "heap st ?p = None"
    proof (rule ccontr)
      assume "heap st ?p \<noteq> None"
      then obtain m where "heap st ?p = Some m" by auto
      with r show False by blast
    qed
    have "map_of (cvar_list st) (ev_name e) = None"
    proof (rule ccontr)
      assume "map_of (cvar_list st) (ev_name e) \<noteq> None"
      then obtain q where q: "(ev_name e, q) \<in> set (cvar_list st)" by (auto dest: map_of_SomeD)
      with r obtain m e' where m: "heap st q = Some m" "ecvars st (mc_cvar m) = Some e'"
        "ev_name e' = ev_name e" by metis
      with r e have "mc_cvar m = c" unfolding names_ok_def by metis
      with r m None show False by fastforce
    qed
    then have cl: "set (cvar_list st') = insert (ev_name e, ?p) (set (cvar_list st))"
      by (simp add: st' set_sm_insert_new)
    have reg: "registry_ok st'"
      unfolding registry_ok_def
    proof (intro conjI allI impI)
      show "names_ok (ecvars st')" using r by (simp add: st')
      fix c' p'
      assume "p_cvar st' c' = Some p'"
      then have "c' = c \<and> p' = ?p \<or> c' \<noteq> c \<and> p_cvar st c' = Some p'" by (auto simp: st' split: if_splits)
      then show "\<exists>m. heap st' p' = Some m \<and> mc_cvar m = c'"
      proof
        assume "c' \<noteq> c \<and> p_cvar st c' = Some p'"
        with r obtain m where "heap st p' = Some m" "mc_cvar m = c'" by metis
        then show ?thesis using fr by (auto simp: st')
      qed (simp add: st')
    next
      fix p' m
      assume h: "heap st' p' = Some m"
      have "p_cvar st' (mc_cvar m) = Some p' \<and> p' < fresh st' \<and>
        (\<exists>e. ecvars st' (mc_cvar m) = Some e \<and> (ev_name e, p') \<in> set (cvar_list st'))"
      proof (cases "p' = ?p")
        case True
        then have "m = ?m" using h by (simp add: st')
        then show ?thesis using True e cl by (simp add: st')
      next
        case False
        then have h': "heap st p' = Some m" using h by (simp add: st')
        with r have *: "p_cvar st (mc_cvar m) = Some p'" "p' < fresh st"
          "\<exists>e. ecvars st (mc_cvar m) = Some e \<and> (ev_name e, p') \<in> set (cvar_list st)" by metis+
        then have "mc_cvar m \<noteq> c" using None by auto
        with * show ?thesis unfolding cl by (auto simp: st')
      qed
      then show "p_cvar st' (mc_cvar m) = Some p'" "p' < fresh st'"
        "\<exists>e. ecvars st' (mc_cvar m) = Some e \<and> (ev_name e, p') \<in> set (cvar_list st')" by blast+
    next
      fix nm p'
      assume "(nm, p') \<in> set (cvar_list st')"
      then have "nm = ev_name e \<and> p' = ?p \<or> (nm, p') \<in> set (cvar_list st)" by (simp add: cl)
      then show "\<exists>m e. heap st' p' = Some m \<and> ecvars st' (mc_cvar m) = Some e \<and> ev_name e = nm"
      proof
        assume "(nm, p') \<in> set (cvar_list st)"
        with r obtain m e' where m: "heap st p' = Some m" "ecvars st (mc_cvar m) = Some e'" "ev_name e' = nm"
          by metis
        moreover have "p' \<noteq> ?p" using fr m by auto
        ultimately show ?thesis by (auto simp: st')
      qed (simp add: st' e)
    qed
    have "lists_ok st'"
      by (rule lists_ok_mono [of st]) (use assms(1) in \<open>auto simp: st' cvars_ok_def\<close>)
    with reg show ?thesis by (simp add: cvars_ok_def st')
  next
    case (Some p)
    then have eq: "mp = Some p" "st' = st" using assms(2) \<open>oc = Some c\<close> by (auto simp: add_exists_def)
    from assms(1) Some have "heap st p \<noteq> None" unfolding cvars_ok_def registry_ok_def by blast
    then show ?thesis using assms(1) eq by simp
  qed
qed (use assms in \<open>simp add: add_exists_def\<close>)


lemma get_by_cvar_ok:
  assumes "cvars_ok st" "get_by_cvar c st = Inr (mp, st')"
  shows "cvars_ok st' \<and> ecvars st' = ecvars st \<and> (case mp of None \<Rightarrow> True | Some p \<Rightarrow> heap st' p \<noteq> None)"
proof (cases "p_cvar st c")
  case None
  with assms(2) have "add_exists (Some c) [] False 0 False 0 st = Inr (mp, st')"
    by (simp add: get_by_cvar_def)
  from add_exists_ok [OF assms(1) this] show ?thesis .
next
  case (Some p)
  then have "mp = Some p" "st' = st" using assms(2) by (auto simp: get_by_cvar_def)
  moreover have "heap st p \<noteq> None" using assms(1) Some unfolding cvars_ok_def registry_ok_def by blast
  ultimately show ?thesis using assms(1) by simp
qed

lemma get_by_name_ok:
  assumes "cvars_ok st" "get_by_name E nm st = Inr (mp, st')"
  shows "cvars_ok st' \<and> ecvars st' = ecvars st \<and> (case mp of None \<Rightarrow> True | Some p \<Rightarrow> heap st' p \<noteq> None)"
proof (cases "nm = []")
  case False
  show ?thesis
  proof (cases "map_of (cvar_list st) (map (to_lower E) nm)")
    case (Some p)
    then have "mp = Some p" "st' = st" using assms(2) False by (auto simp: get_by_name_def)
    moreover have "heap st p \<noteq> None"
      using assms(1) map_of_SomeD [OF Some] unfolding cvars_ok_def registry_ok_def by blast
    ultimately show ?thesis using assms(1) by simp
  next
    case None
    show ?thesis
    proof (cases "CVAR_GET_POINTER E (map (to_lower E) nm) (ecvars st)")
      case (Some c)
      with assms(2) False None have "add_exists (Some c) [] False 0 False 0 st = Inr (mp, st')"
        by (simp add: get_by_name_def)
      from add_exists_ok [OF assms(1) this] show ?thesis .
    qed (use assms False None in \<open>simp add: get_by_name_def\<close>)
  qed
qed (use assms in \<open>simp add: get_by_name_def\<close>)

section \<open>Setting\<close>

definition setter_ok :: "setter \<Rightarrow> bool" where
  "setter_ok setc \<longleftrightarrow> (\<forall>nm v st st'. cvars_ok st \<longrightarrow> setc nm v st = Inr st' \<longrightarrow> cvars_ok st')"

lemma check_range_cases:
  assumes "check_range E setc p st = Inr (ok, st')"
  shows "ok \<and> st' = st \<or> (\<exists>nm v. setc nm v st = Inr st')"
  using assms
  by (auto simp: check_range_def Let_def bind_r_eq_Inr split: option.splits prod.splits if_splits)

lemma check_range_ok:
  "setter_ok setc \<Longrightarrow> cvars_ok st \<Longrightarrow> check_range E setc p st = Inr (ok, st') \<Longrightarrow> cvars_ok st'"
  using check_range_cases unfolding setter_ok_def by blast

lemma on_change_shape:
  assumes "on_change E p v st = Inr st'"
  shows "\<exists>mem fw. st' = st\<lparr>cells := mem, forwards := fw\<rparr>"
proof -
  obtain m e where me: "heap st p = Some m" "ecvars st (mc_cvar m) = Some e"
    using assms by (auto simp: on_change_def split: option.splits)
  obtain mem where cb: "copy_binds E (binds_of st p) e (cells st) = Inr mem"
    using assms me by (auto simp: on_change_def binds_of_def bind_r_eq_Inr)
  from on_change_ok [OF me cb] obtain fw where "on_change E p v st = Inr (st\<lparr>cells := mem, forwards := fw\<rparr>)"
    by blast
  then show ?thesis using assms by auto
qed

lemma cvars_ok_mem: "cvars_ok st \<Longrightarrow> cvars_ok (st\<lparr>cells := mem, forwards := fw\<rparr>)"
  by (erule cvars_ok_same) (simp_all add: same_entries_def)

lemma on_direct_set_ok:
  assumes "setter_ok setc" "cvars_ok st" "on_direct_set E setc c v st = Inr st'"
  shows "cvars_ok st'"
proof -
  obtain mp st1 where g: "get_by_cvar c st = Inr (mp, st1)"
    using assms(3) by (auto simp: on_direct_set_def bind_r_eq_Inr)
  have ok1: "cvars_ok st1" using get_by_cvar_ok [OF assms(2) g] by simp
  show ?thesis
  proof (cases mp)
    case None
    then show ?thesis using assms(3) g ok1 by (simp add: on_direct_set_def)
  next
    case (Some p)
    obtain m where m: "heap st1 p = Some m"
      using assms(3) g Some by (auto simp: on_direct_set_def split: option.splits)
    consider "st' = st1" | "st' = upd_m p (\<lambda>m. m\<lparr>mc_value := v\<rparr>) st1"
      | ok st2 where "check_range E setc p st1 = Inr (ok, st2)" "st' = st2"
      | st2 st3 where "check_range E setc p st1 = Inr (True, st2)" "on_change E p v st2 = Inr st3"
          "st' = upd_m p (\<lambda>m. m\<lparr>mc_value := v\<rparr>) st3"
      using assms(3) g Some m
      by (auto simp: on_direct_set_def bind_r_eq_Inr split: if_splits)
    then show ?thesis
    proof cases
      case 1
      then show ?thesis using ok1 by simp
    next
      case 2
      then show ?thesis using ok1 by (simp add: cvars_ok_upd)
    next
      case 3
      then show ?thesis using check_range_ok [OF assms(1) ok1] by blast
    next
      case 4
      have "cvars_ok st2" using check_range_ok [OF assms(1) ok1 4(1)] .
      moreover obtain mem fw where "st3 = st2\<lparr>cells := mem, forwards := fw\<rparr>"
        using on_change_shape [OF 4(2)] by blast
      ultimately have "cvars_ok st3" by (simp add: cvars_ok_mem)
      then show ?thesis using 4(3) by (simp add: cvars_ok_upd)
    qed
  qed
qed

lemma engine_found: "engine_ok E \<Longrightarrow> CVAR_GET_POINTER E nm ecv = Some c \<Longrightarrow> ecv c \<noteq> None"
  unfolding engine_ok_def by blast

lemma cvar_direct_set_ok:
  assumes "engine_ok E" "cvars_ok st" "ecvars st c \<noteq> None" "cvar_direct_set E n c v st = Inr st'"
  shows "cvars_ok st'"
  using assms(2-4)
proof (induction n arbitrary: c v st st')
  case (Suc n)
  have "setter_ok (set_by_name E n)"
    unfolding setter_ok_def
  proof (intro allI impI)
    fix nm w s s'
    assume s: "cvars_ok s" "set_by_name E n nm w s = Inr s'"
    show "cvars_ok s'"
    proof (cases "CVAR_GET_POINTER E nm (ecvars s)")
      case (Some c')
      then show ?thesis
        using Suc.IH [OF s(1) engine_found [OF assms(1) Some]] s(2) by (simp add: set_by_name_def)
    qed (use s in \<open>simp add: set_by_name_def\<close>)
  qed
  from on_direct_set_ok [OF this cvars_ok_engine_set [OF assms(1) Suc.prems(1,2)]]
  show ?case using Suc.prems(3) unfolding cvar_direct_set_Suc by blast
qed simp

lemma setter_set_by_name: "engine_ok E \<Longrightarrow> setter_ok (set_by_name E n)"
  unfolding setter_ok_def set_by_name_def
  by (auto split: option.splits dest: cvar_direct_set_ok engine_found)

section \<open>The other operations\<close>

lemma cvars_ok_register:
  assumes "engine_ok E" "cvars_ok st"
  shows "cvars_ok (st\<lparr>ecvars := CVAR_REGISTER E e (ecvars st)\<rparr>)"
proof -
  have n: "names_ok (CVAR_REGISTER E e (ecvars st))"
    using assms unfolding engine_ok_def cvars_ok_def registry_ok_def by blast
  have k: "ecvars st c = Some e' \<Longrightarrow> CVAR_REGISTER E e (ecvars st) c = Some e'" for c e'
    using assms(1) unfolding engine_ok_def by blast
  note r = assms(2) [unfolded cvars_ok_def registry_ok_def]
  have m: "p_cvar st (mc_cvar m) = Some p \<and> p < fresh st
      \<and> (\<exists>e'. CVAR_REGISTER E e (ecvars st) (mc_cvar m) = Some e' \<and> (ev_name e', p) \<in> set (cvar_list st))"
    if "heap st p = Some m" for p m
    using r that k by metis
  have l: "\<exists>m e'. heap st p = Some m \<and> CVAR_REGISTER E e (ecvars st) (mc_cvar m) = Some e' \<and> ev_name e' = nm"
    if "(nm, p) \<in> set (cvar_list st)" for nm p
    using r that k by metis
  have "registry_ok (st\<lparr>ecvars := CVAR_REGISTER E e (ecvars st)\<rparr>)"
    unfolding registry_ok_def using n m l r by simp
  moreover have "lists_ok (st\<lparr>ecvars := CVAR_REGISTER E e (ecvars st)\<rparr>)"
    by (rule lists_ok_mono [of st]) (use r in simp_all)
  ultimately show ?thesis by (simp add: cvars_ok_def)
qed

lemma create_cvar_ok:
  "engine_ok E \<Longrightarrow> cvars_ok st \<Longrightarrow> create_cvar E nm v fl st = (oc, st') \<Longrightarrow> cvars_ok st'"
  by (auto simp: create_cvar_def Let_def cvars_ok_register split: option.splits)

lemma lists_ok_plugin:
  assumes "cvars_ok st" "distinct ps" "\<forall>p \<in> set ps. heap st p \<noteq> None"
  shows "cvars_ok (st\<lparr>plugin_cvars := sm_set i ps (plugin_cvars st)\<rparr>)" (is "cvars_ok ?s")
proof -
  have "registry_ok ?s"
    by (rule registry_ok_same [of st]) (use assms(1) in \<open>simp_all add: same_entries_def cvars_ok_def\<close>)
  moreover have "lists_ok ?s"
    using assms set_sm_set_subset [of i ps "plugin_cvars st"] unfolding cvars_ok_def lists_ok_def by fastforce
  ultimately show ?thesis by (simp add: cvars_ok_def)
qed

lemma add_to_plugin_ok:
  assumes "cvars_ok st" "heap st p \<noteq> None"
  shows "cvars_ok (add_to_plugin i p st)"
proof (cases "map_of (plugin_cvars st) i")
  case None
  then show ?thesis using lists_ok_plugin [OF assms(1), of "[p]" i] assms(2) by (simp add: add_to_plugin_def)
next
  case (Some pc)
  with map_of_SomeD [OF Some] assms(1) have "distinct pc" "\<forall>p \<in> set pc. heap st p \<noteq> None"
    unfolding cvars_ok_def lists_ok_def by blast+
  then show ?thesis
    using lists_ok_plugin [OF assms(1), of "pc @ [p]" i] assms Some by (auto simp: add_to_plugin_def)
qed

lemma clear_plugin_ok: "cvars_ok st \<Longrightarrow> cvars_ok (clear_plugin i st)"
  using lists_ok_plugin [of st "[]" i] by (auto simp: clear_plugin_def split: option.splits)

lemma add_cvar_ok:
  assumes "engine_ok E" "cvars_ok st" "add_cvar E i nm v fl desc hmin mn hmax mx st = Inr (mp, st')"
  shows "cvars_ok st'"
proof (cases "nm = []")
  case False
  obtain mp1 st1 where g: "get_by_name E nm st = Inr (mp1, st1)"
    using assms(3) False by (auto simp: add_cvar_def bind_r_eq_Inr)
  note o1 = get_by_name_ok [OF assms(2) g]
  have fin: "cvars_ok (case mp' of Some p \<Rightarrow> if desc \<noteq> [] then add_to_plugin i p s else s | None \<Rightarrow> s)"
    if "cvars_ok s" "case mp' of None \<Rightarrow> True | Some p \<Rightarrow> heap s p \<noteq> None" for mp' s
    using that add_to_plugin_ok by (auto split: option.splits)
  show ?thesis
  proof (cases mp1)
    case None
    obtain c st2 where cc: "create_cvar E nm v fl st1 = (c, st2)" by fastforce
    then obtain mp' st3 where ae: "add_exists c desc hmin mn hmax mx st2 = Inr (mp', st3)"
      and s': "st' = (case mp' of Some p \<Rightarrow> if desc \<noteq> [] then add_to_plugin i p st3 else st3 | None \<Rightarrow> st3)"
      using assms(3) False g None by (auto simp: add_cvar_def bind_r_eq_Inr)
    have "cvars_ok st2" using create_cvar_ok [OF assms(1) _ cc] o1 by simp
    from add_exists_ok [OF this ae] fin s' show ?thesis by blast
  next
    case (Some p)
    let ?f = "\<lambda>m. m\<lparr>mc_name := nm, mc_value := v, mc_flags := fl, mc_desc := desc,
      mc_type := CVAR_TYPE_NONE, has_min := hmin, has_max := hmax, min_val := mn, max_val := mx\<rparr>"
    have s': "st' = (if desc \<noteq> [] then add_to_plugin i p (upd_m p ?f st1) else upd_m p ?f st1)"
      using assms(3) False g Some by (auto simp: add_cvar_def bind_r_eq_Inr)
    have "cvars_ok (upd_m p ?f st1)" by (rule cvars_ok_upd) (use o1 in simp_all)
    moreover have "heap (upd_m p ?f st1) p \<noteq> None" using o1 Some by (auto simp: upd_m_def)
    ultimately show ?thesis using s' add_to_plugin_ok by (cases "desc = []") (simp_all only: if_True if_False simp_thms)
  qed
qed (use assms in \<open>simp add: add_cvar_def\<close>)

lemma bind_cvar_ok:
  assumes "setter_ok setc" "cvars_ok st" "bind_cvar E setc ty mp ptr sz st = Inr st'"
  shows "cvars_ok st'"
proof (cases "st' = st")
  case False
  then obtain p m where p: "mp = Some p" "heap st p = Some m"
    using assms(3) by (auto simp: bind_cvar_def split: option.splits)
  let ?bs = "binds_of st p" and ?b = "\<lparr>pb_ptr = ptr, pb_type = ty, pb_size = sz\<rparr>"
  obtain mem ok where new: "\<not> list_ex (\<lambda>b. pb_ptr b = ptr) ?bs"
    and cr: "check_range E setc p (upd_m p (\<lambda>m. m\<lparr>mc_type := ty\<rparr>)
        (st\<lparr>cells := mem, bind_list := (bind_list st)(p \<mapsto> ?bs @ [?b])\<rparr>)) = Inr (ok, st')"
    using assms(3) False p
    by (auto simp: bind_cvar_def binds_of_def Let_def bind_r_eq_Inr split: if_splits option.splits)
  let ?s = "st\<lparr>cells := mem, bind_list := (bind_list st)(p \<mapsto> ?bs @ [?b])\<rparr>"
  have d: "distinct (map pb_ptr ?bs)"
    using assms(2) by (auto simp: cvars_ok_def lists_ok_def binds_of_def split: option.splits)
  have "registry_ok ?s"
    by (rule registry_ok_same [of st]) (use assms(2) in \<open>simp_all add: same_entries_def cvars_ok_def\<close>)
  moreover have "distinct (map pb_ptr (?bs @ [?b]))"
    using d new by (auto simp: list_ex_iff)
  then have "lists_ok ?s"
    using assms(2) p(2) unfolding cvars_ok_def lists_ok_def by (auto split: if_splits)
  ultimately have "cvars_ok ?s" by (simp add: cvars_ok_def)
  then have "cvars_ok (upd_m p (\<lambda>m. m\<lparr>mc_type := ty\<rparr>) ?s)" by (simp add: cvars_ok_upd)
  from check_range_ok [OF assms(1) this cr] show ?thesis .
qed (use assms in simp)

lemma create_hook_ok:
  assumes "cvars_ok st" "create_hook fwd mp en st = Inr (r, st')"
  shows "cvars_ok st'"
proof (cases "st' = st")
  case False
  then obtain p m where p: "mp = Some p" "heap st p = Some m" "map_of (hook_state st) fwd = None"
    using assms(2) by (auto simp: create_hook_def split: option.splits if_splits)
  let ?hs = "case cvar_hook_list st (mc_cvar m) of None \<Rightarrow> [] | Some hs \<Rightarrow> hs"
  have s': "st' = st\<lparr>hook_state := sm_insert fwd en (hook_state st),
      cvar_hook_list := (cvar_hook_list st)(mc_cvar m \<mapsto> ?hs @ [fwd])\<rparr>"
    using assms(2) p by (auto simp: create_hook_def Let_def)
  have keys: "fst ` set (sm_insert fwd en (hook_state st)) = insert fwd (fst ` set (hook_state st))"
    by (simp add: set_sm_insert_new [OF p(3)])
  have "registry_ok st'"
    by (rule registry_ok_same [of st]) (use assms(1) in \<open>simp_all add: same_entries_def cvars_ok_def s'\<close>)
  moreover have hs: "set ?hs \<subseteq> fst ` set (hook_state st)"
    using assms(1) by (cases "cvar_hook_list st (mc_cvar m)") (simp_all add: cvars_ok_def lists_ok_def)
  note l = assms(1) [unfolded cvars_ok_def lists_ok_def]
  have k: "set hs' \<subseteq> fst ` set (hook_state st')" if "cvar_hook_list st' c = Some hs'" for c hs'
  proof (cases "c = mc_cvar m")
    case True
    then have "hs' = ?hs @ [fwd]" using that by (simp add: s')
    then have "set hs' = insert fwd (set ?hs)" by simp
    also have "\<dots> \<subseteq> insert fwd (fst ` set (hook_state st))" using hs by (rule insert_mono)
    finally show ?thesis by (simp add: s' keys)
  next
    case False
    then have "cvar_hook_list st c = Some hs'" using that by (simp add: s')
    with l have "set hs' \<subseteq> fst ` set (hook_state st)" by blast
    then show ?thesis by (auto simp: s' keys)
  qed
  have "lists_ok st'"
    unfolding lists_ok_def using l k by (simp add: s')
  ultimately show ?thesis by (simp add: cvars_ok_def)
qed (use assms in simp)

lemma cvar_hook_state_ok: "cvars_ok st \<Longrightarrow> cvars_ok (snd (cvar_hook_state fwd en st))"
proof -
  assume ok: "cvars_ok st"
  show ?thesis
  proof (cases "map_of (hook_state st) fwd")
    case (Some b)
    then have "fwd \<in> fst ` set (hook_state st)" by (metis map_of_eq_None_iff option.distinct(1))
    then have "fst ` set (sm_set fwd en (hook_state st)) = fst ` set (hook_state st)"
      by (auto simp: keys_sm_set)
    then show ?thesis
      using Some by (simp add: cvar_hook_state_def) (rule cvars_ok_same [OF ok], simp_all add: same_entries_def)
  qed (use ok in \<open>simp add: cvar_hook_state_def\<close>)
qed

lemma clear_cvars_ok:
  assumes "cvars_ok st"
  shows "cvars_ok (clear_cvars st)" "cvars_ok (clear_cvars_all st)" "heap (clear_cvars_all st) = (\<lambda>_. None)"
proof -
  note d = clear_cvars_def clear_plugin_all_def clear_bind_list_def clear_hook_state_def clear_hook_list_def
  show "cvars_ok (clear_cvars st)"
    using assms registry_ok_same [of st "clear_cvars st"]
    by (simp add: cvars_ok_def lists_ok_def same_entries_def d)
  have h: "p \<in> snd ` set (cvar_list st)" if "heap st p = Some m" for p m
    using assms that unfolding cvars_ok_def registry_ok_def by force
  then show "heap (clear_cvars_all st) = (\<lambda>_. None)"
    by (fastforce simp: clear_cvars_all_def clear_cvar_list_def clear_pcvar_all_def d)
  then show "cvars_ok (clear_cvars_all st)"
    using assms by (simp add: cvars_ok_def registry_ok_def lists_ok_def)
      (simp add: clear_cvars_all_def clear_cvar_list_def clear_pcvar_all_def d)
qed

section \<open>Runs\<close>

definition cvar_init :: "ecvars \<Rightarrow> (nat \<Rightarrow> amx_val) \<Rightarrow> cvar_mngr" where
  "cvar_init ecv mem = \<lparr>ecvars = ecv, heap = (\<lambda>_. None), fresh = 0, cvar_list = [], plugin_cvars = [],
     p_cvar = (\<lambda>_. None), bind_list = (\<lambda>_. None), hook_state = [], cvar_hook_list = (\<lambda>_. None),
     cells = mem, forwards = [], unregistered = []\<rparr>"

datatype cvar_op =
    O_add int string string int string bool rat bool rat
  | O_bind cvar_type "nat option" nat nat
  | O_set nat string
  | O_get string
  | O_hook int "nat option" bool
  | O_hook_state int bool
  | O_clear_plugin int
  | O_clear
  | O_clear_all
  | O_register ecvar    \<comment> \<open>the engine or another module\<close>

fun cvar_do :: "engine \<Rightarrow> nat \<Rightarrow> cvar_op \<Rightarrow> cvar_mngr \<Rightarrow> cvar_error + cvar_mngr" where
  "cvar_do E n (O_add i nm v fl desc hmin mn hmax mx) st =
     bind_r (add_cvar E i nm v fl desc hmin mn hmax mx st) (\<lambda>(mp, st'). Inr st')"
| "cvar_do E n (O_bind ty mp ptr sz) st = bind_cvar E (set_by_name E n) ty mp ptr sz st"
| "cvar_do E n (O_set c v) st = (if ecvars st c = None then Inr st else cvar_direct_set E n c v st)"
| "cvar_do E n (O_get nm) st = bind_r (get_by_name E nm st) (\<lambda>(mp, st'). Inr st')"
| "cvar_do E n (O_hook fwd mp en) st = bind_r (create_hook fwd mp en st) (\<lambda>(r, st'). Inr st')"
| "cvar_do E n (O_hook_state fwd en) st = Inr (snd (cvar_hook_state fwd en st))"
| "cvar_do E n (O_clear_plugin i) st = Inr (clear_plugin i st)"
| "cvar_do E n O_clear st = Inr (clear_cvars st)"
| "cvar_do E n O_clear_all st = Inr (clear_cvars_all st)"
| "cvar_do E n (O_register e) st = Inr (st\<lparr>ecvars := CVAR_REGISTER E e (ecvars st)\<rparr>)"

inductive cvar_reach :: "engine \<Rightarrow> cvar_mngr \<Rightarrow> bool" for E :: engine where
  start: "names_ok ecv \<Longrightarrow> cvar_reach E (cvar_init ecv mem)"
| step: "cvar_reach E st \<Longrightarrow> cvar_do E n a st = Inr st' \<Longrightarrow> cvar_reach E st'"

lemma cvar_do_ok:
  assumes "engine_ok E" "cvars_ok st" "cvar_do E n a st = Inr st'"
  shows "cvars_ok st'"
proof (cases a)
  case (O_add i nm v fl desc hmin mn hmax mx)
  then obtain mp where "add_cvar E i nm v fl desc hmin mn hmax mx st = Inr (mp, st')"
    using assms(3) by (auto simp: bind_r_eq_Inr)
  from add_cvar_ok [OF assms(1,2) this] show ?thesis .
next
  case (O_bind ty mp ptr sz)
  then show ?thesis using assms bind_cvar_ok [OF setter_set_by_name] by simp
next
  case (O_set c v)
  then show ?thesis using assms cvar_direct_set_ok by (auto split: if_splits)
next
  case (O_get nm)
  then obtain mp where "get_by_name E nm st = Inr (mp, st')" using assms(3) by (auto simp: bind_r_eq_Inr)
  from get_by_name_ok [OF assms(2) this] show ?thesis by simp
next
  case (O_hook fwd mp en)
  then obtain r where "create_hook fwd mp en st = Inr (r, st')" using assms(3) by (auto simp: bind_r_eq_Inr)
  from create_hook_ok [OF assms(2) this] show ?thesis .
next
  case (O_register e)
  then show ?thesis using assms cvars_ok_register by auto
qed (use assms in \<open>auto simp: cvar_hook_state_ok clear_plugin_ok clear_cvars_ok\<close>)

lemma cvar_reach_ok: "cvar_reach E st \<Longrightarrow> engine_ok E \<Longrightarrow> cvars_ok st"
proof (induction rule: cvar_reach.induct)
  case (start ecv mem)
  then show ?case by (simp add: cvars_ok_def registry_ok_def lists_ok_def cvar_init_def)
next
  case (step st n a st')
  then show ?case using cvar_do_ok by blast
qed

text \<open>
  C20: After any sequence of operations a cvar has at most one entry and the entry exists, every list of
  a plugin names existing entries once, no variable is bound twice to an entry, every hook in a list
  has a state, and \<^verbatim>\<open>clear_all\<close> frees every entry.
\<close>

theorem cvar_registry_consistent:
  assumes "engine_ok E" "cvar_reach E st"
  shows "(case p_cvar st c of None \<Rightarrow> True | Some p \<Rightarrow> map_option mc_cvar (heap st p) = Some c)
    \<and> (case heap st p of None \<Rightarrow> True | Some m \<Rightarrow> p_cvar st (mc_cvar m) = Some p)
    \<and> list_all (\<lambda>(i, ps). distinct ps \<and> list_all (\<lambda>p. heap st p \<noteq> None) ps) (plugin_cvars st)
    \<and> (case bind_list st p of None \<Rightarrow> True | Some bs \<Rightarrow> heap st p \<noteq> None \<and> distinct (map pb_ptr bs))
    \<and> (case cvar_hook_list st c of None \<Rightarrow> True | Some hs \<Rightarrow> set hs \<subseteq> fst ` set (hook_state st))
    \<and> heap (clear_cvars_all st) = (\<lambda>_. None)"
proof -
  note ok = cvar_reach_ok [OF assms(2,1)]
  note r = ok [unfolded cvars_ok_def registry_ok_def lists_ok_def]
  have 1: "case p_cvar st c of None \<Rightarrow> True | Some p \<Rightarrow> map_option mc_cvar (heap st p) = Some c"
    using r by (cases "p_cvar st c") force+
  have 2: "case heap st p of None \<Rightarrow> True | Some m \<Rightarrow> p_cvar st (mc_cvar m) = Some p"
    using r by (cases "heap st p") simp_all
  have 3: "list_all (\<lambda>(i, ps). distinct ps \<and> list_all (\<lambda>p. heap st p \<noteq> None) ps) (plugin_cvars st)"
    using r by (auto simp: list_all_iff)
  have 4: "case bind_list st p of None \<Rightarrow> True | Some bs \<Rightarrow> heap st p \<noteq> None \<and> distinct (map pb_ptr bs)"
    using r by (cases "bind_list st p") simp_all
  have 5: "case cvar_hook_list st c of None \<Rightarrow> True | Some hs \<Rightarrow> set hs \<subseteq> fst ` set (hook_state st)"
    using r by (cases "cvar_hook_list st c") simp_all
  show ?thesis by (intro conjI 1 2 3 4 5 clear_cvars_ok(3) [OF ok])
qed

theorem cvar_registry_consistent_witness:
  "\<exists>st. cvar_reach small_engine st \<and> p_cvar st 1 = Some 0 \<and> map_option mc_cvar (heap st 0) = Some 1
     \<and> heap (clear_cvars_all st) = (\<lambda>_. None)"
proof -
  let ?s0 = "cvar_init ((\<lambda>_. None)(1 \<mapsto> x_cvar ''5'')) (\<lambda>_. A_int 0)"
  have 0: "cvar_reach small_engine ?s0" by (rule cvar_reach.start) (simp add: names_ok_def)
  obtain st where s: "cvar_do small_engine 9 (O_get ''sv_x'') ?s0 = Inr st" "p_cvar st 1 = Some 0"
    by (simp add: get_by_name_def cvar_init_def add_exists_def Let_def)
  from cvar_reach.step [OF 0 s(1)] have r: "cvar_reach small_engine st" .
  from cvar_registry_consistent [OF small_engine_ok r, of 1] s(2) r show ?thesis
    by (intro exI [of _ st]) simp
qed

end
