(* ===== verification/Cvar_Config.thy ===== *)
theory Cvar_Config
  imports Cvar_Props
begin

text \<open>
  The configuration files of \<^verbatim>\<open>cvar_mngr::config\<close>: reading the lines of a file, deciding whether it is
  to be rewritten, writing it, and setting the cvars that were read.  The file is its text, \<open>None\<close> when
  it does not exist; whether it can be opened is an argument.  A file that was just created reads back
  to the values it was created with.
\<close>

section \<open>Reading\<close>

definition LF :: char where "LF = CHR 0x0A"

function getlines :: "string \<Rightarrow> string list" where
  "getlines [] = []"
| "getlines (c # cs) = takeWhile (\<lambda>x. x \<noteq> LF) (c # cs) # getlines (drop 1 (dropWhile (\<lambda>x. x \<noteq> LF) (c # cs)))"
  by pat_completeness auto

termination
proof (relation "measure length", goal_cases)
  case (2 c cs)
  have "length (dropWhile (\<lambda>x. x \<noteq> LF) (c # cs)) \<le> length (c # cs)" by (rule length_dropWhile_le)
  then show ?case by (cases "dropWhile (\<lambda>x. x \<noteq> LF) (c # cs)") auto
qed simp

definition is_comment :: "string \<Rightarrow> bool" where
  "is_comment line = (take 1 line = '';'' \<or> take 1 line = ''#'' \<or> take 2 line = ''//'')"

type_synonym load_cvars = "(string, string) std_map"

definition read_line :: "string \<Rightarrow> load_cvars \<Rightarrow> cvar_error + load_cvars" where
  "read_line line0 load =
     (let line = trim line0 TRIM_CHARS
      in if is_comment line \<or> CHR '' '' \<notin> set line then Inr load
         else let pos = length (takeWhile (\<lambda>c. c \<noteq> CHR '' '') line);
                  var_name = trim (take pos line) TRIM_CHARS;
                  var_value = trim (drop (pos + 1) line) TRIM_CHARS
              in (case rm_quote_w QQ var_value of
                    Inl _ \<Rightarrow> Inl UB_erase
                  | Inr (r, v) \<Rightarrow> Inr (sm_insert var_name v load)))"

fun read_lines :: "string list \<Rightarrow> load_cvars \<Rightarrow> cvar_error + load_cvars" where
  "read_lines [] load = Inr load"
| "read_lines (l # ls) load = bind_r (read_line l load) (read_lines ls)"

definition names_of :: "nat list \<Rightarrow> cvar_mngr \<Rightarrow> string list" where
  "names_of ps st = map (\<lambda>p. case heap st p of None \<Rightarrow> [] | Some m \<Rightarrow> mc_name m) ps"

definition need_update :: "load_cvars \<Rightarrow> nat list \<Rightarrow> cvar_mngr \<Rightarrow> bool" where
  "need_update load ps st =
     (list_ex (\<lambda>nm. map_of load nm = None) (names_of ps st) \<or> length ps = 0 \<or> length ps \<noteq> length load)"

section \<open>Writing\<close>

definition NQ :: char where "NQ = CHR 0x22"

definition CONTROL_CHARS :: string where "CONTROL_CHARS = [CHR 0x0D, CHR 0x09, CHR 0x0A]"

definition config_header :: "string \<Rightarrow> string \<Rightarrow> string \<Rightarrow> string \<Rightarrow> string" where
  "config_header title author name version =
     ''// This file was auto-generated by REFSAPI'' @ [LF] @
     ''// Cvars for plugin '' @ [NQ] @ title @ [NQ] @ '' by '' @ [NQ] @ author @ [NQ] @ '' ('' @ name
       @ '', v'' @ version @ '')'' @ [LF]"

definition comment_text :: "string \<Rightarrow> string" where
  "comment_text desc = concat (map (\<lambda>ch. if ch = LF then [LF] @ ''// '' else [ch]) desc)"

definition entry_text :: "m_cvar \<Rightarrow> string" where
  "entry_text m =
     [LF] @ ''// '' @ comment_text (mc_desc m) @ [LF] @ ''// -'' @ [LF] @
     ''// Default: '' @ [NQ] @ mc_value m @ [NQ] @ [LF] @
     (if has_min m then ''// Minimum: '' @ [NQ] @ to_string_float (min_val m) @ [NQ] @ [LF] else []) @
     (if has_max m then ''// Maximum: '' @ [NQ] @ to_string_float (max_val m) @ [NQ] @ [LF] else [])"

definition value_text :: "m_cvar \<Rightarrow> string \<Rightarrow> string" where
  "value_text m v = mc_name m @ '' '' @ [NQ] @ v @ [NQ] @ [LF]"

definition disabled_text :: "load_cvars \<Rightarrow> string" where
  "disabled_text load =
     [LF] @ ''// - DISABLED'' @ [LF] @
     concat (map (\<lambda>(nm, v). ''// '' @ nm @ '' = '' @ [NQ] @ v @ [NQ] @ [LF]) load)"

text \<open>
  The loop over the entries.  \<^verbatim>\<open>remove_chars\<close> is given a reference: it changes the value that was
  read, or that of the entry.  \<open>ds\<close> is \<^verbatim>\<open>direct_set\<close>.
\<close>

fun config_loop ::
  "(nat \<Rightarrow> string \<Rightarrow> cvar_mngr \<Rightarrow> cvar_error + cvar_mngr) \<Rightarrow> bool \<Rightarrow> nat list \<Rightarrow> load_cvars \<Rightarrow> string \<Rightarrow>
   cvar_mngr \<Rightarrow> cvar_error + string \<times> load_cvars \<times> cvar_mngr" where
  "config_loop ds upd [] load out st = Inr (out, load, st)"
| "config_loop ds upd (p # ps) load out st =
     (case heap st p of
        None \<Rightarrow> Inl UB_dangling
      | Some m \<Rightarrow>
          (case map_of load (mc_name m) of
             None \<Rightarrow>
               let v = remove_chars (mc_value m) CONTROL_CHARS
               in if upd
                  then config_loop ds upd ps load (out @ entry_text m @ value_text m v)
                         (upd_m p (\<lambda>m. m\<lparr>mc_value := v\<rparr>) st)
                  else config_loop ds upd ps load out st
           | Some v0 \<Rightarrow>
               let v = (if upd then remove_chars v0 CONTROL_CHARS else v0);
                   out1 = (if upd then out @ entry_text m @ value_text m v else out)
               in bind_r (ds (mc_cvar m) v st) (config_loop ds upd ps (sm_erase (mc_name m) load) out1)))"

definition config_result :: "nat \<Rightarrow> nat \<Rightarrow> bool \<Rightarrow> bool \<Rightarrow> bool \<Rightarrow> 32 word" where
  "config_result n left is_exist auto_create upd =
     (of_nat n AND 0xFF) OR push_bit 8 (of_nat left AND 0xFF)
     OR push_bit 16 (of_bool is_exist OR push_bit 1 (of_bool (\<not> is_exist \<and> auto_create))
          OR push_bit 2 (of_bool upd))"

definition config ::
  "(nat \<Rightarrow> string \<Rightarrow> cvar_mngr \<Rightarrow> cvar_error + cvar_mngr) \<Rightarrow> int \<Rightarrow> bool \<Rightarrow> string option \<Rightarrow> bool \<Rightarrow>
   string \<Rightarrow> string \<Rightarrow> string \<Rightarrow> string \<Rightarrow> cvar_mngr \<Rightarrow> cvar_error + 32 word \<times> string option \<times> cvar_mngr" where
  "config ds plugin_id auto_create file can_open title author name version st =
     (case get_by_plugin plugin_id st of
        None \<Rightarrow> Inr (0, file, st)
      | Some ps0 \<Rightarrow>
          if list_ex (\<lambda>p. heap st p = None) ps0 then Inl UB_dangling
          else
            let ps = sort_key (\<lambda>p. case heap st p of None \<Rightarrow> [] | Some m \<Rightarrow> mc_name m) ps0;
                st1 = st\<lparr>plugin_cvars := sm_set plugin_id ps (plugin_cvars st)\<rparr>;
                is_exist = (file \<noteq> None)
            in if \<not> (is_exist \<or> auto_create) then Inr (0, file, st1)
               else if \<not> can_open then Inr (0, file, st1)
               else
                 bind_r (case file of None \<Rightarrow> Inr [] | Some text \<Rightarrow> read_lines (getlines text) []) (\<lambda>load.
                   let upd = need_update load ps st1;
                       out = (if upd then config_header title author name version else [])
                   in bind_r (config_loop ds upd ps load out st1) (\<lambda>(out1, left, st2).
                        let out2 = (if upd \<and> left \<noteq> [] then out1 @ disabled_text left else out1)
                        in Inr (config_result (length ps) (length left) is_exist auto_create upd,
                                if upd then Some out2 else (case file of None \<Rightarrow> Some [] | Some t \<Rightarrow> Some t),
                                st2))))"

section \<open>A written file reads back\<close>

definition read_text :: "string \<Rightarrow> load_cvars \<Rightarrow> cvar_error + load_cvars" where
  "read_text s load = read_lines (getlines s) load"

lemma read_text_line:
  assumes "LF \<notin> set l"
  shows "read_text (l @ LF # rest) load = bind_r (read_line l load) (read_text rest)"
proof -
  have t: "takeWhile (\<lambda>x. x \<noteq> LF) (l @ LF # rest) = l"
    "dropWhile (\<lambda>x. x \<noteq> LF) (l @ LF # rest) = LF # rest"
    using assms by (induction l) auto
  have "getlines (l @ LF # rest) = l # getlines rest"
    using t by (cases l) auto
  then show ?thesis by (simp add: read_text_def [abs_def])
qed

lemma dropWhile_keep: "x \<notin> set cs \<Longrightarrow> dropWhile (\<lambda>c. c \<in> set cs) (ys @ [x]) \<noteq> []
  \<and> last (dropWhile (\<lambda>c. c \<in> set cs) (ys @ [x])) = x"
  by (induction ys) auto

text \<open>A text that starts with two untrimmed characters keeps them.\<close>

lemma trim_head:
  assumes "a \<notin> set cs" "b \<notin> set cs"
  shows "\<exists>t. trim (a # b # x) cs = a # b # t"
proof -
  have "\<exists>t. rtrim (a # b # x) cs = a # b # t"
    unfolding rtrim_def using assms by (simp add: dropWhile_append) (metis rev_rev_ident)
  then show ?thesis using assms by (auto simp: trim_def ltrim_def)
qed

lemma trim_id:
  assumes "s \<noteq> []" "hd s \<notin> set cs" "last s \<notin> set cs"
  shows "trim s cs = s"
proof -
  have "rtrim s cs = s" using assms(1,3) by (cases s rule: rev_cases) (simp_all add: rtrim_def)
  then show ?thesis using assms by (cases s) (simp_all add: trim_def ltrim_def)
qed

lemma slash_not_trimmed: "CHR ''/'' \<notin> set TRIM_CHARS" "NQ \<notin> set TRIM_CHARS"
  by (simp_all add: TRIM_CHARS_def NQ_def)

lemma read_line_comment: "read_line (''//'' @ x) load = Inr load"
proof -
  obtain t where "trim (''//'' @ x) TRIM_CHARS = CHR ''/'' # CHR ''/'' # t"
    using trim_head [OF slash_not_trimmed(1) slash_not_trimmed(1)] by auto
  then show ?thesis by (simp add: read_line_def is_comment_def Let_def)
qed

lemma read_text_comment: "LF \<notin> set x \<Longrightarrow> read_text (''//'' @ x @ LF # rest) load = read_text rest load"
  using read_text_line [of "''//'' @ x" rest load] read_line_comment [of x load] by (simp add: LF_def)

lemma read_text_empty: "read_text (LF # rest) load = read_text rest load"
  using read_text_line [of "[]" rest load]
  by (simp add: read_line_def trim_def rtrim_def ltrim_def Let_def is_comment_def)

lemma read_text_desc:
  "LF \<notin> set pre \<Longrightarrow> read_text (''//'' @ pre @ comment_text desc @ LF # rest) load = read_text rest load"
proof (induction desc arbitrary: pre)
  case Nil
  then show ?case using read_text_comment [OF Nil] by (simp add: comment_text_def)
next
  case (Cons ch desc)
  show ?case
  proof (cases "ch = LF")
    case True
    have "LF \<notin> set '' ''" by (simp add: LF_def)
    with Cons.IH [of "'' ''"] read_text_comment [OF Cons.prems]
    show ?thesis by (simp add: comment_text_def True)
  next
    case False
    then show ?thesis using Cons.IH [of "pre @ [ch]"] Cons.prems by (simp add: comment_text_def)
  qed
qed

lemma show_nat_chars: "c \<in> set (show_nat n) \<Longrightarrow> (48 :: nat) \<le> of_char c"
proof (induction n rule: show_nat.induct)
  case (1 n)
  show ?case
  proof (cases "n < 10")
    case True
    then have "c = char_of (48 + n)" using 1(2) by (simp add: show_nat.simps)
    then show ?thesis using True by simp
  next
    case False
    then have "c \<in> set (show_nat (n div 10)) \<or> c = char_of (48 + n mod 10)"
      using 1(2) by (auto simp: show_nat.simps [of n])
    then show ?thesis
    proof
      assume "c = char_of (48 + n mod 10)"
      moreover have "n mod 10 < 10" by simp
      ultimately show ?thesis by simp
    qed (use 1(1) False in blast)
  qed
qed

lemma no_LF_number: "LF \<notin> set (to_string_float r)"
proof -
  have "LF \<notin> set (show_nat n)" for n
  proof
    assume "LF \<in> set (show_nat n)"
    from show_nat_chars [OF this] show False by (simp add: LF_def)
  qed
  then show ?thesis by (auto simp: to_string_float_def Let_def pad6_def LF_def)
qed

lemma read_text_entry:
  assumes "LF \<notin> set (mc_value m)"
  shows "read_text (entry_text m @ rest) load = read_text rest load"
proof -
  have sp: "LF \<notin> set '' ''" by (simp add: LF_def)
  have c: "read_text (''//'' @ x @ [LF] @ r) load = read_text r load" if "LF \<notin> set x" for x r
    using read_text_comment [OF that] by simp
  have d: "LF \<notin> set ('' Default: '' @ [NQ] @ mc_value m @ [NQ])" "LF \<notin> set '' -''"
    "LF \<notin> set ('' Minimum: '' @ [NQ] @ to_string_float (min_val m) @ [NQ])"
    "LF \<notin> set ('' Maximum: '' @ [NQ] @ to_string_float (max_val m) @ [NQ])"
    using assms no_LF_number by (auto simp: LF_def NQ_def)
  show ?thesis
    using read_text_empty read_text_desc [OF sp] c [OF d(1)] c [OF d(2)] c [OF d(3)] c [OF d(4)]
    by (simp add: entry_text_def)
qed

text \<open>A name the reader takes for a name: no blanks in it and no comment.\<close>

definition name_ok :: "string \<Rightarrow> bool" where
  "name_ok nm \<longleftrightarrow> nm \<noteq> [] \<and> set nm \<inter> set TRIM_CHARS = {} \<and> \<not> is_comment nm \<and> nm \<noteq> ''/''"

lemma comment_prefix:
  "nm \<noteq> [] \<Longrightarrow> nm \<noteq> ''/'' \<Longrightarrow> is_comment (nm @ x) = is_comment nm"
  by (cases nm; cases "tl nm") (auto simp: is_comment_def)

lemma read_line_value:
  assumes "name_ok nm"
  shows "read_line (nm @ '' '' @ [NQ] @ v @ [NQ]) load = Inr (sm_insert nm v load)"
proof -
  let ?q = "[NQ] @ v @ [NQ]"
  have nm: "nm \<noteq> []" "\<not> is_comment nm" "nm \<noteq> ''/''" "CHR '' '' \<notin> set nm"
    using assms by (auto simp: name_ok_def TRIM_CHARS_def)
  have ht: "hd nm \<notin> set TRIM_CHARS" "last nm \<notin> set TRIM_CHARS"
    using assms nm(1) hd_in_set last_in_set unfolding name_ok_def by blast+
  have t1: "trim (nm @ '' '' @ ?q) TRIM_CHARS = nm @ '' '' @ ?q"
    by (rule trim_id) (use nm ht slash_not_trimmed in simp_all)
  have t2: "trim ?q TRIM_CHARS = ?q" "trim nm TRIM_CHARS = nm"
    by (rule trim_id; use nm ht slash_not_trimmed in simp)+
  have tw: "takeWhile (\<lambda>c. c \<noteq> CHR '' '') (nm @ '' '' @ ?q) = nm"
    using nm(4) by (induction nm) auto
  have q: "rm_quote_w QQ ?q = Inr (1, v)"
    by (simp add: rm_quote_w_def QQ_def NQ_def)
  show ?thesis
    unfolding read_line_def Let_def t1 tw
    using t2 q nm by (simp add: comment_prefix)
qed

lemma read_text_value:
  assumes "name_ok (mc_name m)" "LF \<notin> set v"
  shows "read_text (value_text m v @ rest) load = read_text rest (sm_insert (mc_name m) v load)"
proof -
  have "LF \<notin> set (mc_name m @ '' '' @ [NQ] @ v @ [NQ])"
    using assms by (auto simp: LF_def NQ_def name_ok_def TRIM_CHARS_def)
  from read_text_line [OF this, of rest load] show ?thesis
    using read_line_value [OF assms(1), of v load] by (simp add: value_text_def)
qed

definition clean :: "m_cvar \<Rightarrow> string" where
  "clean m = remove_chars (mc_value m) CONTROL_CHARS"

definition entry_ok :: "cvar_mngr \<Rightarrow> nat \<Rightarrow> bool" where
  "entry_ok st p = (case heap st p of None \<Rightarrow> False | Some m \<Rightarrow> name_ok (mc_name m) \<and> LF \<notin> set (mc_value m))"

definition entry_of :: "cvar_mngr \<Rightarrow> nat \<Rightarrow> m_cvar" where
  "entry_of st p = (case heap st p of Some m \<Rightarrow> m)"

lemma entry_ok_D: "entry_ok st p \<Longrightarrow>
    heap st p = Some (entry_of st p) \<and> name_ok (mc_name (entry_of st p)) \<and> LF \<notin> set (mc_value (entry_of st p))"
  by (auto simp: entry_ok_def entry_of_def split: option.splits)

text \<open>The text written for new entries.\<close>

lemma config_loop_new:
  assumes "distinct ps" "list_all (entry_ok st) ps"
  shows "\<exists>st'. config_loop ds True ps [] out st =
      Inr (out @ concat (map (\<lambda>p. entry_text (entry_of st p) @ value_text (entry_of st p) (clean (entry_of st p))) ps),
           [], st')
    \<and> (\<forall>p. map_option mc_name (heap st' p) = map_option mc_name (heap st p))"
  using assms
proof (induction ps arbitrary: out st)
  case (Cons p ps)
  let ?m = "entry_of st p"
  let ?s = "upd_m p (\<lambda>m. m\<lparr>mc_value := clean ?m\<rparr>) st"
  have m: "heap st p = Some ?m" using Cons.prems by (auto dest: entry_ok_D)
  have other: "heap ?s q = heap st q" if "q \<in> set ps" for q
    using that Cons.prems by (auto simp: upd_m_def)
  then have e: "list_all (entry_ok ?s) ps" "map (entry_of ?s) ps = map (entry_of st) ps"
    using Cons.prems by (auto simp: list_all_iff entry_ok_def entry_of_def)
  have step: "config_loop ds True (p # ps) [] out st =
      config_loop ds True ps [] (out @ entry_text ?m @ value_text ?m (clean ?m)) ?s"
    using m by (simp add: clean_def Let_def)
  have n: "map_option mc_name (heap ?s q) = map_option mc_name (heap st q)" for q
    using m by (simp add: upd_m_def)
  let ?t = "\<lambda>m. entry_text m @ value_text m (clean m)"
  have c: "concat (map (\<lambda>p. ?t (entry_of ?s p)) ps) = concat (map (\<lambda>p. ?t (entry_of st p)) ps)"
    by (rule arg_cong [where f = concat], rule map_cong) (use e(2) in \<open>simp_all add: map_eq_conv\<close>)
  from Cons.IH [of ?s "out @ ?t ?m"] Cons.prems(1) e(1) obtain st'
    where "config_loop ds True ps [] (out @ ?t ?m) ?s =
        Inr ((out @ ?t ?m) @ concat (map (\<lambda>p. ?t (entry_of ?s p)) ps), [], st')"
      and "\<forall>q. map_option mc_name (heap st' q) = map_option mc_name (heap ?s q)" by auto
  then show ?case
    unfolding step c using n by (intro exI [of _ st']) simp
qed simp

lemma clean_LF: "LF \<notin> set (clean m)"
  by (simp add: clean_def remove_chars_def CONTROL_CHARS_def LF_def)

lemma read_text_entries:
  assumes "list_all (entry_ok st) ps"
  shows "read_text (concat (map (\<lambda>p. entry_text (entry_of st p) @ value_text (entry_of st p)
      (clean (entry_of st p))) ps)) load =
    Inr (fold (\<lambda>p. sm_insert (mc_name (entry_of st p)) (clean (entry_of st p))) ps load)"
  using assms
proof (induction ps arbitrary: load)
  case Nil
  show ?case by (simp add: read_text_def)
next
  case (Cons p ps)
  then have "name_ok (mc_name (entry_of st p))" "LF \<notin> set (mc_value (entry_of st p))"
    by (auto dest: entry_ok_D)
  then show ?case
    using Cons by (simp add: read_text_entry read_text_value [OF _ clean_LF])
qed

lemma fold_insert_new:
  assumes "distinct (map f ps)"
  shows "map_of (fold (\<lambda>p. sm_insert (f p) (g p)) ps m) k =
      (case map_of m k of Some v \<Rightarrow> Some v | None \<Rightarrow> map_of (map (\<lambda>p. (f p, g p)) ps) k)"
  using assms
  by (induction ps arbitrary: m) (auto simp: map_of_sm_insert split: option.splits)

lemma length_sm_set: "map_of m k = None \<Longrightarrow> length (sm_set k v m) = Suc (length m)"
  by (induction k v m rule: sm_set.induct) (auto split: if_splits)

lemma fold_insert_length:
  assumes "distinct (map f ps)" "\<forall>p \<in> set ps. map_of m (f p) = None"
  shows "length (fold (\<lambda>p. sm_insert (f p) (g p)) ps m) = length ps + length m"
  using assms
proof (induction ps arbitrary: m)
  case (Cons p ps)
  then have "map_of m (f p) = None" by simp
  then have "sm_insert (f p) (g p) m = sm_set (f p) (g p) m" "length (sm_set (f p) (g p) m) = Suc (length m)"
    by (simp_all add: sm_insert_def length_sm_set)
  moreover have "\<forall>q \<in> set ps. map_of (sm_set (f p) (g p) m) (f q) = None"
    using Cons.prems by (auto simp del: map_of_eq_None_iff intro: rev_image_eqI)
  ultimately show ?case using Cons.IH [of "sm_set (f p) (g p) m"] Cons.prems(1) by simp
qed simp

text \<open>
  C21: The file \<^verbatim>\<open>config\<close> creates for a plugin reads back: every entry of the plugin has its value, less
  control characters, whatever the descriptions say, and the file need not be rewritten.
\<close>

theorem created_config_reads_back:
  assumes "get_by_plugin i st = Some ps" "ps \<noteq> []" "list_all (entry_ok st) ps" "distinct (names_of ps st)"
    and "LF \<notin> set (title @ author @ name @ version)"
  shows "\<exists>r text st' load. config ds i True None True title author name version st = Inr (r, Some text, st')
    \<and> read_lines (getlines text) [] = Inr load
    \<and> \<not> need_update load ps st'
    \<and> list_all (\<lambda>m. map_of load (mc_name m) = Some (clean m)) (map (entry_of st) ps)"
proof -
  let ?k = "\<lambda>p. case heap st p of None \<Rightarrow> [] | Some m \<Rightarrow> mc_name m"
  let ?ps = "sort_key ?k ps"
  let ?st1 = "st\<lparr>plugin_cvars := sm_set i ?ps (plugin_cvars st)\<rparr>"
  have eq: "entry_of ?st1 = entry_of st" "entry_ok ?st1 = entry_ok st"
    by (simp_all add: entry_of_def entry_ok_def fun_eq_iff)
  have live: "\<not> list_ex (\<lambda>p. heap st p = None) ps"
    using assms(3) by (auto simp: list_ex_iff list_all_iff dest: entry_ok_D)
  have k: "map ?k ps = map (\<lambda>p. mc_name (entry_of st p)) ps"
    using assms(3) by (auto simp: list_all_iff dest!: entry_ok_D split: option.splits)
  have dn: "distinct (map (\<lambda>p. mc_name (entry_of st p)) ps)"
    using assms(4) unfolding names_of_def k .
  have d: "distinct (map (\<lambda>p. mc_name (entry_of st p)) ?ps)"
    using dn by (simp add: distinct_map)
  have sp: "distinct ?ps" "list_all (entry_ok ?st1) ?ps"
    using dn assms(3) by (simp_all add: distinct_map list_all_iff eq)
  let ?h = "config_header title author name version"
  let ?c = "concat (map (\<lambda>p. entry_text (entry_of st p) @ value_text (entry_of st p) (clean (entry_of st p))) ?ps)"
  let ?load = "fold (\<lambda>p. sm_insert (mc_name (entry_of st p)) (clean (entry_of st p))) ?ps []"
  obtain st' where loop: "config_loop ds True ?ps [] ?h ?st1 = Inr (?h @ ?c, [], st')"
    and nm: "map_option mc_name (heap st' p) = map_option mc_name (heap st p)" for p
    using config_loop_new [OF sp, of ds ?h] by (auto simp: eq)
  have "names_of ps ?st1 \<noteq> []" using assms(2) by (simp add: names_of_def)
  then have up: "need_update [] ?ps ?st1" using assms(2) by (simp add: need_update_def names_of_def list_ex_iff)
  obtain r where cfg: "config ds i True None True title author name version st = Inr (r, Some (?h @ ?c), st')"
    using assms(1) live loop up by (simp add: config_def Let_def)
  have f: "LF \<notin> set ('' This file was auto-generated by REFSAPI'')"
    "LF \<notin> set ('' Cvars for plugin '' @ [NQ] @ title @ [NQ] @ '' by '' @ [NQ] @ author @ [NQ] @ '' ('' @ name
       @ '', v'' @ version @ '')'')"
    using assms(5) by (auto simp: LF_def NQ_def)
  have "read_text (?h @ x) [] = read_text x []" for x
    using read_text_comment [OF f(1)] read_text_comment [OF f(2)] by (simp add: config_header_def)
  then have rd: "read_lines (getlines (?h @ ?c)) [] = Inr ?load"
    using read_text_entries [OF sp(2), of "[]"] by (simp add: read_text_def eq)
  have vals: "map_of ?load (mc_name (entry_of st p)) = Some (clean (entry_of st p))" if "p \<in> set ps" for p
  proof -
    have "map_of (map (\<lambda>p. (mc_name (entry_of st p), clean (entry_of st p))) ?ps) (mc_name (entry_of st p)) =
        Some (clean (entry_of st p))"
      by (rule map_of_is_SomeI) (use d that in \<open>auto simp: comp_def\<close>)
    then show ?thesis by (simp add: fold_insert_new [OF d])
  qed
  have len: "length ?load = length ps"
    using fold_insert_length [OF d, of "[]"] by simp
  have names: "names_of ps st' = map (\<lambda>p. mc_name (entry_of st p)) ps"
  proof -
    have "(case heap st' p of None \<Rightarrow> [] | Some m \<Rightarrow> mc_name m) = ?k p" for p
      using nm [of p] by (cases "heap st' p"; cases "heap st p") auto
    then show ?thesis unfolding names_of_def k [symmetric] by simp
  qed
  have "\<not> need_update ?load ps st'"
    unfolding need_update_def names using vals len assms(2) by (simp add: list_ex_iff del: map_of_eq_None_iff)
  moreover have "list_all (\<lambda>m. map_of ?load (mc_name m) = Some (clean m)) (map (entry_of st) ps)"
    using vals by (simp add: list_all_iff)
  ultimately show ?thesis using cfg rd by blast
qed

definition one_entry :: cvar_mngr where
  "one_entry = (no_entries ''3'')\<lparr>heap := (\<lambda>_. None)(0 \<mapsto> (x_entry 1 5 ''3'')\<lparr>mc_desc := ''a'' @ [LF] @ ''b c''\<rparr>),
     plugin_cvars := [(7, [0])]\<rparr>"

theorem created_config_reads_back_witness:
  "\<exists>r text st' load. config (\<lambda>c v st. Inr st) 7 True None True ''T'' ''A'' ''N'' ''1'' one_entry = Inr (r, Some text, st')
     \<and> read_lines (getlines text) [] = Inr load \<and> map_of load ''sv_x'' = Some ''3''"
proof -
  have e: "entry_of one_entry 0 = (x_entry 1 5 ''3'')\<lparr>mc_desc := ''a'' @ [LF] @ ''b c''\<rparr>"
    by (simp add: entry_of_def one_entry_def)
  have h: "get_by_plugin 7 one_entry = Some [0]" "[0 :: nat] \<noteq> []" "distinct (names_of [0] one_entry)"
    "LF \<notin> set (''T'' @ ''A'' @ ''N'' @ ''1'')"
    by (simp_all add: get_by_plugin_def one_entry_def names_of_def LF_def)
  have ok: "list_all (entry_ok one_entry) [0]"
    by (simp add: entry_ok_def one_entry_def x_entry_def LF_def name_ok_def TRIM_CHARS_def is_comment_def)
  have c: "mc_name (entry_of one_entry 0) = ''sv_x''" "clean (entry_of one_entry 0) = ''3''"
    by (simp_all add: e x_entry_def clean_def remove_chars_def CONTROL_CHARS_def)
  from created_config_reads_back [OF h(1,2) ok h(3,4), of "\<lambda>c v st. Inr st"]
  obtain r tx st' load where
    "config (\<lambda>c v st. Inr st) 7 True None True ''T'' ''A'' ''N'' ''1'' one_entry = Inr (r, Some tx, st')"
    "read_lines (getlines tx) [] = Inr load"
    "list_all (\<lambda>m. map_of load (mc_name m) = Some (clean m)) (map (entry_of one_entry) [0])" by blast
  then show ?thesis using c by (intro exI conjI) (assumption | simp)+
qed

end
