(* ===== verification/Cvar_Natives.thy ===== *)
theory Cvar_Natives
  imports Cvar_Inv Cvar_Config
begin

text \<open>
  The natives of \<^verbatim>\<open>natives_refsapi.cpp\<close> that plugins reach the cvar manager through, and the cvars the
  module registers for itself (\<^verbatim>\<open>api_config.cpp\<close>).  A native returns a cell; a cell that holds a pointer
  to an entry is \<open>None\<close> for the null pointer.
\<close>

section \<open>Natives\<close>

definition type_of_cell :: "int \<Rightarrow> cvar_type" where
  "type_of_cell n = (if n = 1 then CVAR_TYPE_NUM else if n = 2 then CVAR_TYPE_FLT
     else if n = 3 then CVAR_TYPE_STR else if n = 4 then CVAR_TYPE_FLG else CVAR_TYPE_NONE)"

definition check_type_r :: "int \<Rightarrow> bool" where
  "check_type_r x = (x > 0 \<and> x < 5)"

definition check_global_r :: "int \<Rightarrow> int \<Rightarrow> bool" where
  "check_global_r hlw x = (\<not> x > hlw)"

definition rf_create_cvar ::
  "engine \<Rightarrow> int \<Rightarrow> string \<Rightarrow> string \<Rightarrow> int \<Rightarrow> string \<Rightarrow> bool \<Rightarrow> rat \<Rightarrow> bool \<Rightarrow> rat \<Rightarrow> cvar_mngr \<Rightarrow>
   cvar_error + nat option \<times> cvar_mngr" where
  "rf_create_cvar E plugin_id name value flags desc hmin mn hmax mx st =
     add_cvar E plugin_id name value flags desc hmin mn hmax mx st"

definition rf_bind_pcvar ::
  "engine \<Rightarrow> nat \<Rightarrow> int \<Rightarrow> int \<Rightarrow> nat option \<Rightarrow> int \<Rightarrow> nat \<Rightarrow> cvar_mngr \<Rightarrow> cvar_error + bool \<times> cvar_mngr" where
  "rf_bind_pcvar E n hlw type pcvar var var_size st =
     (if \<not> check_global_r hlw var then Inr (False, st)
      else if \<not> check_type_r type then Inr (False, st)
      else bind_r (bind_cvar E (set_by_name E n) (type_of_cell type) pcvar (nat var) var_size st)
             (\<lambda>st'. Inr (True, st')))"

text \<open>\<open>fwd\<close> is what the registration of the callback returned.\<close>

definition rf_hook_cvar_change :: "int \<Rightarrow> nat option \<Rightarrow> bool \<Rightarrow> cvar_mngr \<Rightarrow> cvar_error + int \<times> cvar_mngr" where
  "rf_hook_cvar_change fwd pcvar is_enable st =
     (if fwd = - 1 then Inr (0, st) else create_hook fwd pcvar is_enable st)"

definition rf_cvar_hook_state :: "int \<Rightarrow> bool \<Rightarrow> cvar_mngr \<Rightarrow> bool \<times> cvar_mngr" where
  "rf_cvar_hook_state fwd state st = cvar_hook_state fwd state st"

definition rf_get_pcvar ::
  "int \<Rightarrow> nat option \<Rightarrow> nat \<Rightarrow> nat \<Rightarrow> cvar_mngr \<Rightarrow> cvar_error + amx_val \<times> cvar_mngr" where
  "rf_get_pcvar type pcvar var var_size st = get_value (type_of_cell type) pcvar var var_size st"

definition rf_get_cvar ::
  "engine \<Rightarrow> int \<Rightarrow> string \<Rightarrow> nat \<Rightarrow> nat \<Rightarrow> cvar_mngr \<Rightarrow> cvar_error + amx_val \<times> cvar_mngr" where
  "rf_get_cvar E type name var var_size st =
     bind_r (get_by_name E name st) (\<lambda>(mp, st1). get_value (type_of_cell type) mp var var_size st1)"

text \<open>
  The value to set: \<open>w\<close> the cell, \<open>f\<close> the cell read as a float, \<open>s\<close> the text, \<open>ptr_ok\<close> whether the
  address is valid.  Types without a case end the native.
\<close>

definition set_arg :: "int \<Rightarrow> int \<Rightarrow> rat \<Rightarrow> string \<Rightarrow> set_val" where
  "set_arg type w f s =
     (if type = 1 then Set_num w else if type = 2 then Set_flt f
      else if type = 4 then Set_flg (of_int w) else if type = 3 then Set_str s else Set_none)"

definition rf_set_pcvar ::
  "engine \<Rightarrow> nat \<Rightarrow> int \<Rightarrow> nat option \<Rightarrow> bool \<Rightarrow> int \<Rightarrow> rat \<Rightarrow> string \<Rightarrow> cvar_mngr \<Rightarrow>
   cvar_error + bool \<times> cvar_mngr" where
  "rf_set_pcvar E n type pcvar ptr_ok w f s st =
     (if pcvar = None then Inr (False, st)
      else if \<not> check_type_r type then Inr (False, st)
      else if \<not> ptr_ok then Inr (False, st)
      else bind_r (set_value (cvar_direct_set E n) (set_arg type w f s) pcvar st) (\<lambda>st'. Inr (True, st')))"

definition rf_set_cvar ::
  "engine \<Rightarrow> nat \<Rightarrow> int \<Rightarrow> string \<Rightarrow> bool \<Rightarrow> int \<Rightarrow> rat \<Rightarrow> string \<Rightarrow> cvar_mngr \<Rightarrow>
   cvar_error + bool \<times> cvar_mngr" where
  "rf_set_cvar E n type name ptr_ok w f s st =
     (if name = [] then Inr (False, st)
      else if \<not> check_type_r type then Inr (False, st)
      else if \<not> ptr_ok then Inr (False, st)
      else bind_r (get_by_name E name st) (\<lambda>(mp, st1).
             bind_r (set_value (cvar_direct_set E n) (set_arg type w f s) mp st1) (\<lambda>st'. Inr (True, st'))))"

definition rf_get_cvar_ptr :: "engine \<Rightarrow> string \<Rightarrow> cvar_mngr \<Rightarrow> cvar_error + nat option \<times> cvar_mngr" where
  "rf_get_cvar_ptr E name st = get_by_name E name st"

definition rf_config ::
  "engine \<Rightarrow> nat \<Rightarrow> int \<Rightarrow> bool \<Rightarrow> string option \<Rightarrow> bool \<Rightarrow> string \<Rightarrow> string \<Rightarrow> string \<Rightarrow> string \<Rightarrow>
   cvar_mngr \<Rightarrow> cvar_error + 32 word \<times> string option \<times> cvar_mngr" where
  "rf_config E n plugin_id auto_create file can_open title author name version st =
     config (cvar_direct_set E n) plugin_id auto_create file can_open title author name version st"

section \<open>The cvars of the module\<close>

definition FCVAR_MODULE :: int where
  "FCVAR_MODULE = 32 + 4 + 64 + 256"

text \<open>
  Name, default, type, minimum, maximum and the index of the variable in \<^verbatim>\<open>api_cvars_t\<close>.  The texts of
  the descriptions are an argument; that of the last cvar is empty.
\<close>

definition api_cvars :: "(string \<times> string \<times> cvar_type \<times> rat \<times> rat \<times> nat) list" where
  "api_cvars =
     [(''acs_refsapi_block_status'', ''1'', CVAR_TYPE_NUM, 0, 1, 1),
      (''acs_refsapi_mysql_frame_pooling'', ''1000'', CVAR_TYPE_NUM, 100, 1000, 2),
      (''acs_refsapi_mysql_frame_rate_k1'', ''53.0'', CVAR_TYPE_FLT, 1, 100, 3),
      (''acs_refsapi_mysql_frame_rate_k2'', ''7.0'', CVAR_TYPE_FLT, 1 / 10, 25, 4),
      (''acs_refsapi_timer_frame_pooling'', ''1000'', CVAR_TYPE_NUM, 100, 1000, 5),
      (''acs_refsapi_timer_frame_rate_k1'', ''23.0'', CVAR_TYPE_FLT, 1, 100, 6),
      (''acs_refsapi_timer_frame_rate_k2'', ''3.0'', CVAR_TYPE_FLT, 1 / 10, 25, 7),
      (''acs_refsapi_loaded'', ''1'', CVAR_TYPE_NUM, 0, 1, 0)]"

fun register_loop ::
  "engine \<Rightarrow> nat \<Rightarrow> (nat \<Rightarrow> nat) \<Rightarrow> (nat \<Rightarrow> string) \<Rightarrow> (string \<times> string \<times> cvar_type \<times> rat \<times> rat \<times> nat) list \<Rightarrow>
   cvar_mngr \<Rightarrow> cvar_error + cvar_mngr" where
  "register_loop E n addr desc [] st = Inr st"
| "register_loop E n addr desc ((nm, v, ty, mn, mx, k) # cs) st =
     bind_r (add_cvar E (- 1) nm v FCVAR_MODULE (if k = 0 then [] else desc k) True mn True mx st) (\<lambda>(mp, st1).
       bind_r (bind_cvar E (set_by_name E n) ty mp (addr k) 4 st1) (register_loop E n addr desc cs))"

definition RegisterCvars ::
  "engine \<Rightarrow> nat \<Rightarrow> (nat \<Rightarrow> nat) \<Rightarrow> (nat \<Rightarrow> string) \<Rightarrow> string option \<Rightarrow> bool \<Rightarrow> string \<Rightarrow> string \<Rightarrow> string \<Rightarrow>
   string \<Rightarrow> cvar_mngr \<Rightarrow> cvar_error + 32 word \<times> string option \<times> cvar_mngr" where
  "RegisterCvars E n addr desc file can_open title author name version st =
     bind_r (register_loop E n addr desc api_cvars st)
       (config (cvar_direct_set E n) (- 1) True file can_open title author name version)"

section \<open>Natives keep the registry\<close>

lemma get_value_ok:
  assumes "cvars_ok st" "get_value ty mp ptr n st = Inr (r, st')"
  shows "cvars_ok st'"
proof -
  have "st' = st \<or> (\<exists>mem. st' = st\<lparr>cells := mem\<rparr>)"
    using assms(2)
    by (auto simp: get_value_def bind_r_eq_Inr Let_def split: option.splits cvar_type.splits)
  moreover have "cvars_ok (st\<lparr>cells := mem\<rparr>)" for mem
    using assms(1) by (rule cvars_ok_same) (simp_all add: same_entries_def)
  ultimately show ?thesis using assms(1) by auto
qed

lemma set_value_ok:
  assumes "engine_ok E" "cvars_ok st" "set_value (cvar_direct_set E n) v mp st = Inr st'"
  shows "cvars_ok st'"
proof (cases mp)
  case (Some p)
  then obtain m where m: "heap st p = Some m"
    using assms(3) by (auto simp: set_value_def split: option.splits)
  then have e: "ecvars st (mc_cvar m) \<noteq> None"
    using assms(2) unfolding cvars_ok_def registry_ok_def by fastforce
  show ?thesis
    using assms(3) m Some assms(2) cvar_direct_set_ok [OF assms(1,2) e]
    by (cases v) (auto simp: set_value_def)
qed (use assms in \<open>simp add: set_value_def\<close>)

lemma register_loop_ok:
  "engine_ok E \<Longrightarrow> cvars_ok st \<Longrightarrow> register_loop E n addr desc cs st = Inr st' \<Longrightarrow> cvars_ok st'"
proof (induction E n addr desc cs st rule: register_loop.induct)
  case (2 E n addr desc nm v ty mn mx k cs st)
  then obtain mp st1 st2 where
    a: "add_cvar E (- 1) nm v FCVAR_MODULE (if k = 0 then [] else desc k) True mn True mx st = Inr (mp, st1)"
    and b: "bind_cvar E (set_by_name E n) ty mp (addr k) 4 st1 = Inr st2"
    and c: "register_loop E n addr desc cs st2 = Inr st'"
    by (auto simp: bind_r_eq_Inr)
  have "cvars_ok st1" using add_cvar_ok [OF 2(2,3) a] .
  then have "cvars_ok st2" using bind_cvar_ok [OF setter_set_by_name [OF 2(2)] _ b] by blast
  from 2(1) [OF 2(2) this c] show ?case .
qed simp

end
