(* ===== verification/Entities.thy ===== *)
theory Entities
  imports Complex_Main Prelude
begin

text \<open>
  The registry of game entities of \<^verbatim>\<open>refsapi.cpp\<close>: the class of every entity
  (\<^verbatim>\<open>classnames\<close>), the entities of every class (\<^verbatim>\<open>entities\<close>), the weapons and the items of every
  player, and the queries over them.  The engine is a parameter: \<open>w\<close> gives the entity of an index
  (\<^verbatim>\<open>INDEXENT\<close>), \<open>max_clients\<close> is \<^verbatim>\<open>gpGlobals->maxClients\<close>.  Coordinates are exact numbers.
\<close>

section \<open>Data\<close>

type_synonym vec3 = "rat \<times> rat \<times> rat"

record edict =
  ed_private :: bool         \<comment> \<open>\<^verbatim>\<open>pvPrivateData\<close> is set\<close>
  ed_free :: bool
  ed_killme :: bool          \<comment> \<open>\<^verbatim>\<open>FL_KILLME\<close>\<close>
  ed_classname :: "string option"
  ed_owner :: int            \<comment> \<open>\<^verbatim>\<open>ENTINDEX(v.owner)\<close>\<close>
  ed_team :: int
  ed_alive :: bool           \<comment> \<open>\<^verbatim>\<open>deadflag == DEAD_NO\<close>\<close>
  ed_origin :: vec3
  ed_absmin :: vec3
  ed_absmax :: vec3

type_synonym world = "int \<Rightarrow> edict option"

record tries =
  entities :: "string \<Rightarrow> int list option"
  classnames :: "int \<Rightarrow> string option"
  wp_entities :: "int list"
  player_entities :: "int \<Rightarrow> int list"

definition tries_init :: tries where
  "tries_init = \<lparr>entities = (\<lambda>_. None), classnames = (\<lambda>_. None), wp_entities = [],
                 player_entities = (\<lambda>_. [])\<rparr>"

datatype ent_error = UB_iterator_invalidated | UB_end_iterator

definition is_valid_index :: "int \<Rightarrow> int \<Rightarrow> bool" where
  "is_valid_index max_clients index = (0 < index \<and> index \<le> max_clients)"

definition is_valid_entity :: "edict option \<Rightarrow> bool" where
  "is_valid_entity p = (case p of None \<Rightarrow> False
     | Some e \<Rightarrow> \<not> (\<not> ed_private e \<or> ed_free e \<or> ed_killme e))"

definition is_valid_team :: "int \<Rightarrow> bool" where
  "is_valid_team team = (1 \<le> team \<and> team \<le> 2)"

text \<open>\<^verbatim>\<open>STRING(p->v.classname)\<close>; the null string reads as the empty one.\<close>

definition class_str :: "edict \<Rightarrow> string" where
  "class_str e = (case ed_classname e of None \<Rightarrow> [] | Some s \<Rightarrow> s)"

definition WP_CLASS_PREFIX :: string where "WP_CLASS_PREFIX = ''weapon_''"

definition is_weapon_class :: "string \<Rightarrow> bool" where
  "is_weapon_class key = (take 7 key = WP_CLASS_PREFIX \<and> length key > 7)"

section \<open>Lists of entities\<close>

definition trie_add ::
  "(string \<Rightarrow> int list option) \<Rightarrow> string \<Rightarrow> int \<Rightarrow> nat \<times> (string \<Rightarrow> int list option)" where
  "trie_add trie key value =
     (let v = (case trie key of None \<Rightarrow> [] | Some v \<Rightarrow> v) @ [value]
      in (length v, trie(key \<mapsto> v)))"

definition trie_remove ::
  "(string \<Rightarrow> int list option) \<Rightarrow> string \<Rightarrow> int \<Rightarrow> nat \<times> (string \<Rightarrow> int list option)" where
  "trie_remove trie key value =
     (case trie key of
        None \<Rightarrow> (0, trie)
      | Some v \<Rightarrow>
          let v' = remove1 value v
          in if length v' = 0 then (0, trie(key := None)) else (length v', trie(key \<mapsto> v')))"

definition trie_transfer :: "string \<Rightarrow> string \<Rightarrow> int \<Rightarrow> tries \<Rightarrow> tries" where
  "trie_transfer key_from key_to value st =
     (let t1 = snd (trie_remove (entities st) key_from value);
          c1 = (classnames st)(value \<mapsto> key_to)
      in st\<lparr>entities := snd (trie_add t1 key_to value), classnames := c1\<rparr>)"

definition vector_add :: "int list \<Rightarrow> int \<Rightarrow> int \<times> int list" where
  "vector_add v value = (int (length (v @ [value])), v @ [value])"

definition vector_remove :: "int list \<Rightarrow> int \<Rightarrow> int \<times> int list" where
  "vector_remove v value = (int (length (remove1 value v)), remove1 value v)"

section \<open>Creation and removal of entities and items\<close>

definition Alloc_EntPrivateData :: "int \<Rightarrow> edict \<Rightarrow> tries \<Rightarrow> tries" where
  "Alloc_EntPrivateData index p st =
     (case ed_classname p of
        None \<Rightarrow> st
      | Some key \<Rightarrow>
          let st1 = st\<lparr>entities := snd (trie_add (entities st) key index),
                       classnames := (classnames st)(index \<mapsto> key)\<rparr>
          in if is_weapon_class key
             then st1\<lparr>wp_entities := snd (vector_add (wp_entities st1) index)\<rparr> else st1)"

definition Free_EntPrivateData :: "int \<Rightarrow> int \<Rightarrow> edict \<Rightarrow> tries \<Rightarrow> tries" where
  "Free_EntPrivateData max_clients index p st =
     (let key_old = (case classnames st index of None \<Rightarrow> [] | Some k \<Rightarrow> k);
          key = (case ed_classname p of None \<Rightarrow> key_old | Some s \<Rightarrow> s);
          st1 = (if key_old \<noteq> key then trie_transfer key_old key index st else st);
          st2 = st1\<lparr>entities := snd (trie_remove (entities st1) key index)\<rparr>;
          st3 = (if is_weapon_class key
                 then st2\<lparr>wp_entities := snd (vector_remove (wp_entities st2) index)\<rparr> else st2);
          st4 = (if is_valid_index max_clients (ed_owner p)
                 then st3\<lparr>player_entities := (player_entities st3)
                        (ed_owner p := snd (vector_remove (player_entities st3 (ed_owner p)) index))\<rparr>
                 else st3)
      in st4\<lparr>classnames := (classnames st4)(index := None)\<rparr>)"

text \<open>
  The hooks around \<^verbatim>\<open>AddPlayerItem\<close> and \<^verbatim>\<open>RemovePlayerItem\<close>; \<open>origin\<close> is the result of the game,
  \<open>owner\<close> the owner of the item after it.
\<close>

definition AddPlayerItem :: "bool \<Rightarrow> int \<Rightarrow> int \<Rightarrow> tries \<Rightarrow> tries" where
  "AddPlayerItem origin pl_id index st =
     (if origin
      then st\<lparr>player_entities := (player_entities st)
                (pl_id := snd (vector_add (player_entities st pl_id) index))\<rparr>
      else st)"

definition RemovePlayerItem :: "int \<Rightarrow> bool \<Rightarrow> int \<Rightarrow> int \<Rightarrow> tries \<Rightarrow> tries" where
  "RemovePlayerItem max_clients origin index owner st =
     (if origin \<and> is_valid_index max_clients owner
      then st\<lparr>player_entities := (player_entities st)
                (owner := snd (vector_remove (player_entities st owner) index))\<rparr>
      else st)"

section \<open>Queries\<close>

text \<open>The vector \<^verbatim>\<open>copy_entities\<close> is given a reference to.\<close>

datatype vref = V_player int | V_weapons | V_class string

fun get_vec :: "vref \<Rightarrow> tries \<Rightarrow> int list" where
  "get_vec (V_player i) st = player_entities st i"
| "get_vec V_weapons st = wp_entities st"
| "get_vec (V_class k) st = (case entities st k of None \<Rightarrow> [] | Some v \<Rightarrow> v)"

fun set_vec :: "vref \<Rightarrow> int list \<Rightarrow> tries \<Rightarrow> tries" where
  "set_vec (V_player i) v st = st\<lparr>player_entities := (player_entities st)(i := v)\<rparr>"
| "set_vec V_weapons v st = st\<lparr>wp_entities := v\<rparr>"
| "set_vec (V_class k) v st = st\<lparr>entities := (entities st)(k \<mapsto> v)\<rparr>"

definition kept :: "world \<Rightarrow> tries \<Rightarrow> int \<Rightarrow> bool" where
  "kept w st e = (is_valid_entity (w e) \<and> classnames st e \<noteq> None)"

text \<open>
  The loop over the vector: its iterators and the reference \<^verbatim>\<open>entity\<close> are used after
  \<^verbatim>\<open>trie_transfer\<close>, which erases from the list of the old class and appends to the list of the
  new one; when either is the vector of the loop they are invalid.
\<close>

fun copy_ents ::
  "world \<Rightarrow> string \<Rightarrow> vref \<Rightarrow> nat \<Rightarrow> int list \<Rightarrow> int list \<Rightarrow> tries \<Rightarrow> ent_error + int list \<times> tries" where
  "copy_ents w key r max_size [] dest st = Inr (dest, st)"
| "copy_ents w key r max_size (e # es) dest st =
     (case (w e, classnames st e) of
        (Some p, Some old) \<Rightarrow>
          let new = class_str p
          in if old \<noteq> new \<and> (r = V_class old \<or> r = V_class new) then Inl UB_iterator_invalidated
             else
               let st1 = (if old \<noteq> new then trie_transfer old new e st else st)
               in if key \<noteq> new then copy_ents w key r max_size es dest st1
                  else if length (dest @ [e]) \<ge> max_size then Inr (dest @ [e], st1)
                  else copy_ents w key r max_size es (dest @ [e]) st1
      | _ \<Rightarrow> Inl UB_end_iterator)"

definition copy_entities :: "world \<Rightarrow> vref \<Rightarrow> string \<Rightarrow> nat \<Rightarrow> tries \<Rightarrow> ent_error + int list \<times> tries" where
  "copy_entities w r key max_size st =
     (let v = filter (kept w st) (get_vec r st)
      in copy_ents w key r max_size v [] (set_vec r v st))"

definition rf_get_ent_by_class ::
  "int \<Rightarrow> world \<Rightarrow> string \<Rightarrow> int \<Rightarrow> bool \<Rightarrow> nat \<Rightarrow> tries \<Rightarrow> ent_error + int list \<times> tries" where
  "rf_get_ent_by_class max_clients w key owner_index dest_null max_size st =
     (if dest_null \<or> key = [] \<or> max_size = 0 then Inr ([], st)
      else if is_valid_index max_clients owner_index
      then copy_entities w (V_player owner_index) key max_size st
      else if take 7 key = WP_CLASS_PREFIX \<and> length key > 8
      then copy_entities w V_weapons key max_size st
      else copy_entities w (V_class key) key max_size st)"

definition rf_get_user_weapons :: "int \<Rightarrow> nat \<Rightarrow> tries \<Rightarrow> int list" where
  "rf_get_user_weapons pl_id size_arg st =
     (let v = player_entities st pl_id; max_size = min (length v) size_arg in take max_size v)"

section \<open>The buy zone\<close>

fun vec_x :: "vec3 \<Rightarrow> rat" where "vec_x (x, y, z) = x"
fun vec_y :: "vec3 \<Rightarrow> rat" where "vec_y (x, y, z) = y"
fun vec_z :: "vec3 \<Rightarrow> rat" where "vec_z (x, y, z) = z"

definition is_entity_intersects :: "edict \<Rightarrow> edict \<Rightarrow> bool" where
  "is_entity_intersects e1 e2 =
     (\<not> (vec_x (ed_absmin e1) > vec_x (ed_absmax e2)
         \<or> vec_y (ed_absmin e1) > vec_y (ed_absmax e2)
         \<or> vec_z (ed_absmin e1) > vec_z (ed_absmax e2)
         \<or> vec_x (ed_absmax e1) < vec_x (ed_absmin e2)
         \<or> vec_y (ed_absmax e1) < vec_y (ed_absmin e2)
         \<or> vec_z (ed_absmax e1) < vec_z (ed_absmin e2)))"

text \<open>\<^verbatim>\<open>(a - b).Length() < 200\<close>, squared.\<close>

definition closer_200 :: "vec3 \<Rightarrow> vec3 \<Rightarrow> bool" where
  "closer_200 a b =
     ((vec_x a - vec_x b)\<^sup>2 + (vec_y a - vec_y b)\<^sup>2 + (vec_z a - vec_z b)\<^sup>2 < 40000)"

definition get_user_buyzone :: "world \<Rightarrow> bool \<Rightarrow> int \<Rightarrow> tries \<Rightarrow> bool \<times> tries" where
  "get_user_buyzone w has_zone pl_id st =
     (case w pl_id of
        None \<Rightarrow> (False, st)
      | Some p \<Rightarrow>
          if is_valid_entity (Some p) \<and> is_valid_team (ed_team p) \<and> ed_alive p then
            let key = (if has_zone then ''func_buyzone''
                       else if ed_team p = 1 then ''info_player_deathmatch'' else ''info_player_start'');
                v = get_vec (V_class key) st;
                found = list_ex (\<lambda>i. case w i of
                    None \<Rightarrow> False
                  | Some z \<Rightarrow> is_valid_entity (Some z)
                      \<and> (if has_zone then ed_team p = ed_team z \<and> is_entity_intersects p z
                         else closer_200 (ed_origin z) (ed_origin p))) v
            in (found, set_vec (V_class key) v st)
          else (False, st))"

end
