(* ===== verification/Entities_Props.thy ===== *)
theory Entities_Props
  imports Entities
begin

text \<open>
  The registry files every entity at most once and only under its recorded class, in every state the
  hooks can reach; what a query by class returns, and when it invalidates the vector it walks; what
  the intersection test of the buy zone decides.
\<close>

section \<open>The lists of the classes\<close>

definition tget :: "(string \<Rightarrow> int list option) \<Rightarrow> string \<Rightarrow> int list" where
  "tget t k = (case t k of None \<Rightarrow> [] | Some v \<Rightarrow> v)"

lemma tget_add [simp]: "tget (snd (trie_add t k i)) = (tget t)(k := tget t k @ [i])"
  by (rule ext) (simp add: tget_def trie_add_def Let_def)

lemma tget_remove [simp]: "tget (snd (trie_remove t k i)) = (tget t)(k := remove1 i (tget t k))"
  by (rule ext) (auto simp: tget_def trie_remove_def Let_def split: option.split)

lemma get_vec_class [simp]: "get_vec (V_class k) st = tget (entities st) k"
  by (simp add: tget_def)

lemma tget_upd [simp]: "tget (t(k \<mapsto> v)) = (tget t)(k := v)"
  by (rule ext) (simp add: tget_def)

definition filed_once :: "(string \<Rightarrow> int list) \<Rightarrow> (int \<Rightarrow> string option) \<Rightarrow> bool" where
  "filed_once t c = (\<forall>k. distinct (t k) \<and> (\<forall>i \<in> set (t k). c i = Some k))"

definition tries_inv :: "tries \<Rightarrow> bool" where
  "tries_inv st = filed_once (tget (entities st)) (classnames st)"

lemma filed_onceD: "filed_once t c \<Longrightarrow> i \<in> set (t k) \<Longrightarrow> c i = Some k"
  unfolding filed_once_def by blast

lemma filed_once_add:
  "filed_once t c \<Longrightarrow> c i = None \<Longrightarrow> filed_once (t(k := t k @ [i])) (c(i \<mapsto> k))"
  unfolding filed_once_def by force

lemma filed_once_move:
  assumes "filed_once t c" "\<And>k. i \<in> set (t k) \<Longrightarrow> k = k1" "k1 \<noteq> k2"
  shows "filed_once (t(k1 := remove1 i (t k1), k2 := t k2 @ [i])) (c(i \<mapsto> k2))"
  unfolding filed_once_def
proof (intro allI conjI ballI)
  fix k
  have d: "distinct (t k)" "distinct (t k1)" using assms(1) by (auto simp: filed_once_def)
  have n: "i \<notin> set (t k2)" using assms(2,3) by blast
  show "distinct ((t(k1 := remove1 i (t k1), k2 := t k2 @ [i])) k)"
    using assms(1) n by (simp add: filed_once_def)
  fix j
  assume j: "j \<in> set ((t(k1 := remove1 i (t k1), k2 := t k2 @ [i])) k)"
  show "(c(i \<mapsto> k2)) j = Some k"
  proof (cases "j = i")
    case True
    with j n assms(2) d show ?thesis by (cases "k = k2"; cases "k = k1") auto
  next
    case False
    with j have "j \<in> set (t k)" by (auto split: if_splits dest: notin_set_remove1)
    with False filed_onceD [OF assms(1)] show ?thesis by simp
  qed
qed

lemma filed_once_unfile:
  assumes "filed_once t c" "\<And>k'. i \<in> set (t k') \<Longrightarrow> k' = k"
  shows "filed_once (t(k := remove1 i (t k))) (c(i := None))"
  unfolding filed_once_def
proof (intro allI conjI ballI)
  fix k'
  show "distinct ((t(k := remove1 i (t k))) k')" using assms(1) by (simp add: filed_once_def)
  fix j
  assume "j \<in> set ((t(k := remove1 i (t k))) k')"
  then have "j \<in> set (t k') \<and> j \<noteq> i"
    using assms by (auto simp: filed_once_def split: if_splits dest: notin_set_remove1)
  with filed_onceD [OF assms(1)] show "(c(i := None)) j = Some k'" by simp
qed

lemma filed_once_filter: "filed_once t c \<Longrightarrow> filed_once (t(k := filter P (t k))) c"
  unfolding filed_once_def by auto

section \<open>The operations\<close>

lemma alloc_inv: "tries_inv st \<Longrightarrow> classnames st i = None \<Longrightarrow> tries_inv (Alloc_EntPrivateData i p st)"
  by (simp add: tries_inv_def Alloc_EntPrivateData_def Let_def filed_once_add split: option.split)

lemma transfer_inv:
  assumes "tries_inv st" "\<And>k. i \<in> set (tget (entities st) k) \<Longrightarrow> k = k1" "k1 \<noteq> k2"
  shows "tries_inv (trie_transfer k1 k2 i st)"
proof -
  have "filed_once ((tget (entities st))(k1 := remove1 i (tget (entities st) k1),
      k2 := tget (entities st) k2 @ [i])) ((classnames st)(i \<mapsto> k2))"
    by (rule filed_once_move [OF assms(1) [unfolded tries_inv_def]]) (use assms(2,3) in auto)
  with assms(3) show ?thesis by (simp add: tries_inv_def trie_transfer_def Let_def)
qed

lemma free_inv:
  assumes "tries_inv st"
  shows "tries_inv (Free_EntPrivateData mc i p st)"
proof -
  let ?old = "case classnames st i of None \<Rightarrow> [] | Some k \<Rightarrow> k"
  let ?key = "case ed_classname p of None \<Rightarrow> ?old | Some s \<Rightarrow> s"
  let ?st1 = "if ?old \<noteq> ?key then trie_transfer ?old ?key i st else st"
  have o: "i \<in> set (tget (entities st) k) \<Longrightarrow> k = ?old" for k
    using filed_onceD [OF assms [unfolded tries_inv_def]] by (auto split: option.split)
  have i1: "tries_inv ?st1" using assms transfer_inv [OF assms o] by simp
  have o1: "i \<in> set (tget (entities ?st1) k) \<Longrightarrow> k = ?key" for k
  proof (cases "?old = ?key")
    case True
    then show "i \<in> set (tget (entities ?st1) k) \<Longrightarrow> k = ?key" using o by simp
  next
    case False
    moreover have "classnames ?st1 i = Some ?key" using False by (simp add: trie_transfer_def Let_def)
    moreover assume "i \<in> set (tget (entities ?st1) k)"
    ultimately show "k = ?key" using filed_onceD [OF i1 [unfolded tries_inv_def]] by fastforce
  qed
  have "filed_once ((tget (entities ?st1))(?key := remove1 i (tget (entities ?st1) ?key)))
      ((classnames ?st1)(i := None))"
    by (rule filed_once_unfile [OF i1 [unfolded tries_inv_def] o1])
  then show ?thesis by (simp add: tries_inv_def Free_EntPrivateData_def Let_def)
qed

lemma item_inv:
  "tries_inv (AddPlayerItem b pid i st) = tries_inv st"
  "tries_inv (RemovePlayerItem mc b i o' st) = tries_inv st"
  by (simp_all add: tries_inv_def AddPlayerItem_def RemovePlayerItem_def)

lemma set_vec_inv: "tries_inv st \<Longrightarrow> tries_inv (set_vec r (filter P (get_vec r st)) st)"
proof (cases r)
  case (V_class k)
  assume "tries_inv st"
  then show ?thesis
    unfolding V_class get_vec_class tries_inv_def set_vec.simps
    using filed_once_filter [of "tget (entities st)"] by simp
qed (simp_all add: tries_inv_def)

lemma copy_ents_inv:
  assumes "copy_ents w key r mx es dest st = Inr (out, st')" "tries_inv st"
  shows "tries_inv st'"
  using assms
proof (induction w key r mx es dest st rule: copy_ents.induct)
  case (2 w key r mx e es dest st)
  obtain p old where p: "w e = Some p" "classnames st e = Some old"
    using 2(3) by (auto split: option.splits)
  let ?st1 = "if old \<noteq> class_str p then trie_transfer old (class_str p) e st else st"
  have "tries_inv ?st1"
    using 2(4) p(2) filed_onceD [OF 2(4) [unfolded tries_inv_def]] transfer_inv [OF 2(4)] by force
  with 2 p show ?case by (auto simp: Let_def split: if_splits)
qed simp

text \<open>The states the hooks of the game can reach.\<close>

inductive ent_reach :: "int \<Rightarrow> tries \<Rightarrow> bool" for mc :: int where
  init: "ent_reach mc tries_init"
| alloc: "ent_reach mc st \<Longrightarrow> classnames st i = None \<Longrightarrow> ent_reach mc (Alloc_EntPrivateData i p st)"
| free: "ent_reach mc st \<Longrightarrow> ent_reach mc (Free_EntPrivateData mc i p st)"
| add: "ent_reach mc st \<Longrightarrow> ent_reach mc (AddPlayerItem b pid i st)"
| remove: "ent_reach mc st \<Longrightarrow> ent_reach mc (RemovePlayerItem mc b i owner st)"
| ents: "ent_reach mc st \<Longrightarrow> rf_get_ent_by_class mc w key owner dn mx st = Inr (out, st') \<Longrightarrow> ent_reach mc st'"
| zone: "ent_reach mc st \<Longrightarrow> ent_reach mc (snd (get_user_buyzone w hz pid st))"

lemma copy_entities_inv:
  "copy_entities w r key mx st = Inr (out, st') \<Longrightarrow> tries_inv st \<Longrightarrow> tries_inv st'"
  unfolding copy_entities_def Let_def using copy_ents_inv set_vec_inv by blast

lemma rf_get_ent_by_class_inv:
  "rf_get_ent_by_class mc w key owner dn mx st = Inr (out, st') \<Longrightarrow> tries_inv st \<Longrightarrow> tries_inv st'"
  unfolding rf_get_ent_by_class_def by (auto split: if_splits intro: copy_entities_inv)

lemma zone_inv: "tries_inv st \<Longrightarrow> tries_inv (snd (get_user_buyzone w hz pid st))"
  unfolding get_user_buyzone_def Let_def get_vec_class
  by (simp add: tries_inv_def split: option.split)

lemma ent_reach_inv: "ent_reach mc st \<Longrightarrow> tries_inv st"
proof (induction rule: ent_reach.induct)
  case init
  show ?case by (simp add: tries_inv_def tries_init_def filed_once_def tget_def)
qed (auto intro: alloc_inv free_inv rf_get_ent_by_class_inv zone_inv simp: item_inv)

text \<open>
  In every state the hooks can reach, an entity is filed under one class only, the recorded one,
  and once; after \<^verbatim>\<open>Free_EntPrivateData\<close> it is filed under none, whatever its class was changed to
  meanwhile.
\<close>

theorem entity_filed_once:
  assumes "ent_reach mc st" "entities st k = Some v" "i \<in> set v"
  shows "distinct v \<and> classnames st i = Some k
    \<and> (case entities (Free_EntPrivateData mc i p st) k of None \<Rightarrow> True | Some v' \<Rightarrow> i \<notin> set v')"
proof -
  have inv: "tries_inv st" by (rule ent_reach_inv [OF assms(1)])
  have v: "v = tget (entities st) k" using assms(2) by (simp add: tget_def)
  let ?st' = "Free_EntPrivateData mc i p st"
  have "classnames ?st' i = None" by (simp add: Free_EntPrivateData_def Let_def)
  with filed_onceD [OF free_inv [OF inv, unfolded tries_inv_def]]
  have "i \<notin> set (tget (entities ?st') k)" by fastforce
  then have "case entities ?st' k of None \<Rightarrow> True | Some v' \<Rightarrow> i \<notin> set v'"
    by (simp add: tget_def split: option.splits)
  with inv v assms(3) show ?thesis by (auto simp: tries_inv_def filed_once_def)
qed

definition gun :: edict where
  "gun = \<lparr>ed_private = True, ed_free = False, ed_killme = False, ed_classname = Some ''weapon_ak47'',
          ed_owner = 0, ed_team = 0, ed_alive = True, ed_origin = (0, 0, 0), ed_absmin = (0, 0, 0),
          ed_absmax = (0, 0, 0)\<rparr>"

theorem entity_filed_once_witness:
  "entities (Alloc_EntPrivateData 70 gun tries_init) ''weapon_ak47'' = Some [70]
   \<and> classnames (Alloc_EntPrivateData 70 gun tries_init) 70 = Some ''weapon_ak47''"
proof -
  let ?st = "Alloc_EntPrivateData 70 gun tries_init"
  have r: "ent_reach 32 ?st" by (rule ent_reach.alloc [OF ent_reach.init]) (simp add: tries_init_def)
  have e: "entities ?st ''weapon_ak47'' = Some [70]"
    by (simp add: Alloc_EntPrivateData_def gun_def tries_init_def Let_def trie_add_def)
  from entity_filed_once [OF r e, of 70] e show ?thesis by simp
qed

section \<open>Queries by class\<close>

definition class_at :: "world \<Rightarrow> int \<Rightarrow> string" where
  "class_at w e = (case w e of None \<Rightarrow> [] | Some p \<Rightarrow> class_str p)"

lemma copy_ents_filter:
  assumes "\<And>k. r \<noteq> V_class k" "list_all (kept w st) es" "length dest < mx"
  shows "\<exists>st'. copy_ents w key r mx es dest st =
    Inr (dest @ take (mx - length dest) (filter (\<lambda>e. class_at w e = key) es), st')"
  using assms(2,3)
proof (induction es arbitrary: dest st)
  case (Cons e es)
  then obtain p old where p: "w e = Some p" "classnames st e = Some old"
    by (auto simp: kept_def is_valid_entity_def split: option.splits)
  let ?st1 = "if old \<noteq> class_str p then trie_transfer old (class_str p) e st else st"
  have k: "list_all (kept w ?st1) es"
    using Cons.prems(1) by (auto simp: list_all_iff kept_def trie_transfer_def Let_def)
  have step: "copy_ents w key r mx (e # es) dest st =
      (if key \<noteq> class_str p then copy_ents w key r mx es dest ?st1
       else if length (dest @ [e]) \<ge> mx then Inr (dest @ [e], ?st1)
       else copy_ents w key r mx es (dest @ [e]) ?st1)"
    using p assms(1) by (simp add: Let_def)
  have c: "class_at w e = class_str p" by (simp add: class_at_def p)
  show ?case
  proof (cases "key = class_str p")
    case False
    with Cons.IH [OF k Cons.prems(2)] c show ?thesis unfolding step by auto
  next
    case True
    show ?thesis
    proof (cases "length (dest @ [e]) \<ge> mx")
      case full: True
      with Cons.prems(2) have "mx - length dest = 1" by simp
      with True full c show ?thesis unfolding step by simp
    next
      case False
      then have "mx - length dest = Suc (mx - length (dest @ [e]))" using Cons.prems(2) by simp
      with False Cons.IH [OF k, of "dest @ [e]"] True c show ?thesis unfolding step by auto
    qed
  qed
qed simp

lemma copy_ents_class:
  assumes "\<forall>e \<in> set es. \<exists>p. w e = Some p \<and> classnames st e = Some key" "length dest < mx"
  shows "copy_ents w key (V_class key) mx es dest st =
    (let same = takeWhile (\<lambda>e. class_at w e = key) es
     in if same = es \<or> mx - length dest \<le> length same
        then Inr (dest @ take (mx - length dest) es, st) else Inl UB_iterator_invalidated)"
  using assms
proof (induction es arbitrary: dest)
  case (Cons e es)
  from Cons.prems(1) obtain p where p: "w e = Some p" "classnames st e = Some key" by auto
  then have c: "class_at w e = class_str p" by (simp add: class_at_def)
  show ?case
  proof (cases "class_str p = key")
    case True
    show ?thesis
    proof (cases "length (dest @ [e]) \<ge> mx")
      case full: True
      with Cons.prems(2) have "mx - length dest = 1" by simp
      with True full c p show ?thesis by (simp add: Let_def)
    next
      case False
      then have m: "mx - length dest = Suc (mx - length (dest @ [e]))" using Cons.prems(2) by simp
      have "length (dest @ [e]) < mx" using False by simp
      from Cons.IH [OF _ this] Cons.prems(1) p False True c show ?thesis
        unfolding m by (auto simp: Let_def)
    qed
  next
    case False
    have "0 < mx - length dest" using Cons.prems(2) by simp
    with False p c show ?thesis by (simp add: Let_def)
  qed
qed simp

text \<open>
  Asked for the items of a player or for a weapon class, \<^verbatim>\<open>rf_get_ent_by_class\<close> returns
  the valid registered entities of the class in the order of the list, at most as many as the array
  holds, and never fails, also when entities have changed their class.
\<close>

theorem rf_get_ent_by_class_list:
  assumes "is_valid_index mc owner \<and> r = V_player owner
    \<or> \<not> is_valid_index mc owner \<and> take 7 key = WP_CLASS_PREFIX \<and> length key > 8 \<and> r = V_weapons"
    and "key \<noteq> []" "0 < mx"
  shows "\<exists>st'. rf_get_ent_by_class mc w key owner False mx st =
    Inr (take mx (filter (\<lambda>e. kept w st e \<and> class_at w e = key) (get_vec r st)), st')"
proof -
  have q: "rf_get_ent_by_class mc w key owner False mx st = copy_entities w r key mx st"
    and r: "r \<noteq> V_class k" for k
    using assms by (auto simp: rf_get_ent_by_class_def)
  let ?v = "filter (kept w st) (get_vec r st)"
  have "classnames (set_vec r ?v st) = classnames st" by (cases r) simp_all
  then have "list_all (kept w (set_vec r ?v st)) ?v" by (simp add: list_all_iff kept_def)
  from copy_ents_filter [OF r this, of "[]" mx key] assms(3) show ?thesis
    unfolding q copy_entities_def by (auto simp: Let_def conj_commute)
qed

definition two_guns :: world where
  "two_guns i = (if i = 70 \<or> i = 71 then Some gun else None)"

definition armed :: tries where
  "armed = Alloc_EntPrivateData 71 gun (Alloc_EntPrivateData 70 gun tries_init)"

theorem rf_get_ent_by_class_list_witness:
  "\<exists>st'. rf_get_ent_by_class 32 two_guns ''weapon_ak47'' 0 False 1 armed = Inr ([70], st')"
proof -
  have v: "get_vec V_weapons armed = [70, 71]"
    by (simp add: armed_def Alloc_EntPrivateData_def gun_def tries_init_def Let_def trie_add_def
        is_weapon_class_def WP_CLASS_PREFIX_def vector_add_def)
  have k: "filter (\<lambda>e. kept two_guns armed e \<and> class_at two_guns e = ''weapon_ak47'') [70, 71] = [70, 71]"
    by (simp add: armed_def kept_def two_guns_def is_valid_entity_def Alloc_EntPrivateData_def gun_def
        tries_init_def Let_def class_at_def class_str_def)
  show ?thesis
    using rf_get_ent_by_class_list [of 32 0 V_weapons "''weapon_ak47''" 1 two_guns armed]
    unfolding v k by (simp add: is_valid_index_def WP_CLASS_PREFIX_def)
qed

text \<open>
  Asked for any other class, \<^verbatim>\<open>rf_get_ent_by_class\<close> walks the list of the class itself and
  returns its first entities as long as all of them still have the class; the first one that was given
  another class is moved out of the list under the loop, which then uses invalid iterators.
\<close>

theorem rf_get_ent_by_class_own_list:
  fixes w :: world
  assumes "ent_reach mc st" "\<not> is_valid_index mc owner" "\<not> (take 7 key = WP_CLASS_PREFIX \<and> length key > 8)"
    and "key \<noteq> []" "0 < mx"
  defines "v \<equiv> filter (kept w st) (get_vec (V_class key) st)"
  defines "same \<equiv> takeWhile (\<lambda>e. class_at w e = key) v"
  shows "rf_get_ent_by_class mc w key owner False mx st =
    (if same = v \<or> mx \<le> length same then Inr (take mx v, set_vec (V_class key) v st)
     else Inl UB_iterator_invalidated)"
proof -
  have q: "rf_get_ent_by_class mc w key owner False mx st =
      copy_ents w key (V_class key) mx v [] (set_vec (V_class key) v st)"
    using assms(2-5) unfolding v_def by (auto simp: rf_get_ent_by_class_def copy_entities_def Let_def)
  have "\<forall>e \<in> set v. \<exists>p. w e = Some p \<and> classnames (set_vec (V_class key) v st) e = Some key"
    using filed_onceD [OF ent_reach_inv [OF assms(1), unfolded tries_inv_def]]
    unfolding v_def get_vec_class by (auto simp: kept_def is_valid_entity_def split: option.splits)
  from copy_ents_class [OF this, of "[]" mx] assms(5) show ?thesis
    unfolding q same_def by (simp add: Let_def)
qed

definition zone :: edict where
  "zone = gun\<lparr>ed_classname := Some ''func_buyzone''\<rparr>"

definition renamed :: world where
  "renamed i = (if i = 80 then Some (zone\<lparr>ed_classname := Some ''info_target''\<rparr>) else None)"

theorem rf_get_ent_by_class_own_list_witness:
  "rf_get_ent_by_class 32 renamed ''func_buyzone'' 0 False 4 (Alloc_EntPrivateData 80 zone tries_init)
     = Inl UB_iterator_invalidated"
proof -
  let ?st = "Alloc_EntPrivateData 80 zone tries_init"
  have r: "ent_reach 32 ?st" by (rule ent_reach.alloc [OF ent_reach.init]) (simp add: tries_init_def)
  have v: "filter (kept renamed ?st) (get_vec (V_class ''func_buyzone'') ?st) = [80]"
    by (simp add: Alloc_EntPrivateData_def zone_def gun_def tries_init_def Let_def tget_def trie_add_def
        is_weapon_class_def WP_CLASS_PREFIX_def kept_def renamed_def is_valid_entity_def)
  have s: "class_at renamed 80 \<noteq> ''func_buyzone''"
    by (simp add: class_at_def class_str_def renamed_def zone_def gun_def)
  show ?thesis
    using rf_get_ent_by_class_own_list [OF r, of 0 "''func_buyzone''" 4 renamed] s
    unfolding v by (simp add: is_valid_index_def WP_CLASS_PREFIX_def)
qed

text \<open>
  The list of weapons is pruned by the class an entity has when it is freed, not by the class it
  was created with: a weapon renamed before it is freed stays in the list, and the next weapon with
  its index is returned twice.
\<close>

theorem stale_weapon_listed_twice:
  "let renamed_gun = gun\<lparr>ed_classname := Some ''info_target''\<rparr>;
       st = Alloc_EntPrivateData 70 gun
              (Free_EntPrivateData 32 70 renamed_gun (Alloc_EntPrivateData 70 gun tries_init))
   in ent_reach 32 st
      \<and> (\<exists>st'. rf_get_ent_by_class 32 two_guns ''weapon_ak47'' 0 False 8 st = Inr ([70, 70], st'))"
proof -
  let ?freed = "Free_EntPrivateData 32 70 (gun\<lparr>ed_classname := Some ''info_target''\<rparr>)
                  (Alloc_EntPrivateData 70 gun tries_init)"
  have "ent_reach 32 (Alloc_EntPrivateData 70 gun tries_init)"
    by (rule ent_reach.alloc [OF ent_reach.init]) (simp add: tries_init_def)
  then have "ent_reach 32 ?freed" by (rule ent_reach.free)
  then have r: "ent_reach 32 (Alloc_EntPrivateData 70 gun ?freed)"
    by (rule ent_reach.alloc) (simp add: Free_EntPrivateData_def Let_def)
  have "\<exists>st'. rf_get_ent_by_class 32 two_guns ''weapon_ak47'' 0 False 8 (Alloc_EntPrivateData 70 gun ?freed)
      = Inr ([70, 70], st')"
    by (simp add: rf_get_ent_by_class_def copy_entities_def Alloc_EntPrivateData_def Free_EntPrivateData_def
        gun_def tries_init_def Let_def trie_add_def trie_remove_def trie_transfer_def vector_add_def
        vector_remove_def is_weapon_class_def WP_CLASS_PREFIX_def is_valid_index_def kept_def two_guns_def
        is_valid_entity_def class_str_def)
  with r show ?thesis by (simp add: Let_def)
qed

section \<open>Boxes\<close>

definition in_box :: "vec3 \<Rightarrow> edict \<Rightarrow> bool" where
  "in_box p e =
     (vec_x (ed_absmin e) \<le> vec_x p \<and> vec_x p \<le> vec_x (ed_absmax e)
      \<and> vec_y (ed_absmin e) \<le> vec_y p \<and> vec_y p \<le> vec_y (ed_absmax e)
      \<and> vec_z (ed_absmin e) \<le> vec_z p \<and> vec_z p \<le> vec_z (ed_absmax e))"

lemma intervals_meet:
  "a \<le> b \<Longrightarrow> c \<le> d \<Longrightarrow> (\<exists>x :: rat. a \<le> x \<and> x \<le> b \<and> c \<le> x \<and> x \<le> d) \<longleftrightarrow> a \<le> d \<and> c \<le> b"
  by (meson le_cases order_trans order_refl)

text \<open>
  For boxes that are not empty the six comparisons of \<^verbatim>\<open>is_entity_intersects\<close> decide whether the
  boxes have a point in common, touching included.
\<close>

theorem is_entity_intersects_spec:
  assumes "in_box p1 e1" "in_box p2 e2"
  shows "is_entity_intersects e1 e2 \<longleftrightarrow> (\<exists>p. in_box p e1 \<and> in_box p e2)"
proof -
  have "(\<exists>p. in_box p e1 \<and> in_box p e2) \<longleftrightarrow>
      (\<exists>x. vec_x (ed_absmin e1) \<le> x \<and> x \<le> vec_x (ed_absmax e1) \<and> vec_x (ed_absmin e2) \<le> x \<and> x \<le> vec_x (ed_absmax e2))
    \<and> (\<exists>y. vec_y (ed_absmin e1) \<le> y \<and> y \<le> vec_y (ed_absmax e1) \<and> vec_y (ed_absmin e2) \<le> y \<and> y \<le> vec_y (ed_absmax e2))
    \<and> (\<exists>z. vec_z (ed_absmin e1) \<le> z \<and> z \<le> vec_z (ed_absmax e1) \<and> vec_z (ed_absmin e2) \<le> z \<and> z \<le> vec_z (ed_absmax e2))"
    by (auto simp: in_box_def)
  moreover have "vec_x (ed_absmin e1) \<le> vec_x (ed_absmax e1)" "vec_x (ed_absmin e2) \<le> vec_x (ed_absmax e2)"
    "vec_y (ed_absmin e1) \<le> vec_y (ed_absmax e1)" "vec_y (ed_absmin e2) \<le> vec_y (ed_absmax e2)"
    "vec_z (ed_absmin e1) \<le> vec_z (ed_absmax e1)" "vec_z (ed_absmin e2) \<le> vec_z (ed_absmax e2)"
    using assms unfolding in_box_def by linarith+
  ultimately show ?thesis by (simp add: intervals_meet is_entity_intersects_def not_less) blast
qed

theorem is_entity_intersects_spec_witness: "is_entity_intersects gun zone"
proof -
  have "in_box (0, 0, 0) gun" "in_box (0, 0, 0) zone" by (simp_all add: in_box_def gun_def zone_def)
  with is_entity_intersects_spec [of "(0, 0, 0)" gun "(0, 0, 0)" zone] show ?thesis by blast
qed

end
