(* ===== verification/Entities_Refine.thy ===== *)
theory Entities_Refine
  imports Entities_Props
begin

text \<open>
  The lists of the registry implement one map from entities to classes: each hook does to that map what
  its specification says, and the list of a class is the set of the entities the map gives the class.
\<close>

section \<open>The specification\<close>

type_synonym class_map = "int \<Rightarrow> string option"

definition spec_alloc :: "int \<Rightarrow> edict \<Rightarrow> class_map \<Rightarrow> class_map" where
  "spec_alloc i p m = (case ed_classname p of None \<Rightarrow> m | Some k \<Rightarrow> m(i \<mapsto> k))"

definition spec_free :: "int \<Rightarrow> class_map \<Rightarrow> class_map" where
  "spec_free i m = m(i := None)"

text \<open>The map behind the lists.\<close>

definition class_of :: "tries \<Rightarrow> class_map" where
  "class_of st i =
     (case classnames st i of
        None \<Rightarrow> None
      | Some k \<Rightarrow> if i \<in> set (get_vec (V_class k) st) then Some k else None)"

lemma class_of_iff:
  assumes "tries_inv st"
  shows "class_of st i = Some k \<longleftrightarrow> i \<in> set (tget (entities st) k)"
  using filed_onceD [OF assms [unfolded tries_inv_def], of i k]
  by (auto simp: class_of_def simp del: get_vec.simps split: option.splits)

lemma class_of_eqI:
  assumes "tries_inv st" "\<And>k. i \<in> set (tget (entities st) k) \<longleftrightarrow> m = Some k"
  shows "class_of st i = m"
proof (cases "class_of st i")
  case None
  then have "m \<noteq> Some k" for k using class_of_iff [OF assms(1), of i k] assms(2) by simp
  then show ?thesis using None by (cases m) auto
next
  case (Some k)
  then show ?thesis using class_of_iff [OF assms(1), of i k] assms(2) by simp
qed

section \<open>The operations\<close>

lemma alloc_refines:
  assumes "tries_inv st" "classnames st i = None"
  shows "class_of (Alloc_EntPrivateData i p st) = spec_alloc i p (class_of st)"
proof
  fix j
  note inv = alloc_inv [OF assms, of p]
  have n: "class_of st i = None" using assms(2) by (simp add: class_of_def)
  show "class_of (Alloc_EntPrivateData i p st) j = spec_alloc i p (class_of st) j"
  proof (rule class_of_eqI [OF inv])
    fix k
    show "j \<in> set (tget (entities (Alloc_EntPrivateData i p st)) k) \<longleftrightarrow> spec_alloc i p (class_of st) j = Some k"
      using class_of_iff [OF assms(1), of j k] n
      by (auto simp: Alloc_EntPrivateData_def spec_alloc_def Let_def split: option.splits)
  qed
qed

text \<open>Where an entity is filed after a transfer and a removal.\<close>

lemma free_lists:
  assumes "tries_inv st"
  shows "j \<in> set (tget (entities (Free_EntPrivateData mc i p st)) k) \<longleftrightarrow> j \<noteq> i \<and> j \<in> set (tget (entities st) k)"
proof (cases "j = i")
  case True
  have "classnames (Free_EntPrivateData mc i p st) i = None" by (simp add: Free_EntPrivateData_def Let_def)
  with filed_onceD [OF free_inv [OF assms, unfolded tries_inv_def]] True show ?thesis by fastforce
next
  case False
  then have "j \<in> set (remove1 i xs) \<longleftrightarrow> j \<in> set xs" for xs by (simp add: in_set_remove1)
  with False show ?thesis
    by (auto simp: Free_EntPrivateData_def trie_transfer_def Let_def split: if_splits option.splits)
qed

lemma free_refines:
  assumes "tries_inv st"
  shows "class_of (Free_EntPrivateData mc i p st) = spec_free i (class_of st)"
proof
  fix j
  show "class_of (Free_EntPrivateData mc i p st) j = spec_free i (class_of st) j"
    by (rule class_of_eqI [OF free_inv [OF assms]])
      (use class_of_iff [OF assms, of j] in \<open>auto simp: free_lists [OF assms] spec_free_def\<close>)
qed

lemma item_refines:
  "class_of (AddPlayerItem b pid i st) = class_of st" "class_of (RemovePlayerItem mc b i owner st) = class_of st"
  by (simp_all add: fun_eq_iff class_of_def AddPlayerItem_def RemovePlayerItem_def split: option.split)

text \<open>
  C9: In every reachable state the lists of the classes implement a map from entities to classes: the
  creation of an entity sets its class, its removal forgets it, whatever its class was changed to, items
  leave the map alone, and the list of a class holds, once each, the entities of the class.
\<close>

theorem registry_refines_class_map:
  assumes "ent_reach mc st"
  shows "(classnames st i = None \<longrightarrow> class_of (Alloc_EntPrivateData i p st) = spec_alloc i p (class_of st))
    \<and> class_of (Free_EntPrivateData mc i p st) = spec_free i (class_of st)
    \<and> class_of (AddPlayerItem b pid i st) = class_of st
    \<and> class_of (RemovePlayerItem mc b i owner st) = class_of st
    \<and> set (get_vec (V_class k) st) = {j. class_of st j = Some k} \<and> distinct (get_vec (V_class k) st)"
proof -
  note inv = ent_reach_inv [OF assms]
  have "distinct (tget (entities st) k)" using inv by (simp add: tries_inv_def filed_once_def)
  then show ?thesis
    unfolding get_vec_class using alloc_refines [OF inv] free_refines [OF inv] item_refines class_of_iff [OF inv] by auto
qed

theorem registry_refines_class_map_witness:
  "class_of (Free_EntPrivateData 32 70 gun (Alloc_EntPrivateData 70 gun tries_init)) 70 = None
   \<and> set (get_vec (V_class ''weapon_ak47'') (Alloc_EntPrivateData 70 gun tries_init))
     = {j. class_of (Alloc_EntPrivateData 70 gun tries_init) j = Some ''weapon_ak47''}"
proof -
  have "ent_reach 32 (Alloc_EntPrivateData 70 gun tries_init)"
    by (rule ent_reach.alloc [OF ent_reach.init]) (simp add: tries_init_def)
  from registry_refines_class_map [OF this] show ?thesis by (simp add: spec_free_def)
qed

end
