(* ===== verification/Utf8.thy ===== *)
theory Utf8
  imports Prelude "HOL-Library.Word"
begin

unbundle bit_operations_syntax

text \<open>
  The UTF-8 validators of \<^verbatim>\<open>refsapi_misc.cpp\<close> that guard the user info of the clients:
  \<^verbatim>\<open>is_valid_utf8\<close>, a byte-wise automaton that decodes the code point; \<^verbatim>\<open>ref_utf8\<close>, the
  reference of the table of well-formed sequences; and \<^verbatim>\<open>is_valid_utf8_simd\<close>, which works
  on blocks of 16 bytes.  A buffer is a list of bytes.
\<close>

type_synonym byte = "8 word"

section \<open>The reference\<close>

text \<open>\<^verbatim>\<open>ref_utf8\<close>: the loop at \<open>i\<close> sees the rest of the buffer.\<close>

fun ref_utf8 :: "byte list \<Rightarrow> bool" where
  "ref_utf8 [] = True"
| "ref_utf8 (b # p) =
     (if b < 0x80 then ref_utf8 p
      else if 0xC2 \<le> b \<and> b \<le> 0xDF then
        (case p of
           b1 # r \<Rightarrow> if b1 AND 0xC0 \<noteq> 0x80 then False else ref_utf8 r
         | _ \<Rightarrow> False)
      else if 0xE0 \<le> b \<and> b \<le> 0xEF then
        (case p of
           b1 # b2 # r \<Rightarrow>
             if b1 AND 0xC0 \<noteq> 0x80 \<or> b2 AND 0xC0 \<noteq> 0x80 then False
             else if b = 0xE0 \<and> b1 < 0xA0 then False
             else if b = 0xED \<and> 0x9F < b1 then False
             else ref_utf8 r
         | _ \<Rightarrow> False)
      else if 0xF0 \<le> b \<and> b \<le> 0xF4 then
        (case p of
           b1 # b2 # b3 # r \<Rightarrow>
             if b1 AND 0xC0 \<noteq> 0x80 \<or> b2 AND 0xC0 \<noteq> 0x80 \<or> b3 AND 0xC0 \<noteq> 0x80 then False
             else if b = 0xF0 \<and> b1 < 0x90 then False
             else if b = 0xF4 \<and> 0x8F < b1 then False
             else ref_utf8 r
         | _ \<Rightarrow> False)
      else False)"

section \<open>The automaton\<close>

text \<open>\<^verbatim>\<open>is_valid_utf8\<close>: the loop with its two locals, \<^verbatim>\<open>remaining\<close> and \<^verbatim>\<open>code_point\<close>.\<close>

fun utf8_loop :: "nat \<Rightarrow> 32 word \<Rightarrow> byte list \<Rightarrow> bool" where
  "utf8_loop remaining code_point [] = (remaining = 0)"
| "utf8_loop remaining code_point (byte # p) =
     (if remaining = 0 then
        if drop_bit 7 byte = 0x00 then utf8_loop 0 code_point p
        else if drop_bit 5 byte = 0x06 then
          let code_point = ucast (byte AND 0x1F)
          in if code_point < 0x02 then False else utf8_loop 1 code_point p
        else if drop_bit 4 byte = 0x0E then
          if p = [] then False
          else let code_point = ucast (byte AND 0x0F)
               in if code_point = 0 \<and> hd p AND 0x20 = 0 then False else utf8_loop 2 code_point p
        else if drop_bit 3 byte = 0x1E then
          if p = [] then False
          else let code_point = ucast (byte AND 0x07)
               in if code_point = 0 \<and> hd p AND 0x30 = 0 then False else utf8_loop 3 code_point p
        else False
      else if drop_bit 6 byte \<noteq> 0x02 then False
      else
        let code_point = push_bit 6 code_point OR ucast (byte AND 0x3F);
            remaining = remaining - 1
        in if remaining = 0 \<and>
              (0xD800 \<le> code_point \<and> code_point \<le> 0xDFFF \<or> 0x10FFFF < code_point
               \<or> code_point \<le> 0x7F)
           then False
           else utf8_loop remaining code_point p)"

text \<open>\<open>None\<close> is a null pointer; \<open>n\<close> its length argument.\<close>

definition is_valid_utf8 :: "byte list option \<Rightarrow> nat \<Rightarrow> bool" where
  "is_valid_utf8 data n = (case data of None \<Rightarrow> n = 0 | Some p \<Rightarrow> utf8_loop 0 0 (take n p))"

section \<open>The bytes as numbers\<close>

lemma byte_cases:
  assumes "list_all (\<lambda>i. P (word_of_nat i :: byte) i) [0..<256]"
  shows "P (b :: byte) (unat b)"
proof -
  have m: "unat b \<in> set [0..<256]" using unsigned_less [of b] by simp
  from assms have "\<forall>i \<in> set [0..<256]. P (word_of_nat i) i" unfolding list_all_iff .
  from bspec [OF this m] have "P (word_of_nat (unat b)) (unat b)" .
  moreover have "word_of_nat (unat b) = b" by simp
  ultimately show ?thesis by (simp only:)
qed

lemma byte_shift: "unat (drop_bit k (b :: byte)) = unat b div 2 ^ k"
  unfolding unat_drop_bit_eq by (rule drop_bit_eq_div)

lemma continuation_byte: "(b :: byte) AND 0xC0 = 0x80 \<longleftrightarrow> 128 \<le> unat b \<and> unat b < 192"
  by (rule byte_cases [where P = "\<lambda>b i. b AND 0xC0 = 0x80 \<longleftrightarrow> 128 \<le> i \<and> i < 192"]) code_simp

lemma low_bits:
  "unat ((b :: byte) AND 0x3F) = unat b mod 64" "unat (b AND 0x1F) = unat b mod 32"
  "unat (b AND 0x0F) = unat b mod 16" "unat (b AND 0x07) = unat b mod 8"
proof -
  have m: "(0x3F :: byte) = mask 6" "(0x1F :: byte) = mask 5" "(0x0F :: byte) = mask 4"
    "(0x07 :: byte) = mask 3" by (simp_all add: mask_eq_exp_minus_1)
  show "unat (b AND 0x3F) = unat b mod 64" "unat (b AND 0x1F) = unat b mod 32"
    "unat (b AND 0x0F) = unat b mod 16" "unat (b AND 0x07) = unat b mod 8"
    unfolding m take_bit_eq_mask [symmetric] unsigned_take_bit_eq by (simp_all add: take_bit_eq_mod)
qed

lemma bit_0x20: "(b :: byte) AND 0x20 = 0 \<longleftrightarrow> unat b mod 64 < 32"
  by (rule byte_cases [where P = "\<lambda>b i. b AND 0x20 = 0 \<longleftrightarrow> i mod 64 < 32"]) code_simp

lemma bit_0x30: "(b :: byte) AND 0x30 = 0 \<longleftrightarrow> unat b mod 64 < 16"
  by (rule byte_cases [where P = "\<lambda>b i. b AND 0x30 = 0 \<longleftrightarrow> i mod 64 < 16"]) code_simp

lemma unat_byte_less [simp]: "unat (b :: byte) < 256"
  using unsigned_less [of b] by simp

lemma shift_or:
  assumes "unat (c :: 32 word) < 2 ^ 26" "unat (x :: 32 word) < 64"
  shows "unat (push_bit 6 c OR x) = 64 * unat c + unat x"
proof -
  have "push_bit 6 c OR x = push_bit 6 c + x"
  proof (rule disjunctive_add [symmetric])
    fix n
    have "unat (take_bit 6 x) = unat x"
      unfolding unsigned_take_bit_eq using assms(2) by (simp add: take_bit_eq_mod)
    then have "take_bit 6 x = x" by (rule unsigned_word_eqI)
    then have "\<not> bit x n" if "6 \<le> n" using that by (metis bit_take_bit_iff linorder_not_le)
    then show "\<not> bit (push_bit 6 c) n \<or> \<not> bit x n" by (auto simp: bit_push_bit_iff)
  qed
  then show ?thesis using assms by (simp add: unat_word_ariths push_bit_eq_mult unat_mult_lem)
qed

lemma byte_shift_eq:
  "drop_bit 7 (b :: byte) = 0 \<longleftrightarrow> unat b < 128" "drop_bit 6 b = 2 \<longleftrightarrow> 128 \<le> unat b \<and> unat b < 192"
  "drop_bit 5 b = 6 \<longleftrightarrow> 192 \<le> unat b \<and> unat b < 224" "drop_bit 4 b = 14 \<longleftrightarrow> 224 \<le> unat b \<and> unat b < 240"
  "drop_bit 3 b = 30 \<longleftrightarrow> 240 \<le> unat b \<and> unat b < 248"
  by (simp_all add: word_unat_eq_iff byte_shift) linarith+

lemma byte_le: "(b :: byte) \<le> c \<longleftrightarrow> unat b \<le> unat c" "b < c \<longleftrightarrow> unat b < unat c"
  by (simp_all add: word_le_nat_alt word_less_nat_alt)

text \<open>Both validators over the numbers behind the bytes.\<close>

definition cont :: "byte \<Rightarrow> bool" where
  "cont b = (128 \<le> unat b \<and> unat b < 192)"

text \<open>Decoding a continuation byte extends the code point by six bits.\<close>

definition extend :: "32 word \<Rightarrow> byte \<Rightarrow> 32 word" where
  "extend cp b = push_bit 6 cp OR ucast (b AND 0x3F)"

lemma unat_extend:
  assumes "unat cp < 2 ^ 20"
  shows "unat (extend cp b) = 64 * unat cp + unat b mod 64"
proof -
  have x: "unat (ucast (b AND 0x3F) :: 32 word) = unat b mod 64"
    by (simp add: unsigned_ucast_eq low_bits(1) take_bit_eq_mod)
  show ?thesis
    unfolding extend_def x [symmetric] by (rule shift_or) (use assms x in simp_all)
qed

definition bad_point :: "nat \<Rightarrow> bool" where
  "bad_point c = (0xD800 \<le> c \<and> c \<le> 0xDFFF \<or> 0x10FFFF < c \<or> c \<le> 0x7F)"

lemma utf8_loop_last:
  "utf8_loop 1 cp (b # p) \<longleftrightarrow> cont b \<and> \<not> bad_point (unat (extend cp b)) \<and> utf8_loop 0 (extend cp b) p"
  by (auto simp: Let_def byte_shift_eq cont_def bad_point_def extend_def [symmetric]
      word_le_nat_alt word_less_nat_alt)

lemma utf8_loop_more:
  "1 < k \<Longrightarrow> utf8_loop k cp (b # p) \<longleftrightarrow> cont b \<and> utf8_loop (k - 1) (extend cp b) p"
  by (auto simp: Let_def byte_shift_eq cont_def extend_def [symmetric])

lemma utf8_loop_end: "0 < k \<Longrightarrow> \<not> utf8_loop k cp []"
  by simp

lemma utf8_loop_short:
  "1 < k \<Longrightarrow> \<not> utf8_loop k cp [b]" "2 < k \<Longrightarrow> \<not> utf8_loop k cp [b, b']"
  by (simp_all add: utf8_loop_more del: utf8_loop.simps(2))

text \<open>The surrogates, the limit and the overlong forms, in terms of the six-bit groups.\<close>

lemma bad_point_3:
  assumes "c < 16" "x < 64" "y < 64" "c = 0 \<Longrightarrow> 32 \<le> x"
  shows "bad_point (64 * (64 * c + x) + y) \<longleftrightarrow> c = 13 \<and> 32 \<le> x"
proof -
  consider "c = 0" | "1 \<le> c \<and> c \<le> 12" | "c = 13" | "14 \<le> c" by linarith
  then show ?thesis using assms by cases (auto simp: bad_point_def)
qed

lemma bad_point_4:
  assumes "c < 8" "x < 64" "y < 64" "z < 64" "c = 0 \<Longrightarrow> 16 \<le> x"
  shows "bad_point (64 * (64 * (64 * c + x) + y) + z) \<longleftrightarrow> 4 < c \<or> c = 4 \<and> 16 \<le> x"
proof -
  consider "c = 0" | "1 \<le> c \<and> c \<le> 3" | "c = 4" | "5 \<le> c" by linarith
  then show ?thesis using assms by cases (auto simp: bad_point_def)
qed

text \<open>The code point does not matter between two characters.\<close>

lemma utf8_loop_restart: "utf8_loop 0 cp p = utf8_loop 0 cp' p"
proof (induction p)
  case (Cons b p)
  show ?case by (simp add: Cons)
qed simp

lemma lead_2:
  assumes "192 \<le> unat b" "unat b < 224"
  shows "utf8_loop 0 cp (b # p) \<longleftrightarrow> 194 \<le> unat b \<and>
    (case p of [] \<Rightarrow> False | b1 # r \<Rightarrow> cont b1 \<and> utf8_loop 0 0 r)"
proof -
  let ?c = "ucast (b AND 0x1F) :: 32 word"
  have c: "unat ?c = unat b - 192"
  proof -
    have "unat b mod 32 = unat b - 192" using assms by (simp add: mod_nat_eqI)
    then show ?thesis by (simp add: unsigned_ucast_eq low_bits take_bit_eq_mod)
  qed
  have l: "utf8_loop 0 cp (b # p) \<longleftrightarrow> 2 \<le> unat ?c \<and> utf8_loop 1 ?c p"
    using assms by (simp add: Let_def byte_shift_eq word_less_nat_alt)
  show ?thesis
  proof (cases p)
    case Nil
    then show ?thesis unfolding l by simp
  next
    case (Cons b1 r)
    have "unat (extend ?c b1) = 64 * (unat b - 192) + unat b1 mod 64"
      using c assms by (subst unat_extend) simp_all
    moreover have "unat b1 mod 64 < 64" by simp
    ultimately have "\<not> bad_point (unat (extend ?c b1))" if "194 \<le> unat b"
      using that assms unfolding bad_point_def by linarith
    moreover have "2 \<le> unat ?c \<longleftrightarrow> 194 \<le> unat b" unfolding c using assms by linarith
    moreover note utf8_loop_restart [of "extend ?c b1" r 0]
    ultimately show ?thesis unfolding l unfolding Cons list.case utf8_loop_last by blast
  qed
qed

lemma mod_64: "128 \<le> n \<Longrightarrow> n < 192 \<Longrightarrow> n mod 64 = n - (128 :: nat)"
  by (simp add: mod_nat_eqI)

lemma lead_3:
  assumes "224 \<le> unat b" "unat b < 240"
  shows "utf8_loop 0 cp (b # p) \<longleftrightarrow>
    (case p of
       b1 # b2 # r \<Rightarrow> cont b1 \<and> cont b2 \<and> \<not> (unat b = 224 \<and> unat b1 < 160)
                      \<and> \<not> (unat b = 237 \<and> 159 < unat b1) \<and> utf8_loop 0 0 r
     | _ \<Rightarrow> False)"
proof -
  let ?c = "ucast (b AND 0x0F) :: 32 word"
  have c: "unat ?c = unat b - 224"
  proof -
    have "unat b mod 16 = unat b - 224" using assms by (simp add: mod_nat_eqI)
    then show ?thesis by (simp add: unsigned_ucast_eq low_bits take_bit_eq_mod)
  qed
  have z: "?c = 0 \<longleftrightarrow> unat b = 224" using c assms by (simp add: word_unat_eq_iff)
  have l: "utf8_loop 0 cp (b # p) \<longleftrightarrow>
      p \<noteq> [] \<and> \<not> (unat b = 224 \<and> unat (hd p) mod 64 < 32) \<and> utf8_loop 2 ?c p"
    using assms z by (simp add: Let_def byte_shift_eq bit_0x20)
  show ?thesis
  proof (cases p)
    case Nil
    then show ?thesis unfolding l by simp
  next
    case p: (Cons b1 q)
    show ?thesis
    proof (cases q)
      case Nil
      then show ?thesis unfolding l unfolding p by (simp add: utf8_loop_short del: utf8_loop.simps)
    next
      case q: (Cons b2 r)
      let ?c1 = "extend ?c b1" and ?c2 = "extend (extend ?c b1) b2"
      have two: "utf8_loop 2 ?c (b1 # b2 # r) \<longleftrightarrow>
          cont b1 \<and> cont b2 \<and> \<not> bad_point (unat ?c2) \<and> utf8_loop 0 0 r"
        using utf8_loop_more [of 2 ?c b1 "b2 # r"] utf8_loop_last [of ?c1 b2 r]
          utf8_loop_restart [of ?c2 r 0] by (simp del: utf8_loop.simps)
      have u1: "unat ?c1 = 64 * (unat b - 224) + unat b1 mod 64"
        using c assms by (subst unat_extend) simp_all
      have m: "unat b1 mod 64 < 64" "unat b2 mod 64 < 64" by simp_all
      have u2: "unat ?c2 = 64 * (64 * (unat b - 224) + unat b1 mod 64) + unat b2 mod 64"
        using u1 m(1) assms by (subst unat_extend) simp_all
      have bad: "bad_point (unat ?c2) \<longleftrightarrow> unat b = 237 \<and> 159 < unat b1"
        if "cont b1" "\<not> (unat b = 224 \<and> unat b1 mod 64 < 32)"
      proof -
        have b1: "unat b1 mod 64 = unat b1 - 128" "128 \<le> unat b1" "unat b1 < 192"
          using that(1) by (simp_all add: cont_def mod_64)
        have "bad_point (unat ?c2) \<longleftrightarrow> unat b - 224 = 13 \<and> 32 \<le> unat b1 mod 64"
          unfolding u2 by (rule bad_point_3) (use assms m that(2) in auto)
        then show ?thesis using assms b1 by auto
      qed
      have "unat b1 mod 64 < 32 \<longleftrightarrow> unat b1 < 160" if "cont b1"
        using that by (simp add: cont_def mod_64) linarith
      with bad show ?thesis unfolding l unfolding p q list.case list.sel(1) two by blast
    qed
  qed
qed

lemma lead_4:
  assumes "240 \<le> unat b" "unat b < 248"
  shows "utf8_loop 0 cp (b # p) \<longleftrightarrow>
    (case p of
       b1 # b2 # b3 # r \<Rightarrow> cont b1 \<and> cont b2 \<and> cont b3 \<and> unat b \<le> 244
                      \<and> \<not> (unat b = 240 \<and> unat b1 < 144)
                      \<and> \<not> (unat b = 244 \<and> 143 < unat b1) \<and> utf8_loop 0 0 r
     | _ \<Rightarrow> False)"
proof -
  let ?c = "ucast (b AND 0x07) :: 32 word"
  have c: "unat ?c = unat b - 240"
  proof -
    have "unat b mod 8 = unat b - 240" using assms by (simp add: mod_nat_eqI)
    then show ?thesis by (simp add: unsigned_ucast_eq low_bits take_bit_eq_mod)
  qed
  have z: "?c = 0 \<longleftrightarrow> unat b = 240" using c assms by (simp add: word_unat_eq_iff)
  have l: "utf8_loop 0 cp (b # p) \<longleftrightarrow>
      p \<noteq> [] \<and> \<not> (unat b = 240 \<and> unat (hd p) mod 64 < 16) \<and> utf8_loop 3 ?c p"
    using assms z by (simp add: Let_def byte_shift_eq bit_0x30)
  consider "p = []" | b1 where "p = [b1]" | b1 b2 where "p = [b1, b2]"
    | b1 b2 b3 r where "p = b1 # b2 # b3 # r"
    by (metis neq_Nil_conv)
  then show ?thesis
  proof cases
    case 1
    then show ?thesis unfolding l by simp
  next
    case 2
    then show ?thesis unfolding l by (simp add: utf8_loop_short del: utf8_loop.simps)
  next
    case 3
    then show ?thesis unfolding l by (simp add: utf8_loop_short del: utf8_loop.simps)
  next
    case p: 4
    let ?c1 = "extend ?c b1" and ?c2 = "extend (extend ?c b1) b2"
    let ?c3 = "extend (extend (extend ?c b1) b2) b3"
    have three: "utf8_loop 3 ?c (b1 # b2 # b3 # r) \<longleftrightarrow>
        cont b1 \<and> cont b2 \<and> cont b3 \<and> \<not> bad_point (unat ?c3) \<and> utf8_loop 0 0 r"
      using utf8_loop_more [of 3 ?c b1 "b2 # b3 # r"] utf8_loop_more [of 2 ?c1 b2 "b3 # r"]
        utf8_loop_last [of ?c2 b3 r] utf8_loop_restart [of ?c3 r 0] by (simp del: utf8_loop.simps)
    have m: "unat b1 mod 64 < 64" "unat b2 mod 64 < 64" "unat b3 mod 64 < 64" by simp_all
    have u1: "unat ?c1 = 64 * (unat b - 240) + unat b1 mod 64"
      using c assms by (subst unat_extend) simp_all
    have u2: "unat ?c2 = 64 * (64 * (unat b - 240) + unat b1 mod 64) + unat b2 mod 64"
      using u1 m(1) assms by (subst unat_extend) simp_all
    have u3: "unat ?c3 = 64 * (64 * (64 * (unat b - 240) + unat b1 mod 64) + unat b2 mod 64)
        + unat b3 mod 64"
      using u2 m assms by (subst unat_extend) simp_all
    have bad: "bad_point (unat ?c3) \<longleftrightarrow> 244 < unat b \<or> unat b = 244 \<and> 143 < unat b1"
      if "cont b1" "\<not> (unat b = 240 \<and> unat b1 mod 64 < 16)"
    proof -
      have b1: "unat b1 mod 64 = unat b1 - 128" "128 \<le> unat b1" "unat b1 < 192"
        using that(1) by (simp_all add: cont_def mod_64)
      have "bad_point (unat ?c3) \<longleftrightarrow> 4 < unat b - 240 \<or> unat b - 240 = 4 \<and> 16 \<le> unat b1 mod 64"
        unfolding u3 by (rule bad_point_4) (use assms m that(2) in auto)
      then show ?thesis using assms b1 by auto
    qed
    have "unat b1 mod 64 < 16 \<longleftrightarrow> unat b1 < 144" if "cont b1"
      using that by (simp add: cont_def mod_64) linarith
    moreover have "244 < unat b \<longleftrightarrow> \<not> unat b \<le> 244" by linarith
    ultimately show ?thesis
      using bad unfolding l unfolding p list.case list.sel(1) three by blast
  qed
qed

lemma lead_other:
  "unat b < 128 \<Longrightarrow> utf8_loop 0 cp (b # p) = utf8_loop 0 0 p"
  "(128 \<le> unat b \<and> unat b < 192) \<or> 248 \<le> unat b \<Longrightarrow> \<not> utf8_loop 0 cp (b # p)"
  using utf8_loop_restart [of cp p 0] by (auto simp: byte_shift_eq)

section \<open>Equivalence\<close>

lemma cont_mask: "unat ((b :: byte) AND 0xC0) = 128 \<longleftrightarrow> cont b"
  using continuation_byte [of b] by (simp add: cont_def word_unat_eq_iff)

lemma ref_utf8_nums:
  "ref_utf8 (b # p) =
     (if unat b < 128 then ref_utf8 p
      else if 194 \<le> unat b \<and> unat b \<le> 223 then
        (case p of b1 # r \<Rightarrow> cont b1 \<and> ref_utf8 r | _ \<Rightarrow> False)
      else if 224 \<le> unat b \<and> unat b \<le> 239 then
        (case p of
           b1 # b2 # r \<Rightarrow> cont b1 \<and> cont b2 \<and> \<not> (unat b = 224 \<and> unat b1 < 160)
                          \<and> \<not> (unat b = 237 \<and> 159 < unat b1) \<and> ref_utf8 r
         | _ \<Rightarrow> False)
      else if 240 \<le> unat b \<and> unat b \<le> 244 then
        (case p of
           b1 # b2 # b3 # r \<Rightarrow> cont b1 \<and> cont b2 \<and> cont b3
                          \<and> \<not> (unat b = 240 \<and> unat b1 < 144)
                          \<and> \<not> (unat b = 244 \<and> 143 < unat b1) \<and> ref_utf8 r
         | _ \<Rightarrow> False)
      else False)"
proof -
  have nums: "unat (0x80 :: byte) = 128" "unat (0xC2 :: byte) = 194" "unat (0xDF :: byte) = 223"
    "unat (0xE0 :: byte) = 224" "unat (0xEF :: byte) = 239" "unat (0xF0 :: byte) = 240"
    "unat (0xF4 :: byte) = 244" "unat (0xA0 :: byte) = 160" "unat (0xED :: byte) = 237"
    "unat (0x9F :: byte) = 159" "unat (0x90 :: byte) = 144" "unat (0x8F :: byte) = 143"
    by simp_all
  have *: "(if x then False else y) = (\<not> x \<and> y)" for x y by simp
  show ?thesis
    unfolding ref_utf8.simps(2) byte_le word_unat_eq_iff nums cont_mask *
      de_Morgan_disj not_not conj_assoc ..
qed

lemma is_valid_utf8_ref: "utf8_loop 0 0 p = ref_utf8 p"
proof (induction "length p" arbitrary: p rule: less_induct)
  case less
  show ?case
  proof (cases p)
    case p: (Cons b q)
    have IH: "utf8_loop 0 0 r = ref_utf8 r" if "length r \<le> length q" for r
      using less [of r] that p by simp
    consider "unat b < 128" | "128 \<le> unat b" "unat b < 192" | "192 \<le> unat b" "unat b < 224"
      | "224 \<le> unat b" "unat b < 240" | "240 \<le> unat b" "unat b < 248" | "248 \<le> unat b"
      by linarith
    then show ?thesis
    proof cases
      case 1
      then show ?thesis unfolding p using IH [of q] lead_other(1) [of b 0 q]
        by (simp add: ref_utf8_nums del: utf8_loop.simps ref_utf8.simps)
    next
      case 2
      then show ?thesis unfolding p using lead_other(2) [of b 0 q]
        by (simp add: ref_utf8_nums del: utf8_loop.simps ref_utf8.simps)
    next
      case 3
      then show ?thesis unfolding p ref_utf8_nums lead_2 [OF 3] using IH
        by (auto split: list.split simp del: utf8_loop.simps ref_utf8.simps)
    next
      case 4
      then show ?thesis unfolding p ref_utf8_nums lead_3 [OF 4] using IH
        by (auto split: list.split simp del: utf8_loop.simps ref_utf8.simps)
    next
      case 5
      then show ?thesis unfolding p ref_utf8_nums lead_4 [OF 5] using IH
        by (auto split: list.split simp del: utf8_loop.simps ref_utf8.simps)
    next
      case 6
      then show ?thesis unfolding p using lead_other(2) [of b 0 q]
        by (simp add: ref_utf8_nums del: utf8_loop.simps ref_utf8.simps)
    qed
  qed simp
qed

text \<open>
  C35: The automaton accepts exactly the buffers the reference accepts: no overlong form, no
  surrogate, nothing beyond U+10FFFF, no stray or missing continuation byte, for buffers of every
  length.
\<close>

theorem is_valid_utf8_eq_ref:
  "is_valid_utf8 data n = (case data of None \<Rightarrow> n = 0 | Some p \<Rightarrow> ref_utf8 (take n p))"
  by (simp add: is_valid_utf8_def is_valid_utf8_ref split: option.split)

end
