(* ===== verification/Utf8_Simd.thy ===== *)
theory Utf8_Simd
  imports Utf8
begin

text \<open>
  \<^verbatim>\<open>is_valid_utf8_simd\<close>, the validator that takes blocks of 16 bytes: the SSE instructions it uses, the
  block and the loop, and its equality with the scalar validator.  A register is the list of its bytes,
  the lowest first.
\<close>

section \<open>The instructions\<close>

type_synonym m128 = "byte list"

definition mm_set1_epi8 :: "byte \<Rightarrow> m128" where
  "mm_set1_epi8 b = replicate 16 b"

definition mm_loadu_si128 :: "byte list \<Rightarrow> nat \<Rightarrow> m128" where
  "mm_loadu_si128 p i = take 16 (drop i p)"

definition mm_and_si128 :: "m128 \<Rightarrow> m128 \<Rightarrow> m128" where
  "mm_and_si128 u v = map2 (AND) u v"

definition mm_or_si128 :: "m128 \<Rightarrow> m128 \<Rightarrow> m128" where
  "mm_or_si128 u v = map2 (OR) u v"

definition lane :: "bool \<Rightarrow> byte" where
  "lane c = (if c then 0xFF else 0)"

definition mm_cmpeq_epi8 :: "m128 \<Rightarrow> m128 \<Rightarrow> m128" where
  "mm_cmpeq_epi8 u v = map2 (\<lambda>a b. lane (a = b)) u v"

definition mm_cmpgt_epi8 :: "m128 \<Rightarrow> m128 \<Rightarrow> m128" where
  "mm_cmpgt_epi8 u v = map2 (\<lambda>a b. lane (sint b < sint a)) u v"

definition mm_cmplt_epi8 :: "m128 \<Rightarrow> m128 \<Rightarrow> m128" where
  "mm_cmplt_epi8 u v = map2 (\<lambda>a b. lane (sint a < sint b)) u v"

text \<open>The 16-bit shift crosses the border of the two bytes of a lane.\<close>

fun mm_srli_epi16 :: "m128 \<Rightarrow> nat \<Rightarrow> m128" where
  "mm_srli_epi16 (lo # hi # v) k =
     (let w = drop_bit k (ucast lo OR push_bit 8 (ucast hi) :: 16 word)
      in ucast w # ucast (drop_bit 8 w) # mm_srli_epi16 v k)"
| "mm_srli_epi16 v k = v"

definition mm_srli_si128 :: "m128 \<Rightarrow> nat \<Rightarrow> m128" where
  "mm_srli_si128 v k = drop k v @ replicate k 0"

fun mm_movemask_epi8 :: "m128 \<Rightarrow> 32 word" where
  "mm_movemask_epi8 [] = 0"
| "mm_movemask_epi8 (b # v) = (if bit b 7 then 1 else 0) OR push_bit 1 (mm_movemask_epi8 v)"

section \<open>The validator\<close>

definition bad_next :: "byte \<Rightarrow> byte \<Rightarrow> bool" where
  "bad_next prev_crit nb \<longleftrightarrow> nb AND 0xC0 = 0x80 \<and>
     (prev_crit = 0xE0 \<and> nb < 0xA0 \<or> prev_crit = 0xED \<and> 0x9F < nb
      \<or> prev_crit = 0xF0 \<and> nb < 0x90 \<or> prev_crit = 0xF4 \<and> 0x8F < nb)"

text \<open>The checks inside a block with a byte above \<open>0x7F\<close>; the result is the next \<^verbatim>\<open>pending\<close>.\<close>

definition block_forbidden :: "m128 \<Rightarrow> bool" where
  "block_forbidden v \<longleftrightarrow>
     mm_movemask_epi8 (mm_cmpeq_epi8 (mm_and_si128 v (mm_set1_epi8 0xFE)) (mm_set1_epi8 0xC0)) \<noteq> 0
     \<or> mm_movemask_epi8 (mm_cmpeq_epi8 (mm_and_si128 v (mm_set1_epi8 0xF8)) (mm_set1_epi8 0xF8)) \<noteq> 0
     \<or> mm_movemask_epi8 (mm_or_si128 (mm_cmpeq_epi8 v (mm_set1_epi8 0xF5))
         (mm_cmpeq_epi8 (mm_and_si128 v (mm_set1_epi8 0xFE)) (mm_set1_epi8 0xF6))) \<noteq> 0"

definition block_pairs_bad :: "m128 \<Rightarrow> bool" where
  "block_pairs_bad v =
     (let is_E0 = mm_movemask_epi8 (mm_cmpeq_epi8 v (mm_set1_epi8 0xE0));
          is_ED = mm_movemask_epi8 (mm_cmpeq_epi8 v (mm_set1_epi8 0xED));
          is_F0 = mm_movemask_epi8 (mm_cmpeq_epi8 v (mm_set1_epi8 0xF0));
          is_F4 = mm_movemask_epi8 (mm_cmpeq_epi8 v (mm_set1_epi8 0xF4))
      in if is_E0 OR is_ED OR is_F0 OR is_F4 \<noteq> 0
         then let nxt = mm_srli_si128 v 1
              in mm_movemask_epi8 (mm_cmplt_epi8 nxt (mm_set1_epi8 0xA0)) AND (is_E0 AND 0x7FFF) \<noteq> 0
                 \<or> mm_movemask_epi8 (mm_cmpgt_epi8 nxt (mm_set1_epi8 0x9F)) AND (is_ED AND 0x7FFF) \<noteq> 0
                 \<or> mm_movemask_epi8 (mm_cmplt_epi8 nxt (mm_set1_epi8 0x90)) AND (is_F0 AND 0x7FFF) \<noteq> 0
                 \<or> mm_movemask_epi8 (mm_cmpgt_epi8 nxt (mm_set1_epi8 0x8F)) AND (is_F4 AND 0x7FFF) \<noteq> 0
         else False)"

definition block_leads :: "m128 \<Rightarrow> 32 word \<times> 32 word \<times> 32 word \<times> 32 word" where
  "block_leads v =
     (let nonascii = mm_movemask_epi8 v;
          cont = mm_movemask_epi8 (mm_cmpeq_epi8 (mm_and_si128 v (mm_set1_epi8 0xC0)) (mm_set1_epi8 0x80));
          hi = mm_and_si128 (mm_srli_epi16 v 4) (mm_set1_epi8 0x0F);
          m3 = mm_movemask_epi8 (mm_cmpeq_epi8 hi (mm_set1_epi8 0x0E));
          m4 = mm_movemask_epi8 (mm_cmpgt_epi8 hi (mm_set1_epi8 0x0E));
          m2 = nonascii AND NOT cont AND NOT m3 AND NOT m4
      in (cont, m2 OR m3 OR m4, m3 OR m4, m4))"

definition simd_block :: "m128 \<Rightarrow> 32 word \<Rightarrow> 32 word option" where
  "simd_block v pending =
     (let (cont, lead2, lead3, lead4) = block_leads v;
          expect = push_bit 1 (ucast lead2) OR push_bit 2 (ucast lead3) OR push_bit 3 (ucast lead4) :: 64 word;
          expect_here = ucast (expect AND 0xFFFF) OR pending
      in if block_forbidden v then None
         else if block_pairs_bad v then None
         else if cont \<noteq> expect_here then None
         else Some (ucast (drop_bit 16 expect AND 0x7)))"

definition crit_of :: "byte \<Rightarrow> byte" where
  "crit_of b = (if b = 0xE0 \<or> b = 0xED \<or> b = 0xF0 \<or> b = 0xF4 then b else 0)"

text \<open>The loop over the blocks; \<open>None\<close> is \<^verbatim>\<open>return false\<close>, otherwise the index it stops at.\<close>

function simd_loop :: "byte list \<Rightarrow> nat \<Rightarrow> 32 word \<Rightarrow> byte \<Rightarrow> nat option" where
  "simd_loop p i pending prev_crit =
     (if i + 16 \<le> length p then
        let v = mm_loadu_si128 p i
        in if prev_crit \<noteq> 0 \<and> bad_next prev_crit (p ! i) then None
           else if mm_movemask_epi8 v = 0
           then if pending \<noteq> 0 then None else simd_loop p (i + 16) pending 0
           else (case simd_block v pending of
                   None \<Rightarrow> None
                 | Some pending' \<Rightarrow> simd_loop p (i + 16) pending' (crit_of (p ! (i + 15))))
      else Some i)"
  by pat_completeness auto
termination by (relation "measure (\<lambda>(p, i, _). length p - i)") auto

declare simd_loop.simps [simp del]

function skip_cont :: "byte list \<Rightarrow> nat \<Rightarrow> nat \<Rightarrow> nat" where
  "skip_cont p k i = (if k < i \<and> p ! k AND 0xC0 = 0x80 then skip_cont p (k + 1) i else k)"
  by pat_completeness auto
termination by (relation "measure (\<lambda>(p, k, i). i - k)") auto

declare skip_cont.simps [simp del]

definition is_valid_utf8_simd :: "byte list option \<Rightarrow> nat \<Rightarrow> bool" where
  "is_valid_utf8_simd data n =
     (case data of
        None \<Rightarrow> n = 0
      | Some p \<Rightarrow>
          if n = 0 then True
          else let q = take n p
               in (case simd_loop q 0 0 0 of
                     None \<Rightarrow> False
                   | Some i \<Rightarrow> ref_utf8 (drop (skip_cont q (if 3 \<le> i then i - 3 else 0) i) q)))"

section \<open>A scanner over single bytes\<close>

text \<open>
  What the masks compute, byte by byte: \<open>e j\<close> tells whether the byte \<open>j\<close> places ahead has to be a
  continuation byte, \<open>c\<close> is the byte before.
\<close>

definition forbidden :: "byte \<Rightarrow> bool" where
  "forbidden b \<longleftrightarrow> unat b = 192 \<or> unat b = 193 \<or> 245 \<le> unat b"

definition lead :: "byte \<Rightarrow> nat \<Rightarrow> bool" where
  "lead b j \<longleftrightarrow> j = 0 \<and> 192 \<le> unat b \<or> j = 1 \<and> 224 \<le> unat b \<or> j = 2 \<and> 240 \<le> unat b"

fun scan :: "(nat \<Rightarrow> bool) \<Rightarrow> byte \<Rightarrow> byte list \<Rightarrow> bool" where
  "scan e c [] = (\<forall>j. \<not> e j)"
| "scan e c (b # p) =
     (\<not> forbidden b \<and> cont b = e 0 \<and> \<not> bad_next c b \<and> scan (\<lambda>j. e (Suc j) \<or> lead b j) b p)"

lemma bad_next_nums:
  "bad_next c b \<longleftrightarrow> cont b \<and> (unat c = 224 \<and> unat b < 160 \<or> unat c = 237 \<and> 159 < unat b
     \<or> unat c = 240 \<and> unat b < 144 \<or> unat c = 244 \<and> 143 < unat b)"
proof -
  have "b AND 0xC0 = 0x80 \<longleftrightarrow> cont b" using continuation_byte [of b] by (simp add: cont_def)
  then show ?thesis by (simp add: bad_next_def word_less_nat_alt word_unat_eq_iff)
qed

lemma bad_next_cont: "bad_next c b \<Longrightarrow> cont b"
  by (simp add: bad_next_nums)

lemma lead_mono: "lead b j \<Longrightarrow> i \<le> j \<Longrightarrow> lead b i"
  by (auto simp: lead_def)

lemma lead_not_cont: "lead b j \<Longrightarrow> \<not> cont b"
  by (auto simp: lead_def cont_def)

lemma lead_bound: "lead b j \<Longrightarrow> j < 3"
  by (auto simp: lead_def)

abbreviation no_lead :: "nat \<Rightarrow> bool" where "no_lead \<equiv> \<lambda>_. False"

lemma scan_restart: "scan no_lead c p = scan no_lead c' p"
  by (cases p) (auto dest: bad_next_cont)

lemma lead_fun:
  "unat b < 192 \<Longrightarrow> lead b = no_lead" "192 \<le> unat b \<Longrightarrow> unat b < 224 \<Longrightarrow> lead b = (\<lambda>j. j = 0)"
  "224 \<le> unat b \<Longrightarrow> unat b < 240 \<Longrightarrow> lead b = (\<lambda>j. j < 2)"
  "240 \<le> unat b \<Longrightarrow> lead b = (\<lambda>j. j < 3)"
  by (auto simp: fun_eq_iff lead_def)

lemma cont_lead: "cont b \<Longrightarrow> lead b = no_lead" "cont b \<Longrightarrow> \<not> forbidden b"
  by (auto simp: cont_def forbidden_def lead_fun)

lemma less_Suc_fun: "(\<lambda>j. Suc j < n) = (\<lambda>j. j < n - 1)"
  by (auto simp: fun_eq_iff)

text \<open>While continuation bytes are due the scanner takes them.\<close>

lemma scan_due:
  "0 < n \<Longrightarrow> scan (\<lambda>j. j < n) c p =
     (case p of [] \<Rightarrow> False | b # q \<Rightarrow> cont b \<and> \<not> bad_next c b \<and> scan (\<lambda>j. j < n - 1) b q)"
  by (cases p) (auto simp: cont_lead less_Suc_fun)

lemma scan_ref: "scan no_lead c p = ref_utf8 p"
proof (induction "length p" arbitrary: p c rule: less_induct)
  case less
  show ?case
  proof (cases p)
    case p: (Cons b q)
    have IH: "scan no_lead c' r = ref_utf8 r" if "length r \<le> length q" for c' r
      using less that p by simp
    have s: "scan no_lead c p \<longleftrightarrow> \<not> forbidden b \<and> \<not> cont b \<and> scan (lead b) b q"
      using bad_next_cont [of c b] by (auto simp: p)
    have z: "(\<lambda>j. j < (0 :: nat)) = no_lead" "(\<lambda>j. j < Suc 0) = (\<lambda>j. j = 0)" by (auto simp: fun_eq_iff)
    note due = scan_due [of 1, simplified z, simplified] scan_due [of 2, simplified] scan_due [of 3, simplified]
    consider "unat b < 128" | "128 \<le> unat b" "unat b < 194" | "194 \<le> unat b" "unat b < 224"
      | "224 \<le> unat b" "unat b < 240" | "240 \<le> unat b" "unat b \<le> 244" | "245 \<le> unat b"
      by linarith
    then show ?thesis
    proof cases
      case 1
      then show ?thesis using IH [of q b] s
        by (simp add: p ref_utf8_nums lead_fun forbidden_def cont_def del: scan.simps ref_utf8.simps)
    next
      case 2
      then show ?thesis using s
        by (auto simp add: p ref_utf8_nums forbidden_def cont_def simp del: scan.simps ref_utf8.simps)
    next
      case 3
      then have "lead b = (\<lambda>j. j = 0)" by (simp add: lead_fun)
      with 3 show ?thesis using s IH
        by (auto simp: p ref_utf8_nums forbidden_def cont_def [of b] due z bad_next_nums
            simp del: scan.simps ref_utf8.simps split: list.split)
    next
      case 4
      then have "lead b = (\<lambda>j. j < 2)" by (simp add: lead_fun)
      with 4 show ?thesis using s IH
        by (auto simp: p ref_utf8_nums forbidden_def cont_def due z bad_next_nums
            simp del: scan.simps ref_utf8.simps split: list.split)
    next
      case 5
      then have "lead b = (\<lambda>j. j < 3)" by (simp add: lead_fun)
      with 5 show ?thesis using s IH
        by (auto simp: p ref_utf8_nums forbidden_def cont_def due z bad_next_nums
            simp del: scan.simps ref_utf8.simps split: list.split)
    next
      case 6
      then show ?thesis using s
        by (simp add: p ref_utf8_nums forbidden_def del: scan.simps ref_utf8.simps)
    qed
  qed simp
qed

section \<open>The scanner by positions\<close>

definition due :: "(nat \<Rightarrow> bool) \<Rightarrow> byte list \<Rightarrow> nat \<Rightarrow> bool" where
  "due e v j \<longleftrightarrow> e j \<or> (\<exists>i < length v. i < j \<and> lead (v ! i) (j - 1 - i))"

definition fits :: "(nat \<Rightarrow> bool) \<Rightarrow> byte \<Rightarrow> byte list \<Rightarrow> nat \<Rightarrow> bool" where
  "fits e c v j \<longleftrightarrow> \<not> forbidden (v ! j) \<and> cont (v ! j) = due e v j
     \<and> \<not> bad_next (case j of 0 \<Rightarrow> c | Suc i \<Rightarrow> v ! i) (v ! j)"

lemma due_Cons: "due e (b # v) (Suc j) = due (\<lambda>j. e (Suc j) \<or> lead b j) v j"
  by (auto simp: due_def Ex_less_Suc2)

lemma due_0 [simp]: "due e v 0 = e 0"
  by (simp add: due_def)

lemma due_Nil [simp]: "due e [] j = e j"
  by (simp add: due_def)

lemma due_iff:
  "due e v j \<longleftrightarrow> e j \<or> 1 \<le> j \<and> j - 1 < length v \<and> 192 \<le> unat (v ! (j - 1))
     \<or> 2 \<le> j \<and> j - 2 < length v \<and> 224 \<le> unat (v ! (j - 2))
     \<or> 3 \<le> j \<and> j - 3 < length v \<and> 240 \<le> unat (v ! (j - 3))" (is "_ \<longleftrightarrow> e j \<or> ?r")
proof -
  have "(\<exists>i < length v. i < j \<and> lead (v ! i) (j - 1 - i)) \<longleftrightarrow> ?r"
  proof
    assume "\<exists>i < length v. i < j \<and> lead (v ! i) (j - 1 - i)"
    then obtain i where i: "i < length v" "i < j" "lead (v ! i) (j - 1 - i)" by blast
    then consider "i = j - 1" | "i = j - 2" "2 \<le> j" | "i = j - 3" "3 \<le> j"
      using lead_bound [OF i(3)] by linarith
    then show ?r using i by cases (auto simp: lead_def)
  next
    assume ?r
    then consider "1 \<le> j" "j - 1 < length v" "lead (v ! (j - 1)) 0"
      | "2 \<le> j" "j - 2 < length v" "lead (v ! (j - 2)) 1"
      | "3 \<le> j" "j - 3 < length v" "lead (v ! (j - 3)) 2"
      by (auto simp: lead_def)
    then show "\<exists>i < length v. i < j \<and> lead (v ! i) (j - 1 - i)"
    proof cases
      case 1
      then show ?thesis by (intro exI [of _ "j - 1"]) simp
    next
      case 2
      then have "j - 1 - (j - 2) = 1" by linarith
      with 2 show ?thesis by (intro exI [of _ "j - 2"]) simp
    next
      case 3
      then have "j - 1 - (j - 3) = 2" by linarith
      with 3 show ?thesis by (intro exI [of _ "j - 3"]) simp
    qed
  qed
  then show ?thesis by (simp add: due_def)
qed

lemma fits_Cons:
  "fits e c (b # v) 0 \<longleftrightarrow> \<not> forbidden b \<and> cont b = e 0 \<and> \<not> bad_next c b"
  "fits e c (b # v) (Suc j) \<longleftrightarrow> fits (\<lambda>j. e (Suc j) \<or> lead b j) b v j"
  by (simp_all add: fits_def due_Cons split: nat.split)

lemma scan_append:
  "scan e c (v @ p) \<longleftrightarrow> (\<forall>j < length v. fits e c v j)
     \<and> scan (\<lambda>j. due e v (length v + j)) (last (c # v)) p"
proof (induction v arbitrary: e c)
  case (Cons b v)
  have "(\<lambda>j. due e (b # v) (length (b # v) + j)) = (\<lambda>j. due (\<lambda>j. e (Suc j) \<or> lead b j) v (length v + j))"
    by (simp add: fun_eq_iff due_Cons)
  moreover have "(\<forall>j < length (b # v). fits e c (b # v) j) \<longleftrightarrow>
      \<not> forbidden b \<and> cont b = e 0 \<and> \<not> bad_next c b
      \<and> (\<forall>j < length v. fits (\<lambda>j. e (Suc j) \<or> lead b j) b v j)"
    by (simp add: All_less_Suc2 fits_Cons)
  moreover have "last (c # b # v) = last (b # v)" by simp
  ultimately show ?case unfolding append_Cons scan.simps Cons.IH by (simp only: conj_assoc)
qed simp

section \<open>The masks\<close>

lemma bit_movemask: "bit (mm_movemask_epi8 v) j \<longleftrightarrow> j < length v \<and> j < 32 \<and> bit (v ! j) 7"
proof (induction v arbitrary: j)
  case (Cons b v)
  have p: "bit (push_bit 1 (mm_movemask_epi8 v)) j \<longleftrightarrow> 1 \<le> j \<and> j < 32 \<and> bit (mm_movemask_epi8 v) (j - 1)"
    unfolding bit_push_bit_iff by simp
  show ?case unfolding mm_movemask_epi8.simps bit_or_iff p Cons
    by (cases j) (auto simp: bit_1_iff)
qed simp

lemma word_bits_iff: "(x :: 32 word) = y \<longleftrightarrow> (\<forall>n. bit x n = bit y n)"
  by (auto intro: bit_word_eqI)

lemma word_zero_iff: "(x :: 32 word) = 0 \<longleftrightarrow> (\<forall>n. \<not> bit x n)"
  by (auto intro: bit_word_eqI)

lemma bit_lane [simp]: "bit (lane c) 7 = c"
  by (simp add: lane_def)

lemma or_lane: "bit (lane c OR lane d) 7 = (c \<or> d)"
  by (simp add: bit_or_iff)

lemma bit_7: "bit (b :: byte) 7 \<longleftrightarrow> 128 \<le> unat b"
  by (rule byte_cases [where P = "\<lambda>b i. bit b 7 \<longleftrightarrow> 128 \<le> i"]) code_simp

lemma set1_nth [simp]: "j < 16 \<Longrightarrow> mm_set1_epi8 b ! j = b" "length (mm_set1_epi8 b) = 16"
  by (simp_all add: mm_set1_epi8_def)

lemma length_mm [simp]:
  "length (mm_and_si128 u v) = min (length u) (length v)" "length (mm_or_si128 u v) = min (length u) (length v)"
  "length (mm_cmpeq_epi8 u v) = min (length u) (length v)" "length (mm_cmpgt_epi8 u v) = min (length u) (length v)"
  "length (mm_cmplt_epi8 u v) = min (length u) (length v)"
  "length (mm_srli_epi16 v k) = length v"
  by (simp_all add: mm_and_si128_def mm_or_si128_def mm_cmpeq_epi8_def mm_cmpgt_epi8_def mm_cmplt_epi8_def)
    (induction v k rule: mm_srli_epi16.induct, simp_all add: Let_def)

lemma nth_mm [simp]:
  assumes "length u = 16" "length v = 16" "j < 16"
  shows "mm_and_si128 u v ! j = (u ! j AND v ! j)" "mm_or_si128 u v ! j = (u ! j OR v ! j)"
    "mm_cmpeq_epi8 u v ! j = lane (u ! j = v ! j)" "mm_cmpgt_epi8 u v ! j = lane (sint (v ! j) < sint (u ! j))"
    "mm_cmplt_epi8 u v ! j = lane (sint (u ! j) < sint (v ! j))"
  using assms
  by (simp_all add: mm_and_si128_def mm_or_si128_def mm_cmpeq_epi8_def mm_cmpgt_epi8_def mm_cmplt_epi8_def)

text \<open>The lowest and the other masks of a full block.\<close>

lemma mask_zero: "length v = 16 \<Longrightarrow> mm_movemask_epi8 v = 0 \<longleftrightarrow> (\<forall>j < 16. \<not> bit (v ! j) 7)"
  unfolding word_zero_iff by (auto simp: bit_movemask)

lemma mask_and:
  "length u = 16 \<Longrightarrow> length v = 16 \<Longrightarrow>
   mm_movemask_epi8 u AND (mm_movemask_epi8 v AND 0x7FFF) = 0 \<longleftrightarrow> (\<forall>j < 15. \<not> (bit (u ! j) 7 \<and> bit (v ! j) 7))"
proof -
  have m: "(0x7FFF :: 32 word) = mask 15" by (simp add: mask_eq_exp_minus_1)
  assume "length u = 16" "length v = 16"
  then show ?thesis unfolding m word_zero_iff by (intro iff_allI) (auto simp: bit_and_iff bit_movemask bit_mask_iff)
qed

lemma lane_masks:
  "b AND 0xFE = 0xC0 \<longleftrightarrow> unat (b :: byte) = 192 \<or> unat b = 193"
  "b AND 0xF8 = 0xF8 \<longleftrightarrow> 248 \<le> unat b"
  "b AND 0xFE = 0xF6 \<longleftrightarrow> unat b = 246 \<or> unat b = 247"
  by (rule byte_cases [where P = "\<lambda>b i. b AND 0xFE = 0xC0 \<longleftrightarrow> i = 192 \<or> i = 193"], code_simp)
    (rule byte_cases [where P = "\<lambda>b i. b AND 0xF8 = 0xF8 \<longleftrightarrow> 248 \<le> i"], code_simp,
     rule byte_cases [where P = "\<lambda>b i. b AND 0xFE = 0xF6 \<longleftrightarrow> i = 246 \<or> i = 247"], code_simp)

lemma sint_byte: "sint (b :: byte) = (if unat b < 128 then int (unat b) else int (unat b) - 256)"
proof -
  have "bit (uint b) 7 \<longleftrightarrow> 128 \<le> unat b" using bit_7 [of b] by (simp add: bit_uint_iff)
  moreover have "take_bit 8 (uint b) = uint b" by (rule take_bit_int_eq_self) (use uint_lt2p [of b] in simp_all)
  ultimately show ?thesis
    by (simp add: sint_uint signed_take_bit_eq_take_bit_minus)
qed

lemma lane_compares:
  "sint (b :: byte) < sint (0xA0 :: byte) \<longleftrightarrow> 128 \<le> unat b \<and> unat b < 160"
  "sint (b :: byte) < sint (0x90 :: byte) \<longleftrightarrow> 128 \<le> unat b \<and> unat b < 144"
  "sint (0x9F :: byte) < sint b \<longleftrightarrow> unat b < 128 \<or> 160 \<le> unat b"
  "sint (0x8F :: byte) < sint b \<longleftrightarrow> unat b < 128 \<or> 144 \<le> unat b"
  unfolding sint_byte using unat_byte_less [of b] by (simp_all del: of_nat_unat) (linarith+)?

lemma nibble_compares:
  "drop_bit 4 (b :: byte) = 0x0E \<longleftrightarrow> 224 \<le> unat b \<and> unat b < 240"
  "sint (0x0E :: byte) < sint (drop_bit 4 b) \<longleftrightarrow> 240 \<le> unat b"
proof -
  have "unat (drop_bit 4 b) = unat b div 16" by (simp add: byte_shift)
  moreover have "unat b div 16 < 16" using unat_byte_less [of b] by linarith
  ultimately show "drop_bit 4 b = 0x0E \<longleftrightarrow> 224 \<le> unat b \<and> unat b < 240"
    "sint (0x0E :: byte) < sint (drop_bit 4 b) \<longleftrightarrow> 240 \<le> unat b"
    by (auto simp: sint_byte word_unat_eq_iff)
qed

text \<open>The high nibbles.\<close>

lemma nth_srli: "j < length v \<Longrightarrow> even (length v) \<Longrightarrow> mm_srli_epi16 v 4 ! j AND 0x0F = drop_bit 4 (v ! j)"
proof (induction v "4 :: nat" arbitrary: j rule: mm_srli_epi16.induct)
  case (1 lo hi v)
  let ?w = "drop_bit 4 (ucast lo OR push_bit 8 (ucast hi) :: 16 word)"
  have m: "(0x0F :: byte) = mask 4" by (simp add: mask_eq_exp_minus_1)
  have "ucast ?w AND 0x0F = drop_bit 4 lo" unfolding m
    by (rule bit_word_eqI) (auto simp: bit_simps dest: bit_imp_le_length)
  moreover have "ucast (drop_bit 8 ?w) AND 0x0F = drop_bit 4 hi" unfolding m
    by (rule bit_word_eqI) (auto simp: bit_simps dest: bit_imp_le_length)
  ultimately show ?case using 1
    by (auto simp: Let_def nth_Cons split: nat.split)
qed auto

section \<open>The block\<close>

lemma forbidden_block: "length v = 16 \<Longrightarrow> block_forbidden v \<longleftrightarrow> (\<exists>j < 16. forbidden (v ! j))"
proof -
  assume "length v = 16"
  then have "block_forbidden v \<longleftrightarrow> (\<exists>j < 16. v ! j AND 0xFE = 0xC0) \<or> (\<exists>j < 16. v ! j AND 0xF8 = 0xF8)
      \<or> (\<exists>j < 16. v ! j = 0xF5 \<or> v ! j AND 0xFE = 0xF6)"
    by (simp add: block_forbidden_def mask_zero or_lane)
  also have "\<dots> \<longleftrightarrow> (\<exists>j < 16. v ! j AND 0xFE = 0xC0 \<or> v ! j AND 0xF8 = 0xF8 \<or> v ! j = 0xF5 \<or> v ! j AND 0xFE = 0xF6)"
    by blast
  also have "\<dots> \<longleftrightarrow> (\<exists>j < 16. forbidden (v ! j))"
    by (intro ex_cong1 conj_cong refl) (simp only: lane_masks forbidden_def, auto simp: word_unat_eq_iff)
  finally show ?thesis .
qed

text \<open>A pair of bytes the comparisons find, whether or not the second is a continuation byte.\<close>

definition pair_bad :: "byte \<Rightarrow> byte \<Rightarrow> bool" where
  "pair_bad c b \<longleftrightarrow> unat c = 224 \<and> 128 \<le> unat b \<and> unat b < 160 \<or> unat c = 237 \<and> (unat b < 128 \<or> 160 \<le> unat b)
     \<or> unat c = 240 \<and> 128 \<le> unat b \<and> unat b < 144 \<or> unat c = 244 \<and> (unat b < 128 \<or> 144 \<le> unat b)"

lemma pair_bad_cont: "cont b \<Longrightarrow> pair_bad c b = bad_next c b"
  by (auto simp: pair_bad_def bad_next_nums cont_def)

lemma pair_bad_lead: "pair_bad c b \<Longrightarrow> 224 \<le> unat c"
  by (auto simp: pair_bad_def)

lemma pairs_block: "length v = 16 \<Longrightarrow> block_pairs_bad v \<longleftrightarrow> (\<exists>j < 15. pair_bad (v ! j) (v ! Suc j))"
proof -
  assume l: "length v = 16"
  have n: "length (mm_srli_si128 v 1) = 16" "j < 15 \<Longrightarrow> mm_srli_si128 v 1 ! j = v ! Suc j" for j
    using l by (simp_all add: mm_srli_si128_def nth_append)
  have z: "mm_movemask_epi8 (mm_cmpeq_epi8 v (mm_set1_epi8 b)) = 0 \<longleftrightarrow> (\<forall>j < 16. v ! j \<noteq> b)" for b
    using l by (simp add: mask_zero)
  have o: "a OR b OR c OR d \<noteq> 0 \<longleftrightarrow> a \<noteq> 0 \<or> b \<noteq> 0 \<or> c \<noteq> 0 \<or> d \<noteq> (0 :: 32 word)" for a b c d
    by (auto simp: word_zero_iff bit_or_iff)
  let ?p = "\<lambda>b c. \<exists>j < 15. c (v ! Suc j) \<and> v ! j = b"
  have "block_pairs_bad v \<longleftrightarrow> ?p 0xE0 (\<lambda>b. sint b < sint (0xA0 :: byte)) \<or> ?p 0xED (\<lambda>b. sint (0x9F :: byte) < sint b)
      \<or> ?p 0xF0 (\<lambda>b. sint b < sint (0x90 :: byte)) \<or> ?p 0xF4 (\<lambda>b. sint (0x8F :: byte) < sint b)"
    unfolding block_pairs_bad_def Let_def o z using l n by (auto simp: mask_and)
  also have "\<dots> \<longleftrightarrow> (\<exists>j < 15. pair_bad (v ! j) (v ! Suc j))"
    unfolding lane_compares pair_bad_def by (auto simp: word_unat_eq_iff)
  finally show ?thesis .
qed

lemma block_leads_bits:
  assumes "length v = 16" "block_leads v = (cm, lead2, lead3, lead4)"
  shows "bit cm j \<longleftrightarrow> j < 16 \<and> cont (v ! j)" "bit lead2 j \<longleftrightarrow> j < 16 \<and> 192 \<le> unat (v ! j)"
    "bit lead3 j \<longleftrightarrow> j < 16 \<and> 224 \<le> unat (v ! j)" "bit lead4 j \<longleftrightarrow> j < 16 \<and> 240 \<le> unat (v ! j)"
proof -
  have hi: "mm_srli_epi16 v 4 ! j AND 0x0F = drop_bit 4 (v ! j)" if "j < 16" for j
    using that assms(1) by (simp add: nth_srli)
  have c: "(b AND 0xC0 = 0x80) = cont b" for b using continuation_byte [of b] by (simp add: cont_def)
  have m: "bit (mm_movemask_epi8 v) j \<longleftrightarrow> j < 16 \<and> 128 \<le> unat (v ! j)"
    "bit (mm_movemask_epi8 (mm_cmpeq_epi8 (mm_and_si128 v (mm_set1_epi8 0xC0)) (mm_set1_epi8 0x80))) j
       \<longleftrightarrow> j < 16 \<and> cont (v ! j)"
    "bit (mm_movemask_epi8 (mm_cmpeq_epi8 (mm_and_si128 (mm_srli_epi16 v 4) (mm_set1_epi8 0x0F)) (mm_set1_epi8 0x0E))) j
       \<longleftrightarrow> j < 16 \<and> 224 \<le> unat (v ! j) \<and> unat (v ! j) < 240"
    "bit (mm_movemask_epi8 (mm_cmpgt_epi8 (mm_and_si128 (mm_srli_epi16 v 4) (mm_set1_epi8 0x0F)) (mm_set1_epi8 0x0E))) j
       \<longleftrightarrow> j < 16 \<and> 240 \<le> unat (v ! j)"
    using assms(1) by (auto simp: bit_movemask c hi nibble_compares [simplified]) (auto simp: bit_7)
  note d = assms(2) [unfolded block_leads_def Let_def, symmetric, simplified]
  show "bit cm j \<longleftrightarrow> j < 16 \<and> cont (v ! j)" using d m by simp
  show "bit lead2 j \<longleftrightarrow> j < 16 \<and> 192 \<le> unat (v ! j)"
    using d m by (auto simp: bit_or_iff bit_and_iff bit_not_iff cont_def)
  show "bit lead3 j \<longleftrightarrow> j < 16 \<and> 224 \<le> unat (v ! j)"
    using d m by (auto simp: bit_or_iff)
  show "bit lead4 j \<longleftrightarrow> j < 16 \<and> 240 \<le> unat (v ! j)" using d m by simp
qed

lemma simd_block_cases:
  fixes v :: m128
  assumes l: "length v = 16" and p: "\<And>j. bit pending j \<Longrightarrow> j < 3"
  defines "ok \<equiv> (\<forall>j < 16. \<not> forbidden (v ! j) \<and> cont (v ! j) = due (bit pending) v j)
    \<and> (\<forall>j < 15. \<not> pair_bad (v ! j) (v ! Suc j))"
  shows "simd_block v pending \<noteq> None \<longleftrightarrow> ok"
    and "simd_block v pending = Some pending' \<Longrightarrow> bit pending' j \<longleftrightarrow> due (bit pending) v (16 + j)"
proof -
  obtain cm lead2 lead3 lead4 where b: "block_leads v = (cm, lead2, lead3, lead4)" by (metis prod_cases4)
  note bits = block_leads_bits [OF l b]
  define ex :: "64 word" where "ex = push_bit 1 (ucast lead2) OR push_bit 2 (ucast lead3) OR push_bit 3 (ucast lead4)"
  define here :: "32 word" where "here = ucast (ex AND 0xFFFF) OR pending"
  have ex: "bit ex j \<longleftrightarrow> due no_lead v j" for j
    unfolding ex_def bit_or_iff bit_push_bit_iff bit_ucast_iff bits due_iff using l by auto
  have m: "(0xFFFF :: 64 word) = mask 16" "(0x7 :: 64 word) = mask 3" by (simp_all add: mask_eq_exp_minus_1)
  have due: "due (bit pending) v j \<longleftrightarrow> bit pending j \<or> due no_lead v j" for j by (auto simp: due_def)
  have here: "bit here j \<longleftrightarrow> j < 16 \<and> due (bit pending) v j" for j
    unfolding here_def m bit_or_iff bit_ucast_iff bit_and_iff bit_mask_iff ex due using p [of j] by auto
  have sb: "simd_block v pending = (if block_forbidden v then None else if block_pairs_bad v then None
      else if cm \<noteq> here then None else Some (ucast (drop_bit 16 ex AND 0x7)))"
    unfolding simd_block_def b Let_def prod.case ex_def here_def by (rule refl)
  have "cm = here \<longleftrightarrow> (\<forall>j < 16. cont (v ! j) = due (bit pending) v j)"
    unfolding word_bits_iff bits here by blast
  then show "simd_block v pending \<noteq> None \<longleftrightarrow> ok"
    unfolding sb forbidden_block [OF l] pairs_block [OF l] ok_def by auto
  assume "simd_block v pending = Some pending'"
  then have "pending' = ucast (drop_bit 16 ex AND 0x7)"
    unfolding sb by (simp split: if_splits)
  then have "bit pending' j \<longleftrightarrow> j < 3 \<and> due no_lead v (16 + j)"
    unfolding m by (auto simp: bit_ucast_iff bit_and_iff bit_mask_iff bit_drop_bit_eq ex)
  also have "\<dots> \<longleftrightarrow> due no_lead v (16 + j)" using l by (auto simp: due_iff)
  also have "\<dots> \<longleftrightarrow> due (bit pending) v (16 + j)" unfolding due using p [of "16 + j"] by auto
  finally show "bit pending' j \<longleftrightarrow> due (bit pending) v (16 + j)" .
qed

text \<open>A block and the byte before it fit exactly when the checks of the code pass.\<close>

lemma fits_block:
  assumes "length v = 16"
  shows "(\<forall>j < 16. fits e c v j) \<longleftrightarrow> \<not> bad_next c (v ! 0)
    \<and> (\<forall>j < 16. \<not> forbidden (v ! j) \<and> cont (v ! j) = due e v j)
    \<and> (\<forall>j < 15. \<not> pair_bad (v ! j) (v ! Suc j))"
proof -
  have "pair_bad (v ! j) (v ! Suc j) = bad_next (v ! j) (v ! Suc j)"
    if "j < 15" "\<forall>j < 16. cont (v ! j) = due e v j" for j
  proof -
    have "Suc j < 16" using that by simp
    show ?thesis
    proof (cases "224 \<le> unat (v ! j)")
      case True
      then have "due e v (Suc j)" using that assms by (simp add: due_iff)
      with that(2) \<open>Suc j < 16\<close> have "cont (v ! Suc j)" by blast
      then show ?thesis by (rule pair_bad_cont)
    next
      case False
      then show ?thesis by (auto simp: bad_next_nums dest: pair_bad_lead)
    qed
  qed
  moreover have "(\<forall>j < 16. \<not> bad_next (case j of 0 \<Rightarrow> c | Suc i \<Rightarrow> v ! i) (v ! j)) \<longleftrightarrow>
      \<not> bad_next c (v ! 0) \<and> (\<forall>j < 15. \<not> bad_next (v ! j) (v ! Suc j))"
    using All_less_Suc2 [of 15 "\<lambda>j. \<not> bad_next (case j of 0 \<Rightarrow> c | Suc i \<Rightarrow> v ! i) (v ! j)"] by simp
  then have "(\<forall>j < 16. fits e c v j) \<longleftrightarrow> (\<forall>j < 16. \<not> forbidden (v ! j) \<and> cont (v ! j) = due e v j)
      \<and> \<not> bad_next c (v ! 0) \<and> (\<forall>j < 15. \<not> bad_next (v ! j) (v ! Suc j))"
    unfolding fits_def by blast
  ultimately show ?thesis by blast
qed

section \<open>The loop\<close>

lemma due_append:
  "j \<le> length u \<Longrightarrow> due e (u @ v) j = due e u j"
  "due e (u @ v) (length u + m) = due (\<lambda>t. due e u (length u + t)) v m"
proof -
  show "j \<le> length u \<Longrightarrow> due e (u @ v) j = due e u j"
    by (auto simp: due_def nth_append)
  show "due e (u @ v) (length u + m) = due (\<lambda>t. due e u (length u + t)) v m"
    by (induction u arbitrary: e) (simp_all add: due_Cons)
qed

lemma fits_append:
  "j < length u \<Longrightarrow> fits e c (u @ v) j = fits e c u j"
  "fits e c (u @ v) (length u + m) = fits (\<lambda>t. due e u (length u + t)) (last (c # u)) v m"
proof -
  show "j < length u \<Longrightarrow> fits e c (u @ v) j = fits e c u j"
    by (auto simp: fits_def nth_append due_append(1) split: nat.split)
  show "fits e c (u @ v) (length u + m) = fits (\<lambda>t. due e u (length u + t)) (last (c # u)) v m"
  proof (induction u arbitrary: e c)
    case (Cons b u)
    then show ?case by (simp add: fits_Cons due_Cons)
  qed simp
qed

definition loop_inv :: "byte list \<Rightarrow> nat \<Rightarrow> 32 word \<Rightarrow> byte \<Rightarrow> bool" where
  "loop_inv p i pending pc \<longleftrightarrow> i \<le> length p \<and> (i = 0 \<or> 16 \<le> i)
     \<and> (\<forall>j < i. fits no_lead 0 (take i p) j)
     \<and> (\<forall>j. bit pending j = due no_lead (take i p) (i + j))
     \<and> (\<forall>b. bad_next pc b = bad_next (last (0 # take i p)) b)"

lemma loop_inv_bits: "loop_inv p i pending pc \<Longrightarrow> bit pending j \<Longrightarrow> j < 3"
  by (auto simp: loop_inv_def due_iff)

lemma crit_next: "bad_next (crit_of b) x = bad_next b x" "\<not> bad_next 0 x"
  by (simp_all add: crit_of_def bad_next_def)

text \<open>One block: what the scanner says of it, and the invariant behind it.\<close>

lemma loop_block:
  assumes inv: "loop_inv p i pending pc" and i: "i + 16 \<le> length p"
  defines "v \<equiv> mm_loadu_si128 p i"
  shows "length v = 16" "v ! 0 = p ! i" "v ! 15 = p ! (i + 15)"
    "scan no_lead 0 p \<Longrightarrow> \<not> bad_next pc (v ! 0) \<and> (\<forall>j < 16. \<not> forbidden (v ! j) \<and> cont (v ! j) = due (bit pending) v j)
       \<and> (\<forall>j < 15. \<not> pair_bad (v ! j) (v ! Suc j))"
    "\<not> bad_next pc (v ! 0) \<Longrightarrow> \<forall>j < 16. \<not> forbidden (v ! j) \<and> cont (v ! j) = due (bit pending) v j \<Longrightarrow>
     \<forall>j < 15. \<not> pair_bad (v ! j) (v ! Suc j) \<Longrightarrow> \<forall>j. bit pending' j = due (bit pending) v (16 + j) \<Longrightarrow>
     \<forall>b. bad_next pc' b = bad_next (v ! 15) b \<Longrightarrow> loop_inv p (i + 16) pending' pc'"
proof -
  have u: "length (take i p) = i" using i by simp
  show l: "length v = 16" "v ! 0 = p ! i" and v15: "v ! 15 = p ! (i + 15)"
    using i by (simp_all add: v_def mm_loadu_si128_def)
  have split: "take (i + 16) p = take i p @ v" using i by (simp add: v_def mm_loadu_si128_def take_add)
  have e: "(\<lambda>t. due no_lead (take i p) (i + t)) = bit pending"
    using inv by (simp add: loop_inv_def fun_eq_iff)
  have old: "\<forall>j < i. fits no_lead 0 (take i p) j" "bad_next pc b = bad_next (last (0 # take i p)) b" for b
    using inv by (simp_all add: loop_inv_def)
  note blk = fits_block [OF l(1), of "bit pending" "last (0 # take i p)", folded old(2)]
  have "p = take i p @ v @ drop (i + 16) p"
    by (metis append.assoc append_take_drop_id split)
  then have "scan no_lead 0 p = scan no_lead 0 (take i p @ v @ drop (i + 16) p)" by simp
  also have "\<dots> \<longleftrightarrow> (\<forall>j < i. fits no_lead 0 (take i p) j)
      \<and> (\<forall>j < 16. fits (bit pending) (last (0 # take i p)) v j)
      \<and> scan (\<lambda>j. due (bit pending) v (16 + j)) (last (last (0 # take i p) # v)) (drop (i + 16) p)"
    unfolding scan_append u e l(1) by (simp only:)
  finally show "scan no_lead 0 p \<Longrightarrow> \<not> bad_next pc (v ! 0)
      \<and> (\<forall>j < 16. \<not> forbidden (v ! j) \<and> cont (v ! j) = due (bit pending) v j)
      \<and> (\<forall>j < 15. \<not> pair_bad (v ! j) (v ! Suc j))"
    unfolding blk by blast
  assume a: "\<not> bad_next pc (v ! 0)" "\<forall>j < 16. \<not> forbidden (v ! j) \<and> cont (v ! j) = due (bit pending) v j"
    "\<forall>j < 15. \<not> pair_bad (v ! j) (v ! Suc j)" "\<forall>j. bit pending' j = due (bit pending) v (16 + j)"
    "\<forall>b. bad_next pc' b = bad_next (v ! 15) b"
  then have new: "\<forall>j < 16. fits (bit pending) (last (0 # take i p)) v j" unfolding blk by blast
  have "fits no_lead 0 (take i p @ v) j" if "j < i + 16" for j
  proof (cases "j < i")
    case True
    then show ?thesis using old(1) fits_append(1) [of j "take i p"] u by simp
  next
    case False
    define m where "m = j - i"
    with that False have m: "j = i + m" "m < 16" by simp_all
    then show ?thesis using new fits_append(2) [of no_lead 0 "take i p" v m] unfolding u e by simp
  qed
  moreover have "due no_lead (take i p @ v) (i + 16 + j) = due (bit pending) v (16 + j)" for j
    using due_append(2) [of no_lead "take i p" v "16 + j"] unfolding u e by (simp add: add.assoc)
  moreover have "last (0 # take i p @ v) = v ! 15"
  proof -
    have "v \<noteq> []" using l(1) by auto
    then have "last (0 # take i p @ v) = last v" by simp
    then show ?thesis using l(1) last_conv_nth [OF \<open>v \<noteq> []\<close>] by simp
  qed
  ultimately show "loop_inv p (i + 16) pending' pc'"
    using a(4,5) i unfolding loop_inv_def split by simp
qed

lemma simd_loop_ok:
  "loop_inv p i pending pc \<Longrightarrow>
   (case simd_loop p i pending pc of
      None \<Rightarrow> \<not> scan no_lead 0 p
    | Some k \<Rightarrow> k \<le> length p \<and> (k = 0 \<or> 16 \<le> k) \<and> (\<forall>j < k. fits no_lead 0 (take k p) j))"
proof (induction p i pending pc rule: simd_loop.induct)
  case (1 p i pending pc)
  show ?case
  proof (cases "i + 16 \<le> length p")
    case False
    then show ?thesis using 1(3) by (simp add: simd_loop.simps [of p i] loop_inv_def)
  next
    case i: True
    let ?v = "mm_loadu_si128 p i"
    note blk = loop_block [OF 1(3) i]
    note bits = simd_block_cases [OF blk(1) loop_inv_bits [OF 1(3)]]
    show ?thesis
    proof (cases "pc \<noteq> 0 \<and> bad_next pc (p ! i)")
      case True
      then show ?thesis using blk(2,4) i by (auto simp: simd_loop.simps [of p i] Let_def)
    next
      case False
      then have nb: "\<not> bad_next pc (?v ! 0)" using crit_next(2) blk(2) by auto
      show ?thesis
      proof (cases "mm_movemask_epi8 ?v = 0")
        case True
        then have ascii: "unat (?v ! j) < 128" if "j < 16" for j
          using that blk(1) by (simp add: mask_zero bit_7 not_le)
        have d: "due (bit pending) ?v j = bit pending j" for j
        proof -
          have "\<not> lead (?v ! i) t" if "i < 16" for i t using ascii [OF that] by (simp add: lead_fun(1))
          then show ?thesis using blk(1) by (auto simp: due_def)
        qed
        show ?thesis
        proof (cases "pending = 0")
          case True
          have "loop_inv p (i + 16) 0 0"
          proof (rule blk(5) [OF nb])
            show "\<forall>j < 16. \<not> forbidden (?v ! j) \<and> cont (?v ! j) = due (bit pending) ?v j"
              using ascii d True by (force simp: forbidden_def cont_def)
            show "\<forall>j < 15. \<not> pair_bad (?v ! j) (?v ! Suc j)"
            proof (intro allI impI notI)
              fix j :: nat assume "j < 15" "pair_bad (?v ! j) (?v ! Suc j)"
              then show False using ascii [of j] pair_bad_lead by fastforce
            qed
            show "\<forall>j. bit (0 :: 32 word) j = due (bit pending) ?v (16 + j)" using d True by simp
            show "\<forall>b. bad_next 0 b = bad_next (?v ! 15) b" using ascii [of 15] by (auto simp: bad_next_nums)
          qed
          then show ?thesis using 1(1) i False \<open>mm_movemask_epi8 ?v = 0\<close> True
            by (auto simp: simd_loop.simps [of p i] Let_def)
        next
          case n: False
          then obtain j where "bit pending j" by (auto simp: word_zero_iff)
          moreover from this have "j < 16" using loop_inv_bits [OF 1(3)] by fastforce
          ultimately have "\<not> scan no_lead 0 p" using blk(4) ascii [of j] d [of j]
            by (auto simp: cont_def dest!: spec [of _ j])
          then show ?thesis using i False True n by (simp add: simd_loop.simps [of p i] Let_def)
        qed
      next
        case m: False
        show ?thesis
        proof (cases "simd_block ?v pending")
          case None
          then have "\<not> scan no_lead 0 p" using bits(1) blk(4) by blast
          then show ?thesis using i False m None by (simp add: simd_loop.simps [of p i] Let_def)
        next
          case (Some pending')
          have "loop_inv p (i + 16) pending' (crit_of (p ! (i + 15)))"
            using bits(1,2) Some blk(3) nb crit_next(1) by (intro blk(5)) auto
          then show ?thesis using 1(2) i False m Some
            by (auto simp: simd_loop.simps [of p i] Let_def)
        qed
      qed
    qed
  qed
qed

section \<open>The tail\<close>

lemma skip_cont_ok:
  "k \<le> i \<Longrightarrow> k \<le> skip_cont p k i \<and> skip_cont p k i \<le> i
   \<and> (\<forall>t. k \<le> t \<longrightarrow> t < skip_cont p k i \<longrightarrow> cont (p ! t))
   \<and> (skip_cont p k i < i \<longrightarrow> \<not> cont (p ! skip_cont p k i))"
proof (induction p k i rule: skip_cont.induct)
  case (1 p k i)
  have c: "p ! k AND 0xC0 = 0x80 \<longleftrightarrow> cont (p ! k)" using continuation_byte [of "p ! k"] by (simp add: cont_def)
  show ?case
  proof (cases "k < i \<and> cont (p ! k)")
    case True
    have "skip_cont p k i = skip_cont p (k + 1) i" using True by (simp add: skip_cont.simps [of p k] c)
    moreover have "k + 1 \<le> i" using True by simp
    moreover note 1(1) [OF _ this] True c
    ultimately show ?thesis by (metis Suc_eq_plus1 Suc_leI le_SucI le_Suc_eq le_eq_less_or_eq order.trans)
  next
    case False
    then have "skip_cont p k i = k" by (auto simp: skip_cont.simps [of p k] c)
    then show ?thesis using 1(2) False by auto
  qed
qed

text \<open>The tail may start at \<open>k\<close>: no sequence that starts before \<open>k\<close> goes beyond it.\<close>

lemma no_lead_across:
  assumes fit: "\<forall>j < i. fits no_lead 0 (take i p) j" and i: "i \<le> length p" "i = 0 \<or> 16 \<le> i"
    and k: "k = skip_cont p (if 3 \<le> i then i - 3 else 0) i"
  shows "k \<le> i" "m < k \<Longrightarrow> k \<le> t \<Longrightarrow> \<not> lead (p ! m) (t - 1 - m)"
proof -
  let ?s = "if 3 \<le> i then i - 3 else 0"
  have s: "?s \<le> i" by simp
  note sk = skip_cont_ok [OF s, of p, folded k]
  show ki: "k \<le> i" using sk by blast
  assume m: "m < k" "k \<le> t"
  show "\<not> lead (p ! m) (t - 1 - m)"
  proof
    assume l: "lead (p ! m) (t - 1 - m)"
    show False
    proof (cases "k < i")
      case True
      have "lead (take i p ! m) (k - 1 - m)" using l m ki by (auto elim: lead_mono)
      then have "due no_lead (take i p) k" using m ki i unfolding due_def
        by (intro disjI2 exI [of _ m]) auto
      moreover have "cont (p ! k) = due no_lead (take i p) k" using fit True by (simp add: fits_def)
      ultimately show False using sk True by blast
    next
      case False
      then have "k = i" using ki by simp
      then have "?s \<le> m" using lead_bound [OF l] m i by auto
      then have "cont (p ! m)" using sk m by blast
      then show False using lead_not_cont [OF l] by blast
    qed
  qed
qed

lemma simd_tail:
  assumes fit: "\<forall>j < i. fits no_lead 0 (take i p) j" and i: "i \<le> length p" "i = 0 \<or> 16 \<le> i"
  defines "k \<equiv> skip_cont p (if 3 \<le> i then i - 3 else 0) i"
  shows "ref_utf8 (drop k p) = scan no_lead 0 p"
proof -
  have kd: "k = skip_cont p (if 3 \<le> i then i - 3 else 0) i" by (simp add: k_def)
  note ki = no_lead_across(1) [OF fit i kd]
  have u: "length (take k p) = k" using ki i by simp
  have p: "p = take k p @ drop k p" by simp
  have "\<forall>j < k. fits no_lead 0 (take k p) j"
  proof (intro allI impI)
    fix j assume "j < k"
    moreover have "take i p = take k p @ drop k (take i p)" using ki by (metis append_take_drop_id min.absorb1 take_take)
    ultimately show "fits no_lead 0 (take k p) j" using fit fits_append(1) [of j "take k p"] u ki by (metis order.strict_trans2)
  qed
  moreover have "due no_lead (take k p) (k + j) = False" for j
    using no_lead_across(2) [OF fit i kd] u by (auto simp: due_def)
  ultimately have "scan no_lead 0 (take k p @ drop k p) = scan no_lead (last (0 # take k p)) (drop k p)"
    unfolding scan_append u by (simp only:) simp
  then have "scan no_lead 0 p = ref_utf8 (drop k p)" unfolding scan_ref p [symmetric] .
  then show ?thesis ..
qed

lemma simd_eq_scalar: "is_valid_utf8_simd data n = is_valid_utf8 data n"
proof -
  have simd: "(case simd_loop q 0 0 0 of None \<Rightarrow> False
      | Some i \<Rightarrow> ref_utf8 (drop (skip_cont q (if 3 \<le> i then i - 3 else 0) i) q)) = ref_utf8 q" for q
  proof -
    have "loop_inv q 0 0 0" by (simp add: loop_inv_def)
    note ok = simd_loop_ok [OF this]
    show ?thesis
    proof (cases "simd_loop q 0 0 0")
      case None
      then show ?thesis using ok scan_ref [of 0 q] by simp
    next
      case (Some i)
      with ok have "\<forall>j < i. fits no_lead 0 (take i q) j" "i \<le> length q" "i = 0 \<or> 16 \<le> i" by simp_all
      from simd_tail [OF this] show ?thesis unfolding Some option.case scan_ref .
    qed
  qed
  have v: "utf8_loop 0 0 q = ref_utf8 q" for q
    using is_valid_utf8_ref [of q] .
  show ?thesis
    unfolding is_valid_utf8_simd_def is_valid_utf8_def Let_def simd v by (auto split: option.split)
qed

text \<open>
  C8: The validator that takes blocks of 16 bytes accepts exactly the buffers the scalar one accepts,
  for buffers of every length and sequences that cross the borders of blocks.
\<close>

theorem is_valid_utf8_simd_eq: "is_valid_utf8_simd data n = is_valid_utf8 data n"
  by (rule simd_eq_scalar)

end
