(* ===== verification/Guards.thy ===== *)
theory Guards
  imports Utf8_Simd Nick_Similarity Entities
begin

text \<open>
  The checks of \<^verbatim>\<open>refsapi.cpp\<close> a client passes: the hooks that let no invalid user info through, and
  the search for a player whose nickname is imitated.
\<close>

section \<open>User info\<close>

text \<open>A C string: \<open>None\<close> is a null pointer, otherwise the memory from its first byte on.\<close>

type_synonym c_string = "byte list option"

definition strlen :: "byte list \<Rightarrow> nat" where
  "strlen p = length (takeWhile (\<lambda>b. b \<noteq> 0) p)"

definition valid_utf8_str :: "c_string \<Rightarrow> bool" where
  "valid_utf8_str s = (case s of None \<Rightarrow> False | Some p \<Rightarrow> is_valid_utf8 (Some p) (strlen p))"

definition valid_utf8_simd_str :: "c_string \<Rightarrow> bool" where
  "valid_utf8_simd_str s = (case s of None \<Rightarrow> False | Some p \<Rightarrow> is_valid_utf8_simd (Some p) (strlen p))"

text \<open>
  \<open>sse4_built\<close> tells whether the module is built with SSE4.2, \<open>g_SSE4_ENABLE\<close> whether the processor
  has it; \<open>next\<close> is what the engine answers.
\<close>

definition RF_CheckUserInfo :: "bool \<Rightarrow> bool \<Rightarrow> (c_string \<Rightarrow> bool) \<Rightarrow> c_string \<Rightarrow> bool" where
  "RF_CheckUserInfo sse4_built g_SSE4_ENABLE nxt userinfo =
     (if sse4_built
      then if \<not> (if g_SSE4_ENABLE then valid_utf8_simd_str userinfo else valid_utf8_str userinfo)
           then False else nxt userinfo
      else if \<not> valid_utf8_str userinfo then False else nxt userinfo)"

datatype ui_action = UI_next "int option" c_string | UI_drop int | UI_none

definition ClientUserInfoChanged ::
  "bool \<Rightarrow> bool \<Rightarrow> (int \<Rightarrow> bool) \<Rightarrow> int option \<Rightarrow> c_string \<Rightarrow> ui_action" where
  "ClientUserInfoChanged sse4_built g_SSE4_ENABLE is_connected pPlayer userinfo =
     (if (if sse4_built then (if g_SSE4_ENABLE then valid_utf8_simd_str userinfo else valid_utf8_str userinfo)
          else valid_utf8_str userinfo)
      then UI_next pPlayer userinfo
      else (case pPlayer of
              None \<Rightarrow> UI_none
            | Some i \<Rightarrow> if is_connected i then UI_drop i else UI_none))"

text \<open>The text behind the pointer.\<close>

definition text_of :: "byte list \<Rightarrow> byte list" where
  "text_of p = takeWhile (\<lambda>b. b \<noteq> 0) p"

lemma take_strlen: "take (strlen p) p = text_of p"
  by (simp add: strlen_def text_of_def takeWhile_eq_take [symmetric])

lemma valid_strs:
  "valid_utf8_str s = (case s of None \<Rightarrow> False | Some p \<Rightarrow> ref_utf8 (text_of p))"
  "valid_utf8_simd_str s = valid_utf8_str s"
proof -
  have u: "is_valid_utf8 (Some p) (strlen p) = ref_utf8 (text_of p)" for p
    by (simp add: is_valid_utf8_def is_valid_utf8_ref take_strlen)
  show "valid_utf8_str s = (case s of None \<Rightarrow> False | Some p \<Rightarrow> ref_utf8 (text_of p))"
    by (simp add: valid_utf8_str_def u split: option.split)
  show "valid_utf8_simd_str s = valid_utf8_str s"
    by (simp add: valid_utf8_str_def valid_utf8_simd_str_def simd_eq_scalar split: option.split)
qed

text \<open>
  C16: Whatever the build and the processor, the engine sees the user info of a client exactly when it
  is well-formed UTF-8 up to its NUL, at the connection and at every change; a connected client with
  another text is dropped.
\<close>

theorem userinfo_guarded:
  "RF_CheckUserInfo built enabled nxt s
     = (case s of None \<Rightarrow> False | Some p \<Rightarrow> ref_utf8 (text_of p) \<and> nxt s)
   \<and> ClientUserInfoChanged built enabled is_connected pl s
     = (if (case s of None \<Rightarrow> False | Some p \<Rightarrow> ref_utf8 (text_of p)) then UI_next pl s
        else (case pl of None \<Rightarrow> UI_none | Some i \<Rightarrow> if is_connected i then UI_drop i else UI_none))"
  by (simp add: RF_CheckUserInfo_def ClientUserInfoChanged_def valid_strs split: option.split)

section \<open>Imitated nicknames\<close>

text \<open>
  \<^verbatim>\<open>check_nick_imitation\<close>: the search runs from the last client down; the threshold of substrings and
  the weights are parameters the code does not pass on, so that the defaults are used.
\<close>

definition default_score :: "(wstring \<Rightarrow> wstring) \<Rightarrow> wstring \<Rightarrow> wstring \<Rightarrow> ngram_cache \<Rightarrow> rat \<times> ngram_cache" where
  "default_score nrm = similarity_score nrm (7 / 10) (6 / 10) (3 / 10) (1 / 10)"

fun imitation_loop ::
  "(wstring \<Rightarrow> wstring) \<Rightarrow> (nat \<Rightarrow> bool) \<Rightarrow> (nat \<Rightarrow> wstring) \<Rightarrow> rat \<Rightarrow> nat \<Rightarrow> wstring \<Rightarrow> nat \<Rightarrow> ngram_cache \<Rightarrow>
   nat \<times> ngram_cache" where
  "imitation_loop nrm is_connected get_name threshold i name 0 cache = (0, cache)"
| "imitation_loop nrm is_connected get_name threshold i name (Suc k) cache =
     (if Suc k = i \<or> \<not> is_connected (Suc k)
      then imitation_loop nrm is_connected get_name threshold i name k cache
      else let (score, cache') = default_score nrm name (get_name (Suc k)) cache
           in if threshold \<le> score then (Suc k, cache')
              else imitation_loop nrm is_connected get_name threshold i name k cache')"

definition check_nick_imitation ::
  "(wstring \<Rightarrow> wstring) \<Rightarrow> nat \<Rightarrow> (nat \<Rightarrow> bool) \<Rightarrow> (nat \<Rightarrow> wstring) \<Rightarrow> nat \<Rightarrow> rat \<Rightarrow> rat \<Rightarrow> rat \<Rightarrow> rat \<Rightarrow> rat \<Rightarrow>
   ngram_cache \<Rightarrow> nat \<times> ngram_cache" where
  "check_nick_imitation nrm max_clients is_connected get_name i threshold lcs_threshold k_lev k_tan k_lcs cache =
     (if is_valid_index (int max_clients) (int i)
      then imitation_loop nrm is_connected get_name threshold i (get_name i) max_clients cache
      else (0, cache))"

text \<open>The score without a cache.\<close>

definition pure_score :: "(wstring \<Rightarrow> wstring) \<Rightarrow> wstring \<Rightarrow> wstring \<Rightarrow> rat" where
  "pure_score nrm a b = fst (default_score nrm a b Map.empty)"

lemma score_cache:
  assumes "cache_ok cache"
  shows "fst (similarity_score nrm t k1 k2 k3 a b cache) = fst (similarity_score nrm t k1 k2 k3 a b Map.empty)"
    and "cache_ok (snd (similarity_score nrm t k1 k2 k3 a b cache))"
proof -
  have e: "cache_ok Map.empty" by (simp add: cache_ok_def)
  let ?s = "\<lambda>c. similarity_score nrm t k1 k2 k3 a b c"
  have *: "\<exists>c1 c2. get_cached_ngrams (nrm a) 2 c = (ngrams (nrm a) 2, c1)
      \<and> get_cached_ngrams (nrm b) 2 c1 = (ngrams (nrm b) 2, c2) \<and> cache_ok c2" if "cache_ok c" for c
  proof -
    obtain g1 c1 where 1: "get_cached_ngrams (nrm a) 2 c = (g1, c1)" by force
    obtain g2 c2 where 2: "get_cached_ngrams (nrm b) 2 c1 = (g2, c2)" by force
    note ok1 = get_cached_ngrams_ok [OF that 1]
    note ok2 = get_cached_ngrams_ok [OF conjunct2 [OF ok1] 2]
    from 1 2 ok1 ok2 show ?thesis by blast
  qed
  obtain c1 c2 where 1: "get_cached_ngrams (nrm a) 2 cache = (ngrams (nrm a) 2, c1)"
    "get_cached_ngrams (nrm b) 2 c1 = (ngrams (nrm b) 2, c2)" "cache_ok c2"
    using * [OF assms] by blast
  obtain d1 d2 where 2: "get_cached_ngrams (nrm a) 2 Map.empty = (ngrams (nrm a) 2, d1)"
    "get_cached_ngrams (nrm b) 2 d1 = (ngrams (nrm b) 2, d2)"
    using * [OF e] by blast
  show "fst (?s cache) = fst (?s Map.empty)" unfolding similarity_score_def Let_def 1 2 prod.case by simp
  show "cache_ok (snd (?s cache))" unfolding similarity_score_def Let_def 1 2 prod.case by (simp add: 1(3) assms)
qed

lemma imitation_loop_spec:
  "cache_ok cache \<Longrightarrow>
   imitation_loop nrm conn get_name threshold i name k cache = (r, cache') \<Longrightarrow>
   cache_ok cache' \<and> r \<le> k
   \<and> (r \<noteq> 0 \<longrightarrow> r \<noteq> i \<and> conn r \<and> threshold \<le> pure_score nrm name (get_name r))
   \<and> (\<forall>j. r < j \<longrightarrow> j \<le> k \<longrightarrow> j \<noteq> i \<longrightarrow> conn j \<longrightarrow> \<not> threshold \<le> pure_score nrm name (get_name j))"
proof (induction k arbitrary: cache)
  case (Suc k)
  note sc = score_cache [OF Suc(2), of nrm "7 / 10" "6 / 10" "3 / 10" "1 / 10" name "get_name (Suc k)",
      folded default_score_def]
  show ?case
  proof (cases "Suc k = i \<or> \<not> conn (Suc k)")
    case True
    then have "imitation_loop nrm conn get_name threshold i name k cache = (r, cache')" using Suc(3) by auto
    from Suc(1) [OF Suc(2) this] show ?thesis using True by (auto simp: le_Suc_eq)
  next
    case False
    obtain s c where d: "default_score nrm name (get_name (Suc k)) cache = (s, c)" by force
    then have s: "s = pure_score nrm name (get_name (Suc k))" "cache_ok c" using sc by (simp_all add: pure_score_def)
    show ?thesis
    proof (cases "threshold \<le> s")
      case True
      then show ?thesis using False Suc(3) d s by auto
    next
      case n: False
      then have "imitation_loop nrm conn get_name threshold i name k c = (r, cache')" using Suc(3) False d by auto
      from Suc(1) [OF s(2) this] show ?thesis using n s(1) by (auto simp: le_Suc_eq)
    qed
  qed
qed auto

text \<open>
  C40: The search names the last connected client other than the given one whose nickname reaches the
  threshold, zero when there is none; the cache of bigrams does not influence it and stays right.
\<close>

theorem check_nick_imitation_spec:
  assumes "cache_ok cache" "1 \<le> i" "i \<le> max_clients"
    and "check_nick_imitation nrm max_clients conn get_name i threshold l k1 k2 k3 cache = (r, cache')"
  defines "imitates j \<equiv> j \<noteq> i \<and> conn j \<and> threshold \<le> pure_score nrm (get_name i) (get_name j)"
  shows "cache_ok cache' \<and> (r = 0 \<or> 1 \<le> r \<and> r \<le> max_clients \<and> imitates r)
    \<and> (\<forall>j. r < j \<longrightarrow> j \<le> max_clients \<longrightarrow> \<not> imitates j)"
proof -
  have "imitation_loop nrm conn get_name threshold i (get_name i) max_clients cache = (r, cache')"
    using assms(2-4) by (simp add: check_nick_imitation_def is_valid_index_def)
  from imitation_loop_spec [OF assms(1) this] show ?thesis unfolding imitates_def by auto
qed

theorem check_nick_imitation_spec_witness:
  "\<exists>r c. check_nick_imitation id 2 (\<lambda>_. True) (\<lambda>i. if i = 1 then wide ''player'' else wide ''other'') 1
      (9 / 10) 0 0 0 0 Map.empty = (r, c) \<and> cache_ok c"
proof -
  have e: "cache_ok Map.empty" by (simp add: cache_ok_def)
  obtain r c where *: "check_nick_imitation id 2 (\<lambda>_. True) (\<lambda>i. if i = 1 then wide ''player'' else wide ''other'') 1
      (9 / 10) 0 0 0 0 Map.empty = (r, c)" by force
  from check_nick_imitation_spec [OF e _ _ *] have "cache_ok c" by simp
  with * show ?thesis by blast
qed

end
