(* ===== verification/Info_String.thy ===== *)
theory Info_String
  imports Prelude "HOL-Library.Sublist"
begin

text \<open>
  The info strings of \<^verbatim>\<open>info.cpp\<close>: \<^verbatim>\<open>\key\value\key\value\<close>, edited in place.  A C string is the list of
  its characters without the NUL.  Keys and values are copied into arrays of \<^verbatim>\<open>MAX_KV_LEN\<close> bytes; the NUL
  that ends such a copy is written without a test, and an array that is full by then is overrun.
\<close>

section \<open>Copying a part\<close>

datatype info_error = UB_part_overflow

definition MAX_INFO_STRING :: nat where
  "MAX_INFO_STRING = 256"

definition MAX_KV_LEN :: nat where
  "MAX_KV_LEN = 127"

definition INFO_MAX_BUFFER_VALUES :: nat where
  "INFO_MAX_BUFFER_VALUES = 4"

abbreviation backslash :: char where
  "backslash \<equiv> CHR 0x5C"

text \<open>
  The loops that copy a key or a value: up to the next backslash or the end, leaving out what does not
  fit.  The first result is what was copied, the second what is left of the string.
\<close>

fun copy_part :: "nat \<Rightarrow> string \<Rightarrow> string \<times> string" where
  "copy_part nCount [] = ([], [])"
| "copy_part nCount (x # s) =
     (if x = backslash then ([], x # s)
      else if MAX_KV_LEN \<le> nCount then copy_part nCount s
      else case copy_part (Suc nCount) s of (c, r) \<Rightarrow> (x # c, r))"

text \<open>\<^verbatim>\<open>*c = 0\<close>\<close>

definition close_part :: "string \<Rightarrow> info_error + string" where
  "close_part p = (if length p < MAX_KV_LEN then Inr p else Inl UB_part_overflow)"

definition skip_slash :: "string \<Rightarrow> string" where
  "skip_slash s = (if s \<noteq> [] \<and> hd s = backslash then tl s else s)"

text \<open>One pair: the key, whether a backslash follows it, the value, and what is left.\<close>

lemma copy_part_le: "length (snd (copy_part n s)) \<le> length s"
  by (induction n s rule: copy_part.induct) (auto split: prod.split)

lemma copy_part_less: "s \<noteq> [] \<Longrightarrow> hd s \<noteq> backslash \<Longrightarrow> length (snd (copy_part n s)) < length s"
  using copy_part_le [of n "tl s"] copy_part_le [of "Suc n" "tl s"]
  by (cases s) (auto split: prod.split simp: less_Suc_eq_le)

lemma pair_shorter:
  assumes "s \<noteq> []" "copy_part 0 (skip_slash s) = (k, r)" "copy_part 0 (tl r) = (v, r2)"
  shows "length r2 < length s"
proof -
  have a: "length r2 \<le> length (tl r)" "length r \<le> length (skip_slash s)"
    using copy_part_le [of 0 "tl r"] copy_part_le [of 0 "skip_slash s"] assms(2,3) by simp_all
  show ?thesis
  proof (cases "hd s = backslash")
    case True
    then have "length (skip_slash s) < length s"
      using assms(1) by (simp add: skip_slash_def)
    with a show ?thesis by simp
  next
    case False
    then have "skip_slash s = s"
      by (simp add: skip_slash_def)
    with copy_part_less [OF assms(1) False, of 0] a assms(2) show ?thesis by simp
  qed
qed

declare bind_r_cong [fundef_cong]

section \<open>Looking up a key\<close>

text \<open>The values are handed out in four static arrays, in turn.\<close>

record info_bufs =
  kv_values :: "string list"
  valueindex :: nat

function value_loop :: "string \<Rightarrow> string \<Rightarrow> info_bufs \<Rightarrow> info_error + nat option \<times> info_bufs" where
  "value_loop key s b =
     (if s = [] then Inr (None, b)
      else case copy_part 0 (skip_slash s) of (k, r) \<Rightarrow>
        if r = [] then Inr (None, b)
        else bind_r (close_part k) (\<lambda>pkey.
          case copy_part 0 (tl r) of (v, r2) \<Rightarrow>
            bind_r (close_part v) (\<lambda>val.
              let b1 = b\<lparr>kv_values := (kv_values b)[valueindex b := val]\<rparr> in
              if key = pkey
              then Inr (Some (valueindex b), b1\<lparr>valueindex := (valueindex b + 1) mod INFO_MAX_BUFFER_VALUES\<rparr>)
              else value_loop key r2 b1)))"
  by pat_completeness auto
termination
  by (relation "measure (\<lambda>(key, s, b). length s)") (auto intro: pair_shorter [OF _ sym sym])

definition Info_ValueForKey :: "string \<Rightarrow> string \<Rightarrow> info_bufs \<Rightarrow> info_error + nat option \<times> info_bufs" where
  "Info_ValueForKey s key b = value_loop key s b"

text \<open>The text a result points to: one of the arrays, or the empty literal.\<close>

definition pointed :: "info_bufs \<Rightarrow> nat option \<Rightarrow> string" where
  "pointed b p = (case p of None \<Rightarrow> [] | Some i \<Rightarrow> kv_values b ! i)"

definition bufs_ok :: "info_bufs \<Rightarrow> bool" where
  "bufs_ok b \<longleftrightarrow> length (kv_values b) = INFO_MAX_BUFFER_VALUES \<and> valueindex b < INFO_MAX_BUFFER_VALUES"

section \<open>Removing a key\<close>

text \<open>
  \<open>pat\<close> is what \<^verbatim>\<open>strncmp\<close> compares: the first \<^verbatim>\<open>cmpsize\<close> characters of the key.
\<close>

function remove_loop :: "string \<Rightarrow> string \<Rightarrow> info_error + string" where
  "remove_loop pat s =
     (if s = [] then Inr []
      else case copy_part 0 (skip_slash s) of (k, r) \<Rightarrow>
        bind_r (close_part k) (\<lambda>pkey.
          case copy_part 0 (tl r) of (v, r2) \<Rightarrow>
            bind_r (close_part v) (\<lambda>_.
              bind_r (remove_loop pat r2) (\<lambda>t.
                Inr (if take (length pat) pkey = pat then t else take (length s - length r2) s @ t)))))"
  by pat_completeness auto
termination
  by (relation "measure (\<lambda>(pat, s). length s)") (auto intro: pair_shorter [OF _ sym sym])

definition Info_RemoveKey :: "string \<Rightarrow> string \<Rightarrow> info_error + string" where
  "Info_RemoveKey s key = (if backslash \<in> set key then Inr s else remove_loop (take (MAX_KV_LEN - 1) key) s)"

section \<open>The largest key\<close>

definition Info_IsKeyImportant :: "string \<Rightarrow> bool" where
  "Info_IsKeyImportant key =
     (key \<noteq> [] \<and> hd key = CHR ''*'' \<or> key = ''name'' \<or> key = ''model'' \<or> key = ''rate'' \<or> key = ''topcolor''
      \<or> key = ''bottomcolor'' \<or> key = ''cl_updaterate'' \<or> key = ''cl_lw'' \<or> key = ''cl_lc'')"

text \<open>
  A key without a value ends the search.  So do parts that are too long, but on the way out their NUL is
  written behind the array.
\<close>

function largest_loop :: "string \<Rightarrow> string \<Rightarrow> nat \<Rightarrow> info_error + string" where
  "largest_loop s largest_key largest_size =
     (if s = [] then Inr largest_key
      else case copy_part 0 (skip_slash s) of (k, r) \<Rightarrow>
        bind_r (close_part k) (\<lambda>key.
          if r = [] then Inr key
          else case copy_part 0 (tl r) of (v, r2) \<Rightarrow>
            bind_r (close_part v) (\<lambda>val.
              let sz = length key + length val in
              if largest_size < sz \<and> \<not> Info_IsKeyImportant key then largest_loop r2 key sz
              else largest_loop r2 largest_key largest_size)))"
  by pat_completeness auto
termination
  by (relation "measure (\<lambda>(s, largest_key, largest_size). length s)") (auto intro: pair_shorter [OF _ sym sym])

definition Info_FindLargestKey :: "string \<Rightarrow> info_error + string" where
  "Info_FindLargestKey s = largest_loop s [] 0"

declare value_loop.simps [simp del] remove_loop.simps [simp del] largest_loop.simps [simp del]

section \<open>Setting a key\<close>

fun has_dots :: "string \<Rightarrow> bool" where
  "has_dots (x # y # s) = (x = CHR ''.'' \<and> y = CHR ''.'' \<or> has_dots (y # s))"
| "has_dots _ = False"

definition lower_char :: "char \<Rightarrow> char" where
  "lower_char c = (if (65 :: nat) \<le> of_char c \<and> of_char c \<le> (90 :: nat) then char_of (of_char c + (32 :: nat)) else c)"

definition is_team :: "string \<Rightarrow> bool" where
  "is_team key = (map lower_char key = ''team'')"

text \<open>The keys and values that are turned down.\<close>

definition refused :: "string \<Rightarrow> string \<Rightarrow> bool" where
  "refused key val =
     (key = [] \<or> backslash \<in> set key \<or> backslash \<in> set val
      \<or> has_dots key \<or> key \<noteq> ''name'' \<and> has_dots val
      \<or> CHR 0x22 \<in> set key \<or> CHR 0x22 \<in> set val
      \<or> MAX_KV_LEN \<le> length key \<or> MAX_KV_LEN \<le> length val)"

definition new_pair :: "string \<Rightarrow> string \<Rightarrow> string" where
  "new_pair key val = take (MAX_INFO_STRING - 2) (backslash # key @ backslash # val)"

text \<open>The pairs of a string, well formed or not, and that removing one of them makes the string shorter.\<close>

function info_pairs :: "string \<Rightarrow> (string \<times> string) list" where
  "info_pairs s =
     (if s = [] then []
      else case copy_part 0 (skip_slash s) of (k, r) \<Rightarrow>
        case copy_part 0 (tl r) of (v, r2) \<Rightarrow> (k, v) # info_pairs r2)"
  by pat_completeness auto
termination
  by (relation "measure length") (auto intro: pair_shorter [OF _ sym sym])

declare info_pairs.simps [simp del]

lemma remove_loop_step:
  assumes "s \<noteq> []" "copy_part 0 (skip_slash s) = (k, r)" "copy_part 0 (tl r) = (v, r2)"
  shows "remove_loop pat s = Inr t \<longleftrightarrow>
    length k < MAX_KV_LEN \<and> length v < MAX_KV_LEN
    \<and> (\<exists>t'. remove_loop pat r2 = Inr t' \<and> t = (if take (length pat) k = pat then t' else take (length s - length r2) s @ t'))"
  using assms by (auto simp: remove_loop.simps [of pat s] bind_r_eq_Inr close_part_def)

lemma pairs_step:
  assumes "s \<noteq> []" "copy_part 0 (skip_slash s) = (k, r)" "copy_part 0 (tl r) = (v, r2)"
  shows "info_pairs s = (k, v) # info_pairs r2"
  using assms by (simp add: info_pairs.simps [of s])

lemma remove_loop_shorter:
  assumes "remove_loop pat s = Inr t"
  shows "length t \<le> length s" "(k, v) \<in> set (info_pairs s) \<Longrightarrow> take (length pat) k = pat \<Longrightarrow> length t < length s"
proof -
  have "length t \<le> length s \<and> ((k, v) \<in> set (info_pairs s) \<longrightarrow> take (length pat) k = pat \<longrightarrow> length t < length s)"
    using assms
  proof (induction s arbitrary: t rule: info_pairs.induct)
    case (1 s)
    show ?case
    proof (cases "s = []")
      case True
      then show ?thesis
        using "1.prems" by (simp add: remove_loop.simps info_pairs.simps)
    next
      case False
      obtain k1 r where k: "copy_part 0 (skip_slash s) = (k1, r)"
        by fastforce
      obtain v1 r2 where v: "copy_part 0 (tl r) = (v1, r2)"
        by fastforce
      have l: "length r2 < length s"
        by (rule pair_shorter [OF False k v])
      obtain t' where t': "remove_loop pat r2 = Inr t'"
        "t = (if take (length pat) k1 = pat then t' else take (length s - length r2) s @ t')"
        using "1.prems" unfolding remove_loop_step [OF False k v] by blast
      have "length t' \<le> length r2 \<and> ((k, v) \<in> set (info_pairs r2) \<longrightarrow> take (length pat) k = pat \<longrightarrow> length t' < length r2)"
        by (rule "1.IH" [OF False k [symmetric] v [symmetric] t'(1)])
      with l t'(2) show ?thesis
        by (auto simp: pairs_step [OF False k v])
    qed
  qed
  then show "length t \<le> length s" "(k, v) \<in> set (info_pairs s) \<Longrightarrow> take (length pat) k = pat \<Longrightarrow> length t < length s"
    by auto
qed

lemma copy_part_no_slash: "backslash \<notin> set (fst (copy_part n s))"
  by (induction n s rule: copy_part.induct) (auto split: prod.split)

lemma largest_loop_key:
  assumes "largest_loop s lk n = Inr key"
  shows "key = lk \<or> length key < MAX_KV_LEN \<and> backslash \<notin> set key \<and> (\<exists>v. (key, v) \<in> set (info_pairs s))"
  using assms
proof (induction s lk n rule: largest_loop.induct)
  case (1 s lk n)
  show ?case
  proof (cases "s = []")
    case True
    then show ?thesis
      using "1.prems" by (simp add: largest_loop.simps)
  next
    case False
    obtain k r where k: "copy_part 0 (skip_slash s) = (k, r)"
      by fastforce
    obtain v r2 where v: "copy_part 0 (tl r) = (v, r2)"
      by fastforce
    have ns: "backslash \<notin> set k"
      using copy_part_no_slash [of 0 "skip_slash s"] by (simp add: k)
    show ?thesis
    proof (cases "r = []")
      case True
      then show ?thesis
        using "1.prems" False ns
        by (auto simp: largest_loop.simps [of s] k v bind_r_eq_Inr close_part_def pairs_step [OF False k v] split: if_splits)
    next
      case r: False
      have len: "length k < MAX_KV_LEN" "length v < MAX_KV_LEN"
        using "1.prems" False r by (auto simp: largest_loop.simps [of s] k v bind_r_eq_Inr close_part_def split: if_splits)
      then have close: "close_part k = Inr k" "close_part v = Inr v"
        by (simp_all add: close_part_def)
      show ?thesis
      proof (cases "n < length k + length v \<and> \<not> Info_IsKeyImportant k")
        case True
        have "largest_loop r2 k (length k + length v) = Inr key"
          using "1.prems" False r len True by (simp add: largest_loop.simps [of s] k v close_part_def)
        from "1.IH"(1) [OF False k [symmetric] close(1) r v [symmetric] close(2) refl True this] len show ?thesis
          using ns by (auto simp: pairs_step [OF False k v])
      next
        case no: False
        have "largest_loop r2 lk n = Inr key"
          using "1.prems" False r len no by (auto simp: largest_loop.simps [of s] k v close_part_def)
        from "1.IH"(2) [OF False k [symmetric] close(1) r v [symmetric] close(2) refl no this] len show ?thesis
          by (auto simp: pairs_step [OF False k v])
      qed
    qed
  qed
qed

lemma evict_shorter:
  assumes "Info_FindLargestKey s = Inr key" "key \<noteq> []" "Info_RemoveKey s key = Inr t"
  shows "length t < length s"
proof -
  from largest_loop_key [OF assms(1) [unfolded Info_FindLargestKey_def]] assms(2) obtain v
    where v: "length key < MAX_KV_LEN" "backslash \<notin> set key" "(key, v) \<in> set (info_pairs s)"
    by auto
  then have "remove_loop key s = Inr t"
    using assms(3) by (simp add: Info_RemoveKey_def MAX_KV_LEN_def)
  then show ?thesis
    by (rule remove_loop_shorter(2) [OF _ v(3)]) simp_all
qed

text \<open>
  The loop that makes room; \<open>False\<close> when there is nothing left to remove.  Each round makes the string
  shorter, so that it ends.
\<close>

function make_room :: "nat \<Rightarrow> int \<Rightarrow> string \<Rightarrow> info_error + bool \<times> string" where
  "make_room needed maxsize s =
     bind_r (Info_FindLargestKey s) (\<lambda>key.
       if key = [] then Inr (False, s)
       else bind_r (Info_RemoveKey s key) (\<lambda>t.
         if maxsize \<le> int (length t + needed) then make_room needed maxsize t else Inr (True, t)))"
  by pat_completeness auto
termination
  by (relation "measure (\<lambda>(needed, maxsize, s). length s)") (auto intro: evict_shorter)

declare make_room.simps [simp del]

definition Info_SetValueForStarKey :: "string \<Rightarrow> string option \<Rightarrow> string option \<Rightarrow> int \<Rightarrow> info_error + string" where
  "Info_SetValueForStarKey s key val maxsize =
     (case (key, val) of
        (Some k, Some v) \<Rightarrow>
          if refused k v then Inr s
          else bind_r (Info_RemoveKey s k) (\<lambda>s1.
            if v = [] then Inr s1
            else
              let arr = new_pair k v;
                  put = (\<lambda>t. t @ (if is_team k then map lower_char arr else arr))
              in if maxsize \<le> int (length s1 + length arr) then
                   if \<not> Info_IsKeyImportant k then Inr s1
                   else bind_r (make_room (length arr) maxsize s1) (\<lambda>(room, s2). Inr (if room then put s2 else s2))
                 else Inr (put s1))
      | _ \<Rightarrow> Inr s)"

section \<open>Well-formed strings\<close>

text \<open>An info string is a list of pairs; this is what it looks like.\<close>

definition part_ok :: "string \<Rightarrow> bool" where
  "part_ok p \<longleftrightarrow> backslash \<notin> set p \<and> length p < MAX_KV_LEN"

definition pairs_ok :: "(string \<times> string) list \<Rightarrow> bool" where
  "pairs_ok ps \<longleftrightarrow> list_all (\<lambda>(k, v). k \<noteq> [] \<and> part_ok k \<and> part_ok v) ps"

fun render :: "(string \<times> string) list \<Rightarrow> string" where
  "render [] = []"
| "render ((k, v) # ps) = backslash # k @ backslash # v @ render ps"

lemma pairs_ok_simps [simp]:
  "pairs_ok []"
  "pairs_ok ((k, v) # ps) \<longleftrightarrow> k \<noteq> [] \<and> part_ok k \<and> part_ok v \<and> pairs_ok ps"
  "pairs_ok (ps @ qs) \<longleftrightarrow> pairs_ok ps \<and> pairs_ok qs"
  by (auto simp: pairs_ok_def)

lemma pairs_ok_filter [simp]: "pairs_ok ps \<Longrightarrow> pairs_ok (filter P ps)"
  by (simp add: pairs_ok_def list_all_iff)

lemma render_append [simp]: "render (ps @ qs) = render ps @ render qs"
  by (induction ps rule: render.induct) simp_all

lemma render_starts: "render ps = [] \<or> hd (render ps) = backslash"
  by (cases ps) auto

lemma copy_part_all:
  "backslash \<notin> set p \<Longrightarrow> n + length p \<le> MAX_KV_LEN \<Longrightarrow> r = [] \<or> hd r = backslash \<Longrightarrow> copy_part n (p @ r) = (p, r)"
proof (induction p arbitrary: n)
  case Nil
  then show ?case
    by (cases r) auto
qed auto

lemma copy_part_ok: "part_ok p \<Longrightarrow> r = [] \<or> hd r = backslash \<Longrightarrow> copy_part 0 (p @ r) = (p, r)"
  by (rule copy_part_all) (simp_all add: part_ok_def)

lemma close_part_ok [simp]: "part_ok p \<Longrightarrow> close_part p = Inr p"
  by (simp add: close_part_def part_ok_def)

text \<open>How the three loops see the first pair.\<close>

lemma first_pair:
  assumes "part_ok k" "part_ok v" "r = [] \<or> hd r = backslash"
  shows "copy_part 0 (skip_slash (backslash # k @ backslash # v @ r)) = (k, backslash # v @ r)"
    "copy_part 0 (v @ r) = (v, r)"
  using copy_part_ok [OF assms(1), of "backslash # v @ r"] copy_part_ok [OF assms(2,3)]
  by (simp_all add: skip_slash_def)

lemmas first_of_render = first_pair(1) [OF _ _ render_starts] copy_part_ok [OF _ render_starts]

lemma info_pairs_render: "pairs_ok ps \<Longrightarrow> info_pairs (render ps) = ps"
  by (induction ps rule: render.induct) (simp_all add: info_pairs.simps [of "_ # _"] info_pairs.simps [of "[]"] first_of_render)

lemma remove_loop_first:
  assumes "part_ok k" "part_ok v" "r = [] \<or> hd r = backslash"
  shows "remove_loop pat (backslash # k @ backslash # v @ r) =
    bind_r (remove_loop pat r) (\<lambda>t. Inr (if take (length pat) k = pat then t else backslash # k @ backslash # v @ t))"
proof -
  have "take (length ((backslash # k @ backslash # v) @ r) - length r) ((backslash # k @ backslash # v) @ r) = backslash # k @ backslash # v"
    by simp
  then show ?thesis
    using first_pair [OF assms] assms(1,2) by (simp add: remove_loop.simps [of pat "_ # _"] cong: if_cong)
qed

lemma remove_loop_render:
  "pairs_ok ps \<Longrightarrow> remove_loop pat (render ps) = Inr (render (filter (\<lambda>(k, v). \<not> prefix pat k) ps))"
proof (induction ps rule: render.induct)
  case (2 k v ps)
  then show ?case
    using remove_loop_first [OF _ _ render_starts, of k v pat ps]
    by (auto simp: prefix_def) (metis append_eq_conv_conj append_take_drop_id)+
qed (simp add: remove_loop.simps)

lemma Info_RemoveKey_render:
  assumes "pairs_ok ps" "part_ok key"
  shows "Info_RemoveKey (render ps) key = Inr (render (filter (\<lambda>(k, v). \<not> prefix key k) ps))"
  using assms remove_loop_render [OF assms(1), of key] by (simp add: Info_RemoveKey_def part_ok_def MAX_KV_LEN_def)

text \<open>What a lookup should find.\<close>

definition find_key :: "(string \<times> string) list \<Rightarrow> string \<Rightarrow> string" where
  "find_key ps key = (case map_of ps key of None \<Rightarrow> [] | Some v \<Rightarrow> v)"

text \<open>A lookup writes to one array, and hands that one out.\<close>

lemma value_loop_frame:
  assumes "value_loop key s b = Inr (p, b')"
  shows "(\<forall>j. j \<noteq> valueindex b \<longrightarrow> kv_values b' ! j = kv_values b ! j) \<and> length (kv_values b') = length (kv_values b)
    \<and> (p = None \<and> valueindex b' = valueindex b
       \<or> p = Some (valueindex b) \<and> valueindex b' = (valueindex b + 1) mod INFO_MAX_BUFFER_VALUES)"
  using assms
proof (induction key s b rule: value_loop.induct)
  case (1 key s b)
  show ?case
  proof (cases "s = []")
    case True
    then show ?thesis
      using "1.prems" by (auto simp: value_loop.simps)
  next
    case False
    obtain k r where k: "copy_part 0 (skip_slash s) = (k, r)"
      by fastforce
    obtain v r2 where v: "copy_part 0 (tl r) = (v, r2)"
      by fastforce
    show ?thesis
    proof (cases "r = []")
      case True
      then show ?thesis
        using "1.prems" False by (auto simp: value_loop.simps [of key s] k)
    next
      case r: False
      have c: "close_part k = Inr k" "close_part v = Inr v"
        using "1.prems" False r by (auto simp: value_loop.simps [of key s] k v close_part_def split: if_splits)
      show ?thesis
      proof (cases "key = k")
        case True
        have "value_loop key s b = Inr (Some (valueindex b),
            b\<lparr>kv_values := (kv_values b)[valueindex b := v], valueindex := (valueindex b + 1) mod INFO_MAX_BUFFER_VALUES\<rparr>)"
          unfolding value_loop.simps [of key s] using False r c True by (simp add: k v)
        then show ?thesis
          using "1.prems" by auto
      next
        case no: False
        let ?b1 = "b\<lparr>kv_values := (kv_values b)[valueindex b := v]\<rparr>"
        have "value_loop key r2 ?b1 = Inr (p, b')"
          using "1.prems" False r c no by (simp add: value_loop.simps [of key s] k v Let_def)
        from "1.IH" [OF False k [symmetric] r c(1) v [symmetric] c(2) refl no this] show ?thesis
          by auto
      qed
    qed
  qed
qed

lemma value_loop_first:
  assumes "part_ok k" "part_ok v" "r = [] \<or> hd r = backslash"
  shows "value_loop key (backslash # k @ backslash # v @ r) b =
    (let b1 = b\<lparr>kv_values := (kv_values b)[valueindex b := v]\<rparr>
     in if key = k then Inr (Some (valueindex b), b1\<lparr>valueindex := (valueindex b + 1) mod INFO_MAX_BUFFER_VALUES\<rparr>)
        else value_loop key r b1)"
  using first_pair [OF assms] assms(1,2) by (simp add: value_loop.simps [of key "_ # _"])

lemma value_loop_render:
  assumes "pairs_ok ps" "valueindex b < length (kv_values b)"
  shows "\<exists>p b'. value_loop key (render ps) b = Inr (p, b') \<and> pointed b' p = find_key ps key"
  using assms
proof (induction ps arbitrary: b rule: render.induct)
  case (2 k v ps)
  let ?b1 = "b\<lparr>kv_values := (kv_values b)[valueindex b := v]\<rparr>"
  have first: "value_loop key (render ((k, v) # ps)) b =
    (if key = k then Inr (Some (valueindex b), ?b1\<lparr>valueindex := (valueindex b + 1) mod INFO_MAX_BUFFER_VALUES\<rparr>)
     else value_loop key (render ps) ?b1)"
    using value_loop_first [OF _ _ render_starts, of k v key ps b] "2.prems"(1) by (simp add: Let_def)
  obtain p b' where r: "value_loop key (render ps) ?b1 = Inr (p, b')" "pointed b' p = find_key ps key"
    using "2.IH" [of ?b1] "2.prems" by auto
  show ?case
    using r "2.prems"(2) unfolding first by (simp add: find_key_def pointed_def)
qed (simp add: value_loop.simps pointed_def find_key_def)

lemma Info_ValueForKey_bufs:
  assumes "Info_ValueForKey s key b = Inr (p, b')" "bufs_ok b"
  shows "bufs_ok b'"
  using value_loop_frame [OF assms(1) [unfolded Info_ValueForKey_def]] assms(2)
  by (auto simp: bufs_ok_def INFO_MAX_BUFFER_VALUES_def)

lemma Info_ValueForKey_render:
  assumes "pairs_ok ps" "bufs_ok b"
  obtains p b' where "Info_ValueForKey (render ps) key b = Inr (p, b')" "pointed b' p = find_key ps key" "bufs_ok b'"
  using value_loop_render [OF assms(1), of b key] assms(2) Info_ValueForKey_bufs [OF _ assms(2)]
  unfolding Info_ValueForKey_def bufs_ok_def by auto

fun largest_of :: "(string \<times> string) list \<Rightarrow> string \<Rightarrow> nat \<Rightarrow> string" where
  "largest_of [] lk n = lk"
| "largest_of ((k, v) # ps) lk n =
     (if n < length k + length v \<and> \<not> Info_IsKeyImportant k then largest_of ps k (length k + length v)
      else largest_of ps lk n)"

lemma largest_loop_render: "pairs_ok ps \<Longrightarrow> largest_loop (render ps) lk n = Inr (largest_of ps lk n)"
proof (induction ps lk n rule: largest_of.induct)
  case (2 k v ps lk n)
  then have "largest_loop (render ((k, v) # ps)) lk n =
    (if n < length k + length v \<and> \<not> Info_IsKeyImportant k then largest_loop (render ps) k (length k + length v)
     else largest_loop (render ps) lk n)"
    using first_pair [OF _ _ render_starts, of k v ps] by (simp add: largest_loop.simps [of "_ # _"] Let_def)
  with 2 show ?case
    by (simp split: if_split)
qed (simp add: largest_loop.simps)

lemma largest_of_cases: "largest_of ps lk n = lk \<or> (\<exists>v. (largest_of ps lk n, v) \<in> set ps \<and> \<not> Info_IsKeyImportant (largest_of ps lk n))"
  by (induction ps lk n rule: largest_of.induct) auto

lemma largest_of_none: "pairs_ok ps \<Longrightarrow> largest_of ps [] 0 = [] \<Longrightarrow> (k, v) \<in> set ps \<Longrightarrow> Info_IsKeyImportant k"
proof (induction ps)
  case (Cons p ps)
  obtain a c where p: "p = (a, c)"
    by fastforce
  have "Info_IsKeyImportant a"
  proof (rule ccontr)
    assume no: "\<not> Info_IsKeyImportant a"
    have "largest_of ps a (length a + length c) = []"
      using Cons.prems(1,2) no by (simp add: p)
    with largest_of_cases [of ps a "length a + length c"] Cons.prems(1) show False
      by (auto simp: p pairs_ok_def list_all_iff)
  qed
  with Cons show ?case
    by (auto simp: p)
qed simp

text \<open>What is kept when the keys in \<open>E\<close> are removed: everything that begins with none of them.\<close>

definition without :: "string list \<Rightarrow> (string \<times> string) list \<Rightarrow> (string \<times> string) list" where
  "without E ps = filter (\<lambda>(k, v). list_all (\<lambda>x. \<not> prefix x k) E) ps"

lemma without_simps [simp]: "without [] ps = ps" "pairs_ok ps \<Longrightarrow> pairs_ok (without E ps)"
  by (auto simp: without_def)

lemma without_Cons: "without (x # E) ps = without E (without [x] ps)"
  by (auto simp: without_def intro!: filter_cong)

lemma without_subset: "set (without E ps) \<subseteq> set ps"
  by (auto simp: without_def)

lemma length_without: "length (render (without E ps)) \<le> length (render ps)"
  by (induction ps rule: render.induct) (auto simp: without_def)

lemma make_room_render:
  assumes "pairs_ok ps"
  shows "\<exists>room E. make_room needed maxsize (render ps) = Inr (room, render (without E ps))
    \<and> (room \<longrightarrow> int (length (render (without E ps)) + needed) < maxsize)
    \<and> (\<not> room \<longrightarrow> list_all (\<lambda>(k, v). Info_IsKeyImportant k) (without E ps))
    \<and> list_all (\<lambda>x. \<not> Info_IsKeyImportant x \<and> x \<in> fst ` set ps) E"
  using assms
proof (induction "length (render ps)" arbitrary: ps rule: less_induct)
  case less
  define x where "x = largest_of ps [] 0"
  have find: "Info_FindLargestKey (render ps) = Inr x"
    unfolding Info_FindLargestKey_def x_def by (rule largest_loop_render [OF less.prems])
  show ?case
  proof (cases "x = []")
    case True
    then have "make_room needed maxsize (render ps) = Inr (False, render (without [] ps))"
      using find by (simp add: make_room.simps [of needed maxsize "render ps"])
    moreover have "list_all (\<lambda>(k, v). Info_IsKeyImportant k) (without [] ps)"
      using largest_of_none [OF less.prems True [unfolded x_def]] by (auto simp: list_all_iff)
    ultimately show ?thesis
      by (intro exI [of _ False] exI [of _ "[]"]) simp
  next
    case False
    then obtain v where v: "(x, v) \<in> set ps" "\<not> Info_IsKeyImportant x"
      using largest_of_cases [of ps "[]" 0] unfolding x_def by auto
    then have "part_ok x"
      using less.prems by (auto simp: pairs_ok_def list_all_iff)
    from Info_RemoveKey_render [OF less.prems this] have rm: "Info_RemoveKey (render ps) x = Inr (render (without [x] ps))"
      by (simp add: without_def)
    have shorter: "length (render (without [x] ps)) < length (render ps)"
      by (rule evict_shorter [OF find False rm])
    have in_ps: "x \<in> fst ` set ps"
      using v(1) by force
    show ?thesis
    proof (cases "maxsize \<le> int (length (render (without [x] ps)) + needed)")
      case True
      then have step: "make_room needed maxsize (render ps) = make_room needed maxsize (render (without [x] ps))"
        using find False rm by (simp add: make_room.simps [of needed maxsize "render ps"])
      obtain room E where r: "make_room needed maxsize (render (without [x] ps)) = Inr (room, render (without E (without [x] ps)))"
        "room \<longrightarrow> int (length (render (without E (without [x] ps))) + needed) < maxsize"
        "\<not> room \<longrightarrow> list_all (\<lambda>(k, v). Info_IsKeyImportant k) (without E (without [x] ps))"
        "list_all (\<lambda>y. \<not> Info_IsKeyImportant y \<and> y \<in> fst ` set (without [x] ps)) E"
        using less.hyps [OF shorter] less.prems by auto
      have "list_all (\<lambda>y. \<not> Info_IsKeyImportant y \<and> y \<in> fst ` set ps) (x # E)"
        using r(4) v(2) in_ps without_subset [of "[x]" ps] by (auto simp: list_all_iff)
      with r(1-3) step show ?thesis
        by (intro exI [of _ room] exI [of _ "x # E"]) (simp add: without_Cons [of x E])
    next
      case no: False
      then have "make_room needed maxsize (render ps) = Inr (True, render (without [x] ps))"
        using find False rm by (simp add: make_room.simps [of needed maxsize "render ps"])
      with no v(2) in_ps show ?thesis
        by (intro exI [of _ True] exI [of _ "[x]"]) simp
    qed
  qed
qed

section \<open>Setting a key of a well-formed string\<close>

lemma lower_backslash [simp]: "lower_char backslash = backslash"
  by (simp add: lower_char_def)

lemma lower_char_backslash: "lower_char c = backslash \<longleftrightarrow> c = backslash"
proof -
  have "c = backslash" if "lower_char c = backslash" "lower_char c \<noteq> c"
  proof -
    have *: "(65 :: nat) \<le> of_char c" "of_char c \<le> (90 :: nat)" "char_of (of_char c + (32 :: nat)) = backslash"
      using that by (auto simp: lower_char_def split: if_splits)
    then have "of_char (char_of (of_char c + (32 :: nat)) :: char) = (92 :: nat)"
      by simp
    then show ?thesis
      using *(1,2) by simp
  qed
  then show ?thesis
    by fastforce
qed

lemma part_ok_lower [simp]: "part_ok (map lower_char p) \<longleftrightarrow> part_ok p"
  by (auto simp: part_ok_def) (metis imageE lower_char_backslash imageI lower_backslash)+

lemma not_refused: "\<not> refused k v \<Longrightarrow> k \<noteq> [] \<and> part_ok k \<and> part_ok v"
  by (auto simp: refused_def part_ok_def)

lemma new_pair_render: "part_ok k \<Longrightarrow> part_ok v \<Longrightarrow> new_pair k v = render [(k, v)]"
  by (auto simp: new_pair_def part_ok_def MAX_INFO_STRING_def MAX_KV_LEN_def)

text \<open>The pair that is appended: a team is written in lower case, key and value.\<close>

definition appended :: "string \<Rightarrow> string \<Rightarrow> string \<times> string" where
  "appended k v = (if is_team k then (map lower_char k, map lower_char v) else (k, v))"

lemma appended_ok: "\<not> refused k v \<Longrightarrow> pairs_ok [appended k v]"
  using not_refused [of k v] by (simp add: appended_def)

lemma append_pair:
  assumes "\<not> refused k v"
  shows "t @ (if is_team k then map lower_char (new_pair k v) else new_pair k v)
    = t @ render [appended k v]" "length (render [appended k v]) = length (new_pair k v)"
  using not_refused [OF assms] by (simp_all add: new_pair_render appended_def)

lemma set_render:
  assumes "pairs_ok ps" "\<not> refused k v"
  shows "Info_SetValueForStarKey (render ps) (Some k) (Some v) maxsize =
    (if v = [] then Inr (render (without [k] ps))
     else if maxsize \<le> int (length (render (without [k] ps)) + length (new_pair k v)) then
       if \<not> Info_IsKeyImportant k then Inr (render (without [k] ps))
       else bind_r (make_room (length (new_pair k v)) maxsize (render (without [k] ps)))
              (\<lambda>(room, t). Inr (if room then t @ render [appended k v] else t))
     else Inr (render (without [k] ps @ [appended k v])))"
proof -
  have "Info_RemoveKey (render ps) k = Inr (render (without [k] ps))"
    using Info_RemoveKey_render [OF assms(1), of k] not_refused [OF assms(2)] by (simp add: without_def)
  then show ?thesis
    using assms(2) by (simp add: Info_SetValueForStarKey_def append_pair(1) [OF assms(2)] Let_def del: render.simps cong: if_cong)
qed

lemma find_key_without:
  "find_key (without [k] ps) key = (if prefix k key then [] else find_key ps key)"
  by (induction ps) (auto simp: find_key_def without_def split: option.splits)

lemma find_key_snoc: "k \<notin> fst ` set ps \<Longrightarrow> find_key (ps @ [(k, v)]) key = (if key = k then v else find_key ps key)"
  by (induction ps) (auto simp: find_key_def)

lemma without_own: "k \<notin> fst ` set (without [k] ps)"
  by (auto simp: without_def)

text \<open>
  C39: Setting a key, when there is room: the string stays shorter than its buffer, the key has the new
  value, and every other key is looked up as before, except that the keys that merely begin with the one
  that is set are lost.
\<close>
theorem info_set_get:
  assumes "pairs_ok ps" "\<not> refused k v" "v \<noteq> []" "\<not> is_team k" "bufs_ok b"
    and "int (length (render (without [k] ps)) + length k + length v + 2) < maxsize"
  shows "\<exists>t. Info_SetValueForStarKey (render ps) (Some k) (Some v) maxsize = Inr t \<and> int (length t) < maxsize
    \<and> (\<forall>key. \<exists>p b'. Info_ValueForKey t key b = Inr (p, b')
          \<and> pointed b' p = (if key = k then v else if prefix k key then [] else find_key ps key))"
proof -
  let ?qs = "without [k] ps @ [(k, v)]"
  have ok: "k \<noteq> []" "part_ok k" "part_ok v"
    using not_refused [OF assms(2)] by auto
  have "Info_SetValueForStarKey (render ps) (Some k) (Some v) maxsize = Inr (render ?qs)"
    using set_render [OF assms(1,2), of maxsize] assms(3,4,6) ok by (simp add: new_pair_render appended_def)
  moreover have "int (length (render ?qs)) < maxsize"
    using assms(6) by simp
  moreover have "\<exists>p b'. Info_ValueForKey (render ?qs) key b = Inr (p, b')
      \<and> pointed b' p = (if key = k then v else if prefix k key then [] else find_key ps key)" for key
  proof -
    have "pairs_ok ?qs"
      using assms(1) ok by simp
    then obtain p b' where "Info_ValueForKey (render ?qs) key b = Inr (p, b')" "pointed b' p = find_key ?qs key"
      using Info_ValueForKey_render [OF _ assms(5)] by metis
    moreover have "find_key ?qs key = (if key = k then v else if prefix k key then [] else find_key ps key)"
      unfolding find_key_snoc [OF without_own] find_key_without by simp
    ultimately show ?thesis by simp
  qed
  ultimately show ?thesis by blast
qed

lemma info_set_get_witness:
  "\<exists>t. Info_SetValueForStarKey (render [(''rate'', ''20000''), (''rated'', ''1''), (''name'', ''Bob'')]) (Some ''rate'') (Some ''25000'') 256 = Inr t
    \<and> int (length t) < 256
    \<and> (\<exists>p b'. Info_ValueForKey t ''rate'' \<lparr>kv_values = [[], [], [], []], valueindex = 2\<rparr> = Inr (p, b') \<and> pointed b' p = ''25000'')
    \<and> (\<exists>p b'. Info_ValueForKey t ''name'' \<lparr>kv_values = [[], [], [], []], valueindex = 2\<rparr> = Inr (p, b') \<and> pointed b' p = ''Bob'')
    \<and> (\<exists>p b'. Info_ValueForKey t ''rated'' \<lparr>kv_values = [[], [], [], []], valueindex = 2\<rparr> = Inr (p, b') \<and> pointed b' p = [])"
proof -
  let ?ps = "[(''rate'', ''20000''), (''rated'', ''1''), (''name'', ''Bob'')]"
  let ?b = "\<lparr>kv_values = [[], [], [], []], valueindex = 2\<rparr>"
  have "\<exists>t. Info_SetValueForStarKey (render ?ps) (Some ''rate'') (Some ''25000'') 256 = Inr t \<and> int (length t) < 256
    \<and> (\<forall>key. \<exists>p b'. Info_ValueForKey t key ?b = Inr (p, b')
          \<and> pointed b' p = (if key = ''rate'' then ''25000'' else if prefix ''rate'' key then [] else find_key ?ps key))"
    by (rule info_set_get)
      (simp_all add: part_ok_def MAX_KV_LEN_def refused_def is_team_def lower_char_def bufs_ok_def INFO_MAX_BUFFER_VALUES_def without_def)
  then obtain t where t: "Info_SetValueForStarKey (render ?ps) (Some ''rate'') (Some ''25000'') 256 = Inr t" "int (length t) < 256"
    and get: "\<And>key. \<exists>p b'. Info_ValueForKey t key ?b = Inr (p, b')
          \<and> pointed b' p = (if key = ''rate'' then ''25000'' else if prefix ''rate'' key then [] else find_key ?ps key)"
    by blast
  show ?thesis
    using t get [of "''rate''"] get [of "''name''"] get [of "''rated''"] by (simp add: find_key_def)
qed

text \<open>A key and a value that are not refused: where the new string comes from.\<close>

lemma set_accepted:
  assumes "pairs_ok ps" "int (length (render ps)) < maxsize" "\<not> refused k v"
  obtains qs where "Info_SetValueForStarKey (render ps) (Some k) (Some v) maxsize = Inr (render qs)" "pairs_ok qs"
    "int (length (render qs)) < maxsize" "set qs \<subseteq> set ps \<union> {appended k v}"
proof -
  let ?n = "length (new_pair k v)" and ?rs = "without [k] ps"
  have fits: "int (length (render ?rs)) < maxsize"
    using length_without [of "[k]" ps] assms(2) by simp
  have sub: "set (without E ?rs) \<subseteq> set ps" for E
    using without_subset [of E ?rs] without_subset [of "[k]" ps] by blast
  note set = set_render [OF assms(1,3), of maxsize] and app = appended_ok [OF assms(3)] append_pair(2) [OF assms(3)]
  consider (drop) "v = [] \<or> maxsize \<le> int (length (render ?rs) + ?n) \<and> \<not> Info_IsKeyImportant k"
    | (put) "v \<noteq> []" "int (length (render ?rs) + ?n) < maxsize"
    | (evict) "v \<noteq> []" "maxsize \<le> int (length (render ?rs) + ?n)" "Info_IsKeyImportant k"
    by fastforce
  then show thesis
  proof cases
    case drop
    then have "Info_SetValueForStarKey (render ps) (Some k) (Some v) maxsize = Inr (render ?rs)"
      using set by auto
    then show thesis
      by (rule that) (use fits assms(1) sub [of "[]"] in auto)
  next
    case put
    then have "Info_SetValueForStarKey (render ps) (Some k) (Some v) maxsize = Inr (render (?rs @ [appended k v]))"
      using set by auto
    then show thesis
      by (rule that) (use put assms(1) app sub [of "[]"] in auto)
  next
    case evict
    obtain room E where r: "make_room ?n maxsize (render ?rs) = Inr (room, render (without E ?rs))"
      "room \<longrightarrow> int (length (render (without E ?rs)) + ?n) < maxsize"
      using make_room_render [of ?rs ?n maxsize] assms(1) by auto
    let ?qs = "if room then without E ?rs @ [appended k v] else without E ?rs"
    show thesis
    proof (rule that [of ?qs])
      show "Info_SetValueForStarKey (render ps) (Some k) (Some v) maxsize = Inr (render ?qs)"
        using evict r(1) set by auto
      show "int (length (render ?qs)) < maxsize"
        using r(2) fits length_without [of E ?rs] app(2) by simp
      show "pairs_ok ?qs" "set ?qs \<subseteq> set ps \<union> {appended k v}"
        using assms(1) app(1) sub by (cases "appended k v", auto)
    qed
  qed
qed

text \<open>
  C24: Setting any key to any value leaves a well-formed string that fits its buffer, and holds nothing
  but pairs it held before and the new one; the call always returns, even when it has to make room.
\<close>
theorem info_set_safe:
  assumes "pairs_ok ps" "int (length (render ps)) < maxsize"
  shows "\<exists>qs. Info_SetValueForStarKey (render ps) key val maxsize = Inr (render qs) \<and> pairs_ok qs
    \<and> int (length (render qs)) < maxsize
    \<and> set qs \<subseteq> set ps \<union> (case (key, val) of (Some k, Some v) \<Rightarrow> {appended k v} | _ \<Rightarrow> {})"
proof (cases "\<exists>k v. key = Some k \<and> val = Some v \<and> \<not> refused k v")
  case False
  then have "Info_SetValueForStarKey (render ps) key val maxsize = Inr (render ps)"
    by (auto simp: Info_SetValueForStarKey_def split: option.split)
  then show ?thesis
    using assms by blast
next
  case True
  then obtain k v where kv: "key = Some k" "val = Some v" "\<not> refused k v"
    by blast
  show ?thesis
    by (rule set_accepted [OF assms kv(3)]) (use kv in auto)
qed

lemma info_set_safe_witness:
  "\<exists>qs. Info_SetValueForStarKey (render [(''cl_lw'', ''1''), (''skin'', ''gold'')]) (Some ''name'') (Some ''Bob'') 22 = Inr (render qs)
    \<and> pairs_ok qs \<and> length (render qs) < 22 \<and> set qs \<subseteq> {(''cl_lw'', ''1''), (''skin'', ''gold''), (''name'', ''Bob'')}"
proof -
  have "appended ''name'' ''Bob'' = (''name'', ''Bob'')"
    by (simp add: appended_def is_team_def lower_char_def)
  then show ?thesis
    using info_set_safe [of "[(''cl_lw'', ''1''), (''skin'', ''gold'')]" 22 "Some ''name''" "Some ''Bob''"]
    by (auto simp: part_ok_def MAX_KV_LEN_def)
qed

section \<open>What goes wrong\<close>

text \<open>
  To make room for an important key an unimportant one is removed, and with it every key that begins
  like it, important or not.
\<close>

lemma important_key_evicted:
  "Info_IsKeyImportant ''cl_lw''
    \<and> Info_SetValueForStarKey (render [(''cl'', ''12345678''), (''cl_lw'', ''1'')]) (Some ''name'') (Some ''Bob'') 28
       = Inr (render [(''name'', ''Bob'')])"
  by code_simp

text \<open>
  \<^verbatim>\<open>TEAM\<close> is written in lower case after the old \<^verbatim>\<open>TEAM\<close> was removed, so that the old \<^verbatim>\<open>team\<close> stays and
  is the one that is found.
\<close>

lemma team_not_replaced:
  "Info_SetValueForStarKey (render [(''team'', ''red'')]) (Some ''TEAM'') (Some ''Blue'') 256
      = Inr (render [(''team'', ''red''), (''team'', ''blue'')])
    \<and> find_key [(''team'', ''red''), (''team'', ''blue'')] ''team'' = ''red''"
  by code_simp

lemma copy_part_long:
  "backslash \<notin> set p \<Longrightarrow> MAX_KV_LEN \<le> n + length p \<Longrightarrow> n \<le> MAX_KV_LEN \<Longrightarrow>
    copy_part n (p @ backslash # r) = (take (MAX_KV_LEN - n) p, backslash # r)"
proof (induction p arbitrary: n)
  case (Cons x p)
  show ?case
  proof (cases "MAX_KV_LEN \<le> n")
    case True
    then show ?thesis
      using Cons.IH [of n] Cons.prems by auto
  next
    case False
    then have "MAX_KV_LEN - n = Suc (MAX_KV_LEN - Suc n)"
      by simp
    then show ?thesis
      using Cons.IH [of "Suc n"] Cons.prems False by auto
  qed
qed simp

text \<open>The three loops pass well-formed pairs; \<open>t\<close> is what comes after them.\<close>

lemma render_then: "hd t = backslash \<Longrightarrow> render ps @ t = [] \<or> hd (render ps @ t) = backslash"
  using render_starts [of ps] by (cases "render ps") auto

lemma remove_loop_fails:
  assumes "remove_loop pat t = Inl e" "hd t = backslash" "pairs_ok ps"
  shows "remove_loop pat (render ps @ t) = Inl e"
  using assms(3)
proof (induction ps rule: render.induct)
  case (2 k v ps)
  then show ?case
    using remove_loop_first [OF _ _ render_then [OF assms(2)], of k v pat ps] by simp
qed (simp add: assms)

lemma largest_loop_fails:
  assumes "\<And>lk n. largest_loop t lk n = Inl e" "hd t = backslash" "pairs_ok ps"
  shows "largest_loop (render ps @ t) lk n = Inl e"
  using assms(3)
proof (induction ps arbitrary: lk n rule: render.induct)
  case (2 k v ps)
  then show ?case
    using first_pair [OF _ _ render_then [OF assms(2)], of k v ps] by (simp add: largest_loop.simps [of "_ # _"] Let_def)
qed (simp add: assms)

lemma value_loop_fails:
  assumes "\<And>b. value_loop key t b = Inl e" "hd t = backslash" "pairs_ok ps" "key \<notin> fst ` set ps"
  shows "value_loop key (render ps @ t) b = Inl e"
  using assms(3,4)
proof (induction ps arbitrary: b rule: render.induct)
  case (2 k v ps)
  then show ?case
    using value_loop_first [OF _ _ render_then [OF assms(2)], of k v key ps b] by (auto simp: Let_def)
qed (simp add: assms)

text \<open>
  A key of \<^verbatim>\<open>MAX_KV_LEN\<close> characters or more overruns the array it is copied to by one byte, in
  every operation that comes to it: removing any key, setting one, searching the largest, and looking up
  a key that is not found before.
\<close>
theorem long_key_overruns:
  assumes "pairs_ok ps" "backslash \<notin> set long" "MAX_KV_LEN \<le> length long"
    and "\<not> refused key v" "key \<notin> fst ` set ps"
    and "s = render ps @ backslash # long @ backslash # rest"
  shows "Info_RemoveKey s key = Inl UB_part_overflow \<and> Info_FindLargestKey s = Inl UB_part_overflow
    \<and> Info_ValueForKey s key b = Inl UB_part_overflow
    \<and> Info_SetValueForStarKey s (Some key) (Some v) maxsize = Inl UB_part_overflow"
proof -
  let ?t = "backslash # long @ backslash # rest"
  have first: "copy_part 0 (long @ backslash # rest) = (take MAX_KV_LEN long, backslash # rest)"
    "close_part (take MAX_KV_LEN long) = Inl UB_part_overflow"
    using copy_part_long [OF assms(2), of 0 rest] assms(3) by (simp_all add: close_part_def)
  note here = skip_slash_def first
  have "remove_loop pat s = Inl UB_part_overflow" for pat
    unfolding assms(6) by (rule remove_loop_fails [OF _ _ assms(1)]) (simp_all add: remove_loop.simps [of pat ?t] here)
  then have "Info_RemoveKey s key = Inl UB_part_overflow"
    using assms(4) by (simp add: Info_RemoveKey_def refused_def)
  moreover have "Info_FindLargestKey s = Inl UB_part_overflow"
    unfolding assms(6) Info_FindLargestKey_def
    by (rule largest_loop_fails [OF _ _ assms(1)]) (simp_all add: largest_loop.simps [of ?t] here)
  moreover have "Info_ValueForKey s key b = Inl UB_part_overflow"
    unfolding assms(6) Info_ValueForKey_def
    by (rule value_loop_fails [OF _ _ assms(1,5)]) (simp_all add: value_loop.simps [of key ?t] here)
  ultimately show ?thesis
    using assms(4) by (simp add: Info_SetValueForStarKey_def)
qed

lemma long_key_overruns_witness:
  "Info_RemoveKey (render [(''name'', ''Bob'')] @ backslash # replicate 127 CHR ''x'' @ backslash # ''1'') ''rate'' = Inl UB_part_overflow"
  using long_key_overruns [of "[(''name'', ''Bob'')]" "replicate 127 CHR ''x''" "''rate''" "''1''"
      "render [(''name'', ''Bob'')] @ backslash # replicate 127 CHR ''x'' @ backslash # ''1''" "''1''"]
  by (simp add: part_ok_def MAX_KV_LEN_def refused_def)

section \<open>The arrays of the values\<close>

fun lookups :: "(string \<times> string) list \<Rightarrow> info_bufs \<Rightarrow> info_error + info_bufs" where
  "lookups [] b = Inr b"
| "lookups ((s, key) # more_keys) b = bind_r (Info_ValueForKey s key b) (\<lambda>(p, b'). lookups more_keys b')"

lemma lookups_frame:
  assumes "lookups ks b = Inr b'" "bufs_ok b" "i < INFO_MAX_BUFFER_VALUES"
    and "\<forall>d < length ks. (valueindex b + d) mod INFO_MAX_BUFFER_VALUES \<noteq> i"
  shows "kv_values b' ! i = kv_values b ! i"
  using assms(1,2,4)
proof (induction ks arbitrary: b)
  case (Cons sk ks)
  obtain s key where sk: "sk = (s, key)"
    by fastforce
  obtain p b1 where b1: "Info_ValueForKey s key b = Inr (p, b1)" "lookups ks b1 = Inr b'"
    using Cons.prems(1) by (auto simp: sk bind_r_eq_Inr)
  note frame = value_loop_frame [OF b1(1) [unfolded Info_ValueForKey_def]]
  have idx: "valueindex b < INFO_MAX_BUFFER_VALUES"
    using Cons.prems(2) by (simp add: bufs_ok_def)
  then have "i \<noteq> valueindex b"
    using Cons.prems(3) by force
  have "(valueindex b1 + d) mod INFO_MAX_BUFFER_VALUES \<noteq> i" if "d < length ks" for d
  proof -
    have "d < length (sk # ks)" "Suc d < length (sk # ks)"
      using that by simp_all
    then have "(valueindex b + d) mod INFO_MAX_BUFFER_VALUES \<noteq> i" "(valueindex b + Suc d) mod INFO_MAX_BUFFER_VALUES \<noteq> i"
      using Cons.prems(3) by blast+
    then show ?thesis
      using frame by (auto simp: mod_simps)
  qed
  then have "kv_values b' ! i = kv_values b1 ! i"
    using Cons.IH [OF b1(2) Info_ValueForKey_bufs [OF b1(1) Cons.prems(2)]] by blast
  with frame \<open>i \<noteq> valueindex b\<close> show ?case
    by simp
qed simp

text \<open>
  The text a lookup hands out stays as it is through the next three lookups, whatever they look for.
\<close>
theorem lookup_survives_three:
  assumes "bufs_ok b" "Info_ValueForKey s key b = Inr (p, b1)" "length ks \<le> 3" "lookups ks b1 = Inr b2"
  shows "pointed b2 p = pointed b1 p"
proof (cases p)
  case (Some i)
  note frame = value_loop_frame [OF assms(2) [unfolded Info_ValueForKey_def]]
  have i: "i = valueindex b" "i < 4" "valueindex b1 = (i + 1) mod 4"
    using frame assms(1) by (auto simp: Some bufs_ok_def INFO_MAX_BUFFER_VALUES_def)
  have "((i + 1) mod 4 + d) mod 4 \<noteq> i" if "d < 3" for d
  proof -
    have "((i + 1) mod 4 + d) mod 4 = (i + (d + 1)) mod 4"
      by (simp add: mod_simps)
    moreover have "i = 0 \<or> i = 1 \<or> i = 2 \<or> i = 3" "d = 0 \<or> d = 1 \<or> d = 2"
      using i(2) that by linarith+
    ultimately show ?thesis
      by (elim disjE) (simp_all add: mod_eq_0_iff_dvd)
  qed
  then have "kv_values b2 ! i = kv_values b1 ! i"
    using lookups_frame [OF assms(4) Info_ValueForKey_bufs [OF assms(2,1)], of i] i assms(3)
    by (simp add: INFO_MAX_BUFFER_VALUES_def)
  then show ?thesis
    by (simp add: pointed_def Some)
qed (simp add: pointed_def)

lemma lookup_survives_three_witness:
  "let b = \<lparr>kv_values = [[], [], [], []], valueindex = 2\<rparr>; s = render [(''name'', ''Bob''), (''rate'', ''20000'')] in
    \<exists>p b1 b2. Info_ValueForKey s ''rate'' b = Inr (p, b1) \<and> lookups [(s, ''name''), (s, ''rate''), (s, ''none'')] b1 = Inr b2
      \<and> pointed b1 p = ''20000'' \<and> pointed b2 p = ''20000''"
proof -
  let ?b = "\<lparr>kv_values = [[], [], [], []], valueindex = 2\<rparr>" and ?ps = "[(''name'', ''Bob''), (''rate'', ''20000'')]"
  let ?ks = "[(render ?ps, ''name''), (render ?ps, ''rate''), (render ?ps, ''none'')]"
  have ok: "pairs_ok ?ps" "bufs_ok ?b"
    by (simp_all add: part_ok_def MAX_KV_LEN_def bufs_ok_def INFO_MAX_BUFFER_VALUES_def)
  obtain p b1 where b1: "Info_ValueForKey (render ?ps) ''rate'' ?b = Inr (p, b1)" "pointed b1 p = find_key ?ps ''rate''" "bufs_ok b1"
    by (rule Info_ValueForKey_render [OF ok])
  obtain p2 b2 where b2: "Info_ValueForKey (render ?ps) ''name'' b1 = Inr (p2, b2)" "bufs_ok b2"
    by (rule Info_ValueForKey_render [OF ok(1) b1(3)])
  obtain p3 b3 where b3: "Info_ValueForKey (render ?ps) ''rate'' b2 = Inr (p3, b3)" "bufs_ok b3"
    by (rule Info_ValueForKey_render [OF ok(1) b2(2)])
  obtain p4 b4 where b4: "Info_ValueForKey (render ?ps) ''none'' b3 = Inr (p4, b4)"
    by (rule Info_ValueForKey_render [OF ok(1) b3(2)])
  have "lookups ?ks b1 = Inr b4"
    using b2(1) b3(1) b4 by (simp del: render.simps)
  moreover from lookup_survives_three [OF ok(2) b1(1) _ this] have "pointed b4 p = ''20000''"
    using b1(2) by (simp add: find_key_def)
  ultimately show ?thesis
    unfolding Let_def using b1(1,2) by (intro exI [of _ p] exI [of _ b1] exI [of _ b4]) (simp add: find_key_def del: render.simps)
qed

end
