(* ===== verification/Timer_Mngr.thy ===== *)
theory Timer_Mngr
  imports Complex_Main Prelude "HOL-Library.List_Lexorder" "HOL-Library.Char_ord"
begin

text \<open>
  The timer manager of \<^verbatim>\<open>refsapi_timer_mngr.h\<close>: the timers the plugins registered
  (\<^verbatim>\<open>m_timers\<close>), the queue of the worker thread (\<^verbatim>\<open>m_timer_queue\<close>), the queue of timers
  that are due and wait for the next server frame (\<^verbatim>\<open>m_frames\<close>), and the two threads that
  share them: the game thread, which runs the natives and \<^verbatim>\<open>start_frame\<close>, and the worker
  thread, which runs \<^verbatim>\<open>main\<close>.  The blocks a timer's \<^verbatim>\<open>data\<close> points to live in an explicit
  heap, so that a double free, a use after free and a leak are visible.  One critical section
  of the code is one step.  The finite floats of the code are their exact rational values; a
  product of two floats is not rounded.  \<^verbatim>\<open>size_t\<close> has 32 bits (the Makefile builds with
  \<^verbatim>\<open>-m32\<close>).
\<close>

section \<open>Data\<close>

type_synonym amx = nat  \<comment> \<open>the address of a plugin's \<^verbatim>\<open>AMX\<close>, 0 is \<^verbatim>\<open>nullptr\<close>\<close>
type_synonym cell = "32 word"
type_synonym ptr = nat

definition TIMER_FLAG_NONE :: cell where "TIMER_FLAG_NONE = 0"
definition TIMER_FLAG_ONCE :: cell where "TIMER_FLAG_ONCE = 1"
definition TIMER_FLAG_REPEAT :: cell where "TIMER_FLAG_REPEAT = 2"
definition TIMER_FLAG_LOOP :: cell where "TIMER_FLAG_LOOP = 4"
definition TIMER_FLAG_RELATIVE :: cell where "TIMER_FLAG_RELATIVE = 32"

definition has_flag :: "cell \<Rightarrow> cell \<Rightarrow> bool" where
  "has_flag flags f = (flags AND f \<noteq> 0)"

record tm =
  tm_id :: nat
  tm_fwd_id :: int
  tm_amx :: amx
  tm_group_id :: nat
  tm_delay_sec :: rat
  tm_time :: int  \<comment> \<open>nanoseconds of the steady clock\<close>
  tm_data :: "ptr option"
  tm_data_size :: nat
  tm_flags :: cell
  tm_repeat :: nat
  tm_executed :: bool

type_synonym m_timer = "tm list"
type_synonym m_timers = "(nat, m_timer) std_map"
type_synonym m_amxx = "(amx, m_timers) std_map"
type_synonym heap = "ptr \<Rightarrow> cell list option"

text \<open>What can go wrong beyond a returned \<^verbatim>\<open>false\<close>: undefined behaviour of C++.\<close>

datatype timer_error =
    UB_double_free        \<comment> \<open>\<^verbatim>\<open>delete[]\<close> of a block that is not allocated\<close>
  | UB_use_after_free     \<comment> \<open>a read of a block that is not allocated\<close>
  | UB_over_read          \<comment> \<open>a copy past the end of the caller's array\<close>
  | UB_erased_iterator    \<comment> \<open>use of an iterator after \<^verbatim>\<open>erase\<close>\<close>
  | UB_end_iterator       \<comment> \<open>dereferencing \<^verbatim>\<open>end()\<close>\<close>
  | UB_dangling_node      \<comment> \<open>a write through a pointer to an erased list node\<close>
  | UB_pop_empty          \<comment> \<open>\<^verbatim>\<open>pop()\<close> of an empty queue\<close>

record tmgr =
  m_timers :: m_amxx
  m_timer_queue :: "tm list"
  m_frames :: "tm list"
  m_callbacks :: "(string, int) std_map"
  stop_main :: bool
  stop_loop :: bool
  stop_timer :: bool
  m_timer_nums :: nat
  frames_count :: nat
  frame_rate :: nat
  heap :: heap
  brk :: ptr
  amx_hea :: "amx \<Rightarrow> nat"

text \<open>The constructor, before the worker thread starts.\<close>

definition timer_mngr_init :: "tmgr" where
  "timer_mngr_init = \<lparr>m_timers = [], m_timer_queue = [], m_frames = [], m_callbacks = [],
     stop_main = False, stop_loop = False, stop_timer = False, m_timer_nums = 0,
     frames_count = 0, frame_rate = 1, heap = Map.empty, brk = 1, amx_hea = (\<lambda>_. 0)\<rparr>"

section \<open>Small helpers\<close>

text \<open>\<^verbatim>\<open>get_next_id\<close>: the id it returns and the new value of the 64-bit counter.\<close>

definition get_next_id :: "nat \<Rightarrow> nat \<times> nat" where
  "get_next_id counter =
     (let i = counter; counter' = (counter + 1) mod 2 ^ 64
      in if i = 0 \<or> i = 2 ^ 64 - 1 then (1, 1) else (i + 1, counter'))"

text \<open>\<^verbatim>\<open>std::round\<close>: halves are rounded away from zero.\<close>

definition c_round :: "rat \<Rightarrow> int" where
  "c_round x = (if 0 \<le> x then \<lfloor>x + 1 / 2\<rfloor> else - \<lfloor>- x + 1 / 2\<rfloor>)"

definition delay_ns :: "rat \<Rightarrow> int" where
  "delay_ns d = c_round (1000 * d) * 1000000"

definition min_delay :: rat where "min_delay = 5368709 / 536870912"  \<comment> \<open>\<^verbatim>\<open>0.01f\<close>\<close>
definition max_delay :: rat where "max_delay = 10239999 / 1024"      \<comment> \<open>\<^verbatim>\<open>9999.999f\<close>\<close>

definition clamp :: "'a::linorder \<Rightarrow> 'a \<Rightarrow> 'a \<Rightarrow> 'a" where
  "clamp v lo hi = (if v < lo then lo else if hi < v then hi else v)"

definition is_valid_index :: "nat \<Rightarrow> nat \<Rightarrow> bool" where
  "is_valid_index maxClients index = (0 < index \<and> index \<le> maxClients)"

text \<open>\<^verbatim>\<open>std::to_string\<close> of an address.\<close>

fun dec_string :: "nat \<Rightarrow> string" where
  "dec_string n =
     (if n < 10 then [char_of (48 + n)] else dec_string (n div 10) @ [char_of (48 + n mod 10)])"

declare dec_string.simps [simp del]

definition callback_hash :: "amx \<Rightarrow> string \<Rightarrow> string" where
  "callback_hash a callback = callback @ ''_'' @ dec_string a"

section \<open>The heap of timer data\<close>

definition remove_data_timer :: "heap \<Rightarrow> tm \<Rightarrow> timer_error + heap" where
  "remove_data_timer h t =
     (case tm_data t of
        None \<Rightarrow> Inr h
      | Some p \<Rightarrow> (case h p of None \<Rightarrow> Inl UB_double_free | Some _ \<Rightarrow> Inr (h(p := None))))"

fun remove_data_all_timers :: "heap \<Rightarrow> m_timer \<Rightarrow> timer_error + heap" where
  "remove_data_all_timers h [] = Inr h"
| "remove_data_all_timers h (t # ts) =
     bind_r (remove_data_timer h t) (\<lambda>h'. remove_data_all_timers h' ts)"

text \<open>All registered timers, in the order in which the code iterates over them.\<close>

definition group_tms :: "m_timers \<Rightarrow> tm list" where
  "group_tms gs = concat (map snd gs)"

definition all_tms :: "m_amxx \<Rightarrow> tm list" where
  "all_tms m = concat (map (\<lambda>e. group_tms (snd e)) m)"

section \<open>Signals\<close>

definition stop :: "bool \<Rightarrow> tmgr \<Rightarrow> tmgr" where
  "stop all_timers st = st\<lparr>stop_loop := True, stop_timer := (all_timers \<or> stop_timer st)\<rparr>"

definition start :: "tmgr \<Rightarrow> tmgr" where
  "start st = st\<lparr>stop_timer := False, stop_loop := True\<rparr>"

section \<open>Looking timers up\<close>

text \<open>\<^verbatim>\<open>get_timer_by_id(amx, id)\<close>: the first timer with the id, group by group.\<close>

fun find_in_groups :: "nat \<Rightarrow> m_timers \<Rightarrow> tm option" where
  "find_in_groups i [] = None"
| "find_in_groups i ((g, ts) # gs) =
     (case find (\<lambda>t. tm_id t = i) ts of
        None \<Rightarrow> find_in_groups i gs
      | Some t \<Rightarrow> Some t)"

definition get_timer_by_id :: "amx \<Rightarrow> nat \<Rightarrow> tmgr \<Rightarrow> tm option" where
  "get_timer_by_id a i st =
     (case map_of (m_timers st) a of None \<Rightarrow> None | Some gs \<Rightarrow> find_in_groups i gs)"

text \<open>\<^verbatim>\<open>get_timer_by_id(amx, group_id, id)\<close> dereferences the group it did not find.\<close>

definition get_timer_by_group_id :: "amx \<Rightarrow> nat \<Rightarrow> nat \<Rightarrow> tmgr \<Rightarrow> timer_error + tm option" where
  "get_timer_by_group_id a g i st =
     (case map_of (m_timers st) a of
        None \<Rightarrow> Inr None
      | Some gs \<Rightarrow>
          (case map_of gs g of
             None \<Rightarrow> Inl UB_end_iterator
           | Some ts \<Rightarrow> Inr (find (\<lambda>t. tm_id t = i) ts)))"

definition timer_exists :: "amx \<Rightarrow> nat \<Rightarrow> tmgr \<Rightarrow> bool" where
  "timer_exists a g st =
     (case map_of (m_timers st) a of None \<Rightarrow> False | Some gs \<Rightarrow> map_of gs g \<noteq> None)"

fun exists_in_groups :: "nat \<Rightarrow> m_timers \<Rightarrow> bool" where
  "exists_in_groups i [] = False"
| "exists_in_groups i ((g, ts) # gs) =
     (if find (\<lambda>t. tm_id t = i) ts \<noteq> None then True else exists_in_groups i gs)"

definition timer_exists_by_id :: "amx \<Rightarrow> nat \<Rightarrow> tmgr \<Rightarrow> bool" where
  "timer_exists_by_id a i st =
     (case map_of (m_timers st) a of None \<Rightarrow> False | Some gs \<Rightarrow> exists_in_groups i gs)"


section \<open>Operations of the game thread\<close>

definition set_group :: "amx \<Rightarrow> nat \<Rightarrow> m_timer \<Rightarrow> m_amxx \<Rightarrow> m_amxx" where
  "set_group a g ts m =
     sm_set a (sm_set g ts (case map_of m a of None \<Rightarrow> [] | Some gs \<Rightarrow> gs)) m"

definition group_of :: "amx \<Rightarrow> nat \<Rightarrow> m_amxx \<Rightarrow> m_timer option" where
  "group_of a g m = (case map_of m a of None \<Rightarrow> None | Some gs \<Rightarrow> map_of gs g)"

text \<open>
  \<^verbatim>\<open>create_forward\<close>: \<open>register_fwd\<close> is \<^verbatim>\<open>g_amxxapi.RegisterSPForwardByName\<close>, a
  function of AMX Mod X.
\<close>

definition create_forward ::
  "(amx \<Rightarrow> string \<Rightarrow> int) \<Rightarrow> amx \<Rightarrow> string \<Rightarrow> tmgr \<Rightarrow> int \<times> tmgr" where
  "create_forward register_fwd a callback st =
     (case map_of (m_callbacks st) (callback_hash a callback) of
        None \<Rightarrow>
          let fwd_id = register_fwd a callback
          in (fwd_id, st\<lparr>m_callbacks := sm_insert (callback_hash a callback) fwd_id (m_callbacks st)\<rparr>)
      | Some fwd_id \<Rightarrow> (fwd_id, st))"

text \<open>
  The arguments of \<^verbatim>\<open>add_timer\<close>, with the environment's part: \<open>now\<close> is the steady clock,
  \<open>alloc_ok\<close> says whether \<^verbatim>\<open>new\<close> succeeds, and \<open>junk\<close> is what the stack holds where the
  local \<^verbatim>\<open>tm_t t\<close> keeps \<^verbatim>\<open>executed\<close>, the one field the code never sets.
\<close>

record add_args =
  aa_amx :: amx
  aa_name :: string
  aa_delay :: rat
  aa_group :: nat
  aa_data :: "cell list option"
  aa_size :: nat
  aa_flags :: cell
  aa_repeat :: nat
  aa_now :: int
  aa_alloc_ok :: bool
  aa_junk :: bool

definition new_data :: "cell list option \<Rightarrow> nat \<Rightarrow> timer_error + cell list" where
  "new_data data n =
     (case data of
        None \<Rightarrow> Inr (replicate n 0)
      | Some d \<Rightarrow> if n \<le> length d then Inr (take n d) else Inl UB_over_read)"

definition make_timer :: "add_args \<Rightarrow> int \<Rightarrow> nat \<Rightarrow> ptr \<Rightarrow> tm" where
  "make_timer x fwd_id i p =
     (let delay = clamp (aa_delay x) min_delay max_delay
      in \<lparr>tm_id = i, tm_fwd_id = fwd_id, tm_amx = aa_amx x, tm_group_id = aa_group x,
          tm_delay_sec = delay, tm_time = aa_now x + delay_ns delay, tm_data = Some p,
          tm_data_size = clamp (aa_size x) 1 4096, tm_flags = aa_flags x,
          tm_repeat = aa_repeat x, tm_executed = aa_junk x\<rparr>)"

definition add_timer ::
  "(amx \<Rightarrow> string \<Rightarrow> int) \<Rightarrow> add_args \<Rightarrow> tmgr \<Rightarrow> timer_error + bool \<times> tmgr" where
  "add_timer register_fwd x st =
     (case create_forward register_fwd (aa_amx x) (aa_name x) st of (fwd_id, st1) \<Rightarrow>
        if aa_amx x = 0 \<or> fwd_id = - 1 then Inr (False, st1)
        else
          (case get_next_id (m_timer_nums st1) of (i64, nums) \<Rightarrow>
             let i = i64 mod 2 ^ 32;
                 st2 = st1\<lparr>m_timer_nums := nums\<rparr>;
                 t = make_timer x fwd_id i (brk st2)
             in if \<not> aa_alloc_ok x then Inr (False, st2)
                else bind_r (new_data (aa_data x) (tm_data_size t)) (\<lambda>d.
                  let a = aa_amx x; g = aa_group x;
                      ts = (case group_of a g (m_timers st2) of None \<Rightarrow> [] | Some ts \<Rightarrow> ts);
                      st3 = st2\<lparr>heap := (heap st2)(brk st2 \<mapsto> d), brk := brk st2 + 1,
                                m_timers := set_group a g (ts @ [t]) (m_timers st2)\<rparr>
                  in Inr (i \<noteq> 0, stop False st3))))"

definition remove_timers :: "amx \<Rightarrow> nat \<Rightarrow> tmgr \<Rightarrow> timer_error + bool \<times> tmgr" where
  "remove_timers a g st =
     (case group_of a g (m_timers st) of
        None \<Rightarrow> Inr (False, st)
      | Some ts \<Rightarrow> bind_r (remove_data_all_timers (heap st) ts) (\<lambda>h.
          Inr (True, stop False (st\<lparr>heap := h, m_timers := set_group a g [] (m_timers st)\<rparr>))))"

text \<open>
  The private \<^verbatim>\<open>remove_timer_by_id(amx, group_id, id)\<close>: \<^verbatim>\<open>remove_if\<close> over one group.
\<close>

fun remove_if_id :: "nat \<Rightarrow> heap \<Rightarrow> m_timer \<Rightarrow> timer_error + heap \<times> m_timer" where
  "remove_if_id i h [] = Inr (h, [])"
| "remove_if_id i h (t # ts) =
     (if tm_id t = i
      then bind_r (remove_data_timer h t) (\<lambda>h'. remove_if_id i h' ts)
      else bind_r (remove_if_id i h ts) (\<lambda>(h', ts'). Inr (h', t # ts')))"

definition remove_timer_by_group_id ::
  "amx \<Rightarrow> nat \<Rightarrow> nat \<Rightarrow> tmgr \<Rightarrow> timer_error + tmgr" where
  "remove_timer_by_group_id a g i st =
     (case group_of a g (m_timers st) of
        None \<Rightarrow> Inr st
      | Some ts \<Rightarrow> bind_r (remove_if_id i (heap st) ts) (\<lambda>(h, ts').
          Inr (st\<lparr>heap := h, m_timers := set_group a g ts' (m_timers st)\<rparr>)))"

text \<open>
  The public \<^verbatim>\<open>remove_timer_by_id(amx, id)\<close> frees the data of the first match, erases the
  node and then increments the erased iterator in the loop header.
\<close>

definition remove_timer_by_id :: "amx \<Rightarrow> nat \<Rightarrow> tmgr \<Rightarrow> timer_error + bool \<times> tmgr" where
  "remove_timer_by_id a i st =
     (case map_of (m_timers st) a of
        None \<Rightarrow> Inr (False, st)
      | Some gs \<Rightarrow>
          (case find_in_groups i gs of
             None \<Rightarrow> Inr (False, stop False st)
           | Some t \<Rightarrow> bind_r (remove_data_timer (heap st) t) (\<lambda>_. Inl UB_erased_iterator)))"

text \<open>A write through the pointer that \<^verbatim>\<open>get_timer_by_id\<close> returned.\<close>

fun upd_first :: "nat \<Rightarrow> (tm \<Rightarrow> tm) \<Rightarrow> m_timer \<Rightarrow> m_timer" where
  "upd_first i f [] = []"
| "upd_first i f (t # ts) = (if tm_id t = i then f t # ts else t # upd_first i f ts)"

fun upd_in_groups :: "nat \<Rightarrow> (tm \<Rightarrow> tm) \<Rightarrow> m_timers \<Rightarrow> m_timers" where
  "upd_in_groups i f [] = []"
| "upd_in_groups i f ((g, ts) # gs) =
     (case find (\<lambda>t. tm_id t = i) ts of
        None \<Rightarrow> (g, ts) # upd_in_groups i f gs
      | Some _ \<Rightarrow> (g, upd_first i f ts) # gs)"

definition change_fields :: "rat \<Rightarrow> cell \<Rightarrow> nat \<Rightarrow> tm \<Rightarrow> tm" where
  "change_fields delay flags repeat t =
     t\<lparr>tm_delay_sec := delay,
       tm_flags := (if flags \<noteq> TIMER_FLAG_NONE then flags else tm_flags t),
       tm_repeat := (if repeat \<noteq> 0 then repeat else tm_repeat t)\<rparr>"

definition change_timer_by_id ::
  "amx \<Rightarrow> nat \<Rightarrow> rat \<Rightarrow> cell \<Rightarrow> nat \<Rightarrow> tmgr \<Rightarrow> bool \<times> tmgr" where
  "change_timer_by_id a i delay flags repeat st =
     (case get_timer_by_id a i st of
        None \<Rightarrow> (False, st)
      | Some _ \<Rightarrow>
          (True, stop False (st\<lparr>m_timers :=
             sm_map (\<lambda>a' gs. if a' = a then upd_in_groups i (change_fields delay flags repeat) gs
                             else gs) (m_timers st)\<rparr>)))"

text \<open>\<^verbatim>\<open>on_client_disconnected\<close>: the groups of a player hold the player's index modulo 100.\<close>

definition player_group :: "nat \<Rightarrow> nat \<Rightarrow> bool" where
  "player_group i g = (g < 100000 \<and> g mod 100 = i)"

fun disconnect_groups ::
  "nat \<Rightarrow> heap \<Rightarrow> m_timers \<Rightarrow> timer_error + heap \<times> m_timers \<times> bool" where
  "disconnect_groups i h [] = Inr (h, [], False)"
| "disconnect_groups i h ((g, ts) # gs) =
     (if player_group i g
      then bind_r (remove_data_all_timers h ts) (\<lambda>h1.
             bind_r (disconnect_groups i h1 gs) (\<lambda>(h2, gs', _). Inr (h2, (g, []) # gs', True)))
      else bind_r (disconnect_groups i h gs) (\<lambda>(h2, gs', need). Inr (h2, (g, ts) # gs', need)))"

fun disconnect_amxx :: "nat \<Rightarrow> heap \<Rightarrow> m_amxx \<Rightarrow> timer_error + heap \<times> m_amxx \<times> bool" where
  "disconnect_amxx i h [] = Inr (h, [], False)"
| "disconnect_amxx i h ((a, gs) # m) =
     bind_r (disconnect_groups i h gs) (\<lambda>(h1, gs', need1).
       bind_r (disconnect_amxx i h1 m) (\<lambda>(h2, m', need2).
         Inr (h2, (a, gs') # m', need1 \<or> need2)))"

definition on_client_disconnected :: "nat \<Rightarrow> nat \<Rightarrow> tmgr \<Rightarrow> timer_error + tmgr" where
  "on_client_disconnected maxClients i st =
     (if is_valid_index maxClients i
      then bind_r (disconnect_amxx i (heap st) (m_timers st)) (\<lambda>(h, m, need_stop).
             let st' = st\<lparr>heap := h, m_timers := m\<rparr>
             in Inr (if need_stop then stop False st' else st'))
      else Inr st)"

definition remove_all_timers :: "tmgr \<Rightarrow> timer_error + tmgr" where
  "remove_all_timers st =
     bind_r (remove_data_all_timers (heap st) (all_tms (m_timers st)))
       (\<lambda>h. Inr (st\<lparr>heap := h, m_timers := []\<rparr>))"

definition stop_all :: "tmgr \<Rightarrow> timer_error + tmgr" where
  "stop_all st =
     (let st1 = stop True (st\<lparr>frames_count := 0\<rparr>);
          st2 = st1\<lparr>m_frames := [], m_timer_queue := []\<rparr>
      in bind_r (remove_all_timers st2) (\<lambda>st3.
           let st4 = st3\<lparr>m_callbacks := []\<rparr>
           in Inr (if \<not> stop_main st4 then start st4 else st4)))"

text \<open>The destructor up to the point where it joins the worker thread.\<close>

definition destroy :: "tmgr \<Rightarrow> timer_error + tmgr" where
  "destroy st = stop_all (st\<lparr>stop_main := True\<rparr>)"


section \<open>The callback and the frame\<close>

text \<open>
  A plugin's callback runs inside \<^verbatim>\<open>frame_forward\<close> and may call the natives of this
  module, so it is a list of native calls, the value it returns, and the number of bytes of
  the plugin's AMX heap it leaves allocated.
\<close>

datatype native_call =
    RF_set_timer add_args
  | RF_remove_timer amx nat
  | RF_remove_timer_id amx nat
  | RF_change_timer_id amx nat rat cell nat

record callback =
  cb_calls :: "native_call list"
  cb_ret :: int
  cb_leak :: nat

type_synonym register = "amx \<Rightarrow> string \<Rightarrow> int"

fun run_native :: "register \<Rightarrow> native_call \<Rightarrow> tmgr \<Rightarrow> timer_error + tmgr" where
  "run_native reg (RF_set_timer x) st = bind_r (add_timer reg x st) (\<lambda>(_, st'). Inr st')"
| "run_native reg (RF_remove_timer a g) st = bind_r (remove_timers a g st) (\<lambda>(_, st'). Inr st')"
| "run_native reg (RF_remove_timer_id a i) st =
     bind_r (remove_timer_by_id a i st) (\<lambda>(_, st'). Inr st')"
| "run_native reg (RF_change_timer_id a i d f r) st = Inr (snd (change_timer_by_id a i d f r st))"

fun run_natives :: "register \<Rightarrow> native_call list \<Rightarrow> tmgr \<Rightarrow> timer_error + tmgr" where
  "run_natives reg [] st = Inr st"
| "run_natives reg (c # cs) st = bind_r (run_native reg c st) (run_natives reg cs)"

definition get_timer :: "tmgr \<Rightarrow> (tm \<times> tmgr) option" where
  "get_timer st =
     (if m_frames st = [] then None
      else Some (pq_top (m_frames st), st\<lparr>m_frames := pq_pop (m_frames st)\<rparr>))"

text \<open>
  The environment of one \<^verbatim>\<open>frame_forward\<close>: whether \<^verbatim>\<open>amx_Allot\<close> finds room, the
  callback of each timer, and the steady clock when the timer is rescheduled.
\<close>

record frame_env =
  fe_register :: register
  fe_allot_ok :: bool
  fe_callback :: "tm \<Rightarrow> callback"
  fe_now :: int

definition exec_callback :: "frame_env \<Rightarrow> tm \<Rightarrow> tmgr \<Rightarrow> timer_error + int \<times> tmgr" where
  "exec_callback env t st =
     (if \<not> fe_allot_ok env then Inr (0, st)
      else
        (let a = tm_amx t; data_param = amx_hea st a; total_size = 4 * tm_data_size t;
             live = (case tm_data t of
                       None \<Rightarrow> False
                     | Some p \<Rightarrow> (case heap st p of
                                   None \<Rightarrow> False
                                 | Some d \<Rightarrow> tm_data_size t \<le> length d));
             st1 = st\<lparr>amx_hea := (amx_hea st)(a := data_param + total_size)\<rparr>;
             cb = fe_callback env t
         in if \<not> live then Inl UB_use_after_free
            else bind_r (run_natives (fe_register env) (cb_calls cb) st1) (\<lambda>st2.
              let hea = amx_hea st2 a + cb_leak cb
              in Inr (cb_ret cb,
                      st2\<lparr>amx_hea := (amx_hea st2)(a := if hea - data_param = total_size
                                                        then data_param else hea)\<rparr>))))"

definition repeats :: "tm \<Rightarrow> bool" where
  "repeats t = (has_flag (tm_flags t) TIMER_FLAG_LOOP
                \<or> has_flag (tm_flags t) TIMER_FLAG_REPEAT \<and> 1 < tm_repeat t)"

text \<open>
  \<open>t\<close> is the copy from the queue, whose flags and delay decide; the fields of the registered
  timer \<open>n\<close> are updated.
\<close>

definition reschedule :: "int \<Rightarrow> tm \<Rightarrow> tm \<Rightarrow> tm" where
  "reschedule now t n =
     n\<lparr>tm_time := (if has_flag (tm_flags t) TIMER_FLAG_RELATIVE then now else tm_time n)
                   + delay_ns (tm_delay_sec t),
       tm_repeat := (if has_flag (tm_flags t) TIMER_FLAG_REPEAT
                     then (tm_repeat n + 2 ^ 32 - 1) mod 2 ^ 32 else (tm_repeat n + 1) mod 2 ^ 32),
       tm_executed := False\<rparr>"

definition update_node :: "amx \<Rightarrow> nat \<Rightarrow> nat \<Rightarrow> (tm \<Rightarrow> tm) \<Rightarrow> tmgr \<Rightarrow> timer_error + tmgr" where
  "update_node a g i f st =
     (case group_of a g (m_timers st) of
        None \<Rightarrow> Inl UB_dangling_node
      | Some ts \<Rightarrow>
          if find (\<lambda>t. tm_id t = i) ts = None then Inl UB_dangling_node
          else Inr (st\<lparr>m_timers := set_group a g (upd_first i f ts) (m_timers st)\<rparr>))"

definition frame_forward :: "frame_env \<Rightarrow> tmgr \<Rightarrow> timer_error + tmgr" where
  "frame_forward env st =
     (case get_timer st of
        None \<Rightarrow> Inr st
      | Some (t, st1) \<Rightarrow>
          if stop_timer st1 \<or> tm_amx t = 0 \<or> tm_fwd_id t = - 1 then Inr st1
          else bind_r (get_timer_by_group_id (tm_amx t) (tm_group_id t) (tm_id t) st1) (\<lambda>found.
            case found of
              None \<Rightarrow> Inr st1
            | Some _ \<Rightarrow> bind_r (exec_callback env t st1) (\<lambda>(ret, st2).
                if ret = 0 \<and> repeats t
                then bind_r (update_node (tm_amx t) (tm_group_id t) (tm_id t)
                               (reschedule (fe_now env) t) st2) (\<lambda>st3. Inr (stop False st3))
                else remove_timer_by_group_id (tm_amx t) (tm_group_id t) (tm_id t) st2)))"

text \<open>
  \<^verbatim>\<open>start_frame\<close> after the frame rate is known: the timers are served once every
  \<^verbatim>\<open>frame_rate\<close> frames.
\<close>

definition start_frame :: "frame_env \<Rightarrow> nat \<Rightarrow> tmgr \<Rightarrow> timer_error + tmgr" where
  "start_frame env rate st =
     (let st1 = st\<lparr>frame_rate := rate\<rparr>
      in bind_r (if \<not> stop_timer st1 \<and> frames_count st1 mod frame_rate st1 = 0
                 then frame_forward env st1 else Inr st1)
           (\<lambda>st2. Inr (st2\<lparr>frames_count := (frames_count st2 + 1) mod 2 ^ 64\<rparr>)))"

section \<open>The worker thread\<close>

text \<open>
  The program counter of \<^verbatim>\<open>main\<close>, between its critical sections.  \<open>W_clear\<close>,
  \<open>W_collect\<close> and \<open>W_reset\<close> are the three sections of \<^verbatim>\<open>build_queue\<close>.
\<close>

datatype wpc =
    W_top            \<comment> \<open>\<^verbatim>\<open>while (!stop_main)\<close>\<close>
  | W_clear | W_collect | W_reset
  | W_loop           \<comment> \<open>\<^verbatim>\<open>while (m_timer_queue.size())\<close>\<close>
  | W_dispatch tm    \<comment> \<open>before the section under \<^verbatim>\<open>frame_mutex\<close>\<close>
  | W_pop            \<comment> \<open>before \<^verbatim>\<open>m_timer_queue.pop()\<close>\<close>
  | W_after          \<comment> \<open>after the inner loop\<close>
  | W_wait           \<comment> \<open>in \<^verbatim>\<open>cv.wait\<close>\<close>
  | W_done

definition push_to_queue :: "tm \<Rightarrow> tmgr \<Rightarrow> tmgr" where
  "push_to_queue t st = st\<lparr>m_timer_queue := pq_push tm_time t (m_timer_queue st)\<rparr>"

definition collect_queue :: "tmgr \<Rightarrow> tmgr" where
  "collect_queue st = fold push_to_queue (filter (\<lambda>t. \<not> tm_executed t) (all_tms (m_timers st))) st"

text \<open>\<^verbatim>\<open>build_queue\<close> when no other thread runs in between.\<close>

definition build_queue :: "tmgr \<Rightarrow> tmgr" where
  "build_queue st =
     (let st1 = st\<lparr>m_timer_queue := []\<rparr>
      in if stop_timer st1 then st1 else (collect_queue st1)\<lparr>stop_loop := False\<rparr>)"

text \<open>
  The section under \<^verbatim>\<open>frame_mutex\<close>: the registered timer is marked as executed and the
  copy is queued for the next frame, unless the timer is gone.
\<close>

definition dispatch :: "tm \<Rightarrow> tmgr \<Rightarrow> timer_error + tmgr" where
  "dispatch t st =
     bind_r (get_timer_by_group_id (tm_amx t) (tm_group_id t) (tm_id t) st) (\<lambda>found.
       case found of
         None \<Rightarrow> Inr st
       | Some _ \<Rightarrow>
           bind_r (update_node (tm_amx t) (tm_group_id t) (tm_id t)
                     (\<lambda>n. n\<lparr>tm_executed := True\<rparr>) st)
             (\<lambda>st'. Inr (st'\<lparr>m_frames := pq_push tm_time t (m_frames st')\<rparr>)))"

text \<open>
  One step of the worker, at clock \<open>now\<close>; \<open>None\<close> means that the thread is blocked.  In
  \<open>W_loop\<close> the wait for the first timer ends when the clock is within the millisecond that
  \<^verbatim>\<open>duration_cast\<close> cuts off, or when a flag is set.
\<close>

definition worker_step ::
  "int \<Rightarrow> wpc \<Rightarrow> tmgr \<Rightarrow> (timer_error + wpc \<times> tmgr) option" where
  "worker_step now pc st =
     (case pc of
        W_top \<Rightarrow> Some (Inr (if stop_main st then W_done else W_clear, st))
      | W_clear \<Rightarrow> Some (Inr (W_collect, st\<lparr>m_timer_queue := []\<rparr>))
      | W_collect \<Rightarrow> Some (Inr (if stop_timer st then (W_loop, st) else (W_reset, collect_queue st)))
      | W_reset \<Rightarrow> Some (Inr (W_loop, st\<lparr>stop_loop := False\<rparr>))
      | W_loop \<Rightarrow>
          (case m_timer_queue st of
             [] \<Rightarrow> Some (Inr (W_after, st))
           | _ \<Rightarrow>
               let t = pq_top (m_timer_queue st)
               in if stop_timer st \<or> stop_loop st then Some (Inr (W_after, st))
                  else if tm_time t - now < 1000000 then Some (Inr (W_dispatch t, st))
                  else None)
      | W_dispatch t \<Rightarrow> Some (bind_r (dispatch t st) (\<lambda>st'. Inr (W_pop, st')))
      | W_pop \<Rightarrow>
          Some (if m_timer_queue st = [] then Inl UB_pop_empty
                else Inr (W_loop, st\<lparr>m_timer_queue := pq_pop (m_timer_queue st)\<rparr>))
      | W_after \<Rightarrow>
          Some (Inr (if \<not> stop_timer st \<and> stop_loop st then W_top else W_wait, st))
      | W_wait \<Rightarrow> if \<not> stop_timer st \<and> stop_loop st then Some (Inr (W_top, st)) else None
      | W_done \<Rightarrow> None)"

section \<open>The two threads together\<close>

text \<open>The calls the game thread makes.\<close>

datatype game_call =
    G_native native_call
  | G_frame frame_env nat
  | G_disconnect nat nat
  | G_stop_all

fun game_step :: "register \<Rightarrow> game_call \<Rightarrow> tmgr \<Rightarrow> timer_error + tmgr" where
  "game_step reg (G_native c) st = run_native reg c st"
| "game_step reg (G_frame env rate) st = start_frame env rate st"
| "game_step reg (G_disconnect maxClients i) st = on_client_disconnected maxClients i st"
| "game_step reg G_stop_all st = stop_all st"

text \<open>
  A state of the whole manager: the worker's position and the shared state, or an error.  A
  step is labelled with the number of native calls it runs; the number bounds the timer ids
  handed out so far.
\<close>

type_synonym sys = "timer_error + wpc \<times> tmgr"

fun call_cost :: "game_call \<Rightarrow> tmgr \<Rightarrow> nat" where
  "call_cost (G_native c) st = 1"
| "call_cost (G_frame env rate) st =
     (case m_frames st of [] \<Rightarrow> 0 | t # _ \<Rightarrow> length (cb_calls (fe_callback env t)))"
| "call_cost (G_disconnect maxClients i) st = 0"
| "call_cost G_stop_all st = 0"

inductive sys_step :: "nat \<Rightarrow> sys \<Rightarrow> sys \<Rightarrow> bool" where
  worker: "worker_step now pc st = Some r \<Longrightarrow> sys_step 0 (Inr (pc, st)) r"
| game: "sys_step (call_cost c st) (Inr (pc, st))
           (bind_r (game_step reg c st) (\<lambda>st'. Inr (pc, st')))"

inductive_simps sys_step_Inr: "sys_step k (Inr (pc, st)) r"
inductive_cases sys_step_from_error: "sys_step k (Inl e) r"

inductive reachable :: "nat \<Rightarrow> sys \<Rightarrow> bool" where
  init: "reachable 0 (Inr (W_top, start timer_mngr_init))"
| step: "reachable n s \<Longrightarrow> sys_step k s s' \<Longrightarrow> reachable (n + k) s'"

end
