(* ===== verification/Timer_Inv.thy ===== *)
theory Timer_Inv
  imports Timer_Mngr
begin

text \<open>
  The invariant of the timer manager and its preservation by every operation of the two
  threads: the registered timers carry the plugin and group they are filed under, their ids and
  data blocks are pairwise distinct, the heap holds exactly their blocks (no leak, nothing
  dangling), and every copy of a timer in the two queues agrees with the registered timer of
  the same id.
\<close>

named_theorems timer_defs

declare stop_def [timer_defs] start_def [timer_defs] Let_def [timer_defs]

section \<open>The registered timers as a multiset\<close>

definition reg :: "m_amxx \<Rightarrow> tm multiset" where
  "reg m = mset (all_tms m)"

definition grp :: "m_timers \<Rightarrow> tm multiset" where
  "grp gs = sm_sum (\<lambda>_ ts. mset ts) gs"

lemma mset_group_tms: "mset (group_tms gs) = grp gs"
  by (induction gs) (auto simp: group_tms_def grp_def)

lemma reg_sum: "reg m = sm_sum (\<lambda>_ gs. grp gs) m"
  by (induction m) (auto simp: reg_def all_tms_def mset_group_tms)

lemma set_all_tms [simp]: "set (all_tms m) = set_mset (reg m)"
  by (simp add: reg_def)

text \<open>Every timer is filed under its own plugin and group.\<close>

definition filed :: "m_amxx \<Rightarrow> bool" where
  "filed m = (sm_ok m \<and> (\<forall>e \<in> set m. sm_ok (snd e) \<and>
     (\<forall>d \<in> set (snd e). \<forall>t \<in> set (snd d). tm_amx t = fst e \<and> tm_group_id t = fst d)))"

definition in_group :: "amx \<Rightarrow> nat \<Rightarrow> tm \<Rightarrow> bool" where
  "in_group a g t = (tm_amx t = a \<and> tm_group_id t = g)"

lemma filed_Nil [simp]: "filed []"
  by (simp add: filed_def)

lemma filed_groups: "filed m \<Longrightarrow> map_of m a = Some gs \<Longrightarrow>
  sm_ok gs \<and> (\<forall>d \<in> set gs. \<forall>t \<in> set (snd d). in_group a (fst d) t)"
  by (force simp: filed_def in_group_def dest: map_of_SomeD)

lemma filed_set_group:
  assumes "filed m" "\<forall>t \<in> set ts. in_group a g t"
  shows "filed (set_group a g ts m)"
proof -
  let ?gs = "case map_of m a of None \<Rightarrow> [] | Some gs \<Rightarrow> gs"
  have gs: "sm_ok ?gs" "\<forall>d \<in> set ?gs. \<forall>t \<in> set (snd d). in_group a (fst d) t"
    by (cases "map_of m a"; use filed_groups [OF assms(1), of a] in auto)+
  have "\<forall>d \<in> set (sm_set g ts ?gs). \<forall>t \<in> set (snd d). in_group a (fst d) t"
    using gs(2) assms(2) set_sm_set_subset [of g ts ?gs] by fastforce
  then show ?thesis
    using assms(1) gs(1) set_sm_set_subset [of a "sm_set g ts ?gs" m]
    unfolding filed_def set_group_def in_group_def by fastforce
qed

lemma group_of_set_group [simp]:
  "group_of a g (set_group a' g' ts m) =
     (if a = a' \<and> g = g' then Some ts else group_of a g m)"
  by (auto simp: group_of_def set_group_def split: option.splits)

text \<open>No operation but \<^verbatim>\<open>stop_all\<close> removes a group: the others only empty it.\<close>

definition groups_kept :: "m_amxx \<Rightarrow> m_amxx \<Rightarrow> bool" where
  "groups_kept m m' = (\<forall>a g. group_of a g m \<noteq> None \<longrightarrow> group_of a g m' \<noteq> None)"

lemma groups_kept_refl [simp]: "groups_kept m m"
  by (simp add: groups_kept_def)

lemma groups_kept_trans: "groups_kept m m' \<Longrightarrow> groups_kept m' m'' \<Longrightarrow> groups_kept m m''"
  by (simp add: groups_kept_def)

lemma groups_kept_set_group [simp]: "groups_kept m (set_group a g ts m)"
  by (simp add: groups_kept_def)

lemma groups_kept_sm_map [simp]: "groups_kept m (sm_map (\<lambda>_ gs. sm_map f gs) m)"
  by (auto simp: groups_kept_def group_of_def split: option.splits)

lemma filter_grp_group:
  assumes "sm_ok gs" "\<forall>d \<in> set gs. \<forall>t \<in> set (snd d). in_group a (fst d) t"
  shows "filter_mset (in_group a g) (grp gs) =
         (case map_of gs g of None \<Rightarrow> {#} | Some ts \<Rightarrow> mset ts)"
  using assms
proof (induction gs)
  case (Cons e gs)
  obtain k ts where e: "e = (k, ts)" by force
  have hd: "filter_mset (in_group a g) (mset ts) = (if k = g then mset ts else {#})"
    using Cons.prems(2) e
    by (auto simp: in_group_def intro: filter_mset_none filter_mset_all)
  have "map_of gs g = None" if "k = g"
    using that Cons.prems(1) e by (force simp: sm_ok_Cons map_of_eq_None_iff)
  with Cons hd e show ?case
    by (auto simp: grp_def sm_ok_Cons split: option.splits)
qed (simp add: grp_def)

lemma filter_grp_other:
  assumes "\<forall>d \<in> set gs. \<forall>t \<in> set (snd d). in_group b (fst d) t" "a \<noteq> b"
  shows "filter_mset (in_group a g) (grp gs) = {#}"
  using assms by (intro filter_mset_none) (auto simp: grp_def in_sm_sum in_group_def)

text \<open>A group is exactly the registered timers with its plugin and group id.\<close>

lemma filter_reg_group:
  assumes "filed m"
  shows "filter_mset (in_group a g) (reg m) =
         (case group_of a g m of None \<Rightarrow> {#} | Some ts \<Rightarrow> mset ts)"
  using assms
proof (induction m)
  case (Cons e m)
  obtain b gs where e: "e = (b, gs)" by force
  have f: "filed m" "sm_ok gs" "\<forall>d \<in> set gs. \<forall>t \<in> set (snd d). in_group b (fst d) t"
    "\<forall>k \<in> fst ` set m. b < k"
    using Cons.prems e by (auto simp: filed_def in_group_def sm_ok_Cons)
  show ?case
  proof (cases "a = b")
    case True
    have n: "map_of m a = None"
      using f(4) True by (force simp: map_of_eq_None_iff)
    then have "filter_mset (in_group a g) (reg m) = {#}"
      using Cons.IH [OF f(1)] by (simp add: group_of_def)
    with True filter_grp_group [OF f(2,3)] e show ?thesis
      by (simp add: reg_sum group_of_def)
  next
    case False
    with filter_grp_other [OF f(3) False] Cons.IH [OF f(1)] e show ?thesis
      by (simp add: reg_sum group_of_def)
  qed
qed (simp add: reg_sum group_of_def)

lemma reg_split: "reg m = filter_mset P (reg m) + filter_mset (\<lambda>t. \<not> P t) (reg m)"
  by (rule multiset_partition)

text \<open>Writing one group replaces exactly its timers.\<close>

lemma reg_set_group:
  assumes "filed m"
  shows "reg (set_group a g ts m) = filter_mset (\<lambda>t. \<not> in_group a g t) (reg m) + mset ts"
proof -
  let ?gs = "case map_of m a of None \<Rightarrow> [] | Some gs \<Rightarrow> gs"
  let ?old = "case group_of a g m of None \<Rightarrow> {#} | Some ts \<Rightarrow> mset ts"
  have ok: "sm_ok m" "sm_ok ?gs"
    using assms filed_groups [OF assms, of a] by (auto simp: filed_def split: option.splits)
  have "grp (sm_set g ts ?gs) + ?old = grp ?gs + mset ts"
    using sm_sum_set [OF ok(2), of "\<lambda>_ ts. mset ts" g ts]
    by (auto simp: grp_def group_of_def split: option.splits)
  moreover have "reg (set_group a g ts m) + grp ?gs = reg m + grp (sm_set g ts ?gs)"
    using sm_sum_set [OF ok(1), of "\<lambda>_ gs. grp gs" a "sm_set g ts ?gs"]
    by (auto simp: reg_sum set_group_def grp_def split: option.splits)
  ultimately have "reg (set_group a g ts m) + ?old = reg m + mset ts"
    by (rule mset_chain)
  moreover have "reg m = ?old + filter_mset (\<lambda>t. \<not> in_group a g t) (reg m)"
    using reg_split [of m "in_group a g"] filter_reg_group [OF assms, of a g] by simp
  ultimately show ?thesis by (rule mset_replace)
qed

lemma group_of_in_reg:
  assumes "filed m" "group_of a g m = Some ts" "t \<in> set ts"
  shows "t \<in># reg m" "in_group a g t"
proof -
  have "t \<in># filter_mset (in_group a g) (reg m)"
    using filter_reg_group [OF assms(1), of a g] assms(2,3) by simp
  then show "t \<in># reg m" "in_group a g t" by auto
qed

lemma reg_group_of:
  assumes "filed m" "t \<in># reg m"
  shows "\<exists>ts. group_of (tm_amx t) (tm_group_id t) m = Some ts \<and> t \<in> set ts"
proof -
  have "t \<in># filter_mset (in_group (tm_amx t) (tm_group_id t)) (reg m)"
    using assms(2) by (simp add: in_group_def)
  then show ?thesis
    using filter_reg_group [OF assms(1), of "tm_amx t" "tm_group_id t"]
    by (auto split: option.splits)
qed

section \<open>The invariant\<close>

definition core :: "tm \<Rightarrow> amx \<times> nat \<times> ptr option \<times> nat" where
  "core t = (tm_amx t, tm_group_id t, tm_data t, tm_data_size t)"

definition reg_inv :: "nat \<Rightarrow> tm multiset \<Rightarrow> heap \<Rightarrow> ptr \<Rightarrow> bool" where
  "reg_inv nums R h b =
     (uniq (image_mset tm_id R) \<and> uniq (image_mset tm_data R)
      \<and> (\<forall>t \<in># R. tm_id t \<le> nums \<and>
            (\<exists>p d. tm_data t = Some p \<and> h p = Some d \<and> length d = tm_data_size t))
      \<and> (\<forall>p \<in> dom h. Some p \<in># image_mset tm_data R \<and> p < b))"

definition copy_inv :: "nat \<Rightarrow> tm multiset \<Rightarrow> tm \<Rightarrow> bool" where
  "copy_inv nums R c = (tm_id c \<le> nums \<and> (\<forall>t \<in># R. tm_id t = tm_id c \<longrightarrow> core t = core c))"

definition pc_copies :: "wpc \<Rightarrow> tm set" where
  "pc_copies pc = (case pc of W_dispatch t \<Rightarrow> {t} | _ \<Rightarrow> {})"

definition copies :: "wpc \<Rightarrow> tmgr \<Rightarrow> tm set" where
  "copies pc st = pc_copies pc \<union> set (m_timer_queue st) \<union> set (m_frames st)"

definition timers_inv :: "tmgr \<Rightarrow> bool" where
  "timers_inv st = (filed (m_timers st)
     \<and> reg_inv (m_timer_nums st) (reg (m_timers st)) (heap st) (brk st))"

definition has_group :: "m_amxx \<Rightarrow> tm \<Rightarrow> bool" where
  "has_group m c = (group_of (tm_amx c) (tm_group_id c) m \<noteq> None)"

definition timer_inv :: "wpc \<Rightarrow> tmgr \<Rightarrow> bool" where
  "timer_inv pc st = (timers_inv st \<and>
     (\<forall>c \<in> copies pc st. copy_inv (m_timer_nums st) (reg (m_timers st)) c) \<and>
     (\<forall>c \<in> set (m_timer_queue st) \<union> set (m_frames st). has_group (m_timers st) c))"

lemma reg_inv_id_inj:
  "reg_inv n R h b \<Longrightarrow> s \<in># R \<Longrightarrow> t \<in># R \<Longrightarrow> tm_id s = tm_id t \<Longrightarrow> s = t"
  by (auto simp: reg_inv_def intro: uniq_image_inj)

lemma reg_inv_live:
  "reg_inv n R h b \<Longrightarrow> t \<in># R \<Longrightarrow>
   \<exists>p d. tm_data t = Some p \<and> h p = Some d \<and> length d = tm_data_size t"
  by (simp add: reg_inv_def)

lemma reg_inv_mono: "reg_inv n R h b \<Longrightarrow> n \<le> n' \<Longrightarrow> reg_inv n' R h b"
  by (force simp: reg_inv_def)

lemma copy_inv_mono:
  "copy_inv n R c \<Longrightarrow> n \<le> n' \<Longrightarrow> copy_inv n' R c"
  by (auto simp: copy_inv_def)

lemma copy_inv_subset: "copy_inv n R c \<Longrightarrow> R' \<subseteq># R \<Longrightarrow> copy_inv n R' c"
  by (auto simp: copy_inv_def dest: mset_subset_eqD)


section \<open>How the operations change the invariant\<close>

definition freed :: "tm multiset \<Rightarrow> heap \<Rightarrow> heap" where
  "freed M h = (\<lambda>p. if Some p \<in># image_mset tm_data M then None else h p)"

lemma freed_empty [simp]: "freed {#} h = h"
  by (simp add: freed_def)

lemma freed_freed [simp]: "freed A (freed B h) = freed (B + A) h"
  by (auto simp: freed_def)

lemma reg_inv_remove:
  assumes "reg_inv n R h b"
  shows "reg_inv n (filter_mset (\<lambda>t. \<not> P t) R) (freed (filter_mset P R) h) b"
proof -
  have inj: "s = t" if "s \<in># R" "t \<in># R" "tm_data s = tm_data t" for s t
    using assms that uniq_image_inj [of tm_data R s t] by (simp add: reg_inv_def)
  have "\<exists>p d. tm_data t = Some p \<and> freed (filter_mset P R) h p = Some d
          \<and> length d = tm_data_size t" if t: "t \<in># R" "\<not> P t" for t
  proof -
    from assms t obtain p d
      where pd: "tm_data t = Some p" "h p = Some d" "length d = tm_data_size t"
      unfolding reg_inv_def by blast
    have "Some p \<notin># image_mset tm_data (filter_mset P R)"
      using inj t pd(1) by fastforce
    with pd show ?thesis by (simp add: freed_def)
  qed
  moreover have "Some p \<in># image_mset tm_data (filter_mset (\<lambda>t. \<not> P t) R) \<and> p < b"
    if "p \<in> dom (freed (filter_mset P R) h)" for p
  proof -
    from that have p: "p \<in> dom h" "Some p \<notin># image_mset tm_data (filter_mset P R)"
      by (auto simp: freed_def split: if_splits)
    with assms have "Some p \<in># image_mset tm_data R" "p < b"
      by (auto simp: reg_inv_def)
    with p(2) show ?thesis by auto
  qed
  ultimately show ?thesis
    using assms unfolding reg_inv_def by (auto intro: uniq_image_filter)
qed

lemma reg_inv_add:
  assumes "reg_inv n R h b" "n < tm_id t" "tm_data t = Some b" "length d = tm_data_size t"
  shows "reg_inv (tm_id t) (add_mset t R) (h(b \<mapsto> d)) (b + 1)"
proof -
  have b: "b \<notin> dom h" "Some b \<notin># image_mset tm_data R"
    using assms(1) by (force simp: reg_inv_def)+
  have "tm_id t \<notin># image_mset tm_id R"
    using assms(1,2) by (force simp: reg_inv_def)
  moreover have "tm_id s \<le> tm_id t" if "s \<in># R" for s
    using assms(1,2) that by (force simp: reg_inv_def)
  moreover have "\<exists>p e. tm_data s = Some p \<and> (h(b \<mapsto> d)) p = Some e \<and> length e = tm_data_size s"
    if "s \<in># R" for s
    using reg_inv_live [OF assms(1) that] b(1) by (fastforce simp: domIff)
  ultimately show ?thesis
    using assms b unfolding reg_inv_def by (auto simp: less_Suc_eq)
qed

lemma reg_inv_update:
  assumes "reg_inv n (add_mset t R) h b" "core t' = core t" "tm_id t' = tm_id t"
  shows "reg_inv n (add_mset t' R) h b"
  using assms by (simp add: reg_inv_def core_def)

lemma copy_inv_update:
  assumes "copy_inv n (add_mset t R) c" "core t' = core t" "tm_id t' = tm_id t"
  shows "copy_inv n (add_mset t' R) c"
  using assms by (simp add: copy_inv_def)

lemma copy_inv_add:
  "copy_inv n R c \<Longrightarrow> n < tm_id t \<Longrightarrow> copy_inv (tm_id t) (add_mset t R) c"
  by (auto simp: copy_inv_def)

text \<open>Freeing distinct live blocks succeeds and clears exactly these blocks.\<close>

definition live_in :: "heap \<Rightarrow> tm \<Rightarrow> bool" where
  "live_in h t = (\<exists>p. tm_data t = Some p \<and> h p \<noteq> None)"

lemma reg_inv_live_in: "reg_inv n R h b \<Longrightarrow> t \<in># R \<Longrightarrow> live_in h t"
  using reg_inv_live [of n R h b t] by (auto simp: live_in_def)

lemma reg_inv_uniq_data:
  "reg_inv n R h b \<Longrightarrow> M \<subseteq># R \<Longrightarrow> uniq (image_mset tm_data M)"
  by (rule uniq_mono [of _ "image_mset tm_data R"])
    (auto simp: reg_inv_def image_mset_subseteq_mono)

lemma remove_data_timer_live:
  "live_in h t \<Longrightarrow> remove_data_timer h t = Inr (freed {#t#} h)"
  by (auto simp: live_in_def remove_data_timer_def freed_def fun_eq_iff)

lemma live_in_freed:
  "live_in h s \<Longrightarrow> tm_data s \<noteq> tm_data t \<Longrightarrow> live_in (freed {#t#} h) s"
  by (auto simp: live_in_def freed_def)

lemma live_in_freed_all:
  "live_in h s \<Longrightarrow> tm_data s \<notin># image_mset tm_data M \<Longrightarrow> live_in (freed M h) s"
  unfolding live_in_def freed_def by (metis (no_types, lifting))

lemma remove_data_all_live:
  assumes "\<forall>t \<in> set ts. live_in h t" "uniq (image_mset tm_data (mset ts))"
  shows "remove_data_all_timers h ts = Inr (freed (mset ts) h)"
  using assms
proof (induction ts arbitrary: h)
  case (Cons t ts)
  then have "\<forall>s \<in> set ts. live_in (freed {#t#} h) s"
    by (metis image_eqI image_mset_add_mset list.set_intros(2) live_in_freed mset.simps(2)
        set_image_mset set_mset_mset uniq_add)
  with Cons show ?case
    by (simp add: remove_data_timer_live)
qed simp

lemma remove_if_id_live:
  assumes "\<forall>t \<in> set ts. live_in h t" "uniq (image_mset tm_data (mset ts))"
  shows "remove_if_id i h ts =
    Inr (freed (filter_mset (\<lambda>t. tm_id t = i) (mset ts)) h, filter (\<lambda>t. tm_id t \<noteq> i) ts)"
  using assms
proof (induction ts arbitrary: h)
  case (Cons t ts)
  then have "\<forall>s \<in> set ts. live_in (freed {#t#} h) s"
    by (metis image_eqI image_mset_add_mset list.set_intros(2) live_in_freed mset.simps(2)
        set_image_mset set_mset_mset uniq_add)
  with Cons show ?case
    by (simp add: remove_data_timer_live)
qed simp

lemma disconnect_groups_live:
  assumes "\<forall>t \<in> set (group_tms gs). live_in h t" "uniq (image_mset tm_data (grp gs))"
  shows "disconnect_groups i h gs =
    Inr (freed (sm_sum (\<lambda>g ts. if player_group i g then mset ts else {#}) gs) h,
         sm_map (\<lambda>g ts. if player_group i g then [] else ts) gs,
         \<exists>g \<in> fst ` set gs. player_group i g)"
  using assms
proof (induction gs arbitrary: h)
  case (Cons e gs)
  obtain g ts where e: "e = (g, ts)" by force
  have u: "uniq (image_mset tm_data (mset ts))" "uniq (image_mset tm_data (grp gs))"
    using Cons.prems(2) e by (auto simp: grp_def elim: uniq_mono [rotated])
  have dis: "tm_data s \<noteq> tm_data t" if "s \<in> set (group_tms gs)" "t \<in> set ts" for s t
  proof -
    have "s \<in># grp gs" using that(1) by (metis mset_group_tms set_mset_mset)
    then have 1: "tm_data s \<in># image_mset tm_data (grp gs)" by simp
    have "\<forall>x \<in># image_mset tm_data (mset ts). x \<notin># image_mset tm_data (grp gs)"
      using Cons.prems(2) e by (simp add: grp_def uniq_union)
    then have 2: "tm_data t \<notin># image_mset tm_data (grp gs)"
      using that(2) by simp
    show ?thesis
    proof
      assume "tm_data s = tm_data t"
      with 1 2 show False by (simp only:)
    qed
  qed
  have live0: "\<forall>s \<in> set (group_tms gs). live_in h s" "\<forall>t \<in> set ts. live_in h t"
    using Cons.prems(1) e by (simp_all add: group_tms_def)
  have live: "\<forall>s \<in> set (group_tms gs). live_in (freed (mset ts) h) s"
  proof
    fix s assume s: "s \<in> set (group_tms gs)"
    then have "tm_data s \<notin># image_mset tm_data (mset ts)"
      using dis [OF s] by auto
    with live0(1) s show "live_in (freed (mset ts) h) s"
      by (intro live_in_freed_all) auto
  qed
  show ?case
    using Cons.IH [OF live u(2)] Cons.IH [OF live0(1) u(2)] e
      remove_data_all_live [OF live0(2) u(1)]
    by (auto simp: sm_map_def ac_simps)
qed (simp add: sm_map_def)


lemma disconnect_amxx_live:
  assumes "\<forall>t \<in># reg m. live_in h t" "uniq (image_mset tm_data (reg m))"
  shows "disconnect_amxx i h m =
    Inr (freed (sm_sum (\<lambda>_ gs. sm_sum (\<lambda>g ts. if player_group i g then mset ts else {#}) gs) m) h,
         sm_map (\<lambda>_ gs. sm_map (\<lambda>g ts. if player_group i g then [] else ts) gs) m,
         \<exists>e \<in> set m. \<exists>g \<in> fst ` set (snd e). player_group i g)"
  using assms
proof (induction m arbitrary: h)
  case (Cons e m)
  obtain a gs where e: "e = (a, gs)" by force
  let ?F = "sm_sum (\<lambda>g ts. if player_group i g then mset ts else {#}) gs"
  have u: "uniq (image_mset tm_data (grp gs))" "uniq (image_mset tm_data (reg m))"
    "\<forall>x \<in># image_mset tm_data (grp gs). x \<notin># image_mset tm_data (reg m)"
    using Cons.prems(2) e by (auto simp: reg_sum uniq_union)
  have sub: "t \<in># ?F \<Longrightarrow> t \<in># grp gs" for t
    by (auto simp: grp_def in_sm_sum split: if_splits)
  have "tm_data s \<notin># image_mset tm_data ?F" if s: "s \<in># reg m" for s
  proof
    assume "tm_data s \<in># image_mset tm_data ?F"
    then have "tm_data s \<in># image_mset tm_data (grp gs)" using sub by auto
    with u(3) have "tm_data s \<notin># image_mset tm_data (reg m)" by blast
    with s show False by simp
  qed
  then have live: "\<forall>s \<in># reg m. live_in (freed ?F h) s"
    using Cons.prems(1) e by (intro ballI live_in_freed_all) (auto simp: reg_sum)
  have "set (group_tms gs) \<subseteq> set_mset (reg (e # m))"
    using e by (auto simp: reg_sum simp flip: mset_group_tms)
  then have live0: "\<forall>s \<in> set (group_tms gs). live_in h s"
    using Cons.prems(1) by blast
  show ?case
    using Cons.IH [OF live u(2)] disconnect_groups_live [OF live0 u(1)] e
    by (auto simp: sm_map_def)
qed (simp add: sm_map_def)

text \<open>The registered timers after a disconnect are the ones outside the player's groups.\<close>

definition of_player :: "nat \<Rightarrow> tm \<Rightarrow> bool" where
  "of_player i t = player_group i (tm_group_id t)"

lemma player_filter_groups:
  assumes "\<forall>d \<in> set gs. \<forall>t \<in> set (snd d). in_group a (fst d) t"
  shows "sm_sum (\<lambda>g ts. if player_group i g then mset ts else {#}) gs
         = filter_mset (of_player i) (grp gs)"
    and "grp (sm_map (\<lambda>g ts. if player_group i g then [] else ts) gs)
         = filter_mset (\<lambda>t. \<not> of_player i t) (grp gs)"
proof -
  have d: "filter_mset (of_player i) (mset (snd d)) = (if player_group i (fst d) then mset (snd d) else {#})"
    "filter_mset (\<lambda>t. \<not> of_player i t) (mset (snd d))
       = (if player_group i (fst d) then {#} else mset (snd d))"
    if "d \<in> set gs" for d
    using assms that
    by (auto simp: in_group_def of_player_def intro!: filter_mset_none filter_mset_all)
  show "sm_sum (\<lambda>g ts. if player_group i g then mset ts else {#}) gs
         = filter_mset (of_player i) (grp gs)"
    unfolding grp_def filter_sm_sum unfolding sm_sum_def
    by (intro arg_cong [where f = sum_list] map_cong refl) (simp add: d)
  show "grp (sm_map (\<lambda>g ts. if player_group i g then [] else ts) gs)
         = filter_mset (\<lambda>t. \<not> of_player i t) (grp gs)"
    unfolding grp_def filter_sm_sum unfolding sm_sum_def sm_map_def map_map
    by (intro arg_cong [where f = sum_list] map_cong refl) (simp add: d)
qed

lemma player_filter_amxx:
  assumes "filed m"
  shows "sm_sum (\<lambda>_ gs. sm_sum (\<lambda>g ts. if player_group i g then mset ts else {#}) gs) m
         = filter_mset (of_player i) (reg m)"
    and "reg (sm_map (\<lambda>_ gs. sm_map (\<lambda>g ts. if player_group i g then [] else ts) gs) m)
         = filter_mset (\<lambda>t. \<not> of_player i t) (reg m)"
    and "filed (sm_map (\<lambda>_ gs. sm_map (\<lambda>g ts. if player_group i g then [] else ts) gs) m)"
proof -
  have g: "\<forall>d \<in> set (snd e). \<forall>t \<in> set (snd d). in_group (fst e) (fst d) t" if "e \<in> set m" for e
    using assms that by (auto simp: filed_def in_group_def)
  note pf = player_filter_groups [OF g]
  show "sm_sum (\<lambda>_ gs. sm_sum (\<lambda>g ts. if player_group i g then mset ts else {#}) gs) m
         = filter_mset (of_player i) (reg m)"
    unfolding reg_sum filter_sm_sum unfolding sm_sum_def [of _ m]
    by (intro arg_cong [where f = sum_list] map_cong refl pf(1))
  show "reg (sm_map (\<lambda>_ gs. sm_map (\<lambda>g ts. if player_group i g then [] else ts) gs) m)
         = filter_mset (\<lambda>t. \<not> of_player i t) (reg m)"
    unfolding reg_sum filter_sm_sum
    unfolding sm_map_def [of "\<lambda>_ gs. sm_map _ gs" m]
    unfolding sm_sum_def [of _ m] sm_sum_def [of _ "map _ m"] map_map
    by (intro arg_cong [where f = sum_list] map_cong refl) (simp add: pf(2))
  show "filed (sm_map (\<lambda>_ gs. sm_map (\<lambda>g ts. if player_group i g then [] else ts) gs) m)"
    using assms unfolding filed_def sm_map_def
    by (auto simp: sm_ok_def comp_def split: if_splits)
qed

section \<open>The operations keep the invariant\<close>

lemma upd_first_None: "find (\<lambda>t. tm_id t = i) ts = None \<Longrightarrow> upd_first i f ts = ts"
  by (induction ts) auto

lemma mset_upd_first:
  "find (\<lambda>t. tm_id t = i) ts = Some t \<Longrightarrow>
   t \<in> set ts \<and> tm_id t = i \<and> mset (upd_first i f ts) = add_mset (f t) (mset ts - {#t#})"
  by (induction ts) (auto split: if_splits)

lemma set_upd_first: "set (upd_first i f ts) \<subseteq> set ts \<union> f ` set ts"
  by (induction ts) auto

text \<open>\<open>keeps f\<close>: a write to a timer that touches neither its id nor its core.\<close>

definition keeps :: "(tm \<Rightarrow> tm) \<Rightarrow> bool" where
  "keeps f = (\<forall>t. core (f t) = core t \<and> tm_id (f t) = tm_id t)"

lemma keeps_simps [simp]:
  "keeps (change_fields d fl r)" "keeps (reschedule now t)"
  "keeps (\<lambda>n. n\<lparr>tm_executed := b\<rparr>)"
  by (auto simp: keeps_def core_def change_fields_def reschedule_def)

text \<open>
  The registry \<open>R'\<close> is \<open>R\<close> with one timer rewritten: what the invariant says of ids, data and
  copies is untouched.
\<close>

lemma rewrite_one:
  assumes "R' = add_mset (f t) (R - {#t#})" "t \<in># R" "keeps f"
  shows "reg_inv n R h b \<Longrightarrow> reg_inv n R' h b" "copy_inv n R c \<Longrightarrow> copy_inv n R' c"
proof -
  obtain S where R: "R = add_mset t S" using assms(2) by (metis insert_DiffM)
  show "reg_inv n R h b \<Longrightarrow> reg_inv n R' h b"
    using reg_inv_update [of n t S h b "f t"] assms(1,3) R by (simp add: keeps_def)
  show "copy_inv n R c \<Longrightarrow> copy_inv n R' c"
    using copy_inv_update [of n t S c "f t"] assms(1,3) R by (simp add: keeps_def)
qed

lemma reg_update_group:
  assumes "filed m" "group_of a g m = Some ts" "find (\<lambda>t. tm_id t = i) ts = Some t" "keeps f"
  shows "filed (set_group a g (upd_first i f ts) m)" "t \<in># reg m"
    "reg (set_group a g (upd_first i f ts) m) = add_mset (f t) (reg m - {#t#})"
proof -
  note ts = group_of_in_reg [OF assms(1,2)]
  note u = mset_upd_first [OF assms(3), of f]
  from u ts show t: "t \<in># reg m" by blast
  have "in_group a g (f s)" if "s \<in> set ts" for s
    using assms(4) ts(2) [OF that] by (simp add: keeps_def core_def in_group_def)
  then have "\<forall>s \<in> set (upd_first i f ts). in_group a g s"
    using set_upd_first [of i f ts] ts(2) by blast
  then show "filed (set_group a g (upd_first i f ts) m)"
    by (rule filed_set_group [OF assms(1)])
  have m: "mset ts = filter_mset (in_group a g) (reg m)"
    using filter_reg_group [OF assms(1), of a g] assms(2) by simp
  have "filter_mset (\<lambda>t. \<not> in_group a g t) (reg m) + (mset ts - {#t#})
        = (filter_mset (\<lambda>t. \<not> in_group a g t) (reg m) + mset ts) - {#t#}"
    using u by (intro mset_add_diff) simp
  also have "\<dots> = reg m - {#t#}"
    using reg_split [of m "in_group a g"] m by (simp add: ac_simps)
  finally show "reg (set_group a g (upd_first i f ts) m) = add_mset (f t) (reg m - {#t#})"
    using reg_set_group [OF assms(1), of a g "upd_first i f ts"] u by simp
qed

end
