(* ===== verification/Timer_Ops.thy ===== *)
theory Timer_Ops
  imports Timer_Inv
begin

text \<open>
  Every operation of the game thread and every step of the worker keeps the invariant of
  \<^verbatim>\<open>Timer_Inv\<close>; the errors an operation can run into are the ones listed here.
\<close>

section \<open>Evolution of the registry\<close>

text \<open>
  \<open>evolves st st'\<close>: the registry of \<open>st'\<close> is consistent, every copy that agreed with the
  registry still does, and the queues were not touched.
\<close>

definition evolves :: "tmgr \<Rightarrow> tmgr \<Rightarrow> bool" where
  "evolves st st' = (timers_inv st'
     \<and> (\<forall>c. copy_inv (m_timer_nums st) (reg (m_timers st)) c
            \<longrightarrow> copy_inv (m_timer_nums st') (reg (m_timers st')) c)
     \<and> m_timer_queue st' = m_timer_queue st \<and> m_frames st' = m_frames st
     \<and> m_timer_nums st \<le> m_timer_nums st' \<and> groups_kept (m_timers st) (m_timers st'))"

lemma evolves_trans: "evolves st st' \<Longrightarrow> evolves st' st'' \<Longrightarrow> evolves st st''"
  unfolding evolves_def by (metis groups_kept_trans order_trans)

lemma evolves_same:
  assumes "timers_inv st" "m_timers st' = m_timers st" "heap st' = heap st" "brk st' = brk st"
    "m_timer_nums st' = m_timer_nums st" "m_timer_queue st' = m_timer_queue st"
    "m_frames st' = m_frames st"
  shows "evolves st st'"
  using assms by (simp add: evolves_def timers_inv_def)

lemma evolves_timer_inv: "timer_inv pc st \<Longrightarrow> evolves st st' \<Longrightarrow> timer_inv pc st'"
  by (simp add: timer_inv_def evolves_def copies_def has_group_def groups_kept_def)

lemma evolves_stop: "evolves st st' \<Longrightarrow> evolves st (stop b st')"
  by (simp add: evolves_def stop_def timers_inv_def)

text \<open>Removing the timers that satisfy \<open>P\<close> together with their data.\<close>

lemma evolves_remove:
  assumes "timers_inv st" "filed m'" "reg m' = filter_mset (\<lambda>t. \<not> P t) (reg (m_timers st))"
    "h' = freed (filter_mset P (reg (m_timers st))) (heap st)" "groups_kept (m_timers st) m'"
  shows "evolves st (st\<lparr>heap := h', m_timers := m'\<rparr>)"
  using assms reg_inv_remove [of "m_timer_nums st" "reg (m_timers st)" "heap st" "brk st" P]
  by (auto simp: evolves_def timers_inv_def intro: copy_inv_subset)

text \<open>Rewriting one registered timer.\<close>

lemma evolves_rewrite:
  assumes "timers_inv st" "filed m'" "t \<in># reg (m_timers st)" "keeps f"
    "reg m' = add_mset (f t) (reg (m_timers st) - {#t#})" "groups_kept (m_timers st) m'"
  shows "evolves st (st\<lparr>m_timers := m'\<rparr>)"
  using assms rewrite_one [OF assms(5,3,4)]
  by (auto simp: evolves_def timers_inv_def)

section \<open>Adding a timer\<close>

lemma get_next_id_small: "n < 2 ^ 32 - 1 \<Longrightarrow> get_next_id n = (n + 1, n + 1)"
  by (auto simp: get_next_id_def Let_def)

lemma clamp_range: "lo \<le> hi \<Longrightarrow> lo \<le> clamp v lo hi \<and> clamp v lo hi \<le> hi"
  by (auto simp: clamp_def)

lemma length_new_data: "new_data data n = Inr d \<Longrightarrow> length d = n"
  by (auto simp: new_data_def split: option.splits if_splits)

lemma group_members:
  assumes "filed m"
  shows "\<forall>t \<in> set (case group_of a g m of None \<Rightarrow> [] | Some ts \<Rightarrow> ts). in_group a g t"
    and "mset (case group_of a g m of None \<Rightarrow> [] | Some ts \<Rightarrow> ts)
         = filter_mset (in_group a g) (reg m)"
  using filter_reg_group [OF assms, of a g] group_of_in_reg [OF assms, of a g]
  by (auto split: option.splits)

text \<open>Filing a new timer adds it to the registry and changes nothing else.\<close>

lemma file_new_timer:
  assumes "filed m" "in_group a g t"
  defines "m' \<equiv> set_group a g ((case group_of a g m of None \<Rightarrow> [] | Some ts \<Rightarrow> ts) @ [t]) m"
  shows "filed m'" "reg m' = add_mset t (reg m)"
proof -
  show "filed m'"
    unfolding m'_def using assms(1,2) group_members(1) [OF assms(1), of a g]
    by (intro filed_set_group) auto
  show "reg m' = add_mset t (reg m)"
    unfolding m'_def reg_set_group [OF assms(1)]
    using group_members(2) [OF assms(1), of a g] reg_split [of m "in_group a g"]
    by (simp add: ac_simps)
qed

lemma create_forward_frame:
  "create_forward r a cb st = (fwd, st') \<Longrightarrow>
   m_timers st' = m_timers st \<and> heap st' = heap st \<and> brk st' = brk st
   \<and> m_timer_nums st' = m_timer_nums st \<and> m_timer_queue st' = m_timer_queue st
   \<and> m_frames st' = m_frames st"
  by (auto simp: create_forward_def Let_def split: option.splits)

lemma make_timer_fields [simp]:
  "tm_id (make_timer x f i p) = i" "tm_data (make_timer x f i p) = Some p"
  "tm_amx (make_timer x f i p) = aa_amx x" "tm_group_id (make_timer x f i p) = aa_group x"
  by (simp_all add: make_timer_def Let_def)

lemma evolves_add:
  assumes "timers_inv st" "tm_id t = m_timer_nums st + 1" "tm_data t = Some (brk st)"
    "length d = tm_data_size t" "in_group a g t"
  shows "evolves st (st\<lparr>m_timer_nums := m_timer_nums st + 1,
     heap := (heap st)(brk st \<mapsto> d), brk := brk st + 1,
     m_timers := set_group a g ((case group_of a g (m_timers st) of None \<Rightarrow> [] | Some ts \<Rightarrow> ts) @ [t])
                   (m_timers st)\<rparr>)"
  using assms file_new_timer [of "m_timers st" a g t]
    reg_inv_add [of "m_timer_nums st" "reg (m_timers st)" "heap st" "brk st" t d]
    copy_inv_add [of "m_timer_nums st" "reg (m_timers st)" _ t]
  by (simp add: evolves_def timers_inv_def)

lemma evolves_nums:
  assumes "timers_inv st"
  shows "evolves st (st\<lparr>m_timer_nums := m_timer_nums st + 1\<rparr>)"
  using assms reg_inv_mono [of "m_timer_nums st" _ _ _ "m_timer_nums st + 1"]
    copy_inv_mono [of "m_timer_nums st" _ _ "m_timer_nums st + 1"]
  by (simp add: evolves_def timers_inv_def)

lemma add_timer_evolves:
  assumes "timers_inv st" "m_timer_nums st < 2 ^ 32 - 1" "add_timer r x st = Inr (b, st')"
  shows "evolves st st' \<and> m_timer_nums st' \<le> m_timer_nums st + 1"
proof -
  obtain fwd st1 where c: "create_forward r (aa_amx x) (aa_name x) st = (fwd, st1)" by force
  note fr = create_forward_frame [OF c]
  have e1: "evolves st st1" using assms(1) fr by (intro evolves_same) auto
  have i1: "timers_inv st1" using e1 by (simp add: evolves_def)
  have n1: "m_timer_nums st1 = m_timer_nums st" using fr by simp
  let ?n = "m_timer_nums st + 1"
  let ?t = "make_timer x fwd ?n (brk st)"
  show ?thesis
  proof (cases "aa_amx x = 0 \<or> fwd = - 1")
    case True
    with assms(3) c e1 n1 show ?thesis by (auto simp: add_timer_def)
  next
    case False
    have id: "get_next_id (m_timer_nums st1) = (?n, ?n)" "?n mod 2 ^ 32 = ?n"
      using assms(2) n1 get_next_id_small by simp_all
    show ?thesis
    proof (cases "aa_alloc_ok x")
      case no: False
      then have "st' = st1\<lparr>m_timer_nums := m_timer_nums st1 + 1\<rparr>"
        using assms(3) c False id n1 by (simp add: add_timer_def Let_def)
      then show ?thesis
        using evolves_trans [OF e1 evolves_nums [OF i1]] n1 by simp
    next
      case True
      with assms(3) c False id n1 fr obtain d where d: "new_data (aa_data x) (tm_data_size ?t) = Inr d"
        and st': "st' = stop False (st1\<lparr>m_timer_nums := m_timer_nums st1 + 1,
          heap := (heap st1)(brk st1 \<mapsto> d), brk := brk st1 + 1,
          m_timers := set_group (aa_amx x) (aa_group x)
            ((case group_of (aa_amx x) (aa_group x) (m_timers st1) of None \<Rightarrow> [] | Some ts \<Rightarrow> ts) @ [?t])
            (m_timers st1)\<rparr>)"
        by (auto simp: add_timer_def Let_def bind_r_eq_Inr)
      have "length d = tm_data_size ?t" using d by (rule length_new_data)
      then have "evolves st1 st'"
        unfolding st' using fr
        by (intro evolves_stop evolves_add [OF i1]) (simp_all add: in_group_def)
      then show ?thesis
        using evolves_trans [OF e1] n1 st' by (simp add: stop_def)
    qed
  qed
qed

lemma add_timer_error: "add_timer r x st = Inl e \<Longrightarrow> e = UB_over_read"
  by (auto simp: add_timer_def Let_def bind_r_eq_Inl new_data_def
      split: prod.splits if_splits option.splits)


section \<open>Removing timers\<close>

lemma group_live:
  assumes "timers_inv st" "group_of a g (m_timers st) = Some ts"
  shows "\<forall>t \<in> set ts. live_in (heap st) t" "uniq (image_mset tm_data (mset ts))"
    "mset ts = filter_mset (in_group a g) (reg (m_timers st))"
proof -
  have f: "filed (m_timers st)" and
    i: "reg_inv (m_timer_nums st) (reg (m_timers st)) (heap st) (brk st)"
    using assms(1) by (auto simp: timers_inv_def)
  show m: "mset ts = filter_mset (in_group a g) (reg (m_timers st))"
    using filter_reg_group [OF f, of a g] assms(2) by simp
  show "\<forall>t \<in> set ts. live_in (heap st) t"
    using group_of_in_reg(1) [OF f assms(2)] reg_inv_live_in [OF i] by blast
  show "uniq (image_mset tm_data (mset ts))"
    unfolding m by (rule reg_inv_uniq_data [OF i]) simp
qed

lemma remove_timers_evolves:
  assumes "timers_inv st"
  shows "\<exists>b st'. remove_timers a g st = Inr (b, st') \<and> evolves st st'
           \<and> m_timer_nums st' = m_timer_nums st
           \<and> reg (m_timers st') = filter_mset (\<lambda>t. \<not> in_group a g t) (reg (m_timers st))"
proof (cases "group_of a g (m_timers st)")
  case None
  have "filter_mset (\<lambda>t. \<not> in_group a g t) (reg (m_timers st)) = reg (m_timers st)"
    using filter_reg_group [of "m_timers st" a g] None assms
    by (intro filter_mset_all) (simp add: timers_inv_def filter_mset_none_iff)
  with None assms show ?thesis
    by (auto simp: remove_timers_def intro: evolves_same)
next
  case (Some ts)
  have f: "filed (m_timers st)" using assms by (simp add: timers_inv_def)
  note l = group_live [OF assms Some]
  let ?m = "set_group a g [] (m_timers st)"
  have m: "filed ?m" "reg ?m = filter_mset (\<lambda>t. \<not> in_group a g t) (reg (m_timers st))"
    using filed_set_group [OF f, of "[]" a g] reg_set_group [OF f, of a g "[]"] by auto
  have "evolves st (st\<lparr>heap := freed (mset ts) (heap st), m_timers := ?m\<rparr>)"
    by (rule evolves_remove [OF assms m]) (simp_all add: l(3))
  with Some m(2) show ?thesis
    by (auto simp: remove_timers_def remove_data_all_live [OF l(1,2)] intro: evolves_stop)
      (simp_all add: stop_def)
qed

lemma remove_timers_no_error: "timers_inv st \<Longrightarrow> remove_timers a g st \<noteq> Inl e"
  using remove_timers_evolves [of st a g] by auto

lemma remove_by_group_id_evolves:
  assumes "timers_inv st"
  shows "\<exists>st'. remove_timer_by_group_id a g i st = Inr st' \<and> evolves st st'
           \<and> m_timer_nums st' = m_timer_nums st
           \<and> reg (m_timers st') =
               filter_mset (\<lambda>t. \<not> (in_group a g t \<and> tm_id t = i)) (reg (m_timers st))"
proof (cases "group_of a g (m_timers st)")
  case None
  have "filter_mset (in_group a g) (reg (m_timers st)) = {#}"
    using filter_reg_group [of "m_timers st" a g] None assms by (simp add: timers_inv_def)
  then have "filter_mset (\<lambda>t. \<not> (in_group a g t \<and> tm_id t = i)) (reg (m_timers st))
             = reg (m_timers st)"
    by (intro filter_mset_all) (simp add: filter_mset_none_iff)
  with None assms show ?thesis
    by (simp add: remove_timer_by_group_id_def evolves_same)
next
  case (Some ts)
  have f: "filed (m_timers st)" using assms by (simp add: timers_inv_def)
  note l = group_live [OF assms Some]
  let ?R = "reg (m_timers st)"
  let ?ts = "filter (\<lambda>t. tm_id t \<noteq> i) ts"
  let ?m = "set_group a g ?ts (m_timers st)"
  have "\<forall>t \<in> set ?ts. in_group a g t"
    using group_of_in_reg(2) [OF f Some] by auto
  then have m: "filed ?m" by (rule filed_set_group [OF f])
  have "reg ?m = filter_mset (\<lambda>t. \<not> in_group a g t) ?R
                 + filter_mset (\<lambda>t. tm_id t \<noteq> i) (filter_mset (in_group a g) ?R)"
    using reg_set_group [OF f, of a g ?ts] l(3) by simp
  also have "\<dots> = filter_mset (\<lambda>t. \<not> (in_group a g t \<and> tm_id t = i)) ?R"
    by (rule filter_mset_recombine)
  finally have r: "reg ?m = filter_mset (\<lambda>t. \<not> (in_group a g t \<and> tm_id t = i)) ?R" .
  have "evolves st (st\<lparr>heap := freed (filter_mset (\<lambda>t. tm_id t = i) (mset ts)) (heap st),
          m_timers := ?m\<rparr>)"
    by (rule evolves_remove [OF assms m r]) (simp_all add: l(3) filter_filter_mset conj_commute)
  with Some r show ?thesis
    by (simp add: remove_timer_by_group_id_def remove_if_id_live [OF l(1,2)])
qed

lemma find_in_groups_SomeD:
  "find_in_groups i gs = Some t \<Longrightarrow> t \<in> set (group_tms gs) \<and> tm_id t = i"
  by (induction i gs rule: find_in_groups.induct)
    (auto simp: group_tms_def dest: find_SomeD split: option.splits)

lemma find_in_groups_None:
  "find_in_groups i gs = None \<longleftrightarrow> (\<forall>t \<in> set (group_tms gs). tm_id t \<noteq> i)"
  by (induction i gs rule: find_in_groups.induct)
    (auto simp: group_tms_def find_None_iff_set dest: find_SomeD split: option.splits)

lemma groups_in_reg:
  assumes "map_of m a = Some gs" "t \<in> set (group_tms gs)"
  shows "t \<in># reg m"
proof -
  have "t \<in># grp gs" using assms(2) by (metis mset_group_tms set_mset_mset)
  with assms(1) show ?thesis by (force simp: reg_sum in_sm_sum dest: map_of_SomeD)
qed

lemma remove_timer_by_id_result:
  assumes "timers_inv st"
  shows "remove_timer_by_id a i st =
    (case get_timer_by_id a i st of
       Some _ \<Rightarrow> Inl UB_erased_iterator
     | None \<Rightarrow> Inr (False, if map_of (m_timers st) a = None then st else stop False st))"
proof (cases "map_of (m_timers st) a")
  case (Some gs)
  have "live_in (heap st) t" if "find_in_groups i gs = Some t" for t
    using that assms groups_in_reg [OF Some] find_in_groups_SomeD [of i gs t]
    by (auto simp: timers_inv_def intro: reg_inv_live_in)
  with Some show ?thesis
    by (auto simp: remove_timer_by_id_def get_timer_by_id_def remove_data_timer_live
        split: option.splits)
qed (simp add: remove_timer_by_id_def get_timer_by_id_def)

section \<open>Changing a timer\<close>

lemma upd_in_groups_None: "find_in_groups i gs = None \<Longrightarrow> upd_in_groups i f gs = gs"
  by (induction i f gs rule: upd_in_groups.induct) (auto split: option.splits)

lemma upd_in_groups_sm_set:
  assumes "sm_ok gs" "find_in_groups i gs = Some t"
  shows "\<exists>g ts. map_of gs g = Some ts \<and> find (\<lambda>t. tm_id t = i) ts = Some t
           \<and> upd_in_groups i f gs = sm_set g (upd_first i f ts) gs"
  using assms
proof (induction i f gs rule: upd_in_groups.induct)
  case (2 i f k ts gs)
  show ?case
  proof (cases "find (\<lambda>t. tm_id t = i) ts")
    case None
    with 2 obtain g us where u: "map_of gs g = Some us" "find (\<lambda>t. tm_id t = i) us = Some t"
      "upd_in_groups i f gs = sm_set g (upd_first i f us) gs"
      by (auto simp: sm_ok_Cons)
    have "k < g" using u(1) "2.prems"(1) by (force simp: sm_ok_Cons dest: map_of_SomeD)
    with u None show ?thesis
      by (intro exI [of _ g] exI [of _ us]) auto
  next
    case (Some s)
    with "2.prems" show ?thesis
      by (intro exI [of _ k] exI [of _ ts]) auto
  qed
qed simp

lemma sm_set_is_map:
  "sm_ok m \<Longrightarrow> map_of m a = Some v \<Longrightarrow>
   sm_map (\<lambda>k w. if k = a then f w else w) m = sm_set a (f v) m"
proof (induction m)
  case (Cons e m)
  obtain k w where e: "e = (k, w)" by force
  show ?case
  proof (cases "k = a")
    case True
    have "sm_map (\<lambda>k w. if k = a then f w else w) m = m"
      using Cons.prems(1) e True unfolding sm_map_def
      by (intro map_idI) (force simp: sm_ok_Cons)
    with True e Cons.prems show ?thesis by (simp add: sm_map_def)
  next
    case False
    with Cons.prems e have "k < a"
      by (force simp: sm_ok_Cons dest: map_of_SomeD)
    with Cons e False show ?thesis
      by (simp add: sm_map_def sm_ok_Cons)
  qed
qed simp

lemma change_timer_evolves:
  assumes "timers_inv st"
  shows "evolves st (snd (change_timer_by_id a i d fl r st))
         \<and> m_timer_nums (snd (change_timer_by_id a i d fl r st)) = m_timer_nums st"
proof (cases "get_timer_by_id a i st")
  case None
  with assms show ?thesis by (simp add: change_timer_by_id_def evolves_same)
next
  case (Some t)
  let ?f = "change_fields d fl r"
  have f: "filed (m_timers st)" using assms by (simp add: timers_inv_def)
  from Some obtain gs where gs: "map_of (m_timers st) a = Some gs" "find_in_groups i gs = Some t"
    by (auto simp: get_timer_by_id_def split: option.splits)
  have ok: "sm_ok gs" "sm_ok (m_timers st)"
    using filed_groups [OF f gs(1)] f by (auto simp: filed_def)
  from upd_in_groups_sm_set [OF ok(1) gs(2), of ?f] obtain g ts where
    g: "map_of gs g = Some ts" "find (\<lambda>t. tm_id t = i) ts = Some t"
      "upd_in_groups i ?f gs = sm_set g (upd_first i ?f ts) gs" by blast
  have go: "group_of a g (m_timers st) = Some ts" using gs(1) g(1) by (simp add: group_of_def)
  have m: "sm_map (\<lambda>a' gs. if a' = a then upd_in_groups i ?f gs else gs) (m_timers st)
        = set_group a g (upd_first i ?f ts) (m_timers st)"
    using sm_set_is_map [OF ok(2) gs(1), of "upd_in_groups i ?f"] gs(1) g(3)
    by (simp add: set_group_def)
  have k: "keeps ?f" by simp
  note u = reg_update_group [OF f go g(2) k]
  have "evolves st (st\<lparr>m_timers := set_group a g (upd_first i ?f ts) (m_timers st)\<rparr>)"
    by (rule evolves_rewrite [OF assms u(1,2) k u(3)]) simp
  with Some m show ?thesis
    by (simp add: change_timer_by_id_def evolves_stop) (simp add: stop_def)
qed


section \<open>Disconnects and \<^verbatim>\<open>stop_all\<close>\<close>

lemma disconnect_evolves:
  assumes "timers_inv st"
  shows "\<exists>st'. on_client_disconnected mc i st = Inr st' \<and> evolves st st'
           \<and> m_timer_nums st' = m_timer_nums st
           \<and> (is_valid_index mc i \<longrightarrow>
                reg (m_timers st') = filter_mset (\<lambda>t. \<not> of_player i t) (reg (m_timers st)))"
proof (cases "is_valid_index mc i")
  case False
  with assms show ?thesis by (simp add: on_client_disconnected_def evolves_same)
next
  case True
  let ?R = "reg (m_timers st)"
  let ?m = "sm_map (\<lambda>_ gs. sm_map (\<lambda>g ts. if player_group i g then [] else ts) gs) (m_timers st)"
  have f: "filed (m_timers st)"
    and i: "reg_inv (m_timer_nums st) ?R (heap st) (brk st)"
    using assms by (auto simp: timers_inv_def)
  note p = player_filter_amxx [OF f, of i]
  have live: "\<forall>t \<in># ?R. live_in (heap st) t"
    using reg_inv_live_in [OF i] by blast
  have uq: "uniq (image_mset tm_data ?R)" by (rule reg_inv_uniq_data [OF i]) simp
  have "evolves st (st\<lparr>heap := freed (filter_mset (of_player i) ?R) (heap st), m_timers := ?m\<rparr>)"
    by (rule evolves_remove [OF assms p(3) p(2)]) simp_all
  moreover define st1 where "st1 = st\<lparr>heap := freed (filter_mset (of_player i) ?R) (heap st), m_timers := ?m\<rparr>"
  ultimately have e: "evolves st st1" "evolves st (stop False st1)"
    by (simp_all add: evolves_stop)
  have st1: "m_timer_nums st1 = m_timer_nums st" "m_timer_nums (stop False st1) = m_timer_nums st"
    "reg (m_timers st1) = filter_mset (\<lambda>t. \<not> of_player i t) ?R"
    "reg (m_timers (stop False st1)) = filter_mset (\<lambda>t. \<not> of_player i t) ?R"
    using p(2) by (simp_all add: st1_def stop_def)
  define b where "b = (\<exists>e \<in> set (m_timers st). \<exists>g \<in> fst ` set (snd e). player_group i g)"
  have "on_client_disconnected mc i st = Inr (if b then stop False st1 else st1)"
    using True p(1) by (simp add: on_client_disconnected_def disconnect_amxx_live [OF live uq]
        Let_def st1_def b_def)
  with e st1 show ?thesis by (cases b) auto
qed

text \<open>After \<^verbatim>\<open>stop_all\<close> nothing is registered, queued or allocated.\<close>

definition cleared :: "tmgr \<Rightarrow> bool" where
  "cleared st = (m_timers st = [] \<and> m_timer_queue st = [] \<and> m_frames st = []
     \<and> m_callbacks st = [] \<and> heap st = Map.empty)"

lemma reg_inv_freed_all:
  assumes "reg_inv n R h b"
  shows "freed R h = Map.empty"
proof
  fix p
  have "h p = None" if "Some p \<notin># image_mset tm_data R"
    using assms that unfolding reg_inv_def by blast
  then show "freed R h p = None" by (simp add: freed_def)
qed

lemma reg_empty [simp]: "reg [] = {#}"
  by (simp add: reg_def all_tms_def)

lemma stop_all_cleared:
  assumes "timers_inv st"
  shows "\<exists>st'. stop_all st = Inr st' \<and> cleared st' \<and> timers_inv st'
           \<and> m_timer_nums st' = m_timer_nums st \<and> stop_main st' = stop_main st
           \<and> stop_timer st' = stop_main st \<and> stop_loop st'"
proof -
  have i: "reg_inv (m_timer_nums st) (reg (m_timers st)) (heap st) (brk st)"
    using assms by (simp add: timers_inv_def)
  have "remove_data_all_timers (heap st) (all_tms (m_timers st))
        = Inr (freed (mset (all_tms (m_timers st))) (heap st))"
    using reg_inv_live_in [OF i] reg_inv_uniq_data [OF i, of "reg (m_timers st)"]
    by (intro remove_data_all_live) (simp_all add: reg_def [symmetric])
  moreover have "freed (mset (all_tms (m_timers st))) (heap st) = Map.empty"
    using reg_inv_freed_all [OF i] by (simp only: reg_def)
  ultimately have "remove_all_timers st' = Inr (st'\<lparr>heap := Map.empty, m_timers := []\<rparr>)"
    if "heap st' = heap st" "m_timers st' = m_timers st" for st'
    using that by (simp add: remove_all_timers_def)
  then have "stop_all st = Inr (
      let s = (stop True (st\<lparr>frames_count := 0\<rparr>))\<lparr>m_frames := [], m_timer_queue := [],
                heap := Map.empty, m_timers := [], m_callbacks := []\<rparr>
      in if \<not> stop_main s then start s else s)"
    by (simp add: stop_all_def stop_def Let_def)
  then show ?thesis
    by (simp add: stop_def start_def Let_def cleared_def timers_inv_def reg_inv_def)
qed

lemma cleared_timer_inv:
  assumes "timer_inv pc st" "timers_inv st'" "cleared st'" "m_timer_nums st' = m_timer_nums st"
  shows "timer_inv pc st'"
proof -
  have "copy_inv (m_timer_nums st') (reg (m_timers st')) c" if "c \<in> pc_copies pc" for c
    using assms that by (auto simp: timer_inv_def copies_def cleared_def copy_inv_def)
  then show ?thesis
    using assms(2,3) by (auto simp: timer_inv_def copies_def cleared_def)
qed

section \<open>Callbacks and frames\<close>

definition native_errors :: "timer_error set" where
  "native_errors = {UB_over_read, UB_erased_iterator}"

lemma run_native_error:
  assumes "timers_inv st" "run_native r c st = Inl e"
  shows "e \<in> native_errors"
  using assms remove_timers_no_error [OF assms(1)]
  by (cases c)
    (auto simp: native_errors_def bind_r_eq_Inl remove_timer_by_id_result dest: add_timer_error
      split: option.splits)

lemma run_native_evolves:
  assumes "timers_inv st" "m_timer_nums st < 2 ^ 32 - 1" "run_native r c st = Inr st'"
  shows "evolves st st' \<and> m_timer_nums st' \<le> m_timer_nums st + 1"
proof (cases c)
  case (RF_set_timer x)
  with assms add_timer_evolves [OF assms(1,2)] show ?thesis
    by (auto simp: bind_r_eq_Inr)
next
  case (RF_remove_timer a g)
  with assms(3) remove_timers_evolves [OF assms(1), of a g] show ?thesis
    by (auto simp: bind_r_eq_Inr)
next
  case (RF_remove_timer_id a i)
  with assms(3) remove_timer_by_id_result [OF assms(1), of a i] evolves_same [OF assms(1)]
    evolves_stop [OF evolves_same [OF assms(1), of st], of False]
  show ?thesis
    by (auto simp: bind_r_eq_Inr split: option.splits if_splits) (simp add: stop_def)
next
  case (RF_change_timer_id a i d fl rp)
  with assms(3) change_timer_evolves [OF assms(1)] show ?thesis by auto
qed

lemma run_natives_evolves:
  assumes "timers_inv st" "m_timer_nums st + length cs < 2 ^ 32"
  shows "run_natives r cs st = Inr st' \<Longrightarrow>
           evolves st st' \<and> m_timer_nums st' \<le> m_timer_nums st + length cs"
    and "run_natives r cs st = Inl e \<Longrightarrow> e \<in> native_errors"
  using assms
proof (induction cs arbitrary: st)
  case Nil
  { case 1 then show ?case by (auto intro: evolves_same) }
  { case 2 then show ?case by simp }
next
  case (Cons c cs)
  have step: "evolves st s \<and> m_timer_nums s \<le> m_timer_nums st + 1"
    if "timers_inv st" "m_timer_nums st + length (c # cs) < 2 ^ 32" "run_native r c st = Inr s"
    for st s
    using run_native_evolves [OF that(1) _ that(3)] that(2) by simp
  { case 1
    then obtain s where s: "run_native r c st = Inr s" "run_natives r cs s = Inr st'"
      by (auto simp: bind_r_eq_Inr)
    from step [OF 1(2,3) s(1)] have e: "evolves st s" "m_timer_nums s \<le> m_timer_nums st + 1" by auto
    have "timers_inv s" "m_timer_nums s + length cs < 2 ^ 32" using e 1(3) by (auto simp: evolves_def)
    from Cons.IH(1) [OF s(2) this] e show ?case by (auto intro: evolves_trans)
  }
  { case 2
    show ?case
    proof (cases "run_native r c st")
      case (Inl a)
      with 2 run_native_error [OF 2(2)] show ?thesis by auto
    next
      case (Inr s)
      from step [OF 2(2,3) Inr] have e: "evolves st s" "m_timer_nums s \<le> m_timer_nums st + 1" by auto
      have "timers_inv s" "m_timer_nums s + length cs < 2 ^ 32" using e 2(3) by (auto simp: evolves_def)
      from Cons.IH(2) [OF _ this] 2(1) Inr show ?thesis by auto
    qed
  }
qed

end
