(* ===== verification/Timer_Run.thy ===== *)
theory Timer_Run
  imports Timer_Ops
begin

text \<open>
  The frame, the worker and the two threads together: the invariant holds in every reachable
  state, and what is left of undefined behaviour is classified.
\<close>

section \<open>Frames and the worker's section keep the invariant\<close>

lemma lookup_registered:
  assumes "timers_inv st" "get_timer_by_group_id a g i st = Inr (Some t)"
  shows "\<exists>ts. group_of a g (m_timers st) = Some ts \<and> find (\<lambda>t. tm_id t = i) ts = Some t
           \<and> t \<in># reg (m_timers st) \<and> tm_id t = i \<and> in_group a g t"
proof -
  from assms(2) obtain ts where ts: "group_of a g (m_timers st) = Some ts"
    "find (\<lambda>t. tm_id t = i) ts = Some t"
    by (auto simp: get_timer_by_group_id_def group_of_def split: option.splits)
  moreover have "t \<in> set ts" "tm_id t = i" using find_SomeD [OF ts(2)] by auto
  moreover have "filed (m_timers st)" using assms(1) by (simp add: timers_inv_def)
  ultimately show ?thesis using group_of_in_reg [of "m_timers st" a g ts t] by blast
qed

lemma lookup_no_error:
  "has_group (m_timers st) c \<Longrightarrow>
   get_timer_by_group_id (tm_amx c) (tm_group_id c) i st \<noteq> Inl e"
  by (auto simp: has_group_def group_of_def get_timer_by_group_id_def split: option.splits)

lemma update_node_evolves:
  assumes "timers_inv st" "keeps f" "update_node a g i f st = Inr st'"
  shows "evolves st st' \<and> m_timer_nums st' = m_timer_nums st"
proof -
  from assms(3) obtain ts t where ts: "group_of a g (m_timers st) = Some ts"
    "find (\<lambda>t. tm_id t = i) ts = Some t"
    "st' = st\<lparr>m_timers := set_group a g (upd_first i f ts) (m_timers st)\<rparr>"
    by (auto simp: update_node_def split: option.splits if_splits)
  have f: "filed (m_timers st)" using assms(1) by (simp add: timers_inv_def)
  note u = reg_update_group [OF f ts(1,2) assms(2)]
  show ?thesis
    unfolding ts(3) using evolves_rewrite [OF assms(1) u(1,2) assms(2) u(3)] by simp
qed

lemma update_node_error: "update_node a g i f st = Inl e \<Longrightarrow> e = UB_dangling_node"
  by (auto simp: update_node_def split: option.splits if_splits)

lemma update_node_found:
  "group_of a g (m_timers st) = Some ts \<Longrightarrow> find (\<lambda>t. tm_id t = i) ts = Some t \<Longrightarrow>
   update_node a g i f st = Inr (st\<lparr>m_timers := set_group a g (upd_first i f ts) (m_timers st)\<rparr>)"
  by (simp add: update_node_def)

text \<open>
  The copy that is served agrees with the registered timer, so its data block is allocated and
  long enough: the callback never reads freed memory.
\<close>

lemma exec_callback_evolves:
  assumes inv: "timers_inv st" and t: "t \<in># reg (m_timers st)" "core t = core c"
    and n: "m_timer_nums st + length (cb_calls (fe_callback env c)) < 2 ^ 32"
  shows "exec_callback env c st = Inr (ret, st') \<Longrightarrow>
           evolves st st' \<and>
           m_timer_nums st' \<le> m_timer_nums st + length (cb_calls (fe_callback env c))"
    and "exec_callback env c st = Inl e \<Longrightarrow> e \<in> native_errors"
proof -
  have "reg_inv (m_timer_nums st) (reg (m_timers st)) (heap st) (brk st)"
    using inv by (simp add: timers_inv_def)
  from reg_inv_live [OF this t(1)] t(2) obtain p d where
    live: "tm_data c = Some p" "heap st p = Some d" "length d = tm_data_size c"
    by (auto simp: core_def)
  let ?st1 = "st\<lparr>amx_hea := (amx_hea st)(tm_amx c := amx_hea st (tm_amx c) + 4 * tm_data_size c)\<rparr>"
  have e1: "evolves st ?st1" by (rule evolves_same [OF inv]) simp_all
  then have i1: "timers_inv ?st1" by (simp add: evolves_def)
  note run = run_natives_evolves [OF i1, of "cb_calls (fe_callback env c)" "fe_register env"]
  show "evolves st st' \<and> m_timer_nums st' \<le> m_timer_nums st + length (cb_calls (fe_callback env c))"
    if eq: "exec_callback env c st = Inr (ret, st')"
  proof (cases "fe_allot_ok env")
    case False
    with eq inv show ?thesis by (auto simp: exec_callback_def intro: evolves_same)
  next
    case True
    with eq live obtain st2 h where s2:
      "run_natives (fe_register env) (cb_calls (fe_callback env c)) ?st1 = Inr st2"
      "st' = st2\<lparr>amx_hea := h\<rparr>"
      by (auto simp: exec_callback_def Let_def bind_r_eq_Inr)
    with run(1) [OF _ s2(1)] n have r: "evolves ?st1 st2"
      "m_timer_nums st2 \<le> m_timer_nums st + length (cb_calls (fe_callback env c))" by auto
    have "evolves st2 st'" using r(1) s2(2) by (intro evolves_same) (auto simp: evolves_def)
    with e1 r s2(2) show ?thesis by (auto intro: evolves_trans)
  qed
  show "e \<in> native_errors" if eq: "exec_callback env c st = Inl e"
  proof -
    have "run_natives (fe_register env) (cb_calls (fe_callback env c)) ?st1 = Inl e"
      using eq live by (auto simp: exec_callback_def Let_def bind_r_eq_Inl split: if_splits)
    with run(2) n show ?thesis by simp
  qed
qed

lemma timer_inv_pop_frame:
  "timer_inv pc st \<Longrightarrow> timer_inv pc (st\<lparr>m_frames := pq_pop (m_frames st)\<rparr>)"
  by (cases "m_frames st")
    (auto simp: timer_inv_def timers_inv_def copies_def pq_pop_def)

lemma top_in: "q \<noteq> [] \<Longrightarrow> pq_top q \<in> set q"
  by (simp add: pq_top_def)

definition frame_cost :: "frame_env \<Rightarrow> tmgr \<Rightarrow> nat" where
  "frame_cost env st =
     (case m_frames st of [] \<Rightarrow> 0 | t # _ \<Rightarrow> length (cb_calls (fe_callback env t)))"

lemma frame_cost_top:
  "m_frames st \<noteq> [] \<Longrightarrow> frame_cost env st = length (cb_calls (fe_callback env (pq_top (m_frames st))))"
  by (cases "m_frames st") (auto simp: frame_cost_def pq_top_def)

definition frame_errors :: "timer_error set" where
  "frame_errors = insert UB_dangling_node native_errors"

lemma frame_forward_inv:
  assumes inv: "timer_inv pc st" and n: "m_timer_nums st + frame_cost env st < 2 ^ 32"
  shows "frame_forward env st = Inr st' \<Longrightarrow>
           timer_inv pc st' \<and> m_timer_nums st' \<le> m_timer_nums st + frame_cost env st"
    and "frame_forward env st = Inl e \<Longrightarrow> e \<in> frame_errors"
proof -
  let ?c = "pq_top (m_frames st)"
  let ?st1 = "st\<lparr>m_frames := pq_pop (m_frames st)\<rparr>"
  have i1: "timer_inv pc ?st1" using inv by (rule timer_inv_pop_frame)
  then have t1: "timers_inv ?st1" by (simp add: timer_inv_def)
  have gt: "get_timer st = Some (?c, ?st1)" if "m_frames st \<noteq> []"
    using that by (simp add: get_timer_def)
  have top: "copy_inv (m_timer_nums st) (reg (m_timers st)) ?c" "has_group (m_timers st) ?c"
    if "m_frames st \<noteq> []"
    using inv top_in [OF that] by (auto simp: timer_inv_def copies_def)
  let ?lookup = "get_timer_by_group_id (tm_amx ?c) (tm_group_id ?c) (tm_id ?c) ?st1"
  have exec: "exec_callback env ?c ?st1 = Inr (ret, st2) \<Longrightarrow> evolves ?st1 st2 \<and>
      m_timer_nums st2 \<le> m_timer_nums st + frame_cost env st"
    and exec_err: "exec_callback env ?c ?st1 = Inl e \<Longrightarrow> e \<in> native_errors"
    if ne: "m_frames st \<noteq> []" and lk: "?lookup = Inr (Some t)" for t ret st2 e
  proof -
    from lookup_registered [OF t1 lk] have "t \<in># reg (m_timers ?st1)" "tm_id t = tm_id ?c" by auto
    moreover from this top(1) [OF ne] have "core t = core ?c" by (simp add: copy_inv_def)
    moreover have "m_timer_nums ?st1 + length (cb_calls (fe_callback env ?c)) < 2 ^ 32"
      using n frame_cost_top [OF ne, of env] by simp
    ultimately show "exec_callback env ?c ?st1 = Inr (ret, st2) \<Longrightarrow> evolves ?st1 st2 \<and>
      m_timer_nums st2 \<le> m_timer_nums st + frame_cost env st"
      and "exec_callback env ?c ?st1 = Inl e \<Longrightarrow> e \<in> native_errors"
      using exec_callback_evolves [OF t1, of t ?c env] frame_cost_top [OF ne, of env] by auto
  qed
  show "timer_inv pc st' \<and> m_timer_nums st' \<le> m_timer_nums st + frame_cost env st"
    if r: "frame_forward env st = Inr st'"
  proof (cases "m_frames st = [] \<or> stop_timer st \<or> tm_amx ?c = 0 \<or> tm_fwd_id ?c = - 1 \<or> ?lookup = Inr None")
    case True
    with r inv i1 show ?thesis
      by (auto simp: frame_forward_def get_timer_def split: if_splits)
  next
    case False
    then have ne: "m_frames st \<noteq> []" by simp
    from r False gt [OF ne] obtain t where lk: "?lookup = Inr (Some t)"
      by (cases ?lookup) (auto simp: frame_forward_def split: option.splits)
    from r False gt [OF ne] lk obtain ret st2 where
      ex: "exec_callback env ?c ?st1 = Inr (ret, st2)"
      by (cases "exec_callback env ?c ?st1") (auto simp: frame_forward_def)
    note e = exec [OF ne lk ex]
    have t2: "timers_inv st2" using e by (simp add: evolves_def)
    have "evolves st2 st' \<and> m_timer_nums st' = m_timer_nums st2"
    proof (cases "ret = 0 \<and> repeats ?c")
      case True
      with r False gt [OF ne] lk ex obtain st3 where
        "update_node (tm_amx ?c) (tm_group_id ?c) (tm_id ?c) (reschedule (fe_now env) ?c) st2 = Inr st3"
        "st' = stop False st3"
        by (auto simp: frame_forward_def bind_r_eq_Inr)
      with update_node_evolves [OF t2 keeps_simps(2) this(1)] evolves_stop [of st2 st3 False]
      show ?thesis by (simp add: stop_def)
    next
      case no: False
      with r False gt [OF ne] lk ex have
        "remove_timer_by_group_id (tm_amx ?c) (tm_group_id ?c) (tm_id ?c) st2 = Inr st'"
        by (auto simp: frame_forward_def)
      with remove_by_group_id_evolves [OF t2, of "tm_amx ?c" "tm_group_id ?c" "tm_id ?c"]
      show ?thesis by auto
    qed
    with e evolves_timer_inv [OF i1] show ?thesis by (auto intro: evolves_trans)
  qed
  show "e \<in> frame_errors" if r: "frame_forward env st = Inl e"
  proof -
    from r have ne: "m_frames st \<noteq> []" by (auto simp: frame_forward_def get_timer_def)
    have nl: "?lookup \<noteq> Inl e'" for e'
      using lookup_no_error [of ?st1 ?c] top(2) [OF ne] by simp
    from r gt [OF ne] nl obtain t where lk: "?lookup = Inr (Some t)"
      by (cases ?lookup) (auto simp: frame_forward_def split: option.splits if_splits)
    show ?thesis
    proof (cases "exec_callback env ?c ?st1")
      case (Inl e')
      with r gt [OF ne] lk have "e = e'" by (auto simp: frame_forward_def split: if_splits)
      with exec_err [OF ne lk] Inl show ?thesis by (simp add: frame_errors_def)
    next
      case (Inr x)
      obtain ret st2 where x: "x = (ret, st2)" by force
      have t2: "timers_inv st2" using exec [OF ne lk] Inr x by (simp add: evolves_def)
      from r gt [OF ne] lk Inr x
        remove_by_group_id_evolves [OF t2, of "tm_amx ?c" "tm_group_id ?c" "tm_id ?c"]
      show ?thesis
        by (auto simp: frame_forward_def frame_errors_def bind_r_eq_Inl
            dest: update_node_error split: if_splits)
    qed
  qed
qed


text \<open>\<^verbatim>\<open>start_frame\<close> only adds the frame counter.\<close>

lemma timer_inv_same:
  assumes "timer_inv pc st" "m_timers st' = m_timers st" "heap st' = heap st" "brk st' = brk st"
    "m_timer_nums st' = m_timer_nums st" "m_timer_queue st' = m_timer_queue st"
    "m_frames st' = m_frames st"
  shows "timer_inv pc st'"
  using assms by (simp add: timer_inv_def timers_inv_def copies_def)

lemma start_frame_inv:
  assumes inv: "timer_inv pc st" and n: "m_timer_nums st + frame_cost env st < 2 ^ 32"
  shows "start_frame env rate st = Inr st' \<Longrightarrow>
           timer_inv pc st' \<and> m_timer_nums st' \<le> m_timer_nums st + frame_cost env st"
    and "start_frame env rate st = Inl e \<Longrightarrow> e \<in> frame_errors"
proof -
  let ?s = "st\<lparr>frame_rate := rate\<rparr>"
  have i: "timer_inv pc ?s" by (rule timer_inv_same [OF inv]) simp_all
  have c: "m_timer_nums ?s + frame_cost env ?s < 2 ^ 32" "frame_cost env ?s = frame_cost env st"
    using n by (simp_all add: frame_cost_def)
  note f = frame_forward_inv [OF i c(1)]
  show "timer_inv pc st' \<and> m_timer_nums st' \<le> m_timer_nums st + frame_cost env st"
    if r: "start_frame env rate st = Inr st'"
  proof -
    from r obtain s2 where "(if \<not> stop_timer ?s \<and> frames_count ?s mod frame_rate ?s = 0
        then frame_forward env ?s else Inr ?s) = Inr s2"
      and eq: "st' = s2\<lparr>frames_count := (frames_count s2 + 1) mod 2 ^ 64\<rparr>"
      unfolding start_frame_def Let_def bind_r_eq_Inr by blast
    then have "s2 = ?s \<or> frame_forward env ?s = Inr s2" by (simp only: split: if_splits) auto
    note s2 = this eq
    then have "timer_inv pc s2 \<and> m_timer_nums s2 \<le> m_timer_nums st + frame_cost env st"
      using f(1) [of s2] i c(2) by auto
    moreover have "timer_inv pc s2 \<Longrightarrow> timer_inv pc st'"
      unfolding s2(2) by (rule timer_inv_same) simp_all
    ultimately show ?thesis using s2(2) by simp
  qed
  show "e \<in> frame_errors" if "start_frame env rate st = Inl e"
    using that f(2) by (auto simp: start_frame_def Let_def bind_r_eq_Inl split: if_splits)
qed

text \<open>The worker's section that moves a due timer to the frame queue.\<close>

lemma timers_inv_timer_inv:
  "timer_inv pc st \<Longrightarrow> timers_inv st"
  by (simp add: timer_inv_def)

lemma dispatch_inv:
  assumes inv: "timer_inv (W_dispatch t) st"
  shows "dispatch t st = Inr st' \<Longrightarrow> timer_inv W_pop st' \<and> m_timer_nums st' = m_timer_nums st"
    and "dispatch t st = Inl e \<Longrightarrow> e = UB_end_iterator \<and> \<not> has_group (m_timers st) t"
proof -
  have t1: "timers_inv st" using inv by (simp add: timer_inv_def)
  have pop: "timer_inv W_pop st"
    using inv by (auto simp: timer_inv_def copies_def pc_copies_def)
  let ?lookup = "get_timer_by_group_id (tm_amx t) (tm_group_id t) (tm_id t) st"
  let ?f = "\<lambda>n. n\<lparr>tm_executed := True\<rparr>"
  have upd: "\<exists>st2. update_node (tm_amx t) (tm_group_id t) (tm_id t) ?f st = Inr st2
      \<and> evolves st st2 \<and> m_timer_nums st2 = m_timer_nums st \<and> has_group (m_timers st2) t"
    if lk: "?lookup = Inr (Some s)" for s
  proof -
    from lookup_registered [OF t1 lk] obtain ts where
      ts: "group_of (tm_amx t) (tm_group_id t) (m_timers st) = Some ts"
        "find (\<lambda>s. tm_id s = tm_id t) ts = Some s" by blast
    note u = update_node_found [OF ts, of ?f]
    from update_node_evolves [OF t1 _ u] show ?thesis
      using u by (auto simp: has_group_def)
  qed
  show "timer_inv W_pop st' \<and> m_timer_nums st' = m_timer_nums st" if r: "dispatch t st = Inr st'"
  proof (cases "?lookup = Inr None")
    case True
    with r pop show ?thesis by (simp add: dispatch_def)
  next
    case False
    with r obtain s where lk: "?lookup = Inr (Some s)"
      by (cases ?lookup) (auto simp: dispatch_def split: option.splits)
    from upd [OF lk] r lk obtain st2 where s2: "evolves st st2" "m_timer_nums st2 = m_timer_nums st"
      "has_group (m_timers st2) t"
      "st' = st2\<lparr>m_frames := pq_push tm_time t (m_frames st2)\<rparr>"
      by (auto simp: dispatch_def)
    have i2: "timer_inv (W_dispatch t) st2" by (rule evolves_timer_inv [OF inv s2(1)])
    then have "copy_inv (m_timer_nums st2) (reg (m_timers st2)) t"
      by (simp add: timer_inv_def copies_def pc_copies_def)
    with i2 s2(2-4) show ?thesis
      by (auto simp: timer_inv_def timers_inv_def copies_def pc_copies_def pq_push_def
          set_insort_key)
  qed
  show "e = UB_end_iterator \<and> \<not> has_group (m_timers st) t" if r: "dispatch t st = Inl e"
  proof (cases ?lookup)
    case (Inl e')
    with r have "e = e'" by (simp add: dispatch_def)
    with Inl show ?thesis
      by (auto simp: get_timer_by_group_id_def has_group_def group_of_def split: option.splits)
  next
    case (Inr f)
    with r upd show ?thesis by (cases f) (auto simp: dispatch_def)
  qed
qed

section \<open>The queue\<close>

interpretation tq: min_queue tm_time "pq_push tm_time" pq_top pq_pop "[]" mset "pq_ok tm_time"
  by (rule min_queue_pq)

lemma collect_queue_eq:
  "collect_queue st = st\<lparr>m_timer_queue :=
     tq.push_all (filter (\<lambda>t. \<not> tm_executed t) (all_tms (m_timers st))) (m_timer_queue st)\<rparr>"
proof -
  have "fold push_to_queue ts s = s\<lparr>m_timer_queue := tq.push_all ts (m_timer_queue s)\<rparr>" for ts s
    by (induction ts arbitrary: s) (auto simp: push_to_queue_def tq.push_all_def)
  then show ?thesis by (simp add: collect_queue_def)
qed

lemma mset_collect_queue:
  "mset (m_timer_queue (collect_queue st)) =
     filter_mset (\<lambda>t. \<not> tm_executed t) (reg (m_timers st)) + mset (m_timer_queue st)"
proof -
  have "m_timer_queue (collect_queue st) =
      tq.push_all (filter (\<lambda>t. \<not> tm_executed t) (all_tms (m_timers st))) (m_timer_queue st)"
    unfolding collect_queue_eq by simp
  then show ?thesis
    unfolding reg_def by (simp only: tq.elems_push_all mset_filter)
qed

lemma timer_inv_collect:
  assumes "timer_inv W_collect st"
  shows "timer_inv W_reset (collect_queue st)"
proof -
  have R: "reg_inv (m_timer_nums st) (reg (m_timers st)) (heap st) (brk st)" "filed (m_timers st)"
    using assms by (auto simp: timer_inv_def timers_inv_def)
  have "set_mset (mset (m_timer_queue (collect_queue st)))
      \<subseteq> set_mset (reg (m_timers st)) \<union> set (m_timer_queue st)"
    unfolding mset_collect_queue by auto
  then have "set (m_timer_queue (collect_queue st))
      \<subseteq> set_mset (reg (m_timers st)) \<union> set (m_timer_queue st)" by simp
  moreover have "copy_inv (m_timer_nums st) (reg (m_timers st)) t \<and> has_group (m_timers st) t"
    if t: "t \<in># reg (m_timers st)" for t
  proof
    have "tm_id t \<le> m_timer_nums st" using R(1) t by (simp add: reg_inv_def)
    moreover have "s = t" if "s \<in># reg (m_timers st)" "tm_id s = tm_id t" for s
      using reg_inv_id_inj [OF R(1) that(1) t that(2)] .
    ultimately show "copy_inv (m_timer_nums st) (reg (m_timers st)) t"
      by (auto simp: copy_inv_def)
    show "has_group (m_timers st) t"
      using reg_group_of [OF R(2) t] by (auto simp: has_group_def)
  qed
  ultimately have q: "copy_inv (m_timer_nums st) (reg (m_timers st)) c \<and> has_group (m_timers st) c"
    if "c \<in> set (m_timer_queue (collect_queue st))" for c
    using assms that by (auto simp: timer_inv_def copies_def)
  have same: "m_timers (collect_queue st) = m_timers st" "heap (collect_queue st) = heap st"
    "brk (collect_queue st) = brk st" "m_timer_nums (collect_queue st) = m_timer_nums st"
    "m_frames (collect_queue st) = m_frames st"
    by (simp_all add: collect_queue_eq)
  show ?thesis
    using assms q same by (auto simp: timer_inv_def timers_inv_def copies_def pc_copies_def)
qed

section \<open>The invariant in every reachable state\<close>

definition worker_errors :: "timer_error set" where
  "worker_errors = {UB_end_iterator, UB_pop_empty}"

lemma timer_inv_shrink:
  assumes "timer_inv pc st" "pc_copies pc' \<subseteq> copies pc st"
    "m_timers st' = m_timers st" "heap st' = heap st" "brk st' = brk st"
    "m_timer_nums st' = m_timer_nums st" "set (m_timer_queue st') \<subseteq> set (m_timer_queue st)"
    "m_frames st' = m_frames st"
  shows "timer_inv pc' st' \<and> m_timer_nums st' = m_timer_nums st"
  using assms by (auto simp: timer_inv_def timers_inv_def copies_def)

lemma worker_step_inv:
  assumes inv: "timer_inv pc st" and r: "worker_step now pc st = Some (Inr (pc', st'))"
  shows "timer_inv pc' st' \<and> m_timer_nums st' = m_timer_nums st"
proof (cases pc)
  case W_collect
  show ?thesis
  proof (cases "stop_timer st")
    case True
    with r W_collect have "pc' = W_loop" "st' = st" by (auto simp: worker_step_def)
    with timer_inv_shrink [OF inv, of pc' st'] show ?thesis by (simp add: pc_copies_def)
  next
    case False
    with r W_collect have "pc' = W_reset" "st' = collect_queue st" by (auto simp: worker_step_def)
    with inv W_collect timer_inv_collect show ?thesis by (simp add: collect_queue_eq)
  qed
next
  case (W_dispatch t)
  with r inv dispatch_inv(1) [of t st] show ?thesis
    by (auto simp: worker_step_def bind_r_eq_Inr)
next
  case W_loop
  with r have "st' = st" "pc_copies pc' \<subseteq> copies pc st"
    using top_in [of "m_timer_queue st"]
    by (auto simp: worker_step_def Let_def pc_copies_def copies_def split: list.splits if_splits)
  with timer_inv_shrink [OF inv] show ?thesis by simp
next
  case W_pop
  with r have "st' = st\<lparr>m_timer_queue := pq_pop (m_timer_queue st)\<rparr>" "pc' = W_loop"
    "m_timer_queue st \<noteq> []"
    by (auto simp: worker_step_def split: if_splits)
  then show ?thesis
    using timer_inv_shrink [OF inv, of pc' st'] list.set_sel(2) [of "m_timer_queue st"]
    by (auto simp: pc_copies_def pq_pop_def)
next
  case W_clear
  with r have "pc' = W_collect" "st' = st\<lparr>m_timer_queue := []\<rparr>" by (auto simp: worker_step_def)
  with timer_inv_shrink [OF inv, of pc' st'] show ?thesis by (simp add: pc_copies_def)
next
  case W_reset
  with r have "pc' = W_loop" "st' = st\<lparr>stop_loop := False\<rparr>" by (auto simp: worker_step_def)
  with timer_inv_shrink [OF inv, of pc' st'] show ?thesis by (simp add: pc_copies_def)
next
  case W_top
  with r have "pc' \<in> {W_done, W_clear}" "st' = st" by (auto simp: worker_step_def split: if_splits)
  with timer_inv_shrink [OF inv, of pc' st'] show ?thesis by (auto simp: pc_copies_def)
next
  case W_after
  with r have "pc' \<in> {W_top, W_wait}" "st' = st" by (auto simp: worker_step_def split: if_splits)
  with timer_inv_shrink [OF inv, of pc' st'] show ?thesis by (auto simp: pc_copies_def)
next
  case W_wait
  with r have "pc' = W_top" "st' = st" by (auto simp: worker_step_def split: if_splits)
  with timer_inv_shrink [OF inv, of pc' st'] show ?thesis by (simp add: pc_copies_def)
next
  case W_done
  with r show ?thesis by (simp add: worker_step_def)
qed

lemma worker_step_error:
  assumes inv: "timer_inv pc st" and r: "worker_step now pc st = Some (Inl e)"
  shows "e \<in> worker_errors"
proof (cases pc)
  case (W_dispatch t)
  with r inv dispatch_inv(2) [of t st] show ?thesis
    by (auto simp: worker_step_def worker_errors_def bind_r_eq_Inl)
next
  case W_loop
  with r show ?thesis
    by (simp add: worker_step_def Let_def split: list.splits if_splits)
qed (use r in \<open>simp_all add: worker_step_def worker_errors_def split: if_splits\<close>)

lemma timer_inv_init: "timer_inv W_top (start timer_mngr_init)"
  by (simp add: timer_inv_def timers_inv_def reg_inv_def timer_mngr_init_def start_def copies_def
      pc_copies_def)

lemma call_cost_frame: "call_cost (G_frame env rate) st = frame_cost env st"
  by (simp add: frame_cost_def)

lemma game_step_inv:
  assumes inv: "timer_inv pc st" and n: "m_timer_nums st + call_cost c st < 2 ^ 32"
  shows "game_step r c st = Inr st' \<Longrightarrow>
           timer_inv pc st' \<and> m_timer_nums st' \<le> m_timer_nums st + call_cost c st"
    and "game_step r c st = Inl e \<Longrightarrow> e \<in> frame_errors"
proof -
  have t: "timers_inv st" using inv by (simp add: timer_inv_def)
  show "timer_inv pc st' \<and> m_timer_nums st' \<le> m_timer_nums st + call_cost c st"
    if g: "game_step r c st = Inr st'"
  proof (cases c)
    case (G_native x)
    with g n run_native_evolves [OF t, of r x st'] evolves_timer_inv [OF inv] show ?thesis by simp
  next
    case (G_frame env rate)
    with g n start_frame_inv(1) [OF inv] show ?thesis
      by (simp only: game_step.simps call_cost_frame)
  next
    case (G_disconnect mc i)
    with g disconnect_evolves [OF t, of mc i] evolves_timer_inv [OF inv] show ?thesis by auto
  next
    case G_stop_all
    with g stop_all_cleared [OF t] cleared_timer_inv [OF inv] show ?thesis by auto
  qed
  show "e \<in> frame_errors" if g: "game_step r c st = Inl e"
  proof (cases c)
    case (G_native x)
    with g run_native_error [OF t] show ?thesis by (simp add: frame_errors_def)
  next
    case (G_frame env rate)
    with g n start_frame_inv(2) [OF inv] show ?thesis
      by (simp only: game_step.simps call_cost_frame)
  next
    case (G_disconnect mc i)
    with g disconnect_evolves [OF t, of mc i] show ?thesis by auto
  next
    case G_stop_all
    with g stop_all_cleared [OF t] show ?thesis by auto
  qed
qed

definition sys_inv :: "nat \<Rightarrow> sys \<Rightarrow> bool" where
  "sys_inv n s = (case s of
     Inr (pc, st) \<Rightarrow> timer_inv pc st \<and> m_timer_nums st \<le> n
   | Inl e \<Rightarrow> e \<in> frame_errors \<union> worker_errors)"

lemma sys_inv_step:
  assumes "sys_step k s s'" "sys_inv n s" "n + k < 2 ^ 32"
  shows "sys_inv (n + k) s'"
  using assms
proof (induction rule: sys_step.induct)
  case (worker now pc st r)
  then show ?case
    using worker_step_inv [of pc st now] worker_step_error [of pc st now]
    by (cases r) (force simp: sys_inv_def)+
next
  case (game c st pc reg)
  show ?case
  proof (cases "game_step reg c st")
    case (Inl e)
    with game game_step_inv(2) [of pc st c reg e] show ?thesis by (simp add: sys_inv_def)
  next
    case (Inr st')
    with game game_step_inv(1) [of pc st c reg st'] show ?thesis by (simp add: sys_inv_def)
  qed
qed

lemma reachable_inv:
  "reachable n s \<Longrightarrow> n < 2 ^ 32 \<Longrightarrow> sys_inv n s"
proof (induction rule: reachable.induct)
  case init
  then show ?case
    using timer_inv_init by (simp add: sys_inv_def start_def timer_mngr_init_def)
next
  case (step n s k s')
  then show ?case by (intro sys_inv_step) auto
qed

end
