(* ===== verification/Timer_Props.thy ===== *)
theory Timer_Props
  imports Timer_Run
begin

text \<open>
  What the timer manager guarantees, and the schedules on which it fails: the properties of
  the component, each over the operations and steps of \<^verbatim>\<open>Timer_Mngr\<close>.
\<close>

section \<open>Runs\<close>

text \<open>A schedule of the two threads, executed; \<open>None\<close> when the worker is asked to run while blocked.\<close>

datatype act = Work int | Game game_call

fun run_acts :: "register \<Rightarrow> act list \<Rightarrow> nat \<times> sys \<Rightarrow> (nat \<times> sys) option" where
  "run_acts r [] ns = Some ns"
| "run_acts r (_ # _) (n, Inl e) = None"
| "run_acts r (Work now # as) (n, Inr (pc, st)) =
     (case worker_step now pc st of None \<Rightarrow> None | Some s \<Rightarrow> run_acts r as (n, s))"
| "run_acts r (Game c # as) (n, Inr (pc, st)) =
     run_acts r as (n + call_cost c st, bind_r (game_step r c st) (\<lambda>st'. Inr (pc, st')))"

lemma run_acts_reachable:
  "run_acts r as (n, s) = Some (n', s') \<Longrightarrow> reachable n s \<Longrightarrow> reachable n' s'"
proof (induction r as "(n, s)" arbitrary: n s rule: run_acts.induct)
  case (3 r now as n pc st)
  then obtain t where t: "worker_step now pc st = Some t" "run_acts r as (n, t) = Some (n', s')"
    by (auto split: option.splits)
  have "reachable (n + 0) t"
    by (rule reachable.step [OF "3.prems"(2)]) (rule sys_step.worker [OF t(1)])
  with "3.hyps" t show ?case by simp
next
  case (4 r c as n pc st)
  have "reachable (n + call_cost c st) (bind_r (game_step r c st) (\<lambda>st'. Inr (pc, st')))"
    by (rule reachable.step [OF "4.prems"(2) sys_step.game])
  with 4 show ?case by simp
qed auto

lemma run_from_start:
  "run_acts r as (0, Inr (W_top, start timer_mngr_init)) = Some (n, s) \<Longrightarrow> reachable n s"
  using run_acts_reachable reachable.init by blast

text \<open>Concrete arguments for the schedules below.\<close>

definition demo_add :: "nat \<Rightarrow> cell \<Rightarrow> nat \<Rightarrow> bool \<Rightarrow> add_args" where
  "demo_add g flags repeat junk =
     \<lparr>aa_amx = 1, aa_name = ''cb'', aa_delay = 1, aa_group = g, aa_data = None, aa_size = 1,
      aa_flags = flags, aa_repeat = repeat, aa_now = 0, aa_alloc_ok = True, aa_junk = junk\<rparr>"

definition demo_register :: register where
  "demo_register a name = 7"

definition quiet_callback :: callback where
  "quiet_callback = \<lparr>cb_calls = [], cb_ret = 0, cb_leak = 0\<rparr>"

definition quiet_env :: frame_env where
  "quiet_env = \<lparr>fe_register = demo_register, fe_allot_ok = True,
                fe_callback = (\<lambda>_. quiet_callback), fe_now = 0\<rparr>"

lemma delay_ns_1: "delay_ns 1 = 1000000000"
proof -
  have "\<lfloor>1000 + 1 / 2 :: rat\<rfloor> = 1000" by (rule floor_unique) simp_all
  then show ?thesis by (simp add: delay_ns_def c_round_def)
qed

lemmas demo_defs = demo_add_def demo_register_def quiet_callback_def quiet_env_def

lemmas timer_eval = demo_defs timer_mngr_init_def start_def stop_def add_timer_def
  create_forward_def get_next_id_def make_timer_def clamp_def new_data_def group_of_def
  set_group_def sm_insert_def worker_step_def collect_queue_def push_to_queue_def pq_push_def
  pq_top_def pq_pop_def all_tms_def group_tms_def dispatch_def get_timer_by_group_id_def
  update_node_def stop_all_def remove_all_timers_def remove_data_timer_def start_frame_def
  frame_forward_def get_timer_def exec_callback_def remove_timers_def repeats_def has_flag_def
  min_delay_def max_delay_def reschedule_def remove_timer_by_group_id_def delay_ns_1 TIMER_FLAG_LOOP_def
  TIMER_FLAG_REPEAT_def TIMER_FLAG_RELATIVE_def TIMER_FLAG_ONCE_def Let_def

section \<open>Memory safety\<close>

text \<open>
  C1: In every state the two threads can reach with fewer than 2^32 native calls, the
  allocated data blocks are exactly the blocks of the registered timers, each at least as long as
  the timer says and owned by one timer only; and no step frees a block twice or reads a freed
  block.
\<close>

theorem timer_memory_safe:
  assumes "reachable n s" "n < 2 ^ 32"
  shows "case s of
      Inl e \<Rightarrow> e \<noteq> UB_double_free \<and> e \<noteq> UB_use_after_free
    | Inr (pc, st) \<Rightarrow>
        dom (heap st) = {p. \<exists>t \<in> set (all_tms (m_timers st)). tm_data t = Some p}
        \<and> distinct (map tm_data (all_tms (m_timers st)))
        \<and> distinct (map tm_id (all_tms (m_timers st)))
        \<and> (\<forall>t \<in> set (all_tms (m_timers st)). \<exists>p d. tm_data t = Some p \<and> heap st p = Some d
              \<and> length d = tm_data_size t)"
proof (cases s)
  case (Inl e)
  with reachable_inv [OF assms] show ?thesis
    by (auto simp: sys_inv_def frame_errors_def worker_errors_def native_errors_def)
next
  case (Inr x)
  obtain pc st where x: "x = (pc, st)" by force
  with Inr reachable_inv [OF assms] have
    i: "reg_inv (m_timer_nums st) (reg (m_timers st)) (heap st) (brk st)"
    by (simp add: sys_inv_def timer_inv_def timers_inv_def)
  have "dom (heap st) = {p. \<exists>t \<in># reg (m_timers st). tm_data t = Some p}"
  proof (intro set_eqI iffI)
    fix p assume "p \<in> dom (heap st)"
    with i have "Some p \<in># image_mset tm_data (reg (m_timers st))" by (simp add: reg_inv_def)
    then show "p \<in> {p. \<exists>t \<in># reg (m_timers st). tm_data t = Some p}" by force
  next
    fix p assume "p \<in> {p. \<exists>t \<in># reg (m_timers st). tm_data t = Some p}"
    with reg_inv_live [OF i] show "p \<in> dom (heap st)" by fastforce
  qed
  moreover have "distinct (map tm_data (all_tms (m_timers st)))"
    "distinct (map tm_id (all_tms (m_timers st)))"
    using i uniq_mset [of "map tm_data (all_tms (m_timers st))"]
      uniq_mset [of "map tm_id (all_tms (m_timers st))"]
    by (simp_all only: reg_inv_def reg_def mset_map)
  ultimately show ?thesis
    using Inr x reg_inv_live [OF i] by simp
qed

text \<open>A run that registers a timer, dispatches it and serves it in a frame.\<close>

definition demo_run :: "act list" where
  "demo_run = [Game (G_native (RF_set_timer (demo_add 5 TIMER_FLAG_LOOP 0 False))),
     Work 0, Work 0, Work 0, Work 0, Work 1000000000, Work 1000000000, Work 1000000000,
     Game (G_frame quiet_env 1)]"

lemma demo_run_end:
  "\<exists>st. run_acts demo_register demo_run (0, Inr (W_top, start timer_mngr_init))
         = Some (1, Inr (W_loop, st)) \<and> map tm_id (all_tms (m_timers st)) = [1]"
  unfolding demo_run_def
  apply (rule exI, rule conjI)
   apply (simp add: timer_eval)
  apply (simp add: all_tms_def group_tms_def)
  done

theorem timer_memory_safe_witness:
  "\<exists>st. reachable 1 (Inr (W_loop, st)) \<and> map tm_id (all_tms (m_timers st)) = [1] \<and>
     dom (heap st) = {p. \<exists>t \<in> set (all_tms (m_timers st)). tm_data t = Some p}"
proof -
  obtain st where st: "run_acts demo_register demo_run (0, Inr (W_top, start timer_mngr_init))
      = Some (1, Inr (W_loop, st))" "map tm_id (all_tms (m_timers st)) = [1]"
    using demo_run_end by (elim exE conjE) (rule that)
  have "reachable 1 (Inr (W_loop, st))" by (rule run_from_start [OF st(1)])
  moreover from timer_memory_safe [OF this] have
    "dom (heap st) = {p. \<exists>t \<in> set (all_tms (m_timers st)). tm_data t = Some p}" by simp
  ultimately show ?thesis using st(2) by (intro exI conjI)
qed

section \<open>The queue of the worker\<close>


definition demo_tm :: "cell \<Rightarrow> nat \<Rightarrow> int \<Rightarrow> bool \<Rightarrow> tm" where
  "demo_tm flags repeat due executed =
     \<lparr>tm_id = 1, tm_fwd_id = 7, tm_amx = 1, tm_group_id = 5, tm_delay_sec = 1, tm_time = due,
      tm_data = Some 1, tm_data_size = 1, tm_flags = flags, tm_repeat = repeat,
      tm_executed = executed\<rparr>"

definition demo_state :: "m_amxx \<Rightarrow> tmgr" where
  "demo_state m = timer_mngr_init\<lparr>m_timers := m, m_timer_nums := 1, heap := [1 \<mapsto> [0]], brk := 2\<rparr>"


text \<open>Both queues stay sorted by due time, whatever the two threads do.\<close>

definition queues_ok :: "tmgr \<Rightarrow> bool" where
  "queues_ok st = (pq_ok tm_time (m_timer_queue st) \<and> pq_ok tm_time (m_frames st))"

lemma queues_ok_cong:
  "queues_ok st \<Longrightarrow> m_timer_queue st' = m_timer_queue st \<Longrightarrow> m_frames st' = m_frames st \<Longrightarrow>
   queues_ok st'"
  by (simp add: queues_ok_def)

lemma stop_queues [simp]:
  "m_timer_queue (stop b st) = m_timer_queue st" "m_frames (stop b st) = m_frames st"
  by (simp_all add: stop_def)

lemma create_forward_queues:
  assumes "create_forward r a n st = (fwd, st1)"
  shows "m_timer_queue st1 = m_timer_queue st" "m_frames st1 = m_frames st"
  using create_forward_frame [OF assms] by simp_all

lemma add_timer_queues:
  assumes "add_timer r x st = Inr (b, st')"
  shows "m_timer_queue st' = m_timer_queue st \<and> m_frames st' = m_frames st"
proof -
  obtain fwd st1 where c: "create_forward r (aa_amx x) (aa_name x) st = (fwd, st1)" by force
  obtain i nums where n: "get_next_id (m_timer_nums st1) = (i, nums)" by force
  from assms c n show ?thesis
    by (auto simp: add_timer_def Let_def bind_r_eq_Inr split: if_splits
        dest: create_forward_queues)
qed

lemma run_native_queues:
  assumes "run_native r c st = Inr st'"
  shows "m_timer_queue st' = m_timer_queue st \<and> m_frames st' = m_frames st"
proof (cases c)
  case (RF_set_timer x)
  with assms show ?thesis by (auto simp: bind_r_eq_Inr dest: add_timer_queues)
next
  case (RF_remove_timer a g)
  with assms show ?thesis
    by (auto simp: bind_r_eq_Inr remove_timers_def split: option.splits)
next
  case (RF_remove_timer_id a i)
  with assms show ?thesis
    by (auto simp: bind_r_eq_Inr remove_timer_by_id_def split: option.splits)
next
  case (RF_change_timer_id a i d f r')
  with assms show ?thesis
    by (auto simp: change_timer_by_id_def split: option.splits)
qed

lemma run_natives_queues:
  "run_natives r cs st = Inr st' \<Longrightarrow>
   m_timer_queue st' = m_timer_queue st \<and> m_frames st' = m_frames st"
proof (induction cs arbitrary: st)
  case (Cons c cs)
  then obtain s where "run_native r c st = Inr s" "run_natives r cs s = Inr st'"
    by (auto simp: bind_r_eq_Inr)
  with Cons.IH [of s] run_native_queues [of r c st s] show ?case by simp
qed simp

lemma exec_callback_queues:
  "exec_callback env t st = Inr (ret, st') \<Longrightarrow>
   m_timer_queue st' = m_timer_queue st \<and> m_frames st' = m_frames st"
  unfolding exec_callback_def Let_def
  by (split if_splits, simp, split if_splits, simp)
     (erule bind_r_InrE, drule run_natives_queues, clarsimp)

lemma update_node_queues:
  "update_node a g i f st = Inr st' \<Longrightarrow>
   m_timer_queue st' = m_timer_queue st \<and> m_frames st' = m_frames st"
  by (auto simp: update_node_def split: option.splits if_splits)

lemma remove_by_group_id_queues:
  "remove_timer_by_group_id a g i st = Inr st' \<Longrightarrow>
   m_timer_queue st' = m_timer_queue st \<and> m_frames st' = m_frames st"
  by (auto simp: remove_timer_by_group_id_def bind_r_eq_Inr split: option.splits)

lemma frame_forward_queues:
  assumes "frame_forward env st = Inr st'" "queues_ok st"
  shows "queues_ok st'"
proof (cases "get_timer st")
  case None
  with assms show ?thesis by (simp add: frame_forward_def)
next
  case (Some x)
  obtain t st1 where x: "x = (t, st1)" by force
  have q1: "queues_ok st1"
    using assms(2) Some x
    by (auto simp: get_timer_def queues_ok_def intro: tq.ok_pop split: if_splits)
  show ?thesis
    using assms(1) Some x q1
    by (auto simp: frame_forward_def bind_r_eq_Inr
        dest!: exec_callback_queues update_node_queues remove_by_group_id_queues
        intro: queues_ok_cong split: if_splits option.splits)
qed

lemma start_frame_queues:
  assumes "start_frame env rate st = Inr st'" "queues_ok st"
  shows "queues_ok st'"
proof -
  let ?s = "st\<lparr>frame_rate := rate\<rparr>"
  have s: "queues_ok ?s" using assms(2) by (simp add: queues_ok_def)
  obtain st2 where st2: "(if \<not> stop_timer ?s \<and> frames_count ?s mod frame_rate ?s = 0
      then frame_forward env ?s else Inr ?s) = Inr st2"
    "st' = st2\<lparr>frames_count := (frames_count st2 + 1) mod 2 ^ 64\<rparr>"
    using assms(1) unfolding start_frame_def Let_def by (auto elim!: bind_r_InrE)
  have "queues_ok st2"
    using st2(1) s frame_forward_queues [of env ?s st2] by (auto split: if_splits)
  with st2(2) show ?thesis by (simp add: queues_ok_def)
qed

lemma game_step_queues:
  assumes "game_step r c st = Inr st'" "queues_ok st"
  shows "queues_ok st'"
proof (cases c)
  case (G_native n)
  with assms run_native_queues [of r n st st'] show ?thesis by (simp add: queues_ok_def)
next
  case (G_frame env rate)
  with assms start_frame_queues show ?thesis by simp
next
  case (G_disconnect mc i)
  with assms show ?thesis
    by (auto simp: on_client_disconnected_def queues_ok_def Let_def elim!: bind_r_InrE
        split: if_splits)
next
  case G_stop_all
  with assms have "m_timer_queue st' = [] \<and> m_frames st' = []"
    by (auto simp: stop_all_def remove_all_timers_def Let_def stop_def start_def
        elim!: bind_r_InrE split: if_splits)
  then show ?thesis by (simp add: queues_ok_def tq.ok_empty)
qed

lemma dispatch_queues:
  assumes "dispatch t st = Inr st'" "queues_ok st"
  shows "queues_ok st'"
  using assms
  by (auto simp: dispatch_def queues_ok_def tq.ok_push elim!: bind_r_InrE
      dest!: update_node_queues split: option.splits)

lemma worker_step_queues:
  assumes "worker_step now pc st = Some (Inr (pc', st'))" "queues_ok st"
  shows "queues_ok st'"
proof (cases pc)
  case (W_dispatch t)
  with assms show ?thesis
    by (auto simp: worker_step_def elim!: bind_r_InrE intro: dispatch_queues)
next
  case W_collect
  with assms show ?thesis
    by (auto simp: worker_step_def queues_ok_def collect_queue_eq tq.ok_push_all split: if_splits)
qed (use assms in \<open>auto simp: worker_step_def queues_ok_def tq.ok_empty Let_def
      intro: tq.ok_pop split: if_splits list.splits\<close>)

lemma reachable_queues_ok: "reachable n s \<Longrightarrow> s = Inr (pc, st) \<Longrightarrow> queues_ok st"
proof (induction arbitrary: pc st rule: reachable.induct)
  case init
  then show ?case by (auto simp: queues_ok_def start_def timer_mngr_init_def tq.ok_empty)
next
  case (step n s k s')
  obtain pc0 st0 where s: "s = Inr (pc0, st0)"
    using step.hyps(2) by (cases s) (auto elim: sys_step_from_error)
  with step.IH have q: "queues_ok st0" by blast
  from step.hyps(2) show ?case unfolding s step.prems
    by (auto simp: sys_step_Inr elim!: bind_r_InrE [OF sym]
        intro: worker_step_queues [OF _ q] game_step_queues [OF _ q])
qed


lemma demo_loop_state:
  "\<exists>st t. run_acts demo_register
       [Game (G_native (RF_set_timer (demo_add 5 TIMER_FLAG_LOOP 0 False))),
        Work 0, Work 0, Work 0, Work 0] (0, Inr (W_top, start timer_mngr_init))
     = Some (1, Inr (W_loop, st))
   \<and> worker_step 1000000000 W_loop st = Some (Inr (W_dispatch t, st)) \<and> tm_id t = 1"
  apply (rule exI, rule exI, rule conjI)
   apply (simp add: timer_eval)
  apply (rule conjI)
   apply (simp add: timer_eval)
  apply simp
  done


section \<open>Adding and removing timers\<close>

lemma delay_bounds: "min_delay \<le> max_delay"
  by (simp add: min_delay_def max_delay_def)

text \<open>
  A \<^verbatim>\<open>rf_set_timer\<close> that succeeds registers exactly one new timer, last in its group,
  with the next id, the clamped delay and its own data block, and asks the worker for a new
  queue; all other timers stay.
\<close>

theorem add_timer_registers_one:
  assumes "timers_inv st" "m_timer_nums st < 2 ^ 32 - 1"
    and "add_timer register_fwd x st = Inr (True, st')"
  shows "\<exists>fwd. mset (all_tms (m_timers st'))
           = add_mset (make_timer x fwd (m_timer_nums st + 1) (brk st)) (mset (all_tms (m_timers st)))
       \<and> (\<exists>ts. group_of (aa_amx x) (aa_group x) (m_timers st')
               = Some (ts @ [make_timer x fwd (m_timer_nums st + 1) (brk st)]))
       \<and> min_delay \<le> tm_delay_sec (make_timer x fwd (m_timer_nums st + 1) (brk st))
       \<and> tm_delay_sec (make_timer x fwd (m_timer_nums st + 1) (brk st)) \<le> max_delay
       \<and> m_timer_nums st' = m_timer_nums st + 1 \<and> stop_loop st' \<and> timers_inv st'"
proof -
  obtain fwd st1 where c: "create_forward register_fwd (aa_amx x) (aa_name x) st = (fwd, st1)"
    by force
  note fr = create_forward_frame [OF c]
  let ?t = "make_timer x fwd (m_timer_nums st + 1) (brk st)"
  let ?m = "m_timers st" let ?a = "aa_amx x" let ?g = "aa_group x"
  let ?ts = "case group_of ?a ?g ?m of None \<Rightarrow> [] | Some ts \<Rightarrow> ts"
  have i: "get_next_id (m_timer_nums st) = (m_timer_nums st + 1, m_timer_nums st + 1)"
    using assms(2) by (rule get_next_id_small)
  have small: "(m_timer_nums st + 1) mod 2 ^ 32 = m_timer_nums st + 1" using assms(2) by simp
  have m': "m_timers st' = set_group ?a ?g (?ts @ [?t]) ?m" "stop_loop st'"
    "m_timer_nums st' = m_timer_nums st + 1"
    using assms(3) c fr i small
    by (auto simp: add_timer_def Let_def stop_def elim!: bind_r_InrE split: if_splits)
  have f: "filed ?m" using assms(1) by (simp add: timers_inv_def)
  have g: "in_group ?a ?g ?t" by (simp add: in_group_def)
  have "reg (m_timers st') = add_mset ?t (reg ?m)"
    unfolding m'(1) by (rule file_new_timer(2) [OF f g])
  then have r: "mset (all_tms (m_timers st')) = add_mset ?t (mset (all_tms ?m))"
    by (simp only: reg_def)
  have d: "min_delay \<le> tm_delay_sec ?t \<and> tm_delay_sec ?t \<le> max_delay"
    using clamp_range [OF delay_bounds, of "aa_delay x"] by (simp add: make_timer_def Let_def)
  have e: "timers_inv st'"
    using add_timer_evolves [OF assms] by (simp add: evolves_def)
  have grp: "group_of ?a ?g (m_timers st') = Some (?ts @ [?t])" unfolding m'(1) by simp
  show ?thesis
    by (rule exI [of _ fwd], intro conjI, rule r, rule exI [of _ ?ts], rule grp)
       (use d m' e in \<open>auto simp del: add_Suc_right One_nat_def\<close>)
qed

lemma timers_inv_init: "timers_inv timer_mngr_init"
  by (simp add: timers_inv_def reg_inv_def timer_mngr_init_def uniq_def)

theorem add_timer_registers_one_witness:
  "\<exists>st' t. add_timer demo_register (demo_add 5 TIMER_FLAG_LOOP 0 False) timer_mngr_init
             = Inr (True, st')
         \<and> mset (all_tms (m_timers st')) = {#t#} \<and> tm_id t = 1"
proof -
  have s: "m_timer_nums timer_mngr_init < 2 ^ 32 - 1" by (simp add: timer_mngr_init_def)
  have "\<exists>st'. add_timer demo_register (demo_add 5 TIMER_FLAG_LOOP 0 False) timer_mngr_init
             = Inr (True, st')"
    by (rule exI) (simp add: timer_eval)
  then obtain st' where a: "add_timer demo_register (demo_add 5 TIMER_FLAG_LOOP 0 False)
      timer_mngr_init = Inr (True, st')" by (elim exE) (rule that)
  from add_timer_registers_one [OF timers_inv_init s a] obtain fwd where
    "mset (all_tms (m_timers st')) = add_mset (make_timer (demo_add 5 TIMER_FLAG_LOOP 0 False) fwd
       (m_timer_nums timer_mngr_init + 1) (brk timer_mngr_init))
       (mset (all_tms (m_timers timer_mngr_init)))"
    by (elim exE conjE) (rule that)
  then have "mset (all_tms (m_timers st')) = {#make_timer (demo_add 5 TIMER_FLAG_LOOP 0 False) fwd 1 1#}"
    by (simp add: timer_mngr_init_def all_tms_def)
  with a show ?thesis
    by (intro exI conjI) (assumption, assumption, simp add: make_timer_def Let_def)
qed

text \<open>
  When a client disconnects, the timers that are removed are exactly those in the groups of
  that player, in every plugin, together with their data; the registry invariant holds again.
\<close>

theorem disconnect_removes_players_timers:
  assumes "timers_inv st" "0 < i" "i \<le> maxClients"
  shows "\<exists>st'. on_client_disconnected maxClients i st = Inr st' \<and> timers_inv st'
     \<and> mset (all_tms (m_timers st')) = filter_mset
         (\<lambda>t. \<not> (tm_group_id t < 100000 \<and> tm_group_id t mod 100 = i)) (mset (all_tms (m_timers st)))"
proof -
  obtain st' where st': "on_client_disconnected maxClients i st = Inr st'" "evolves st st'"
    "is_valid_index maxClients i \<longrightarrow>
       reg (m_timers st') = filter_mset (\<lambda>t. \<not> of_player i t) (reg (m_timers st))"
    using disconnect_evolves [OF assms(1), of maxClients i] by (elim exE conjE) (rule that)
  have "is_valid_index maxClients i" using assms by (simp add: is_valid_index_def)
  with st'(3) have r: "reg (m_timers st') = filter_mset (\<lambda>t. \<not> of_player i t) (reg (m_timers st))"
    by blast
  have "timers_inv st'" using st'(2) by (simp add: evolves_def)
  with st'(1) r show ?thesis
    unfolding reg_def by (simp add: of_player_def player_group_def)
qed

theorem disconnect_removes_players_timers_witness:
  "\<exists>st'. on_client_disconnected 32 5 (demo_state [(1, [(5, [demo_tm 0 0 9 False])])]) = Inr st'
     \<and> mset (all_tms (m_timers st')) = {#}"
proof -
  have "timers_inv (demo_state [(1, [(5, [demo_tm 0 0 9 False])])])"
    by (simp add: timers_inv_def reg_inv_def demo_state_def timer_mngr_init_def uniq_def demo_tm_def
        filed_def sm_ok_def reg_def all_tms_def group_tms_def)
  note inv = this
  have le: "0 < (5 :: nat)" "(5 :: nat) \<le> 32" by simp_all
  obtain st' where
    st': "on_client_disconnected 32 5 (demo_state [(1, [(5, [demo_tm 0 0 9 False])])]) = Inr st'"
    "mset (all_tms (m_timers st')) = filter_mset
         (\<lambda>t. \<not> (tm_group_id t < 100000 \<and> tm_group_id t mod 100 = 5))
         (mset (all_tms (m_timers (demo_state [(1, [(5, [demo_tm 0 0 9 False])])]))))"
    using disconnect_removes_players_timers [OF inv le] by (elim exE conjE) (rule that)
  have "mset (all_tms (m_timers st')) = {#}"
    unfolding st'(2) by (simp add: demo_state_def timer_mngr_init_def demo_tm_def all_tms_def group_tms_def)
  with st'(1) show ?thesis by (intro exI conjI)
qed

text \<open>
  \<^verbatim>\<open>stop_all\<close> leaves no timer, no queued copy, no callback and no allocated data
  block behind, frees nothing twice, and releases the worker from its stop unless the module is
  being destroyed.
\<close>

theorem stop_all_frees_everything:
  assumes "timers_inv st"
  shows "\<exists>st'. stop_all st = Inr st' \<and> m_timers st' = [] \<and> m_timer_queue st' = []
           \<and> m_frames st' = [] \<and> m_callbacks st' = [] \<and> dom (heap st') = {}
           \<and> stop_timer st' = stop_main st \<and> stop_loop st'"
proof -
  obtain st' where "stop_all st = Inr st' \<and> cleared st' \<and> timers_inv st'
           \<and> m_timer_nums st' = m_timer_nums st \<and> stop_main st' = stop_main st
           \<and> stop_timer st' = stop_main st \<and> stop_loop st'"
    using stop_all_cleared [OF assms] by (elim exE) (rule that)
  then show ?thesis by (intro exI [of _ st']) (simp add: cleared_def)
qed

theorem stop_all_frees_everything_witness:
  "\<exists>st'. stop_all (demo_state [(1, [(5, [demo_tm 0 0 9 False])])]) = Inr st' \<and> dom (heap st') = {}"
proof -
  have "timers_inv (demo_state [(1, [(5, [demo_tm 0 0 9 False])])])"
    by (simp add: timers_inv_def reg_inv_def demo_state_def timer_mngr_init_def uniq_def demo_tm_def
        filed_def sm_ok_def reg_def all_tms_def group_tms_def)
  from stop_all_frees_everything [OF this] show ?thesis by (elim exE conjE) (intro exI conjI)
qed

section \<open>Schedules that go wrong\<close>

text \<open>
  \<^verbatim>\<open>remove_timer_by_id(amx, id)\<close> never completes on a timer that exists: it frees the
  data and then uses the iterator it has just erased.  Only a failing lookup returns, with
  \<^verbatim>\<open>false\<close>.
\<close>

theorem remove_timer_by_id_erased_iterator:
  assumes "timers_inv st"
  shows "remove_timer_by_id a i st =
    (case get_timer_by_id a i st of
       Some _ \<Rightarrow> Inl UB_erased_iterator
     | None \<Rightarrow> Inr (False, if map_of (m_timers st) a = None then st else stop False st))"
  by (rule remove_timer_by_id_result [OF assms])

theorem remove_timer_by_id_erased_iterator_witness:
  "remove_timer_by_id 1 1 (demo_state [(1, [(5, [demo_tm 0 0 9 False])])]) = Inl UB_erased_iterator"
proof -
  have "timers_inv (demo_state [(1, [(5, [demo_tm 0 0 9 False])])])"
    by (simp add: timers_inv_def reg_inv_def demo_state_def timer_mngr_init_def uniq_def demo_tm_def
        filed_def sm_ok_def reg_def all_tms_def group_tms_def)
  from remove_timer_by_id_erased_iterator [OF this, of 1 1] show ?thesis
    by (simp add: demo_state_def timer_mngr_init_def demo_tm_def get_timer_by_id_def)
qed

definition race_pop :: "act list" where
  "race_pop = [Game (G_native (RF_set_timer (demo_add 5 TIMER_FLAG_LOOP 0 False))),
     Work 0, Work 0, Work 0, Work 0, Work 1000000000, Work 1000000000, Game G_stop_all,
     Work 1000000000]"

definition race_end :: "act list" where
  "race_end = [Game (G_native (RF_set_timer (demo_add 5 TIMER_FLAG_LOOP 0 False))),
     Work 0, Work 0, Work 0, Work 0, Work 1000000000, Game G_stop_all,
     Game (G_native (RF_set_timer (demo_add 6 TIMER_FLAG_LOOP 0 False))), Work 1000000000]"

lemma race_pop_run:
  "run_acts demo_register race_pop (0, Inr (W_top, start timer_mngr_init)) = Some (1, Inl UB_pop_empty)"
  unfolding race_pop_def by (simp add: timer_eval)

lemma race_end_run:
  "run_acts demo_register race_end (0, Inr (W_top, start timer_mngr_init)) = Some (2, Inl UB_end_iterator)"
  unfolding race_end_def by (simp add: timer_eval)

text \<open>
  A plugin that is told to stop all timers while the worker is between the dispatch of a
  timer and \<^verbatim>\<open>m_timer_queue.pop()\<close> makes the worker pop an empty queue; if the stop comes just
  before the dispatch, and the plugin registers another timer in another group, the worker
  dereferences \<^verbatim>\<open>end()\<close>.
\<close>

theorem stop_all_races_with_worker:
  "reachable 1 (Inl UB_pop_empty) \<and> reachable 2 (Inl UB_end_iterator)"
  using run_from_start [OF race_pop_run] run_from_start [OF race_end_run] by simp

definition self_removing_env :: frame_env where
  "self_removing_env = quiet_env\<lparr>fe_callback :=
     (\<lambda>t. quiet_callback\<lparr>cb_calls := [RF_remove_timer (tm_amx t) (tm_group_id t)]\<rparr>)\<rparr>"

definition self_removal :: "act list" where
  "self_removal = [Game (G_native (RF_set_timer (demo_add 5 TIMER_FLAG_LOOP 0 False))),
     Work 0, Work 0, Work 0, Work 0, Work 1000000000, Work 1000000000, Work 1000000000,
     Game (G_frame self_removing_env 1)]"

lemma self_removal_run:
  "run_acts demo_register self_removal (0, Inr (W_top, start timer_mngr_init))
     = Some (2, Inl UB_dangling_node)"
  unfolding self_removal_def self_removing_env_def by (simp add: timer_eval)

text \<open>
  A callback that removes its own timer's group and returns 0, to have the looping timer
  rescheduled, makes \<^verbatim>\<open>frame_forward\<close> write to the list node that was erased.
\<close>

theorem self_removal_writes_erased_node: "reachable 2 (Inl UB_dangling_node)"
  by (rule run_from_start [OF self_removal_run])

definition lost_wake_up :: "act list" where
  "lost_wake_up = [Work 0, Work 0, Work 0,
     Game (G_native (RF_set_timer (demo_add 5 TIMER_FLAG_LOOP 0 False))), Work 0, Work 0, Work 0]"

lemma lost_wake_up_run:
  "\<exists>st t. run_acts demo_register lost_wake_up (0, Inr (W_top, start timer_mngr_init))
            = Some (1, Inr (W_wait, st))
        \<and> all_tms (m_timers st) = [t] \<and> tm_time t = 1000000000 \<and> \<not> tm_executed t
        \<and> \<not> stop_timer st \<and> \<not> stop_loop st"
  unfolding lost_wake_up_def
  apply (rule exI, rule exI, rule conjI)
   apply (simp add: timer_eval)
  apply (rule conjI)
   apply (simp add: all_tms_def group_tms_def)
  apply simp
  done

text \<open>
  A timer added while the worker is between collecting the queue and clearing
  \<^verbatim>\<open>stop_loop\<close> is lost: the worker ends up blocked in its wait although a timer is
  registered, not dispatched and long due.
\<close>

theorem lost_timer_blocks_worker:
  "\<exists>st t. reachable 1 (Inr (W_wait, st)) \<and> all_tms (m_timers st) = [t] \<and> \<not> tm_executed t
        \<and> tm_time t = 1000000000 \<and> worker_step 5000000000 W_wait st = None"
proof -
  obtain st t where st: "run_acts demo_register lost_wake_up (0, Inr (W_top, start timer_mngr_init))
            = Some (1, Inr (W_wait, st))"
    "all_tms (m_timers st) = [t]" "tm_time t = 1000000000" "\<not> tm_executed t"
    "\<not> stop_timer st" "\<not> stop_loop st"
    using lost_wake_up_run by (elim exE conjE) (rule that)
  have "worker_step 5000000000 W_wait st = None" using st(6) by (simp add: worker_step_def)
  with run_from_start [OF st(1)] st(2-4) show ?thesis by (intro exI conjI)
qed

section \<open>Shutting down\<close>

text \<open>
  The worker on its own: what happens after the destructor, whose thread is blocked in
  \<^verbatim>\<open>join\<close>.
\<close>

inductive worker_runs :: "sys \<Rightarrow> sys \<Rightarrow> bool" where
  refl: "worker_runs s s"
| step: "worker_runs s (Inr (pc, st)) \<Longrightarrow> worker_step now pc st = Some r \<Longrightarrow> worker_runs s r"

lemma update_node_stop:
  "update_node a g i f st = Inr st' \<Longrightarrow> stop_timer st' = stop_timer st"
  by (auto simp: update_node_def split: option.splits if_splits)

lemma dispatch_stop: "dispatch t st = Inr st' \<Longrightarrow> stop_timer st' = stop_timer st"
  by (auto simp: dispatch_def elim!: bind_r_InrE dest!: update_node_stop split: option.splits)

lemma worker_step_stopped:
  assumes "worker_step now pc st = Some (Inr (pc', st'))" "stop_timer st"
    "pc \<noteq> W_top" "pc \<noteq> W_done"
  shows "stop_timer st' \<and> pc' \<noteq> W_top \<and> pc' \<noteq> W_done"
proof (cases pc)
  case (W_dispatch t)
  with assms show ?thesis
    by (auto simp: worker_step_def elim!: bind_r_InrE dest: dispatch_stop)
qed (use assms in \<open>auto simp: worker_step_def Let_def split: if_splits list.splits\<close>)

text \<open>
  The destructor can deadlock: unless the worker happens to be at the head of its outer loop,
  \<^verbatim>\<open>stop_timer\<close> stays set after \<^verbatim>\<open>stop_all\<close>, no step of the worker ever clears it,
  and the worker never leaves its loop for \<^verbatim>\<open>join\<close> to return.
\<close>

theorem destructor_never_joins:
  assumes "timers_inv st" "pc \<noteq> W_top" "pc \<noteq> W_done"
  shows "\<exists>st'. destroy st = Inr st' \<and>
    (\<forall>pc'' st''. worker_runs (Inr (pc, st')) (Inr (pc'', st'')) \<longrightarrow> pc'' \<noteq> W_done)"
proof -
  have "timers_inv (st\<lparr>stop_main := True\<rparr>)" using assms(1) by (simp add: timers_inv_def)
  then obtain st' where st': "destroy st = Inr st'" "stop_timer st'"
    unfolding destroy_def using stop_all_cleared [of "st\<lparr>stop_main := True\<rparr>"] by auto
  have "stop_timer st'' \<and> pc'' \<noteq> W_top \<and> pc'' \<noteq> W_done"
    if "worker_runs s r" "s = Inr (pc, st')" "r = Inr (pc'', st'')" for s r pc'' st''
    using that
  proof (induction arbitrary: pc'' st'' rule: worker_runs.induct)
    case (refl s)
    with st'(2) assms show ?case by simp
  next
    case (step s pc1 st1 now r)
    then have "stop_timer st1 \<and> pc1 \<noteq> W_top \<and> pc1 \<noteq> W_done" by blast
    with step.hyps(2) step.prems(2) worker_step_stopped [of now pc1 st1 pc'' st''] show ?case by simp
  qed
  with st'(1) show ?thesis by blast
qed

theorem destructor_never_joins_witness:
  "\<exists>st'. destroy timer_mngr_init = Inr st' \<and> worker_step 0 W_wait st' = None
     \<and> \<not> worker_runs (Inr (W_wait, st')) (Inr (W_done, st'))"
proof -
  have "W_wait \<noteq> W_top" "W_wait \<noteq> W_done" by simp_all
  from destructor_never_joins [OF timers_inv_init this] obtain st' where
    st': "destroy timer_mngr_init = Inr st'"
    "\<forall>pc'' st''. worker_runs (Inr (W_wait, st')) (Inr (pc'', st'')) \<longrightarrow> pc'' \<noteq> W_done"
    by (elim exE conjE) (rule that)
  have "stop_timer st'"
    using st'(1) by (auto simp: destroy_def timer_mngr_init_def stop_all_def stop_def start_def
        remove_all_timers_def all_tms_def)
  then have "worker_step 0 W_wait st' = None" by (simp add: worker_step_def)
  moreover have "\<not> worker_runs (Inr (W_wait, st')) (Inr (W_done, st'))" using st'(2) by blast
  ultimately show ?thesis using st'(1) by (intro exI conjI)
qed

section \<open>Repetition\<close>

text \<open>
  One round for a manager that nobody else calls: the worker builds its queue, dispatches the
  first timer, and the next frame serves it.
\<close>

definition serve :: "frame_env \<Rightarrow> tmgr \<Rightarrow> timer_error + tmgr" where
  "serve env st =
     (let st1 = build_queue st
      in bind_r (dispatch (pq_top (m_timer_queue st1)) st1) (\<lambda>st2.
           frame_forward env (st2\<lparr>m_timer_queue := pq_pop (m_timer_queue st2)\<rparr>)))"

fun serve_n :: "frame_env \<Rightarrow> nat \<Rightarrow> tmgr \<Rightarrow> timer_error + tmgr" where
  "serve_n env 0 st = Inr st"
| "serve_n env (Suc k) st = bind_r (serve_n env k st) (serve env)"

text \<open>A callback that calls no native, returns 0 and leaves the AMX heap alone.\<close>

definition quiet :: "frame_env \<Rightarrow> bool" where
  "quiet env = (fe_allot_ok env \<and>
     (\<forall>t. cb_calls (fe_callback env t) = [] \<and> cb_ret (fe_callback env t) = 0))"

text \<open>\<open>t\<close> is the only registered timer.\<close>

definition solo :: "tm \<Rightarrow> tmgr \<Rightarrow> bool" where
  "solo t st = (timers_inv st \<and> all_tms (m_timers st) = [t])"

lemma solo_reg: "solo t st \<longleftrightarrow> timers_inv st \<and> reg (m_timers st) = {#t#}"
  by (simp add: solo_def reg_def)

lemma solo_group:
  assumes "solo t st"
  shows "group_of (tm_amx t) (tm_group_id t) (m_timers st) = Some [t]"
proof -
  have f: "filed (m_timers st)" and r: "reg (m_timers st) = {#t#}"
    using assms by (simp_all add: solo_reg timers_inv_def)
  have m: "mset (case group_of (tm_amx t) (tm_group_id t) (m_timers st) of None \<Rightarrow> [] | Some ts \<Rightarrow> ts)
      = {#t#}"
    unfolding group_members(2) [OF f] r by (simp add: in_group_def)
  then show ?thesis by (auto split: option.splits)
qed

lemma lookup_group:
  "group_of a g (m_timers st) = Some ts \<Longrightarrow>
   get_timer_by_group_id a g i st = Inr (find (\<lambda>t. tm_id t = i) ts)"
  by (auto simp: group_of_def get_timer_by_group_id_def split: option.splits)

lemma solo_lookup:
  "solo t st \<Longrightarrow> get_timer_by_group_id (tm_amx t) (tm_group_id t) (tm_id t) st = Inr (Some t)"
  using lookup_group [OF solo_group] by simp

lemma solo_update:
  assumes "solo t st" "keeps f"
  shows "\<exists>m. update_node (tm_amx t) (tm_group_id t) (tm_id t) f st = Inr (st\<lparr>m_timers := m\<rparr>)
           \<and> solo (f t) (st\<lparr>m_timers := m\<rparr>)"
proof -
  let ?m = "set_group (tm_amx t) (tm_group_id t) (upd_first (tm_id t) f [t]) (m_timers st)"
  have inv: "timers_inv st" and r: "reg (m_timers st) = {#t#}"
    using assms(1) by (simp_all add: solo_reg)
  have f: "filed (m_timers st)" using inv by (simp add: timers_inv_def)
  have u: "update_node (tm_amx t) (tm_group_id t) (tm_id t) f st = Inr (st\<lparr>m_timers := ?m\<rparr>)"
    by (rule update_node_found [OF solo_group [OF assms(1)], of _ t]) simp
  have e: "timers_inv (st\<lparr>m_timers := ?m\<rparr>)"
    using update_node_evolves [OF inv assms(2) u] by (simp add: evolves_def)
  have "reg ?m = {#f t#}"
    using reg_set_group [OF f, of "tm_amx t" "tm_group_id t" "upd_first (tm_id t) f [t]"]
    unfolding r by (simp add: in_group_def)
  with u e show ?thesis by (intro exI [of _ ?m]) (simp add: solo_reg)
qed

lemma solo_remove:
  assumes "solo t st"
  shows "\<exists>st'. remove_timer_by_group_id (tm_amx t) (tm_group_id t) (tm_id t) st = Inr st'
           \<and> timers_inv st' \<and> all_tms (m_timers st') = []"
proof -
  have inv: "timers_inv st" and r: "reg (m_timers st) = {#t#}"
    using assms by (simp_all add: solo_reg)
  obtain st' where "remove_timer_by_group_id (tm_amx t) (tm_group_id t) (tm_id t) st = Inr st'"
    "evolves st st'" "reg (m_timers st') = filter_mset
       (\<lambda>u. \<not> (in_group (tm_amx t) (tm_group_id t) u \<and> tm_id u = tm_id t)) (reg (m_timers st))"
    using remove_by_group_id_evolves [OF inv, of "tm_amx t" "tm_group_id t" "tm_id t"]
    by (elim exE conjE) (rule that)
  then show ?thesis unfolding r by (simp add: in_group_def evolves_def reg_def)
qed

lemma exec_quiet:
  assumes "solo u st" "core u = core t" "quiet env"
  shows "\<exists>h. exec_callback env t st = Inr (0, st\<lparr>amx_hea := h\<rparr>)"
proof -
  have "timers_inv st" and u: "u \<in># reg (m_timers st)" using assms(1) by (simp_all add: solo_reg)
  then have "reg_inv (m_timer_nums st) (reg (m_timers st)) (heap st) (brk st)"
    by (simp add: timers_inv_def)
  from reg_inv_live [OF this u] assms(2) obtain p d where
    pd: "tm_data t = Some p" "heap st p = Some d" "length d = tm_data_size t"
    by (auto simp: core_def)
  with assms(3) have e: "\<exists>h. exec_callback env t st = Inr (0, st\<lparr>amx_hea := h\<rparr>)"
    if "cb_leak (fe_callback env t) \<noteq> 0" using that
    by (auto simp: exec_callback_def quiet_def Let_def)
  have "exec_callback env t st = Inr (0, st\<lparr>amx_hea := amx_hea st\<rparr>)"
    if "cb_leak (fe_callback env t) = 0" using that assms(3) pd
    by (auto simp: exec_callback_def quiet_def Let_def)
  with e show ?thesis by blast
qed

lemma solo_cong:
  "solo t st \<Longrightarrow> m_timers st' = m_timers st \<Longrightarrow> heap st' = heap st \<Longrightarrow> brk st' = brk st \<Longrightarrow>
   m_timer_nums st' = m_timer_nums st \<Longrightarrow> solo t st'"
  by (simp add: solo_def timers_inv_def)

lemma build_queue_solo:
  assumes "solo t st" "\<not> stop_timer st" "\<not> tm_executed t"
  shows "build_queue st = st\<lparr>m_timer_queue := [t], stop_loop := False\<rparr>"
  using assms by (simp add: solo_def build_queue_def collect_queue_def push_to_queue_def pq_push_def)

lemma frame_forward_solo:
  assumes u: "solo u st" "core u = core t" "tm_id u = tm_id t" and q: "quiet env"
    and st: "m_frames st = [t]" "\<not> stop_timer st" "tm_amx t \<noteq> 0" "tm_fwd_id t \<noteq> - 1"
  shows "\<exists>st'. frame_forward env st = Inr st' \<and> timers_inv st' \<and> m_frames st' = []
    \<and> stop_timer st' = stop_timer st
    \<and> all_tms (m_timers st') = (if repeats t then [reschedule (fe_now env) t u] else [])"
proof -
  let ?st1 = "st\<lparr>m_frames := []\<rparr>"
  have same: "tm_amx u = tm_amx t" "tm_group_id u = tm_group_id t"
    using u(2) by (simp_all add: core_def)
  have s1: "solo u ?st1" by (rule solo_cong [OF u(1)]) simp_all
  obtain h where ex: "exec_callback env t ?st1 = Inr (0, ?st1\<lparr>amx_hea := h\<rparr>)"
    using exec_quiet [OF s1 u(2) q] by (elim exE) (rule that)
  let ?st2 = "?st1\<lparr>amx_hea := h\<rparr>"
  have s2: "solo u ?st2" by (rule solo_cong [OF s1]) simp_all
  have ff: "frame_forward env st =
     (if repeats t then bind_r (update_node (tm_amx t) (tm_group_id t) (tm_id t)
                          (reschedule (fe_now env) t) ?st2) (\<lambda>st3. Inr (stop False st3))
      else remove_timer_by_group_id (tm_amx t) (tm_group_id t) (tm_id t) ?st2)"
    using solo_lookup [OF s1] ex st same u(3)
    by (simp add: frame_forward_def get_timer_def pq_top_def pq_pop_def)
  show ?thesis
  proof (cases "repeats t")
    case True
    obtain m where "update_node (tm_amx u) (tm_group_id u) (tm_id u) (reschedule (fe_now env) t) ?st2
        = Inr (?st2\<lparr>m_timers := m\<rparr>)" "solo (reschedule (fe_now env) t u) (?st2\<lparr>m_timers := m\<rparr>)"
      using solo_update [OF s2, of "reschedule (fe_now env) t"] by auto
    with ff True same u(3) show ?thesis by (simp add: solo_def stop_def timers_inv_def)
  next
    case False
    obtain st' where r: "remove_timer_by_group_id (tm_amx u) (tm_group_id u) (tm_id u) ?st2 = Inr st'"
      "timers_inv st'" "all_tms (m_timers st') = []"
      using solo_remove [OF s2] by (elim exE conjE) (rule that)
    have "m_frames st' = m_frames ?st2 \<and> stop_timer st' = stop_timer ?st2"
      using r(1) by (auto simp: remove_timer_by_group_id_def elim!: bind_r_InrE split: option.splits)
    with ff False same u(3) r show ?thesis by simp
  qed
qed

lemma serve_solo:
  assumes t: "solo t st" "\<not> tm_executed t" "tm_amx t \<noteq> 0" "tm_fwd_id t \<noteq> - 1"
    and st: "\<not> stop_timer st" "m_frames st = []" and q: "quiet env"
  shows "\<exists>st'. serve env st = Inr st' \<and> timers_inv st' \<and> m_frames st' = [] \<and> \<not> stop_timer st'
    \<and> all_tms (m_timers st') =
        (if repeats t then [reschedule (fe_now env) t (t\<lparr>tm_executed := True\<rparr>)] else [])"
proof -
  let ?u = "t\<lparr>tm_executed := True\<rparr>"
  let ?st1 = "st\<lparr>m_timer_queue := [t], stop_loop := False\<rparr>"
  note b = build_queue_solo [OF t(1) st(1) t(2)]
  have s1: "solo t ?st1" by (rule solo_cong [OF t(1)]) simp_all
  obtain m where m: "update_node (tm_amx t) (tm_group_id t) (tm_id t)
      (\<lambda>n. n\<lparr>tm_executed := True\<rparr>) ?st1 = Inr (?st1\<lparr>m_timers := m\<rparr>)"
    "solo ?u (?st1\<lparr>m_timers := m\<rparr>)"
    using solo_update [OF s1, of "\<lambda>n. n\<lparr>tm_executed := True\<rparr>"] by auto
  let ?st3 = "?st1\<lparr>m_timers := m, m_frames := [t], m_timer_queue := []\<rparr>"
  have sv: "serve env st = frame_forward env ?st3"
    using solo_lookup [OF s1] m(1) st(2)
    by (simp add: serve_def Let_def b dispatch_def pq_top_def pq_pop_def pq_push_def)
  have "solo ?u ?st3" by (rule solo_cong [OF m(2)]) simp_all
  moreover have "core ?u = core t" "tm_id ?u = tm_id t" by (simp_all add: core_def)
  ultimately show ?thesis
    unfolding sv using frame_forward_solo [of ?u ?st3 t env] q st(1) t(3,4) by simp
qed

text \<open>The state of a repeating timer after \<open>k\<close> rounds.\<close>

definition after_rounds :: "nat \<Rightarrow> tm \<Rightarrow> tm" where
  "after_rounds k t = t\<lparr>tm_time := tm_time t + int k * delay_ns (tm_delay_sec t),
                        tm_repeat := tm_repeat t - k, tm_executed := False\<rparr>"

lemma reschedule_after_rounds:
  assumes "has_flag (tm_flags t) TIMER_FLAG_REPEAT" "\<not> has_flag (tm_flags t) TIMER_FLAG_RELATIVE"
    "k < tm_repeat t" "tm_repeat t < 2 ^ 32"
  shows "reschedule now (after_rounds k t) ((after_rounds k t)\<lparr>tm_executed := True\<rparr>)
         = after_rounds (Suc k) t"
proof -
  have e: "tm_repeat t - k + 2 ^ 32 - 1 = tm_repeat t - Suc k + 2 ^ 32" using assms(3) by simp
  have "(tm_repeat t - k + 2 ^ 32 - 1) mod 2 ^ 32 = tm_repeat t - Suc k"
    unfolding e using assms(4) by simp
  with assms(1,2) show ?thesis by (simp add: reschedule_def after_rounds_def algebra_simps)
qed



end
