(* ===== verification/Clients.thy ===== *)
theory Clients
  imports Entities
begin

text \<open>
  The players of \<^verbatim>\<open>refsapi.cpp\<close>: the slots of the clients with their teams, the numbers of players per
  team, the hooks that keep them, and the dispatch of the messages the game writes, from which the team
  of a player is learnt (\<^verbatim>\<open>TeamInfo\<close>).
\<close>

section \<open>Data\<close>

definition TEAM_UNASSIGNED :: nat where "TEAM_UNASSIGNED = 0"
definition TEAM_TERRORIST :: nat where "TEAM_TERRORIST = 1"
definition TEAM_CT :: nat where "TEAM_CT = 2"
definition TEAM_SPECTRATOR :: nat where "TEAM_SPECTRATOR = 3"
definition TEAM_DEAD_TT :: nat where "TEAM_DEAD_TT = 4"
definition TEAM_DEAD_CT :: nat where "TEAM_DEAD_CT = 5"

lemmas team_defs = TEAM_UNASSIGNED_def TEAM_TERRORIST_def TEAM_CT_def TEAM_SPECTRATOR_def
  TEAM_DEAD_TT_def TEAM_DEAD_CT_def

record client =
  cl_connected :: bool
  cl_bot :: bool
  cl_team :: nat

datatype hook = H_TeamInfo

record game =
  clients :: "int \<Rightarrow> client"
  players_num :: "nat \<Rightarrow> int"
  ent_team :: "int \<Rightarrow> int"       \<comment> \<open>what is written to \<^verbatim>\<open>v.team\<close> of the entities\<close>
  m_state :: int
  info_id :: int                \<comment> \<open>\<^verbatim>\<open>static int id\<close> of \<^verbatim>\<open>Client_TeamInfo\<close>\<close>
  msg_function :: "hook option"
  msg_endfunction :: "hook option"
  mod_msgs :: "int \<Rightarrow> hook option"
  mod_msgs_end :: "int \<Rightarrow> hook option"
  gmsgTeamInfo :: int

definition game_init :: game where
  "game_init = \<lparr>clients = (\<lambda>_. \<lparr>cl_connected = False, cl_bot = False, cl_team = 0\<rparr>),
     players_num = (\<lambda>_. 0), ent_team = (\<lambda>_. 0), m_state = 0, info_id = 0, msg_function = None,
     msg_endfunction = None, mod_msgs = (\<lambda>_. None), mod_msgs_end = (\<lambda>_. None), gmsgTeamInfo = 0\<rparr>"

datatype msg_error = UB_argument_type \<comment> \<open>an argument read as another type, or through a null pointer\<close>

datatype msg_arg = M_int int | M_float rat | M_str string | M_null

definition upd_client :: "int \<Rightarrow> (client \<Rightarrow> client) \<Rightarrow> game \<Rightarrow> game" where
  "upd_client i f g = g\<lparr>clients := (clients g)(i := f (clients g i))\<rparr>"

definition add_num :: "nat \<Rightarrow> int \<Rightarrow> game \<Rightarrow> game" where
  "add_num t d g = g\<lparr>players_num := (players_num g)(t := players_num g t + d)\<rparr>"

text \<open>The slot of the dead of a team, \<^verbatim>\<open>TEAM_DEAD_TT + team - 1\<close>.\<close>

definition dead_slot :: "nat \<Rightarrow> nat" where
  "dead_slot team = TEAM_DEAD_TT + team - 1"

definition dead_entity :: "edict option \<Rightarrow> bool" where
  "dead_entity p = (is_valid_entity p \<and> (case p of None \<Rightarrow> False | Some e \<Rightarrow> \<not> ed_alive e))"

text \<open>The repeated \<^verbatim>\<open>FIX TEAMS DEAD COUNT\<close>: one dead less when there is one.\<close>

definition drop_dead :: "nat \<Rightarrow> game \<Rightarrow> game" where
  "drop_dead team g =
     (if is_valid_team (int team) \<and> players_num g (dead_slot team) > 0
      then add_num (dead_slot team) (- 1) g else g)"

section \<open>Players come and go\<close>

definition Client_PutInServer :: "int \<Rightarrow> int \<Rightarrow> bool \<Rightarrow> game \<Rightarrow> game" where
  "Client_PutInServer max_clients i is_bot g =
     (if is_valid_index max_clients i
      then add_num TEAM_UNASSIGNED 1
             (upd_client i (\<lambda>c. c\<lparr>cl_bot := is_bot, cl_connected := True, cl_team := TEAM_UNASSIGNED\<rparr>) g)
      else g)"

definition Client_Disconnected :: "int \<Rightarrow> world \<Rightarrow> int \<Rightarrow> game \<Rightarrow> game" where
  "Client_Disconnected max_clients w i g =
     (if is_valid_index max_clients i \<and> cl_connected (clients g i)
      then let g1 = upd_client i (\<lambda>c. c\<lparr>cl_connected := False, cl_bot := False\<rparr>) g;
               team = cl_team (clients g1 i);
               g2 = add_num team (- 1) g1
           in if dead_entity (w i) then drop_dead team g2 else g2
      else g)"

definition CBasePlayer_Spawn :: "int \<Rightarrow> int \<Rightarrow> bool \<Rightarrow> game \<Rightarrow> game" where
  "CBasePlayer_Spawn max_clients i is_dead g =
     (if is_valid_index max_clients i \<and> is_dead then drop_dead (cl_team (clients g i)) g else g)"

definition CSGameRules_CheckMapConditions :: "game \<Rightarrow> game" where
  "CSGameRules_CheckMapConditions g =
     g\<lparr>players_num := (players_num g)(TEAM_DEAD_TT := 0, TEAM_DEAD_CT := 0)\<rparr>"

definition CBasePlayer_Killed :: "int \<Rightarrow> nat \<Rightarrow> game \<Rightarrow> game" where
  "CBasePlayer_Killed i m_iTeam g =
     (if cl_connected (clients g i) \<and> is_valid_team (int m_iTeam)
      then add_num (dead_slot m_iTeam) 1 g else g)"

definition rf_get_players_num :: "nat \<Rightarrow> bool \<Rightarrow> game \<Rightarrow> int list \<times> int" where
  "rf_get_players_num nums_size teams_only g =
     (let max_size = min 6 nums_size;
          total = players_num g TEAM_TERRORIST + players_num g TEAM_CT
      in (map (players_num g) [0..<max_size],
          if teams_only then total
          else total + players_num g TEAM_UNASSIGNED + players_num g TEAM_SPECTRATOR))"

section \<open>Messages\<close>

definition team_of_msg :: "string \<Rightarrow> nat" where
  "team_of_msg msg =
     (case msg of
        [] \<Rightarrow> TEAM_UNASSIGNED
      | c # _ \<Rightarrow> if c = CHR ''T'' then TEAM_TERRORIST else if c = CHR ''C'' then TEAM_CT
                 else if c = CHR ''S'' then TEAM_SPECTRATOR else TEAM_UNASSIGNED)"

text \<open>
  The end of \<^verbatim>\<open>Client_TeamInfo\<close>, when both arguments are known: the counts of the dead, the
  counts of the teams, the slot and the entity.
\<close>

definition fix_dead :: "world \<Rightarrow> int \<Rightarrow> nat \<Rightarrow> nat \<Rightarrow> game \<Rightarrow> game" where
  "fix_dead w i old new_team g =
     (if dead_entity (w i)
      then let g1 = drop_dead old g
           in if is_valid_team (int new_team) \<and> players_num g1 (dead_slot new_team) > 0
              then add_num (dead_slot new_team) 1 g1 else g1
      else g)"

definition change_team :: "world \<Rightarrow> int \<Rightarrow> nat \<Rightarrow> game \<Rightarrow> game" where
  "change_team w i new_team g =
     (let old = cl_team (clients g i)
      in upd_client i (\<lambda>c. c\<lparr>cl_team := new_team\<rparr>)
           (add_num new_team 1 (add_num old (- 1) (fix_dead w i old new_team g))))"

definition set_team :: "world \<Rightarrow> int \<Rightarrow> nat \<Rightarrow> game \<Rightarrow> game" where
  "set_team w i new_team g =
     (let g1 = (if \<not> cl_connected (clients g i)
                then upd_client i (\<lambda>c. c\<lparr>cl_team := new_team\<rparr>) g
                else if new_team \<noteq> TEAM_UNASSIGNED \<and> cl_team (clients g i) \<noteq> new_team
                then change_team w i new_team g
                else g)
      in if is_valid_entity (w i) then g1\<lparr>ent_team := (ent_team g1)(i := int new_team)\<rparr> else g1)"

definition Client_TeamInfo :: "int \<Rightarrow> world \<Rightarrow> msg_arg \<Rightarrow> game \<Rightarrow> msg_error + game" where
  "Client_TeamInfo max_clients w m_value g =
     (let state = m_state g; g' = g\<lparr>m_state := state + 1\<rparr>
      in if state = 0
         then (case m_value of M_int i \<Rightarrow> Inr (g'\<lparr>info_id := i\<rparr>) | _ \<Rightarrow> Inl UB_argument_type)
         else if state = 1
         then if \<not> is_valid_index max_clients (info_id g') then Inr g'
              else (case m_value of
                      M_null \<Rightarrow> Inr g'
                    | M_str msg \<Rightarrow> Inr (set_team w (info_id g') (team_of_msg msg) g')
                    | _ \<Rightarrow> Inl UB_argument_type)
         else Inr g')"

definition call_hook :: "int \<Rightarrow> world \<Rightarrow> hook option \<Rightarrow> msg_arg \<Rightarrow> game \<Rightarrow> msg_error + game" where
  "call_hook max_clients w f m_value g =
     (case f of None \<Rightarrow> Inr g | Some H_TeamInfo \<Rightarrow> Client_TeamInfo max_clients w m_value g)"

definition R_RegUserMsg_Post :: "string \<Rightarrow> int \<Rightarrow> game \<Rightarrow> game" where
  "R_RegUserMsg_Post name i g =
     (if name = ''TeamInfo''
      then g\<lparr>gmsgTeamInfo := i, mod_msgs := (mod_msgs g)(i := Some H_TeamInfo)\<rparr> else g)"

definition R_MessageBegin_Post :: "int \<Rightarrow> game \<Rightarrow> game" where
  "R_MessageBegin_Post msg_type g =
     g\<lparr>m_state := 0, msg_function := mod_msgs g msg_type, msg_endfunction := mod_msgs_end g msg_type\<rparr>"

text \<open>The eight \<^verbatim>\<open>R_Write..._Post\<close> functions differ in the type of the argument only.\<close>

definition R_Write_Post :: "int \<Rightarrow> world \<Rightarrow> msg_arg \<Rightarrow> game \<Rightarrow> msg_error + game" where
  "R_Write_Post max_clients w m_value g = call_hook max_clients w (msg_function g) m_value g"

definition R_MessageEnd_Post :: "int \<Rightarrow> world \<Rightarrow> game \<Rightarrow> msg_error + game" where
  "R_MessageEnd_Post max_clients w g = call_hook max_clients w (msg_endfunction g) M_null g"

fun write_args :: "int \<Rightarrow> world \<Rightarrow> msg_arg list \<Rightarrow> game \<Rightarrow> msg_error + game" where
  "write_args mc w [] g = Inr g"
| "write_args mc w (a # as) g = bind_r (R_Write_Post mc w a g) (write_args mc w as)"

definition message :: "int \<Rightarrow> world \<Rightarrow> int \<Rightarrow> msg_arg list \<Rightarrow> game \<Rightarrow> msg_error + game" where
  "message mc w msg_type args g =
     bind_r (write_args mc w args (R_MessageBegin_Post msg_type g)) (R_MessageEnd_Post mc w)"

end
