(* ===== verification/Clients_Props.thy ===== *)
theory Clients_Props
  imports Clients
begin

text \<open>
  The numbers of players per team count the connected slots in every reachable state, the message
  dispatch turns a \<^verbatim>\<open>TeamInfo\<close> message into one change of team and ignores every other message, and
  the count of dead players loses a player who changes the team.
\<close>

section \<open>The counts\<close>

definition members :: "int \<Rightarrow> game \<Rightarrow> nat \<Rightarrow> int set" where
  "members mc g t = {i. is_valid_index mc i \<and> cl_connected (clients g i) \<and> cl_team (clients g i) = t}"

definition counts_inv :: "int \<Rightarrow> game \<Rightarrow> bool" where
  "counts_inv mc g =
     ((\<forall>t < 4. players_num g t = int (card (members mc g t)))
      \<and> (\<forall>i. cl_team (clients g i) < 4)
      \<and> 0 \<le> players_num g TEAM_DEAD_TT \<and> 0 \<le> players_num g TEAM_DEAD_CT
      \<and> (\<forall>i. mod_msgs_end g i = None) \<and> msg_endfunction g = None)"

lemma finite_members [simp]: "finite (members mc g t)"
  by (rule finite_subset [of _ "{1..mc}"]) (auto simp: members_def is_valid_index_def)

lemma dead_slot_cases: "is_valid_team (int t) \<Longrightarrow> dead_slot t = TEAM_DEAD_TT \<or> dead_slot t = TEAM_DEAD_CT"
  by (auto simp: is_valid_team_def dead_slot_def team_defs)

lemma upd_client_simps [simp]:
  "clients (upd_client i f g) = (clients g)(i := f (clients g i))"
  "players_num (upd_client i f g) = players_num g" "ent_team (upd_client i f g) = ent_team g"
  "mod_msgs_end (upd_client i f g) = mod_msgs_end g" "msg_endfunction (upd_client i f g) = msg_endfunction g"
  by (simp_all add: upd_client_def)

lemma add_num_simps [simp]:
  "clients (add_num t d g) = clients g"
  "players_num (add_num t d g) = (players_num g)(t := players_num g t + d)"
  "mod_msgs_end (add_num t d g) = mod_msgs_end g" "msg_endfunction (add_num t d g) = msg_endfunction g"
  by (simp_all add: add_num_def)

lemma members_dead [simp]: "members mc (add_num t d g) = members mc g"
  by (simp add: members_def fun_eq_iff)

text \<open>A change of the dead counts only, which stay non-negative.\<close>

lemma counts_inv_dead:
  assumes "counts_inv mc g" "is_valid_team (int t)" "0 \<le> players_num g (dead_slot t) + d"
  shows "counts_inv mc (add_num (dead_slot t) d g)"
  using assms dead_slot_cases [OF assms(2)] by (auto simp: counts_inv_def team_defs)

lemma drop_dead_inv: "counts_inv mc g \<Longrightarrow> counts_inv mc (drop_dead t g)"
  by (simp add: drop_dead_def counts_inv_dead)

lemma drop_dead_same [simp]: "clients (drop_dead t g) = clients g"
  by (simp add: drop_dead_def)

text \<open>Moving slot \<open>i\<close> to another team, into the game, or out of it.\<close>

lemma members_upd:
  "members mc (upd_client i f g) t =
     (if is_valid_index mc i \<and> cl_connected (f (clients g i)) \<and> cl_team (f (clients g i)) = t
      then insert i (members mc g t) else members mc g t - {i})"
  by (auto simp: members_def)

lemma member_iff:
  "i \<in> members mc g t \<longleftrightarrow> is_valid_index mc i \<and> cl_connected (clients g i) \<and> cl_team (clients g i) = t"
  by (simp add: members_def)

lemma put_inv:
  assumes "counts_inv mc g" "\<not> cl_connected (clients g i)"
  shows "counts_inv mc (Client_PutInServer mc i b g)"
proof (cases "is_valid_index mc i")
  case True
  have n: "i \<notin> members mc g t" for t using assms(2) by (simp add: member_iff)
  show ?thesis
    using assms(1) True n
    by (auto simp: counts_inv_def Client_PutInServer_def members_upd team_defs)
qed (use assms in \<open>simp add: Client_PutInServer_def\<close>)

lemma leave_inv:
  assumes "counts_inv mc g" "is_valid_index mc i" "cl_connected (clients g i)"
  shows "counts_inv mc (add_num (cl_team (clients g i)) (- 1)
    (upd_client i (\<lambda>c. c\<lparr>cl_connected := False, cl_bot := False\<rparr>) g))"
proof -
  let ?t = "cl_team (clients g i)"
  have m: "i \<in> members mc g t \<longleftrightarrow> t = ?t" for t using assms(2,3) by (auto simp: member_iff)
  have c: "int (card (members mc g ?t - {i})) = int (card (members mc g ?t)) - 1"
    using m card.remove [of "members mc g ?t" i] by simp
  have o: "members mc g t - {i} = members mc g t" if "t \<noteq> ?t" for t using m that by blast
  have "?t < 4" using assms(1) by (simp add: counts_inv_def)
  then have "?t \<noteq> 4" "?t \<noteq> 5" by simp_all
  with assms(1) c o show ?thesis
    by (auto simp: counts_inv_def members_upd team_defs)
qed

lemma move_inv:
  assumes "counts_inv mc g" "is_valid_index mc i" "cl_connected (clients g i)"
    "cl_team (clients g i) = old" "old \<noteq> new" "new < 4"
  shows "counts_inv mc (upd_client i (\<lambda>c. c\<lparr>cl_team := new\<rparr>) (add_num new 1 (add_num old (- 1) g)))"
proof -
  have m: "i \<in> members mc g t \<longleftrightarrow> t = old" for t using assms(2-4) by (auto simp: member_iff)
  have c: "int (card (members mc g old - {i})) = int (card (members mc g old)) - 1"
    using m card.remove [of "members mc g old" i] by simp
  have o: "members mc g t - {i} = members mc g t" if "t \<noteq> old" for t using m that by blast
  have n: "card (insert i (members mc g new)) = Suc (card (members mc g new))"
    using m assms(5) by simp
  have "old < 4" using assms(1,4) by (auto simp: counts_inv_def)
  then have "old \<noteq> 4" "old \<noteq> 5" "new \<noteq> 4" "new \<noteq> 5" using assms(6) by simp_all
  with assms c o n show ?thesis
    by (auto simp: counts_inv_def members_upd team_defs)
qed

lemma ent_team_inv [simp]: "counts_inv mc (g\<lparr>ent_team := x\<rparr>) = counts_inv mc g"
  by (simp add: counts_inv_def members_def)

lemma team_of_msg_less: "team_of_msg s < 4"
  by (simp add: team_of_msg_def team_defs split: list.split)

lemma counts_inv_absent:
  "counts_inv mc g \<Longrightarrow> \<not> cl_connected (clients g i) \<Longrightarrow> new < 4 \<Longrightarrow>
   counts_inv mc (upd_client i (\<lambda>c. c\<lparr>cl_team := new\<rparr>) g)"
proof -
  assume a: "counts_inv mc g" "\<not> cl_connected (clients g i)" "new < 4"
  then have "members mc g t - {i} = members mc g t" for t by (auto simp: member_iff)
  with a show ?thesis by (auto simp: counts_inv_def members_upd)
qed

lemma fix_dead_inv: "counts_inv mc g \<Longrightarrow> counts_inv mc (fix_dead w i old new g)"
  using drop_dead_inv [of mc g old] counts_inv_dead [of mc "drop_dead old g" new 1]
  by (simp add: fix_dead_def Let_def)

lemma fix_dead_same [simp]: "clients (fix_dead w i old new g) = clients g"
  by (simp add: fix_dead_def Let_def)

lemma change_team_inv:
  assumes "counts_inv mc g" "is_valid_index mc i" "cl_connected (clients g i)"
    "cl_team (clients g i) \<noteq> new" "new < 4"
  shows "counts_inv mc (change_team w i new g)"
  unfolding change_team_def Let_def
  by (rule move_inv [OF fix_dead_inv [OF assms(1)] assms(2)]) (use assms in simp_all)

lemma set_team_inv:
  assumes "counts_inv mc g" "is_valid_index mc i" "new < 4"
  shows "counts_inv mc (set_team w i new g)"
  using assms counts_inv_absent [OF assms(1) _ assms(3)] change_team_inv [OF assms(1,2) _ _ assms(3)]
  by (simp add: set_team_def Let_def)

lemma msg_fields_inv [simp]:
  "counts_inv mc (g\<lparr>m_state := x\<rparr>) = counts_inv mc g" "counts_inv mc (g\<lparr>info_id := y\<rparr>) = counts_inv mc g"
  by (simp_all add: counts_inv_def members_def)

lemma team_info_inv:
  assumes "Client_TeamInfo mc w v g = Inr g'" "counts_inv mc g"
  shows "counts_inv mc g'"
  using assms set_team_inv [OF _ _ team_of_msg_less]
  by (auto simp: Client_TeamInfo_def Let_def split: if_splits msg_arg.splits)

lemma call_hook_inv:
  "call_hook mc w f v g = Inr g' \<Longrightarrow> counts_inv mc g \<Longrightarrow> counts_inv mc g'"
  by (auto simp: call_hook_def intro: team_info_inv split: option.splits hook.splits)

section \<open>The reachable states\<close>

text \<open>
  A client is put into the server when its slot is free; the hooks run in any order, each with the
  entities the game has at that moment.
\<close>

inductive game_reach :: "int \<Rightarrow> game \<Rightarrow> bool" for mc :: int where
  init: "game_reach mc game_init"
| put: "game_reach mc g \<Longrightarrow> \<not> cl_connected (clients g i) \<Longrightarrow> game_reach mc (Client_PutInServer mc i b g)"
| leave: "game_reach mc g \<Longrightarrow> game_reach mc (Client_Disconnected mc w i g)"
| spawn: "game_reach mc g \<Longrightarrow> game_reach mc (CBasePlayer_Spawn mc i d g)"
| check: "game_reach mc g \<Longrightarrow> game_reach mc (CSGameRules_CheckMapConditions g)"
| killed: "game_reach mc g \<Longrightarrow> game_reach mc (CBasePlayer_Killed i t g)"
| register: "game_reach mc g \<Longrightarrow> game_reach mc (R_RegUserMsg_Post name i g)"
| begin_msg: "game_reach mc g \<Longrightarrow> game_reach mc (R_MessageBegin_Post ty g)"
| write_msg: "game_reach mc g \<Longrightarrow> R_Write_Post mc w v g = Inr g' \<Longrightarrow> game_reach mc g'"
| end_msg: "game_reach mc g \<Longrightarrow> R_MessageEnd_Post mc w g = Inr g' \<Longrightarrow> game_reach mc g'"

lemma disconnect_inv: "counts_inv mc g \<Longrightarrow> counts_inv mc (Client_Disconnected mc w i g)"
  using leave_inv [of mc g i] by (simp add: Client_Disconnected_def Let_def drop_dead_inv)

lemma kill_inv: "counts_inv mc g \<Longrightarrow> counts_inv mc (CBasePlayer_Killed i t g)"
proof -
  assume a: "counts_inv mc g"
  then have "is_valid_team (int t) \<Longrightarrow> 0 \<le> players_num g (dead_slot t) + 1"
    using dead_slot_cases [of t] by (auto simp: counts_inv_def)
  with a counts_inv_dead [of mc g t 1] show ?thesis by (simp add: CBasePlayer_Killed_def)
qed

lemma game_reach_inv: "game_reach mc g \<Longrightarrow> counts_inv mc g"
proof (induction rule: game_reach.induct)
  case init
  show ?case by (simp add: counts_inv_def game_init_def members_def)
next
  case (put g i b)
  show ?case by (rule put_inv) (use put in simp_all)
next
  case (spawn g i d)
  then show ?case by (simp add: CBasePlayer_Spawn_def drop_dead_inv)
next
  case (check g)
  then show ?case
    by (auto simp: CSGameRules_CheckMapConditions_def counts_inv_def team_defs members_def)
next
  case (register g name i)
  then show ?case by (simp add: R_RegUserMsg_Post_def counts_inv_def members_def)
next
  case (begin_msg g ty)
  then show ?case by (simp add: R_MessageBegin_Post_def counts_inv_def members_def)
next
  case (write_msg g w v g')
  then show ?case unfolding R_Write_Post_def by (blast intro: call_hook_inv)
next
  case (end_msg g w g')
  then show ?case unfolding R_MessageEnd_Post_def by (blast intro: call_hook_inv)
qed (auto intro: disconnect_inv kill_inv)

text \<open>
  C30: In every reachable state the number kept for each of the four teams is the number of connected
  slots in it, and the numbers of dead players are not negative.
\<close>

theorem team_counts_exact:
  assumes "game_reach mc g"
  shows "list_all (\<lambda>t. players_num g t =
      int (length (filter (\<lambda>i. cl_connected (clients g i) \<and> cl_team (clients g i) = t) [1..mc])))
    [TEAM_UNASSIGNED, TEAM_TERRORIST, TEAM_CT, TEAM_SPECTRATOR]
    \<and> 0 \<le> players_num g TEAM_DEAD_TT \<and> 0 \<le> players_num g TEAM_DEAD_CT"
proof -
  have i: "counts_inv mc g" by (rule game_reach_inv [OF assms])
  have "length (filter (\<lambda>i. cl_connected (clients g i) \<and> cl_team (clients g i) = t) [1..mc])
      = card (members mc g t)" for t
    by (subst distinct_card [symmetric])
       (auto simp: members_def is_valid_index_def intro!: arg_cong [where f = card])
  with i show ?thesis by (simp add: counts_inv_def team_defs)
qed

definition one_player :: game where
  "one_player = Client_PutInServer 32 1 False game_init"

lemma one_player_reach: "game_reach 32 one_player"
  unfolding one_player_def by (rule game_reach.put [OF game_reach.init]) (simp add: game_init_def)

theorem team_counts_exact_witness: "players_num one_player TEAM_UNASSIGNED = 1"
proof -
  have "filter (\<lambda>i. cl_connected (clients one_player i) \<and> cl_team (clients one_player i) = 0) [1..32] = [1]"
    by (simp add: one_player_def Client_PutInServer_def is_valid_index_def game_init_def team_defs upto.simps)
  with team_counts_exact [OF one_player_reach] show ?thesis by (simp add: team_defs)
qed

text \<open>
  What \<^verbatim>\<open>rf_get_players_num\<close> returns for all teams is the number of connected players.
\<close>

theorem players_num_total:
  assumes "game_reach mc g"
  shows "snd (rf_get_players_num sz False g) =
    int (length (filter (\<lambda>i. cl_connected (clients g i)) [1..mc]))"
proof -
  have i: "counts_inv mc g" by (rule game_reach_inv [OF assms])
  let ?m = "members mc g"
  let ?all = "{i. is_valid_index mc i \<and> cl_connected (clients g i)}"
  have "?all = ?m 0 \<union> ?m 1 \<union> ?m 2 \<union> ?m 3"
  proof (intro set_eqI iffI)
    fix x
    assume "x \<in> ?all"
    moreover have "cl_team (clients g x) < 4" using i by (simp add: counts_inv_def)
    then have "cl_team (clients g x) = 0 \<or> cl_team (clients g x) = 1 \<or> cl_team (clients g x) = 2
      \<or> cl_team (clients g x) = 3" by linarith
    ultimately show "x \<in> ?m 0 \<union> ?m 1 \<union> ?m 2 \<union> ?m 3" by (auto simp: members_def)
  qed (auto simp: members_def)
  moreover have "?m s \<inter> ?m t = {}" if "s \<noteq> t" for s t using that by (auto simp: members_def)
  ultimately have "card ?all = card (?m 0) + card (?m 1) + card (?m 2) + card (?m 3)"
    by (simp add: card_Un_disjoint Int_Un_distrib2)
  moreover have "length (filter (\<lambda>i. cl_connected (clients g i)) [1..mc]) = card ?all"
    by (subst distinct_card [symmetric])
       (auto simp: is_valid_index_def intro!: arg_cong [where f = card])
  ultimately show ?thesis
    using i by (simp add: counts_inv_def rf_get_players_num_def team_defs)
qed

theorem players_num_total_witness: "snd (rf_get_players_num 6 False one_player) = 1"
proof -
  have "filter (\<lambda>i. cl_connected (clients one_player i)) [1..32] = [1]"
    by (simp add: one_player_def Client_PutInServer_def is_valid_index_def game_init_def team_defs upto.simps)
  with players_num_total [OF one_player_reach, of 6] show ?thesis by simp
qed

section \<open>Messages\<close>

lemma num_fields [simp]:
  "add_num t d (g\<lparr>m_state := k\<rparr>) = (add_num t d g)\<lparr>m_state := k\<rparr>"
  "upd_client i f (g\<lparr>m_state := k\<rparr>) = (upd_client i f g)\<lparr>m_state := k\<rparr>"
  "m_state (add_num t d g) = m_state g" "m_state (upd_client i f g) = m_state g"
  "msg_function (add_num t d g) = msg_function g" "msg_function (upd_client i f g) = msg_function g"
  by (simp_all add: add_num_def upd_client_def)

lemma drop_dead_fields [simp]:
  "drop_dead t (g\<lparr>m_state := k\<rparr>) = (drop_dead t g)\<lparr>m_state := k\<rparr>"
  "m_state (drop_dead t g) = m_state g" "msg_function (drop_dead t g) = msg_function g"
  "msg_endfunction (drop_dead t g) = msg_endfunction g"
  by (simp_all add: drop_dead_def)

lemma fix_dead_fields [simp]:
  "fix_dead w i old new (g\<lparr>m_state := k\<rparr>) = (fix_dead w i old new g)\<lparr>m_state := k\<rparr>"
  "m_state (fix_dead w i old new g) = m_state g" "msg_function (fix_dead w i old new g) = msg_function g"
  "msg_endfunction (fix_dead w i old new g) = msg_endfunction g"
  by (simp_all add: fix_dead_def Let_def)

lemma change_team_fields [simp]:
  "change_team w i new (g\<lparr>m_state := k\<rparr>) = (change_team w i new g)\<lparr>m_state := k\<rparr>"
  "m_state (change_team w i new g) = m_state g" "msg_function (change_team w i new g) = msg_function g"
  "msg_endfunction (change_team w i new g) = msg_endfunction g"
  by (simp_all add: change_team_def Let_def)

lemma set_team_m_state: "set_team w i t (g\<lparr>m_state := k\<rparr>) = (set_team w i t g)\<lparr>m_state := k\<rparr>"
  by (simp add: set_team_def Let_def)

lemma set_team_fields [simp]:
  "m_state (set_team w i t g) = m_state g" "msg_function (set_team w i t g) = msg_function g"
  "msg_endfunction (set_team w i t g) = msg_endfunction g"
  by (simp_all add: set_team_def Let_def)

lemma write_rest:
  "msg_function g = Some H_TeamInfo \<Longrightarrow> 2 \<le> m_state g \<Longrightarrow>
   write_args mc w as g = Inr (g\<lparr>m_state := m_state g + int (length as)\<rparr>)"
proof (induction as arbitrary: g)
  case (Cons a as)
  have "R_Write_Post mc w a g = Inr (g\<lparr>m_state := m_state g + 1\<rparr>)"
    using Cons.prems by (simp add: R_Write_Post_def call_hook_def Client_TeamInfo_def Let_def)
  with Cons.IH [of "g\<lparr>m_state := m_state g + 1\<rparr>"] Cons.prems show ?case
    by (simp add: algebra_simps)
qed simp

text \<open>
  A \<^verbatim>\<open>TeamInfo\<close> message, an index and a team name, is dispatched to exactly one change of the
  team of that player, whatever arguments follow; a message of a type without a handler changes no
  player and no count.
\<close>

theorem team_info_message:
  assumes "mod_msgs g ty = Some H_TeamInfo" "mod_msgs_end g ty = None" "is_valid_index mc i"
    and "mod_msgs g ty' = None" "mod_msgs_end g ty' = None"
  shows "message mc w ty (M_int i # M_str s # rest) g =
    Inr (set_team w i (team_of_msg s)
           (g\<lparr>msg_function := Some H_TeamInfo, msg_endfunction := None, info_id := i,
              m_state := 2 + int (length rest)\<rparr>))
    \<and> message mc w ty' args g = Inr (g\<lparr>m_state := 0, msg_function := None, msg_endfunction := None\<rparr>)"
proof -
  let ?g = "g\<lparr>m_state := 0, msg_function := Some H_TeamInfo, msg_endfunction := None\<rparr>"
  let ?t = "set_team w i (team_of_msg s) (?g\<lparr>info_id := i, m_state := 2\<rparr>)"
  have "write_args mc w (M_int i # M_str s # rest) ?g = write_args mc w rest ?t"
    using assms(3) by (simp add: R_Write_Post_def call_hook_def Client_TeamInfo_def Let_def)
  also have "\<dots> = Inr (?t\<lparr>m_state := 2 + int (length rest)\<rparr>)"
    using write_rest [of ?t mc w rest] by simp
  also have "?t\<lparr>m_state := 2 + int (length rest)\<rparr> =
      set_team w i (team_of_msg s) (?g\<lparr>info_id := i, m_state := 2 + int (length rest)\<rparr>)"
    by (simp add: set_team_m_state [symmetric])
  finally have "message mc w ty (M_int i # M_str s # rest) g = Inr (set_team w i (team_of_msg s)
           (g\<lparr>msg_function := Some H_TeamInfo, msg_endfunction := None, info_id := i,
              m_state := 2 + int (length rest)\<rparr>))"
    using assms(1,2) by (simp add: message_def R_MessageBegin_Post_def R_MessageEnd_Post_def call_hook_def)
  moreover have "msg_function g' = None \<Longrightarrow> write_args mc w args g' = Inr g'" for g'
    by (induction args) (simp_all add: R_Write_Post_def call_hook_def)
  then have "message mc w ty' args g = Inr (g\<lparr>m_state := 0, msg_function := None, msg_endfunction := None\<rparr>)"
    using assms(4,5) by (simp add: message_def R_MessageBegin_Post_def R_MessageEnd_Post_def call_hook_def)
  ultimately show ?thesis by blast
qed

definition registered :: game where
  "registered = R_RegUserMsg_Post ''TeamInfo'' 86 one_player"

theorem team_info_message_witness:
  "\<exists>g. message 32 (\<lambda>_. None) 86 [M_int 1, M_str ''CT''] registered = Inr g
     \<and> cl_team (clients g 1) = TEAM_CT \<and> players_num g TEAM_CT = 1 \<and> players_num g TEAM_UNASSIGNED = 0"
proof -
  have "mod_msgs registered 86 = Some H_TeamInfo" "mod_msgs_end registered 86 = None"
    "is_valid_index 32 1" "mod_msgs registered 87 = None" "mod_msgs_end registered 87 = None"
    by (simp_all add: registered_def R_RegUserMsg_Post_def one_player_def Client_PutInServer_def
        add_num_def upd_client_def game_init_def is_valid_index_def)
  from team_info_message [OF this, of "\<lambda>_. None" "''CT''" "[]"] show ?thesis
    by (simp add: set_team_def change_team_def fix_dead_def dead_entity_def is_valid_entity_def
        registered_def R_RegUserMsg_Post_def one_player_def Client_PutInServer_def is_valid_index_def
        game_init_def team_of_msg_def team_defs Let_def)
qed

section \<open>The dead\<close>

definition corpse :: edict where
  "corpse = \<lparr>ed_private = True, ed_free = False, ed_killme = False, ed_classname = Some ''player'',
     ed_owner = 0, ed_team = 1, ed_alive = False, ed_origin = (0, 0, 0), ed_absmin = (0, 0, 0),
     ed_absmax = (0, 0, 0)\<rparr>"

text \<open>
  A dead player who changes from one team to the other is taken off the dead of the old team but
  only added to the dead of the new one when that count is positive already: of one dead terrorist who
  becomes a counter-terrorist no dead player is left in the counts.
\<close>

theorem dead_player_lost_on_team_change:
  "\<exists>g. game_reach 32 g \<and> players_num g TEAM_DEAD_TT = 1 \<and> players_num g TEAM_DEAD_CT = 0
     \<and> cl_team (clients g 1) = TEAM_TERRORIST
     \<and> (let g' = set_team (\<lambda>_. Some corpse) 1 TEAM_CT g
        in cl_team (clients g' 1) = TEAM_CT \<and> players_num g' TEAM_DEAD_TT = 0
           \<and> players_num g' TEAM_DEAD_CT = 0)"
proof -
  let ?w = "\<lambda>_. None :: edict option"
  let ?g1 = "R_MessageBegin_Post 86 registered"
  let ?g2 = "?g1\<lparr>m_state := 1, info_id := 1\<rparr>"
  let ?g3 = "set_team ?w 1 TEAM_TERRORIST (?g2\<lparr>m_state := 2\<rparr>)"
  note eval = registered_def R_RegUserMsg_Post_def one_player_def Client_PutInServer_def is_valid_index_def
    game_init_def team_of_msg_def team_defs Let_def R_MessageBegin_Post_def upd_client_def add_num_def
  have "game_reach 32 registered"
    unfolding registered_def by (rule game_reach.register [OF one_player_reach])
  then have r1: "game_reach 32 ?g1" by (rule game_reach.begin_msg)
  have "R_Write_Post 32 ?w (M_int 1) ?g1 = Inr ?g2"
    by (simp add: R_Write_Post_def call_hook_def Client_TeamInfo_def eval)
  from game_reach.write_msg [OF r1 this] have r2: "game_reach 32 ?g2" .
  have "R_Write_Post 32 ?w (M_str ''TERRORIST'') ?g2 = Inr ?g3"
    by (simp add: R_Write_Post_def call_hook_def Client_TeamInfo_def eval)
  from game_reach.killed [OF game_reach.write_msg [OF r2 this], of 1 1]
  have r3: "game_reach 32 (CBasePlayer_Killed 1 1 ?g3)" .
  moreover have "let g = CBasePlayer_Killed 1 1 ?g3; g' = set_team (\<lambda>_. Some corpse) 1 TEAM_CT g
     in players_num g TEAM_DEAD_TT = 1 \<and> players_num g TEAM_DEAD_CT = 0
     \<and> cl_team (clients g 1) = TEAM_TERRORIST \<and> cl_team (clients g' 1) = TEAM_CT
     \<and> players_num g' TEAM_DEAD_TT = 0 \<and> players_num g' TEAM_DEAD_CT = 0"
    by (simp add: eval CBasePlayer_Killed_def set_team_def change_team_def fix_dead_def dead_entity_def
        is_valid_entity_def corpse_def drop_dead_def is_valid_team_def dead_slot_def)
  ultimately show ?thesis by (auto simp: Let_def)
qed

end
