(* ===== verification/Recoil_Mngr.thy ===== *)
theory Recoil_Mngr
  imports Complex_Main Prelude
begin

text \<open>
  The recoil manager of \<^verbatim>\<open>refsapi_recoil_mngr.h\<close> and \<^verbatim>\<open>refsapi_recoil_mngr.cpp\<close>: the factor of
  every weapon, the visible recoil after a shot, and the spread of bullets and buckshot.  A
  \<^verbatim>\<open>float\<close> is an exact number, an infinity or not a number; the product of two floats is the parameter
  \<open>fmul\<close>.  The cvars are known by a number, \<open>cv\<close> gives their values.
\<close>

section \<open>Floats\<close>

datatype flt = Fin rat | PInf | NInf | NaN

fun fless :: "flt \<Rightarrow> flt \<Rightarrow> bool" where
  "fless (Fin a) (Fin b) = (a < b)"
| "fless (Fin a) PInf = True"
| "fless NInf (Fin b) = True"
| "fless NInf PInf = True"
| "fless _ _ = False"

fun feq :: "flt \<Rightarrow> flt \<Rightarrow> bool" where
  "feq (Fin a) (Fin b) = (a = b)"
| "feq PInf PInf = True"
| "feq NInf NInf = True"
| "feq _ _ = False"

definition fge :: "flt \<Rightarrow> flt \<Rightarrow> bool" where
  "fge a b = (fless b a \<or> feq a b)"

section \<open>Data\<close>

definition RECOIL_ALL :: int where "RECOIL_ALL = 0"
definition RECOIL_MAX :: flt where "RECOIL_MAX = Fin 100"
definition RECOIL_LAST_FIRED_NONE :: flt where "RECOIL_LAST_FIRED_NONE = Fin (- 15)"

definition WEAPON_NONE :: int where "WEAPON_NONE = 0"
definition WEAPON_P228 :: int where "WEAPON_P228 = 1"
definition WEAPON_HEGRENADE :: int where "WEAPON_HEGRENADE = 4"
definition WEAPON_XM1014 :: int where "WEAPON_XM1014 = 5"
definition WEAPON_C4 :: int where "WEAPON_C4 = 6"
definition WEAPON_SMOKEGRENADE :: int where "WEAPON_SMOKEGRENADE = 9"
definition WEAPON_M3 :: int where "WEAPON_M3 = 21"
definition WEAPON_FLASHBANG :: int where "WEAPON_FLASHBANG = 25"
definition WEAPON_KNIFE :: int where "WEAPON_KNIFE = 29"
definition WEAPON_P90 :: int where "WEAPON_P90 = 30"

lemmas weapon_defs = WEAPON_NONE_def WEAPON_P228_def WEAPON_HEGRENADE_def WEAPON_XM1014_def WEAPON_C4_def
  WEAPON_SMOKEGRENADE_def WEAPON_M3_def WEAPON_FLASHBANG_def WEAPON_KNIFE_def WEAPON_P90_def

datatype slot_type = PRIMARY_WEAPON_SLOT | PISTOL_SLOT | OTHER_SLOT

datatype recoil_hook = H_FireBullets3 | H_FireBuckshots | H_FireBullets | H_PostThink

text \<open>
  \<open>weapon_recoil\<close> is the cvar behind the pointer, \<open>None\<close> when the pointer or its \<^verbatim>\<open>cvar\<close> is null;
  \<open>rg_hooks\<close> lists the functions registered with the hook chains of the game.
\<close>

record recoil =
  IMPULSE_OFFSET :: int
  weapon_recoil :: "int \<Rightarrow> nat option"
  last_fired :: "int \<Rightarrow> flt"
  is_enabled :: bool
  rg_hooks :: "recoil_hook list"

record weapon =
  m_iId :: int
  wp_iuser4 :: int
  wp_impulse :: int
  wp_fuser1 :: flt

record player =
  pl_index :: int
  pl_bot :: bool
  pl_alive :: bool
  pl_last_fired :: flt
  pl_active :: "(bool \<times> weapon) option"  \<comment> \<open>\<^verbatim>\<open>m_pActiveItem\<close> and its \<^verbatim>\<open>IsWeapon()\<close>\<close>
  pl_punchangle :: "flt \<times> flt \<times> flt"

definition recoil_mngr_init :: recoil where
  "recoil_mngr_init = \<lparr>IMPULSE_OFFSET = 0, weapon_recoil = (\<lambda>_. None),
     last_fired = (\<lambda>_. RECOIL_LAST_FIRED_NONE), is_enabled = False, rg_hooks = []\<rparr>"

section \<open>Operations\<close>

text \<open>\<open>find_cvar\<close> is \<^verbatim>\<open>g_cvar_mngr.get\<close>, \<open>slots\<close> is \<^verbatim>\<open>GetWeaponSlot\<close>: the slot and the name.\<close>

definition recoil_add :: "(string \<Rightarrow> nat option) \<Rightarrow> int \<Rightarrow> string \<Rightarrow> recoil \<Rightarrow> recoil" where
  "recoil_add find_cvar weapon_id weapon_name st =
     st\<lparr>weapon_recoil := (weapon_recoil st)(weapon_id := find_cvar (''wcs_recoil_'' @ weapon_name))\<rparr>"

fun recoil_init_loop ::
  "(string \<Rightarrow> nat option) \<Rightarrow> (int \<Rightarrow> (slot_type \<times> string) option) \<Rightarrow> int list \<Rightarrow> recoil \<Rightarrow> recoil" where
  "recoil_init_loop find_cvar slots [] st = st"
| "recoil_init_loop find_cvar slots (i # is) st =
     recoil_init_loop find_cvar slots is
       (case slots i of
          None \<Rightarrow> st
        | Some (slot, name) \<Rightarrow>
            if (slot = PRIMARY_WEAPON_SLOT \<or> slot = PISTOL_SLOT) \<and> name \<noteq> []
            then recoil_add find_cvar i name st else st)"

definition recoil_init ::
  "(string \<Rightarrow> nat option) \<Rightarrow> (int \<Rightarrow> (slot_type \<times> string) option) \<Rightarrow> recoil \<Rightarrow> recoil" where
  "recoil_init find_cvar slots st =
     recoil_init_loop find_cvar slots [WEAPON_P228..WEAPON_P90]
       (recoil_add find_cvar RECOIL_ALL ''weapon_all'' st)"

text \<open>\<open>set\<close> and \<open>clear\<close> return the calls of \<^verbatim>\<open>CVAR_SET_FLOAT\<close> they make; the array has 33 entries.\<close>

definition recoil_set :: "int \<Rightarrow> flt \<Rightarrow> recoil \<Rightarrow> (nat \<times> flt) list" where
  "recoil_set weapon_id r st =
     (if 0 \<le> weapon_id \<and> weapon_id < 33
      then (case weapon_recoil st weapon_id of None \<Rightarrow> [] | Some c \<Rightarrow> [(c, r)]) else [])"

definition recoil_clear :: "recoil \<Rightarrow> (nat \<times> flt) list" where
  "recoil_clear st =
     concat (map (\<lambda>i. case weapon_recoil st i of None \<Rightarrow> [] | Some c \<Rightarrow> [(c, Fin 1)]) [0..32])"

definition recoil_disable :: "recoil \<Rightarrow> recoil" where
  "recoil_disable st =
     (if \<not> is_enabled st then st
      else st\<lparr>is_enabled := False,
              rg_hooks := remove1 H_PostThink (remove1 H_FireBullets (remove1 H_FireBuckshots
                            (remove1 H_FireBullets3 (rg_hooks st))))\<rparr>)"

definition recoil_enable ::
  "(string \<Rightarrow> nat option) \<Rightarrow> (int \<Rightarrow> (slot_type \<times> string) option) \<Rightarrow> int \<Rightarrow> recoil \<Rightarrow> recoil" where
  "recoil_enable find_cvar slots offset st =
     (let st1 = (if is_enabled st then recoil_disable st else st);
          st2 = recoil_init find_cvar slots st1
      in st2\<lparr>is_enabled := True, IMPULSE_OFFSET := offset,
             last_fired := (\<lambda>_. RECOIL_LAST_FIRED_NONE),
             rg_hooks := rg_hooks st2 @ [H_FireBullets3, H_FireBuckshots, H_FireBullets, H_PostThink]\<rparr>)"

definition recoil_client_disconnected :: "int \<Rightarrow> int \<Rightarrow> recoil \<Rightarrow> recoil" where
  "recoil_client_disconnected max_clients i st =
     (if 0 < i \<and> i \<le> max_clients
      then st\<lparr>last_fired := (last_fired st)(i := RECOIL_LAST_FIRED_NONE)\<rparr> else st)"

definition recoil_reset_player :: "int \<Rightarrow> int \<Rightarrow> recoil \<Rightarrow> recoil" where
  "recoil_reset_player max_clients i st =
     (if 0 < i \<and> i \<le> max_clients
      then st\<lparr>last_fired := (last_fired st)(i := RECOIL_LAST_FIRED_NONE)\<rparr> else st)"

section \<open>The factor of a weapon\<close>

text \<open>The value of a cvar, when it decides the factor.\<close>

definition cvar_factor :: "(nat \<Rightarrow> flt) \<Rightarrow> nat option \<Rightarrow> flt option" where
  "cvar_factor cv c =
     (case c of
        None \<Rightarrow> None
      | Some c \<Rightarrow> let v = cv c in if fge v (Fin 0) \<and> \<not> feq v (Fin 1) then Some v else None)"

definition chosen_factor :: "(nat \<Rightarrow> flt) \<Rightarrow> weapon \<Rightarrow> recoil \<Rightarrow> flt" where
  "chosen_factor cv wed st =
     (if IMPULSE_OFFSET st > 0 \<and> wp_iuser4 wed - IMPULSE_OFFSET st \<ge> 0
         \<and> wp_impulse wed = wp_iuser4 wed \<and> fge (wp_fuser1 wed) (Fin 0)
      then wp_fuser1 wed
      else (case cvar_factor cv (weapon_recoil st (m_iId wed)) of
              Some v \<Rightarrow> v
            | None \<Rightarrow>
                (case cvar_factor cv (weapon_recoil st RECOIL_ALL) of Some v \<Rightarrow> v | None \<Rightarrow> Fin 1)))"

definition get_weapon_recoil :: "(nat \<Rightarrow> flt) \<Rightarrow> weapon option \<Rightarrow> recoil \<Rightarrow> flt" where
  "get_weapon_recoil cv weapon st =
     (case weapon of
        None \<Rightarrow> Fin 1
      | Some wed \<Rightarrow>
          if \<not> is_enabled st then Fin 1
          else let wid = m_iId wed in
            if wid \<le> WEAPON_NONE \<or> wid > WEAPON_P90 then Fin 1
            else
              let r = chosen_factor cv wed st
              in if fless RECOIL_MAX r then RECOIL_MAX else r)"

definition no_punch_weapon :: "int \<Rightarrow> bool" where
  "no_punch_weapon wid =
     (wid = WEAPON_HEGRENADE \<or> wid = WEAPON_FLASHBANG \<or> wid = WEAPON_SMOKEGRENADE \<or> wid = WEAPON_C4
      \<or> wid = WEAPON_KNIFE)"

definition scale_angle :: "(flt \<Rightarrow> flt \<Rightarrow> flt) \<Rightarrow> flt \<Rightarrow> flt \<times> flt \<times> flt \<Rightarrow> flt \<times> flt \<times> flt" where
  "scale_angle fmul r v = (case v of (x, y, z) \<Rightarrow> (fmul x r, fmul y r, fmul z r))"

definition think_post ::
  "(flt \<Rightarrow> flt \<Rightarrow> flt) \<Rightarrow> int \<Rightarrow> (nat \<Rightarrow> flt) \<Rightarrow> player option \<Rightarrow> recoil \<Rightarrow> player option \<times> recoil" where
  "think_post fmul max_clients cv pl st =
     (case pl of
        None \<Rightarrow> (pl, st)
      | Some p \<Rightarrow>
          if \<not> is_enabled st \<or> pl_bot p \<or> \<not> pl_alive p then (pl, st)
          else let index = pl_index p in
            if \<not> (0 < index \<and> index \<le> max_clients) \<or> feq (pl_last_fired p) (last_fired st index)
            then (pl, st)
            else
              let st1 = st\<lparr>last_fired := (last_fired st)(index := pl_last_fired p)\<rparr> in
              (case pl_active p of
                 None \<Rightarrow> (pl, st1)
               | Some (is_weapon, w) \<Rightarrow>
                   if \<not> is_weapon then (pl, st1)
                   else let wid = m_iId w in
                     if wid \<le> WEAPON_NONE \<or> wid > WEAPON_P90 then (pl, st1)
                     else if no_punch_weapon wid then (pl, st1)
                     else let r = get_weapon_recoil cv (Some w) st1 in
                       if fge r (Fin 0) \<and> \<not> feq r (Fin 1)
                       then (Some (p\<lparr>pl_punchangle := scale_angle fmul r (pl_punchangle p)\<rparr>), st1)
                       else (pl, st1)))"

section \<open>Spread\<close>

text \<open>
  The hooks return the spread they pass on.  \<open>attacker\<close> is \<^verbatim>\<open>Some\<close> the player of
  \<^verbatim>\<open>pevAttacker\<close> when the attacker is a client (itself \<open>None\<close> when no player has its index);
  \<open>entity\<close> is the player \<^verbatim>\<open>pEntity\<close> is, if it is one.
\<close>

definition active_weapon :: "player option \<Rightarrow> weapon option" where
  "active_weapon pl =
     (case pl of
        None \<Rightarrow> None
      | Some p \<Rightarrow> (case pl_active p of Some (True, w) \<Rightarrow> Some w | _ \<Rightarrow> None))"

definition FireBullets3 ::
  "(flt \<Rightarrow> flt \<Rightarrow> flt) \<Rightarrow> (nat \<Rightarrow> flt) \<Rightarrow> player option option \<Rightarrow> flt \<Rightarrow> recoil \<Rightarrow> flt" where
  "FireBullets3 fmul cv attacker flSpread st =
     (case attacker of
        None \<Rightarrow> flSpread
      | Some pl \<Rightarrow>
          (case active_weapon pl of
             None \<Rightarrow> flSpread
           | Some w \<Rightarrow>
               let r = get_weapon_recoil cv (Some w) st in
               if fge r (Fin 0) \<and> \<not> feq r (Fin 1) then fmul flSpread r else flSpread))"

definition recoil_resolve_shooter :: "player option option \<Rightarrow> player option \<Rightarrow> player option" where
  "recoil_resolve_shooter attacker entity =
     (case attacker of Some (Some p) \<Rightarrow> Some p | _ \<Rightarrow> entity)"

definition recoil_scale_spread ::
  "(flt \<Rightarrow> flt \<Rightarrow> flt) \<Rightarrow> flt \<times> flt \<times> flt \<Rightarrow> flt \<Rightarrow> flt \<times> flt \<times> flt" where
  "recoil_scale_spread fmul vecSpread r =
     (if \<not> fge r (Fin 0) \<or> feq r (Fin 1) then vecSpread
      else let r = (if fless RECOIL_MAX r then RECOIL_MAX else r) in scale_angle fmul r vecSpread)"

definition FireBuckshots ::
  "(flt \<Rightarrow> flt \<Rightarrow> flt) \<Rightarrow> (nat \<Rightarrow> flt) \<Rightarrow> player option option \<Rightarrow> player option \<Rightarrow>
   flt \<times> flt \<times> flt \<Rightarrow> recoil \<Rightarrow> flt \<times> flt \<times> flt" where
  "FireBuckshots fmul cv attacker entity vecSpread st =
     (case active_weapon (recoil_resolve_shooter attacker entity) of
        None \<Rightarrow> vecSpread
      | Some w \<Rightarrow> recoil_scale_spread fmul vecSpread (get_weapon_recoil cv (Some w) st))"

definition FireBullets ::
  "(flt \<Rightarrow> flt \<Rightarrow> flt) \<Rightarrow> (nat \<Rightarrow> flt) \<Rightarrow> player option option \<Rightarrow> player option \<Rightarrow>
   flt \<times> flt \<times> flt \<Rightarrow> recoil \<Rightarrow> flt \<times> flt \<times> flt" where
  "FireBullets fmul cv attacker entity vecSpread st =
     (case active_weapon (recoil_resolve_shooter attacker entity) of
        None \<Rightarrow> vecSpread
      | Some w \<Rightarrow>
          let wid = m_iId w in
          if wid = WEAPON_M3 \<or> wid = WEAPON_XM1014
          then recoil_scale_spread fmul vecSpread (get_weapon_recoil cv (Some w) st)
          else vecSpread)"

section \<open>What the factor can be\<close>

lemma cvar_factor_ge0: "cvar_factor cv c = Some v \<Longrightarrow> fge v (Fin 0)"
  by (auto simp: cvar_factor_def Let_def split: option.splits if_splits)

lemma clamp_factor: "fge r (Fin 0) \<Longrightarrow> \<exists>q. (if fless RECOIL_MAX r then RECOIL_MAX else r) = Fin q \<and> 0 \<le> q \<and> q \<le> 100"
  by (cases r) (auto simp: fge_def RECOIL_MAX_def)

lemma chosen_factor_ge0: "fge (chosen_factor cv wed st) (Fin 0)"
proof -
  have "fge (Fin 1) (Fin 0)" by (simp add: fge_def)
  then show ?thesis
    unfolding chosen_factor_def by (auto dest: cvar_factor_ge0 split: option.split)
qed

lemma factor_shape:
  "get_weapon_recoil cv w st = Fin 1
   \<or> (\<exists>r. fge r (Fin 0) \<and> get_weapon_recoil cv w st = (if fless RECOIL_MAX r then RECOIL_MAX else r))"
  by (cases w) (auto simp: get_weapon_recoil_def Let_def intro: chosen_factor_ge0)

lemma factor_range: "\<exists>q. get_weapon_recoil cv w st = Fin q \<and> 0 \<le> q \<and> q \<le> 100"
  using factor_shape [of cv w st]
proof
  assume "get_weapon_recoil cv w st = Fin 1"
  then show ?thesis by simp
next
  assume "\<exists>r. fge r (Fin 0) \<and> get_weapon_recoil cv w st = (if fless RECOIL_MAX r then RECOIL_MAX else r)"
  then show ?thesis by (metis clamp_factor)
qed

text \<open>
  The factor of a weapon is a number between 0 and 100 whatever the entity and the cvars hold,
  infinities and not-a-number included, and the second clamp of the buckshot hook never changes it.
\<close>

theorem weapon_recoil_bounded:
  "(case get_weapon_recoil cv w st of Fin q \<Rightarrow> 0 \<le> q \<and> q \<le> 100 | _ \<Rightarrow> False)
   \<and> recoil_scale_spread fmul v (get_weapon_recoil cv w st) =
     (if feq (get_weapon_recoil cv w st) (Fin 1) then v else scale_angle fmul (get_weapon_recoil cv w st) v)"
proof -
  obtain q where "get_weapon_recoil cv w st = Fin q" "0 \<le> q" "q \<le> 100" using factor_range by blast
  then show ?thesis by (auto simp: recoil_scale_spread_def RECOIL_MAX_def fge_def)
qed

section \<open>Hooks and shots\<close>

datatype recoil_act =
    R_enable int
  | R_disable
  | R_disconnect int
  | R_reset int
  | R_think "player option"

fun recoil_do ::
  "(string \<Rightarrow> nat option) \<Rightarrow> (int \<Rightarrow> (slot_type \<times> string) option) \<Rightarrow> (flt \<Rightarrow> flt \<Rightarrow> flt) \<Rightarrow> int \<Rightarrow>
   (nat \<Rightarrow> flt) \<Rightarrow> recoil_act \<Rightarrow> recoil \<Rightarrow> recoil" where
  "recoil_do fc sl fm mc cv (R_enable k) st = recoil_enable fc sl k st"
| "recoil_do fc sl fm mc cv R_disable st = recoil_disable st"
| "recoil_do fc sl fm mc cv (R_disconnect i) st = recoil_client_disconnected mc i st"
| "recoil_do fc sl fm mc cv (R_reset i) st = recoil_reset_player mc i st"
| "recoil_do fc sl fm mc cv (R_think p) st = snd (think_post fm mc cv p st)"

definition all_hooks :: "recoil_hook list" where
  "all_hooks = [H_FireBullets3, H_FireBuckshots, H_FireBullets, H_PostThink]"

lemma init_loop_same:
  "rg_hooks (recoil_init_loop fc sl is st) = rg_hooks st"
  "is_enabled (recoil_init_loop fc sl is st) = is_enabled st"
  by (induction fc sl "is" st rule: recoil_init_loop.induct)
     (auto simp: recoil_add_def split: option.splits)

lemma think_post_same:
  "rg_hooks (snd (think_post fm mc cv p st)) = rg_hooks st"
  "is_enabled (snd (think_post fm mc cv p st)) = is_enabled st"
  by (auto simp: think_post_def Let_def split: option.split)

text \<open>
  However often the manager is enabled and disabled, its four hooks are registered exactly once
  while it is enabled and not at all otherwise.
\<close>

theorem recoil_hooks_registered_once:
  "rg_hooks (fold (recoil_do fc sl fm mc cv) acts recoil_mngr_init) =
     (if is_enabled (fold (recoil_do fc sl fm mc cv) acts recoil_mngr_init) then all_hooks else [])"
proof (induction acts rule: rev_induct)
  case Nil
  show ?case by (simp add: recoil_mngr_init_def)
next
  case (snoc a acts)
  then show ?case
    by (cases a) (auto simp: recoil_enable_def recoil_disable_def recoil_init_def recoil_add_def
        recoil_client_disconnected_def recoil_reset_player_def init_loop_same think_post_same all_hooks_def
        Let_def)
qed

text \<open>
  One shot changes the view of the player once: when \<^verbatim>\<open>think_post\<close> runs again before the next
  shot it changes nothing, neither the player nor the manager.
\<close>

theorem think_post_once_per_shot:
  assumes "think_post fm mc cv (Some p) st = (Some p', st')" "feq (pl_last_fired p) (pl_last_fired p)"
  shows "think_post fm mc cv (Some p') st' = (Some p', st')"
proof -
  have "pl_index p' = pl_index p \<and> pl_bot p' = pl_bot p \<and> pl_alive p' = pl_alive p
      \<and> pl_last_fired p' = pl_last_fired p \<and> is_enabled st' = is_enabled st
      \<and> (st' = st \<and> p' = p \<and> think_post fm mc cv (Some p) st = (Some p, st)
         \<or> feq (pl_last_fired p) (last_fired st' (pl_index p)))"
    using assms by (auto simp: think_post_def Let_def split: if_splits option.splits)
  then show ?thesis by (auto simp: think_post_def Let_def)
qed

definition shooter :: player where
  "shooter = \<lparr>pl_index = 1, pl_bot = False, pl_alive = True, pl_last_fired = Fin 7,
     pl_active = Some (True, \<lparr>m_iId = 28, wp_iuser4 = 0, wp_impulse = 0, wp_fuser1 = Fin 0\<rparr>),
     pl_punchangle = (Fin 4, Fin 2, Fin 0)\<rparr>"

definition fmul_exact :: "flt \<Rightarrow> flt \<Rightarrow> flt" where
  "fmul_exact a b = (case (a, b) of (Fin x, Fin y) \<Rightarrow> Fin (x * y) | _ \<Rightarrow> NaN)"

definition half_recoil :: recoil where
  "half_recoil = recoil_mngr_init\<lparr>is_enabled := True, weapon_recoil := (\<lambda>i. if i = 28 then Some 3 else None)\<rparr>"

theorem think_post_once_per_shot_witness:
  "let p' = shooter\<lparr>pl_punchangle := (Fin 2, Fin 1, Fin 0)\<rparr>;
       st' = half_recoil\<lparr>last_fired := (last_fired half_recoil)(1 := Fin 7)\<rparr>
   in think_post fmul_exact 32 (\<lambda>_. Fin (1 / 2)) (Some p') st' = (Some p', st')"
proof -
  have "think_post fmul_exact 32 (\<lambda>_. Fin (1 / 2)) (Some shooter) half_recoil =
      (Some (shooter\<lparr>pl_punchangle := (Fin 2, Fin 1, Fin 0)\<rparr>),
       half_recoil\<lparr>last_fired := (last_fired half_recoil)(1 := Fin 7)\<rparr>)"
    by (simp add: think_post_def shooter_def half_recoil_def recoil_mngr_init_def weapon_defs
        RECOIL_LAST_FIRED_NONE_def no_punch_weapon_def get_weapon_recoil_def chosen_factor_def cvar_factor_def fge_def
        RECOIL_MAX_def scale_angle_def fmul_exact_def RECOIL_ALL_def Let_def)
  from think_post_once_per_shot [OF this] show ?thesis by (simp add: shooter_def Let_def)
qed

end
