(* ===== verification/Module_Hooks.thy ===== *)
theory Module_Hooks
  imports Timer_Props Clients_Props Recoil_Mngr
begin

text \<open>
  The hooks of \<^verbatim>\<open>refsapi.cpp\<close> that lead to several managers: a client that leaves is taken off the
  players, its shots are forgotten and its timers removed.
\<close>

record module =
  md_game :: game
  md_recoil :: recoil
  md_timers :: tmgr

definition R_ClientDisconnect :: "int \<Rightarrow> world \<Rightarrow> int \<Rightarrow> module \<Rightarrow> timer_error + module" where
  "R_ClientDisconnect max_clients w i md =
     (let md1 = md\<lparr>md_game := Client_Disconnected max_clients w i (md_game md)\<rparr>;
          md2 = md1\<lparr>md_recoil := recoil_client_disconnected max_clients i (md_recoil md1)\<rparr>
      in bind_r (on_client_disconnected (nat max_clients) (nat i) (md_timers md2))
           (\<lambda>tm. Inr (md2\<lparr>md_timers := tm\<rparr>)))"

text \<open>\<open>nxt\<close> is the engine, which drops the client.\<close>

definition SV_DropClient ::
  "int \<Rightarrow> world \<Rightarrow> int \<Rightarrow> (module \<Rightarrow> timer_error + module) \<Rightarrow> module \<Rightarrow> timer_error + module" where
  "SV_DropClient max_clients w i nxt md =
     (let md1 = md\<lparr>md_game := Client_Disconnected max_clients w i (md_game md)\<rparr>;
          md2 = md1\<lparr>md_recoil := recoil_client_disconnected max_clients i (md_recoil md1)\<rparr>
      in bind_r (on_client_disconnected (nat max_clients) (nat i) (md_timers md2))
           (\<lambda>tm. nxt (md2\<lparr>md_timers := tm\<rparr>)))"

lemma SV_DropClient_disconnect:
  "SV_DropClient max_clients w i nxt md = bind_r (R_ClientDisconnect max_clients w i md) nxt"
  by (simp add: SV_DropClient_def R_ClientDisconnect_def Let_def bind_r_def split: sum.split)

text \<open>The timers of a player and of the others.\<close>

definition timers_of :: "int \<Rightarrow> module \<Rightarrow> tm multiset" where
  "timers_of i md = filter_mset (\<lambda>t. tm_group_id t < 100000 \<and> tm_group_id t mod 100 = nat i)
     (mset (all_tms (m_timers (md_timers md))))"

definition timers_of_others :: "int \<Rightarrow> module \<Rightarrow> tm multiset" where
  "timers_of_others i md = filter_mset (\<lambda>t. \<not> (tm_group_id t < 100000 \<and> tm_group_id t mod 100 = nat i))
     (mset (all_tms (m_timers (md_timers md))))"

text \<open>What is left of a player that is not there.\<close>

definition released :: "int \<Rightarrow> module \<Rightarrow> bool" where
  "released i md \<longleftrightarrow> \<not> cl_connected (clients (md_game md) i)
     \<and> last_fired (md_recoil md) i = RECOIL_LAST_FIRED_NONE \<and> timers_of i md = {#}"

lemma client_disconnected_facts:
  assumes "0 < i" "i \<le> max_clients"
  shows "\<not> cl_connected (clients (Client_Disconnected max_clients w i g) i)"
    "j \<noteq> i \<Longrightarrow> clients (Client_Disconnected max_clients w i g) j = clients g j"
    "cl_team (clients (Client_Disconnected max_clients w i g) i) = cl_team (clients g i)"
    "\<not> cl_connected (clients g i) \<Longrightarrow> Client_Disconnected max_clients w i g = g"
  using assms
  by (auto simp: Client_Disconnected_def Entities.is_valid_index_def Let_def upd_client_def add_num_def drop_dead_def)

lemma recoil_disconnected_facts:
  assumes "0 < i" "i \<le> max_clients"
  shows "last_fired (recoil_client_disconnected max_clients i r) i = RECOIL_LAST_FIRED_NONE"
    "j \<noteq> i \<Longrightarrow> last_fired (recoil_client_disconnected max_clients i r) j = last_fired r j"
    "recoil_client_disconnected max_clients i (recoil_client_disconnected max_clients i r)
       = recoil_client_disconnected max_clients i r"
  using assms by (auto simp: recoil_client_disconnected_def)

text \<open>One departure, all managers.\<close>

lemma disconnect_cases:
  assumes "timers_inv (md_timers md)" "0 < i" "i \<le> max_clients"
  obtains md' where "R_ClientDisconnect max_clients w i md = Inr md'" "timers_inv (md_timers md')"
    "md_game md' = Client_Disconnected max_clients w i (md_game md)"
    "md_recoil md' = recoil_client_disconnected max_clients i (md_recoil md)"
    "mset (all_tms (m_timers (md_timers md'))) = timers_of_others i md"
proof -
  obtain st' where st': "on_client_disconnected (nat max_clients) (nat i) (md_timers md) = Inr st'"
    "evolves (md_timers md) st'"
    "Timer_Mngr.is_valid_index (nat max_clients) (nat i) \<longrightarrow>
       reg (m_timers st') = filter_mset (\<lambda>t. \<not> of_player (nat i) t) (reg (m_timers (md_timers md)))"
    using disconnect_evolves [OF assms(1), of "nat max_clients" "nat i"] by (elim exE conjE) (rule that)
  have "Timer_Mngr.is_valid_index (nat max_clients) (nat i)"
    using assms(2,3) by (simp add: Timer_Mngr.is_valid_index_def)
  with st'(3) have r: "reg (m_timers st') = filter_mset (\<lambda>t. \<not> of_player (nat i) t) (reg (m_timers (md_timers md)))"
    by blast
  show thesis
  proof (rule that)
    show "R_ClientDisconnect max_clients w i md = Inr
        (md\<lparr>md_game := Client_Disconnected max_clients w i (md_game md),
            md_recoil := recoil_client_disconnected max_clients i (md_recoil md), md_timers := st'\<rparr>)"
      using st'(1) by (simp add: R_ClientDisconnect_def Let_def)
  qed (use st'(2) r in \<open>simp_all add: evolves_def timers_of_others_def reg_def of_player_def player_group_def\<close>)
qed

text \<open>
  C12: A client that leaves is released by every manager, without failing: it is no longer connected, its
  last shot is forgotten and its timers are gone; the players, the shots and the timers of all others
  stay as they are.
\<close>

theorem disconnect_releases_player:
  assumes "timers_inv (md_timers md)" "0 < i" "i \<le> max_clients"
  shows "\<exists>md'. R_ClientDisconnect max_clients w i md = Inr md' \<and> timers_inv (md_timers md')
    \<and> released i md' \<and> timers_of_others i md' = timers_of_others i md
    \<and> (\<forall>j. j \<noteq> i \<longrightarrow> clients (md_game md') j = clients (md_game md) j
              \<and> last_fired (md_recoil md') j = last_fired (md_recoil md) j)"
proof -
  obtain md' where d: "R_ClientDisconnect max_clients w i md = Inr md'" "timers_inv (md_timers md')"
    "md_game md' = Client_Disconnected max_clients w i (md_game md)"
    "md_recoil md' = recoil_client_disconnected max_clients i (md_recoil md)"
    "mset (all_tms (m_timers (md_timers md'))) = timers_of_others i md"
    using disconnect_cases [OF assms] by blast
  have "timers_of i md' = {#}" "timers_of_others i md' = timers_of_others i md"
    unfolding timers_of_def timers_of_others_def [of i md'] d(5)
    by (simp_all add: timers_of_others_def multiset_eq_iff)
  with d client_disconnected_facts(1,2) [OF assms(2,3)] recoil_disconnected_facts(1,2) [OF assms(2,3)]
  show ?thesis by (intro exI [of _ md']) (simp add: released_def)
qed

definition demo_module :: module where
  "demo_module = \<lparr>md_game = Client_PutInServer 32 5 False game_init, md_recoil = recoil_mngr_init,
     md_timers = demo_state [(1, [(5, [demo_tm 0 0 9 False])])]\<rparr>"

lemma demo_module_inv: "timers_inv (md_timers demo_module)"
  by (simp add: demo_module_def timers_inv_def reg_inv_def demo_state_def timer_mngr_init_def uniq_def demo_tm_def
      filed_def sm_ok_def reg_def all_tms_def group_tms_def)

theorem disconnect_releases_player_witness:
  "\<exists>md'. R_ClientDisconnect 32 (\<lambda>_. None) 5 demo_module = Inr md' \<and> released 5 md'"
  using disconnect_releases_player [OF demo_module_inv, of 5 32 "\<lambda>_. None"] by auto

text \<open>
  When the engine drops a client and then disconnects it, both hooks run; the player is counted off
  once, and the second call leaves the players, the recoil and the timers as the first left them.
\<close>

theorem drop_counts_once:
  assumes "timers_inv (md_timers md)" "0 < i" "i \<le> max_clients"
    and "R_ClientDisconnect max_clients w i md = Inr md1"
  shows "\<exists>md2. SV_DropClient max_clients w i (R_ClientDisconnect max_clients w i) md = Inr md2
    \<and> md_game md2 = md_game md1 \<and> md_recoil md2 = md_recoil md1
    \<and> mset (all_tms (m_timers (md_timers md2))) = mset (all_tms (m_timers (md_timers md1)))"
proof -
  obtain m1 where 1: "R_ClientDisconnect max_clients w i md = Inr m1" "timers_inv (md_timers m1)"
    "md_game m1 = Client_Disconnected max_clients w i (md_game md)"
    "md_recoil m1 = recoil_client_disconnected max_clients i (md_recoil md)"
    "mset (all_tms (m_timers (md_timers m1))) = timers_of_others i md"
    using disconnect_cases [OF assms(1-3)] by blast
  have m1: "m1 = md1" using 1(1) assms(4) by simp
  obtain m2 where 2: "R_ClientDisconnect max_clients w i m1 = Inr m2"
    "md_game m2 = Client_Disconnected max_clients w i (md_game m1)"
    "md_recoil m2 = recoil_client_disconnected max_clients i (md_recoil m1)"
    "mset (all_tms (m_timers (md_timers m2))) = timers_of_others i m1"
    using disconnect_cases [OF 1(2) assms(2,3)] by blast
  have "md_game m2 = md_game m1"
    using 2(2) 1(3) client_disconnected_facts(1,4) [OF assms(2,3)] by simp
  moreover have "md_recoil m2 = md_recoil m1" using 2(3) 1(4) recoil_disconnected_facts(3) [OF assms(2,3)] by simp
  moreover have "timers_of_others i m1 = timers_of_others i md"
    unfolding timers_of_others_def [of i m1] 1(5) by (simp add: timers_of_others_def multiset_eq_iff)
  ultimately show ?thesis using 1(1,5) 2(1,4) m1 by (simp add: SV_DropClient_disconnect)
qed

theorem drop_counts_once_witness:
  "\<exists>md2. SV_DropClient 32 (\<lambda>_. None) 5 (R_ClientDisconnect 32 (\<lambda>_. None) 5) demo_module = Inr md2
     \<and> players_num (md_game md2) 0 = 0"
proof -
  have i: "0 < (5 :: int)" "(5 :: int) \<le> 32" by simp_all
  obtain md1 where 1: "R_ClientDisconnect 32 (\<lambda>_. None) 5 demo_module = Inr md1"
    "md_game md1 = Client_Disconnected 32 (\<lambda>_. None) 5 (md_game demo_module)"
    using disconnect_cases [OF demo_module_inv i] by blast
  from drop_counts_once [OF demo_module_inv i 1(1)] obtain md2 where
    "SV_DropClient 32 (\<lambda>_. None) 5 (R_ClientDisconnect 32 (\<lambda>_. None) 5) demo_module = Inr md2"
    "md_game md2 = md_game md1" by blast
  moreover have "players_num (md_game md1) 0 = 0"
    unfolding 1(2) demo_module_def module.simps
    by (simp add: Client_Disconnected_def Client_PutInServer_def Let_def upd_client_def add_num_def game_init_def
        Entities.is_valid_index_def dead_entity_def is_valid_entity_def TEAM_UNASSIGNED_def)
  ultimately show ?thesis by auto
qed

end
