(* ===== verification/Mysql_Mngr.thy ===== *)
theory Mysql_Mngr
  imports Complex_Main Prelude Text_Utils "HOL-Library.Product_Lexorder"
begin

text \<open>
  The query manager of \<^verbatim>\<open>refsapi_mysql_mngr.h\<close>: queries wait by priority in
  \<^verbatim>\<open>m_queries\<close>, the main thread starts a worker thread per query (\<^verbatim>\<open>poll_query\<close>),
  the worker runs it against the server (\<^verbatim>\<open>run_query\<close>) and queues it for the next server
  frame (\<^verbatim>\<open>m_frames\<close>), where the plugin's handler is called (\<^verbatim>\<open>frame_forward\<close>).
  The MariaDB client library is a parameter: what one call of it returns is part of the
  environment of the operation that makes the call.  The array of maps \<^verbatim>\<open>m_queries[pri]\<close> is one
  map with the keys \<open>(pri, id)\<close>, which has the same iteration order; a query's key is also its
  address.  DEBUG output is left out.
\<close>

section \<open>Data\<close>

type_synonym key = "nat \<times> nat"  \<comment> \<open>priority and id\<close>

definition MAX_QUERY_PRIORITY :: nat where "MAX_QUERY_PRIORITY = 5"
definition QUERY_RETRY_COUNT :: nat where "QUERY_RETRY_COUNT = 3"
definition RF_MAX_FIELD_SIZE :: nat where "RF_MAX_FIELD_SIZE = 256"
definition RF_MAX_FIELD_NAME :: nat where "RF_MAX_FIELD_NAME = 64"
definition TQUERY_CONNECT_FAILED :: int where "TQUERY_CONNECT_FAILED = - 2"
definition TQUERY_QUERY_FAILED :: int where "TQUERY_QUERY_FAILED = - 1"
definition TQUERY_SUCCESS :: int where "TQUERY_SUCCESS = 0"

datatype field_types = FT_AUTO | FT_INT | FT_FLT | FT_STR | FT_STR_BUFF

datatype mysql_type =
    MYSQL_TYPE_INTEGER   \<comment> \<open>TINY, SHORT, INT24, LONG, LONGLONG, BIT and NULL\<close>
  | MYSQL_TYPE_REAL      \<comment> \<open>FLOAT, DOUBLE, DECIMAL and NEWDECIMAL\<close>
  | MYSQL_TYPE_OTHER

record fwd_prms =
  fwd_id :: int
  fwd_amx :: nat

record sql_prm =
  db_host :: string
  db_user :: string
  db_pass :: string
  db_name :: string
  db_chrs :: string
  db_port :: "32 word"  \<comment> \<open>\<^verbatim>\<open>size_t\<close> of a 32-bit target\<close>
  sql_timeout :: nat

record prm =
  prm_fwd :: fwd_prms
  prm_sql :: sql_prm

type_synonym row = "string option list"

record mysql_res =
  res_fields :: "(string \<times> mysql_type) list"
  res_rows :: "row list"

record m_query =
  q_id :: nat
  q_tid :: "nat option"
  q_pri :: nat
  q_conn_id :: nat
  q_query :: string
  q_data :: "32 word list option"
  q_data_size :: nat
  q_timeout :: nat
  q_retry_count :: nat
  q_async :: bool
  q_started :: bool
  q_aborted :: bool
  q_finished :: bool
  q_successful :: bool
  q_framed :: bool
  q_time_create :: rat
  q_conn :: "nat option"
  q_result :: "mysql_res option"
  q_is_buffered :: bool
  q_row :: "row option"
  q_prms :: prm
  q_error :: string
  q_err :: int
  q_failstate :: int
  q_f_names :: "(string \<times> nat) list"
  q_f_count :: nat

datatype sql_error =
    UB_dangling_query     \<comment> \<open>use of a deleted \<^verbatim>\<open>m_query_t\<close>\<close>
  | UB_null_result        \<comment> \<open>the fields of a missing result\<close>
  | UB_read_past_data     \<comment> \<open>a copy past the end of the caller's array\<close>
  | Assert_thread_known   \<comment> \<open>\<^verbatim>\<open>assert(it != m_threads.end())\<close>\<close>
  | Assert_thread_new     \<comment> \<open>\<^verbatim>\<open>assert(result.second)\<close>\<close>
  | Assert_num_threads    \<comment> \<open>\<^verbatim>\<open>assert(num >= 0)\<close>\<close>

record sqlmgr =
  m_conn_prms :: "prm list"
  m_queries :: "(key, m_query) std_map"
  m_frame_queries :: "(rat \<times> key) list"
  max_threads :: nat
  sql_stop_main :: bool
  stop_threads :: bool
  conns :: "nat list"
  m_threads :: "nat list"
  num_threads :: int
  num_finished :: int
  sql_frames_count :: nat
  sql_frame_rate :: nat
  m_query_nums :: nat

definition sqlmgr_init :: "nat \<Rightarrow> sqlmgr" where
  "sqlmgr_init hw = \<lparr>m_conn_prms = [], m_queries = [], m_frame_queries = [],
     max_threads = max 1 (min (hw div 2) 4), sql_stop_main = False, stop_threads = False, conns = [],
     m_threads = [], num_threads = 0, num_finished = 0, sql_frames_count = 0, sql_frame_rate = 1,
     m_query_nums = 0\<rparr>"

section \<open>Connections\<close>

definition no_fwd :: fwd_prms where "no_fwd = \<lparr>fwd_id = - 1, fwd_amx = 0\<rparr>"

definition make_prm ::
  "nat \<Rightarrow> int \<Rightarrow> string \<Rightarrow> string \<Rightarrow> string \<Rightarrow> string \<Rightarrow> string \<Rightarrow> nat \<Rightarrow> prm" where
  "make_prm a fid host user pass name chrs timeout =
     (let has_port = CHR '':'' \<in> set host;
          before = takeWhile (\<lambda>c. c \<noteq> CHR '':'') host;
          after = tl (dropWhile (\<lambda>c. c \<noteq> CHR '':'') host)
      in \<lparr>prm_fwd = \<lparr>fwd_id = fid, fwd_amx = a\<rparr>,
          prm_sql = \<lparr>db_host = (if has_port then before else host), db_user = user, db_pass = pass,
                     db_name = name, db_chrs = chrs,
                     db_port = (if has_port then word_of_int (atoi after) else 3306), sql_timeout = timeout\<rparr>\<rparr>)"

definition add_connect ::
  "nat \<Rightarrow> int \<Rightarrow> string \<Rightarrow> string \<Rightarrow> string \<Rightarrow> string \<Rightarrow> string \<Rightarrow> nat \<Rightarrow> sqlmgr \<Rightarrow> nat \<times> sqlmgr" where
  "add_connect a fid host user pass name chrs timeout st =
     (let st' = st\<lparr>m_conn_prms := m_conn_prms st @ [make_prm a fid host user pass name chrs timeout]\<rparr>
      in (length (m_conn_prms st'), st'))"

text \<open>\<^verbatim>\<open>get_connect\<close> overwrites \<open>p\<close>; a failed lookup only resets its forward.\<close>

definition get_connect :: "nat \<Rightarrow> prm \<Rightarrow> sqlmgr \<Rightarrow> bool \<times> prm" where
  "get_connect conn_id p st =
     (let n = length (m_conn_prms st)
      in if n = 0 \<or> conn_id = 0 \<or> n < conn_id then (False, p\<lparr>prm_fwd := no_fwd\<rparr>)
         else (True, m_conn_prms st ! (conn_id - 1)))"

definition close_conn :: "nat \<Rightarrow> sqlmgr \<Rightarrow> bool \<times> sqlmgr" where
  "close_conn c st =
     (if c \<in> set (conns st) then (True, st\<lparr>conns := remove1 c (conns st)\<rparr>) else (False, st))"

section \<open>Queries\<close>

definition is_valid_conn :: "bool \<Rightarrow> m_query \<Rightarrow> bool" where
  "is_valid_conn stopped q =
     (\<not> (q_conn q = None \<or> q_finished q \<or> q_aborted q \<or> stopped \<and> q_async q))"

text \<open>\<^verbatim>\<open>get_next_id\<close> of \<^verbatim>\<open>refsapi_misc.cpp\<close>.\<close>

definition next_query_id :: "nat \<Rightarrow> nat \<times> nat" where
  "next_query_id counter =
     (if counter = 0 \<or> counter = 2 ^ 64 - 1 then (1, 1) else (counter + 1, (counter + 1) mod 2 ^ 64))"

definition empty_sql :: sql_prm where
  "empty_sql = \<lparr>db_host = [], db_user = [], db_pass = [], db_name = [], db_chrs = [], db_port = 0,
                sql_timeout = 0\<rparr>"

definition prepare_query ::
  "nat option \<Rightarrow> string \<Rightarrow> bool \<Rightarrow> nat \<Rightarrow> nat \<Rightarrow> nat \<Rightarrow> 32 word list option \<Rightarrow> nat \<Rightarrow> rat \<Rightarrow>
   sqlmgr \<Rightarrow> sql_error + m_query option \<times> sqlmgr" where
  "prepare_query conn query async pri timeout conn_id data data_size now st =
     (if query = [] \<or> MAX_QUERY_PRIORITY < pri then Inr (None, st)
      else
        (case next_query_id (m_query_nums st) of (i, nums) \<Rightarrow>
           let size = max 1 (min data_size 4096);
               cells = (case data of
                          None \<Rightarrow> Inr (replicate size 0)
                        | Some d \<Rightarrow> if size \<le> length d then Inr (take size d) else Inl UB_read_past_data)
           in bind_r cells (\<lambda>d.
             let q = \<lparr>q_id = i, q_tid = None, q_pri = pri, q_conn_id = conn_id, q_query = query,
                      q_data = Some d, q_data_size = size, q_timeout = timeout, q_retry_count = 0,
                      q_async = async, q_started = False, q_aborted = False, q_finished = False,
                      q_successful = False, q_framed = False, q_time_create = now, q_conn = conn,
                      q_result = None, q_is_buffered = True, q_row = None,
                      q_prms = \<lparr>prm_fwd = \<lparr>fwd_id = 0, fwd_amx = 0\<rparr>, prm_sql = empty_sql\<rparr>,
                      q_error = [], q_err = 0, q_failstate = 0, q_f_names = [], q_f_count = 0\<rparr>
             in Inr (Some q, st\<lparr>m_query_nums := nums,
                               m_queries := sm_insert (pri, i) q (m_queries st)\<rparr>))))"

definition push_query ::
  "nat \<Rightarrow> string \<Rightarrow> 32 word list option \<Rightarrow> nat \<Rightarrow> nat \<Rightarrow> nat \<Rightarrow> rat \<Rightarrow> sqlmgr \<Rightarrow>
   sql_error + bool \<times> sqlmgr" where
  "push_query conn_id query data data_size pri timeout now st =
     bind_r (prepare_query None query True pri (1000 * timeout) conn_id data data_size now st)
       (\<lambda>(q, st'). Inr (q \<noteq> None, st'))"

text \<open>
  What the client library does for one execution: the handle of \<^verbatim>\<open>mysql_init\<close>, whether the
  connection succeeds, the error flag of the query, \<^verbatim>\<open>mysql_error\<close> and \<^verbatim>\<open>mysql_errno\<close>, the
  result and \<^verbatim>\<open>mysql_field_count\<close>.  The loops of non-blocking calls around
  \<^verbatim>\<open>wait_for_mysql\<close> end with these values.
\<close>

record lib_env =
  lib_init :: "nat option"
  lib_connect :: "prm \<Rightarrow> bool"
  lib_query_failed :: bool
  lib_error :: string
  lib_errno :: int
  lib_result :: "mysql_res option"
  lib_field_count :: nat

definition async_connect :: "lib_env \<Rightarrow> m_query \<Rightarrow> sqlmgr \<Rightarrow> bool \<times> m_query" where
  "async_connect env q st =
     (if q_finished q \<or> q_aborted q \<or> \<not> q_async q then (False, q)
      else if q_conn q \<noteq> None then (True, q)
      else
        (case get_connect (q_conn_id q) (q_prms q) st of
           (False, p) \<Rightarrow> (False, q\<lparr>q_prms := p\<rparr>)
         | (True, p) \<Rightarrow>
             (case lib_init env of
                None \<Rightarrow> (False, q\<lparr>q_prms := p, q_conn := None\<rparr>)
              | Some c \<Rightarrow>
                  let q1 = q\<lparr>q_prms := p, q_conn := Some c\<rparr>
                  in if lib_connect env p then (True, q1)
                     else (False, q1\<lparr>q_error := lib_error env, q_err := lib_errno env\<rparr>))))"

definition exec_async_query :: "lib_env \<Rightarrow> m_query \<Rightarrow> sqlmgr \<Rightarrow> bool \<times> m_query" where
  "exec_async_query env q st =
     (let q0 = q\<lparr>q_failstate := TQUERY_SUCCESS, q_error := [], q_err := 0\<rparr>;
          q' = (case async_connect env q0 st of
                  (True, q1) \<Rightarrow>
                    if lib_query_failed env
                    then q1\<lparr>q_error := lib_error env, q_err := lib_errno env,
                            q_failstate := TQUERY_QUERY_FAILED\<rparr>
                    else q1
                | (False, q1) \<Rightarrow> q1\<lparr>q_failstate := TQUERY_CONNECT_FAILED\<rparr>)
      in (q_failstate q' = TQUERY_SUCCESS, q'))"

text \<open>The loop that files the field names; \<open>insert\<close> keeps the first field of a name.\<close>

fun name_fields :: "nat \<Rightarrow> (string \<times> mysql_type) list \<Rightarrow> (string, nat) std_map \<Rightarrow> (string, nat) std_map" where
  "name_fields i [] m = m"
| "name_fields i (f # fs) m =
     name_fields (i + 1) fs (case map_of m (fst f) of None \<Rightarrow> m @ [(fst f, i)] | Some _ \<Rightarrow> m)"

definition get_result :: "lib_env \<Rightarrow> bool \<Rightarrow> m_query \<Rightarrow> sqlmgr \<Rightarrow> sql_error + bool \<times> m_query" where
  "get_result env is_buffered q st =
     (if \<not> is_valid_conn (stop_threads st) q then Inr (False, q)
      else if q_result q \<noteq> None then Inr (True, q)
      else
        let q1 = q\<lparr>q_is_buffered := is_buffered, q_result := lib_result env,
                   q_f_names := [], q_f_count := lib_field_count env\<rparr>
        in (case lib_result env of
              None \<Rightarrow> if 0 < lib_field_count env then Inl UB_null_result else Inr (False, q1)
            | Some r \<Rightarrow>
                Inr (True, q1\<lparr>q_f_names := name_fields 0 (take (lib_field_count env) (res_fields r)) []\<rparr>)))"

definition exec_query :: "lib_env \<Rightarrow> m_query \<Rightarrow> sqlmgr \<Rightarrow> sql_error + bool \<times> m_query" where
  "exec_query env q st =
     (if \<not> is_valid_conn (stop_threads st) q \<or> q_query q = [] \<or> q_started q then Inr (False, q)
      else
        let q1 = q\<lparr>q_started := True, q_error := [], q_err := 0\<rparr>
        in if lib_query_failed env
           then Inr (False, q1\<lparr>q_error := lib_error env, q_err := lib_errno env,
                               q_failstate := TQUERY_QUERY_FAILED\<rparr>)
           else bind_r (get_result env True (q1\<lparr>q_successful := True, q_failstate := TQUERY_SUCCESS\<rparr>) st)
                  (\<lambda>(_, q2). Inr (True, q2)))"

definition free_query :: "m_query \<Rightarrow> sqlmgr \<Rightarrow> m_query" where
  "free_query q st =
     (if \<not> q_async q \<and> \<not> q_finished q then q\<lparr>q_finished := True\<rparr>
      else
        let q1 = q\<lparr>q_result := None\<rparr>;
            q2 = (if q_data q1 \<noteq> None
                     \<and> (stop_threads st \<or> q_finished q1 \<or> q_aborted q1 \<or> q_successful q1)
                  then q1\<lparr>q_data := None, q_data_size := 0\<rparr> else q1);
            q3 = (if q_async q2 then q2\<lparr>q_conn := None\<rparr> else q2)
        in q3\<lparr>q_f_names := [], q_f_count := 0\<rparr>)"

section \<open>The main thread\<close>

text \<open>What the scan of \<^verbatim>\<open>poll_query\<close> changes besides the query it looks at.\<close>

record poll_acc =
  a_threads :: "nat list"
  a_num :: int
  a_fin :: int
  a_finished :: "key list"
  a_start :: "key list"

definition threads_count :: "poll_acc \<Rightarrow> sql_error + int" where
  "threads_count a = (if a_num a - a_fin a < 0 then Inl Assert_num_threads else Inr (a_num a - a_fin a))"

text \<open>A thread that is done leaves \<^verbatim>\<open>m_threads\<close>.\<close>

definition reap_thread :: "m_query \<Rightarrow> poll_acc \<Rightarrow> sql_error + poll_acc" where
  "reap_thread q a =
     (if q_async q \<and> q_started q \<and> (q_finished q \<or> q_aborted q \<and> q_framed q)
      then (case q_tid q of
              None \<Rightarrow> Inl Assert_thread_known
            | Some t \<Rightarrow>
                if t \<notin> set (a_threads a) then Inl Assert_thread_known
                else Inr (a\<lparr>a_threads := remove1 t (a_threads a), a_num := a_num a - 1,
                            a_fin := (if q_finished q then a_fin a - 1 else a_fin a)\<rparr>))
      else Inr a)"

definition poll_done :: "key \<Rightarrow> m_query \<Rightarrow> poll_acc \<Rightarrow> m_query \<times> poll_acc" where
  "poll_done k q a =
     (let may_retry = q_async q \<and> \<not> q_aborted q \<and> \<not> q_successful q;
          q1 = (if may_retry then q\<lparr>q_retry_count := (q_retry_count q + 1) mod 256\<rparr> else q)
      in if may_retry \<and> q_retry_count q1 < QUERY_RETRY_COUNT
         then (q1\<lparr>q_started := False, q_finished := False\<rparr>, a)
         else if \<not> q_async q1 \<or> q_finished q1 \<or> q_aborted q1 \<and> (\<not> q_started q1 \<or> q_framed q1)
         then (q1, a\<lparr>a_finished := a_finished a @ [k]\<rparr>)
         else (q1, a))"

definition poll_one :: "bool \<Rightarrow> nat \<Rightarrow> key \<Rightarrow> m_query \<Rightarrow> poll_acc \<Rightarrow> sql_error + m_query \<times> poll_acc" where
  "poll_one stopped mx k q a =
     (if q_finished q \<or> q_aborted q
      then bind_r (reap_thread q a) (\<lambda>a1. Inr (poll_done k q a1))
      else if \<not> stopped \<and> q_async q \<and> \<not> q_started q
      then bind_r (threads_count a) (\<lambda>n.
             if n < int (mx * 2 ^ (MAX_QUERY_PRIORITY - q_pri q))
             then Inr (q\<lparr>q_started := True\<rparr>, a\<lparr>a_start := a_start a @ [k], a_num := a_num a + 1\<rparr>)
             else Inr (q, a))
      else Inr (q, a))"

fun poll_scan ::
  "bool \<Rightarrow> nat \<Rightarrow> (key, m_query) std_map \<Rightarrow> poll_acc \<Rightarrow>
   sql_error + (key, m_query) std_map \<times> poll_acc" where
  "poll_scan stopped mx [] a = Inr ([], a)"
| "poll_scan stopped mx ((k, q) # m) a =
     bind_r (poll_one stopped mx k q a) (\<lambda>(q', a1).
       bind_r (poll_scan stopped mx m a1) (\<lambda>(m', a2). Inr ((k, q') # m', a2)))"

definition upd_query :: "key \<Rightarrow> (m_query \<Rightarrow> m_query) \<Rightarrow> (key, m_query) std_map \<Rightarrow> (key, m_query) std_map" where
  "upd_query k f m = sm_map (\<lambda>k' q. if k' = k then f q else q) m"

text \<open>
  Starting the threads: \<open>tids\<close> gives the id of each new thread, \<open>None\<close> when its creation throws.
  The third result lists the queries whose thread runs.
\<close>

fun start_queries ::
  "(key \<Rightarrow> nat option) \<Rightarrow> key list \<Rightarrow> (key, m_query) std_map \<Rightarrow> nat list \<Rightarrow> int \<Rightarrow>
   sql_error + (key, m_query) std_map \<times> nat list \<times> int \<times> key list" where
  "start_queries tids [] m ts n = Inr (m, ts, n, [])"
| "start_queries tids (k # ks) m ts n =
     (case tids k of
        None \<Rightarrow> start_queries tids ks (upd_query k (\<lambda>q. q\<lparr>q_started := False\<rparr>) m) ts (n - 1)
      | Some t \<Rightarrow>
          if t \<in> set ts then Inl Assert_thread_new
          else bind_r (start_queries tids ks (upd_query k (\<lambda>q. q\<lparr>q_tid := Some t\<rparr>) m) (ts @ [t]) n)
                 (\<lambda>(m', ts', n', run). Inr (m', ts', n', k # run)))"

definition poll_query :: "(key \<Rightarrow> nat option) \<Rightarrow> sqlmgr \<Rightarrow> sql_error + sqlmgr \<times> key list" where
  "poll_query tids st =
     bind_r (poll_scan (stop_threads st) (max_threads st) (m_queries st)
               \<lparr>a_threads = m_threads st, a_num = num_threads st, a_fin = num_finished st,
                a_finished = [], a_start = []\<rparr>) (\<lambda>(m, a).
       bind_r (start_queries tids (a_start a) m (a_threads a) (a_num a)) (\<lambda>(m', ts, n, run).
         Inr (st\<lparr>m_queries := fold sm_erase (a_finished a) m', m_threads := ts, num_threads := n,
                 num_finished := a_fin a\<rparr>, run)))"

section \<open>A worker thread\<close>

text \<open>
  \<^verbatim>\<open>run_query\<close> between the points where another thread can interfere: \<open>R_start\<close> before the
  execution, \<open>R_check\<close> before the test that may abort it, \<open>R_push\<close> before the section under
  \<^verbatim>\<open>frame_mutex\<close>.
\<close>

datatype rpc = R_start | R_check | R_push

definition finish_thread :: "key \<Rightarrow> sqlmgr \<Rightarrow> sqlmgr" where
  "finish_thread k st =
     st\<lparr>m_queries := upd_query k (\<lambda>q. q\<lparr>q_finished := True\<rparr>) (m_queries st),
        num_finished := num_finished st + 1\<rparr>"

definition run_query :: "lib_env \<Rightarrow> rpc \<Rightarrow> key \<Rightarrow> sqlmgr \<Rightarrow> sql_error + rpc option \<times> sqlmgr" where
  "run_query env pc k st =
     (case map_of (m_queries st) k of
        None \<Rightarrow> Inl UB_dangling_query
      | Some q \<Rightarrow>
          (case pc of
             R_start \<Rightarrow>
               if stop_threads st \<or> q_aborted q then Inr (None, finish_thread k st)
               else
                 (let (ok, q1) = exec_async_query env q st; q2 = q1\<lparr>q_successful := ok\<rparr>
                  in bind_r (if ok then get_result env False q2 st else Inr (False, q2)) (\<lambda>(_, q3).
                       Inr (Some R_check, st\<lparr>m_queries := upd_query k (\<lambda>_. q3) (m_queries st)\<rparr>)))
           | R_check \<Rightarrow>
               if stop_threads st \<or> q_aborted q \<or> fwd_amx (prm_fwd (q_prms q)) = 0
                  \<or> fwd_id (prm_fwd (q_prms q)) = - 1
               then Inr (None, finish_thread k st)
               else if \<not> q_successful q \<and> q_retry_count q < QUERY_RETRY_COUNT
               then Inr (None, finish_thread k st)
               else Inr (Some R_push, st)
           | R_push \<Rightarrow>
               Inr (None, st\<lparr>m_queries := upd_query k (\<lambda>q. q\<lparr>q_framed := True\<rparr>) (m_queries st),
                             m_frame_queries := pq_push fst (q_time_create q, k) (m_frame_queries st)\<rparr>)))"

section \<open>The game thread\<close>

definition get_frame_query :: "sqlmgr \<Rightarrow> (key \<times> sqlmgr) option" where
  "get_frame_query st =
     (if m_frame_queries st = [] then None
      else Some (snd (pq_top (m_frame_queries st)), st\<lparr>m_frame_queries := pq_pop (m_frame_queries st)\<rparr>))"

text \<open>
  \<open>handler\<close> is what the plugin's handler does to the manager: the queries it pushes, each with
  its connection, text, data and priority.
\<close>

type_synonym handler = "m_query \<Rightarrow> (nat \<times> string \<times> 32 word list option \<times> nat \<times> nat \<times> nat \<times> rat) list"

fun run_handler ::
  "(nat \<times> string \<times> 32 word list option \<times> nat \<times> nat \<times> nat \<times> rat) list \<Rightarrow> sqlmgr \<Rightarrow> sql_error + sqlmgr" where
  "run_handler [] st = Inr st"
| "run_handler ((conn_id, query, data, sz, pri, timeout, now) # cs) st =
     bind_r (push_query conn_id query data sz pri timeout now st) (\<lambda>(_, st'). run_handler cs st')"

definition frame_forward_sql :: "handler \<Rightarrow> sqlmgr \<Rightarrow> sql_error + sqlmgr" where
  "frame_forward_sql h st =
     (case get_frame_query st of
        None \<Rightarrow> Inr st
      | Some (k, st1) \<Rightarrow>
          (case map_of (m_queries st1) k of
             None \<Rightarrow> Inl UB_dangling_query
           | Some q \<Rightarrow>
               bind_r (if stop_threads st1 \<or> q_aborted q then Inr st1 else run_handler (h q) st1)
                 (\<lambda>st2. Inr (finish_thread k st2))))"

definition start_frame_sql :: "handler \<Rightarrow> nat \<Rightarrow> sqlmgr \<Rightarrow> sql_error + sqlmgr" where
  "start_frame_sql h rate st =
     (let st1 = st\<lparr>sql_frame_rate := rate\<rparr>
      in bind_r (if \<not> stop_threads st1 \<and> sql_frames_count st1 mod sql_frame_rate st1 = 0
                 then frame_forward_sql h st1 else Inr st1)
           (\<lambda>st2. Inr (st2\<lparr>sql_frames_count := (sql_frames_count st2 + 1) mod 2 ^ 64\<rparr>)))"

definition stop_sql :: "sqlmgr \<Rightarrow> sqlmgr" where
  "stop_sql st =
     (let st1 = st\<lparr>stop_threads := True, sql_frames_count := 0\<rparr>;
          st2 = st1\<lparr>m_frame_queries := [],
                    m_queries := sm_map (\<lambda>_ q. q\<lparr>q_aborted := True\<rparr>) (m_queries st1)\<rparr>;
          st3 = st2\<lparr>stop_threads := False\<rparr>
      in st3\<lparr>conns := [], m_conn_prms := []\<rparr>)"

section \<open>All threads together\<close>

text \<open>
  The worker threads are the map from the address of a query to the position of its thread.  A
  step is labelled with the number of queries it pushes, which bounds the ids in use.
\<close>

type_synonym sql_sys = "sql_error + (key \<Rightarrow> rpc option) \<times> sqlmgr"

definition handler_cost :: "handler \<Rightarrow> sqlmgr \<Rightarrow> nat" where
  "handler_cost h st =
     (case get_frame_query st of
        None \<Rightarrow> 0
      | Some (k, _) \<Rightarrow> (case map_of (m_queries st) k of None \<Rightarrow> 0 | Some q \<Rightarrow> length (h q)))"

inductive sql_step :: "nat \<Rightarrow> sql_sys \<Rightarrow> sql_sys \<Rightarrow> bool" where
  poll: "sql_step 0 (Inr (run, st))
           (bind_r (poll_query tids st) (\<lambda>(st', ks).
              Inr (\<lambda>k. if k \<in> set ks then Some R_start else run k, st')))"
| worker: "run k = Some pc \<Longrightarrow> sql_step 0 (Inr (run, st))
           (bind_r (run_query env pc k st) (\<lambda>(pc', st'). Inr (run(k := pc'), st')))"
| push: "sql_step 1 (Inr (run, st))
           (bind_r (push_query conn_id query data sz pri timeout now st) (\<lambda>(_, st'). Inr (run, st')))"
| connect: "sql_step 0 (Inr (run, st))
           (Inr (run, snd (add_connect a fid host user pass name chrs tmo st)))"
| frame: "sql_step (handler_cost h st) (Inr (run, st))
           (bind_r (start_frame_sql h rate st) (\<lambda>st'. Inr (run, st')))"
| stop: "sql_step 0 (Inr (run, st)) (Inr (run, stop_sql st))"

inductive_cases sql_step_error: "sql_step c (Inl e) s"

inductive sql_reachable :: "nat \<Rightarrow> nat \<Rightarrow> sql_sys \<Rightarrow> bool" for hw :: nat where
  init: "sql_reachable hw 0 (Inr (\<lambda>_. None, sqlmgr_init hw))"
| step: "sql_reachable hw n s \<Longrightarrow> sql_step c s s' \<Longrightarrow> sql_reachable hw (n + c) s'"

section \<open>What a plugin reads from a query\<close>

text \<open>
  A string result either fills \<^verbatim>\<open>buff\<close> and returns its length in \<^verbatim>\<open>*ret\<close>, or fills \<^verbatim>\<open>ret\<close>
  itself; both arrays are passed and returned.
\<close>

type_synonym cells = "32 word list"

definition no_value :: "cells \<Rightarrow> cells \<Rightarrow> nat \<Rightarrow> cells \<times> cells" where
  "no_value ret buff buff_len = (ret[0 := 0], if buff_len \<noteq> 0 then buff[0 := 0] else buff)"

definition string_value :: "nat \<Rightarrow> string option \<Rightarrow> cells \<Rightarrow> cells \<Rightarrow> nat \<Rightarrow> cells \<times> cells" where
  "string_value max_ret s ret buff buff_len =
     (if buff_len \<noteq> 0
      then (case set_amx_string (Some buff) s (buff_len + 1) of
              (n, b) \<Rightarrow> (ret[0 := of_nat n], the b))
      else (the (snd (set_amx_string (Some ret) s max_ret)), buff))"

definition query_str :: "m_query \<Rightarrow> bool \<Rightarrow> cells \<Rightarrow> cells \<Rightarrow> nat \<Rightarrow> cells \<times> cells" where
  "query_str q stopped ret buff buff_len =
     (if \<not> is_valid_conn stopped q \<or> q_query q = [] then no_value ret buff buff_len
      else string_value RF_MAX_FIELD_SIZE (Some (q_query q)) ret buff buff_len)"

text \<open>\<open>library\<close> is the value the client library returns for the connection.\<close>

definition affected_rows :: "m_query \<Rightarrow> bool \<Rightarrow> int \<Rightarrow> int" where
  "affected_rows q stopped library = (if \<not> is_valid_conn stopped q then - 1 else library)"

definition insert_id :: "m_query \<Rightarrow> bool \<Rightarrow> int \<Rightarrow> int" where
  "insert_id q stopped library = (if \<not> is_valid_conn stopped q then - 1 else library)"

definition field_count :: "m_query \<Rightarrow> bool \<Rightarrow> int" where
  "field_count q stopped = (if \<not> is_valid_conn stopped q then - 1 else int (q_f_count q))"

definition num_rows :: "m_query \<Rightarrow> bool \<Rightarrow> 32 word \<Rightarrow> 32 word" where
  "num_rows q stopped library =
     (if \<not> is_valid_conn stopped q \<or> q_result q = None then - 1 else library)"

definition fetch_row :: "m_query \<Rightarrow> bool \<Rightarrow> bool \<times> m_query" where
  "fetch_row q stopped =
     (case q_result q of
        None \<Rightarrow> (False, q)
      | Some r \<Rightarrow>
          if \<not> is_valid_conn stopped q then (False, q)
          else (case res_rows r of
                  [] \<Rightarrow> (False, q\<lparr>q_row := None\<rparr>)
                | w # ws \<Rightarrow> (True, q\<lparr>q_row := Some w, q_result := Some (r\<lparr>res_rows := ws\<rparr>)\<rparr>)))"

definition field_name :: "m_query \<Rightarrow> bool \<Rightarrow> nat \<Rightarrow> cells \<Rightarrow> cells \<Rightarrow> nat \<Rightarrow> cells \<times> cells" where
  "field_name q stopped offset ret buff buff_len =
     (case q_result q of
        None \<Rightarrow> no_value ret buff buff_len
      | Some r \<Rightarrow>
          if \<not> is_valid_conn stopped q \<or> q_row q = None \<or> q_f_count q \<le> offset
          then no_value ret buff buff_len
          else string_value RF_MAX_FIELD_NAME (Some (fst (res_fields r ! offset))) ret buff buff_len)"

text \<open>\<open>ftoc\<close> is \<^verbatim>\<open>atof\<close> followed by the bit pattern of the float, functions of the C library.\<close>

definition fetch_field ::
  "(string \<Rightarrow> 32 word) \<Rightarrow> m_query \<Rightarrow> bool \<Rightarrow> nat \<Rightarrow> field_types \<Rightarrow> cells \<Rightarrow> cells \<Rightarrow> nat \<Rightarrow> cells \<times> cells" where
  "fetch_field ftoc q stopped offset mode ret buff buff_len =
     (case (q_result q, q_row q) of
        (Some r, Some w) \<Rightarrow>
          if \<not> is_valid_conn stopped q \<or> q_f_count q \<le> offset then no_value ret buff buff_len
          else
            (let f = w ! offset;
                 int_value = (ret[0 := (case f of None \<Rightarrow> 0 | Some s \<Rightarrow> of_int (atoi s))], buff);
                 flt_value = (ret[0 := (case f of None \<Rightarrow> 0 | Some s \<Rightarrow> ftoc s)], buff);
                 str_value = (the (snd (set_amx_string (Some ret) f RF_MAX_FIELD_SIZE)), buff)
             in case mode of
                  FT_AUTO \<Rightarrow>
                    (case snd (res_fields r ! offset) of
                       MYSQL_TYPE_INTEGER \<Rightarrow> int_value
                     | MYSQL_TYPE_REAL \<Rightarrow> flt_value
                     | MYSQL_TYPE_OTHER \<Rightarrow> str_value)
                | FT_INT \<Rightarrow> int_value
                | FT_FLT \<Rightarrow> flt_value
                | FT_STR \<Rightarrow> str_value
                | FT_STR_BUFF \<Rightarrow>
                    if buff_len \<noteq> 0
                    then (case set_amx_string (Some buff) f (buff_len + 1) of
                            (n, b) \<Rightarrow> (ret[0 := of_nat n], the b))
                    else (ret, buff))
      | _ \<Rightarrow> no_value ret buff buff_len)"

definition fetch_field_by_name ::
  "(string \<Rightarrow> 32 word) \<Rightarrow> m_query \<Rightarrow> bool \<Rightarrow> string \<Rightarrow> field_types \<Rightarrow> cells \<Rightarrow> cells \<Rightarrow> nat \<Rightarrow> cells \<times> cells" where
  "fetch_field_by_name ftoc q stopped name mode ret buff buff_len =
     (case (q_result q, q_row q, map_of (q_f_names q) name) of
        (Some r, Some w, Some pos) \<Rightarrow>
          if \<not> is_valid_conn stopped q then no_value ret buff buff_len
          else fetch_field ftoc q stopped pos mode ret buff buff_len
      | _ \<Rightarrow> no_value ret buff buff_len)"

end
