(* ===== verification/Log_Mngr.thy ===== *)
theory Log_Mngr
  imports Prelude Text_Utils
begin

text \<open>
  The log manager of \<^verbatim>\<open>refsapi_log_mngr.h\<close>: the configuration of each plugin, the buffer of lines the
  game thread fills, the writer threads that take the buffer, sort it and write it batch by batch into
  the files of the plugins, and the main thread that starts and joins them.  Plugins are known by the
  number of their \<^verbatim>\<open>AMX\<close>.
\<close>

section \<open>Lines\<close>

record data =
  d_amx :: nat
  d_seq :: nat
  d_time :: nat      \<comment> \<open>microseconds since the epoch\<close>
  d_str :: wstring

text \<open>
  \<^verbatim>\<open>log_mngr::write\<close>: one line in the prefix mode of the file; \<open>fmt_time\<close> is \<^verbatim>\<open>format_time\<close>.
\<close>

fun dec3 :: "nat \<Rightarrow> nat list" where
  "dec3 n = [48 + n div 100 mod 10, 48 + n div 10 mod 10, 48 + n mod 10]"

definition log_line :: "(nat \<Rightarrow> wstring) \<Rightarrow> nat \<Rightarrow> data \<Rightarrow> wstring" where
  "log_line fmt_time prefix_mode line =
     (let s = cc (d_str line) False 92;
          ms = d_time line mod 1000000
      in if prefix_mode = 1 then wide ''L '' @ fmt_time (d_time line) @ wide '': '' @ s @ [10]
         else if prefix_mode = 2
         then wide ''L '' @ fmt_time (d_time line) @ wide ''.'' @ dec3 (ms div 1000) @ wide '': '' @ s @ [10]
         else s @ [10])"

section \<open>Configurations\<close>

record plugin_prm =
  pp_path :: wstring
  pp_name :: wstring
  pp_level :: int
  pp_mode :: nat

type_synonym plugin_prms = "nat \<Rightarrow> plugin_prm option"

datatype log_error = UB_uninitialised | UB_null_file

text \<open>
  \<open>is_plugin\<close> is \<^verbatim>\<open>get_plugin\<close>, \<open>mk_path\<close> the path and name \<^verbatim>\<open>make_path\<close> turns the two texts into.
  \<^verbatim>\<open>insert\<close> keeps a configuration that is there.
\<close>

definition add_config ::
  "(nat \<Rightarrow> bool) \<Rightarrow> (nat \<Rightarrow> wstring \<Rightarrow> wstring \<Rightarrow> wstring \<times> wstring) \<Rightarrow> nat \<Rightarrow> wstring \<Rightarrow> wstring \<Rightarrow> int \<Rightarrow> nat \<Rightarrow>
   plugin_prms \<Rightarrow> bool \<times> plugin_prms" where
  "add_config is_plugin mk_path amx path name log_level prefix_mode prms =
     (if \<not> is_plugin amx then (False, prms)
      else let (p, n) = mk_path amx path name;
               prm = \<lparr>pp_path = p, pp_name = n, pp_level = log_level, pp_mode = prefix_mode\<rparr>
           in (True, if prms amx = None then prms(amx \<mapsto> prm) else prms))"

text \<open>
  The second result is the configuration handed back; \<open>None\<close> when the variable of the caller is left
  uninitialised, as after \<^verbatim>\<open>add_config\<close>.
\<close>

definition get_config ::
  "(nat \<Rightarrow> bool) \<Rightarrow> (nat \<Rightarrow> wstring \<Rightarrow> wstring \<Rightarrow> wstring \<times> wstring) \<Rightarrow> nat \<Rightarrow> plugin_prms \<Rightarrow>
   bool \<times> plugin_prm option \<times> plugin_prms" where
  "get_config is_plugin mk_path amx prms =
     (if amx = 0 then (False, None, prms)
      else (case prms amx of
              None \<Rightarrow> (case add_config is_plugin mk_path amx [] [] (- 1) 2 prms of (ok, prms') \<Rightarrow> (ok, None, prms'))
            | Some prm \<Rightarrow> (True, Some prm, prms)))"

definition get_log_level ::
  "(nat \<Rightarrow> bool) \<Rightarrow> (nat \<Rightarrow> wstring \<Rightarrow> wstring \<Rightarrow> wstring \<times> wstring) \<Rightarrow> nat \<Rightarrow> plugin_prms \<Rightarrow>
   (log_error + int) \<times> plugin_prms" where
  "get_log_level is_plugin mk_path amx prms =
     (case get_config is_plugin mk_path amx prms of
        (ok, prm, prms') \<Rightarrow>
          (if \<not> ok then Inr (- 1) else (case prm of None \<Rightarrow> Inl UB_uninitialised | Some p \<Rightarrow> Inr (pp_level p)),
           prms'))"

definition set_log_level :: "nat \<Rightarrow> int \<Rightarrow> plugin_prms \<Rightarrow> bool \<times> plugin_prms" where
  "set_log_level amx log_level prms =
     (case (if amx = 0 then None else prms amx) of
        None \<Rightarrow> (False, prms)
      | Some prm \<Rightarrow> (True, prms(amx \<mapsto> prm\<lparr>pp_level := log_level\<rparr>)))"

section \<open>Files\<close>

record log_file =
  lf_name :: wstring
  lf_level :: int
  lf_mode :: nat

type_synonym log_files = "nat \<Rightarrow> log_file option"   \<comment> \<open>\<^verbatim>\<open>plugins\<close>, the open file of each plugin\<close>

definition slash :: nat where "slash = 47"

text \<open>
  \<open>opened\<close> is what opening the stream gives: \<open>None\<close> when it throws, otherwise whether it is open.  After
  a throw the null pointer is used for the message.
\<close>

definition create_file ::
  "bool option \<Rightarrow> nat \<Rightarrow> wstring \<Rightarrow> wstring \<Rightarrow> int \<Rightarrow> nat \<Rightarrow> log_files \<Rightarrow> log_error + bool \<times> log_files" where
  "create_file opened amx path name log_level prefix_mode fs =
     (if path = [] \<or> name = [] then Inr (False, fs)
      else (case opened of
              None \<Rightarrow> Inl UB_null_file
            | Some False \<Rightarrow> Inr (False, fs)
            | Some True \<Rightarrow>
                Inr (True, if fs amx = None
                     then fs(amx \<mapsto> \<lparr>lf_name = path @ [slash] @ name, lf_level = log_level, lf_mode = prefix_mode\<rparr>)
                     else fs)))"

text \<open>A file that was removed from the disk is closed.\<close>

definition get_file :: "(wstring \<Rightarrow> bool) \<Rightarrow> nat \<Rightarrow> log_files \<Rightarrow> bool \<times> log_files" where
  "get_file exists amx fs =
     (case fs amx of
        None \<Rightarrow> (False, fs)
      | Some f \<Rightarrow> if \<not> exists (lf_name f) then (False, fs(amx := None)) else (True, fs))"

definition open_file ::
  "(nat \<Rightarrow> bool) \<Rightarrow> (nat \<Rightarrow> wstring \<Rightarrow> wstring \<Rightarrow> wstring \<times> wstring) \<Rightarrow> (wstring \<Rightarrow> bool) \<Rightarrow>
   (wstring \<Rightarrow> bool option) \<Rightarrow> nat \<Rightarrow> plugin_prms \<Rightarrow> log_files \<Rightarrow>
   log_error + bool \<times> plugin_prms \<times> log_files" where
  "open_file is_plugin mk_path exists opening amx prms fs =
     (if amx = 0 then Inr (False, prms, fs)
      else (case get_file exists amx fs of
              (True, fs1) \<Rightarrow> Inr (True, prms, fs1)
            | (False, fs1) \<Rightarrow>
                (case get_config is_plugin mk_path amx prms of
                   (ok, prm, prms1) \<Rightarrow>
                     if \<not> ok then Inr (False, prms1, fs1)
                     else let (p, n, l, m) = (case prm of None \<Rightarrow> ([], [], 0, 0)
                                | Some q \<Rightarrow> (pp_path q, pp_name q, pp_level q, pp_mode q))
                          in bind_r (create_file (opening (p @ [slash] @ n)) amx p n l m fs1)
                               (\<lambda>(r, fs2). Inr (r, prms1, fs2)))))"

section \<open>A writer thread\<close>

text \<open>
  What a writer does to the world, in order: it opens and locks the file of a plugin, writes a batch,
  unlocks, or drops a line whose file cannot be opened.
\<close>

datatype log_event = Ev_open nat | Ev_write nat "data list" | Ev_unlock nat | Ev_skip data

text \<open>The comparison of the sort.\<close>

definition later_first :: "data \<Rightarrow> data \<Rightarrow> bool" where
  "later_first a b = (d_amx a > d_amx b \<or> d_amx a = d_amx b \<and> d_time a > d_time b)"

text \<open>The buffer is listed from its back: the next line to take comes first.\<close>

fun take_batch :: "nat \<Rightarrow> nat \<Rightarrow> data list \<Rightarrow> data list \<Rightarrow> data list \<times> data list" where
  "take_batch cap amx_prev batch [] = (batch, [])"
| "take_batch cap amx_prev batch (d # buff) =
     (if length batch < cap \<and> d_amx d = amx_prev then take_batch cap amx_prev (batch @ [d]) buff
      else (batch, d # buff))"

text \<open>
  The loop of \<^verbatim>\<open>writer_thread\<close>; \<open>it\<close> is the plugin of the line in \<^verbatim>\<open>it\<close>, \<open>amx_prev\<close> that of the open
  file, \<open>opens\<close> tells for which plugins \<^verbatim>\<open>open_file\<close> succeeds, \<open>cap\<close> is the capacity of the batch.
\<close>

partial_function (option) writer_loop ::
  "(nat \<Rightarrow> bool) \<Rightarrow> nat \<Rightarrow> nat option \<Rightarrow> nat option \<Rightarrow> data list \<Rightarrow> log_event list option" where
  "writer_loop opens cap it amx_prev buff =
     (case buff of
        [] \<Rightarrow> Some []
      | d # ds \<Rightarrow>
          let load = (amx_prev = None \<or> it \<noteq> amx_prev) in
          if load \<and> \<not> opens (d_amx d)
          then Option.bind (writer_loop opens cap (Some (d_amx d)) amx_prev ds) (\<lambda>es. Some (Ev_skip d # es))
          else
            let cur = (if load then d_amx d else the amx_prev);
                (batch, rest) = take_batch cap cur [] buff;
                evs = (if load then [Ev_open cur] else []) @ [Ev_write cur batch]
                      @ (if rest = [] \<or> d_amx (hd rest) \<noteq> cur then [Ev_unlock cur] else [])
            in Option.bind
                 (writer_loop opens cap (if rest = [] then Some cur else Some (d_amx (hd rest))) (Some cur) rest)
                 (\<lambda>es. Some (evs @ es)))"

definition writer_thread ::
  "(data list \<Rightarrow> data list) \<Rightarrow> (nat \<Rightarrow> bool) \<Rightarrow> nat \<Rightarrow> data list \<Rightarrow> log_event list option" where
  "writer_thread srt opens local_batch_size buff =
     writer_loop opens local_batch_size None None (rev (srt buff))"

section \<open>The manager\<close>

text \<open>
  The threads that run have an id and the events they still have to do; those that are done are in
  \<open>m_finished\<close> until the main thread joins them.  \<open>locked\<close> is the thread that holds the mutex of a file.
\<close>

record log_mngr =
  l_buffer :: "data list"
  running :: "(nat \<times> log_event list option) list"
  m_finished :: "nat list"
  num_productivity :: nat
  m_sequence :: nat
  next_tid :: nat
  locked :: "nat \<Rightarrow> nat option"
  disk :: "data list"        \<comment> \<open>all lines written, in the order of writing\<close>
  dropped :: "data list"     \<comment> \<open>lines skipped by writers\<close>

record log_conf =
  max_writer_threads :: nat
  batch_size :: nat
  std_sort :: "data list \<Rightarrow> data list"
  opens :: "nat \<Rightarrow> bool"

definition MAX_LOG_BUFFER_SIZE :: nat where "MAX_LOG_BUFFER_SIZE = 8192"

definition MAX_PRODUCTIVITY :: "log_conf \<Rightarrow> nat" where
  "MAX_PRODUCTIVITY c = 2 * max_writer_threads c"

definition log_init :: "log_conf \<Rightarrow> log_mngr" where
  "log_init c = \<lparr>l_buffer = [], running = [], m_finished = [], num_productivity = MAX_PRODUCTIVITY c,
     m_sequence = 0, next_tid = 0, locked = (\<lambda>_. None), disk = [], dropped = []\<rparr>"

text \<open>\<^verbatim>\<open>num_threads - num_finished\<close> is the number of running threads.\<close>

definition get_num_threads :: "log_mngr \<Rightarrow> nat" where
  "get_num_threads st = length (running st)"

definition write_to_disk :: "log_conf \<Rightarrow> log_mngr \<Rightarrow> bool \<times> log_mngr" where
  "write_to_disk c st =
     (if l_buffer st = [] then (True, st)
      else if get_num_threads st \<ge> max_writer_threads c \<and> num_productivity st = 0 then (False, st)
      else
        let p = (if get_num_threads st \<ge> max_writer_threads c then num_productivity st - 1
                 else if num_productivity st < MAX_PRODUCTIVITY c then num_productivity st + 1
                 else num_productivity st);
            evs = writer_thread (std_sort c) (opens c) (batch_size c * 2 ^ (MAX_PRODUCTIVITY c - p)) (l_buffer st)
        in (True, st\<lparr>num_productivity := p, l_buffer := [], running := running st @ [(next_tid st, evs)],
                     next_tid := next_tid st + 1\<rparr>))"

text \<open>
  \<open>now\<close> is the time, \<open>known\<close> whether the plugin and its configuration exist; the first result is whether
  the line was taken.
\<close>

definition write_file :: "log_conf \<Rightarrow> bool \<Rightarrow> nat \<Rightarrow> nat \<Rightarrow> wstring \<Rightarrow> log_mngr \<Rightarrow> data option \<times> log_mngr" where
  "write_file c known now amx str st =
     (if \<not> known then (None, st)
      else
        let (ok, st1) = (if length (l_buffer st) \<ge> MAX_LOG_BUFFER_SIZE then write_to_disk c st else (True, st))
        in if \<not> ok then (None, st1)
           else let d = \<lparr>d_amx = amx, d_seq = m_sequence st1, d_time = now, d_str = str\<rparr>
                in (Some d, st1\<lparr>m_sequence := m_sequence st1 + 1, l_buffer := l_buffer st1 @ [d]\<rparr>))"

text \<open>The join of the finished threads in the loop of \<^verbatim>\<open>main\<close>.\<close>

definition join_finished :: "log_mngr \<Rightarrow> log_mngr" where
  "join_finished st = st\<lparr>m_finished := []\<rparr>"

text \<open>One event of a writer; \<open>None\<close> while it waits for a mutex.\<close>

fun do_event :: "nat \<Rightarrow> log_event \<Rightarrow> log_mngr \<Rightarrow> log_mngr option" where
  "do_event tid (Ev_open a) st = (if locked st a = None then Some (st\<lparr>locked := (locked st)(a \<mapsto> tid)\<rparr>) else None)"
| "do_event tid (Ev_write a ds) st = Some (st\<lparr>disk := disk st @ ds\<rparr>)"
| "do_event tid (Ev_unlock a) st = Some (st\<lparr>locked := (locked st)(a := None)\<rparr>)"
| "do_event tid (Ev_skip d) st = Some (st\<lparr>dropped := dropped st @ [d]\<rparr>)"

definition writer_step :: "nat \<Rightarrow> log_mngr \<Rightarrow> log_mngr option" where
  "writer_step i st =
     (if i < length (running st)
      then (case running st ! i of
              (tid, None) \<Rightarrow> None
            | (tid, Some []) \<Rightarrow>
                Some (st\<lparr>running := take i (running st) @ drop (Suc i) (running st),
                         m_finished := m_finished st @ [tid]\<rparr>)
            | (tid, Some (e # es)) \<Rightarrow>
                map_option (\<lambda>st'. st'\<lparr>running := (running st')[i := (tid, Some es)]\<rparr>) (do_event tid e st))
      else None)"

text \<open>
  The steps of all threads: a line is logged, the main thread wakes up (it writes to disk, then joins), a
  writer goes on.  The second component lists the lines that were taken.
\<close>

inductive log_step :: "log_conf \<Rightarrow> data list \<times> log_mngr \<Rightarrow> data list \<times> log_mngr \<Rightarrow> bool" for c :: log_conf where
  log_taken: "write_file c known now amx str st = (Some d, st') \<Longrightarrow> log_step c (acc, st) (acc @ [d], st')"
| log_refused: "write_file c known now amx str st = (None, st') \<Longrightarrow> log_step c (acc, st) (acc, st')"
| main_write: "write_to_disk c st = (r, st') \<Longrightarrow> log_step c (acc, st) (acc, st')"
| main_join: "log_step c (acc, st) (acc, join_finished st)"
| writer: "writer_step i st = Some st' \<Longrightarrow> log_step c (acc, st) (acc, st')"

inductive log_reach :: "log_conf \<Rightarrow> data list \<times> log_mngr \<Rightarrow> bool" for c :: log_conf where
  init: "log_reach c ([], log_init c)"
| step: "log_reach c s \<Longrightarrow> log_step c s s' \<Longrightarrow> log_reach c s'"

inductive_cases log_step_cases: "log_step c (acc, st) s'"

end
