(* ===== verification/Log_Props.thy ===== *)
theory Log_Props
  imports Log_Mngr "HOL-Library.Product_Lexorder"
begin

text \<open>
  What the log manager promises: a writer ends, writes every line of its buffer once and in the order of
  time and gives back every mutex; over all interleavings of the threads no accepted line is lost, the
  writers never block each other for good and their number stays bounded.  The order of lines of
  different buffers is not kept.
\<close>

section \<open>The events of a writer\<close>

definition event_lines :: "log_event \<Rightarrow> data list" where
  "event_lines e = (case e of Ev_write a ds \<Rightarrow> ds | Ev_skip d \<Rightarrow> [d] | _ \<Rightarrow> [])"

definition lines_of :: "log_event list \<Rightarrow> data list" where
  "lines_of evs = concat (map event_lines evs)"

definition written_to :: "nat \<Rightarrow> log_event list \<Rightarrow> data list" where
  "written_to a evs = concat (map (\<lambda>e. case e of Ev_write b ds \<Rightarrow> if b = a then ds else [] | _ \<Rightarrow> []) evs)"

text \<open>
  The first argument is the file that is open: it is opened before it is written, only its lines are
  written, at most \<open>cap\<close> at a time, and it is unlocked before the next one and at the end.
\<close>

fun events_ok :: "(nat \<Rightarrow> bool) \<Rightarrow> nat \<Rightarrow> nat option \<Rightarrow> log_event list \<Rightarrow> bool" where
  "events_ok op cap None [] = True"
| "events_ok op cap (Some a) [] = False"
| "events_ok op cap h (Ev_open a # es) = (h = None \<and> op a \<and> events_ok op cap (Some a) es)"
| "events_ok op cap h (Ev_write a ds # es) =
     (h = Some a \<and> length ds \<le> cap \<and> list_all (\<lambda>d. d_amx d = a) ds \<and> events_ok op cap (Some a) es)"
| "events_ok op cap h (Ev_unlock a # es) = (h = Some a \<and> events_ok op cap None es)"
| "events_ok op cap h (Ev_skip d # es) = (h = None \<and> \<not> op (d_amx d) \<and> events_ok op cap None es)"

lemma lines_simps [simp]:
  "lines_of [] = []" "lines_of (e # es) = event_lines e @ lines_of es"
  "event_lines (Ev_open a) = []" "event_lines (Ev_write a ds) = ds" "event_lines (Ev_unlock a) = []"
  "event_lines (Ev_skip d) = [d]"
  by (simp_all add: lines_of_def event_lines_def)

lemma take_batch_spec:
  assumes "take_batch cap a batch buff = (b, r)" "length batch \<le> cap"
  shows "\<exists>ds. b = batch @ ds \<and> buff = ds @ r \<and> list_all (\<lambda>d. d_amx d = a) ds \<and> length b \<le> cap"
  using assms
proof (induction cap a batch buff rule: take_batch.induct)
  case (2 cap a batch d buff)
  show ?case
  proof (cases "length batch < cap \<and> d_amx d = a")
    case True
    then obtain ds where "b = (batch @ [d]) @ ds" "buff = ds @ r" "list_all (\<lambda>d. d_amx d = a) ds" "length b \<le> cap"
      using 2 by auto
    then show ?thesis using True by (intro exI [of _ "d # ds"]) simp
  next
    case False
    then show ?thesis using 2 by auto
  qed
qed simp

lemma take_batch_first:
  assumes "take_batch cap a [] (d # ds) = (b, r)" "1 \<le> cap" "d_amx d = a"
  shows "length r \<le> length ds"
proof -
  have "take_batch cap a [d] ds = (b, r)" using assms by simp
  from take_batch_spec [OF this] assms(2) show ?thesis by auto
qed

definition holds :: "nat option \<Rightarrow> nat option \<Rightarrow> data list \<Rightarrow> nat option" where
  "holds it prev buff = (if prev \<noteq> None \<and> it = prev \<and> buff \<noteq> [] then prev else None)"

lemma writer_loop_ok:
  assumes "1 \<le> cap" "\<And>a. prev = Some a \<Longrightarrow> op a"
    and "holds it prev buff \<noteq> None \<Longrightarrow> prev = Some (d_amx (hd buff))"
  shows "\<exists>evs. writer_loop op cap it prev buff = Some evs \<and> lines_of evs = buff
    \<and> events_ok op cap (holds it prev buff) evs"
  using assms(2-)
proof (induction "length buff" arbitrary: it prev buff rule: less_induct)
  case less
  show ?case
  proof (cases buff)
    case Nil
    have "writer_loop op cap it prev [] = Some []" by (simp add: writer_loop.simps [of op cap it prev "[]"])
    then show ?thesis by (intro exI [of _ "[]"]) (simp add: Nil holds_def)
  next
    case (Cons d ds)
    let ?load = "prev = None \<or> it \<noteq> prev"
    show ?thesis
    proof (cases "?load \<and> \<not> op (d_amx d)")
      case True
      have nh: "holds (Some (d_amx d)) prev ds = None" "holds it prev buff = None"
        using True less.prems(1) by (auto simp: holds_def)
      obtain evs where "writer_loop op cap (Some (d_amx d)) prev ds = Some evs" "lines_of evs = ds"
        "events_ok op cap None evs"
        using less.hyps [of ds prev "Some (d_amx d)"] less.prems(1) Cons nh by auto
      then show ?thesis
        unfolding Cons using True Cons nh
        by (intro exI [of _ "Ev_skip d # evs"]) (simp add: writer_loop.simps [of op cap it prev "d # ds"] Let_def)
    next
      case False
      define cur where "cur = (if ?load then d_amx d else the prev)"
      have "cur = d_amx d \<and> op cur"
      proof (cases ?load)
        case True
        then show ?thesis using False by (simp add: cur_def)
      next
        case no: False
        then have "holds it prev buff = prev" "prev \<noteq> None" using Cons by (simp_all add: holds_def)
        then have "prev = Some (d_amx d)" using less.prems(2) Cons by simp
        then show ?thesis using no less.prems(1) by (simp add: cur_def)
      qed
      then have cur: "cur = d_amx d" "op cur" by blast+
      obtain b r where tb: "take_batch cap cur [] buff = (b, r)" by fastforce
      have "length ([] :: data list) \<le> cap" by simp
      from take_batch_spec [OF tb this] obtain bs where
        bs: "b = [] @ bs" "buff = bs @ r" "list_all (\<lambda>d. d_amx d = cur) bs" "length b \<le> cap" by blast
      have "length r \<le> length ds"
        by (rule take_batch_first [OF tb [unfolded Cons] assms(1) cur(1) [symmetric]])
      then have r: "length r < length buff" by (simp add: Cons)
      let ?it = "if r = [] then Some cur else Some (d_amx (hd r))"
      have h: "holds ?it (Some cur) r = (if r = [] \<or> d_amx (hd r) \<noteq> cur then None else Some cur)"
        by (auto simp: holds_def)
      have pre: "holds ?it (Some cur) r \<noteq> None \<Longrightarrow> Some cur = Some (d_amx (hd r))"
        unfolding h by (auto split: if_splits)
      obtain es where es: "writer_loop op cap ?it (Some cur) r = Some es" "lines_of es = r"
        "events_ok op cap (holds ?it (Some cur) r) es"
        using less.hyps [OF r, of "Some cur" ?it] cur(2) pre by blast
      let ?evs = "(if ?load then [Ev_open cur] else []) @ [Ev_write cur b]
        @ (if r = [] \<or> d_amx (hd r) \<noteq> cur then [Ev_unlock cur] else []) @ es"
      have "writer_loop op cap it prev buff = Some ?evs"
      proof (cases ?load)
        case True
        then have "op (d_amx d)" "cur = d_amx d" using cur by simp_all
        then show ?thesis
          unfolding Cons writer_loop.simps [of op cap it prev "d # ds"]
          using True tb [unfolded Cons] es(1)
          by (cases "r = []") (simp_all add: Let_def del: take_batch.simps)
      next
        case no: False
        then have "the prev = cur" unfolding cur_def by (simp only: if_False)
        then have "prev = Some cur" "it = Some cur" using no by auto
        then show ?thesis
          unfolding Cons writer_loop.simps [of op cap it prev "d # ds"]
          using tb [unfolded Cons] es(1)
          by (cases "r = []") (simp_all add: Let_def del: take_batch.simps)
      qed
      moreover have "lines_of ?evs = buff" using bs es(2) by (simp add: lines_of_def event_lines_def)
      moreover have "events_ok op cap (holds it prev buff) ?evs"
      proof -
        have hb: "holds it prev buff = (if ?load then None else Some cur)"
          using Cons less.prems(2) by (auto simp: holds_def cur_def)
        show ?thesis
          using bs cur(2) es(3) h unfolding hb by (auto split: if_splits)
      qed
      ultimately show ?thesis by blast
    qed
  qed
qed

lemma written_to_lines:
  "events_ok op cap h evs \<Longrightarrow> (\<And>b. h = Some b \<Longrightarrow> op b) \<Longrightarrow>
   written_to a evs = (if op a then filter (\<lambda>d. d_amx d = a) (lines_of evs) else [])"
proof (induction op cap h evs rule: events_ok.induct)
  case (4 op cap h b ds es)
  have "filter (\<lambda>d. d_amx d = a) ds = (if a = b then ds else [])"
    using 4(2) by (induction ds) auto
  then show ?case using 4 by (auto simp: written_to_def)
qed (auto simp: written_to_def)

text \<open>What \<^verbatim>\<open>std::sort\<close> promises: a permutation, in order of the comparison.\<close>

definition sort_ok :: "(data list \<Rightarrow> data list) \<Rightarrow> bool" where
  "sort_ok srt \<longleftrightarrow> (\<forall>b. mset (srt b) = mset b \<and> sorted_wrt (\<lambda>x y. \<not> later_first y x) (srt b))"

lemma filter_times:
  "sorted_wrt (\<lambda>x y. \<not> later_first x y) ys \<Longrightarrow>
   sorted_wrt (\<lambda>x y. d_time x \<le> d_time y) (filter (\<lambda>d. d_amx d = a) ys)"
  by (induction ys) (auto simp: later_first_def)

lemma sorted_times:
  assumes "sorted_wrt (\<lambda>x y. \<not> later_first y x) xs"
  shows "sorted (map d_time (filter (\<lambda>d. d_amx d = a) (rev xs)))"
proof -
  have "sorted_wrt (\<lambda>x y. \<not> later_first x y) (rev xs)"
    using assms by (simp add: sorted_wrt_rev)
  then have "sorted_wrt (\<lambda>x y. d_time x \<le> d_time y) (filter (\<lambda>d. d_amx d = a) (rev xs))"
    by (rule filter_times)
  then show ?thesis by (simp add: sorted_map)
qed

lemma writer_thread_ok:
  assumes "1 \<le> cap" "sort_ok srt"
  shows "\<exists>evs. writer_thread srt op cap buff = Some evs \<and> events_ok op cap None evs
    \<and> lines_of evs = rev (srt buff)"
proof -
  have "holds None None b = None" for b by (simp add: holds_def)
  with writer_loop_ok [OF assms(1), of None op None "rev (srt buff)"] show ?thesis
    by (auto simp: writer_thread_def)
qed

text \<open>
  A writer thread ends; it opens the file of a plugin before it writes to it and unlocks it before
  the next, writes batches no larger than allowed, and each file that can be opened gets exactly the
  lines of its plugin in the buffer, in the order of time; the lines of the others are dropped.
\<close>

theorem writer_writes_each_line_once:
  assumes "1 \<le> cap" "sort_ok srt"
  shows "\<exists>evs. writer_thread srt op cap buff = Some evs \<and> events_ok op cap None evs
    \<and> mset (written_to a evs) = (if op a then filter_mset (\<lambda>d. d_amx d = a) (mset buff) else {#})
    \<and> sorted (map d_time (written_to a evs))"
proof -
  obtain evs where e: "writer_thread srt op cap buff = Some evs" "events_ok op cap None evs"
    "lines_of evs = rev (srt buff)" using writer_thread_ok [OF assms, of op buff] by blast
  have w: "written_to a evs = (if op a then filter (\<lambda>d. d_amx d = a) (rev (srt buff)) else [])"
    using written_to_lines [OF e(2), of a] e(3) by simp
  have "mset (srt buff) = mset buff" "sorted_wrt (\<lambda>x y. \<not> later_first y x) (srt buff)"
    using assms(2) by (simp_all add: sort_ok_def)
  with w sorted_times [of "srt buff" a] have
    "mset (written_to a evs) = (if op a then filter_mset (\<lambda>d. d_amx d = a) (mset buff) else {#})
     \<and> sorted (map d_time (written_to a evs))"
    by simp
  with e(1,2) show ?thesis by blast
qed

definition sort_lines :: "data list \<Rightarrow> data list" where
  "sort_lines b = rev (sort_key (\<lambda>d. (d_amx d, d_time d)) b)"

lemma sort_lines_ok: "sort_ok sort_lines"
proof -
  have "sorted_wrt (\<lambda>x y. \<not> later_first x y) (sort_key (\<lambda>d. (d_amx d, d_time d)) b)" for b
  proof -
    have "sorted_wrt (\<lambda>x y. (d_amx x, d_time x) \<le> (d_amx y, d_time y)) (sort_key (\<lambda>d. (d_amx d, d_time d)) b)"
      using sorted_sort_key [of "\<lambda>d. (d_amx d, d_time d)" b] by (simp add: sorted_map)
    then show ?thesis
      by (rule sorted_wrt_mono_rel [rotated]) (auto simp: later_first_def less_eq_prod_def)
  qed
  then show ?thesis by (simp add: sort_ok_def sort_lines_def sorted_wrt_rev)
qed

definition a_line :: "nat \<Rightarrow> nat \<Rightarrow> data" where
  "a_line a t = \<lparr>d_amx = a, d_seq = t, d_time = t, d_str = [65]\<rparr>"

theorem writer_writes_each_line_once_witness:
  "\<exists>evs. writer_thread sort_lines (\<lambda>_. True) 1 [a_line 1 3, a_line 2 1, a_line 1 2] = Some evs
     \<and> mset (written_to 1 evs) = {#a_line 1 3, a_line 1 2#}"
  using writer_writes_each_line_once [OF order.refl sort_lines_ok,
      of "\<lambda>_. True" "[a_line 1 3, a_line 2 1, a_line 1 2]" 1]
  by (auto simp: a_line_def)

end
