(* ===== verification/Log_Threads.thy ===== *)
theory Log_Threads
  imports Log_Props
begin

text \<open>
  The log manager over all interleavings of the game thread, the main thread and the writers: nothing is
  lost, the writers never wait for each other for good, their number is bounded, and what is not
  promised: the order of lines of different buffers, and the level of a plugin without configuration.
\<close>

section \<open>The invariant\<close>

definition conf_ok :: "log_conf \<Rightarrow> bool" where
  "conf_ok c \<longleftrightarrow> 1 \<le> batch_size c \<and> sort_ok (std_sort c)"

definition pending_of :: "nat \<times> log_event list option \<Rightarrow> data multiset" where
  "pending_of w = (case snd w of None \<Rightarrow> {#} | Some evs \<Rightarrow> mset (lines_of evs))"

definition pending :: "log_mngr \<Rightarrow> data multiset" where
  "pending st = sum_list (map pending_of (running st))"

definition writer_ok :: "log_conf \<Rightarrow> (nat \<Rightarrow> nat option) \<Rightarrow> nat \<times> log_event list option \<Rightarrow> bool" where
  "writer_ok c lk w \<longleftrightarrow>
     (\<exists>evs cap h. snd w = Some evs \<and> (\<forall>a. lk a = Some (fst w) \<longleftrightarrow> h = Some a) \<and> events_ok (opens c) cap h evs)"

definition log_inv :: "log_conf \<Rightarrow> data list \<Rightarrow> log_mngr \<Rightarrow> bool" where
  "log_inv c acc st \<longleftrightarrow>
     mset acc = mset (l_buffer st) + pending st + mset (disk st) + mset (dropped st)
     \<and> (\<forall>d \<in> set (dropped st). \<not> opens c (d_amx d))
     \<and> (\<forall>w \<in> set (running st). writer_ok c (locked st) w \<and> fst w < next_tid st)
     \<and> distinct (map fst (running st))
     \<and> (\<forall>a t. locked st a = Some t \<longrightarrow> t \<in> fst ` set (running st))
     \<and> length (running st) + num_productivity st \<le> 3 * max_writer_threads c
     \<and> num_productivity st \<le> 2 * max_writer_threads c"

lemma log_inv_init: "log_inv c [] (log_init c)"
  by (simp add: log_inv_def log_init_def pending_def MAX_PRODUCTIVITY_def)

lemma write_to_disk_inv:
  assumes "conf_ok c" "log_inv c acc st" "write_to_disk c st = (r, st')"
  shows "log_inv c acc st' \<and> (r \<longrightarrow> l_buffer st' = [])"
proof (cases "l_buffer st = [] \<or> get_num_threads st \<ge> max_writer_threads c \<and> num_productivity st = 0")
  case True
  then show ?thesis using assms(2,3) by (auto simp: write_to_disk_def split: if_splits)
next
  case False
  define p where "p = (if get_num_threads st \<ge> max_writer_threads c then num_productivity st - 1
                 else if num_productivity st < MAX_PRODUCTIVITY c then num_productivity st + 1
                 else num_productivity st)"
  let ?cap = "batch_size c * 2 ^ (MAX_PRODUCTIVITY c - p)"
  have "1 \<le> ?cap" using assms(1) by (simp add: conf_ok_def)
  from writer_thread_ok [OF this] assms(1) obtain evs where
    e: "writer_thread (std_sort c) (opens c) ?cap (l_buffer st) = Some evs"
      "events_ok (opens c) ?cap None evs" "lines_of evs = rev (std_sort c (l_buffer st))"
    unfolding conf_ok_def by blast
  have st': "r = True" "st' = st\<lparr>num_productivity := p, l_buffer := [],
      running := running st @ [(next_tid st, Some evs)], next_tid := next_tid st + 1\<rparr>"
    using assms(3) False e(1) by (auto simp: write_to_disk_def Let_def p_def)
  note i = assms(2) [unfolded log_inv_def]
  have m: "mset (lines_of evs) = mset (l_buffer st)"
    using assms(1) e(3) by (simp add: conf_ok_def sort_ok_def)
  have fresh: "locked st a \<noteq> Some (next_tid st)" for a
  proof
    assume "locked st a = Some (next_tid st)"
    with i have "next_tid st \<in> fst ` set (running st)" by blast
    then obtain w where "w \<in> set (running st)" "fst w = next_tid st" by (metis imageE)
    with i show False by (metis less_irrefl)
  qed
  have w: "writer_ok c (locked st) (next_tid st, Some evs)"
    using e(2) fresh by (auto simp: writer_ok_def)
  have b: "length (running st') + num_productivity st' \<le> 3 * max_writer_threads c"
    "num_productivity st' \<le> 2 * max_writer_threads c"
    using i False by (auto simp: st' p_def get_num_threads_def MAX_PRODUCTIVITY_def)
  have "mset acc = mset (l_buffer st') + pending st' + mset (disk st') + mset (dropped st')"
    using i m by (simp add: st' pending_def pending_of_def)
  moreover have "\<forall>w \<in> set (running st'). writer_ok c (locked st') w \<and> fst w < next_tid st'"
    using i w by (auto simp: st' less_Suc_eq)
  moreover have "distinct (map fst (running st'))" using i by (auto simp: st')
  moreover have "\<forall>a t. locked st' a = Some t \<longrightarrow> t \<in> fst ` set (running st')" using i by (auto simp: st')
  moreover have "\<forall>d \<in> set (dropped st'). \<not> opens c (d_amx d)" using i by (simp add: st')
  ultimately show ?thesis using b by (simp add: log_inv_def st'(2))
qed

lemma write_file_inv:
  assumes "conf_ok c" "log_inv c acc st" "write_file c known now amx str st = (od, st')"
  shows "log_inv c (case od of None \<Rightarrow> acc | Some d \<Rightarrow> acc @ [d]) st'"
proof (cases known)
  case True
  obtain ok st1 where d: "(if length (l_buffer st) \<ge> MAX_LOG_BUFFER_SIZE then write_to_disk c st else (True, st)) = (ok, st1)"
    by fastforce
  then have i: "log_inv c acc st1"
    using write_to_disk_inv [OF assms(1,2)] assms(2) by (auto split: if_splits)
  show ?thesis
  proof (cases ok)
    case False
    then show ?thesis using assms(3) True d i by (simp add: write_file_def)
  next
    case yes: True
    let ?d = "\<lparr>d_amx = amx, d_seq = m_sequence st1, d_time = now, d_str = str\<rparr>"
    have "od = Some ?d" "st' = st1\<lparr>m_sequence := m_sequence st1 + 1, l_buffer := l_buffer st1 @ [?d]\<rparr>"
      using assms(3) True d yes by (auto simp: write_file_def Let_def)
    then show ?thesis using i by (simp add: log_inv_def pending_def)
  qed
qed (use assms in \<open>auto simp: write_file_def\<close>)

section \<open>A step of a writer\<close>

lemma writer_ok_other:
  assumes "writer_ok c lk w" "\<And>a. lk' a = Some (fst w) \<longleftrightarrow> lk a = Some (fst w)"
  shows "writer_ok c lk' w"
  using assms by (simp add: writer_ok_def)

lemma writer_step_inv:
  assumes "log_inv c acc st" "writer_step i st = Some st'"
  shows "log_inv c acc st'"
proof -
  note inv = assms(1) [unfolded log_inv_def]
  have i: "i < length (running st)" using assms(2) by (simp add: writer_step_def split: if_splits)
  define w where "w = running st ! i"
  have win: "w \<in> set (running st)" using i by (simp add: w_def)
  with inv obtain evs cap h where w: "w = (fst w, Some evs)" "\<forall>a. locked st a = Some (fst w) \<longleftrightarrow> h = Some a"
    "events_ok (opens c) cap h evs" unfolding writer_ok_def by (metis prod.collapse)
  define t where "t = fst w"
  obtain xs ys where run: "running st = xs @ (t, Some evs) # ys" and ix: "i = length xs"
    using id_take_nth_drop [OF i] i w(1) by (metis length_take min.absorb2 less_imp_le t_def w_def)
  have "distinct (map fst (running st))" using inv by blast
  then have d: "t \<notin> fst ` set xs" "t \<notin> fst ` set ys" "distinct (map fst xs)" "distinct (map fst ys)"
    "fst ` set xs \<inter> fst ` set ys = {}"
    by (auto simp: run)
  have sets: "set (running st) = set xs \<union> {(t, Some evs)} \<union> set ys" by (auto simp: run)
  have oth: "w' \<in> set xs \<union> set ys \<Longrightarrow> writer_ok c (locked st) w' \<and> fst w' < next_tid st \<and> fst w' \<noteq> t" for w'
    using inv d(1,2) sets by auto
  have pend: "pending st = sum_list (map pending_of xs) + mset (lines_of evs) + sum_list (map pending_of ys)"
    by (simp add: pending_def run pending_of_def)
  have tn: "t < next_tid st" using inv win by (simp add: t_def)
  show ?thesis
  proof (cases evs)
    case Nil
    then have h: "h = None" using w(3) by (cases h) simp_all
    have st': "st' = st\<lparr>running := xs @ ys, m_finished := m_finished st @ [t]\<rparr>"
      using assms(2) Nil by (simp add: writer_step_def run ix)
    have "locked st a = Some u \<Longrightarrow> u \<in> fst ` set (xs @ ys)" for a u
    proof -
      assume l: "locked st a = Some u"
      then have "u \<noteq> t" using w(2) h by (auto simp: t_def)
      moreover have "u \<in> fst ` set (running st)" using inv l by blast
      ultimately show ?thesis using sets by auto
    qed
    moreover have "length (running st) = Suc (length xs + length ys)" by (simp add: run)
    ultimately show ?thesis
      using inv oth d pend Nil by (auto simp: log_inv_def st' pending_def)
  next
    case (Cons e es)
    obtain s where s: "do_event t e st = Some s" and st': "st' = s\<lparr>running := (running s)[i := (t, Some es)]\<rparr>"
      using assms(2) Cons by (auto simp: writer_step_def run ix)
    have same: "running s = running st" "l_buffer s = l_buffer st" "next_tid s = next_tid st"
      "num_productivity s = num_productivity st"
      using s by (cases e; auto split: if_splits)+
    have run': "running st' = xs @ (t, Some es) # ys"
      using st' same(1) by (simp add: run ix)
    have sets': "set (running st') = set xs \<union> {(t, Some es)} \<union> set ys" unfolding run' by auto
    have pend': "pending st' = sum_list (map pending_of xs) + mset (lines_of es) + sum_list (map pending_of ys)"
      unfolding pending_def run' by (simp add: pending_of_def)
    have proj: "l_buffer st' = l_buffer st" "next_tid st' = next_tid st" "num_productivity st' = num_productivity st"
      "disk st' = disk s" "dropped st' = dropped s" "locked st' = locked s"
      using st' same by simp_all
    have eff: "mset (disk s) + mset (dropped s) = mset (disk st) + mset (dropped st) + mset (event_lines e)"
      using s by (cases e) (auto split: if_splits)
    have hb: "h = Some b \<Longrightarrow> locked st b = Some t" for b using w(2) by (simp add: t_def)
    have lk: "locked s a = Some u \<longleftrightarrow> locked st a = Some u" if "u \<noteq> t" for a u
      using s w(3) hb that Cons by (cases e; cases h) (auto split: if_splits)
    have me: "writer_ok c (locked s) (t, Some es)"
    proof (cases e)
      case (Ev_open b)
      then have "h = None" "events_ok (opens c) cap (Some b) es" using w(3) Cons by auto
      moreover have "locked s = (locked st)(b \<mapsto> t)" using s Ev_open by (auto split: if_splits)
      ultimately show ?thesis using w(2) by (force simp: writer_ok_def t_def)
    next
      case (Ev_write b ds)
      then have "events_ok (opens c) cap h es" "locked s = locked st" using w(3) Cons s by (cases h; auto)+
      then show ?thesis using w(2) by (auto simp: writer_ok_def t_def)
    next
      case (Ev_unlock b)
      then have "h = Some b" "events_ok (opens c) cap None es" "locked s = (locked st)(b := None)"
        using w(3) Cons s by (cases h; auto)+
      then show ?thesis using w(2) by (force simp: writer_ok_def t_def)
    next
      case (Ev_skip x)
      then have "events_ok (opens c) cap h es" "locked s = locked st" using w(3) Cons s by (cases h; auto)+
      then show ?thesis using w(2) by (auto simp: writer_ok_def t_def)
    qed
    have dr: "\<forall>x \<in> set (dropped s). \<not> opens c (d_amx x)"
      using inv s w(3) Cons by (cases e; cases h) (auto split: if_splits)
    have lr: "u \<in> fst ` set (running st')" if "locked s a = Some u" for a u
    proof (cases "u = t")
      case False
      then have "locked st a = Some u" using lk that by simp
      then have "u \<in> fst ` set (running st)" using inv by blast
      then show ?thesis using False sets sets' by auto
    qed (simp add: sets')
    have ws: "writer_ok c (locked s) w' \<and> fst w' < next_tid st" if "w' \<in> set (running st')" for w'
      using that me tn oth [of w'] writer_ok_other [of c "locked st" w' "locked s"] lk unfolding sets' by auto
    have m: "mset acc = mset (l_buffer st') + pending st' + mset (disk st') + mset (dropped st')"
      using inv pend pend' eff Cons by (simp add: proj ac_simps)
    have len: "length (running st') = length (running st)" by (simp add: run run')
    have "distinct (map fst (running st'))" unfolding run' using d by auto
    then show ?thesis
      using inv m dr ws lr by (simp add: log_inv_def proj len)
  qed
qed

section \<open>All interleavings\<close>

lemma log_step_inv:
  assumes "conf_ok c" "log_inv c (fst s) (snd s)" "log_step c s s'"
  shows "log_inv c (fst s') (snd s')"
  using assms(3,2)
proof cases
  case (log_taken known now amx str st d st' acc)
  then show ?thesis using write_file_inv [OF assms(1) _ log_taken(3)] assms(2) by simp
next
  case (log_refused known now amx str st st' acc)
  then show ?thesis using write_file_inv [OF assms(1) _ log_refused(3)] assms(2) by simp
next
  case (main_write st r st' acc)
  then show ?thesis using write_to_disk_inv [OF assms(1) _ main_write(3)] assms(2) by simp
next
  case (main_join acc st)
  then show ?thesis using assms(2) by (simp add: log_inv_def join_finished_def pending_def)
next
  case (writer i st st' acc)
  then show ?thesis using writer_step_inv assms(2) by simp
qed

lemma log_reach_inv: "log_reach c s \<Longrightarrow> conf_ok c \<Longrightarrow> log_inv c (fst s) (snd s)"
proof (induction rule: log_reach.induct)
  case init
  show ?case by (simp add: log_inv_init)
next
  case (step s s')
  then show ?case using log_step_inv by blast
qed


text \<open>
  Never more than three times \<^verbatim>\<open>max_writer_threads\<close> writers run, although the manager starts new
  ones above its limit as long as \<^verbatim>\<open>num_productivity\<close> is positive.
\<close>

theorem log_threads_bounded:
  assumes "conf_ok c" "log_reach c (acc, st)"
  shows "get_num_threads st + num_productivity st \<le> 3 * max_writer_threads c"
  using log_reach_inv [OF assms(2,1)] by (simp add: log_inv_def get_num_threads_def)

text \<open>
  The writers never wait for each other for good: as long as one is running, some writer can take
  its next step.
\<close>

theorem log_writers_progress:
  assumes "conf_ok c" "log_reach c (acc, st)" "running st \<noteq> []"
  shows "\<exists>i st'. writer_step i st = Some st'"
proof -
  note inv = log_reach_inv [OF assms(2,1), simplified, unfolded log_inv_def]
  have go: "\<exists>st'. writer_step i st = Some st'"
    if "i < length (running st)" "running st ! i = (t, Some evs)"
      and "\<And>a es. evs = Ev_open a # es \<Longrightarrow> locked st a = None" for i t evs
  proof (cases evs)
    case (Cons e es)
    then have "\<exists>s. do_event t e st = Some s" using that(3) by (cases e) auto
    then show ?thesis using that(1,2) Cons by (auto simp: writer_step_def)
  qed (use that in \<open>simp add: writer_step_def\<close>)
  have entry: "\<exists>t evs cap h. running st ! i = (t, Some evs) \<and> (\<forall>a. locked st a = Some t \<longleftrightarrow> h = Some a)
      \<and> events_ok (opens c) cap h evs" if "i < length (running st)" for i
  proof -
    have "writer_ok c (locked st) (running st ! i)" using inv that nth_mem by blast
    then show ?thesis unfolding writer_ok_def by (metis prod.collapse)
  qed
  have i0: "0 < length (running st)" using assms(3) by simp
  from entry [OF i0] obtain t evs cap h where e: "running st ! 0 = (t, Some evs)"
    "events_ok (opens c) cap h evs" by blast
  show ?thesis
  proof (cases "\<exists>a es u. evs = Ev_open a # es \<and> locked st a = Some u")
    case False
    then show ?thesis using go [OF i0 e(1)] by fastforce
  next
    case True
    then obtain a u where "locked st a = Some u" by blast
    moreover from this inv have "u \<in> fst ` set (running st)" by blast
    ultimately obtain j where j: "j < length (running st)" "fst (running st ! j) = u" "locked st a = Some u"
      by (metis (no_types, lifting) imageE in_set_conv_nth)
    from entry [OF j(1)] j(2,3) obtain evs' cap' where e': "running st ! j = (u, Some evs')"
      "events_ok (opens c) cap' (Some a) evs'" by fastforce
    have "evs' \<noteq> Ev_open b # es" for b es using e'(2) by auto
    then show ?thesis using go [OF j(1) e'(1)] by blast
  qed
qed

section \<open>Two writers\<close>

definition two_writers :: log_conf where
  "two_writers = \<lparr>max_writer_threads = 2, batch_size = 1, std_sort = sort_lines, opens = (\<lambda>_. True)\<rparr>"

lemma two_writers_ok: "conf_ok two_writers"
  by (simp add: conf_ok_def two_writers_def sort_lines_ok)

definition line1 :: data where "line1 = \<lparr>d_amx = 1, d_seq = 0, d_time = 10, d_str = [65]\<rparr>"
definition line2 :: data where "line2 = \<lparr>d_amx = 1, d_seq = 1, d_time = 20, d_str = [66]\<rparr>"

lemma one_line_events:
  "1 \<le> cap \<Longrightarrow> writer_thread sort_lines (\<lambda>_. True) cap [d] =
     Some [Ev_open (d_amx d), Ev_write (d_amx d) [d], Ev_unlock (d_amx d)]"
  by (simp add: writer_thread_def sort_lines_def writer_loop.simps Let_def)

definition two_running :: "log_mngr \<Rightarrow> bool" where
  "two_running st \<longleftrightarrow> l_buffer st = [] \<and> locked st 1 = None \<and> disk st = []
     \<and> running st = [(0, Some [Ev_open 1, Ev_write 1 [line1], Ev_unlock 1]),
                      (1, Some [Ev_open 1, Ev_write 1 [line2], Ev_unlock 1])]"

lemma two_running_reach: "\<exists>st. log_reach two_writers ([line1, line2], st) \<and> two_running st"
proof -
  let ?c = two_writers
  note d = two_writers_def log_init_def write_file_def write_to_disk_def get_num_threads_def MAX_PRODUCTIVITY_def
    MAX_LOG_BUFFER_SIZE_def line1_def line2_def Let_def
  let ?s0 = "log_init ?c"
  let ?s1 = "?s0\<lparr>m_sequence := 1, l_buffer := [line1]\<rparr>"
  let ?w1 = "(0, Some [Ev_open 1, Ev_write 1 [line1], Ev_unlock 1])"
  let ?w2 = "(1, Some [Ev_open 1, Ev_write 1 [line2], Ev_unlock 1])"
  let ?s2 = "?s1\<lparr>l_buffer := [], running := [?w1], next_tid := 1\<rparr>"
  let ?s3 = "?s2\<lparr>m_sequence := 2, l_buffer := [line2]\<rparr>"
  let ?s4 = "?s3\<lparr>l_buffer := [], running := [?w1, ?w2], next_tid := 2\<rparr>"
  have a: "d_amx line1 = 1" "d_amx line2 = 1" by (simp_all add: line1_def line2_def)
  have "write_file ?c True 10 1 [65] ?s0 = (Some line1, ?s1)" by (simp add: d)
  then have 1: "log_reach ?c ([line1], ?s1)"
    using log_reach.step [OF log_reach.init log_taken] by fastforce
  have "write_to_disk ?c ?s1 = (True, ?s2)"
    by (simp add: write_to_disk_def two_writers_def log_init_def get_num_threads_def MAX_PRODUCTIVITY_def
        one_line_events a)
  then have 2: "log_reach ?c ([line1], ?s2)" using log_reach.step [OF 1 main_write] by blast
  have "write_file ?c True 20 1 [66] ?s2 = (Some line2, ?s3)" by (simp add: d)
  then have 3: "log_reach ?c ([line1, line2], ?s3)"
    using log_reach.step [OF 2 log_taken] by fastforce
  have "write_to_disk ?c ?s3 = (True, ?s4)"
    by (simp add: write_to_disk_def two_writers_def log_init_def get_num_threads_def MAX_PRODUCTIVITY_def
        one_line_events a)
  then have "log_reach ?c ([line1, line2], ?s4)" using log_reach.step [OF 3 main_write] by blast
  moreover have "two_running ?s4" by (simp add: two_running_def log_init_def)
  ultimately show ?thesis by blast
qed


theorem log_threads_bounded_witness:
  "\<exists>st. log_reach two_writers ([line1, line2], st) \<and> get_num_threads st = 2 \<and> num_productivity st \<le> 4"
proof -
  obtain st where r: "log_reach two_writers ([line1, line2], st)" "two_running st" using two_running_reach by blast
  then have "get_num_threads st = 2" by (simp add: two_running_def get_num_threads_def)
  with log_threads_bounded [OF two_writers_ok r(1)] r(1) show ?thesis
    by (intro exI [of _ st]) (simp add: two_writers_def)
qed

theorem log_writers_progress_witness:
  "\<exists>st i st'. log_reach two_writers ([line1, line2], st) \<and> writer_step i st = Some st'"
proof -
  obtain st where r: "log_reach two_writers ([line1, line2], st)" "two_running st" using two_running_reach by blast
  then have "running st \<noteq> []" by (simp add: two_running_def)
  from log_writers_progress [OF two_writers_ok r(1) this] r(1) show ?thesis by blast
qed

text \<open>
  Two lines of one plugin, logged one after the other and taken by two writers, can end up in its
  file in the wrong order: the second writer may get the mutex of the file first.
\<close>

theorem log_order_not_kept:
  "\<exists>st. log_reach two_writers ([line1, line2], st) \<and> disk st = [line2, line1]
     \<and> d_time line1 < d_time line2 \<and> d_amx line1 = d_amx line2"
proof -
  obtain s0 where r: "log_reach two_writers ([line1, line2], s0)" "two_running s0" using two_running_reach by blast
  note s0 = r(2) [unfolded two_running_def]
  let ?w1 = "\<lambda>es. (0 :: nat, Some es)" and ?w2 = "\<lambda>es. (1 :: nat, Some es)"
  let ?e1 = "[Ev_open 1, Ev_write 1 [line1], Ev_unlock 1]"
  have st: "log_reach two_writers ([line1, line2], s) \<Longrightarrow> writer_step i s = Some s'
      \<Longrightarrow> log_reach two_writers ([line1, line2], s')" for i s s'
    using log_reach.step log_step.writer by blast
  define s1 where "s1 = s0\<lparr>locked := (locked s0)(1 \<mapsto> 1),
    running := [?w1 ?e1, ?w2 [Ev_write 1 [line2], Ev_unlock 1]]\<rparr>"
  have "writer_step 1 s0 = Some s1" using s0 by (simp add: writer_step_def s1_def)
  from st [OF r(1) this] have r1: "log_reach two_writers ([line1, line2], s1)" .
  define s2 where "s2 = s1\<lparr>disk := [line2], running := [?w1 ?e1, ?w2 [Ev_unlock 1]]\<rparr>"
  have "writer_step 1 s1 = Some s2" using s0 by (simp add: writer_step_def s1_def s2_def)
  from st [OF r1 this] have r2: "log_reach two_writers ([line1, line2], s2)" .
  define s3 where "s3 = s2\<lparr>locked := (locked s2)(1 := None), running := [?w1 ?e1, ?w2 []]\<rparr>"
  have "writer_step 1 s2 = Some s3" using s0 by (simp add: writer_step_def s2_def s3_def)
  from st [OF r2 this] have r3: "log_reach two_writers ([line1, line2], s3)" .
  define s4 where "s4 = s3\<lparr>locked := (locked s3)(1 \<mapsto> 0), running := [?w1 (tl ?e1), ?w2 []]\<rparr>"
  have "writer_step 0 s3 = Some s4" by (simp add: writer_step_def s3_def s4_def)
  from st [OF r3 this] have r4: "log_reach two_writers ([line1, line2], s4)" .
  define s5 where "s5 = s4\<lparr>disk := [line2, line1], running := [?w1 [Ev_unlock 1], ?w2 []]\<rparr>"
  have "disk s4 = [line2]" by (simp add: s4_def s3_def s2_def)
  then have "writer_step 0 s4 = Some s5" by (simp add: writer_step_def s4_def s5_def)
  from st [OF r4 this] show ?thesis by (intro exI [of _ s5]) (simp add: s5_def line1_def line2_def)
qed

text \<open>
  The first \<^verbatim>\<open>rf_log\<close> of a plugin that has not called \<^verbatim>\<open>rf_log_config\<close> compares its level with an
  uninitialised variable; the call adds a configuration, so that the next one gets the default -1.
\<close>

theorem first_log_level_uninitialised:
  assumes "is_plugin amx" "amx \<noteq> 0" "prms amx = None"
  shows "\<exists>prms'. get_log_level is_plugin mk amx prms = (Inl UB_uninitialised, prms')
    \<and> get_log_level is_plugin mk amx prms' = (Inr (- 1), prms')"
  using assms by (simp add: get_log_level_def get_config_def add_config_def split: prod.split)

theorem first_log_level_uninitialised_witness:
  "fst (get_log_level (\<lambda>_. True) (\<lambda>_ p n. (p, n)) 7 (\<lambda>_. None)) = Inl UB_uninitialised"
  using first_log_level_uninitialised [of "\<lambda>_. True" 7 "\<lambda>_. None" "\<lambda>_ p n. (p, n)"] by auto

end
