(* ===== verification/Log_Shutdown.thy ===== *)
theory Log_Shutdown
  imports Log_Threads
begin

text \<open>
  The end of a map for the log manager of \<^verbatim>\<open>refsapi_log_mngr.h\<close>: \<^verbatim>\<open>close_all\<close>, which writes what is
  buffered, waits for the writers and closes the files, and the natives of the plugins around it.
\<close>

section \<open>Closing files\<close>

text \<open>\<^verbatim>\<open>close_file\<close> takes the file of a plugin out of both lists; \<^verbatim>\<open>close\<close> deletes it.\<close>

definition close_file :: "nat \<Rightarrow> log_files \<Rightarrow> log_files" where
  "close_file amx fs = fs(amx := None)"

lemma get_file_closes: "fs amx = Some f \<Longrightarrow> \<not> exists (lf_name f) \<Longrightarrow> get_file exists amx fs = (False, close_file amx fs)"
  by (simp add: get_file_def close_file_def)

text \<open>
  \<^verbatim>\<open>close_all\<close> holds the mutex of the buffer from its first line to its last: no line is logged, and the
  main thread does not write to disk.  Its result of \<^verbatim>\<open>write_to_disk\<close> is not looked at.
\<close>

definition close_all_begin :: "log_conf \<Rightarrow> log_mngr \<Rightarrow> log_mngr" where
  "close_all_begin c st = snd (write_to_disk c st)"

text \<open>
  While it waits, writers go on, and the main thread may join those that have ended.  The wait is over
  when no writer runs.
\<close>

inductive closing :: "log_mngr \<Rightarrow> log_mngr \<Rightarrow> bool" where
  close_writer: "running st \<noteq> [] \<Longrightarrow> writer_step i st = Some st' \<Longrightarrow> closing st st'"
| close_join: "running st \<noteq> [] \<Longrightarrow> m_finished st \<noteq> [] \<Longrightarrow> closing st (join_finished st)"

inductive_cases closingE: "closing st st'"

definition close_all_end :: "log_files \<Rightarrow> plugin_prms \<Rightarrow> log_files \<times> plugin_prms" where
  "close_all_end fs prms = ((\<lambda>_. None), (\<lambda>_. None))"

section \<open>The wait ends\<close>

text \<open>What is still to do: the events of the writers, their ends, and the joins.\<close>

definition work :: "log_mngr \<Rightarrow> nat" where
  "work st = (\<Sum>w\<leftarrow>running st. case snd w of None \<Rightarrow> 0 | Some evs \<Rightarrow> 2 * length evs + 2) + (if m_finished st = [] then 0 else 1)"

lemma work_split:
  "i < length rs \<Longrightarrow> (\<Sum>w\<leftarrow>rs. f w) = (\<Sum>w\<leftarrow>take i rs. f w) + f (rs ! i) + (\<Sum>w\<leftarrow>drop (Suc i) rs. f w :: nat)"
  using id_take_nth_drop [of i rs] by (metis (no_types, lifting) add.assoc list.simps(9) map_append sum_list.Cons sum_list.append)

lemma do_event_running: "do_event tid e st = Some st' \<Longrightarrow> running st' = running st \<and> m_finished st' = m_finished st"
  by (cases e) (auto split: if_splits)

lemma writer_step_work:
  assumes "writer_step i st = Some st'"
  shows "work st' < work st"
proof -
  let ?f = "\<lambda>w :: nat \<times> log_event list option. case snd w of None \<Rightarrow> 0 | Some evs \<Rightarrow> 2 * length evs + 2"
  have i: "i < length (running st)"
    using assms by (simp add: writer_step_def split: if_splits)
  obtain tid evs where w: "running st ! i = (tid, Some evs)"
    using assms i by (cases "running st ! i") (auto simp: writer_step_def split: option.splits)
  show ?thesis
  proof (cases evs)
    case Nil
    then have "running st' = take i (running st) @ drop (Suc i) (running st)" "m_finished st' \<noteq> []"
      using assms i w by (auto simp: writer_step_def)
    then show ?thesis
      using work_split [OF i, of ?f] w Nil by (simp add: work_def)
  next
    case (Cons e es)
    then obtain s where s: "do_event tid e st = Some s" "st' = s\<lparr>running := (running s)[i := (tid, Some es)]\<rparr>"
      using assms i w by (auto simp: writer_step_def)
    have "running st' = (running st)[i := (tid, Some es)]" "m_finished st' = m_finished st"
      using s do_event_running [OF s(1)] by simp_all
    then show ?thesis
      using work_split [OF i, of ?f] work_split [of i "(running st)[i := (tid, Some es)]" ?f] i w Cons
      by (simp add: work_def)
  qed
qed

lemma closing_work: "closing st st' \<Longrightarrow> work st' < work st"
proof (elim closingE)
  show "m_finished st \<noteq> [] \<Longrightarrow> st' = join_finished st \<Longrightarrow> work st' < work st"
    by (simp add: work_def join_finished_def)
qed (rule writer_step_work)

lemma closing_buffer: "closing st st' \<Longrightarrow> l_buffer st' = l_buffer st"
proof (elim closingE)
  fix i
  assume "writer_step i st = Some st'"
  moreover have "do_event tid e st = Some s \<Longrightarrow> l_buffer s = l_buffer st" for tid e s
    by (cases e) (auto split: if_splits)
  ultimately show ?thesis
    by (auto simp: writer_step_def split: if_splits option.splits list.splits prod.splits)
qed (simp add: join_finished_def)

lemma closing_log_step: "closing st st' \<Longrightarrow> log_step c (acc, st) (acc, st')"
  by (auto elim!: closingE intro: log_step.intros)

lemma closings:
  assumes "closing\<^sup>*\<^sup>* st st'" "log_reach c (acc, st)"
  shows "log_reach c (acc, st') \<and> l_buffer st' = l_buffer st"
  using assms by (induction rule: rtranclp_induct) (auto simp: closing_buffer intro: log_reach.step closing_log_step)

lemma closing_ends: "\<exists>st'. closing\<^sup>*\<^sup>* st st' \<and> (\<forall>s. \<not> closing st' s)"
proof (induction "work st" arbitrary: st rule: less_induct)
  case less
  show ?case
  proof (cases "\<exists>s. closing st s")
    case True
    then obtain s where s: "closing st s"
      by blast
    then obtain st' where "closing\<^sup>*\<^sup>* s st'" "\<forall>s. \<not> closing st' s"
      using less closing_work by blast
    with s show ?thesis
      by (meson converse_rtranclp_into_rtranclp)
  qed blast
qed

lemma close_begin_reach: "log_reach c (acc, st) \<Longrightarrow> log_reach c (acc, close_all_begin c st)"
  unfolding close_all_begin_def by (rule log_reach.step, assumption, rule main_write, rule prod.collapse [symmetric])

lemma close_waits:
  assumes "conf_ok c" "log_reach c (acc, st)" "\<forall>s. \<not> closing st s"
  shows "running st = []"
  using assms close_writer log_writers_progress by (metis (no_types, lifting))



section \<open>The native that logs\<close>

text \<open>\<^verbatim>\<open>rf_log\<close>: the level is looked at first, the line is formatted only if it passes.\<close>

definition rf_log ::
  "log_conf \<Rightarrow> (nat \<Rightarrow> bool) \<Rightarrow> (nat \<Rightarrow> wstring \<Rightarrow> wstring \<Rightarrow> wstring \<times> wstring) \<Rightarrow> int \<Rightarrow> nat \<Rightarrow> nat \<Rightarrow> wstring \<Rightarrow>
   plugin_prms \<times> log_mngr \<Rightarrow> log_error + bool \<times> plugin_prms \<times> log_mngr" where
  "rf_log c is_plugin mk_path log_level now amx str ps =
     (case ps of (prms, st) \<Rightarrow>
      case get_log_level is_plugin mk_path amx prms of
        (lvl, prms1) \<Rightarrow>
          bind_r lvl (\<lambda>l.
            if l AND log_level = 0 then Inr (False, prms1, st)
            else if \<not> is_plugin amx then Inr (True, prms1, st)
            else (case get_config is_plugin mk_path amx prms1 of
                    (ok, _, prms2) \<Rightarrow> Inr (True, prms2, snd (write_file c ok now amx str st)))))"

text \<open>
  The native says that the line is logged also when the buffer is full, the writers are at their limit
  and the line is lost.
\<close>

lemma rf_log_full:
  assumes "prms amx = Some p" "amx \<noteq> 0" "pp_level p AND log_level \<noteq> 0" "is_plugin amx"
    and "MAX_LOG_BUFFER_SIZE \<le> length (l_buffer st)" "max_writer_threads c \<le> get_num_threads st" "num_productivity st = 0"
  shows "rf_log c is_plugin mk_path log_level now amx str (prms, st) = Inr (True, prms, st)"
proof -
  have "l_buffer st \<noteq> []"
    using assms(5) by (auto simp: MAX_LOG_BUFFER_SIZE_def)
  then have "write_to_disk c st = (False, st)"
    using assms(6,7) by (simp add: write_to_disk_def)
  then show ?thesis
    using assms(1-5) by (simp add: rf_log_def get_log_level_def get_config_def write_file_def)
qed

end
