(* ===== verification/Map_Lifecycle.thy ===== *)
theory Map_Lifecycle
  imports Module_Hooks Mysql_Props Cvar_Inv Log_Shutdown Entities_Props Nick_Similarity
begin

text \<open>
  The life of a map in \<^verbatim>\<open>main.cpp\<close>: what the module does when a server is activated and deactivated,
  over the state of all its managers.  Here the managers meet: the end of a map stops the timers, the
  queries and the log, frees the cvars and empties the registries, in the order of the code.
\<close>

section \<open>The state of the module\<close>

datatype map_hook =
    SV_DropClient_RH | CreateFakeClient_RH | R_ExecuteServerStringCmd
  | CBasePlayer_Killed_RG | CSGameRules_CheckMapConditions_RG | CBasePlayer_AddPlayerItem_RG
  | CBasePlayer_RemovePlayerItem_RG | CBasePlayer_Spawn_RG

record server =
  sv_module :: module           \<comment> \<open>\<^verbatim>\<open>g_Clients\<close>, \<^verbatim>\<open>g_PlayersNum\<close>, \<^verbatim>\<open>g_recoil_mngr\<close>, \<^verbatim>\<open>g_timer_mngr\<close>\<close>
  sv_sql :: sqlmgr
  sv_cvars :: cvar_mngr
  sv_log :: log_mngr
  sv_files :: log_files
  sv_prms :: plugin_prms
  sv_tries :: tries
  sv_ngrams :: ngram_cache
  sv_hooks :: "map_hook list"
  sv_buyzone :: bool            \<comment> \<open>\<^verbatim>\<open>r_bMapHasBuyZone\<close>\<close>
  sv_msg_ids :: "int list"
  sv_edicts :: "int option"     \<comment> \<open>\<^verbatim>\<open>g_pEdicts\<close>\<close>
  sv_map_name :: string         \<comment> \<open>\<^verbatim>\<open>g_szMapName\<close>\<close>
  sv_spawn :: bool              \<comment> \<open>\<^verbatim>\<open>pfnSpawn\<close>, \<^verbatim>\<open>pfnKeyValue\<close> and \<^verbatim>\<open>pfnResetGlobalState\<close> are hooked\<close>
  sv_key_value :: bool
  sv_reset :: bool

definition USER_MSGS :: "string list" where
  "USER_MSGS = [''SendAudio'', ''StatusIcon'', ''ArmorType'', ''ItemStatus'', ''BarTime'', ''BarTime2'']"

section \<open>The name of the map\<close>

definition save_map_name :: "string \<Rightarrow> string" where
  "save_map_name mapname = take 31 mapname"

definition KeyValue :: "int \<Rightarrow> string \<Rightarrow> string \<Rightarrow> server \<Rightarrow> server" where
  "KeyValue pent classname mapname sv =
     (if classname = ''worldspawn''
      then sv\<lparr>sv_map_name := save_map_name mapname, sv_edicts := Some pent, sv_key_value := False\<rparr>
      else sv)"

definition DispatchSpawn :: "int \<Rightarrow> server \<Rightarrow> server" where
  "DispatchSpawn first_edict sv = sv\<lparr>sv_edicts := Some first_edict\<rparr>"

text \<open>The first component is the name \<^verbatim>\<open>g_RehldsData\<close> keeps.\<close>

definition ResetGlobalState :: "string \<times> server \<Rightarrow> string \<times> server" where
  "ResetGlobalState ns =
     (case ns of (name, sv) \<Rightarrow>
        if name \<noteq> sv_map_name sv then (sv_map_name sv, sv\<lparr>sv_reset := False\<rparr>) else (name, sv))"

section \<open>Activation\<close>

definition register_map_hooks :: "map_hook list \<Rightarrow> map_hook list" where
  "register_map_hooks hooks =
     hooks @ [SV_DropClient_RH, CreateFakeClient_RH, R_ExecuteServerStringCmd,
              CBasePlayer_Killed_RG, CSGameRules_CheckMapConditions_RG, CBasePlayer_AddPlayerItem_RG,
              CBasePlayer_RemovePlayerItem_RG, CBasePlayer_Spawn_RG]"

definition ServerActivate_Post :: "(string \<Rightarrow> int) \<Rightarrow> server \<Rightarrow> server" where
  "ServerActivate_Post get_user_msg_id sv =
     sv\<lparr>sv_msg_ids := map get_user_msg_id USER_MSGS,
        sv_buyzone := entities (sv_tries sv) ''func_buyzone'' \<noteq> None,
        sv_hooks := register_map_hooks (sv_hooks sv)\<rparr>"

section \<open>Deactivation\<close>

definition unregister_map_hooks :: "map_hook list \<Rightarrow> map_hook list" where
  "unregister_map_hooks hooks =
     fold remove1 [SV_DropClient_RH, CreateFakeClient_RH, R_ExecuteServerStringCmd,
       CBasePlayer_Killed_RG, CSGameRules_CheckMapConditions_RG, CBasePlayer_AddPlayerItem_RG,
       CBasePlayer_RemovePlayerItem_RG, CBasePlayer_Spawn_RG] hooks"

text \<open>\<^verbatim>\<open>memset\<close> of \<^verbatim>\<open>g_Clients\<close> and \<^verbatim>\<open>g_PlayersNum\<close>\<close>

definition clear_players :: "game \<Rightarrow> game" where
  "clear_players g = g\<lparr>clients := (\<lambda>_. \<lparr>cl_connected = False, cl_bot = False, cl_team = 0\<rparr>), players_num := (\<lambda>_. 0)\<rparr>"

text \<open>The loop over \<^verbatim>\<open>entities\<close> comes after the map is emptied and finds nothing.\<close>

definition clear_tries :: "tries \<Rightarrow> tries" where
  "clear_tries tr = tr\<lparr>classnames := (\<lambda>_. None), entities := (\<lambda>_. None), wp_entities := [],
     player_entities := (\<lambda>i. if 0 \<le> i \<and> i \<le> 32 then [] else player_entities tr i)\<rparr>"

text \<open>Up to the wait of \<^verbatim>\<open>g_log_mngr.close_all\<close>\<close>

definition deactivate_begin :: "log_conf \<Rightarrow> server \<Rightarrow> server" where
  "deactivate_begin c sv =
     (let sv1 = sv\<lparr>sv_ngrams := (\<lambda>_. None)\<rparr>;
          sv2 = sv1\<lparr>sv_module := (sv_module sv1)\<lparr>md_recoil := recoil_disable (md_recoil (sv_module sv1))\<rparr>\<rparr>;
          sv3 = sv2\<lparr>sv_sql := stop_sql (sv_sql sv2)\<rparr>;
          sv4 = sv3\<lparr>sv_cvars := clear_cvars_all (sv_cvars sv3)\<rparr>
      in sv4\<lparr>sv_log := close_all_begin c (sv_log sv4)\<rparr>)"

text \<open>What follows the wait\<close>

definition deactivate_end :: "server \<Rightarrow> timer_error + server" where
  "deactivate_end sv =
     (case close_all_end (sv_files sv) (sv_prms sv) of
        (files, prms) \<Rightarrow>
          let sv1 = sv\<lparr>sv_files := files, sv_prms := prms\<rparr>
          in bind_r (stop_all (md_timers (sv_module sv1))) (\<lambda>tm.
               let sv2 = sv1\<lparr>sv_module := (sv_module sv1)\<lparr>md_timers := tm\<rparr>\<rparr>;
                   sv3 = sv2\<lparr>sv_edicts := None, sv_spawn := True, sv_key_value := True,
                             sv_hooks := unregister_map_hooks (sv_hooks sv2), sv_buyzone := False\<rparr>;
                   sv4 = sv3\<lparr>sv_module := (sv_module sv3)\<lparr>md_game := clear_players (md_game (sv_module sv3))\<rparr>\<rparr>
               in Inr (sv4\<lparr>sv_tries := clear_tries (sv_tries sv4)\<rparr>)))"

text \<open>In between, the writers of the log go on until none is left.\<close>

inductive ServerDeactivate_Post :: "log_conf \<Rightarrow> server \<Rightarrow> timer_error + server \<Rightarrow> bool" for c where
  deactivate: "closing\<^sup>*\<^sup>* (sv_log (deactivate_begin c sv)) lg \<Longrightarrow> \<forall>s. \<not> closing lg s \<Longrightarrow>
    ServerDeactivate_Post c sv (deactivate_end ((deactivate_begin c sv)\<lparr>sv_log := lg\<rparr>))"

inductive_cases ServerDeactivateE: "ServerDeactivate_Post c sv r"

section \<open>What is left of a map\<close>

definition players_clean :: "int \<Rightarrow> module \<Rightarrow> bool" where
  "players_clean mc md \<longleftrightarrow> counts_inv mc (md_game md) \<and> (\<forall>i. \<not> cl_connected (clients (md_game md) i))
     \<and> (\<forall>cv w. get_weapon_recoil cv w (md_recoil md) = Fin 1)
     \<and> cleared (md_timers md) \<and> timers_inv (md_timers md)"

definition sql_clean :: "sqlmgr \<Rightarrow> bool" where
  "sql_clean st \<longleftrightarrow> m_frame_queries st = [] \<and> conns st = [] \<and> m_conn_prms st = []
     \<and> (\<forall>(k, q) \<in> set (m_queries st). q_aborted q)"

definition registries_clean :: "server \<Rightarrow> bool" where
  "registries_clean sv \<longleftrightarrow> cvars_ok (sv_cvars sv) \<and> cvar_mngr.heap (sv_cvars sv) = (\<lambda>_. None)
     \<and> entities (sv_tries sv) = (\<lambda>_. None) \<and> classnames (sv_tries sv) = (\<lambda>_. None) \<and> wp_entities (sv_tries sv) = []
     \<and> (\<forall>i. 0 \<le> i \<and> i \<le> 32 \<longrightarrow> player_entities (sv_tries sv) i = []) \<and> sv_ngrams sv = (\<lambda>_. None)"

definition log_clean :: "server \<Rightarrow> bool" where
  "log_clean sv \<longleftrightarrow> running (sv_log sv) = [] \<and> sv_files sv = (\<lambda>_. None) \<and> sv_prms sv = (\<lambda>_. None)"

definition map_over :: "int \<Rightarrow> server \<Rightarrow> bool" where
  "map_over mc sv \<longleftrightarrow> players_clean mc (sv_module sv) \<and> sql_clean (sv_sql sv) \<and> registries_clean sv \<and> log_clean sv"

lemma get_weapon_recoil_disabled: "\<not> is_enabled st \<Longrightarrow> get_weapon_recoil cv w st = Fin 1"
  by (simp add: get_weapon_recoil_def split: option.split)

lemma recoil_disable_enabled: "\<not> is_enabled (recoil_disable st)"
  by (simp add: recoil_disable_def)

lemma clear_players_inv: "counts_inv mc g \<Longrightarrow> counts_inv mc (clear_players g)"
  by (simp add: counts_inv_def clear_players_def members_def)

lemma stop_sql_clean: "sql_clean (stop_sql st)"
  by (auto simp: sql_clean_def stop_sql_def Let_def sm_map_def)

lemma unregister_register:
  assumes "set hooks \<inter> {SV_DropClient_RH, CreateFakeClient_RH, R_ExecuteServerStringCmd,
    CBasePlayer_Killed_RG, CSGameRules_CheckMapConditions_RG, CBasePlayer_AddPlayerItem_RG,
    CBasePlayer_RemovePlayerItem_RG, CBasePlayer_Spawn_RG} = {}"
  shows "unregister_map_hooks (register_map_hooks hooks) = hooks"
  using assms by (simp add: unregister_map_hooks_def register_map_hooks_def remove1_append remove1_idem)

lemma unregister_registered: "unregister_map_hooks (register_map_hooks []) = []"
  by (rule unregister_register) simp

lemma deactivate_end_returns:
  assumes "timers_inv (md_timers (sv_module sv))"
  obtains tm sv' where "deactivate_end sv = Inr sv'" "stop_all (md_timers (sv_module sv)) = Inr tm" "cleared tm" "timers_inv tm"
    "sv_module sv' = (sv_module sv)\<lparr>md_timers := tm, md_game := clear_players (md_game (sv_module sv))\<rparr>"
    "sv_sql sv' = sv_sql sv" "sv_cvars sv' = sv_cvars sv" "sv_log sv' = sv_log sv" "sv_ngrams sv' = sv_ngrams sv"
    "sv_files sv' = (\<lambda>_. None)" "sv_prms sv' = (\<lambda>_. None)" "sv_tries sv' = clear_tries (sv_tries sv)"
    "sv_hooks sv' = unregister_map_hooks (sv_hooks sv)" "sv_buyzone sv' = False"
proof -
  obtain tm where tm: "stop_all (md_timers (sv_module sv)) = Inr tm" "cleared tm" "timers_inv tm"
    using stop_all_cleared [OF assms] by blast
  have "deactivate_end sv = Inr (sv\<lparr>sv_files := \<lambda>_. None, sv_prms := \<lambda>_. None, sv_edicts := None, sv_spawn := True,
      sv_key_value := True, sv_hooks := unregister_map_hooks (sv_hooks sv), sv_buyzone := False,
      sv_module := (sv_module sv)\<lparr>md_timers := tm, md_game := clear_players (md_game (sv_module sv))\<rparr>,
      sv_tries := clear_tries (sv_tries sv)\<rparr>)"
    by (simp add: deactivate_end_def close_all_end_def tm(1) Let_def)
  then show thesis
    by (rule that [OF _ tm]) simp_all
qed

lemma deactivate_begin_parts:
  "sv_module (deactivate_begin c sv) = (sv_module sv)\<lparr>md_recoil := recoil_disable (md_recoil (sv_module sv))\<rparr>"
  "sv_sql (deactivate_begin c sv) = stop_sql (sv_sql sv)" "sv_cvars (deactivate_begin c sv) = clear_cvars_all (sv_cvars sv)"
  "sv_log (deactivate_begin c sv) = close_all_begin c (sv_log sv)" "sv_ngrams (deactivate_begin c sv) = (\<lambda>_. None)"
  "sv_hooks (deactivate_begin c sv) = sv_hooks sv" "sv_tries (deactivate_begin c sv) = sv_tries sv"
  by (simp_all add: deactivate_begin_def Let_def)

text \<open>A map as it runs, and as it was activated: the invariants of the managers.\<close>

definition map_running :: "int \<Rightarrow> log_conf \<Rightarrow> data list \<Rightarrow> server \<Rightarrow> bool" where
  "map_running mc c acc sv \<longleftrightarrow> conf_ok c \<and> log_reach c (acc, sv_log sv) \<and> timers_inv (md_timers (sv_module sv))
     \<and> cvars_ok (sv_cvars sv) \<and> counts_inv mc (md_game (sv_module sv)) \<and> sv_hooks sv = register_map_hooks []"


text \<open>A map with a player, a timer and two writers at work.\<close>

definition busy_server :: "log_mngr \<Rightarrow> server" where
  "busy_server lg = ServerActivate_Post (\<lambda>_. 0)
     \<lparr>sv_module = demo_module, sv_sql = sqlmgr_init 4, sv_cvars = cvar_init (\<lambda>_. None) (\<lambda>_. A_int 0), sv_log = lg,
      sv_files = (\<lambda>_. None), sv_prms = (\<lambda>_. None), sv_tries = tries_init, sv_ngrams = (\<lambda>_. None), sv_hooks = [],
      sv_buyzone = False, sv_msg_ids = [], sv_edicts = Some 0, sv_map_name = ''de_dust'', sv_spawn = True,
      sv_key_value = False, sv_reset = True\<rparr>"

lemma busy_server_runs:
  assumes "log_reach two_writers ([line1, line2], lg)"
  shows "map_running 32 two_writers [line1, line2] (busy_server lg)"
proof -
  have "cvars_ok (cvar_init (\<lambda>_. None) (\<lambda>_. A_int 0))"
    by (simp add: cvars_ok_def registry_ok_def lists_ok_def cvar_init_def names_ok_def)
  moreover have "counts_inv 32 (md_game demo_module)"
    unfolding demo_module_def module.select_convs
    by (rule game_reach_inv [OF game_reach.put [OF game_reach.init]]) (simp add: game_init_def)
  ultimately show ?thesis
    using assms two_writers_ok demo_module_inv
    by (simp add: map_running_def busy_server_def ServerActivate_Post_def)
qed


end
