(* ===== verification/Message_Types.thy ===== *)
theory Message_Types
  imports Clients_Props
begin

text \<open>
  The handlers of messages read their arguments through an untyped pointer.  Typed messages, the ones
  whose arguments have the types the handler reads, never make a handler read an argument as another
  type, and they keep the teams of the players within the array of the counts.
\<close>

datatype arg_ty = Ty_int | Ty_float | Ty_str

fun type_of_arg :: "msg_arg \<Rightarrow> arg_ty" where
  "type_of_arg (M_int i) = Ty_int"
| "type_of_arg (M_float x) = Ty_float"
| "type_of_arg (M_str s) = Ty_str"
| "type_of_arg M_null = Ty_str"

text \<open>The types of the first arguments a handler reads.\<close>

fun signature :: "hook \<Rightarrow> arg_ty list" where
  "signature H_TeamInfo = [Ty_int, Ty_str]"

fun fits_sig :: "arg_ty list \<Rightarrow> msg_arg list \<Rightarrow> bool" where
  "fits_sig (t # ts) (a # as) = (type_of_arg a = t \<and> fits_sig ts as)"
| "fits_sig _ _ = True"

definition typed_msg :: "game \<Rightarrow> int \<Rightarrow> msg_arg list \<Rightarrow> bool" where
  "typed_msg g ty args = (case mod_msgs g ty of None \<Rightarrow> True | Some h \<Rightarrow> fits_sig (signature h) args)"

lemma type_of_arg_cases:
  "type_of_arg a = Ty_int \<longleftrightarrow> (\<exists>i. a = M_int i)"
  "type_of_arg a = Ty_str \<longleftrightarrow> (\<exists>s. a = M_str s) \<or> a = M_null"
  by (cases a; simp)+

section \<open>Progress\<close>

lemma null_writes: "msg_function g = None \<Longrightarrow> write_args mc w args g = Inr g"
  by (induction args) (simp_all add: R_Write_Post_def call_hook_def)

lemma typed_writes:
  assumes "msg_function g = Some H_TeamInfo" "m_state g = 0" "fits_sig [Ty_int, Ty_str] args"
  shows "\<exists>g'. write_args mc w args g = Inr g'"
proof (cases args)
  case (Cons a as)
  then obtain i where a: "a = M_int i" using assms(3) by (auto simp: type_of_arg_cases)
  let ?g1 = "g\<lparr>m_state := 1, info_id := i\<rparr>"
  have 1: "write_args mc w args g = write_args mc w as ?g1"
    using assms by (simp add: Cons a R_Write_Post_def call_hook_def Client_TeamInfo_def Let_def)
  show ?thesis
  proof (cases as)
    case (Cons b bs)
    with assms(3) \<open>args = a # as\<close> have b: "(\<exists>s. b = M_str s) \<or> b = M_null" by (auto simp: type_of_arg_cases)
    have "\<exists>g2. R_Write_Post mc w b ?g1 = Inr g2 \<and> msg_function g2 = Some H_TeamInfo \<and> m_state g2 = 2"
      using b assms(1) by (auto simp: R_Write_Post_def call_hook_def Client_TeamInfo_def Let_def)
    then obtain g2 where g2: "R_Write_Post mc w b ?g1 = Inr g2" "msg_function g2 = Some H_TeamInfo" "m_state g2 = 2"
      by blast
    then show ?thesis using write_rest [of g2 mc w bs] by (simp add: 1 Cons)
  qed (simp add: 1)
qed simp

section \<open>Preservation\<close>

lemma writes_reach: "write_args mc w args g = Inr g' \<Longrightarrow> game_reach mc g \<Longrightarrow> game_reach mc g'"
  by (induction args arbitrary: g) (auto simp: bind_r_eq_Inr intro: write_msg)

lemma no_end_hook: "game_reach mc g \<Longrightarrow> msg_endfunction g = None"
  using game_reach_inv [of mc g] by (simp add: counts_inv_def)

text \<open>
  C31: In every reachable state a typed message is dispatched without reading an argument as another
  type; the state after it is reachable and keeps every team within the four slots of the teams.
\<close>

theorem message_type_sound:
  assumes "game_reach mc g" "typed_msg g ty args"
  shows "\<exists>g'. message mc w ty args g = Inr g' \<and> game_reach mc g' \<and> (\<forall>i. cl_team (clients g' i) < 4)"
proof -
  let ?g = "R_MessageBegin_Post ty g"
  have b: "game_reach mc ?g" by (rule game_reach.begin_msg [OF assms(1)])
  have "\<exists>g'. write_args mc w args ?g = Inr g'"
  proof (cases "mod_msgs g ty")
    case None
    then show ?thesis by (simp add: null_writes R_MessageBegin_Post_def)
  next
    case (Some h)
    then have h: "h = H_TeamInfo" by (cases h)
    show ?thesis
      by (rule typed_writes) (use assms(2) Some in \<open>simp_all add: h typed_msg_def R_MessageBegin_Post_def\<close>)
  qed
  then obtain g' where g': "write_args mc w args ?g = Inr g'" by blast
  note r = writes_reach [OF g' b]
  have "message mc w ty args g = Inr g'"
    using g' no_end_hook [OF r] by (simp add: message_def R_MessageEnd_Post_def call_hook_def)
  moreover have "cl_team (clients g' i) < 4" for i using game_reach_inv [OF r] by (simp add: counts_inv_def)
  ultimately show ?thesis using r by blast
qed

theorem message_type_sound_witness:
  "\<exists>g'. message 32 (\<lambda>_. None) 86 [M_int 1, M_str ''CT'', M_float 2] (R_RegUserMsg_Post ''TeamInfo'' 86 game_init) = Inr g'
     \<and> (\<forall>i. cl_team (clients g' i) < 4)"
proof -
  let ?g = "R_RegUserMsg_Post ''TeamInfo'' 86 game_init"
  have "game_reach 32 ?g" by (rule game_reach.register [OF game_reach.init])
  moreover have "typed_msg ?g 86 [M_int 1, M_str ''CT'', M_float 2]"
    by (simp add: typed_msg_def R_RegUserMsg_Post_def game_init_def)
  ultimately show ?thesis using message_type_sound [of 32 ?g 86 _ "\<lambda>_. None"] by blast
qed

end
