(* ===== verification/Mysql_Race.thy ===== *)
theory Mysql_Race
  imports Mysql_Props
begin

text \<open>
  What the threads of the query manager can do to each other: a worker never touches a deleted query,
  the number of running threads is bounded, and the interleaving of \<^verbatim>\<open>stop\<close> with a worker that leaves
  a deleted query in the frame queue.  Then the tuples of connection parameters and the lookup of
  columns by name.
\<close>

section \<open>Workers and their queries\<close>

lemma worker_owns:
  assumes "sql_reachable hw n (Inr (run, st))" "n < 2 ^ 64" "run k = Some pc"
  obtains q where "map_of (m_queries st) k = Some q" "query_inv (Some pc) q"
proof -
  have i: "sql_inv run st" using sql_reachable_inv [OF assms(1,2)] by (simp add: sql_sys_inv_def)
  with assms(3) sql_inv_run obtain q where q: "map_of (m_queries st) k = Some q" by blast
  from sql_invD [OF i q] assms(3) that [OF q] show thesis by simp
qed

lemma get_result_no_dangling: "get_result env b q st \<noteq> Inl UB_dangling_query"
  by (simp add: get_result_def Let_def split: option.split)

lemma run_query_no_dangling:
  assumes "map_of (m_queries st) k = Some q"
  shows "run_query env pc k st \<noteq> Inl UB_dangling_query"
  using assms get_result_no_dangling
  by (cases pc) (auto simp: run_query_def bind_r_def Let_def split: sum.splits prod.splits)


definition to_worker :: "sql_act list" where
  "to_worker = [A_connect ''db'', A_push ''x'' 5, A_poll (\<lambda>_. Some 9)]"

lemma to_worker_run:
  "\<exists>run st. sql_run to_worker (0, Inr (\<lambda>_. None, sqlmgr_init 2)) = Some (1, Inr (run, st))
     \<and> run (5, 1) = Some R_start"
  unfolding to_worker_def
  apply (rule exI, rule exI, rule conjI)
   apply (simp add: sql_eval)
  apply simp
  done


section \<open>Stopping while a worker is about to queue its query\<close>

definition stop_race :: "sql_act list" where
  "stop_race = [A_connect ''db'', A_push ''x'' 5, A_poll (\<lambda>_. Some 9), A_worker good_server (5, 1),
     A_worker good_server (5, 1), A_stop, A_worker good_server (5, 1), A_poll (\<lambda>_. Some 9),
     A_frame no_handler]"

lemma stop_race_run:
  "sql_run stop_race (0, Inr (\<lambda>_. None, sqlmgr_init 2)) = Some (1, Inl UB_dangling_query)"
  unfolding stop_race_def by (simp add: sql_eval)

text \<open>
  \<^verbatim>\<open>stop\<close> can race with a worker that has passed its last check: the worker then queues its
  aborted query for a frame, \<^verbatim>\<open>poll_query\<close> deletes the query, aborted and framed as it is, and the next
  server frame uses the deleted query.
\<close>

theorem stop_leaves_deleted_query_framed:
  "\<exists>n. sql_reachable 2 n (Inl UB_dangling_query)"
  using sql_run_start [OF stop_race_run] by blast

section \<open>The number of threads\<close>

lemma reap_thread_count:
  "reap_thread q a = Inr a1 \<Longrightarrow> a_num a1 - a_fin a1 \<le> a_num a - a_fin a"
  by (auto simp: reap_thread_def split: if_splits option.splits)

lemma poll_done_count:
  "poll_done k q a = (q', a1) \<Longrightarrow> a_num a1 = a_num a \<and> a_fin a1 = a_fin a"
  by (auto simp: poll_done_def Let_def split: if_splits)

lemma poll_one_count:
  assumes "poll_one s mx k q a = Inr (q', a1)" "a_num a - a_fin a \<le> int (mx * 2 ^ MAX_QUERY_PRIORITY)"
  shows "a_num a1 - a_fin a1 \<le> int (mx * 2 ^ MAX_QUERY_PRIORITY)"
proof -
  have "mx * 2 ^ (MAX_QUERY_PRIORITY - q_pri q) \<le> mx * 2 ^ MAX_QUERY_PRIORITY" by simp
  then have "int (mx * 2 ^ (MAX_QUERY_PRIORITY - q_pri q)) \<le> int (mx * 2 ^ MAX_QUERY_PRIORITY)"
    using of_nat_le_iff by blast
  then have step: "a_num a - a_fin a < int (mx * 2 ^ (MAX_QUERY_PRIORITY - q_pri q)) \<Longrightarrow>
      a_num a + 1 - a_fin a \<le> int (mx * 2 ^ MAX_QUERY_PRIORITY)"
    by linarith
  from assms show ?thesis
    by (auto intro: step simp: poll_one_def bind_r_def threads_count_def simp del: of_nat_mult
        split: if_splits sum.splits dest!: reap_thread_count poll_done_count)
qed

lemma poll_scan_count:
  "poll_scan s mx m a = Inr (m', a1) \<Longrightarrow> a_num a - a_fin a \<le> int (mx * 2 ^ MAX_QUERY_PRIORITY) \<Longrightarrow>
   a_num a1 - a_fin a1 \<le> int (mx * 2 ^ MAX_QUERY_PRIORITY)"
proof (induction m arbitrary: m' a)
  case (Cons e m)
  obtain k q where e: "e = (k, q)" by (cases e)
  from Cons.prems(1) obtain q' a2 m2 where "poll_one s mx k q a = Inr (q', a2)"
    "poll_scan s mx m a2 = Inr (m2, a1)"
    by (auto simp: e bind_r_def split: sum.splits)
  with Cons.IH Cons.prems(2) poll_one_count show ?case by blast
qed simp

lemma start_queries_count: "start_queries tids ks m ts n = Inr (m', ts', n', r) \<Longrightarrow> n' \<le> n"
proof (induction tids ks m ts n arbitrary: m' ts' n' r rule: start_queries.induct)
  case (2 tids k ks m ts n)
  show ?case
  proof (cases "tids k")
    case None
    with 2(1) [OF None] 2(3) show ?thesis by fastforce
  next
    case (Some t)
    with 2(2) [OF Some] 2(3) show ?thesis by (auto simp: bind_r_def split: if_splits sum.splits)
  qed
qed simp

lemma poll_query_count:
  assumes "poll_query tids st = Inr (st', ks)"
    "num_threads st - num_finished st \<le> int (max_threads st * 2 ^ MAX_QUERY_PRIORITY)"
  shows "num_threads st' - num_finished st' \<le> int (max_threads st' * 2 ^ MAX_QUERY_PRIORITY)
    \<and> max_threads st' = max_threads st"
proof -
  from assms(1) obtain m a m' ts n where s: "poll_scan (stop_threads st) (max_threads st) (m_queries st)
               \<lparr>a_threads = m_threads st, a_num = num_threads st, a_fin = num_finished st,
                a_finished = [], a_start = []\<rparr> = Inr (m, a)"
    "start_queries tids (a_start a) m (a_threads a) (a_num a) = Inr (m', ts, n, ks)"
    "st' = st\<lparr>m_queries := fold sm_erase (a_finished a) m', m_threads := ts, num_threads := n,
                 num_finished := a_fin a\<rparr>"
    by (auto simp: poll_query_def bind_r_def split: sum.splits)
  from poll_scan_count [OF s(1)] assms(2) start_queries_count [OF s(2)] s(3) show ?thesis by simp
qed

definition threads_bounded :: "sql_sys \<Rightarrow> bool" where
  "threads_bounded s = (case s of Inl e \<Rightarrow> True | Inr (run, st) \<Rightarrow>
     num_threads st - num_finished st \<le> int (max_threads st * 2 ^ MAX_QUERY_PRIORITY)
     \<and> 1 \<le> max_threads st \<and> max_threads st \<le> 4)"

text \<open>Every other operation keeps the number of threads and can only finish some.\<close>

definition no_more_threads :: "sqlmgr \<Rightarrow> sqlmgr \<Rightarrow> bool" where
  "no_more_threads st st' = (num_threads st' = num_threads st \<and> num_finished st \<le> num_finished st'
     \<and> max_threads st' = max_threads st)"

lemma no_more_threads_bounded:
  "no_more_threads st st' \<Longrightarrow> threads_bounded (Inr (run, st)) \<Longrightarrow> threads_bounded (Inr (run', st'))"
  by (auto simp: no_more_threads_def threads_bounded_def)

lemma no_more_threads_refl [simp]: "no_more_threads st st"
  by (simp add: no_more_threads_def)

lemma no_more_threads_trans:
  "no_more_threads a b \<Longrightarrow> no_more_threads b c \<Longrightarrow> no_more_threads a c"
  by (auto simp: no_more_threads_def)

lemma finish_thread_more [simp]: "no_more_threads st (finish_thread k st)"
  by (simp add: no_more_threads_def finish_thread_def)

lemma run_query_more: "run_query env pc k st = Inr (pc', st') \<Longrightarrow> no_more_threads st st'"
  by (cases pc)
     (auto simp: run_query_def bind_r_def Let_def no_more_threads_def finish_thread_def
           split: option.splits if_splits sum.splits prod.splits)

lemma push_query_more: "push_query c q d sz pri t now st = Inr (b, st') \<Longrightarrow> no_more_threads st st'"
  by (auto simp: push_query_def prepare_query_def bind_r_def Let_def no_more_threads_def
           split: option.splits if_splits sum.splits prod.splits)

lemma run_handler_more: "run_handler cs st = Inr st' \<Longrightarrow> no_more_threads st st'"
proof (induction cs st rule: run_handler.induct)
  case (2 c q d sz pri t now cs st)
  from 2(2) obtain b st1 where "push_query c q d sz pri t now st = Inr (b, st1)" "run_handler cs st1 = Inr st'"
    by (auto simp: bind_r_def split: sum.splits)
  with 2(1) push_query_more no_more_threads_trans show ?case by fastforce
qed simp

lemma frame_forward_sql_more:
  assumes "frame_forward_sql h st = Inr st'"
  shows "no_more_threads st st'"
proof (cases "get_frame_query st")
  case (Some x)
  obtain k st1 where x: "get_frame_query st = Some (k, st1)" using Some by (cases x) simp
  then have 1: "no_more_threads st st1"
    by (auto simp: get_frame_query_def no_more_threads_def split: if_splits)
  from assms x have "\<exists>st2. no_more_threads st1 st2 \<and> st' = finish_thread k st2"
    by (auto simp: frame_forward_sql_def bind_r_def split: option.splits if_splits sum.splits
        dest: run_handler_more intro: no_more_threads_refl)
  then obtain st2 where "no_more_threads st1 st2" "st' = finish_thread k st2" by blast
  with 1 no_more_threads_trans show ?thesis using finish_thread_more by blast
qed (use assms in \<open>simp add: frame_forward_sql_def\<close>)

lemma start_frame_sql_more:
  assumes "start_frame_sql h rate st = Inr st'"
  shows "no_more_threads st st'"
proof -
  let ?st = "st\<lparr>sql_frame_rate := rate\<rparr>"
  from assms have "\<exists>st2. (st2 = ?st \<or> frame_forward_sql h ?st = Inr st2)
      \<and> st' = st2\<lparr>sql_frames_count := (sql_frames_count st2 + 1) mod 2 ^ 64\<rparr>"
    unfolding start_frame_sql_def Let_def bind_r_def by (fastforce split: if_splits sum.splits)
  then obtain st2 where "no_more_threads ?st st2"
    "st' = st2\<lparr>sql_frames_count := (sql_frames_count st2 + 1) mod 2 ^ 64\<rparr>"
    using frame_forward_sql_more no_more_threads_refl by blast
  then show ?thesis by (simp add: no_more_threads_def)
qed

lemma threads_bounded_step:
  assumes "sql_step c s s'" "threads_bounded s"
  shows "threads_bounded s'"
  using assms
proof (cases rule: sql_step.cases)
  case (poll run st tids)
  show ?thesis
  proof (cases "poll_query tids st")
    case (Inr x)
    obtain st' ks where x: "poll_query tids st = Inr (st', ks)" using Inr by (cases x) simp
    have "num_threads st - num_finished st \<le> int (max_threads st * 2 ^ MAX_QUERY_PRIORITY)"
      using assms(2) poll by (simp add: threads_bounded_def)
    from poll_query_count [OF x this] assms(2) poll x show ?thesis by (auto simp: threads_bounded_def)
  qed (simp add: poll threads_bounded_def)
next
  case (worker run k pc st env)
  show ?thesis
  proof (cases "run_query env pc k st")
    case (Inr x)
    obtain pc' st' where x: "run_query env pc k st = Inr (pc', st')" using Inr by (cases x) simp
    with no_more_threads_bounded [OF run_query_more [OF x]] assms(2) worker show ?thesis by simp
  qed (simp add: worker threads_bounded_def)
next
  case (push run st conn_id query data sz pri timeout now)
  show ?thesis
  proof (cases "push_query conn_id query data sz pri timeout now st")
    case (Inr x)
    obtain b st' where x: "push_query conn_id query data sz pri timeout now st = Inr (b, st')"
      using Inr by (cases x) simp
    with no_more_threads_bounded [OF push_query_more [OF x]] assms(2) push show ?thesis by simp
  qed (simp add: push threads_bounded_def)
next
  case (frame h st run rate)
  show ?thesis
  proof (cases "start_frame_sql h rate st")
    case (Inr st')
    with no_more_threads_bounded [OF start_frame_sql_more [OF Inr]] assms(2) frame show ?thesis by simp
  qed (simp add: frame threads_bounded_def)
qed (auto simp: threads_bounded_def add_connect_def stop_sql_def Let_def)

lemma sql_reachable_bounded: "sql_reachable hw n s \<Longrightarrow> threads_bounded s"
  by (induction rule: sql_reachable.induct)
     (auto simp: threads_bounded_def [of "Inr (\<lambda>_. None, _)"] sqlmgr_init_def intro: threads_bounded_step)

text \<open>
  Whatever the threads do and however many cores the machine has, at most 128 queries run at the
  same time: \<^verbatim>\<open>max_threads\<close> stays between 1 and 4 and the main thread never starts a query beyond
  \<^verbatim>\<open>max_threads << (MAX_QUERY_PRIORITY - pri)\<close>.
\<close>

theorem running_queries_bounded:
  assumes "sql_reachable hw n (Inr (run, st))"
  shows "num_threads st - num_finished st \<le> 128"
proof -
  from sql_reachable_bounded [OF assms]
  have "num_threads st - num_finished st \<le> int (max_threads st * 32)" "max_threads st \<le> 4"
    by (simp_all add: threads_bounded_def MAX_QUERY_PRIORITY_def)
  then show ?thesis by linarith
qed

theorem running_queries_bounded_witness:
  "\<exists>run st. sql_reachable 2 1 (Inr (run, st)) \<and> num_threads st - num_finished st \<le> 128"
proof -
  obtain run st where "sql_run to_worker (0, Inr (\<lambda>_. None, sqlmgr_init 2)) = Some (1, Inr (run, st))"
    using to_worker_run by blast
  note reach = sql_run_start [OF this]
  from running_queries_bounded [OF reach] reach show ?thesis by blast
qed

section \<open>Connection tuples\<close>

text \<open>
  The handle \<^verbatim>\<open>add_connect\<close> returns finds exactly the parameters it was given, the host split at
  its first colon into name and port (3306 without one), and the handles given out before still find
  theirs.
\<close>

theorem get_connect_add_connect:
  assumes "add_connect a fid host user pass name chrs timeout st = (h, st')"
  shows "get_connect h p st' = (True, make_prm a fid host user pass name chrs timeout)
    \<and> h = Suc (length (m_conn_prms st))
    \<and> (h' \<le> length (m_conn_prms st) \<longrightarrow> get_connect h' p st' = get_connect h' p st)"
  using assms by (auto simp: add_connect_def get_connect_def Let_def nth_append)

theorem get_connect_add_connect_witness:
  "get_connect 1 (\<lparr>prm_fwd = no_fwd, prm_sql = empty_sql\<rparr>) (snd (add_connect 1 7 ''db:99'' [] [] [] [] 60 (sqlmgr_init 2)))
     = (True, make_prm 1 7 ''db:99'' [] [] [] [] 60)
   \<and> prm_sql (make_prm 1 7 ''db:99'' [] [] [] [] 60)
     = \<lparr>db_host = ''db'', db_user = [], db_pass = [], db_name = [], db_chrs = [], db_port = 99, sql_timeout = 60\<rparr>"
proof -
  have e: "add_connect 1 7 ''db:99'' [] [] [] [] 60 (sqlmgr_init 2)
      = (1, snd (add_connect 1 7 ''db:99'' [] [] [] [] 60 (sqlmgr_init 2)))"
    by (simp add: add_connect_def sqlmgr_init_def Let_def)
  from get_connect_add_connect [OF e] show ?thesis
    by (simp add: make_prm_def Let_def atoi_def isspace_def isdigit_def)
qed

section \<open>Columns by name\<close>

lemma name_fields_lookup:
  "map_of (name_fields i fs m) nm =
     (case map_of m nm of Some p \<Rightarrow> Some p
      | None \<Rightarrow> if nm \<in> set (map fst fs) then Some (i + length (takeWhile (\<lambda>f. fst f \<noteq> nm) fs)) else None)"
proof (induction i fs m rule: name_fields.induct)
  case (2 i f fs m)
  then show ?case by (auto split: option.splits simp: map_add_Some_iff map_of_append map_add_def)
qed (simp split: option.split)

text \<open>
  A column is fetched by name at the first field that has the name: later columns of a join with
  the same name cannot be read by name.  Of a result the worker has stored with
  \<^verbatim>\<open>get_result\<close>, the fetch by name equals the fetch at that position.
\<close>

theorem fetch_field_by_name_first:
  assumes "get_result env b q0 st = Inr (True, q)" "q_result q0 = None" "lib_result env = Some r"
    "lib_field_count env = length (res_fields r)" "nm \<in> set (map fst (res_fields r))"
  shows "fetch_field_by_name ftoc (q\<lparr>q_row := Some w\<rparr>) (stop_threads st) nm mode ret buff len =
    fetch_field ftoc (q\<lparr>q_row := Some w\<rparr>) (stop_threads st)
      (length (takeWhile (\<lambda>f. fst f \<noteq> nm) (res_fields r))) mode ret buff len"
proof -
  have v: "is_valid_conn (stop_threads st) q0" using assms(1) by (auto simp: get_result_def split: if_splits)
  with assms have q: "q = q0\<lparr>q_is_buffered := b, q_result := Some r, q_f_count := length (res_fields r),
      q_f_names := name_fields 0 (res_fields r) []\<rparr>"
    by (simp add: get_result_def Let_def)
  have "is_valid_conn (stop_threads st) (q\<lparr>q_row := Some w\<rparr>)" using v by (simp add: is_valid_conn_def q)
  moreover have "map_of (q_f_names q) nm = Some (length (takeWhile (\<lambda>f. fst f \<noteq> nm) (res_fields r)))"
    using assms(5) by (simp add: q name_fields_lookup)
  ultimately show ?thesis by (simp add: fetch_field_by_name_def q)
qed

definition joined_query :: m_query where
  "joined_query = \<lparr>q_id = 1, q_tid = None, q_pri = 5, q_conn_id = 0, q_query = ''select'',
     q_data = None, q_data_size = 0, q_timeout = 0, q_retry_count = 0, q_async = False, q_started = True,
     q_aborted = False, q_finished = False, q_successful = True, q_framed = False, q_time_create = 0,
     q_conn = Some 1, q_result = None, q_is_buffered = True, q_row = None,
     q_prms = \<lparr>prm_fwd = no_fwd, prm_sql = empty_sql\<rparr>, q_error = [], q_err = 0, q_failstate = 0,
     q_f_names = [], q_f_count = 0\<rparr>"

definition joined_result :: mysql_res where
  "joined_result = \<lparr>res_fields = [(''id'', MYSQL_TYPE_INTEGER), (''id'', MYSQL_TYPE_INTEGER)],
     res_rows = []\<rparr>"

definition join_server :: lib_env where
  "join_server = good_server\<lparr>lib_result := Some joined_result, lib_field_count := 2\<rparr>"

theorem fetch_field_by_name_first_witness:
  "fst (fetch_field_by_name (\<lambda>_. 0)
          (snd (projr (get_result join_server True joined_query (sqlmgr_init 2)))
             \<lparr>q_row := Some [Some ''17'', Some ''42'']\<rparr>) False ''id'' FT_INT [0] [0] 0) = [17]"
proof -
  let ?st = "sqlmgr_init 2"
  let ?q = "snd (projr (get_result join_server True joined_query ?st))"
  have r: "get_result join_server True joined_query ?st = Inr (True, ?q)" "q_result joined_query = None"
    "lib_result join_server = Some joined_result" "lib_field_count join_server = length (res_fields joined_result)"
    "''id'' \<in> set (map fst (res_fields joined_result))"
    by (simp_all add: get_result_def joined_query_def join_server_def joined_result_def good_server_def
        Let_def is_valid_conn_def sqlmgr_init_def)
  have s: "stop_threads ?st = False" by (simp add: sqlmgr_init_def)
  show ?thesis unfolding fetch_field_by_name_first [OF r, unfolded s]
    by (simp add: fetch_field_def joined_result_def joined_query_def join_server_def good_server_def
        get_result_def Let_def is_valid_conn_def sqlmgr_init_def atoi_def isspace_def isdigit_def)
qed

end
