(* ===== verification/Frame_Pacing.thy ===== *)
theory Frame_Pacing
  imports Complex_Main Prelude
begin

text \<open>
  How often the managers serve their frame queues: \<^verbatim>\<open>timespec_diff\<close> and \<^verbatim>\<open>calc_frame_delay\<close> of
  \<^verbatim>\<open>refsapi_misc.cpp\<close>.  Every \<open>interval\<close> frames the time they took is measured and the rate follows it.
  A \<^verbatim>\<open>double\<close> is an exact number; \<^verbatim>\<open>size_t\<close> has 32 bits.
\<close>

section \<open>Definitions\<close>

record timespec =
  tv_sec :: int
  tv_nsec :: int

definition timespec_diff :: "timespec \<Rightarrow> timespec \<Rightarrow> rat" where
  "timespec_diff start_t end_t =
     (let seconds = tv_sec end_t - tv_sec start_t;
          nanoseconds = tv_nsec end_t - tv_nsec start_t;
          (seconds', nanoseconds') =
            (if nanoseconds < 0 then (seconds - 1, nanoseconds + 1000000000) else (seconds, nanoseconds))
      in of_int seconds' + of_int nanoseconds' / 1000000000)"

record pacer =
  frame_prev :: timespec
  pc_delay :: rat       \<comment> \<open>\<^verbatim>\<open>frame_delay\<close>\<close>
  pc_rate :: nat        \<comment> \<open>\<^verbatim>\<open>frame_rate\<close>\<close>
  pc_rate_max :: nat    \<comment> \<open>\<^verbatim>\<open>frame_rate_max\<close>\<close>

datatype pace_error = Division_by_zero | UB_double_to_size_t

text \<open>\<^verbatim>\<open>std::round\<close>, halves away from zero, and the conversion to \<^verbatim>\<open>size_t\<close>.\<close>

definition round_away :: "rat \<Rightarrow> int" where
  "round_away x = (if x \<ge> 0 then \<lfloor>x + 1 / 2\<rfloor> else - \<lfloor>1 / 2 - x\<rfloor>)"

definition to_size_t :: "int \<Rightarrow> pace_error + nat" where
  "to_size_t i = (if 0 \<le> i \<and> i < 2 ^ 32 then Inr (nat i) else Inl UB_double_to_size_t)"

definition pace_k1 :: "rat \<Rightarrow> rat \<Rightarrow> rat \<Rightarrow> rat" where
  "pace_k1 k1_max delay frame_delay =
     (if delay > frame_delay then k1_max * (delay - frame_delay) / (frame_delay + delay) else 1)"

definition pace_k2 :: "rat \<Rightarrow> rat \<Rightarrow> rat" where
  "pace_k2 k2_max ms = (if ms \<ge> 1 then k2_max * ms else k2_max / ms)"

text \<open>The new rate; the sum of the two \<^verbatim>\<open>size_t\<close> wraps around.\<close>

definition new_rate :: "rat \<Rightarrow> rat \<Rightarrow> nat \<Rightarrow> rat \<Rightarrow> pacer \<Rightarrow> pace_error + nat" where
  "new_rate k1_max k2_max interval delay p =
     bind_r (to_size_t (round_away (pace_k1 k1_max delay (pc_delay p)
               + pace_k2 k2_max (1000 * pc_delay p / of_nat interval))))
       (\<lambda>k. Inr (max 1 ((pc_rate p + k) mod 2 ^ 32 div 2)))"

definition calc_frame_delay ::
  "nat \<Rightarrow> nat \<Rightarrow> timespec \<Rightarrow> rat \<Rightarrow> rat \<Rightarrow> pacer \<Rightarrow> pace_error + pacer" where
  "calc_frame_delay interval frames_count frame_curr k1_max k2_max p =
     (if interval = 0 then Inl Division_by_zero
      else if frames_count mod interval \<noteq> 0 then Inr p
      else if tv_sec (frame_prev p) \<ge> 0 \<and> tv_nsec (frame_prev p) > 0
      then let delay = timespec_diff (frame_prev p) frame_curr in
        bind_r
          (if pc_delay p > 0
           then bind_r (new_rate k1_max k2_max interval delay p)
                  (\<lambda>r. Inr (p\<lparr>pc_rate := r, pc_rate_max := max r (pc_rate_max p)\<rparr>))
           else Inr p)
          (\<lambda>p1. Inr (p1\<lparr>pc_delay := (pc_delay p1 + delay) / 2, frame_prev := frame_curr\<rparr>))
      else Inr (p\<lparr>frame_prev := frame_curr\<rparr>))"

text \<open>The values of the constructors, and what stopping a manager resets.\<close>

definition pacer_init :: "pacer" where
  "pacer_init = \<lparr>frame_prev = \<lparr>tv_sec = 0, tv_nsec = 0\<rparr>, pc_delay = 1, pc_rate = 1, pc_rate_max = 1\<rparr>"

definition pacer_stop :: "pacer \<Rightarrow> pacer" where
  "pacer_stop p = p\<lparr>frame_prev := \<lparr>tv_sec = 0, tv_nsec = 0\<rparr>, pc_delay := 1\<rparr>"

section \<open>The difference of two times\<close>

definition nanos :: "timespec \<Rightarrow> int" where
  "nanos t = tv_sec t * 1000000000 + tv_nsec t"

text \<open>
  \<^verbatim>\<open>timespec_diff\<close> is the exact difference in seconds, borrow or not, and it is not negative exactly
  when the second time is not before the first.
\<close>

theorem timespec_diff_exact:
  "timespec_diff s e = of_int (nanos e - nanos s) / 1000000000
   \<and> (0 \<le> timespec_diff s e \<longleftrightarrow> nanos s \<le> nanos e)"
proof -
  have d: "timespec_diff s e = of_int (nanos e - nanos s) / 1000000000"
    by (simp add: timespec_diff_def nanos_def Let_def field_simps)
  show ?thesis unfolding d by (auto simp: zero_le_divide_iff simp flip: of_int_diff)
qed

section \<open>The rate\<close>

text \<open>
  Frames of a server whose frames take between 1/64 and 64 milliseconds on average over each interval.
\<close>

definition frames_ok :: "nat \<Rightarrow> nat \<Rightarrow> timespec \<Rightarrow> pacer \<Rightarrow> bool" where
  "frames_ok interval n t p \<longleftrightarrow>
     n mod interval \<noteq> 0 \<or> tv_nsec (frame_prev p) \<le> 0
     \<or> of_nat interval / 64 \<le> 1000 * timespec_diff (frame_prev p) t
       \<and> 1000 * timespec_diff (frame_prev p) t \<le> 64 * of_nat interval"

inductive paced :: "nat \<Rightarrow> rat \<Rightarrow> rat \<Rightarrow> pacer \<Rightarrow> bool" for interval :: nat and k1 k2 :: rat where
  start: "paced interval k1 k2 pacer_init"
| frame: "paced interval k1 k2 p \<Longrightarrow> frames_ok interval n t p
    \<Longrightarrow> calc_frame_delay interval n t k1 k2 p = Inr p' \<Longrightarrow> paced interval k1 k2 p'"
| stop: "paced interval k1 k2 p \<Longrightarrow> paced interval k1 k2 (pacer_stop p)"

definition pace_inv :: "nat \<Rightarrow> pacer \<Rightarrow> bool" where
  "pace_inv interval p \<longleftrightarrow>
     of_nat interval / 64 \<le> 1000 * pc_delay p \<and> 1000 * pc_delay p \<le> 64 * of_nat interval
     \<and> 1 \<le> pc_rate p \<and> pc_rate p \<le> 1701 \<and> pc_rate p \<le> pc_rate_max p"

lemma k1_bounds:
  assumes "0 < fd" "0 < d" "1 \<le> k1" "k1 \<le> 100"
  shows "0 < pace_k1 k1 d fd \<and> pace_k1 k1 d fd \<le> 100"
proof (cases "d > fd")
  case True
  then have q: "0 < (d - fd) / (fd + d)" "(d - fd) / (fd + d) \<le> 1" using assms by simp_all
  have "k1 * ((d - fd) / (fd + d)) \<le> k1 * 1"
    by (rule mult_left_mono) (use q assms in simp_all)
  then have "k1 * ((d - fd) / (fd + d)) \<le> 100" using assms by simp
  moreover have "0 < k1 * ((d - fd) / (fd + d))" by (rule mult_pos_pos) (use q assms in simp_all)
  ultimately show ?thesis using True by (simp add: pace_k1_def)
qed (simp add: pace_k1_def)

lemma k2_bounds:
  assumes "1 / 64 \<le> ms" "ms \<le> 64" "1 / 10 \<le> k2" "k2 \<le> 25"
  shows "0 < pace_k2 k2 ms \<and> pace_k2 k2 ms \<le> 1600"
proof (cases "ms \<ge> 1")
  case True
  have "k2 * ms \<le> 25 * 64" by (rule mult_mono) (use assms True in simp_all)
  then show ?thesis using True assms by (simp add: pace_k2_def)
next
  case False
  have "k2 / ms \<le> 25 / (1 / 64)" by (rule frac_le) (use assms in simp_all)
  then show ?thesis using False assms by (simp add: pace_k2_def)
qed

lemma new_rate_bounds:
  assumes "pace_inv interval p" "0 < interval" "0 < d" "1 \<le> k1" "k1 \<le> 100" "1 / 10 \<le> k2" "k2 \<le> 25"
  shows "\<exists>r. new_rate k1 k2 interval d p = Inr r \<and> 1 \<le> r \<and> r \<le> 1701"
proof -
  let ?ms = "1000 * pc_delay p / of_nat interval"
  have i: "(0 :: rat) < of_nat interval" using assms(2) by simp
  have pd: "of_nat interval / 64 \<le> 1000 * pc_delay p" "1000 * pc_delay p \<le> 64 * of_nat interval"
    and r: "pc_rate p \<le> 1701" using assms(1) by (simp_all add: pace_inv_def)
  have fd: "0 < pc_delay p" using pd(1) i by (simp add: field_simps)
  have ms: "1 / 64 \<le> ?ms" "?ms \<le> 64" using pd i by (simp_all add: field_simps)
  let ?x = "pace_k1 k1 d (pc_delay p) + pace_k2 k2 ?ms"
  have x: "0 < ?x" "?x \<le> 1700"
    using k1_bounds [OF fd assms(3,4,5)] k2_bounds [OF ms assms(6,7)] by simp_all
  have ra: "round_away ?x = \<lfloor>?x + 1 / 2\<rfloor>" using x by (simp add: round_away_def)
  have "0 \<le> \<lfloor>?x + 1 / 2\<rfloor>" using x by simp
  moreover have "\<lfloor>?x + 1 / 2\<rfloor> < 1701" using x by (simp add: floor_less_iff)
  moreover define f where "f = \<lfloor>?x + 1 / 2\<rfloor>"
  ultimately have "0 \<le> f" "f < 1701" by (simp_all only:)
  then have "to_size_t f = Inr (nat f)" "nat f \<le> 1700" by (simp_all add: to_size_t_def)
  then obtain k where k: "to_size_t (round_away ?x) = Inr k" "k \<le> 1700"
    unfolding ra f_def by blast
  then have "new_rate k1 k2 interval d p = Inr (max 1 ((pc_rate p + k) div 2))"
    using r by (simp add: new_rate_def)
  moreover have "max 1 ((pc_rate p + k) div 2) \<le> 1701" using k(2) r by simp
  ultimately show ?thesis by simp
qed

lemma paced_step:
  assumes "pace_inv interval p" "0 < interval" "frames_ok interval n t p"
    and "1 \<le> k1" "k1 \<le> 100" "1 / 10 \<le> k2" "k2 \<le> 25"
  shows "\<exists>p'. calc_frame_delay interval n t k1 k2 p = Inr p' \<and> pace_inv interval p'"
proof (cases "n mod interval = 0 \<and> tv_sec (frame_prev p) \<ge> 0 \<and> tv_nsec (frame_prev p) > 0")
  case True
  let ?d = "timespec_diff (frame_prev p) t"
  have i: "(0 :: rat) < of_nat interval" using assms(2) by simp
  have d: "of_nat interval / 64 \<le> 1000 * ?d" "1000 * ?d \<le> 64 * of_nat interval"
    using assms(3) True by (auto simp: frames_ok_def)
  have pd: "of_nat interval / 64 \<le> 1000 * pc_delay p" "1000 * pc_delay p \<le> 64 * of_nat interval"
    using assms(1) by (simp_all add: pace_inv_def)
  have pos: "0 < ?d" "0 < pc_delay p" using d(1) pd(1) i by (simp_all add: field_simps)
  obtain r where r: "new_rate k1 k2 interval ?d p = Inr r" "1 \<le> r" "r \<le> 1701"
    using new_rate_bounds [OF assms(1,2) pos(1) assms(4-7)] by blast
  let ?p = "p\<lparr>pc_rate := r, pc_rate_max := max r (pc_rate_max p), pc_delay := (pc_delay p + ?d) / 2,
    frame_prev := t\<rparr>"
  have "calc_frame_delay interval n t k1 k2 p = Inr ?p"
    using True assms(2) pos(2) r(1) by (simp add: calc_frame_delay_def Let_def)
  moreover have "pace_inv interval ?p"
    using d pd r by (simp add: pace_inv_def field_simps)
  ultimately show ?thesis by blast
next
  case False
  then show ?thesis using assms(1,2) by (auto simp: calc_frame_delay_def pace_inv_def)
qed

lemma paced_inv:
  assumes "paced interval k1 k2 p" "16 \<le> interval" "interval \<le> 64000"
    and "1 \<le> k1" "k1 \<le> 100" "1 / 10 \<le> k2" "k2 \<le> 25"
  shows "pace_inv interval p"
proof -
  have i: "(16 :: rat) \<le> of_nat interval" "(of_nat interval :: rat) \<le> 64000" "0 < interval"
    using assms(2,3) by simp_all
  show ?thesis
    using assms(1)
  proof induction
    case start
    then show ?case using i by (simp add: pace_inv_def pacer_init_def)
  next
    case (frame p n t p')
    then show ?case using paced_step [OF frame.IH i(3) frame.hyps(2) assms(4-7)] by auto
  next
    case (stop p)
    then show ?case using i by (simp add: pace_inv_def pacer_stop_def)
  qed
qed

text \<open>
  With an interval and factors as the cvars allow them, on a server whose frames take between 1/64
  and 64 milliseconds, \<^verbatim>\<open>calc_frame_delay\<close> never fails, and the frame queue is served at least once in
  1701 frames and at most once per frame.
\<close>

theorem frame_rate_bounded:
  assumes "paced interval k1 k2 p" "100 \<le> interval" "interval \<le> 1000"
    and "1 \<le> k1" "k1 \<le> 100" "1 / 10 \<le> k2" "k2 \<le> 25" "frames_ok interval n t p"
  shows "\<exists>p'. calc_frame_delay interval n t k1 k2 p = Inr p'
    \<and> 1 \<le> pc_rate p' \<and> pc_rate p' \<le> 1701 \<and> pc_rate p' \<le> pc_rate_max p'"
proof -
  have "pace_inv interval p" by (rule paced_inv [OF assms(1) _ _ assms(4-7)]) (use assms(2,3) in simp_all)
  from paced_step [OF this _ assms(8,4-7)] assms(2) show ?thesis by (auto simp: pace_inv_def)
qed

theorem frame_rate_bounded_witness:
  "\<exists>p'. calc_frame_delay 1000 5000 \<lparr>tv_sec = 7, tv_nsec = 5\<rparr> 53 7 pacer_init = Inr p' \<and> pc_rate p' \<le> 1701"
proof -
  have "frames_ok 1000 5000 \<lparr>tv_sec = 7, tv_nsec = 5\<rparr> pacer_init"
    by (simp add: frames_ok_def pacer_init_def)
  from frame_rate_bounded [OF paced.start [of 1000 53 7] _ _ _ _ _ _ this] show ?thesis by auto
qed

end
