(* ===== verification/Mysql_Wait.thy ===== *)
theory Mysql_Wait
  imports Frame_Pacing
begin

text \<open>
  How the query manager waits for the socket of a connection: \<^verbatim>\<open>safe_poll\<close> and \<^verbatim>\<open>wait_for_mysql\<close> of
  \<^verbatim>\<open>refsapi_mysql_mngr.h\<close>.  The system is a state \<open>'w\<close> with the calls \<open>poll\<close> and \<open>clock\<close>
  (\<^verbatim>\<open>clock_gettime\<close>, \<open>None\<close> when it fails); what \<^verbatim>\<open>poll\<close> promises is the hypothesis \<open>poll_ok\<close>.
\<close>

section \<open>Definitions\<close>

datatype poll_ret = Poll_ready int | Poll_timeout | Poll_eintr | Poll_error

text \<open>The conversion of a number to \<^verbatim>\<open>int\<close>.\<close>

definition to_int :: "rat \<Rightarrow> int" where
  "to_int x = (if x \<ge> 0 then \<lfloor>x\<rfloor> else \<lceil>x\<rceil>)"

text \<open>
  The loop of \<^verbatim>\<open>safe_poll\<close>; the result is what \<^verbatim>\<open>poll\<close> returns, with \<^verbatim>\<open>revents\<close> when it is positive.
  A call that waits for ever has no result.
\<close>

partial_function (option) poll_loop ::
  "('w \<Rightarrow> int \<Rightarrow> poll_ret \<times> 'w) \<Rightarrow> ('w \<Rightarrow> timespec option) \<Rightarrow> timespec \<Rightarrow> int \<Rightarrow> 'w \<Rightarrow> (poll_ret \<times> 'w) option" where
  "poll_loop poll clock start_t timeout_ms w =
     (let (r, w1) = poll w timeout_ms
      in if r \<noteq> Poll_eintr then Some (r, w1)
         else if timeout_ms > 0
         then (case clock w1 of
                 None \<Rightarrow> Some (Poll_error, w1)
               | Some t \<Rightarrow>
                   let elapsed_ms = to_int (timespec_diff start_t t * 1000);
                       timeout' = (if timeout_ms > elapsed_ms then timeout_ms - elapsed_ms else 0)
                   in if timeout' = 0 then Some (Poll_timeout, w1) else poll_loop poll clock start_t timeout' w1)
         else if timeout_ms = 0 then Some (Poll_timeout, w1)
         else poll_loop poll clock start_t timeout_ms w1)"

definition safe_poll ::
  "('w \<Rightarrow> int \<Rightarrow> poll_ret \<times> 'w) \<Rightarrow> ('w \<Rightarrow> timespec option) \<Rightarrow> int \<Rightarrow> 'w \<Rightarrow> (poll_ret \<times> 'w) option" where
  "safe_poll poll clock timeout_ms w =
     (if timeout_ms > 0
      then (case clock w of None \<Rightarrow> Some (Poll_error, w) | Some t \<Rightarrow> poll_loop poll clock t timeout_ms w)
      else poll_loop poll clock \<lparr>tv_sec = 0, tv_nsec = 0\<rparr> timeout_ms w)"

definition POLLIN :: int where "POLLIN = 1"
definition POLLPRI :: int where "POLLPRI = 2"
definition POLLOUT :: int where "POLLOUT = 4"
definition POLLERR :: int where "POLLERR = 8"
definition POLLHUP :: int where "POLLHUP = 16"
definition POLLNVAL :: int where "POLLNVAL = 32"

definition MYSQL_WAIT_READ :: int where "MYSQL_WAIT_READ = 1"
definition MYSQL_WAIT_WRITE :: int where "MYSQL_WAIT_WRITE = 2"
definition MYSQL_WAIT_EXCEPT :: int where "MYSQL_WAIT_EXCEPT = 4"
definition MYSQL_WAIT_TIMEOUT :: int where "MYSQL_WAIT_TIMEOUT = 8"

lemmas poll_bits = POLLIN_def POLLPRI_def POLLOUT_def POLLERR_def POLLHUP_def POLLNVAL_def
lemmas wait_bits = MYSQL_WAIT_READ_def MYSQL_WAIT_WRITE_def MYSQL_WAIT_EXCEPT_def MYSQL_WAIT_TIMEOUT_def

definition wait_events :: "int \<Rightarrow> int" where
  "wait_events status =
     (if status AND MYSQL_WAIT_READ \<noteq> 0 then POLLIN else 0) OR
     (if status AND MYSQL_WAIT_WRITE \<noteq> 0 then POLLOUT else 0) OR
     (if status AND MYSQL_WAIT_EXCEPT \<noteq> 0 then POLLPRI else 0)"

definition wait_result :: "poll_ret \<Rightarrow> int" where
  "wait_result r =
     (case r of
        Poll_ready revents \<Rightarrow>
          if revents AND POLLERR \<noteq> 0 \<or> revents AND POLLHUP \<noteq> 0 \<or> revents AND POLLNVAL \<noteq> 0 then MYSQL_WAIT_TIMEOUT
          else (if revents AND POLLIN \<noteq> 0 then MYSQL_WAIT_READ else 0) OR
               (if revents AND POLLOUT \<noteq> 0 then MYSQL_WAIT_WRITE else 0) OR
               (if revents AND POLLPRI \<noteq> 0 then MYSQL_WAIT_EXCEPT else 0)
      | _ \<Rightarrow> MYSQL_WAIT_TIMEOUT)"

text \<open>
  \<open>fd\<close> is the socket, \<open>default_ms\<close> is \<^verbatim>\<open>mysql_get_timeout_value_ms\<close>, \<open>poll\<close> also gets the events.
\<close>

definition wait_for_mysql ::
  "('w \<Rightarrow> int \<Rightarrow> int \<Rightarrow> poll_ret \<times> 'w) \<Rightarrow> ('w \<Rightarrow> timespec option) \<Rightarrow> int \<Rightarrow> int \<Rightarrow> int \<Rightarrow> int \<Rightarrow> 'w \<Rightarrow> (int \<times> 'w) option" where
  "wait_for_mysql poll clock fd q_timeout default_ms status w =
     (if fd < 0 then Some (MYSQL_WAIT_TIMEOUT, w)
      else
        let timeout = (if status AND MYSQL_WAIT_TIMEOUT \<noteq> 0 then (if q_timeout > 0 then q_timeout else default_ms)
                       else - 1)
        in map_option (\<lambda>(r, w1). (wait_result r, w1))
             (safe_poll (\<lambda>w t. poll w (wait_events status) t) clock timeout w))"

section \<open>The system\<close>

text \<open>
  \<open>now\<close> is the time in nanoseconds.  \<^verbatim>\<open>poll\<close> returns within its timeout, a timeout takes all of it, an
  interruption takes some time, and the clock shows the time.
\<close>

definition poll_ok :: "('w \<Rightarrow> int \<Rightarrow> poll_ret \<times> 'w) \<Rightarrow> ('w \<Rightarrow> timespec option) \<Rightarrow> ('w \<Rightarrow> int) \<Rightarrow> bool" where
  "poll_ok poll clock now \<longleftrightarrow>
     (\<forall>w t r w'. poll w t = (r, w') \<longrightarrow>
        now w \<le> now w' \<and> (0 \<le> t \<longrightarrow> now w' \<le> now w + t * 1000000)
        \<and> (r = Poll_timeout \<longrightarrow> 0 \<le> t \<and> now w' = now w + t * 1000000)
        \<and> (r = Poll_eintr \<longrightarrow> now w < now w'))
     \<and> (\<forall>w. \<exists>t. clock w = Some t \<and> nanos t = now w)"

lemma elapsed_ms:
  assumes "nanos s \<le> nanos t"
  shows "to_int (timespec_diff s t * 1000) = (nanos t - nanos s) div 1000000"
proof -
  have "timespec_diff s t * 1000 = of_int (nanos t - nanos s) / of_int 1000000"
    using timespec_diff_exact [of s t] by simp
  moreover have "0 \<le> timespec_diff s t * 1000" using timespec_diff_exact [of s t] assms by simp
  ultimately show ?thesis unfolding to_int_def by (simp only: floor_divide_of_int_eq if_True)
qed

text \<open>
  While the loop runs the time left never exceeds the timeout by the whole milliseconds passed; an
  interruption costs time, so that the loop ends.
\<close>

lemma poll_loop_ends:
  assumes "poll_ok poll clock now"
  shows "0 < t \<Longrightarrow> nanos s \<le> now w \<Longrightarrow> t \<le> limit - (now w - nanos s) div 1000000 \<Longrightarrow>
    \<exists>r w'. poll_loop poll clock s t w = Some (r, w') \<and> now w' - nanos s < (limit + 1) * 1000000"
proof (induction "nat (nanos s + (limit + 1) * 1000000 - now w)" arbitrary: t w rule: less_induct)
  case less
  obtain r w1 where p: "poll w t = (r, w1)" by force
  have "now w \<le> now w1 \<and> (0 \<le> t \<longrightarrow> now w1 \<le> now w + t * 1000000) \<and> (r = Poll_eintr \<longrightarrow> now w < now w1)"
    using assms p unfolding poll_ok_def by blast
  then have ok: "now w \<le> now w1" "now w1 \<le> now w + t * 1000000" "r = Poll_eintr \<Longrightarrow> now w < now w1"
    using less(2) by auto
  obtain ts where ts: "clock w1 = Some ts" "nanos ts = now w1" using assms unfolding poll_ok_def by blast
  have el: "to_int (timespec_diff s ts * 1000) = (now w1 - nanos s) div 1000000"
    using elapsed_ms [of s ts] ts(2) ok(1) less(3) by simp
  let ?e = "(now w1 - nanos s) div 1000000"
  have w1: "now w1 - nanos s < (limit + 1) * 1000000"
  proof -
    have "now w - nanos s < ((now w - nanos s) div 1000000 + 1) * 1000000"
      using pos_mod_bound [of 1000000 "now w - nanos s"] mult_div_mod_eq [of 1000000 "now w - nanos s"]
      by (simp add: algebra_simps)
    moreover have "t * 1000000 \<le> (limit - (now w - nanos s) div 1000000) * 1000000" using less(4) by simp
    ultimately show ?thesis using ok(2) by (simp add: algebra_simps)
  qed
  show ?case
  proof (cases "r = Poll_eintr \<and> t > ?e")
    case False
    then have "\<exists>r'. poll_loop poll clock s t w = Some (r', w1)"
      using p ts less(2) by (simp add: poll_loop.simps [of poll clock s t w] el)
    then show ?thesis using w1 by blast
  next
    case True
    have l: "poll_loop poll clock s t w = poll_loop poll clock s (t - ?e) w1"
      using p ts less(2) True by (simp add: poll_loop.simps [of poll clock s t w] el)
    have e0: "0 \<le> (now w - nanos s) div 1000000" using less(3) by (simp add: pos_imp_zdiv_nonneg_iff)
    show ?thesis unfolding l
    proof (rule less(1))
      show "nat (nanos s + (limit + 1) * 1000000 - now w1) < nat (nanos s + (limit + 1) * 1000000 - now w)"
        using ok(3) True w1 by linarith
      show "0 < t - ?e" "nanos s \<le> now w1" using True ok(1) less(3) by auto
      show "t - ?e \<le> limit - ?e" using less(4) e0 by linarith
    qed
  qed
qed


text \<open>
  A system with a list of interruptions: each comes after so many nanoseconds, or the call times out.
\<close>

definition time_of :: "int \<Rightarrow> timespec" where
  "time_of n = \<lparr>tv_sec = n div 1000000000, tv_nsec = n mod 1000000000\<rparr>"

fun script_poll :: "int \<times> nat list \<Rightarrow> int \<Rightarrow> poll_ret \<times> int \<times> nat list" where
  "script_poll (now, []) t = (if 0 \<le> t then (Poll_timeout, now + t * 1000000, []) else (Poll_error, now, []))"
| "script_poll (now, d # ds) t =
     (if 0 < d \<and> (t < 0 \<or> int d < t * 1000000) then (Poll_eintr, now + int d, ds)
      else if 0 \<le> t then (Poll_timeout, now + t * 1000000, ds) else (Poll_error, now, ds))"

definition script_clock :: "int \<times> nat list \<Rightarrow> timespec option" where
  "script_clock w = Some (time_of (fst w))"

lemma nanos_time_of [simp]: "nanos (time_of n) = n"
  by (simp add: nanos_def time_of_def)

lemma script_ok: "poll_ok script_poll script_clock fst"
proof -
  have "fst w \<le> fst w' \<and> (0 \<le> t \<longrightarrow> fst w' \<le> fst w + t * 1000000)
     \<and> (r = Poll_timeout \<longrightarrow> 0 \<le> t \<and> fst w' = fst w + t * 1000000) \<and> (r = Poll_eintr \<longrightarrow> fst w < fst w')"
    if "script_poll w t = (r, w')" for w t r w'
    using that by (cases "(w, t)" rule: script_poll.cases) (auto split: if_splits)
  then show ?thesis by (auto simp: poll_ok_def script_clock_def)
qed


text \<open>
  Two interruptions make a call time out too early: the time from the start is subtracted from what
  is left after the first one, so that a timeout of 1000 milliseconds ends after 700.
\<close>

theorem safe_poll_times_out_early:
  "safe_poll script_poll script_clock 1000 (0, [400000000, 300000000]) = Some (Poll_timeout, 700000000, [])"
  by (simp add: safe_poll_def script_clock_def poll_loop.simps elapsed_ms)

section \<open>The status\<close>

text \<open>What \<^verbatim>\<open>poll\<close> reports: a non-empty choice of the events asked for and of the three errors.\<close>

definition events_ok :: "int \<Rightarrow> poll_ret \<Rightarrow> bool" where
  "events_ok events r \<longleftrightarrow>
     (case r of Poll_ready revents \<Rightarrow> revents \<noteq> 0 \<and> revents AND NOT (events OR POLLERR OR POLLHUP OR POLLNVAL) = 0
      | _ \<Rightarrow> True)"

lemma and_bits:
  "(x :: int) AND 1 = 0 \<longleftrightarrow> \<not> bit x 0" "x AND 2 = 0 \<longleftrightarrow> \<not> bit x 1" "x AND 4 = 0 \<longleftrightarrow> \<not> bit x 2"
  "x AND 8 = 0 \<longleftrightarrow> \<not> bit x 3" "x AND 16 = 0 \<longleftrightarrow> \<not> bit x 4" "x AND 32 = 0 \<longleftrightarrow> \<not> bit x 5"
  using and_exp_eq_0_iff_not_bit [of x 0] and_exp_eq_0_iff_not_bit [of x 1] and_exp_eq_0_iff_not_bit [of x 2]
    and_exp_eq_0_iff_not_bit [of x 3] and_exp_eq_0_iff_not_bit [of x 4] and_exp_eq_0_iff_not_bit [of x 5]
  by simp_all

lemma bit_wait_events:
  "bit (wait_events status OR POLLERR OR POLLHUP OR POLLNVAL) n \<longleftrightarrow>
     n = 0 \<and> bit status 0 \<or> n = 2 \<and> bit status 1 \<or> n = 1 \<and> bit status 2 \<or> n = 3 \<or> n = 4 \<or> n = 5"
proof -
  have b: "bit (8 :: int) n \<longleftrightarrow> n = 3" "bit (16 :: int) n \<longleftrightarrow> n = 4" "bit (32 :: int) n \<longleftrightarrow> n = 5"
    "bit (1 :: int) n \<longleftrightarrow> n = 0" "bit (2 :: int) n \<longleftrightarrow> n = 1" "bit (4 :: int) n \<longleftrightarrow> n = 2"
    using bit_exp_iff [where 'a = int, of 3 n] bit_exp_iff [where 'a = int, of 4 n] bit_exp_iff [where 'a = int, of 5 n]
      bit_exp_iff [where 'a = int, of 0 n] bit_exp_iff [where 'a = int, of 1 n] bit_exp_iff [where 'a = int, of 2 n]
    by auto
  show ?thesis unfolding wait_events_def bit_or_iff wait_bits poll_bits and_bits by (auto simp: b)
qed

lemma ready_bits:
  assumes "events_ok (wait_events status) (Poll_ready v)" "bit v n"
  shows "n = 0 \<and> bit status 0 \<or> n = 2 \<and> bit status 1 \<or> n = 1 \<and> bit status 2 \<or> n = 3 \<or> n = 4 \<or> n = 5"
proof -
  have "v AND NOT (wait_events status OR POLLERR OR POLLHUP OR POLLNVAL) = 0"
    using assms(1) by (simp add: events_ok_def)
  then have "\<not> bit (v AND NOT (wait_events status OR POLLERR OR POLLHUP OR POLLNVAL)) n" by simp
  then show ?thesis using assms(2) unfolding bit_and_iff bit_not_iff bit_wait_events by auto
qed

lemma wait_result_ok:
  assumes "events_ok (wait_events status) r"
  shows "wait_result r = MYSQL_WAIT_TIMEOUT
    \<or> wait_result r \<in> {1..7} \<and> wait_result r AND status = wait_result r"
proof (cases r)
  case (Poll_ready v)
  note bits = ready_bits [OF assms [unfolded Poll_ready]]
  have ne: "v \<noteq> 0" using assms Poll_ready by (simp add: events_ok_def)
  show ?thesis
  proof (cases "bit v 3 \<or> bit v 4 \<or> bit v 5")
    case True
    then show ?thesis by (auto simp: Poll_ready wait_result_def poll_bits and_bits)
  next
    case False
    have w: "wait_result r = (if bit v 0 then 1 else 0) OR (if bit v 2 then 2 else 0) OR (if bit v 1 then 4 else 0)"
      using False by (simp add: Poll_ready wait_result_def poll_bits wait_bits and_bits)
    have s: "bit v 0 \<Longrightarrow> bit status 0" "bit v 2 \<Longrightarrow> bit status 1" "bit v 1 \<Longrightarrow> bit status 2"
      using bits [of 0] bits [of 2] bits [of 1] by auto
    have "\<exists>n. bit v n" using ne by (metis bit_eqI bit_0_eq bot_apply bot_bool_def)
    then have some: "bit v 0 \<or> bit v 1 \<or> bit v 2" using bits False by blast
    have "bit (wait_result r AND status) n = bit (wait_result r) n" for n
    proof -
      have b: "bit (1 :: int) n \<longleftrightarrow> n = 0" "bit (2 :: int) n \<longleftrightarrow> n = 1" "bit (4 :: int) n \<longleftrightarrow> n = 2"
        using bit_exp_iff [where 'a = int, of 0 n] bit_exp_iff [where 'a = int, of 1 n] bit_exp_iff [where 'a = int, of 2 n]
        by auto
      show ?thesis unfolding w using s by (auto simp: bit_and_iff bit_or_iff b)
    qed
    then have "wait_result r AND status = wait_result r" by (rule bit_eqI)
    moreover have "wait_result r \<in> {1..7}" unfolding w using some by auto
    ultimately show ?thesis by blast
  qed
qed (simp_all add: wait_result_def)

lemma poll_loop_result:
  assumes "poll_loop poll clock s t w = Some y" "\<forall>w t. P (fst (poll w t))" "P Poll_error" "P Poll_timeout"
  shows "P (fst y)"
proof -
  let ?P = "\<lambda>poll clock s t w y. (\<forall>w t. P (fst (poll w t))) \<longrightarrow> P (fst y)"
  have "?P poll clock s t w y"
  proof (rule poll_loop.raw_induct [where P = ?P, OF _ assms(1)], rule impI)
    fix self poll and clock :: "'a \<Rightarrow> timespec option" and s t w y
    assume IH: "\<And>poll clock s t w y. self poll clock s t w = Some y \<Longrightarrow> (\<forall>w t. P (fst (poll w t))) \<longrightarrow> P (fst y)"
      and body: "(let (r, w1) = poll w t
        in if r \<noteq> Poll_eintr then Some (r, w1)
           else if t > 0
           then (case clock w1 of
                   None \<Rightarrow> Some (Poll_error, w1)
                 | Some ts \<Rightarrow>
                     let elapsed_ms = to_int (timespec_diff s ts * 1000); t' = (if t > elapsed_ms then t - elapsed_ms else 0)
                     in if t' = 0 then Some (Poll_timeout, w1) else self poll clock s t' w1)
           else if t = 0 then Some (Poll_timeout, w1)
           else self poll clock s t w1) = Some y"
      and a: "\<forall>w t. P (fst (poll w t))"
    obtain r1 w1 where p: "poll w t = (r1, w1)" by force
    have "P (fst (poll w t))" using a by blast
    then have "P r1" unfolding p by simp
    moreover have "self poll clock s t w = Some y \<Longrightarrow> P (fst y)" for s t w using IH a by blast
    ultimately show "P (fst y)" using body assms(3,4) unfolding p Let_def prod.case
      by (auto split: if_splits option.splits)
  qed
  then show ?thesis using assms(2) by blast
qed

text \<open>
  What the client library gets back after a wait is either the timeout, or a non-empty choice of
  the events it waits for.
\<close>

theorem wait_status_requested:
  assumes "\<forall>w events t. events_ok events (fst (poll w events t))"
    and "wait_for_mysql poll clock fd q_timeout default_ms status w = Some (res, w')"
  shows "res = MYSQL_WAIT_TIMEOUT \<or> res \<in> {1..7} \<and> res AND status = res"
proof (cases "fd < 0")
  case True
  then show ?thesis using assms(2) by (simp add: wait_for_mysql_def)
next
  case False
  let ?p = "\<lambda>w t. poll w (wait_events status) t"
  obtain t r where r: "safe_poll ?p clock t w = Some (r, w')" "res = wait_result r"
    using assms(2) False by (auto simp: wait_for_mysql_def)
  have "events_ok (wait_events status) r"
  proof -
    have "poll_loop ?p clock s t w = Some (r, w') \<Longrightarrow> events_ok (wait_events status) r" for s
      by (drule poll_loop_result [where P = "events_ok (wait_events status)"]) (use assms(1) in \<open>simp_all add: events_ok_def [of _ Poll_error] events_ok_def [of _ Poll_timeout]\<close>)
    then show ?thesis using r(1) by (auto simp: safe_poll_def events_ok_def [of _ Poll_error] split: if_splits option.splits)
  qed
  then show ?thesis unfolding r(2) by (rule wait_result_ok)
qed

definition quiet_poll :: "nat \<Rightarrow> int \<Rightarrow> int \<Rightarrow> poll_ret \<times> nat" where
  "quiet_poll w events t = (if events AND 1 \<noteq> 0 then Poll_ready 1 else Poll_timeout, w)"

theorem wait_status_requested_witness:
  "\<exists>res. wait_for_mysql quiet_poll (\<lambda>_. None) 3 0 0 3 0 = Some (res, 0) \<and> res \<in> {1..8}"
proof -
  have "events_ok events (fst (quiet_poll w events t))" for w events t
  proof -
    have "(1 :: int) AND NOT events AND c = 0" if "bit events 0" for c
      using that by (auto intro!: bit_eqI simp: bit_and_iff bit_not_iff bit_1_iff)
    then show ?thesis by (simp add: quiet_poll_def events_ok_def poll_bits and_bits)
  qed
  then have ok: "\<forall>w events t. events_ok events (fst (quiet_poll w events t))" by blast
  have run: "wait_for_mysql quiet_poll (\<lambda>_. None) 3 0 0 3 0 = Some (1, 0)"
    by (simp add: wait_for_mysql_def safe_poll_def poll_loop.simps quiet_poll_def wait_events_def wait_bits poll_bits
        wait_result_def)
  from wait_status_requested [OF ok run] run show ?thesis by (auto simp: wait_bits)
qed

end
