(* ===== verification/Sql_Results.thy ===== *)
theory Sql_Results
  imports Main
begin

text \<open>
  The end of \<^verbatim>\<open>get_result\<close> in \<^verbatim>\<open>refsapi_mysql_mngr.h\<close>: the results a query has after its first one are
  taken and thrown away, so that the connection can be used again.  The client library is a record of
  its functions over its own state \<open>'s\<close>; a result is a number.
\<close>

section \<open>The loop\<close>

record 's result_lib =
  mysql_next_result :: "'s \<Rightarrow> int \<times> 's"
  take_result :: "bool \<Rightarrow> 's \<Rightarrow> nat option \<times> 's"   \<comment> \<open>\<^verbatim>\<open>mysql_store_result\<close> or \<^verbatim>\<open>mysql_use_result\<close>\<close>
  mysql_fetch_row :: "nat \<Rightarrow> 's \<Rightarrow> bool \<times> 's"       \<comment> \<open>whether there was a row\<close>
  mysql_free_result :: "nat \<Rightarrow> 's \<Rightarrow> 's"

text \<open>Without a buffer all rows have to be read first; both loops run as long as the library says.\<close>

partial_function (option) read_rows :: "'s result_lib \<Rightarrow> nat \<Rightarrow> 's \<Rightarrow> 's option" where
  "read_rows L r s = (case mysql_fetch_row L r s of (row, s1) \<Rightarrow> if row then read_rows L r s1 else Some s1)"

partial_function (option) skip_results :: "'s result_lib \<Rightarrow> bool \<Rightarrow> 's \<Rightarrow> 's option" where
  "skip_results L is_buffered s =
     (case mysql_next_result L s of (status, s1) \<Rightarrow>
        if status \<noteq> 0 then Some s1
        else (case take_result L is_buffered s1 of (extra, s2) \<Rightarrow>
          (case extra of
             None \<Rightarrow> skip_results L is_buffered s2
           | Some r \<Rightarrow>
               if is_buffered then skip_results L is_buffered (mysql_free_result L r s2)
               else Option.bind (read_rows L r s2) (\<lambda>s3. skip_results L is_buffered (mysql_free_result L r s3)))))"

section \<open>What the library promises\<close>

text \<open>
  \<open>to_come\<close> is the number of results still to come, \<open>rows\<close> the number of rows left in a result and \<open>held\<close>
  the results that are allocated.
\<close>

definition next_ok :: "'s result_lib \<Rightarrow> ('s \<Rightarrow> nat) \<Rightarrow> ('s \<Rightarrow> nat set) \<Rightarrow> bool" where
  "next_ok L to_come held \<longleftrightarrow> (\<forall>s k s1. mysql_next_result L s = (k, s1) \<longrightarrow> held s1 = held s
     \<and> (if k = 0 then to_come s = Suc (to_come s1) else to_come s1 = to_come s) \<and> (k = - 1 \<longrightarrow> to_come s = 0))"

definition take_ok :: "'s result_lib \<Rightarrow> ('s \<Rightarrow> nat) \<Rightarrow> ('s \<Rightarrow> nat set) \<Rightarrow> bool" where
  "take_ok L to_come held \<longleftrightarrow> (\<forall>b s e s1. take_result L b s = (e, s1) \<longrightarrow> to_come s1 = to_come s
     \<and> (case e of None \<Rightarrow> held s1 = held s | Some r \<Rightarrow> r \<notin> held s \<and> held s1 = insert r (held s)))"

definition fetch_ok :: "'s result_lib \<Rightarrow> ('s \<Rightarrow> nat) \<Rightarrow> (nat \<Rightarrow> 's \<Rightarrow> nat) \<Rightarrow> ('s \<Rightarrow> nat set) \<Rightarrow> bool" where
  "fetch_ok L to_come rows held \<longleftrightarrow> (\<forall>r s b s1. mysql_fetch_row L r s = (b, s1) \<longrightarrow> to_come s1 = to_come s \<and> held s1 = held s
     \<and> (b \<longrightarrow> rows r s = Suc (rows r s1)))"

definition free_ok :: "'s result_lib \<Rightarrow> ('s \<Rightarrow> nat) \<Rightarrow> ('s \<Rightarrow> nat set) \<Rightarrow> bool" where
  "free_ok L to_come held \<longleftrightarrow> (\<forall>r s. to_come (mysql_free_result L r s) = to_come s \<and> held (mysql_free_result L r s) = held s - {r})"

definition result_lib_ok :: "'s result_lib \<Rightarrow> ('s \<Rightarrow> nat) \<Rightarrow> (nat \<Rightarrow> 's \<Rightarrow> nat) \<Rightarrow> ('s \<Rightarrow> nat set) \<Rightarrow> bool" where
  "result_lib_ok L to_come rows held \<longleftrightarrow>
     next_ok L to_come held \<and> take_ok L to_come held \<and> fetch_ok L to_come rows held \<and> free_ok L to_come held"

section \<open>The loop ends\<close>

lemma read_rows_ends:
  assumes "fetch_ok L to_come rows held"
  shows "\<exists>s'. read_rows L r s = Some s' \<and> to_come s' = to_come s \<and> held s' = held s"
proof (induction "rows r s" arbitrary: s)
  case 0
  obtain b s1 where f: "mysql_fetch_row L r s = (b, s1)"
    by (cases "mysql_fetch_row L r s")
  with assms 0 have "\<not> b" "to_come s1 = to_come s" "held s1 = held s"
    by (auto simp: fetch_ok_def)
  with f show ?case
    by (simp add: read_rows.simps [of L r s])
next
  case (Suc n)
  obtain b s1 where f: "mysql_fetch_row L r s = (b, s1)"
    by (cases "mysql_fetch_row L r s")
  then have same: "to_come s1 = to_come s" "held s1 = held s" and less: "b \<longrightarrow> n = rows r s1"
    using assms Suc(2) by (auto simp: fetch_ok_def)
  show ?case
  proof (cases b)
    case True
    with Suc(1) [of s1] less same f show ?thesis
      by (simp add: read_rows.simps [of L r s])
  next
    case False
    with f same show ?thesis
      by (simp add: read_rows.simps [of L r s])
  qed
qed

text \<open>One round of the loop.\<close>

lemma skip_round:
  assumes "result_lib_ok L to_come rows held" "mysql_next_result L s = (0, s1)"
  obtains s' where "skip_results L b s = skip_results L b s'" "to_come s = Suc (to_come s')" "held s' = held s"
proof -
  obtain e s2 where t: "take_result L b s1 = (e, s2)"
    by (cases "take_result L b s1")
  have n: "to_come s = Suc (to_come s1)" "held s1 = held s"
    using assms by (auto simp: result_lib_ok_def next_ok_def)
  have s2: "to_come s2 = to_come s1" "case e of None \<Rightarrow> held s2 = held s1 | Some r \<Rightarrow> r \<notin> held s1 \<and> held s2 = insert r (held s1)"
    using assms(1) t by (auto simp: result_lib_ok_def take_ok_def)
  have free: "to_come (mysql_free_result L r x) = to_come x" "held (mysql_free_result L r x) = held x - {r}" for r x
    using assms(1) by (auto simp: result_lib_ok_def free_ok_def)
  show thesis
  proof (cases e)
    case None
    have "skip_results L b s = skip_results L b s2"
      by (subst skip_results.simps) (simp add: assms(2) t None)
    with None n s2 show thesis
      by (intro that [of s2]) simp_all
  next
    case (Some r)
    with s2 have r: "r \<notin> held s" "held s2 = insert r (held s)"
      using n by simp_all
    show thesis
    proof (cases b)
      case True
      have "take_result L True s1 = (Some r, s2)"
        using t True Some by simp
      then have "skip_results L b s = skip_results L b (mysql_free_result L r s2)"
        by (subst skip_results.simps) (simp add: assms(2) True)
      with n s2 r free show thesis
        by (intro that [of "mysql_free_result L r s2"]) simp_all
    next
      case False
      obtain s3 where s3: "read_rows L r s2 = Some s3" "to_come s3 = to_come s2" "held s3 = held s2"
        using read_rows_ends [of L to_come rows held r s2] assms(1) unfolding result_lib_ok_def by (elim conjE) metis
      have "take_result L False s1 = (Some r, s2)"
        using t False Some by simp
      then have "skip_results L b s = skip_results L b (mysql_free_result L r s3)"
        using s3(1) by (subst skip_results.simps) (simp add: assms(2) False)
      with n s2 s3 r free show thesis
        by (intro that [of "mysql_free_result L r s3"]) simp_all
    qed
  qed
qed

text \<open>
  After a query all further results are skipped: the loop ends, with and without a buffer, every
  result it takes is freed and no other is, and when the library reports no error none is left to
  come.
\<close>
theorem skip_results_ends:
  assumes "result_lib_ok L to_come rows held"
  shows "\<exists>s'. skip_results L is_buffered s = Some s' \<and> held s' = held s \<and> to_come s' \<le> to_come s
    \<and> ((\<forall>t. fst (mysql_next_result L t) \<le> 0 \<and> - 1 \<le> fst (mysql_next_result L t)) \<longrightarrow> to_come s' = 0)"
proof (induction "to_come s" arbitrary: s rule: less_induct)
  case less
  obtain k s1 where nx: "mysql_next_result L s = (k, s1)"
    by (cases "mysql_next_result L s")
  show ?case
  proof (cases "k = 0")
    case True
    then obtain s' where s': "skip_results L is_buffered s = skip_results L is_buffered s'" "to_come s = Suc (to_come s')" "held s' = held s"
      using skip_round [OF assms, of s s1 is_buffered] nx by auto
    then show ?thesis
      using less [of s'] by auto
  next
    case False
    then have "held s1 = held s" "to_come s1 = to_come s" "k = - 1 \<longrightarrow> to_come s = 0"
      using assms nx by (auto simp: result_lib_ok_def next_ok_def)
    moreover have "k = - 1" if "\<forall>t. fst (mysql_next_result L t) \<le> 0 \<and> - 1 \<le> fst (mysql_next_result L t)"
      using spec [OF that, of s] nx False by simp
    ultimately show ?thesis
      using nx False by (auto simp: skip_results.simps [of L is_buffered s])
  qed
qed

text \<open>A library whose state is the rows of the results to come, the rows left in the current one, and those that are held.\<close>

definition demo_results :: "(nat list \<times> nat \<times> nat set) result_lib" where
  "demo_results = \<lparr>mysql_next_result = (\<lambda>(ns, n, h). if ns = [] then (- 1, (ns, n, h)) else (0, (tl ns, hd ns, h))),
     take_result = (\<lambda>b (ns, n, h). if length ns \<in> h then (None, (ns, n, h)) else (Some (length ns), (ns, n, insert (length ns) h))),
     mysql_fetch_row = (\<lambda>r (ns, n, h). if n = 0 then (False, (ns, n, h)) else (True, (ns, n - 1, h))),
     mysql_free_result = (\<lambda>r (ns, n, h). (ns, n, h - {r}))\<rparr>"

lemma demo_results_ok: "result_lib_ok demo_results (\<lambda>(ns, n, h). length ns) (\<lambda>r (ns, n, h). n) (\<lambda>(ns, n, h). h)"
  by (auto simp: result_lib_ok_def next_ok_def take_ok_def fetch_ok_def free_ok_def demo_results_def
      split: if_splits prod.splits option.splits)

lemma skip_results_ends_witness:
  "\<exists>n. skip_results demo_results False ([2, 0, 3], 0, {7}) = Some ([], n, {7})"
proof -
  have "\<forall>t. fst (mysql_next_result demo_results t) \<le> 0 \<and> - 1 \<le> fst (mysql_next_result demo_results t)"
    by (simp add: demo_results_def split: prod.splits)
  then show ?thesis
    using skip_results_ends [OF demo_results_ok, of False "([2, 0, 3], 0, {7})"] by auto
qed

end
