(* ===== verification/Sync_Conn.thy ===== *)
theory Sync_Conn
  imports Mysql_Mngr
begin

text \<open>
  The connections a plugin opens and closes itself, \<^verbatim>\<open>connect\<close>, \<^verbatim>\<open>close\<close> and \<^verbatim>\<open>close_all\<close> of
  \<^verbatim>\<open>refsapi_mysql_mngr.h\<close> behind the natives \<^verbatim>\<open>rf_sql_connect\<close> and \<^verbatim>\<open>rf_sql_close\<close>.  Next to the manager
  there are the handles that are allocated in the client library.
\<close>

section \<open>Opening and closing\<close>

record client_lib =
  mysql_init :: "nat set \<Rightarrow> nat option"
  mysql_real_connect :: "sql_prm \<Rightarrow> nat \<Rightarrow> bool"
  mysql_errno :: "nat \<Rightarrow> int"
  mysql_error :: "nat \<Rightarrow> string"

text \<open>\<^verbatim>\<open>mysql_init\<close> gives a handle that is not in use.\<close>

definition lib_ok :: "client_lib \<Rightarrow> bool" where
  "lib_ok lib \<longleftrightarrow> (\<forall>used c. mysql_init lib used = Some c \<longrightarrow> c \<notin> used)"

datatype conn_error = UB_null_error_number

record conn_mngr =
  cm_mngr :: sqlmgr
  cm_handles :: "nat set"

text \<open>
  \<open>p\<close> is what the parameters hold before; \<open>err\<close> says whether the pointer to the error number is there.  The
  result is the connection, the error number when it is written, and the text of the error.
\<close>

definition sync_connect ::
  "client_lib \<Rightarrow> prm \<Rightarrow> nat \<Rightarrow> bool \<Rightarrow> 32 word list option \<Rightarrow> nat \<Rightarrow> conn_mngr \<Rightarrow>
   conn_error + (nat option \<times> int option \<times> 32 word list option) \<times> conn_mngr" where
  "sync_connect lib p conn_id err error_buff error_size cm =
     (case get_connect conn_id p (cm_mngr cm) of
        (False, _) \<Rightarrow> Inr ((None, None, error_buff), cm)
      | (True, prms) \<Rightarrow>
          (case mysql_init lib (cm_handles cm) of
             None \<Rightarrow> Inr ((None, None, error_buff), cm)
           | Some conn \<Rightarrow>
               let cm1 = cm\<lparr>cm_handles := insert conn (cm_handles cm)\<rparr>;
                   ret = (if mysql_real_connect lib (prm_sql prms) conn then Some conn else None);
                   cm2 = (if ret \<noteq> None then cm1\<lparr>cm_mngr := (cm_mngr cm1)\<lparr>conns := conns (cm_mngr cm1) @ [conn]\<rparr>\<rparr> else cm1)
               in if \<not> err then Inl UB_null_error_number
                  else Inr ((ret, Some (mysql_errno lib conn),
                             snd (set_amx_string error_buff (Some (mysql_error lib conn)) error_size)), cm2)))"

definition sync_close :: "nat \<Rightarrow> conn_mngr \<Rightarrow> bool \<times> conn_mngr" where
  "sync_close conn cm =
     (case close_conn conn (cm_mngr cm) of
        (False, _) \<Rightarrow> (False, cm)
      | (True, st) \<Rightarrow> (True, cm\<lparr>cm_mngr := st, cm_handles := cm_handles cm - {conn}\<rparr>))"

definition sync_close_all :: "conn_mngr \<Rightarrow> conn_mngr" where
  "sync_close_all cm =
     cm\<lparr>cm_mngr := (cm_mngr cm)\<lparr>conns := []\<rparr>, cm_handles := cm_handles cm - set (conns (cm_mngr cm))\<rparr>"

section \<open>What plugins do\<close>

inductive conn_step :: "client_lib \<Rightarrow> conn_mngr \<Rightarrow> conn_mngr \<Rightarrow> bool" for lib where
  do_connect: "sync_connect lib p conn_id err buff sz cm = Inr (r, cm') \<Longrightarrow> conn_step lib cm cm'"
| do_close: "sync_close conn cm = (r, cm') \<Longrightarrow> conn_step lib cm cm'"
| do_close_all: "conn_step lib cm (sync_close_all cm)"

definition conns_ok :: "conn_mngr \<Rightarrow> bool" where
  "conns_ok cm \<longleftrightarrow> distinct (conns (cm_mngr cm)) \<and> set (conns (cm_mngr cm)) \<subseteq> cm_handles cm"

lemma sync_connect_cases:
  assumes "sync_connect lib p conn_id err buff sz cm = Inr ((ret, e, t), cm')"
  obtains (refused) "ret = None" "e = None" "cm' = cm"
  | (failed) conn where "mysql_init lib (cm_handles cm) = Some conn" "ret = None"
      "cm' = cm\<lparr>cm_handles := insert conn (cm_handles cm)\<rparr>"
  | (opened) conn where "mysql_init lib (cm_handles cm) = Some conn" "ret = Some conn"
      "cm_handles cm' = insert conn (cm_handles cm)" "conns (cm_mngr cm') = conns (cm_mngr cm) @ [conn]"
proof -
  obtain ok prms where g: "get_connect conn_id p (cm_mngr cm) = (ok, prms)"
    by (cases "get_connect conn_id p (cm_mngr cm)")
  note d = sync_connect_def g Let_def
  show thesis
  proof (cases "ok \<and> mysql_init lib (cm_handles cm) \<noteq> None")
    case False
    then show thesis
      using assms refused by (cases ok) (auto simp: d)
  next
    case True
    then obtain c where c: "mysql_init lib (cm_handles cm) = Some c"
      by blast
    show thesis
    proof (cases "mysql_real_connect lib (prm_sql prms) c")
      case True
      with c \<open>ok \<and> _\<close> assms show thesis
        by (intro opened [of c]) (auto simp: d split: if_splits)
    next
      case False
      with c \<open>ok \<and> _\<close> assms show thesis
        by (intro failed [of c]) (auto simp: d split: if_splits)
    qed
  qed
qed

lemma sync_close_open:
  "sync_close conn cm =
     (if conn \<in> set (conns (cm_mngr cm))
      then (True, cm\<lparr>cm_mngr := (cm_mngr cm)\<lparr>conns := remove1 conn (conns (cm_mngr cm))\<rparr>, cm_handles := cm_handles cm - {conn}\<rparr>)
      else (False, cm))"
  by (simp add: sync_close_def close_conn_def)

lemma conn_step_ok:
  assumes "lib_ok lib" "conn_step lib cm cm'" "conns_ok cm"
  shows "conns_ok cm'"
  using assms(2)
proof (cases rule: conn_step.cases)
  case (do_connect p conn_id err buff sz r)
  obtain ret e t where "r = (ret, e, t)"
    by (cases r)
  with do_connect have "sync_connect lib p conn_id err buff sz cm = Inr ((ret, e, t), cm')"
    by simp
  then show ?thesis
  proof (cases rule: sync_connect_cases)
    case (opened conn)
    then have "conn \<notin> cm_handles cm"
      using assms(1) by (simp add: lib_ok_def)
    then show ?thesis
      using opened assms(3) by (auto simp: conns_ok_def)
  qed (use assms(3) in \<open>auto simp: conns_ok_def\<close>)
next
  case (do_close conn r)
  then show ?thesis
    using assms(3) by (auto simp: conns_ok_def sync_close_open split: if_splits)
next
  case do_close_all
  then show ?thesis
    by (simp add: conns_ok_def sync_close_all_def)
qed

lemma conn_steps_ok: "(conn_step lib)\<^sup>*\<^sup>* cm cm' \<Longrightarrow> lib_ok lib \<Longrightarrow> conns_ok cm \<Longrightarrow> conns_ok cm'"
  by (induction rule: rtranclp_induct) (auto intro: conn_step_ok)

text \<open>A handle that no list knows is never freed.\<close>

lemma conn_step_leak:
  assumes "lib_ok lib" "conn_step lib cm cm'" "conn \<in> cm_handles cm" "conn \<notin> set (conns (cm_mngr cm))"
  shows "conn \<in> cm_handles cm' \<and> conn \<notin> set (conns (cm_mngr cm'))"
  using assms(2)
proof (cases rule: conn_step.cases)
  case (do_connect p conn_id err buff sz r)
  obtain ret e t where "r = (ret, e, t)"
    by (cases r)
  with do_connect have "sync_connect lib p conn_id err buff sz cm = Inr ((ret, e, t), cm')"
    by simp
  then show ?thesis
  proof (cases rule: sync_connect_cases)
    case (opened c)
    then have "c \<noteq> conn"
      using assms(1,3) by (auto simp: lib_ok_def)
    then show ?thesis
      using opened assms by auto
  qed (use assms in auto)
next
  case (do_close c r)
  then show ?thesis
    using assms by (auto simp: sync_close_open split: if_splits dest: notin_set_remove1)
next
  case do_close_all
  then show ?thesis
    using assms by (simp add: sync_close_all_def)
qed

definition conn_init :: "sqlmgr \<Rightarrow> conn_mngr" where
  "conn_init st = \<lparr>cm_mngr = st\<lparr>conns := []\<rparr>, cm_handles = {}\<rparr>"

lemma conn_init_ok: "conns_ok (conn_init st)"
  by (simp add: conns_ok_def conn_init_def)

text \<open>
  C36: A connection that was opened is closed exactly once, whatever plugins open and close before and
  after: the native finds it, frees its handle and no other, and a second call finds nothing and frees
  nothing; at the end of the map all that is open is freed.
\<close>
theorem connection_closed_once:
  assumes "lib_ok lib" "(conn_step lib)\<^sup>*\<^sup>* (conn_init st) cm" "sync_connect lib p conn_id err buff sz cm = Inr ((Some conn, e, t), cm1)"
    and "(conn_step lib)\<^sup>*\<^sup>* cm1 cm2" "conn \<in> set (conns (cm_mngr cm2))" "sync_close conn cm2 = (r, cm3)"
  shows "conn \<notin> cm_handles cm \<and> conn \<in> set (conns (cm_mngr cm1)) \<and> r
    \<and> cm_handles cm3 = cm_handles cm2 - {conn} \<and> set (conns (cm_mngr cm3)) = set (conns (cm_mngr cm2)) - {conn}
    \<and> sync_close conn cm3 = (False, cm3)
    \<and> cm_handles (sync_close_all cm3) \<inter> set (conns (cm_mngr cm3)) = {}"
proof -
  have ok: "conns_ok cm"
    by (rule conn_steps_ok [OF assms(2,1) conn_init_ok])
  have "conn_step lib cm cm1"
    by (rule do_connect [OF assms(3)])
  then have ok1: "conns_ok cm1"
    using conn_step_ok assms(1) ok by blast
  have ok2: "conns_ok cm2"
    by (rule conn_steps_ok [OF assms(4,1) ok1])
  have new: "conn \<notin> cm_handles cm \<and> conn \<in> set (conns (cm_mngr cm1))"
    using assms(3) by (cases rule: sync_connect_cases) (use assms(1) in \<open>simp_all add: lib_ok_def\<close>)
  have "set (remove1 conn (conns (cm_mngr cm2))) = set (conns (cm_mngr cm2)) - {conn}"
    using ok2 by (simp add: conns_ok_def)
  moreover have "r" "cm3 = cm2\<lparr>cm_mngr := (cm_mngr cm2)\<lparr>conns := remove1 conn (conns (cm_mngr cm2))\<rparr>,
      cm_handles := cm_handles cm2 - {conn}\<rparr>"
    using assms(5,6) by (simp_all add: sync_close_open)
  moreover have "cm_handles (sync_close_all cm3) \<inter> set (conns (cm_mngr cm3)) = {}"
    by (auto simp: sync_close_all_def)
  ultimately show ?thesis
    using new by (simp add: sync_close_open)
qed

definition demo_lib :: client_lib where
  "demo_lib = \<lparr>mysql_init = (\<lambda>used. if 7 \<in> used then None else Some 7), mysql_real_connect = (\<lambda>_ _. True),
     mysql_errno = (\<lambda>_. 0), mysql_error = (\<lambda>_. [])\<rparr>"

definition demo_prm :: prm where
  "demo_prm = make_prm 0 (- 1) ''localhost'' ''root'' '''' ''db'' ''utf8'' 3"

definition demo_conns :: conn_mngr where
  "demo_conns = conn_init ((sqlmgr_init 4)\<lparr>m_conn_prms := [demo_prm]\<rparr>)"

lemma connection_closed_once_witness:
  "\<exists>cm1 cm3. sync_connect demo_lib demo_prm 1 True None 0 demo_conns = Inr ((Some 7, Some 0, None), cm1)
    \<and> sync_close 7 cm1 = (True, cm3) \<and> sync_close 7 cm3 = (False, cm3)"
proof -
  let ?cm1 = "\<lparr>cm_mngr = (sqlmgr_init 4)\<lparr>m_conn_prms := [demo_prm], conns := [7]\<rparr>, cm_handles = {7}\<rparr>"
  have "get_connect 1 demo_prm (cm_mngr demo_conns) = (True, demo_prm)"
    by (simp add: get_connect_def demo_conns_def conn_init_def)
  then have c: "sync_connect demo_lib demo_prm 1 True None 0 demo_conns = Inr ((Some 7, Some 0, None), ?cm1)"
    by (simp add: sync_connect_def demo_lib_def demo_conns_def conn_init_def sqlmgr_init_def set_amx_string_def)
  then obtain cm1 where cm1: "sync_connect demo_lib demo_prm 1 True None 0 demo_conns = Inr ((Some 7, Some 0, None), cm1)"
      "conns (cm_mngr cm1) = [7]"
    by simp
  obtain r cm3 where cm3: "sync_close 7 cm1 = (r, cm3)"
    by (cases "sync_close 7 cm1")
  have lib: "lib_ok demo_lib"
    by (simp add: lib_ok_def demo_lib_def)
  have mem: "(7 :: nat) \<in> set (conns (cm_mngr cm1))"
    by (simp add: cm1(2))
  have "r \<and> sync_close 7 cm3 = (False, cm3)"
    using connection_closed_once [OF lib rtranclp.rtrancl_refl cm1(1) [unfolded demo_conns_def] rtranclp.rtrancl_refl mem cm3]
    by blast
  then have "r = True" "sync_close 7 cm3 = (False, cm3)"
    by simp_all
  with cm1(1) cm3 show ?thesis
    by (intro exI [of _ cm1] exI [of _ cm3]) simp
qed

text \<open>
  A connection that fails leaks its handle: no later call frees it.
\<close>
theorem failed_connect_leaks:
  assumes "lib_ok lib" "conns_ok cm" "mysql_init lib (cm_handles cm) = Some conn"
    and "sync_connect lib p conn_id err buff sz cm = Inr ((None, Some e, t), cm1)" "(conn_step lib)\<^sup>*\<^sup>* cm1 cm2"
  shows "conn \<in> cm_handles cm2"
proof -
  have "conn \<in> cm_handles cm1 \<and> conn \<notin> set (conns (cm_mngr cm1))"
  proof -
    have "conn \<notin> set (conns (cm_mngr cm))"
      using assms(1-3) by (auto simp: lib_ok_def conns_ok_def)
    moreover have "cm1 = cm\<lparr>cm_handles := insert conn (cm_handles cm)\<rparr>"
      using assms(4) by (cases rule: sync_connect_cases) (use assms(3) in simp_all)
    ultimately show ?thesis
      by simp
  qed
  with assms(5) have "conn \<in> cm_handles cm2 \<and> conn \<notin> set (conns (cm_mngr cm2))"
    by (induction rule: rtranclp_induct) (use conn_step_leak assms(1) in blast)+
  then show ?thesis
    by blast
qed

section \<open>The native that makes a tuple\<close>

text \<open>\<open>register_forward\<close> is \<^verbatim>\<open>RegisterSPForwardByName\<close>; a callback that cannot be registered ends the native.\<close>

definition rf_sql_tuple ::
  "(string \<Rightarrow> int) \<Rightarrow> nat \<Rightarrow> string \<Rightarrow> string \<Rightarrow> string \<Rightarrow> string \<Rightarrow> string \<Rightarrow> nat \<Rightarrow> string \<Rightarrow> sqlmgr \<Rightarrow> nat \<times> sqlmgr" where
  "rf_sql_tuple register_forward amx callback host user pass name timeout chrs st =
     (let fwd = (if callback = [] then - 1 else register_forward callback)
      in if callback \<noteq> [] \<and> fwd = - 1 then (0, st)
         else add_connect amx fwd host user pass name chrs timeout st)"

text \<open>A tuple can be used for connections just when the native has not failed.\<close>

lemma sql_tuple_valid:
  assumes "rf_sql_tuple reg amx cb h u pw n t chrs st = (tuple, st')"
  shows "fst (get_connect tuple p st') \<longleftrightarrow> cb = [] \<or> reg cb \<noteq> - 1"
  using assms by (auto simp: rf_sql_tuple_def add_connect_def get_connect_def Let_def split: if_splits)

end
