(* ===== verification/Transfer_Items.thy ===== *)
theory Transfer_Items
  imports Entities
begin

text \<open>
  \<^verbatim>\<open>rf_transfer_items\<close> of \<^verbatim>\<open>natives_refsapi.cpp\<close>: the weapons and the equipment of a player are given to
  another one.  The native calls the game, whose functions are a parameter, and the game calls the
  hooks of \<open>Entities\<close>, which change the very lists the native walks.
\<close>

section \<open>State\<close>

record titem =
  m_iId :: nat
  m_IsWeapon :: bool
  m_iPrimaryAmmoType :: int
  m_flReleaseThrow :: rat
  m_flStartThrow :: rat
  m_flTimeWeaponIdle :: rat
  m_flNextPrimaryAttack :: rat
  m_flNextSecondaryAttack :: rat
  m_iWeaponState :: "32 word"

record tplayer =
  pl_connected :: bool
  m_bOwnsShield :: bool
  m_bShieldDrawn :: bool
  m_bNightVisionOn :: bool
  m_bHasDefuser :: bool
  m_bHasC4 :: bool
  m_iTeam :: int
  m_rgAmmo :: "int \<Rightarrow> int"
  m_pActiveItem :: "int option"
  v_button :: "32 word"
  m_flNextAttack :: rat

record tgame =
  tg_tries :: tries
  tg_world :: world
  tg_items :: "int \<Rightarrow> titem option"
  tg_players :: "int \<Rightarrow> tplayer"
  m_bBombDropped :: bool

text \<open>The functions of the game; a player and an item are entity indices.\<close>

record transfer_game =
  gm_RemovePlayerItem :: "int \<Rightarrow> int \<Rightarrow> tgame \<Rightarrow> bool \<times> tgame"
  gm_AddPlayerItem :: "int \<Rightarrow> int \<Rightarrow> tgame \<Rightarrow> bool \<times> tgame"
  gm_CanHavePlayerItem :: "int \<Rightarrow> int \<Rightarrow> tgame \<Rightarrow> bool"
  gm_AttachToPlayer :: "int \<Rightarrow> int \<Rightarrow> tgame \<Rightarrow> tgame"
  gm_GetNextBestWeapon :: "int \<Rightarrow> int \<Rightarrow> tgame \<Rightarrow> tgame"
  gm_SwitchWeapon :: "int \<Rightarrow> int \<Rightarrow> tgame \<Rightarrow> tgame"
  gm_Kill :: "int \<Rightarrow> tgame \<Rightarrow> tgame"
  gm_RemoveAllItems :: "int \<Rightarrow> tgame \<Rightarrow> tgame"
  gm_GiveShield :: "int \<Rightarrow> tgame \<Rightarrow> tgame"
  gm_RemoveShield :: "int \<Rightarrow> tgame \<Rightarrow> tgame"
  gm_GiveDefuser :: "int \<Rightarrow> tgame \<Rightarrow> tgame"
  gm_RemoveDefuser :: "int \<Rightarrow> tgame \<Rightarrow> tgame"
  gm_SetBombIcon :: "int \<Rightarrow> tgame \<Rightarrow> tgame"
  gm_maxClients :: int
  gm_time :: rat

definition set_player :: "int \<Rightarrow> (tplayer \<Rightarrow> tplayer) \<Rightarrow> tgame \<Rightarrow> tgame" where
  "set_player p f g = g\<lparr>tg_players := (tg_players g)(p := f (tg_players g p))\<rparr>"

text \<open>The calls of the game with the hooks behind them.\<close>

definition remove_item :: "transfer_game \<Rightarrow> int \<Rightarrow> int \<Rightarrow> tgame \<Rightarrow> bool \<times> tgame" where
  "remove_item G p e g =
     (case gm_RemovePlayerItem G p e g of
        (ok, g1) \<Rightarrow>
          let owner = (case tg_world g1 e of None \<Rightarrow> 0 | Some ed \<Rightarrow> ed_owner ed)
          in (ok, g1\<lparr>tg_tries := RemovePlayerItem (gm_maxClients G) ok e owner (tg_tries g1)\<rparr>))"

definition set_owner :: "int \<Rightarrow> int \<Rightarrow> world \<Rightarrow> world" where
  "set_owner e p w = w(e := map_option (\<lambda>ed. ed\<lparr>ed_owner := p\<rparr>) (w e))"

definition add_item :: "transfer_game \<Rightarrow> int \<Rightarrow> int \<Rightarrow> tgame \<Rightarrow> bool \<times> tgame" where
  "add_item G p e g =
     (case gm_AddPlayerItem G p e g of
        (ok, g1) \<Rightarrow>
          (ok, if ok then g1\<lparr>tg_tries := AddPlayerItem True p e (tg_tries g1), tg_world := set_owner e p (tg_world g1)\<rparr>
               else g1))"

section \<open>Emptying the receiver\<close>

text \<open>
  The loop goes over \<^verbatim>\<open>g_Tries.player_entities[to]\<close> itself; the hook of an item that is removed erases
  it from that vector, and the iterator of the loop with it.
\<close>

definition removable :: "int \<Rightarrow> 32 word \<Rightarrow> tgame \<Rightarrow> int \<Rightarrow> bool" where
  "removable to skip g e =
     (case (tg_world g e, tg_items g e) of
        (Some ed, Some it) \<Rightarrow> \<not> ed_free ed \<and> ed_private ed \<and> ed_owner ed = to \<and> m_iId it \<noteq> 0 \<and> \<not> bit skip (m_iId it)
      | _ \<Rightarrow> False)"

fun clear_loop :: "transfer_game \<Rightarrow> int \<Rightarrow> 32 word \<Rightarrow> int list \<Rightarrow> tgame \<Rightarrow> ent_error + tgame" where
  "clear_loop G to skip [] g = Inr g"
| "clear_loop G to skip (e # es) g =
     (if \<not> removable to skip g e then clear_loop G to skip es g
      else case remove_item G to e g of
        (ok, g1) \<Rightarrow>
          if \<not> ok then clear_loop G to skip es g1
          else if player_entities (tg_tries g1) to \<noteq> player_entities (tg_tries g) to then Inl UB_iterator_invalidated
          else clear_loop G to skip es (gm_Kill G e g1))"

definition replace_items :: "transfer_game \<Rightarrow> int \<Rightarrow> 32 word \<Rightarrow> bool \<Rightarrow> tgame \<Rightarrow> ent_error + tgame" where
  "replace_items G to skip replace g =
     (if \<not> replace then Inr g
      else if skip \<noteq> 0 then clear_loop G to skip (player_entities (tg_tries g) to) g
      else Inr (gm_RemoveAllItems G to g))"

section \<open>Equipment\<close>

definition move_equipment :: "transfer_game \<Rightarrow> int \<Rightarrow> int \<Rightarrow> tgame \<Rightarrow> tgame" where
  "move_equipment G from to g0 =
     (let g1 = (if m_bOwnsShield (tg_players g0 from)
                then let a = gm_GiveShield G to g0
                     in gm_RemoveShield G from (set_player to (\<lambda>p. p\<lparr>m_bShieldDrawn := m_bShieldDrawn (tg_players a from)\<rparr>) a)
                else g0);
          g2 = (if m_bNightVisionOn (tg_players g1 from)
                then set_player to (\<lambda>p. p\<lparr>m_bNightVisionOn := True\<rparr>) (set_player from (\<lambda>p. p\<lparr>m_bNightVisionOn := False\<rparr>) g1)
                else g1)
      in if m_bHasDefuser (tg_players g2 from)
         then let b = gm_RemoveDefuser G from g2 in if m_iTeam (tg_players b to) = 2 then gm_GiveDefuser G to b else b
         else g2)"

section \<open>Weapons\<close>

definition is_grenade :: "nat \<Rightarrow> bool" where
  "is_grenade n = (n = 4 \<or> n = 25 \<or> n = 9)"

definition weapon_c4 :: nat where
  "weapon_c4 = 6"

text \<open>A grenade in the hand, which may be about to be thrown.\<close>

definition reset_grenade :: "transfer_game \<Rightarrow> int \<Rightarrow> int \<Rightarrow> int \<Rightarrow> tgame \<Rightarrow> tgame" where
  "reset_grenade G from to e g =
     (let now = gm_time G;
          g1 = g\<lparr>tg_items := (tg_items g)(e := map_option (\<lambda>it. it\<lparr>m_flStartThrow := 0, m_flReleaseThrow := - 1,
                   m_iWeaponState := m_iWeaponState it AND NOT (push_bit 5 1), m_flTimeWeaponIdle := now + 11 / 20,
                   m_flNextPrimaryAttack := now, m_flNextSecondaryAttack := now\<rparr>) (tg_items g e))\<rparr>;
          g2 = set_player from (\<lambda>p. p\<lparr>v_button := v_button p AND NOT 1\<rparr>) g1
      in if m_pActiveItem (tg_players g2 to) = Some e then set_player to (\<lambda>p. p\<lparr>m_flNextAttack := now\<rparr>) g2 else g2)"

definition after_add :: "transfer_game \<Rightarrow> int \<Rightarrow> int \<Rightarrow> int \<Rightarrow> nat \<Rightarrow> int \<Rightarrow> int \<Rightarrow> tgame \<Rightarrow> tgame" where
  "after_add G from to e n ammo bp g =
     (let g1 = gm_AttachToPlayer G to e g;
          g2 = (if bp > 0 then set_player to (\<lambda>p. p\<lparr>m_rgAmmo := (m_rgAmmo p)(ammo := bp)\<rparr>) g1 else g1)
      in if n = weapon_c4 \<and> m_iTeam (tg_players g2 from) = m_iTeam (tg_players g2 to)
         then (gm_SetBombIcon G to (set_player to (\<lambda>p. p\<lparr>m_bHasC4 := True\<rparr>) g2))\<lparr>m_bBombDropped := False\<rparr>
         else g2)"

definition note_active :: "int \<Rightarrow> int \<Rightarrow> int option \<Rightarrow> tgame \<Rightarrow> int option" where
  "note_active from e active g = (if m_pActiveItem (tg_players g from) = Some e then Some e else active)"

definition move_item ::
    "transfer_game \<Rightarrow> int \<Rightarrow> int \<Rightarrow> bool \<Rightarrow> int \<Rightarrow> titem \<Rightarrow> int \<Rightarrow> int option \<times> tgame \<Rightarrow> int option \<times> tgame" where
  "move_item G from to force e it bp st =
     (case st of (active, g) \<Rightarrow>
      case remove_item G from e g of (ok, g1) \<Rightarrow>
        if \<not> ok then (note_active from e active g1, g1)
        else if \<not> (force \<or> gm_CanHavePlayerItem G to e g1) then (active, gm_Kill G e g1)
        else (case add_item G to e g1 of
                (added, g2) \<Rightarrow>
                  let g3 = (if added then after_add G from to e (m_iId it) (m_iPrimaryAmmoType it) bp g2 else g2)
                  in (note_active from e active g3, g3)))"

text \<open>The weapons that are moved at all.\<close>

definition to_move :: "int \<Rightarrow> 32 word \<Rightarrow> tgame \<Rightarrow> int \<Rightarrow> titem option" where
  "to_move from skip g e =
     (case (tg_world g e, tg_items g e) of
        (Some ed, Some it) \<Rightarrow> if ed_private ed \<and> ed_owner ed = from \<and> m_IsWeapon it \<and> \<not> bit skip (m_iId it) then Some it else None
      | _ \<Rightarrow> None)"

definition transfer_one ::
    "transfer_game \<Rightarrow> int \<Rightarrow> int \<Rightarrow> 32 word \<Rightarrow> bool \<Rightarrow> int \<Rightarrow> int option \<times> tgame \<Rightarrow> int option \<times> tgame" where
  "transfer_one G from to skip force e st =
     (case st of (active, g) \<Rightarrow>
      case to_move from skip g e of
        None \<Rightarrow> (active, g)
      | Some it \<Rightarrow>
          let plr = tg_players g from;
              bp = (if m_iPrimaryAmmoType it \<ge> 0 then max (m_rgAmmo plr (m_iPrimaryAmmoType it)) 0 else 0)
          in if is_grenade (m_iId it) \<and> m_pActiveItem plr = Some e then
               (if m_flReleaseThrow it > 0 \<and> m_flTimeWeaponIdle it \<le> gm_time G \<and> bp = 0
                then (active, gm_GetNextBestWeapon G from e g)
                else move_item G from to force e it bp (active, reset_grenade G from to e g))
             else move_item G from to force e it bp (active, g))"

definition transfer_weapons ::
    "transfer_game \<Rightarrow> int \<Rightarrow> int \<Rightarrow> 32 word \<Rightarrow> bool \<Rightarrow> int list \<Rightarrow> tgame \<Rightarrow> int option \<times> tgame" where
  "transfer_weapons G from to skip force es g = fold (transfer_one G from to skip force) es (None, g)"

definition rf_transfer_items ::
    "transfer_game \<Rightarrow> int \<Rightarrow> int \<Rightarrow> 32 word \<Rightarrow> bool \<Rightarrow> bool \<Rightarrow> tgame \<Rightarrow> ent_error + bool \<times> tgame" where
  "rf_transfer_items G from to skip replace force g =
     (if \<not> is_valid_index (gm_maxClients G) from \<or> \<not> is_valid_index (gm_maxClients G) to
         \<or> \<not> pl_connected (tg_players g from) \<or> \<not> pl_connected (tg_players g to)
      then Inr (False, g)
      else bind_r (replace_items G to skip replace g) (\<lambda>g1.
        let g2 = move_equipment G from to g1
        in case transfer_weapons G from to skip force (player_entities (tg_tries g2) from) g2 of
             (active, g3) \<Rightarrow>
               Inr (True, case active of
                            Some e \<Rightarrow> if m_pActiveItem (tg_players g3 to) \<noteq> Some e then gm_SwitchWeapon G to e g3 else g3
                          | None \<Rightarrow> g3)))"

section \<open>What the game keeps\<close>

text \<open>
  What the native sees of an entity: whether it has private data, its owner, the number of the item and
  whether it is a weapon.
\<close>

definition item_view :: "tgame \<Rightarrow> int \<Rightarrow> (bool \<times> int) option \<times> (nat \<times> bool) option" where
  "item_view g e = (map_option (\<lambda>ed. (ed_private ed, ed_owner ed)) (tg_world g e),
                    map_option (\<lambda>it. (m_iId it, m_IsWeapon it)) (tg_items g e))"

text \<open>
  The functions of the game leave the registry alone, which only the hooks change, and of the entities
  they change at most the item they are called for; taking an item away leaves it its owner.
\<close>

definition keeps_but :: "int set \<Rightarrow> tgame \<Rightarrow> tgame \<Rightarrow> bool" where
  "keeps_but es g g' = (tg_tries g' = tg_tries g \<and> (\<forall>x. x \<notin> es \<longrightarrow> item_view g' x = item_view g x))"

definition game_laws :: "transfer_game \<Rightarrow> bool" where
  "game_laws G =
     ((\<forall>p e g. keeps_but {} g (snd (gm_RemovePlayerItem G p e g)))
    \<and> (\<forall>p e g. keeps_but {e} g (snd (gm_AddPlayerItem G p e g)))
    \<and> (\<forall>p e g. keeps_but {e} g (gm_AttachToPlayer G p e g))
    \<and> (\<forall>p e g. keeps_but {} g (gm_GetNextBestWeapon G p e g))
    \<and> (\<forall>p e g. keeps_but {} g (gm_SwitchWeapon G p e g))
    \<and> (\<forall>e g. keeps_but {e} g (gm_Kill G e g))
    \<and> (\<forall>p g. keeps_but {} g (gm_GiveShield G p g)) \<and> (\<forall>p g. keeps_but {} g (gm_RemoveShield G p g))
    \<and> (\<forall>p g. keeps_but {} g (gm_GiveDefuser G p g)) \<and> (\<forall>p g. keeps_but {} g (gm_RemoveDefuser G p g))
    \<and> (\<forall>p g. keeps_but {} g (gm_SetBombIcon G p g)))"

lemma keeps_but_refl [simp]: "keeps_but es g g"
  by (simp add: keeps_but_def)

lemma keeps_but_trans: "keeps_but es g g1 \<Longrightarrow> keeps_but es' g1 g2 \<Longrightarrow> keeps_but (es \<union> es') g g2"
  by (simp add: keeps_but_def)

lemma keeps_but_mono: "keeps_but es g g' \<Longrightarrow> es \<subseteq> es' \<Longrightarrow> keeps_but es' g g'"
  by (auto simp: keeps_but_def)

lemma keeps_then: "keeps_but es g g1 \<Longrightarrow> keeps_but es g1 g2 \<Longrightarrow> keeps_but es g g2"
  using keeps_but_trans [of es g g1 es g2] by simp

lemma keeps_set_player [simp]: "keeps_but es g (set_player p f g)"
  by (simp add: keeps_but_def set_player_def item_view_def)

lemma keeps_bomb: "keeps_but es g g' \<Longrightarrow> keeps_but es g (g'\<lparr>m_bBombDropped := b\<rparr>)"
  by (simp add: keeps_but_def item_view_def)

lemma keeps_reset_grenade: "keeps_but {} g (reset_grenade G from to e g)"
  by (auto simp: reset_grenade_def Let_def keeps_but_def set_player_def item_view_def option.map_comp comp_def)

lemma keeps_after_add:
  assumes "game_laws G"
  shows "keeps_but {e} g (after_add G from to e n ammo bp g)"
proof -
  have a: "keeps_but {e} g (gm_AttachToPlayer G to e g)"
    using assms by (simp add: game_laws_def)
  let ?g1 = "gm_AttachToPlayer G to e g"
  let ?g2 = "if bp > 0 then set_player to (\<lambda>p. p\<lparr>m_rgAmmo := (m_rgAmmo p)(ammo := bp)\<rparr>) ?g1 else ?g1"
  have b: "keeps_but {e} g ?g2"
    using keeps_then [OF a] by simp
  have c: "keeps_but {e} g (set_player to (\<lambda>p. p\<lparr>m_bHasC4 := True\<rparr>) ?g2)"
    by (rule keeps_then [OF b]) simp
  have "keeps_but {} (set_player to (\<lambda>p. p\<lparr>m_bHasC4 := True\<rparr>) ?g2) (gm_SetBombIcon G to (set_player to (\<lambda>p. p\<lparr>m_bHasC4 := True\<rparr>) ?g2))"
    using assms unfolding game_laws_def by blast
  then have d: "keeps_but {e} g (gm_SetBombIcon G to (set_player to (\<lambda>p. p\<lparr>m_bHasC4 := True\<rparr>) ?g2))"
    by (rule keeps_then [OF c keeps_but_mono]) simp
  show ?thesis
    unfolding after_add_def Let_def using b keeps_bomb [OF d] by (simp split: if_split)
qed

section \<open>Where an item goes\<close>

definition off_list :: "int \<Rightarrow> int \<Rightarrow> tries \<Rightarrow> tries" where
  "off_list p e t = t\<lparr>player_entities := (player_entities t)(p := remove1 e (player_entities t p))\<rparr>"

definition on_list :: "int \<Rightarrow> int \<Rightarrow> tries \<Rightarrow> tries" where
  "on_list p e t = t\<lparr>player_entities := (player_entities t)(p := player_entities t p @ [e])\<rparr>"

lemma remove_item_effect:
  assumes laws: "game_laws G" and valid: "is_valid_index (gm_maxClients G) from" and own: "fst (item_view g e) = Some (b, from)"
    and run: "remove_item G from e g = (ok, g1)"
  shows "tg_tries g1 = (if ok then off_list from e (tg_tries g) else tg_tries g)" "\<And>x. item_view g1 x = item_view g x"
proof -
  obtain a where a: "gm_RemovePlayerItem G from e g = (ok, a)"
    using run by (auto simp: remove_item_def Let_def split: prod.splits)
  have k: "keeps_but {} g a"
    using laws a unfolding game_laws_def by (metis snd_conv)
  then have "fst (item_view a e) = Some (b, from)"
    using own by (simp add: keeps_but_def)
  then obtain ed where ed: "tg_world a e = Some ed" "ed_owner ed = from"
    by (auto simp: item_view_def)
  have g1: "g1 = a\<lparr>tg_tries := RemovePlayerItem (gm_maxClients G) ok e from (tg_tries a)\<rparr>"
    using run a ed by (simp add: remove_item_def Let_def)
  show "tg_tries g1 = (if ok then off_list from e (tg_tries g) else tg_tries g)"
    using k valid by (simp add: g1 keeps_but_def RemovePlayerItem_def off_list_def vector_remove_def)
  show "item_view g1 x = item_view g x" for x
    using k by (simp add: g1 keeps_but_def item_view_def)
qed

lemma add_item_effect:
  assumes laws: "game_laws G" and run: "add_item G to e g = (ok, g1)"
  shows "tg_tries g1 = (if ok then on_list to e (tg_tries g) else tg_tries g)" "x \<noteq> e \<Longrightarrow> item_view g1 x = item_view g x"
proof -
  obtain a where a: "gm_AddPlayerItem G to e g = (ok, a)"
    using run by (auto simp: add_item_def split: prod.splits)
  have k: "keeps_but {e} g a"
    using laws a unfolding game_laws_def by (metis snd_conv)
  have g1: "g1 = (if ok then a\<lparr>tg_tries := AddPlayerItem True to e (tg_tries a), tg_world := set_owner e to (tg_world a)\<rparr> else a)"
    using run a by (simp add: add_item_def)
  show "tg_tries g1 = (if ok then on_list to e (tg_tries g) else tg_tries g)"
    using k by (simp add: g1 keeps_but_def AddPlayerItem_def on_list_def vector_add_def)
  show "item_view g1 x = item_view g x" if "x \<noteq> e"
    using k that by (simp add: g1 keeps_but_def item_view_def set_owner_def)
qed

text \<open>An item stays on the list of its owner, leaves it, or goes to the end of the other list.\<close>

lemma move_item_effect:
  assumes laws: "game_laws G" and valid: "is_valid_index (gm_maxClients G) from" and own: "fst (item_view g e) = Some (b, from)"
    and run: "move_item G from to force e it bp (active, g) = (active', g')"
  shows "tg_tries g' \<in> {tg_tries g, off_list from e (tg_tries g), on_list to e (off_list from e (tg_tries g))}"
    and "x \<noteq> e \<Longrightarrow> item_view g' x = item_view g x"
    and "(\<And>p g. fst (gm_RemovePlayerItem G p e g) \<and> fst (gm_AddPlayerItem G p e g)) \<Longrightarrow> force
      \<Longrightarrow> tg_tries g' = on_list to e (off_list from e (tg_tries g))"
proof -
  obtain ok g1 where r: "remove_item G from e g = (ok, g1)"
    by (cases "remove_item G from e g")
  note eff = remove_item_effect [OF laws valid own r]
  have kill: "keeps_but {e} g1 (gm_Kill G e g1)"
    using laws by (simp add: game_laws_def)
  obtain added g2 where a: "add_item G to e g1 = (added, g2)"
    by (cases "add_item G to e g1")
  note aeff = add_item_effect [OF laws a]
  let ?g3 = "if added then after_add G from to e (m_iId it) (m_iPrimaryAmmoType it) bp g2 else g2"
  have k3: "keeps_but {e} g2 ?g3"
    using keeps_after_add [OF laws] by simp
  have g': "g' = (if \<not> ok then g1 else if \<not> (force \<or> gm_CanHavePlayerItem G to e g1) then gm_Kill G e g1 else ?g3)"
    using run by (auto simp: move_item_def r a Let_def split: if_splits)
  show "tg_tries g' \<in> {tg_tries g, off_list from e (tg_tries g), on_list to e (off_list from e (tg_tries g))}"
    using eff aeff kill k3 by (simp add: g' keeps_but_def)
  show "item_view g' x = item_view g x" if "x \<noteq> e"
    using eff aeff(2) [OF that] kill k3 that by (simp add: g' keeps_but_def)
  assume agree: "\<And>p g. fst (gm_RemovePlayerItem G p e g) \<and> fst (gm_AddPlayerItem G p e g)" and "force"
  have "ok"
    using agree [of "from" g] r by (auto simp: remove_item_def Let_def split: prod.splits)
  moreover have "added"
    using agree [of "to" g1] a by (auto simp: add_item_def split: prod.splits)
  ultimately show "tg_tries g' = on_list to e (off_list from e (tg_tries g))"
    using eff aeff k3 \<open>force\<close> by (simp add: g' keeps_but_def)
qed

section \<open>The loop over the weapons\<close>

definition moved :: "int \<Rightarrow> 32 word \<Rightarrow> (bool \<times> int) option \<times> (nat \<times> bool) option \<Rightarrow> bool" where
  "moved from skip v =
     (case v of (Some (b, p), Some (n, w)) \<Rightarrow> b \<and> p = from \<and> w \<and> \<not> bit skip n | _ \<Rightarrow> False)"

lemma to_move_view: "to_move from skip g e \<noteq> None \<longleftrightarrow> moved from skip (item_view g e)"
  by (auto simp: to_move_def moved_def item_view_def split: option.splits)

lemma moved_owner:
  assumes "moved from skip v"
  shows "\<exists>b. fst v = Some (b, from)"
proof -
  obtain x y where v: "v = (x, y)"
    by (cases v)
  obtain b p where x: "x = Some (b, p)"
    using assms by (cases x) (auto simp: moved_def v)
  have "p = from"
    using assms by (cases y) (auto simp: moved_def v x)
  then show ?thesis
    by (simp add: v x)
qed

lemma to_move_item: "to_move from skip g e = Some it \<Longrightarrow> tg_items g e = Some it"
  by (auto simp: to_move_def split: option.splits if_splits)

lemma keeps_same: "keeps_but {} g g' \<Longrightarrow> tg_tries g' = tg_tries g \<and> item_view g' = item_view g"
  by (auto simp: keeps_but_def)

lemma transfer_one_effect:
  assumes laws: "game_laws G" and valid: "is_valid_index (gm_maxClients G) from"
    and run: "transfer_one G from to skip force e (active, g) = (active', g')"
  shows "tg_tries g' \<in> (if moved from skip (item_view g e)
      then {tg_tries g, off_list from e (tg_tries g), on_list to e (off_list from e (tg_tries g))} else {tg_tries g})"
    and "x \<noteq> e \<Longrightarrow> item_view g' x = item_view g x"
    and "(\<And>p g. fst (gm_RemovePlayerItem G p e g) \<and> fst (gm_AddPlayerItem G p e g)) \<Longrightarrow> force
      \<Longrightarrow> moved from skip (item_view g e) \<Longrightarrow> (\<And>it. tg_items g e = Some it \<Longrightarrow> \<not> is_grenade (m_iId it))
      \<Longrightarrow> tg_tries g' = on_list to e (off_list from e (tg_tries g))"
proof -
  have "tg_tries g' \<in> (if moved from skip (item_view g e)
      then {tg_tries g, off_list from e (tg_tries g), on_list to e (off_list from e (tg_tries g))} else {tg_tries g})
    \<and> (x \<noteq> e \<longrightarrow> item_view g' x = item_view g x)
    \<and> ((\<forall>p g. fst (gm_RemovePlayerItem G p e g) \<and> fst (gm_AddPlayerItem G p e g)) \<longrightarrow> force
      \<longrightarrow> moved from skip (item_view g e) \<longrightarrow> (\<forall>it. tg_items g e = Some it \<longrightarrow> \<not> is_grenade (m_iId it))
      \<longrightarrow> tg_tries g' = on_list to e (off_list from e (tg_tries g)))"
  proof (cases "to_move from skip g e")
    case None
    then have "\<not> moved from skip (item_view g e)" "g' = g"
      using to_move_view [of "from" skip g e] run by (auto simp: transfer_one_def)
    then show ?thesis
      by simp
  next
    case (Some it)
    then have mv: "moved from skip (item_view g e)"
      using to_move_view [of "from" skip g e] by simp
    then obtain b where own: "fst (item_view g e) = Some (b, from)"
      using moved_owner by blast
    let ?bp = "if m_iPrimaryAmmoType it \<ge> 0 then max (m_rgAmmo (tg_players g from) (m_iPrimaryAmmoType it)) 0 else 0"
    have item: "tg_items g e = Some it"
      by (rule to_move_item [OF Some])
    consider (held) "is_grenade (m_iId it)" "g' = gm_GetNextBestWeapon G from e g"
      | (reset) "is_grenade (m_iId it)" "move_item G from to force e it ?bp (active, reset_grenade G from to e g) = (active', g')"
      | (free) "move_item G from to force e it ?bp (active, g) = (active', g')"
      using run by (auto simp: transfer_one_def Some Let_def split: if_splits)
    then show ?thesis
    proof cases
      case held
      have "keeps_but {} g g'"
        using laws unfolding held(2) game_laws_def by blast
      then show ?thesis
        using held(1) item mv by (auto dest: keeps_same)
    next
      case reset
      let ?h = "reset_grenade G from to e g"
      have h: "tg_tries ?h = tg_tries g" "item_view ?h = item_view g"
        using keeps_same [OF keeps_reset_grenade] by auto
      have own': "fst (item_view ?h e) = Some (b, from)"
        by (simp only: h own)
      note eff = move_item_effect [OF laws valid own' reset(2), unfolded h]
      show ?thesis
        using eff(1) eff(2) [of x] reset(1) item mv by auto
    next
      case free
      note eff = move_item_effect [OF laws valid own free]
      show ?thesis
        using eff(1) eff(2) [of x] eff(3) mv by auto
    qed
  qed
  then show "tg_tries g' \<in> (if moved from skip (item_view g e)
      then {tg_tries g, off_list from e (tg_tries g), on_list to e (off_list from e (tg_tries g))} else {tg_tries g})"
    and "x \<noteq> e \<Longrightarrow> item_view g' x = item_view g x"
    and "(\<And>p g. fst (gm_RemovePlayerItem G p e g) \<and> fst (gm_AddPlayerItem G p e g)) \<Longrightarrow> force
      \<Longrightarrow> moved from skip (item_view g e) \<Longrightarrow> (\<And>it. tg_items g e = Some it \<Longrightarrow> \<not> is_grenade (m_iId it))
      \<Longrightarrow> tg_tries g' = on_list to e (off_list from e (tg_tries g))"
    by blast+
qed

text \<open>Nothing but the two lists changes, and no item is on them more often than before.\<close>

definition lists_within :: "int \<Rightarrow> int \<Rightarrow> tries \<Rightarrow> tries \<Rightarrow> bool" where
  "lists_within from to t t' =
     ((\<forall>p. p \<noteq> from \<longrightarrow> p \<noteq> to \<longrightarrow> player_entities t' p = player_entities t p)
      \<and> entities t' = entities t \<and> classnames t' = classnames t \<and> wp_entities t' = wp_entities t
      \<and> mset (player_entities t' from) + mset (player_entities t' to) \<subseteq># mset (player_entities t from) + mset (player_entities t to))"

lemma lists_within_trans: "lists_within from to t t1 \<Longrightarrow> lists_within from to t1 t2 \<Longrightarrow> lists_within from to t t2"
  unfolding lists_within_def by (auto intro: subset_mset.order_trans)

lemma lists_within_step:
  assumes "from \<noteq> to" "e \<in> set (player_entities t from)"
    and "t' \<in> {t, off_list from e t, on_list to e (off_list from e t)}"
  shows "lists_within from to t t' \<and> set (player_entities t from) - {e} \<subseteq> set (player_entities t' from)"
proof -
  have "mset (remove1 e (player_entities t from)) + {#e#} = mset (player_entities t from)"
    using assms(2) by simp
  then have "mset (remove1 e (player_entities t from)) + mset (player_entities t to) \<subseteq># mset (player_entities t from) + mset (player_entities t to)"
    "mset (remove1 e (player_entities t from)) + (mset (player_entities t to) + {#e#}) \<subseteq># mset (player_entities t from) + mset (player_entities t to)"
    by (simp_all add: ac_simps diff_subset_eq_self)
  moreover have "set (player_entities t from) - {e} \<subseteq> set (remove1 e (player_entities t from))"
    using in_set_remove1 [of _ e "player_entities t from"] by blast
  ultimately show ?thesis
    using assms(1,3) by (auto simp: lists_within_def off_list_def on_list_def)
qed

lemma transfer_loop_within:
  assumes laws: "game_laws G" and valid: "is_valid_index (gm_maxClients G) from" and "from \<noteq> to"
  shows "distinct es \<Longrightarrow> set es \<subseteq> set (player_entities (tg_tries g) from) \<Longrightarrow>
    fold (transfer_one G from to skip force) es (active, g) = (active', g') \<Longrightarrow>
    lists_within from to (tg_tries g) (tg_tries g')"
proof (induction es arbitrary: active g)
  case Nil
  then show ?case
    by (simp add: lists_within_def)
next
  case (Cons e es)
  obtain a1 g1 where one: "transfer_one G from to skip force e (active, g) = (a1, g1)"
    by (cases "transfer_one G from to skip force e (active, g)")
  have "tg_tries g1 \<in> {tg_tries g, off_list from e (tg_tries g), on_list to e (off_list from e (tg_tries g))}"
    using transfer_one_effect(1) [OF laws valid one] by (auto split: if_splits)
  from lists_within_step [OF assms(3) _ this] Cons.prems(2)
  have step: "lists_within from to (tg_tries g) (tg_tries g1)"
    "set (player_entities (tg_tries g) from) - {e} \<subseteq> set (player_entities (tg_tries g1) from)"
    by simp_all
  have "set es \<subseteq> set (player_entities (tg_tries g1) from)"
    using Cons.prems(1,2) step(2) by auto
  then have "lists_within from to (tg_tries g1) (tg_tries g')"
    using Cons.IH [of g1 a1] Cons.prems(1,3) one by simp
  with step(1) show ?case
    by (rule lists_within_trans)
qed

definition view_grenade :: "(bool \<times> int) option \<times> (nat \<times> bool) option \<Rightarrow> bool" where
  "view_grenade v = (case snd v of Some (n, w) \<Rightarrow> is_grenade n | None \<Rightarrow> False)"

lemma not_view_grenade: "\<not> view_grenade (item_view g e) \<Longrightarrow> tg_items g e = Some it \<Longrightarrow> \<not> is_grenade (m_iId it)"
  by (simp add: view_grenade_def item_view_def)

definition agrees :: "transfer_game \<Rightarrow> bool" where
  "agrees G = (\<forall>p e g. fst (gm_RemovePlayerItem G p e g) \<and> fst (gm_AddPlayerItem G p e g))"

lemma transfer_loop_exact:
  assumes laws: "game_laws G" and valid: "is_valid_index (gm_maxClients G) from" and "from \<noteq> to" and agree: "agrees G"
  shows "distinct (keep @ es) \<Longrightarrow> player_entities (tg_tries g) from = keep @ es \<Longrightarrow> \<forall>e \<in> set es. \<not> view_grenade (item_view g e) \<Longrightarrow>
    fold (transfer_one G from to skip True) es (active, g) = (active', g') \<Longrightarrow>
    player_entities (tg_tries g') from = keep @ filter (\<lambda>e. \<not> moved from skip (item_view g e)) es
    \<and> player_entities (tg_tries g') to = player_entities (tg_tries g) to @ filter (\<lambda>e. moved from skip (item_view g e)) es"
proof (induction es arbitrary: active g keep)
  case (Cons e es)
  obtain a1 g1 where one: "transfer_one G from to skip True e (active, g) = (a1, g1)"
    by (cases "transfer_one G from to skip True e (active, g)")
  note eff = transfer_one_effect [OF laws valid one]
  have views: "x \<in> set es \<Longrightarrow> item_view g1 x = item_view g x" for x
    using eff(2) [of x] Cons.prems(1) by auto
  then have flt: "filter (\<lambda>x. moved from skip (item_view g1 x)) es = filter (\<lambda>x. moved from skip (item_view g x)) es"
    "filter (\<lambda>x. \<not> moved from skip (item_view g1 x)) es = filter (\<lambda>x. \<not> moved from skip (item_view g x)) es"
    by (auto intro: filter_cong)
  have rest: "fold (transfer_one G from to skip True) es (a1, g1) = (active', g')" "\<forall>x \<in> set es. \<not> view_grenade (item_view g1 x)"
    using Cons.prems(3,4) one views by simp_all
  show ?case
  proof (cases "moved from skip (item_view g e)")
    case True
    have "tg_tries g1 = on_list to e (off_list from e (tg_tries g))"
      using eff(3) agree True not_view_grenade [of g e] Cons.prems(3) by (simp add: agrees_def)
    then have lists: "player_entities (tg_tries g1) from = keep @ es" "player_entities (tg_tries g1) to = player_entities (tg_tries g) to @ [e]"
      using assms(3) Cons.prems(1,2) by (simp_all add: on_list_def off_list_def remove1_append)
    show ?thesis
      using Cons.IH [of keep g1 a1] Cons.prems(1) lists rest flt True by simp
  next
    case False
    then have "tg_tries g1 = tg_tries g"
      using eff(1) by simp
    then show ?thesis
      using Cons.IH [of "keep @ [e]" g1 a1] Cons.prems(1,2) rest flt False by simp
  qed
qed simp

lemma keeps_move_equipment:
  assumes "game_laws G"
  shows "keeps_but {} g (move_equipment G from to g)"
proof -
  have shield: "keeps_but {} g (gm_GiveShield G p g)" "keeps_but {} g (gm_RemoveShield G p g)"
    and defuser: "keeps_but {} g (gm_GiveDefuser G p g)" "keeps_but {} g (gm_RemoveDefuser G p g)" for p g
    using assms unfolding game_laws_def by blast+
  let ?g1 = "if m_bOwnsShield (tg_players g from)
    then let a = gm_GiveShield G to g
         in gm_RemoveShield G from (set_player to (\<lambda>p. p\<lparr>m_bShieldDrawn := m_bShieldDrawn (tg_players a from)\<rparr>) a)
    else g"
  have 1: "keeps_but {} g ?g1"
    unfolding Let_def using keeps_then [OF shield(1) keeps_then [OF keeps_set_player shield(2)]] by simp
  let ?g2 = "if m_bNightVisionOn (tg_players ?g1 from)
    then set_player to (\<lambda>p. p\<lparr>m_bNightVisionOn := True\<rparr>) (set_player from (\<lambda>p. p\<lparr>m_bNightVisionOn := False\<rparr>) ?g1)
    else ?g1"
  have 2: "keeps_but {} g ?g2"
    using keeps_then [OF 1 keeps_then [OF keeps_set_player keeps_set_player]] 1 by (simp split: if_split)
  have 3: "keeps_but {} g (gm_RemoveDefuser G from ?g2)"
    by (rule keeps_then [OF 2 defuser(2)])
  have 4: "keeps_but {} g (gm_GiveDefuser G to (gm_RemoveDefuser G from ?g2))"
    by (rule keeps_then [OF 3 defuser(1)])
  show ?thesis
    unfolding move_equipment_def Let_def using 2 3 4 unfolding Let_def by (simp split: if_split)
qed

section \<open>Properties\<close>


text \<open>
  Replacing the receiver's items while skipping some walks a vector that changes.  As soon as one item
  of the receiver can be removed, the hook of \<^verbatim>\<open>RemovePlayerItem\<close> erases it from the list that the loop
  goes over, and the loop steps on from an invalid iterator.
\<close>
theorem replace_with_skip_invalidates:
  assumes "game_laws G" "agrees G" "is_valid_index (gm_maxClients G) from" "is_valid_index (gm_maxClients G) to"
    and "pl_connected (tg_players g from)" "pl_connected (tg_players g to)"
    and "skip \<noteq> 0" "e \<in> set (player_entities (tg_tries g) to)" "removable to skip g e"
  shows "rf_transfer_items G from to skip True force g = Inl UB_iterator_invalidated"
proof -
  have "clear_loop G to skip es g = Inl UB_iterator_invalidated"
    if "set es \<subseteq> set (player_entities (tg_tries g) to)" "\<exists>x \<in> set es. removable to skip g x" for es
    using that
  proof (induction es)
    case (Cons x es)
    show ?case
    proof (cases "removable to skip g x")
      case True
      then obtain b where own: "fst (item_view g x) = Some (b, to)"
        by (auto simp: removable_def item_view_def split: option.splits)
      obtain ok g1 where r: "remove_item G to x g = (ok, g1)"
        by (cases "remove_item G to x g")
      have "ok"
        using assms(2) r by (auto simp: agrees_def remove_item_def Let_def split: prod.splits) (metis fst_conv)
      then have "player_entities (tg_tries g1) to = remove1 x (player_entities (tg_tries g) to)"
        using remove_item_effect(1) [OF assms(1,4) own r] by (simp add: off_list_def)
      moreover have "length (remove1 x (player_entities (tg_tries g) to)) \<noteq> length (player_entities (tg_tries g) to)"
      proof -
        have "x \<in> set (player_entities (tg_tries g) to)"
          using Cons.prems(1) by simp
        then show ?thesis
          using length_pos_if_in_set [of x "player_entities (tg_tries g) to"] by (simp add: length_remove1 del: length_greater_0_conv)
      qed
      ultimately have "player_entities (tg_tries g1) to \<noteq> player_entities (tg_tries g) to"
        by metis
      then show ?thesis
        using True \<open>ok\<close> r by simp
    qed (use Cons in auto)
  qed simp
  then have "clear_loop G to skip (player_entities (tg_tries g) to) g = Inl UB_iterator_invalidated"
    using assms(8,9) by blast
  then show ?thesis
    using assms(3-7) by (simp add: rf_transfer_items_def replace_items_def)
qed

section \<open>Witnesses\<close>

text \<open>A game in which players carry what they are given.\<close>

definition carry_game :: transfer_game where
  "carry_game = \<lparr>gm_RemovePlayerItem = \<lambda>_ _ g. (True, g), gm_AddPlayerItem = \<lambda>_ _ g. (True, g),
     gm_CanHavePlayerItem = \<lambda>_ _ _. True, gm_AttachToPlayer = \<lambda>_ _ g. g, gm_GetNextBestWeapon = \<lambda>_ _ g. g,
     gm_SwitchWeapon = \<lambda>_ _ g. g, gm_Kill = \<lambda>_ g. g, gm_RemoveAllItems = \<lambda>_ g. g, gm_GiveShield = \<lambda>_ g. g,
     gm_RemoveShield = \<lambda>_ g. g, gm_GiveDefuser = \<lambda>_ g. g, gm_RemoveDefuser = \<lambda>_ g. g, gm_SetBombIcon = \<lambda>_ g. g,
     gm_maxClients = 32, gm_time = 0\<rparr>"

definition some_titem :: "nat \<Rightarrow> titem" where
  "some_titem n = \<lparr>m_iId = n, m_IsWeapon = True, m_iPrimaryAmmoType = - 1, m_flReleaseThrow = 0, m_flStartThrow = 0,
     m_flTimeWeaponIdle = 0, m_flNextPrimaryAttack = 0, m_flNextSecondaryAttack = 0, m_iWeaponState = 0\<rparr>"

definition some_tplayer :: tplayer where
  "some_tplayer = \<lparr>pl_connected = True, m_bOwnsShield = False, m_bShieldDrawn = False, m_bNightVisionOn = False,
     m_bHasDefuser = False, m_bHasC4 = False, m_iTeam = 1, m_rgAmmo = \<lambda>_. 0, m_pActiveItem = None, v_button = 0, m_flNextAttack = 0\<rparr>"

definition some_ed :: "int \<Rightarrow> edict" where
  "some_ed p = \<lparr>ed_private = True, ed_free = False, ed_killme = False, ed_classname = None, ed_owner = p, ed_team = 0,
     ed_alive = True, ed_origin = (0, 0, 0), ed_absmin = (0, 0, 0), ed_absmax = (0, 0, 0)\<rparr>"

text \<open>Player 1 has a knife and an AK-47.\<close>

definition armed_player :: tgame where
  "armed_player = \<lparr>tg_tries = tries_init\<lparr>player_entities := (\<lambda>_. [])(1 := [40, 41])\<rparr>,
     tg_world = (\<lambda>e. if e = 40 \<or> e = 41 then Some (some_ed 1) else None),
     tg_items = (\<lambda>e. if e = 40 then Some (some_titem 29) else if e = 41 then Some (some_titem 28) else None),
     tg_players = (\<lambda>_. some_tplayer), m_bBombDropped = False\<rparr>"

lemma carry_game_laws: "game_laws carry_game" "agrees carry_game"
  by (simp_all add: game_laws_def agrees_def carry_game_def)


lemma replace_with_skip_invalidates_witness:
  "rf_transfer_items carry_game 2 1 (push_bit 29 1) True True armed_player = Inl UB_iterator_invalidated"
  by (rule replace_with_skip_invalidates [OF carry_game_laws, of _ _ _ _ 41])
    (simp_all add: carry_game_def armed_player_def is_valid_index_def some_tplayer_def some_titem_def some_ed_def removable_def
      tries_init_def bit_simps)

end
