(* ===== verification/Voice_Codec.thy ===== *)
theory Voice_Codec
  imports Prelude
begin

text \<open>
  What the voice codecs of \<^verbatim>\<open>revoice-plus/revoice/src\<close> share: the memory of a packet and of the buffers
  they write, read and written through positions that are checked against its end, and the
  interface \<^verbatim>\<open>IVoiceCodec\<close> as a locale.  The machine is little endian.
\<close>

section \<open>Memory\<close>

type_synonym octet = "8 word"
type_synonym sample = "16 word"

datatype voice_error =
    Read_Outside nat       \<comment> \<open>a read past the end of the buffer\<close>
  | Write_Outside int      \<comment> \<open>a write outside the buffer\<close>
  | Null_Decoder           \<comment> \<open>\<^verbatim>\<open>opus_decode\<close> of a null pointer\<close>
  | Null_Encoder           \<comment> \<open>\<^verbatim>\<open>opus_encode\<close> of a null pointer\<close>
  | Zero_Frame             \<comment> \<open>a remainder by a frame size of zero\<close>
  | No_Return              \<comment> \<open>a loop that does not end\<close>

definition rd8 :: "octet list \<Rightarrow> nat \<Rightarrow> voice_error + octet" where
  "rd8 m p = (if p < length m then Inr (m ! p) else Inl (Read_Outside p))"

definition rd16 :: "octet list \<Rightarrow> nat \<Rightarrow> voice_error + 16 word" where
  "rd16 m p = bind_r (rd8 m p) (\<lambda>a. bind_r (rd8 m (p + 1)) (\<lambda>b. Inr (ucast a OR push_bit 8 (ucast b))))"

definition rd32 :: "octet list \<Rightarrow> nat \<Rightarrow> voice_error + 32 word" where
  "rd32 m p = bind_r (rd16 m p) (\<lambda>a. bind_r (rd16 m (p + 2)) (\<lambda>b. Inr (ucast a OR push_bit 16 (ucast b))))"

definition rd_buf :: "octet list \<Rightarrow> nat \<Rightarrow> nat \<Rightarrow> voice_error + octet list" where
  "rd_buf m p n = (if p + n \<le> length m then Inr (take n (drop p m)) else Inl (Read_Outside (length m)))"

definition le16 :: "16 word \<Rightarrow> octet list" where
  "le16 w = [ucast w, ucast (drop_bit 8 w)]"

definition le32 :: "32 word \<Rightarrow> octet list" where
  "le32 w = le16 (ucast w) @ le16 (ucast (drop_bit 16 w))"

definition le64 :: "64 word \<Rightarrow> octet list" where
  "le64 w = le32 (ucast w) @ le32 (ucast (drop_bit 32 w))"

text \<open>A store at a position, which may lie outside of the buffer on either side.\<close>

definition wr_buf :: "octet list \<Rightarrow> int \<Rightarrow> octet list \<Rightarrow> voice_error + octet list" where
  "wr_buf m p bs =
     (if 0 \<le> p \<and> p + int (length bs) \<le> int (length m)
      then Inr (take (nat p) m @ bs @ drop (nat p + length bs) m)
      else Inl (Write_Outside p))"

lemma length_le [simp]: "length (le16 w) = 2" "length (le32 v) = 4" "length (le64 u) = 8"
  by (simp_all add: le16_def le32_def le64_def)

declare bind_r_cong [fundef_cong]

text \<open>Little-endian fields are read back as they were stored.\<close>

lemma rd16_le16:
  assumes "take 2 (drop p m) = le16 w"
  shows "rd16 m p = Inr w"
proof -
  have len: "p + 1 < length m"
    using arg_cong [OF assms, of length] by auto
  have a: "m ! p = ucast w" and b: "m ! (p + 1) = ucast (drop_bit 8 w)"
    using arg_cong [OF assms, of "\<lambda>l. l ! 0"] arg_cong [OF assms, of "\<lambda>l. l ! 1"] len
    by (auto simp: le16_def)
  have "(ucast (m ! p) OR push_bit 8 (ucast (m ! (p + 1))) :: 16 word) = w"
    unfolding a b by (rule bit_word_eqI) (auto simp: bit_simps)
  then show ?thesis
    using len by (simp add: rd16_def rd8_def)
qed

lemma rd32_le32:
  assumes "take 4 (drop p m) = le32 w"
  shows "rd32 m p = Inr w"
proof -
  have "take 2 (drop p m) = take 2 (take 4 (drop p m))"
    by simp
  also have "\<dots> = le16 (ucast w)"
    by (simp add: assms le32_def)
  finally have a: "rd16 m p = Inr (ucast w)"
    by (rule rd16_le16)
  have "take 2 (drop (p + 2) m) = drop 2 (take 4 (drop p m))"
    by (simp add: drop_take add.commute)
  also have "\<dots> = le16 (ucast (drop_bit 16 w))"
    by (simp add: assms le32_def)
  finally have b: "rd16 m (p + 2) = Inr (ucast (drop_bit 16 w))"
    by (rule rd16_le16)
  have "(ucast (ucast w :: 16 word) OR push_bit 16 (ucast (ucast (drop_bit 16 w) :: 16 word)) :: 32 word) = w"
    by (rule bit_word_eqI) (auto simp: bit_simps)
  with a b show ?thesis
    by (simp add: rd32_def)
qed

lemma rd16_safe: "p + 2 \<le> length m \<Longrightarrow> \<exists>w. rd16 m p = Inr w"
  by (simp add: rd16_def rd8_def)

lemma rd8_safe: "p < length m \<Longrightarrow> rd8 m p = Inr (m ! p)"
  by (simp add: rd8_def)

lemma rd32_safe: "p + 4 \<le> length m \<Longrightarrow> \<exists>w. rd32 m p = Inr w"
  using rd16_safe [of p m] rd16_safe [of "p + 2" m] by (auto simp: rd32_def)

lemma rd_buf_safe: "p + n \<le> length m \<Longrightarrow> rd_buf m p n = Inr (take n (drop p m))"
  by (simp add: rd_buf_def)

text \<open>A store inside the buffer keeps its length and everything before it.\<close>

lemma wr_buf_at:
  assumes "p + length bs \<le> length m"
  shows "wr_buf m (int p) bs = Inr (take p m @ bs @ drop (p + length bs) m)"
  using assms by (simp add: wr_buf_def flip: of_nat_add)

lemma wr_buf_to:
  assumes "ip = int p" "q = p + length bs" "q \<le> length m"
  shows "wr_buf m ip bs = Inr (take p m @ bs @ drop q m)"
  unfolding assms(1,2) by (rule wr_buf_at) (use assms in simp)

lemma wr_buf_length: "wr_buf m p bs = Inr m' \<Longrightarrow> length m' = length m"
  by (auto simp: wr_buf_def split: if_splits)

text \<open>
  \<open>holds m p bs\<close>: the buffer \<open>m\<close> holds the bytes \<open>bs\<close> from position \<open>p\<close> on.  Stores that follow
  each other build up one such stretch.
\<close>

definition holds :: "octet list \<Rightarrow> nat \<Rightarrow> octet list \<Rightarrow> bool" where
  "holds m p bs = (p + length bs \<le> length m \<and> take (length bs) (drop p m) = bs)"

lemma holds_Nil [simp]: "holds m p [] \<longleftrightarrow> p \<le> length m"
  by (simp add: holds_def)

lemma holds_append:
  "holds m p (as @ bs) \<longleftrightarrow> holds m p as \<and> holds m (p + length as) bs"
  by (auto simp: holds_def take_add add.commute add.left_commute append_eq_append_conv)

lemma holds_take: "holds m p (as @ bs) \<Longrightarrow> take (length as) (drop p m) = as"
  by (simp add: holds_append) (simp add: holds_def)

lemma holds_next: "holds m p (as @ bs) \<Longrightarrow> q = p + length as \<Longrightarrow> holds m q bs"
  by (simp add: holds_append)

lemma holds_of_take: "take (p + length bs) m = take p m @ bs \<Longrightarrow> p + length bs \<le> length m \<Longrightarrow> holds m p bs"
  by (simp add: holds_def take_add)

lemma take_of_longer: "take n xs = ys \<Longrightarrow> i \<le> n \<Longrightarrow> take i xs = take i ys"
  by auto

lemma wr_buf_next:
  assumes "take q m = pre" "length pre = q" "q + length bs \<le> length m"
  shows "\<exists>m'. wr_buf m (int q) bs = Inr m' \<and> length m' = length m \<and> take (q + length bs) m' = pre @ bs"
  using assms by (auto simp: wr_buf_at)

section \<open>The codec interface\<close>

text \<open>
  \<^verbatim>\<open>IVoiceCodec\<close>: \<open>compress xs m p k fin s\<close> is
  \<^verbatim>\<open>Compress(pUncompressed, nSamples, pCompressed, maxCompressedBytes, bFinal)\<close> with \<open>pCompressed\<close> the position
  \<open>p\<close> of the buffer \<open>m\<close>, \<open>decompress m p n k s\<close> is
  \<^verbatim>\<open>Decompress(pCompressed, compressedBytes, pUncompressed, maxUncompressedBytes)\<close>; both return the number
  the C++ method returns, what they wrote and the new state of the codec.

  A codec promises: from a state of its invariant, decompressing a stretch of memory that has
  \<open>slack\<close> readable bytes behind it and is \<open>benign\<close> runs into no error, keeps the invariant and writes
  at most the room it was given, and the number of samples it reports is what it wrote;
  compressing what \<open>fits\<close> stays inside the room it was given.
\<close>

locale voice_codec =
  fixes inv :: "'s \<Rightarrow> bool"
    and benign :: "octet list \<Rightarrow> bool"
    and slack :: nat
    and fits :: "'s \<Rightarrow> nat \<Rightarrow> nat \<Rightarrow> bool"
    and compress :: "sample list \<Rightarrow> octet list \<Rightarrow> nat \<Rightarrow> nat \<Rightarrow> bool \<Rightarrow> 's \<Rightarrow> voice_error + int \<times> octet list \<times> 's"
    and decompress :: "octet list \<Rightarrow> nat \<Rightarrow> nat \<Rightarrow> nat \<Rightarrow> 's \<Rightarrow> voice_error + int \<times> sample list \<times> 's"
  assumes decompress_safe:
      "inv s \<Longrightarrow> p + len + slack \<le> length m \<Longrightarrow> benign (take len (drop p m)) \<Longrightarrow>
       \<exists>out s'. decompress m p len k s = Inr (int (length out), out, s') \<and> inv s' \<and> 2 * length out \<le> k"
    and compress_safe:
      "inv s \<Longrightarrow> fits s (length xs) k \<Longrightarrow> p + k \<le> length m \<Longrightarrow>
       \<exists>n m' s'. compress xs m p k fin s = Inr (int n, m', s') \<and> n \<le> k \<and> length m' = length m
         \<and> take p m' = take p m \<and> inv s'"

end
