(* ===== verification/Utl_Buffer.thy ===== *)
theory Utl_Buffer
  imports Voice_Codec Text_Utils
begin

text \<open>
  The buffer behind the codecs' queues, \<^verbatim>\<open>CUtlBuffer\<close> (\<^verbatim>\<open>utlbuffer.h\<close>, \<^verbatim>\<open>utlbuffer.cpp\<close>), and the growing memory
  it stands on, \<^verbatim>\<open>CUtlMemory\<close> (\<^verbatim>\<open>utlmemory.h\<close>): growing, writing, reading and seeking in binary mode.  The
  contents of fresh memory are those of a parameter \<open>junk\<close>, one byte for each position.
\<close>

section \<open>Memory\<close>

record utl_memory =
  m_pMemory :: "octet list"         \<comment> \<open>its length is \<^verbatim>\<open>m_nAllocationCount\<close>\<close>
  m_nGrowSize :: nat
  m_External :: bool                \<comment> \<open>\<^verbatim>\<open>m_nGrowSize\<close> is \<^verbatim>\<open>EXTERNAL_BUFFER_MARKER\<close>\<close>

definition num_allocated :: "utl_memory \<Rightarrow> nat" where
  "num_allocated m = length (m_pMemory m)"

definition more_memory :: "(nat \<Rightarrow> octet) \<Rightarrow> nat \<Rightarrow> utl_memory \<Rightarrow> utl_memory" where
  "more_memory junk n m = m\<lparr>m_pMemory := m_pMemory m @ map junk [num_allocated m..<n]\<rparr>"

text \<open>The count grows by the grow size, or doubles when there is none, from 32 bytes on.\<close>

function grow_count :: "nat \<Rightarrow> nat \<Rightarrow> nat \<Rightarrow> nat" where
  "grow_count gs requested c =
     (if requested \<le> c then c
      else grow_count gs requested (if c \<noteq> 0 then (if gs \<noteq> 0 then c + gs else c + c) else 32))"
  by pat_completeness auto

termination
  by (relation "measure (\<lambda>(gs, requested, c). requested - c)") auto

declare grow_count.simps [simp del]

definition mem_grow :: "(nat \<Rightarrow> octet) \<Rightarrow> nat \<Rightarrow> utl_memory \<Rightarrow> utl_memory" where
  "mem_grow junk num m =
     (if m_External m then m
      else more_memory junk (grow_count (m_nGrowSize m) (num_allocated m + num) (num_allocated m)) m)"

definition mem_ensure_capacity :: "(nat \<Rightarrow> octet) \<Rightarrow> nat \<Rightarrow> utl_memory \<Rightarrow> utl_memory" where
  "mem_ensure_capacity junk num m =
     (if num \<le> num_allocated m then m else if m_External m then m else more_memory junk num m)"

definition mem_purge :: "utl_memory \<Rightarrow> utl_memory" where
  "mem_purge m = (if m_External m then m else m\<lparr>m_pMemory := []\<rparr>)"

definition mem_set_external :: "octet list \<Rightarrow> utl_memory \<Rightarrow> utl_memory" where
  "mem_set_external bs m = (mem_purge m)\<lparr>m_pMemory := bs, m_External := True\<rparr>"

lemma grow_count_ge: "requested \<le> grow_count gs requested c"
  by (induction gs requested c rule: grow_count.induct) (subst grow_count.simps, simp)

lemma grow_count_mono: "c \<le> grow_count gs requested c"
proof (induction gs requested c rule: grow_count.induct)
  case (1 gs requested c)
  show ?case
  proof (cases "requested \<le> c")
    case False
    then show ?thesis
      using "1.IH" by (subst grow_count.simps) (auto split: if_splits)
  qed (simp add: grow_count.simps)
qed

text \<open>Doubling asks for at most twice what is needed.\<close>

lemma grow_count_double: "c < requested \<Longrightarrow> grow_count 0 requested c \<le> max 32 (2 * requested)"
proof (induction "0 :: nat" requested c rule: grow_count.induct)
  case (1 requested c)
  let ?c = "if c \<noteq> 0 then c + c else 32"
  have step: "grow_count 0 requested c = grow_count 0 requested ?c"
    using "1.prems" by (subst grow_count.simps) simp
  show ?case
  proof (cases "?c < requested")
    case True
    then show ?thesis
      using 1 step by (simp split: if_splits)
  next
    case False
    then have "grow_count 0 requested ?c = ?c"
      by (subst grow_count.simps) (simp only: not_less if_True)
    with step "1.prems" show ?thesis
      by (simp split: if_splits)
  qed
qed

section \<open>The buffer\<close>

record utl_buffer =
  m_Memory :: utl_memory
  m_Get :: nat
  m_Put :: nat
  put_overflow :: bool              \<comment> \<open>the bits of \<^verbatim>\<open>m_Error\<close>\<close>
  get_overflow :: bool
  text_buffer :: bool

datatype seek_type = SEEK_HEAD | SEEK_CURRENT | SEEK_TAIL

definition is_valid :: "utl_buffer \<Rightarrow> bool" where
  "is_valid b = (\<not> put_overflow b \<and> \<not> get_overflow b)"

definition new_utl_buffer :: "nat \<Rightarrow> octet list \<Rightarrow> bool \<Rightarrow> utl_buffer" where
  "new_utl_buffer grow init is_text =
     \<lparr>m_Memory = \<lparr>m_pMemory = init, m_nGrowSize = grow, m_External = False\<rparr>, m_Get = 0, m_Put = 0,
      put_overflow = False, get_overflow = False, text_buffer = is_text\<rparr>"

definition external_utl_buffer :: "octet list \<Rightarrow> bool \<Rightarrow> utl_buffer" where
  "external_utl_buffer bs is_text =
     \<lparr>m_Memory = \<lparr>m_pMemory = bs, m_nGrowSize = 0, m_External = True\<rparr>, m_Get = 0, m_Put = 0,
      put_overflow = False, get_overflow = False, text_buffer = is_text\<rparr>"

definition set_external_buffer :: "octet list \<Rightarrow> bool \<Rightarrow> utl_buffer \<Rightarrow> utl_buffer" where
  "set_external_buffer bs is_text b =
     b\<lparr>m_Memory := mem_set_external bs (m_Memory b), m_Get := 0, m_Put := 0, text_buffer := is_text\<rparr>"

definition buf_clear :: "utl_buffer \<Rightarrow> utl_buffer" where
  "buf_clear b = b\<lparr>m_Get := 0, m_Put := 0, put_overflow := False, get_overflow := False\<rparr>"

definition buf_size :: "utl_buffer \<Rightarrow> nat" where
  "buf_size b = num_allocated (m_Memory b)"

definition seek_put :: "seek_type \<Rightarrow> int \<Rightarrow> utl_buffer \<Rightarrow> int" where
  "seek_put how off b = (case how of SEEK_HEAD \<Rightarrow> off | SEEK_CURRENT \<Rightarrow> int (m_Put b) + off | SEEK_TAIL \<Rightarrow> int (buf_size b) - off)"

definition seek_get :: "seek_type \<Rightarrow> int \<Rightarrow> utl_buffer \<Rightarrow> int" where
  "seek_get how off b = (case how of SEEK_HEAD \<Rightarrow> off | SEEK_CURRENT \<Rightarrow> int (m_Get b) + off | SEEK_TAIL \<Rightarrow> int (buf_size b) - off)"

subsection \<open>Writing\<close>

lemma num_allocated_more [simp]: "num_allocated (more_memory junk n m) = max n (num_allocated m)"
  by (simp add: num_allocated_def more_memory_def)

lemma num_allocated_grow: "\<not> m_External m \<Longrightarrow> num_allocated m + num \<le> num_allocated (mem_grow junk num m)"
  using grow_count_ge [of "num_allocated m + num" "m_nGrowSize m" "num_allocated m"] by (simp add: mem_grow_def)

function grow_until :: "(nat \<Rightarrow> octet) \<Rightarrow> nat \<Rightarrow> utl_memory \<Rightarrow> bool \<times> utl_memory" where
  "grow_until junk need m =
     (if need \<le> num_allocated m then (True, m)
      else if m_External m then (False, m)
      else grow_until junk need (mem_grow junk 1 m))"
  by pat_completeness auto

termination
proof (relation "measure (\<lambda>(junk, need, m). need - num_allocated m)")
  fix junk :: "nat \<Rightarrow> octet" and need and m :: utl_memory
  assume "\<not> need \<le> num_allocated m" "\<not> m_External m"
  then show "((junk, need, mem_grow junk 1 m), junk, need, m) \<in> measure (\<lambda>(junk, need, m). need - num_allocated m)"
    using num_allocated_grow [of m 1 junk] by simp
qed simp

declare grow_until.simps [simp del]

definition check_put :: "(nat \<Rightarrow> octet) \<Rightarrow> nat \<Rightarrow> utl_buffer \<Rightarrow> bool \<times> utl_buffer" where
  "check_put junk n b =
     (if \<not> is_valid b then (False, b)
      else case grow_until junk (m_Put b + n) (m_Memory b) of
             (ok, m) \<Rightarrow> (ok, b\<lparr>m_Memory := m, put_overflow := \<not> ok\<rparr>))"

definition store_bytes :: "octet list \<Rightarrow> utl_buffer \<Rightarrow> voice_error + utl_buffer" where
  "store_bytes bs b =
     bind_r (wr_buf (m_pMemory (m_Memory b)) (int (m_Put b)) bs) (\<lambda>mem.
       Inr (b\<lparr>m_Memory := (m_Memory b)\<lparr>m_pMemory := mem\<rparr>, m_Put := m_Put b + length bs\<rparr>))"

definition buf_put :: "(nat \<Rightarrow> octet) \<Rightarrow> octet list \<Rightarrow> utl_buffer \<Rightarrow> voice_error + utl_buffer" where
  "buf_put junk bs b =
     (case check_put junk (length bs) b of (ok, b') \<Rightarrow> if ok then store_bytes bs b' else Inr b')"

text \<open>\<^verbatim>\<open>PUT_TYPE\<close> in binary mode: the bytes of the value, the low byte first.\<close>

definition put_short :: "(nat \<Rightarrow> octet) \<Rightarrow> 16 word \<Rightarrow> utl_buffer \<Rightarrow> voice_error + utl_buffer" where
  "put_short junk w = buf_put junk (le16 w)"

definition put_int :: "(nat \<Rightarrow> octet) \<Rightarrow> 32 word \<Rightarrow> utl_buffer \<Rightarrow> voice_error + utl_buffer" where
  "put_int junk w = buf_put junk (le32 w)"

text \<open>\<^verbatim>\<open>PutString\<close>: in binary mode the terminating zero is written too.\<close>

definition put_string :: "(nat \<Rightarrow> octet) \<Rightarrow> octet list \<Rightarrow> utl_buffer \<Rightarrow> voice_error + utl_buffer" where
  "put_string junk s b =
     (let cs = takeWhile (\<lambda>c. c \<noteq> 0) s in buf_put junk (if text_buffer b then cs else cs @ [0]) b)"

subsection \<open>Reading\<close>

text \<open>\<^verbatim>\<open>Get\<close> does not check; the memory is read up to what is allocated, not up to what was put.\<close>

definition buf_get :: "nat \<Rightarrow> utl_buffer \<Rightarrow> voice_error + octet list \<times> utl_buffer" where
  "buf_get n b =
     bind_r (rd_buf (m_pMemory (m_Memory b)) (m_Get b) n) (\<lambda>bs. Inr (bs, b\<lparr>m_Get := m_Get b + n\<rparr>))"

definition check_get :: "nat \<Rightarrow> utl_buffer \<Rightarrow> bool \<times> utl_buffer" where
  "check_get n b =
     (if \<not> is_valid b then (False, b)
      else if m_Get b + n \<le> buf_size b then (True, b)
      else (False, b\<lparr>get_overflow := True\<rparr>))"

definition get_short :: "utl_buffer \<Rightarrow> voice_error + 16 word \<times> utl_buffer" where
  "get_short b =
     (case check_get 2 b of (ok, b') \<Rightarrow>
        if ok then bind_r (rd16 (m_pMemory (m_Memory b')) (m_Get b')) (\<lambda>w. Inr (w, b'\<lparr>m_Get := m_Get b' + 2\<rparr>))
        else Inr (0, b'))"

definition get_int :: "utl_buffer \<Rightarrow> voice_error + 32 word \<times> utl_buffer" where
  "get_int b =
     (case check_get 4 b of (ok, b') \<Rightarrow>
        if ok then bind_r (rd32 (m_pMemory (m_Memory b')) (m_Get b')) (\<lambda>w. Inr (w, b'\<lparr>m_Get := m_Get b' + 4\<rparr>))
        else Inr (0, b'))"

definition is_space :: "octet \<Rightarrow> bool" where
  "is_space c = isspace (char_of (unat c))"

definition eat_white_space :: "utl_buffer \<Rightarrow> utl_buffer" where
  "eat_white_space b =
     (if text_buffer b \<and> is_valid b
      then b\<lparr>m_Get := m_Get b + length (takeWhile is_space (drop (m_Get b) (m_pMemory (m_Memory b))))\<rparr>
      else b)"

text \<open>
  \<^verbatim>\<open>GetString\<close>: what it stores at the pointer it was given.  In binary mode \<^verbatim>\<open>strlen\<close> runs until it finds a
  zero, wherever that is; a maximum of 0 stands for none.
\<close>

definition get_string :: "nat \<Rightarrow> utl_buffer \<Rightarrow> voice_error + octet list \<times> utl_buffer" where
  "get_string max_len b =
     (if \<not> is_valid b then Inr ([0], b)
      else if \<not> text_buffer b then
        (let rest = drop (m_Get b) (m_pMemory (m_Memory b)); cs = takeWhile (\<lambda>c. c \<noteq> 0) rest; len = length cs + 1
         in if length cs = length rest then Inl (Read_Outside (buf_size b))
            else if max_len = 0 \<or> len \<le> max_len then buf_get len b
            else bind_r (buf_get max_len b) (\<lambda>(bs, b').
                   Inr (bs[max_len - 1 := 0], b'\<lparr>m_Get := nat (seek_get SEEK_CURRENT (int (len - max_len)) b')\<rparr>)))
      else
        let b1 = eat_white_space b;
            cs = takeWhile (\<lambda>c. \<not> is_space c \<and> c \<noteq> 0) (drop (m_Get b1) (m_pMemory (m_Memory b1)))
        in Inr ((if max_len = 0 then cs else take (max_len - 1) cs) @ [0], b1\<lparr>m_Get := m_Get b1 + length cs\<rparr>))"

section \<open>The buffer is a queue of bytes\<close>

text \<open>
  What is written, from the start to \<^verbatim>\<open>m_Put\<close>.  A buffer is in order when it owns its memory and no
  operation has failed.
\<close>

definition written :: "utl_buffer \<Rightarrow> octet list" where
  "written b = take (m_Put b) (m_pMemory (m_Memory b))"

definition buf_ok :: "utl_buffer \<Rightarrow> bool" where
  "buf_ok b = (is_valid b \<and> \<not> m_External (m_Memory b) \<and> m_Put b \<le> buf_size b)"

lemma mem_grow_owned [simp]: "m_External (mem_grow junk n m) = m_External m"
  by (simp add: mem_grow_def more_memory_def)

lemma mem_grow_keeps:
  assumes "p \<le> num_allocated m"
  shows "take p (m_pMemory (mem_grow junk n m)) = take p (m_pMemory m)"
  using assms by (simp add: mem_grow_def more_memory_def num_allocated_def)

lemma grow_until_owned:
  assumes "\<not> m_External m" "p \<le> num_allocated m"
  shows "\<exists>m'. grow_until junk need m = (True, m') \<and> need \<le> num_allocated m' \<and> \<not> m_External m'
    \<and> num_allocated m \<le> num_allocated m' \<and> take p (m_pMemory m') = take p (m_pMemory m)"
  using assms
proof (induction junk need m rule: grow_until.induct)
  case (1 junk need m)
  show ?case
  proof (cases "need \<le> num_allocated m")
    case True
    then show ?thesis
      using "1.prems" by (simp add: grow_until.simps)
  next
    case False
    let ?m = "mem_grow junk 1 m"
    have grown: "num_allocated m < num_allocated ?m"
      using num_allocated_grow [OF "1.prems"(1), of 1 junk] by simp
    have "grow_until junk need m = grow_until junk need ?m"
      using False "1.prems"(1) by (subst grow_until.simps) simp
    moreover obtain m' where "grow_until junk need ?m = (True, m')" "need \<le> num_allocated m'" "\<not> m_External m'"
      "num_allocated ?m \<le> num_allocated m'" "take p (m_pMemory m') = take p (m_pMemory ?m)"
      using "1.IH" [OF False "1.prems"(1)] "1.prems" grown by auto
    ultimately show ?thesis
      using grown mem_grow_keeps [OF "1.prems"(2)] by simp
  qed
qed

lemma buf_put_ok:
  assumes "buf_ok b"
  obtains b' where "buf_put junk bs b = Inr b'" "buf_ok b'" "written b' = written b @ bs" "m_Get b' = m_Get b"
    "text_buffer b' = text_buffer b" "m_Put b' = m_Put b + length bs"
proof -
  have owned: "\<not> m_External (m_Memory b)" and fits: "m_Put b \<le> num_allocated (m_Memory b)" and valid: "is_valid b"
    using assms by (simp_all add: buf_ok_def buf_size_def)
  obtain m where m: "grow_until junk (m_Put b + length bs) (m_Memory b) = (True, m)" "m_Put b + length bs \<le> num_allocated m"
    "\<not> m_External m" "take (m_Put b) (m_pMemory m) = written b"
    using grow_until_owned [OF owned fits, of junk "m_Put b + length bs"] by (auto simp: written_def)
  let ?b = "b\<lparr>m_Memory := m, put_overflow := False\<rparr>"
  let ?mem = "take (m_Put b) (m_pMemory m) @ bs @ drop (m_Put b + length bs) (m_pMemory m)"
  have "wr_buf (m_pMemory m) (int (m_Put b)) bs = Inr ?mem"
    by (rule wr_buf_at) (use m(2) in \<open>simp add: num_allocated_def\<close>)
  then have put: "buf_put junk bs b = Inr (?b\<lparr>m_Memory := m\<lparr>m_pMemory := ?mem\<rparr>, m_Put := m_Put b + length bs\<rparr>)"
    using valid m(1) by (simp add: buf_put_def check_put_def store_bytes_def)
  have len: "length (written b) = m_Put b"
    using fits by (simp add: written_def num_allocated_def)
  show ?thesis
    by (rule that [OF put])
      (use valid m(2,3) len in \<open>simp_all add: buf_ok_def is_valid_def buf_size_def num_allocated_def written_def m(4)\<close>)
qed

text \<open>Any sequence of writes and clears against the queue of bytes that the codecs take the buffer for.\<close>

datatype buf_op = Put_Bytes "octet list" | Put_Short "16 word" | Put_Int "32 word" | Put_String "octet list" | Clear

fun run_buf :: "(nat \<Rightarrow> octet) \<Rightarrow> buf_op list \<Rightarrow> utl_buffer \<Rightarrow> voice_error + utl_buffer" where
  "run_buf junk [] b = Inr b"
| "run_buf junk (Put_Bytes bs # ops) b = bind_r (buf_put junk bs b) (run_buf junk ops)"
| "run_buf junk (Put_Short w # ops) b = bind_r (put_short junk w b) (run_buf junk ops)"
| "run_buf junk (Put_Int w # ops) b = bind_r (put_int junk w b) (run_buf junk ops)"
| "run_buf junk (Put_String s # ops) b = bind_r (put_string junk s b) (run_buf junk ops)"
| "run_buf junk (Clear # ops) b = run_buf junk ops (buf_clear b)"

definition string_bytes :: "bool \<Rightarrow> octet list \<Rightarrow> octet list" where
  "string_bytes is_text s = takeWhile (\<lambda>c. c \<noteq> 0) s @ (if is_text then [] else [0])"

fun queue :: "bool \<Rightarrow> buf_op list \<Rightarrow> octet list \<Rightarrow> octet list" where
  "queue t [] q = q"
| "queue t (Put_Bytes bs # ops) q = queue t ops (q @ bs)"
| "queue t (Put_Short w # ops) q = queue t ops (q @ le16 w)"
| "queue t (Put_Int w # ops) q = queue t ops (q @ le32 w)"
| "queue t (Put_String s # ops) q = queue t ops (q @ string_bytes t s)"
| "queue t (Clear # ops) q = queue t ops []"

lemma put_string_bytes: "put_string junk s b = buf_put junk (string_bytes (text_buffer b) s) b"
  by (simp add: put_string_def string_bytes_def Let_def)

lemma run_buf_refines:
  "buf_ok b \<Longrightarrow> \<exists>b'. run_buf junk ops b = Inr b' \<and> buf_ok b' \<and> written b' = queue (text_buffer b) ops (written b)
     \<and> text_buffer b' = text_buffer b"
proof (induction ops arbitrary: b)
  case (Cons a ops)
  have put: "\<exists>b'. bind_r (buf_put junk bs b) (run_buf junk ops) = Inr b' \<and> buf_ok b'
      \<and> written b' = queue (text_buffer b) ops (written b @ bs) \<and> text_buffer b' = text_buffer b" for bs
  proof -
    obtain b1 where b1: "buf_put junk bs b = Inr b1" "buf_ok b1" "written b1 = written b @ bs"
      "text_buffer b1 = text_buffer b"
      by (rule buf_put_ok [OF Cons.prems])
    show ?thesis
      using Cons.IH [OF b1(2)] b1 by simp
  qed
  show ?case
  proof (cases a)
    case Clear
    have "buf_ok (buf_clear b)" "written (buf_clear b) = []"
      using Cons.prems by (simp_all add: buf_ok_def buf_clear_def is_valid_def buf_size_def written_def)
    then show ?thesis
      using Cons.IH [of "buf_clear b"] by (simp add: Clear) (simp add: buf_clear_def)
  qed (use put in \<open>simp_all add: put_short_def put_int_def put_string_bytes\<close>)
qed simp


section \<open>External memory\<close>

definition external_ok :: "nat \<Rightarrow> utl_buffer \<Rightarrow> bool" where
  "external_ok n b = (m_External (m_Memory b) \<and> buf_size b = n \<and> m_Put b \<le> n)"

lemma buf_put_external:
  assumes "external_ok n b"
  shows "\<exists>b'. buf_put junk bs b = Inr b' \<and> external_ok n b'
    \<and> (if is_valid b \<and> m_Put b + length bs \<le> n then is_valid b' \<and> written b' = written b @ bs
       else \<not> is_valid b' \<and> written b' = written b)"
proof (cases "is_valid b \<and> m_Put b + length bs \<le> n")
  case True
  let ?m = "m_Memory b"
  let ?mem = "take (m_Put b) (m_pMemory ?m) @ bs @ drop (m_Put b + length bs) (m_pMemory ?m)"
  have n: "length (m_pMemory ?m) = n"
    using assms by (simp add: external_ok_def buf_size_def num_allocated_def)
  have "grow_until junk (m_Put b + length bs) ?m = (True, ?m)"
    using True n by (subst grow_until.simps) (simp add: num_allocated_def)
  moreover have "wr_buf (m_pMemory ?m) (int (m_Put b)) bs = Inr ?mem"
    by (rule wr_buf_at) (use True n in simp)
  ultimately have "buf_put junk bs b = Inr (b\<lparr>m_Memory := ?m\<lparr>m_pMemory := ?mem\<rparr>, put_overflow := False, m_Put := m_Put b + length bs\<rparr>)"
    using True by (simp add: buf_put_def check_put_def store_bytes_def)
  then show ?thesis
    using True assms n by (simp add: external_ok_def buf_size_def num_allocated_def is_valid_def written_def)
next
  case False
  show ?thesis
  proof (cases "is_valid b")
    case True
    have "grow_until junk (m_Put b + length bs) (m_Memory b) = (False, m_Memory b)"
      using assms False True by (subst grow_until.simps) (auto simp: external_ok_def buf_size_def)
    then have "buf_put junk bs b = Inr (b\<lparr>m_Memory := m_Memory b, put_overflow := True\<rparr>)"
      using True by (simp add: buf_put_def check_put_def)
    then show ?thesis
      using False True assms by (simp add: external_ok_def buf_size_def is_valid_def written_def)
  next
    case invalid: False
    then have "buf_put junk bs b = Inr b"
      by (simp add: buf_put_def check_put_def)
    then show ?thesis
      using invalid assms by simp
  qed
qed

text \<open>
  Writes into memory that is not the buffer's own stay inside it: what does not fit is refused, and
  everything after it until the buffer is cleared.
\<close>

lemma run_buf_external:
  "external_ok n b \<Longrightarrow> \<exists>b'. run_buf junk ops b = Inr b' \<and> external_ok n b'"
proof (induction ops arbitrary: b)
  case (Cons a ops)
  have put: "\<exists>b'. bind_r (buf_put junk bs b) (run_buf junk ops) = Inr b' \<and> external_ok n b'" for bs
  proof -
    obtain b1 where "buf_put junk bs b = Inr b1" "external_ok n b1"
      using buf_put_external [OF Cons.prems, of junk bs] by blast
    then show ?thesis
      using Cons.IH by simp
  qed
  show ?case
  proof (cases a)
    case Clear
    have "external_ok n (buf_clear b)"
      using Cons.prems by (simp add: external_ok_def buf_clear_def buf_size_def)
    then show ?thesis
      using Cons.IH [of "buf_clear b"] by (simp add: Clear)
  qed (use put in \<open>simp_all add: put_short_def put_int_def put_string_bytes\<close>)
qed simp

section \<open>Reading back\<close>

datatype buf_val = V_Short "16 word" | V_Int "32 word" | V_String "octet list"

fun val_bytes :: "buf_val \<Rightarrow> octet list" where
  "val_bytes (V_Short w) = le16 w"
| "val_bytes (V_Int w) = le32 w"
| "val_bytes (V_String s) = s @ [0]"

fun put_val :: "(nat \<Rightarrow> octet) \<Rightarrow> buf_val \<Rightarrow> utl_buffer \<Rightarrow> voice_error + utl_buffer" where
  "put_val junk (V_Short w) b = put_short junk w b"
| "put_val junk (V_Int w) b = put_int junk w b"
| "put_val junk (V_String s) b = put_string junk s b"

text \<open>Reading a value of the kind of another one.\<close>

fun get_val :: "buf_val \<Rightarrow> utl_buffer \<Rightarrow> voice_error + buf_val \<times> utl_buffer" where
  "get_val (V_Short _) b = bind_r (get_short b) (\<lambda>(w, b'). Inr (V_Short w, b'))"
| "get_val (V_Int _) b = bind_r (get_int b) (\<lambda>(w, b'). Inr (V_Int w, b'))"
| "get_val (V_String _) b = bind_r (get_string 0 b) (\<lambda>(s, b'). Inr (V_String (butlast s), b'))"

fun put_vals :: "(nat \<Rightarrow> octet) \<Rightarrow> buf_val list \<Rightarrow> utl_buffer \<Rightarrow> voice_error + utl_buffer" where
  "put_vals junk [] b = Inr b"
| "put_vals junk (v # vs) b = bind_r (put_val junk v b) (put_vals junk vs)"

fun get_vals :: "buf_val list \<Rightarrow> utl_buffer \<Rightarrow> voice_error + buf_val list \<times> utl_buffer" where
  "get_vals [] b = Inr ([], b)"
| "get_vals (v # vs) b =
     bind_r (get_val v b) (\<lambda>(x, b'). bind_r (get_vals vs b') (\<lambda>(xs, b''). Inr (x # xs, b'')))"

definition no_zero :: "buf_val \<Rightarrow> bool" where
  "no_zero v = (case v of V_String s \<Rightarrow> 0 \<notin> set s | _ \<Rightarrow> True)"

lemma takeWhile_no_zero: "0 \<notin> set s \<Longrightarrow> takeWhile (\<lambda>c. c \<noteq> 0) s = s"
  by (induction s) auto

lemma takeWhile_zero: "0 \<notin> set s \<Longrightarrow> takeWhile (\<lambda>c. c \<noteq> 0) (s @ 0 # r) = s"
  by (induction s) auto

lemma put_val_bytes:
  "no_zero v \<Longrightarrow> \<not> text_buffer b \<Longrightarrow> put_val junk v b = buf_put junk (val_bytes v) b"
  by (cases v)
    (simp_all add: put_short_def put_int_def put_string_bytes string_bytes_def no_zero_def takeWhile_no_zero)

lemma get_val_at:
  assumes "is_valid b" "\<not> text_buffer b" "no_zero v" "holds (m_pMemory (m_Memory b)) (m_Get b) (val_bytes v)"
  shows "get_val v b = Inr (v, b\<lparr>m_Get := m_Get b + length (val_bytes v)\<rparr>)"
proof (cases v)
  case (V_Short w)
  then have "m_Get b + 2 \<le> length (m_pMemory (m_Memory b))" "rd16 (m_pMemory (m_Memory b)) (m_Get b) = Inr w"
    using assms(4) rd16_le16 [of "m_Get b" "m_pMemory (m_Memory b)" w] by (simp_all add: holds_def)
  then show ?thesis
    using assms(1) by (simp add: V_Short get_short_def check_get_def buf_size_def num_allocated_def)
next
  case (V_Int w)
  then have "m_Get b + 4 \<le> length (m_pMemory (m_Memory b))" "rd32 (m_pMemory (m_Memory b)) (m_Get b) = Inr w"
    using assms(4) rd32_le32 [of "m_Get b" "m_pMemory (m_Memory b)" w] by (simp_all add: holds_def)
  then show ?thesis
    using assms(1) by (simp add: V_Int get_int_def check_get_def buf_size_def num_allocated_def)
next
  case (V_String s)
  let ?m = "m_pMemory (m_Memory b)"
  have here: "m_Get b + (length s + 1) \<le> length ?m" "take (length s + 1) (drop (m_Get b) ?m) = s @ [0]"
    using assms(4) by (simp_all add: V_String holds_def)
  have "drop (m_Get b) ?m = (s @ [0]) @ drop (length s + 1) (drop (m_Get b) ?m)"
    using append_take_drop_id [of "length s + 1" "drop (m_Get b) ?m"] here(2) by simp
  then obtain r where r: "drop (m_Get b) ?m = s @ 0 # r"
    by simp
  have "takeWhile (\<lambda>c. c \<noteq> 0) (drop (m_Get b) ?m) = s" "length s \<noteq> length (drop (m_Get b) ?m)"
    using assms(3) by (simp_all add: r V_String no_zero_def takeWhile_zero)
  then have "get_string 0 b = buf_get (length s + 1) b"
    using assms(1,2) by (simp add: get_string_def)
  also have "\<dots> = Inr (s @ [0], b\<lparr>m_Get := m_Get b + (length s + 1)\<rparr>)"
    using here by (simp add: buf_get_def rd_buf_def)
  finally show ?thesis
    by (simp add: V_String)
qed

lemma put_vals_written:
  assumes "buf_ok b" "\<not> text_buffer b" "\<forall>v \<in> set vs. no_zero v"
  shows "\<exists>b'. put_vals junk vs b = Inr b' \<and> buf_ok b' \<and> \<not> text_buffer b' \<and> m_Get b' = m_Get b
    \<and> written b' = written b @ concat (map val_bytes vs)"
  using assms
proof (induction vs arbitrary: b)
  case (Cons v vs)
  obtain b1 where b1: "buf_put junk (val_bytes v) b = Inr b1" "buf_ok b1" "written b1 = written b @ val_bytes v"
    "m_Get b1 = m_Get b" "text_buffer b1 = text_buffer b"
    by (rule buf_put_ok [OF Cons.prems(1)])
  then show ?case
    using Cons.IH [of b1] Cons.prems by (simp add: put_val_bytes)
qed simp

lemma get_vals_at:
  assumes "is_valid b" "\<not> text_buffer b" "\<forall>v \<in> set vs. no_zero v"
    and "holds (m_pMemory (m_Memory b)) (m_Get b) (concat (map val_bytes vs))"
  shows "get_vals vs b = Inr (vs, b\<lparr>m_Get := m_Get b + length (concat (map val_bytes vs))\<rparr>)"
  using assms
proof (induction vs arbitrary: b)
  case (Cons v vs)
  let ?b = "b\<lparr>m_Get := m_Get b + length (val_bytes v)\<rparr>"
  have "holds (m_pMemory (m_Memory b)) (m_Get b) (val_bytes v)"
    and rest: "holds (m_pMemory (m_Memory b)) (m_Get b + length (val_bytes v)) (concat (map val_bytes vs))"
    using Cons.prems(4) by (simp_all add: holds_append)
  then have v: "get_val v b = Inr (v, ?b)"
    using get_val_at Cons.prems by simp
  have "get_vals vs ?b = Inr (vs, ?b\<lparr>m_Get := m_Get ?b + length (concat (map val_bytes vs))\<rparr>)"
    by (rule Cons.IH) (use Cons.prems rest in \<open>simp_all add: is_valid_def\<close>)
  then show ?case
    by (simp add: v add.assoc)
qed simp

text \<open>
  What is written to a binary buffer is read back: shorts, integers and strings in any order come out
  as they went in, in order, and the reading ends where the writing ended.
\<close>
theorem utl_buffer_round_trip:
  assumes "\<forall>v \<in> set vs. no_zero v"
  shows "\<exists>b' b''. put_vals junk vs (new_utl_buffer grow init False) = Inr b' \<and> get_vals vs b' = Inr (vs, b'')
    \<and> m_Get b'' = m_Put b''"
proof -
  let ?b = "new_utl_buffer grow init False"
  have "buf_ok ?b" "\<not> text_buffer ?b" "m_Get ?b = 0" "written ?b = []"
    by (simp_all add: buf_ok_def new_utl_buffer_def is_valid_def buf_size_def written_def)
  then obtain b' where b': "put_vals junk vs ?b = Inr b'" "buf_ok b'" "\<not> text_buffer b'" "m_Get b' = 0"
    "written b' = concat (map val_bytes vs)"
    using put_vals_written [of ?b vs junk] assms by auto
  have len: "m_Put b' = length (concat (map val_bytes vs))" "m_Put b' \<le> length (m_pMemory (m_Memory b'))"
    using b'(2) by (simp_all add: buf_ok_def buf_size_def num_allocated_def flip: b'(5)) (simp add: written_def)
  have "holds (m_pMemory (m_Memory b')) (m_Get b') (concat (map val_bytes vs))"
    using b'(4,5) len by (simp add: holds_def written_def)
  then have "get_vals vs b' = Inr (vs, b'\<lparr>m_Get := m_Get b' + length (concat (map val_bytes vs))\<rparr>)"
    using get_vals_at [of b' vs] b'(2,3) assms by (simp add: buf_ok_def)
  with b'(1,4) len show ?thesis
    by simp
qed

lemma utl_buffer_round_trip_witness:
  "\<exists>b' b''. put_vals (\<lambda>_. 255) [V_Short 258, V_String [65, 66], V_Int 7] (new_utl_buffer 0 [] False) = Inr b'
    \<and> get_vals [V_Short 258, V_String [65, 66], V_Int 7] b' = Inr ([V_Short 258, V_String [65, 66], V_Int 7], b'')
    \<and> m_Get b'' = m_Put b''"
  by (rule utl_buffer_round_trip) (simp add: no_zero_def)

text \<open>
  A read is checked against the memory that is allocated, not against what was written: a buffer that
  holds one byte answers a short, half of it fresh memory, and stays valid.
\<close>

lemma short_from_fresh_memory:
  "\<exists>b b'. run_buf junk [Put_Bytes [c]] (new_utl_buffer 0 [] False) = Inr b \<and> m_Put b = 1
     \<and> get_short b = Inr (ucast c OR push_bit 8 (ucast (junk 1)), b') \<and> is_valid b'"
proof -
  have g: "grow_count 0 (Suc 0) 0 = 32"
    by (subst grow_count.simps, simp, subst grow_count.simps, simp)
  let ?mem = "map junk [0..<32]"
  have "grow_until junk 1 \<lparr>m_pMemory = [], m_nGrowSize = 0, m_External = False\<rparr>
      = (True, \<lparr>m_pMemory = ?mem, m_nGrowSize = 0, m_External = False\<rparr>)"
    by (simp add: grow_until.simps [of junk "Suc 0" "\<lparr>m_pMemory = [], m_nGrowSize = 0, m_External = False\<rparr>"]
        grow_until.simps [of junk "Suc 0" "\<lparr>m_pMemory = ?mem, m_nGrowSize = 0, m_External = False\<rparr>"]
        num_allocated_def mem_grow_def more_memory_def g)
  then have "run_buf junk [Put_Bytes [c]] (new_utl_buffer 0 [] False) =
      Inr (new_utl_buffer 0 (c # map junk [1..<32]) False\<lparr>m_Put := 1\<rparr>)"
    by (simp add: buf_put_def check_put_def store_bytes_def new_utl_buffer_def is_valid_def wr_buf_def drop_map)
  moreover have "get_short (new_utl_buffer 0 (c # map junk [1..<32]) False\<lparr>m_Put := 1\<rparr>) =
      Inr (ucast c OR push_bit 8 (ucast (junk 1)), new_utl_buffer 0 (c # map junk [1..<32]) False\<lparr>m_Put := 1, m_Get := 2\<rparr>)"
    by (simp add: get_short_def check_get_def new_utl_buffer_def is_valid_def buf_size_def num_allocated_def rd16_def rd8_def)
  moreover have "is_valid (new_utl_buffer 0 (c # map junk [1..<32]) False\<lparr>m_Put := 1, m_Get := 2\<rparr>)"
    "m_Put (new_utl_buffer 0 (c # map junk [1..<32]) False\<lparr>m_Put := 1\<rparr>) = 1"
    by (simp_all add: new_utl_buffer_def is_valid_def)
  ultimately show ?thesis
    by blast
qed

section \<open>Samples\<close>

text \<open>
  The codecs keep samples in the buffer; the models of the codecs take it for the list of samples.  This
  is how \<^verbatim>\<open>VoiceEncoder_Opus::Compress\<close> joins the queue, the new samples and the silence behind them.
\<close>

definition sample_bytes :: "sample list \<Rightarrow> octet list" where
  "sample_bytes xs = concat (map le16 xs)"

lemma queue_shorts: "queue t (map Put_Short ws) q = q @ sample_bytes ws"
  by (induction ws arbitrary: q) (simp_all add: sample_bytes_def)

lemma length_sample_bytes: "length (sample_bytes xs) = 2 * length xs"
  by (induction xs) (simp_all add: sample_bytes_def)

lemma joined_samples:
  "\<exists>b. run_buf junk ([Put_Bytes (sample_bytes q), Put_Bytes (sample_bytes xs)] @ map Put_Short (replicate n 0))
         (new_utl_buffer 0 [] False) = Inr b
     \<and> written b = sample_bytes (q @ xs @ replicate n 0) \<and> m_Put b = 2 * length (q @ xs @ replicate n 0)"
proof -
  let ?ops = "[Put_Bytes (sample_bytes q), Put_Bytes (sample_bytes xs)] @ map Put_Short (replicate n 0)"
  have "buf_ok (new_utl_buffer 0 [] False)"
    by (simp add: buf_ok_def new_utl_buffer_def is_valid_def buf_size_def)
  from run_buf_refines [OF this, of junk ?ops] obtain b where
    b: "run_buf junk ?ops (new_utl_buffer 0 [] False) = Inr b" "buf_ok b" "written b = queue False ?ops []"
    by (auto simp: new_utl_buffer_def written_def)
  have w: "written b = sample_bytes (q @ xs @ replicate n 0)"
    unfolding b(3) by (simp add: queue_shorts del: map_replicate) (simp add: sample_bytes_def)
  have "m_Put b = length (written b)"
    using b(2) by (simp add: buf_ok_def written_def buf_size_def num_allocated_def)
  also have "\<dots> = 2 * length (q @ xs @ replicate n 0)"
    unfolding w by (rule length_sample_bytes)
  finally show ?thesis
    using b(1) w by blast
qed

end
