(* ===== verification/Voice_Player.thy ===== *)
theory Voice_Player
  imports Complex_Main Voice_Codec Text_Utils
begin

text \<open>
  The player of the voice plugin, \<^verbatim>\<open>CRevoicePlayer\<close> (\<^verbatim>\<open>revoice_player.h\<close>, \<^verbatim>\<open>revoice_player.cpp\<close>), and the
  handlers of \<^verbatim>\<open>revoice_main.cpp\<close> that find out which codec a client speaks.
\<close>

section \<open>State\<close>

datatype codec_type = vct_none | vct_silk | vct_opus | vct_speex

text \<open>The three codec objects of a player; each is used for decoding and for encoding.\<close>

datatype codec_id = Silk_Codec | Opus_Codec | Speex_Codec

text \<open>The methods of a codec that the plugin calls.\<close>

record 's codec_class =
  v_Compress :: "sample list \<Rightarrow> octet list \<Rightarrow> nat \<Rightarrow> nat \<Rightarrow> bool \<Rightarrow> 's \<Rightarrow> voice_error + int \<times> octet list \<times> 's"
  v_Decompress :: "octet list \<Rightarrow> nat \<Rightarrow> nat \<Rightarrow> nat \<Rightarrow> 's \<Rightarrow> voice_error + int \<times> sample list \<times> 's"
  v_ResetState :: "'s \<Rightarrow> 's"
  v_SampleRate :: "'s \<Rightarrow> nat"
  v_SetBitRate :: "rat \<Rightarrow> 's \<Rightarrow> 's"
  v_SetSteamid :: "64 word \<Rightarrow> 's \<Rightarrow> 's"

record 's revoice_player =
  m_Codec :: "codec_id \<Rightarrow> 's"
  m_CodecType :: codec_type
  m_Protocol :: int
  m_VoiceRate :: int
  m_RequestId :: int
  m_Connected :: bool
  m_HLTV :: bool
  m_IsMuted_Old :: bool
  m_IsBlocked :: bool
  m_IsSpeaking :: bool
  m_iCheckingState :: nat
  m_VoiceEndTime :: int           \<comment> \<open>in milliseconds\<close>
  m_VoiceBusy :: bool
  m_iDecodeFails :: nat
  m_steamBuff :: "octet list"
  m_speexBuff :: "octet list"
  m_LastVoiceTime :: rat          \<comment> \<open>\<^verbatim>\<open>IGameClient::GetLastVoiceTime\<close>\<close>

definition speaking_timeout :: int where
  "speaking_timeout = 200"

definition decode_fail_limit :: nat where
  "decode_fail_limit = 8"

section \<open>Names of codecs\<close>

text \<open>\<^verbatim>\<open>strcasecmp\<close> in the C locale.\<close>

definition lower_ascii :: "char \<Rightarrow> char" where
  "lower_ascii c = (if CHR ''A'' \<le> c \<and> c \<le> CHR ''Z'' then char_of (of_char c + (32 :: nat)) else c)"

definition same_nocase :: "string \<Rightarrow> string \<Rightarrow> bool" where
  "same_nocase a b = (map lower_ascii a = map lower_ascii b)"

definition codec_type_by_string :: "string \<Rightarrow> codec_type" where
  "codec_type_by_string codec =
     (if same_nocase codec ''opus'' then vct_opus
      else if same_nocase codec ''silk'' then vct_silk
      else if same_nocase codec ''speex'' then vct_speex
      else vct_none)"

fun codec_type_to_string :: "codec_type \<Rightarrow> string" where
  "codec_type_to_string vct_none = ''none''"
| "codec_type_to_string vct_silk = ''silk''"
| "codec_type_to_string vct_opus = ''opus''"
| "codec_type_to_string vct_speex = ''speex''"

section \<open>Connecting and leaving\<close>

text \<open>What the handlers ask the engine and the other plugins.\<close>

record connect_env =
  e_protocol :: int              \<comment> \<open>\<^verbatim>\<open>GetClientProtocol\<close>\<close>
  e_is_hltv :: bool              \<comment> \<open>\<^verbatim>\<open>GetClientAuthtype\<close> is \<^verbatim>\<open>DP_AUTH_HLTV\<close>\<close>
  e_steamid :: "64 word"
  e_default_codec :: string      \<comment> \<open>\<^verbatim>\<open>REV_DefaultCodec\<close>\<close>
  e_hltv_codec :: string         \<comment> \<open>\<^verbatim>\<open>REV_HltvCodec\<close>\<close>
  e_request_id :: int            \<comment> \<open>\<^verbatim>\<open>MAKE_REQUESTID(PLID)\<close>\<close>

text \<open>The second component says whether the client is asked for its \<^verbatim>\<open>sv_version\<close>.\<close>

definition on_connected ::
    "(codec_id \<Rightarrow> 's codec_class) \<Rightarrow> connect_env \<Rightarrow> 's revoice_player \<Rightarrow> 's revoice_player \<times> bool" where
  "on_connected vt env plr =
     (let p0 = plr\<lparr>m_iDecodeFails := 0\<rparr> in
      if m_Connected p0 then (p0\<lparr>m_VoiceRate := 0\<rparr>, False)
      else if e_protocol env \<noteq> 47 \<and> e_protocol env \<noteq> 48 then (p0, False)
      else
        let reset = (\<lambda>i. v_ResetState (vt i) (m_Codec p0 i));
            named = reset(Silk_Codec := v_SetSteamid (vt Silk_Codec) (e_steamid env) (reset Silk_Codec),
                          Opus_Codec := v_SetSteamid (vt Opus_Codec) (e_steamid env) (reset Opus_Codec));
            p1 = p0\<lparr>m_Codec := named, m_CodecType := codec_type_by_string (e_default_codec env), m_VoiceRate := 0,
                    m_Connected := True, m_RequestId := e_request_id env, m_Protocol := e_protocol env\<rparr>
        in if e_is_hltv env
           then (p1\<lparr>m_CodecType := codec_type_by_string (e_hltv_codec env), m_HLTV := True\<rparr>, False)
           else (p1, m_Protocol p1 = 48))"

definition on_disconnected :: "'s revoice_player \<Rightarrow> 's revoice_player" where
  "on_disconnected plr = plr\<lparr>m_iDecodeFails := 0, m_HLTV := False, m_Connected := False, m_Protocol := 0,
     m_CodecType := vct_none, m_VoiceRate := 0, m_RequestId := 0\<rparr>"

definition update_player :: "connect_env \<Rightarrow> 's revoice_player \<Rightarrow> 's revoice_player \<times> bool" where
  "update_player env plr =
     (if m_HLTV plr then (plr\<lparr>m_CodecType := codec_type_by_string (e_hltv_codec env)\<rparr>, False)
      else (plr\<lparr>m_CodecType := codec_type_by_string (e_default_codec env), m_RequestId := e_request_id env\<rparr>,
            m_Protocol plr = 48))"

definition update_players :: "connect_env \<Rightarrow> 's revoice_player list \<Rightarrow> 's revoice_player list" where
  "update_players env plrs = map (\<lambda>p. if m_Connected p then fst (update_player env p) else p) plrs"

definition update_hltv :: "connect_env \<Rightarrow> 's revoice_player list \<Rightarrow> 's revoice_player list" where
  "update_hltv env plrs = map (\<lambda>p. if m_Connected p \<and> m_HLTV p then fst (update_player env p) else p) plrs"

definition update_bitrate :: "(codec_id \<Rightarrow> 's codec_class) \<Rightarrow> rat \<Rightarrow> 's revoice_player list \<Rightarrow> 's revoice_player list" where
  "update_bitrate vt rate plrs =
     map (\<lambda>p. if m_Connected p
               then p\<lparr>m_Codec := (m_Codec p)
                        (Opus_Codec := v_SetBitRate (vt Opus_Codec) rate (m_Codec p Opus_Codec),
                         Silk_Codec := v_SetBitRate (vt Silk_Codec) rate (m_Codec p Silk_Codec))\<rparr>
               else p) plrs"

section \<open>The rate of a player's voice\<close>

definition int_of_double :: "rat \<Rightarrow> int" where
  "int_of_double x = (if x < 0 then \<lceil>x\<rceil> else \<lfloor>x\<rfloor>)"

definition update_voice_rate :: "rat \<Rightarrow> 's revoice_player \<Rightarrow> 's revoice_player" where
  "update_voice_rate delta plr =
     (if m_VoiceRate plr \<noteq> 0 then
        let rate = (case m_CodecType plr of
                      vct_silk \<Rightarrow> m_VoiceRate plr - (int_of_double (delta * 3800) + 650)
                    | vct_opus \<Rightarrow> m_VoiceRate plr - (int_of_double (delta * 3100) + 960)
                    | vct_speex \<Rightarrow> m_VoiceRate plr - (int_of_double (delta * 2014) + 228)
                    | vct_none \<Rightarrow> m_VoiceRate plr)
        in plr\<lparr>m_VoiceRate := (if rate < 0 then 0 else rate)\<rparr>
      else plr)"

definition set_last_voice_time :: "rat \<Rightarrow> 's revoice_player \<Rightarrow> 's revoice_player" where
  "set_last_voice_time time plr = (update_voice_rate (time - m_LastVoiceTime plr) plr)\<lparr>m_LastVoiceTime := time\<rparr>"

definition increase_voice_rate :: "nat \<Rightarrow> 's revoice_player \<Rightarrow> 's revoice_player" where
  "increase_voice_rate len plr = plr\<lparr>m_VoiceRate := m_VoiceRate plr + int len\<rparr>"

section \<open>Speaking\<close>

definition speak :: "int \<Rightarrow> 's revoice_player \<Rightarrow> 's revoice_player" where
  "speak now plr = plr\<lparr>m_IsSpeaking := True, m_VoiceEndTime := now + speaking_timeout\<rparr>"

definition check_speaking :: "int \<Rightarrow> 's revoice_player \<Rightarrow> bool" where
  "check_speaking now plr = (now < m_VoiceEndTime plr)"

definition speak_done :: "'s revoice_player \<Rightarrow> 's revoice_player" where
  "speak_done plr = plr\<lparr>m_IsSpeaking := False\<rparr>"

section \<open>Which codec a client speaks\<close>

datatype meta_res = MRES_IGNORED | MRES_SUPERCEDE

definition on_client_command :: "string \<Rightarrow> 's revoice_player \<Rightarrow> meta_res \<times> 's revoice_player" where
  "on_client_command command plr =
     (if command = ''VTC_CheckStart'' then
        (MRES_SUPERCEDE, plr\<lparr>m_iCheckingState := 1, m_CodecType := vct_speex\<rparr>)
      else if m_iCheckingState plr \<noteq> 0 then
        (if command = ''vgui_runscript'' then (MRES_SUPERCEDE, plr\<lparr>m_iCheckingState := 2\<rparr>)
         else if command = ''VTC_CheckEnd'' then
           (MRES_SUPERCEDE, plr\<lparr>m_CodecType := (if m_iCheckingState plr = 2 then vct_opus else vct_speex),
                                 m_iCheckingState := 0\<rparr>)
         else (MRES_IGNORED, plr))
      else (MRES_IGNORED, plr))"

fun on_client_commands :: "string list \<Rightarrow> 's revoice_player \<Rightarrow> 's revoice_player" where
  "on_client_commands [] plr = plr"
| "on_client_commands (c # cs) plr = on_client_commands cs (snd (on_client_command c plr))"

text \<open>\<^verbatim>\<open>strrchr\<close>: what follows the last separator.\<close>

fun after_last :: "char \<Rightarrow> string \<Rightarrow> string option" where
  "after_last c [] = None"
| "after_last c (x # xs) =
     (case after_last c xs of Some t \<Rightarrow> Some t | None \<Rightarrow> if x = c then Some xs else None)"

definition cvar_value2 :: "int \<Rightarrow> string \<Rightarrow> 's revoice_player \<Rightarrow> 's revoice_player" where
  "cvar_value2 requestID cvarValue plr =
     (if m_RequestId plr \<noteq> requestID then plr
      else case after_last (CHR '','') cvarValue of
             None \<Rightarrow> plr
           | Some build \<Rightarrow> if atoi build > 4554 then plr\<lparr>m_CodecType := vct_opus\<rparr> else plr)"

section \<open>Properties\<close>

text \<open>Every operation keeps the rate from going below zero and the check in one of its three states.\<close>

definition player_ok :: "'s revoice_player \<Rightarrow> bool" where
  "player_ok plr = (0 \<le> m_VoiceRate plr \<and> m_iCheckingState plr \<le> 2 \<and> (m_HLTV plr \<longrightarrow> m_Connected plr))"

datatype 's player_op =
    Connected connect_env
  | Disconnected
  | Default_Codec_Changed connect_env
  | Bitrate_Changed rat
  | Voice_Time rat
  | Voice_Data nat
  | Speak int
  | Speak_Done
  | Client_Command string
  | Cvar_Value int string

fun run_op :: "(codec_id \<Rightarrow> 's codec_class) \<Rightarrow> 's player_op \<Rightarrow> 's revoice_player \<Rightarrow> 's revoice_player" where
  "run_op vt (Connected env) p = fst (on_connected vt env p)"
| "run_op vt Disconnected p = on_disconnected p"
| "run_op vt (Default_Codec_Changed env) p = hd (update_players env [p])"
| "run_op vt (Bitrate_Changed rate) p = hd (update_bitrate vt rate [p])"
| "run_op vt (Voice_Time time) p = set_last_voice_time time p"
| "run_op vt (Voice_Data len) p = increase_voice_rate len p"
| "run_op vt (Speak now) p = speak now p"
| "run_op vt Speak_Done p = speak_done p"
| "run_op vt (Client_Command c) p = snd (on_client_command c p)"
| "run_op vt (Cvar_Value i v) p = cvar_value2 i v p"

lemma player_ok_run_op: "player_ok p \<Longrightarrow> player_ok (run_op vt a p)"
  by (cases a)
    (auto simp: player_ok_def on_connected_def on_disconnected_def update_players_def update_player_def
      update_bitrate_def set_last_voice_time_def update_voice_rate_def increase_voice_rate_def speak_def
      speak_done_def on_client_command_def cvar_value2_def Let_def split: codec_type.splits option.splits)

text \<open>
  Whatever happens to a player, in any order, the rate of its voice is never negative, the codec
  check is in one of its three states, and only a connected player is an HLTV proxy.
\<close>

theorem player_stays_ok:
  assumes "player_ok p"
  shows "player_ok (fold (run_op vt) ops p)"
  using assms by (induction ops arbitrary: p) (simp_all add: player_ok_run_op)

definition fresh_player :: "(codec_id \<Rightarrow> 's) \<Rightarrow> 's revoice_player" where
  "fresh_player codecs = \<lparr>m_Codec = codecs, m_CodecType = vct_none, m_Protocol = 0, m_VoiceRate = 0, m_RequestId = 0,
     m_Connected = False, m_HLTV = False, m_IsMuted_Old = False, m_IsBlocked = False, m_IsSpeaking = False,
     m_iCheckingState = 0, m_VoiceEndTime = 0, m_VoiceBusy = False, m_iDecodeFails = 0, m_steamBuff = [],
     m_speexBuff = [], m_LastVoiceTime = 0\<rparr>"

theorem player_stays_ok_witness:
  "player_ok (fold (run_op (\<lambda>_. undefined)) [Voice_Data 5000, Client_Command ''VTC_CheckStart'', Voice_Time 1, Disconnected]
     (fresh_player (\<lambda>_. ())))"
  by (rule player_stays_ok) (simp add: player_ok_def fresh_player_def)

text \<open>
  The check of the codec: between its start and its end it only matters whether the client ran the
  script.
\<close>

lemma check_middle:
  assumes "\<forall>c \<in> set cs. c \<noteq> ''VTC_CheckStart'' \<and> c \<noteq> ''VTC_CheckEnd''" "m_iCheckingState p \<noteq> 0" "m_iCheckingState p \<le> 2"
  shows "on_client_commands cs p
       = p\<lparr>m_iCheckingState := (if ''vgui_runscript'' \<in> set cs then 2 else m_iCheckingState p)\<rparr>"
  using assms
proof (induction cs arbitrary: p)
  case Nil
  then show ?case by simp
next
  case (Cons c cs)
  show ?case
  proof (cases "c = ''vgui_runscript''")
    case True
    with Cons.prems Cons.IH [of "p\<lparr>m_iCheckingState := 2\<rparr>"] show ?thesis
      by (simp add: on_client_command_def)
  next
    case False
    have "snd (on_client_command c p) = p"
      using Cons.prems False by (simp add: on_client_command_def)
    with Cons.prems Cons.IH [of p] False show ?thesis by auto
  qed
qed

lemma commands_append: "on_client_commands (as @ bs) p = on_client_commands bs (on_client_commands as p)"
  by (induction as arbitrary: p) simp_all

text \<open>
  The codec check decides the codec.  Whatever state the check was in, from \<^verbatim>\<open>VTC_CheckStart\<close> to
  the next \<^verbatim>\<open>VTC_CheckEnd\<close>, with any other commands in between, the player ends as an Opus player
  exactly if the client executed \<^verbatim>\<open>vgui_runscript\<close> in between, as a Speex player otherwise; the check is
  over and nothing else of the player has changed.
\<close>

theorem codec_check_decides:
  assumes "\<forall>c \<in> set cs. c \<noteq> ''VTC_CheckStart'' \<and> c \<noteq> ''VTC_CheckEnd''"
  shows "on_client_commands ([''VTC_CheckStart''] @ cs @ [''VTC_CheckEnd'']) p
       = p\<lparr>m_CodecType := (if ''vgui_runscript'' \<in> set cs then vct_opus else vct_speex), m_iCheckingState := 0\<rparr>"
proof -
  let ?p = "p\<lparr>m_iCheckingState := 1, m_CodecType := vct_speex\<rparr>"
  have "on_client_commands cs ?p
      = ?p\<lparr>m_iCheckingState := (if ''vgui_runscript'' \<in> set cs then 2 else 1)\<rparr>"
    using check_middle [OF assms, of ?p] by simp
  then show ?thesis
    by (simp add: commands_append on_client_command_def)
qed

theorem codec_check_decides_witness:
  "m_CodecType (on_client_commands ([''VTC_CheckStart''] @ [''say'', ''vgui_runscript''] @ [''VTC_CheckEnd''])
     (fresh_player (\<lambda>_. ()))) = vct_opus"
  by (subst codec_check_decides) simp_all

text \<open>
  A client that leaves is forgotten only in part.  \<^verbatim>\<open>OnDisconnected\<close> keeps \<^verbatim>\<open>m_IsSpeaking\<close>,
  \<^verbatim>\<open>m_IsBlocked\<close>, \<^verbatim>\<open>m_IsMuted_Old\<close> and the state of the codec check, and \<^verbatim>\<open>OnConnected\<close> does not set them
  either: the next client in the slot is still blocked or muted when the one before it was.
\<close>

theorem reconnect_keeps_block:
  "m_IsBlocked (fst (on_connected vt env (on_disconnected p))) = m_IsBlocked p
   \<and> m_IsMuted_Old (fst (on_connected vt env (on_disconnected p))) = m_IsMuted_Old p
   \<and> m_IsSpeaking (fst (on_connected vt env (on_disconnected p))) = m_IsSpeaking p
   \<and> m_iCheckingState (fst (on_connected vt env (on_disconnected p))) = m_iCheckingState p"
  by (simp add: on_connected_def on_disconnected_def Let_def)

end
