(* ===== verification/Voice_Parse.thy ===== *)
theory Voice_Parse
  imports Voice_Player
begin

text \<open>
  The voice packets of \<^verbatim>\<open>revoice_main.cpp\<close>: transcoding (\<^verbatim>\<open>TranscodeVoice\<close>), the handler of
  \<^verbatim>\<open>clc_voicedata\<close> (\<^verbatim>\<open>SV_ParseVoiceData_emu\<close>), the relay to the other clients, and the events of players
  that start and stop speaking, which \<^verbatim>\<open>StartFrame_PostHook\<close> sends.  The resampler libsoxr and the
  subscribers of \<^verbatim>\<open>g_OnDecompress\<close> are parameters.
\<close>

section \<open>State\<close>

record datagram =
  cursize :: nat
  maxsize :: nat
  d_voice :: "(nat \<times> octet list) list"     \<comment> \<open>the \<^verbatim>\<open>svc_voicedata\<close> messages written: sender and data\<close>

record client =
  c_active :: bool
  c_connected :: bool
  c_loopback :: bool
  c_stream :: "32 word"                     \<comment> \<open>\<^verbatim>\<open>GetVoiceStream(0)\<close>\<close>
  c_datagram :: datagram

datatype voice_event = Start_Speak nat | Stop_Speak nat | Drop_Client nat

record 's voice_sys =
  g_Players :: "'s revoice_player list"
  g_Clients :: "client list"
  g_speakPending :: "bool list"
  g_mute_map :: "nat \<Rightarrow> nat \<Rightarrow> bool"
  originalBuf :: "sample list"
  transCodedBuf :: "octet list"
  g_log :: "voice_event list"

text \<open>What a packet comes with: its bytes, the clock, the cvar, and what the libraries do with it.\<close>

record packet_env =
  e_data :: "octet list"
  e_voiceenable :: bool
  e_time :: rat                              \<comment> \<open>\<^verbatim>\<open>g_RehldsSv->GetTime()\<close>\<close>
  e_now :: int                               \<comment> \<open>the steady clock in milliseconds\<close>
  e_maxclients :: nat
  e_subscribers :: "nat \<Rightarrow> sample list \<Rightarrow> int \<Rightarrow> sample list \<times> int"
  e_resample :: "nat \<Rightarrow> nat \<Rightarrow> sample list \<Rightarrow> nat \<Rightarrow> sample list"
  e_bad_alloc :: "codec_id \<Rightarrow> bool"          \<comment> \<open>appending to this buffer throws\<close>

section \<open>Transcoding\<close>

text \<open>The static buffers have 32768 bytes; the resampler is told that it has room for 32768 samples.\<close>

definition voice_buffer_bytes :: nat where
  "voice_buffer_bytes = 32768"

definition append_out :: "codec_id \<Rightarrow> octet list \<Rightarrow> 's revoice_player \<Rightarrow> 's revoice_player" where
  "append_out i bs plr =
     (if i = Speex_Codec then plr\<lparr>m_speexBuff := m_speexBuff plr @ bs\<rparr>
      else plr\<lparr>m_steamBuff := m_steamBuff plr @ bs\<rparr>)"

text \<open>
  One target: \<open>Some b\<close> is what the function returns, or goes on with if \<open>b\<close>, \<open>None\<close> an exception.
\<close>

definition transcode_target ::
    "(codec_id \<Rightarrow> 's codec_class) \<Rightarrow> packet_env \<Rightarrow> codec_id \<Rightarrow> sample list \<Rightarrow> int \<Rightarrow> codec_id
     \<Rightarrow> 's revoice_player \<times> octet list \<Rightarrow> voice_error + bool option \<times> 's revoice_player \<times> octet list" where
  "transcode_target vt env src samples cnt i st =
     (case st of (plr, tbuf) \<Rightarrow>
       let from = v_SampleRate (vt src) (m_Codec plr src);
           to = v_SampleRate (vt i) (m_Codec plr i)
       in if cnt < 0 \<or> int (length samples) < cnt then Inl (Read_Outside (length samples))
          else
            let xs = take (nat cnt) samples;
                ys = (if to \<noteq> from then e_resample env from to xs voice_buffer_bytes else xs)
            in if to \<noteq> from \<and> voice_buffer_bytes < 2 * length ys then Inl (Write_Outside (int voice_buffer_bytes))
               else bind_r (v_Compress (vt i) ys tbuf 0 voice_buffer_bytes False (m_Codec plr i)) (\<lambda>(w, tbuf', s).
                 let plr1 = plr\<lparr>m_Codec := (m_Codec plr)(i := s)\<rparr>
                 in Inr (if w \<le> 0 then (Some False, plr1, tbuf')
                         else if e_bad_alloc env i then (None, plr1, tbuf')
                         else (Some True, append_out i (take (nat w) tbuf') plr1, tbuf'))))"

fun transcode_targets ::
    "(codec_id \<Rightarrow> 's codec_class) \<Rightarrow> packet_env \<Rightarrow> codec_id \<Rightarrow> sample list \<Rightarrow> int \<Rightarrow> codec_id list
     \<Rightarrow> 's revoice_player \<times> octet list \<Rightarrow> voice_error + bool option \<times> 's revoice_player \<times> octet list" where
  "transcode_targets vt env src samples cnt [] (plr, tbuf) = Inr (Some True, plr, tbuf)"
| "transcode_targets vt env src samples cnt (i # is) st =
     bind_r (transcode_target vt env src samples cnt i st) (\<lambda>(r, st').
       if r = Some True then transcode_targets vt env src samples cnt is st' else Inr (r, st'))"

definition transcode_voice ::
    "(codec_id \<Rightarrow> 's codec_class) \<Rightarrow> packet_env \<Rightarrow> codec_id \<Rightarrow> 's revoice_player \<Rightarrow> sample list \<Rightarrow> octet list
     \<Rightarrow> voice_error + bool option \<times> 's revoice_player \<times> sample list \<times> octet list" where
  "transcode_voice vt env src plr orig tbuf =
     bind_r (v_Decompress (vt src) (e_data env) 0 (length (e_data env)) voice_buffer_bytes (m_Codec plr src))
       (\<lambda>(n, out, s).
         let plr1 = plr\<lparr>m_Codec := (m_Codec plr)(src := s)\<rparr>;
             orig1 = out @ drop (length out) orig
         in if n = 0 then Inr (Some False, plr1\<lparr>m_iDecodeFails := m_iDecodeFails plr1 + 1\<rparr>, orig1, tbuf)
            else (case e_subscribers env (v_SampleRate (vt src) s) orig1 n of
                    (samples, cnt) \<Rightarrow>
                      bind_r (transcode_targets vt env src samples cnt [Opus_Codec, Speex_Codec] (plr1, tbuf))
                        (\<lambda>(r, plr2, tbuf'). Inr (r, plr2, samples, tbuf'))))"

section \<open>Relay\<close>

definition write_voice :: "nat \<Rightarrow> octet list \<Rightarrow> datagram \<Rightarrow> datagram" where
  "write_voice sender bs d = d\<lparr>cursize := cursize d + length bs + 4, d_voice := d_voice d @ [(sender, bs)]\<rparr>"

text \<open>Key 255, \<^verbatim>\<open>g_mute_map[i][-1]\<close>, mutes everybody.\<close>

definition relay_client ::
    "(nat \<Rightarrow> nat \<Rightarrow> bool) \<Rightarrow> nat \<Rightarrow> 32 word \<Rightarrow> octet list \<Rightarrow> octet list \<Rightarrow> nat \<Rightarrow> codec_type \<Rightarrow> client \<Rightarrow> client" where
  "relay_client mute src stream steam speex i ct c =
     (if \<not> bit stream i then c
      else if \<not> c_active c \<or> \<not> c_connected c then c
      else if mute i src \<or> mute i 255 then c
      else
        let buf = (case ct of vct_silk \<Rightarrow> steam | vct_opus \<Rightarrow> steam | vct_speex \<Rightarrow> speex | vct_none \<Rightarrow> [])
        in if buf = [] then c
           else if i = src \<and> \<not> c_loopback c then c
           else if cursize (c_datagram c) + length buf + 4 < maxsize (c_datagram c)
                then c\<lparr>c_datagram := write_voice src buf (c_datagram c)\<rparr>
                else c)"

definition relay :: "nat \<Rightarrow> nat \<Rightarrow> 's voice_sys \<Rightarrow> 's voice_sys" where
  "relay maxclients src sys =
     (let plr = g_Players sys ! src; stream = c_stream (g_Clients sys ! src)
      in sys\<lparr>g_Clients := map (\<lambda>i. if i < maxclients
            then relay_client (g_mute_map sys) src stream (m_steamBuff plr) (m_speexBuff plr) i
                   (m_CodecType (g_Players sys ! i)) (g_Clients sys ! i)
            else g_Clients sys ! i) [0..<length (g_Clients sys)]\<rparr>)"

section \<open>A voice packet\<close>

definition drop_client :: "nat \<Rightarrow> 's voice_sys \<Rightarrow> 's voice_sys" where
  "drop_client i sys = sys\<lparr>g_speakPending := (g_speakPending sys)[i := False],
     g_Players := (g_Players sys)[i := on_disconnected (g_Players sys ! i)], g_log := g_log sys @ [Drop_Client i]\<rparr>"

text \<open>A failure that is the last of a series puts the player back to the codec that all clients know.\<close>

definition after_failure :: "'s revoice_player \<Rightarrow> 's revoice_player" where
  "after_failure plr =
     (if decode_fail_limit \<le> m_iDecodeFails plr then plr\<lparr>m_CodecType := vct_speex, m_iDecodeFails := 0\<rparr> else plr)"

definition source_codec :: "codec_type \<Rightarrow> codec_id option" where
  "source_codec ct =
     (case ct of vct_silk \<Rightarrow> Some Silk_Codec | vct_opus \<Rightarrow> Some Opus_Codec | vct_speex \<Rightarrow> Some Speex_Codec
      | vct_none \<Rightarrow> None)"

definition note_voice :: "packet_env \<Rightarrow> 's revoice_player \<Rightarrow> 's revoice_player" where
  "note_voice env plr =
     increase_voice_rate (length (e_data env)) (set_last_voice_time (e_time env) (speak (e_now env) plr))"

text \<open>The outcome of the transcoding, for a packet that reached it.\<close>

definition finish_packet ::
    "packet_env \<Rightarrow> nat \<Rightarrow> bool option \<times> 's revoice_player \<times> sample list \<times> octet list \<Rightarrow> 's voice_sys \<Rightarrow> 's voice_sys" where
  "finish_packet env i res sys =
     (case res of (r, plr, orig, tbuf) \<Rightarrow>
       let sys1 = sys\<lparr>originalBuf := orig, transCodedBuf := tbuf\<rparr>;
           put = (\<lambda>p. sys1\<lparr>g_Players := (g_Players sys1)[i := p]\<rparr>)
       in (case r of
             None \<Rightarrow> put (plr\<lparr>m_steamBuff := [], m_speexBuff := []\<rparr>)
           | Some False \<Rightarrow> put (after_failure plr)
           | Some True \<Rightarrow>
               if m_IsMuted_Old plr then put (plr\<lparr>m_iDecodeFails := 0\<rparr>)
               else relay (e_maxclients env) i (put (plr\<lparr>m_iDecodeFails := 0\<rparr>))))"

definition parse_voice ::
    "(codec_id \<Rightarrow> 's codec_class) \<Rightarrow> packet_env \<Rightarrow> nat \<Rightarrow> 's voice_sys \<Rightarrow> voice_error + 's voice_sys" where
  "parse_voice vt env i sys =
     (let plr = g_Players sys ! i in
      if m_VoiceBusy plr then Inr sys
      else
        let plr0 = plr\<lparr>m_steamBuff := [], m_speexBuff := []\<rparr>;
            sys0 = sys\<lparr>g_Players := (g_Players sys)[i := plr0]\<rparr>
        in if 8192 < length (e_data env) then Inr (drop_client i sys0)
           else if \<not> e_voiceenable env then Inr sys0
           else if m_IsBlocked plr0 then Inr sys0
           else
             let plr1 = note_voice env plr0;
                 sys1 = sys0\<lparr>g_Players := (g_Players sys0)[i := plr1],
                             g_speakPending := (if \<not> m_IsSpeaking plr0 then (g_speakPending sys0)[i := True]
                                                else g_speakPending sys0)\<rparr>
             in case source_codec (m_CodecType plr1) of
                  None \<Rightarrow> Inr sys1
                | Some src \<Rightarrow>
                    bind_r (transcode_voice vt env src plr1 (originalBuf sys1) (transCodedBuf sys1))
                      (\<lambda>res. Inr (finish_packet env i res sys1)))"

section \<open>Speaking events\<close>

definition frame_client :: "int \<Rightarrow> nat \<Rightarrow> 's voice_sys \<Rightarrow> 's voice_sys" where
  "frame_client now i sys =
     (let started = g_speakPending sys ! i;
          sys1 = sys\<lparr>g_speakPending := (g_speakPending sys)[i := False]\<rparr>;
          plr = g_Players sys ! i; c = g_Clients sys ! i
      in if \<not> c_active c \<or> \<not> c_connected c then sys1
         else
           let sys2 = (if started then sys1\<lparr>g_log := g_log sys1 @ [Start_Speak (i + 1)]\<rparr> else sys1)
           in if \<not> check_speaking now plr \<and> m_IsSpeaking plr
              then sys2\<lparr>g_Players := (g_Players sys2)[i := speak_done plr], g_log := g_log sys2 @ [Stop_Speak (i + 1)]\<rparr>
              else sys2)"

definition frame_speaking :: "int \<Rightarrow> nat \<Rightarrow> 's voice_sys \<Rightarrow> 's voice_sys" where
  "frame_speaking now maxclients sys = fold (frame_client now) [0..<maxclients] sys"

end
