(* ===== verification/Voice_Wave.thy ===== *)
theory Voice_Wave
  imports Voice_Parse "HOL-Library.AList"
begin

text \<open>
  Sounds played to clients: \<^verbatim>\<open>audio_wave\<close> (\<^verbatim>\<open>revoice_api.h\<close>), the operations of \<^verbatim>\<open>RevoiceAPI\<close>
  (\<^verbatim>\<open>revoice_api.cpp\<close>, \<^verbatim>\<open>api.h\<close>), and the part of \<^verbatim>\<open>StartFrame_PostHook\<close> (\<^verbatim>\<open>revoice_main.cpp\<close>) that
  sends, mixes and trims them.  An unordered map is an association list in the order in which the
  code would iterate over it; the theorems hold for every order.
\<close>

section \<open>Waves\<close>

record audio_wave =
  w_channels :: nat
  w_rate :: nat
  w_data :: "sample list"

definition wave_length :: "audio_wave \<Rightarrow> rat" where
  "wave_length w = of_nat (length (w_data w)) / of_nat (w_rate w) / of_nat (w_channels w)"

definition num_frames :: "audio_wave \<Rightarrow> nat" where
  "num_frames w = length (w_data w)"

text \<open>From a position behind the end the number of samples wraps around.\<close>

definition get_samples :: "audio_wave \<Rightarrow> nat \<Rightarrow> nat \<Rightarrow> voice_error + sample list" where
  "get_samples w pos len =
     (let n = len * w_channels w
      in if pos + n > length (w_data w)
         then (if pos > length (w_data w) then Inl (Read_Outside pos) else Inr (drop pos (w_data w)))
         else Inr (take n (drop pos (w_data w))))"

definition push_frames :: "sample list \<Rightarrow> audio_wave \<Rightarrow> audio_wave" where
  "push_frames xs w = w\<lparr>w_data := w_data w @ xs\<rparr>"

definition clear_frames :: "nat \<Rightarrow> audio_wave \<Rightarrow> voice_error + audio_wave" where
  "clear_frames n w =
     (if n \<le> length (w_data w) then Inr (w\<lparr>w_data := drop n (w_data w)\<rparr>) else Inl (Read_Outside n))"

section \<open>Sounds and their receivers\<close>

datatype play_state = PLAY_STOP | PLAY_PAUSE | PLAY_PLAY | PLAY_DONE
datatype seek_param = seekHead | seekCurr | seekTail

record 's receiver =
  rc_Codec :: "codec_id \<Rightarrow> 's"       \<comment> \<open>\<^verbatim>\<open>SteamCodec\<close> (Opus) and \<^verbatim>\<open>FrameCodec\<close> (Speex)\<close>
  rc_state :: play_state
  rc_nextSend :: int                 \<comment> \<open>in microseconds\<close>
  rc_pos :: nat

record 's audio_play =
  ap_sender :: nat
  ap_receivers :: "(nat \<times> 's receiver) list"
  ap_auto_clear :: bool
  ap_check_clear :: bool
  ap_wave8k :: audio_wave
  ap_wave16k :: audio_wave

record 's sounds =
  g_numAudioWaves :: nat
  g_audio_waves :: "(nat \<times> 's audio_play) list"

definition seek :: "nat \<Rightarrow> nat \<Rightarrow> seek_param \<Rightarrow> 's receiver \<Rightarrow> 's receiver" where
  "seek pos frames how r =
     (case how of
        seekHead \<Rightarrow> r\<lparr>rc_pos := pos\<rparr>
      | seekCurr \<Rightarrow> r\<lparr>rc_pos := rc_pos r + pos\<rparr>
      | seekTail \<Rightarrow> if pos > 0 then r\<lparr>rc_pos := frames\<rparr> else r)"

definition SoundAdd :: "audio_wave \<Rightarrow> audio_wave \<Rightarrow> 's sounds \<Rightarrow> nat \<times> 's sounds" where
  "SoundAdd w8 w16 g =
     (g_numAudioWaves g,
      g\<lparr>g_audio_waves := AList.update (g_numAudioWaves g)
           \<lparr>ap_sender = 0, ap_receivers = [], ap_auto_clear = False, ap_check_clear = True, ap_wave8k = w8, ap_wave16k = w16\<rparr>
           (g_audio_waves g),
        g_numAudioWaves := g_numAudioWaves g + 1\<rparr>)"

definition SoundDelete :: "nat \<Rightarrow> 's sounds \<Rightarrow> 's sounds" where
  "SoundDelete k g = g\<lparr>g_audio_waves := AList.delete k (g_audio_waves g)\<rparr>"

definition change_sound :: "nat \<Rightarrow> ('s audio_play \<Rightarrow> 's audio_play) \<Rightarrow> 's sounds \<Rightarrow> 's sounds" where
  "change_sound k f g =
     (case map_of (g_audio_waves g) k of
        None \<Rightarrow> g
      | Some a \<Rightarrow> g\<lparr>g_audio_waves := AList.update k (f a) (g_audio_waves g)\<rparr>)"

definition SoundPush :: "nat \<Rightarrow> sample list \<Rightarrow> sample list \<Rightarrow> 's sounds \<Rightarrow> 's sounds" where
  "SoundPush k xs8 xs16 = change_sound k (\<lambda>a. a\<lparr>ap_wave8k := push_frames xs8 (ap_wave8k a),
     ap_wave16k := push_frames xs16 (ap_wave16k a)\<rparr>)"

definition SoundAutoClear :: "nat \<Rightarrow> 's sounds \<Rightarrow> 's sounds" where
  "SoundAutoClear k = change_sound k (\<lambda>a. a\<lparr>ap_auto_clear := True\<rparr>)"

text \<open>
  The receivers are counted from one, and the keys of the map are bytes.  A receiver that is not there
  yet gets its codecs, the ones of \<open>fresh\<close>; their bit rate is the cvar's when the boolean is true.
\<close>

definition receiver_key :: "nat \<Rightarrow> nat" where
  "receiver_key rcv = (rcv + 255) mod 256"

definition play_to :: "(nat \<Rightarrow> codec_id \<Rightarrow> 's) \<Rightarrow> int \<Rightarrow> nat \<Rightarrow> 's audio_play \<Rightarrow> 's audio_play" where
  "play_to fresh now i a =
     (let r = (case map_of (ap_receivers a) i of
                 Some r \<Rightarrow> r
               | None \<Rightarrow> \<lparr>rc_Codec = fresh i, rc_state = PLAY_STOP, rc_nextSend = 0, rc_pos = 0\<rparr>)
      in a\<lparr>ap_receivers := AList.update i (r\<lparr>rc_nextSend := now, rc_state := PLAY_PLAY\<rparr>) (ap_receivers a)\<rparr>)"

definition SoundPlay ::
    "(bool \<Rightarrow> nat \<Rightarrow> codec_id \<Rightarrow> 's) \<Rightarrow> int \<Rightarrow> (nat \<Rightarrow> bool) \<Rightarrow> nat \<Rightarrow> nat \<Rightarrow> nat \<Rightarrow> nat \<Rightarrow> 's sounds \<Rightarrow> 's sounds" where
  "SoundPlay fresh now active maxclients sender rcv k =
     change_sound k (\<lambda>a.
       let a1 = a\<lparr>ap_sender := (if sender = 0 then 32 else (sender - 1) mod 256)\<rparr>
       in if rcv \<noteq> 0 then play_to (fresh False) now (receiver_key rcv) a1
          else fold (\<lambda>i a. if active i then play_to (fresh True) now i a
                            else a\<lparr>ap_receivers := AList.delete i (ap_receivers a)\<rparr>) [0..<maxclients] a1)"

definition change_receiver :: "nat \<Rightarrow> ('s receiver \<Rightarrow> 's receiver) \<Rightarrow> 's audio_play \<Rightarrow> 's audio_play" where
  "change_receiver i f a =
     (case map_of (ap_receivers a) i of
        None \<Rightarrow> a
      | Some r \<Rightarrow> a\<lparr>ap_receivers := AList.update i (f r) (ap_receivers a)\<rparr>)"

definition SoundPause :: "nat \<Rightarrow> nat \<Rightarrow> 's sounds \<Rightarrow> 's sounds" where
  "SoundPause rcv k = change_sound k (change_receiver (receiver_key rcv) (\<lambda>r. r\<lparr>rc_state := PLAY_PAUSE\<rparr>))"

definition SoundStop :: "nat \<Rightarrow> nat \<Rightarrow> 's sounds \<Rightarrow> 's sounds" where
  "SoundStop rcv k = change_sound k (change_receiver (receiver_key rcv) (\<lambda>r. r\<lparr>rc_state := PLAY_STOP, rc_pos := 0\<rparr>))"

definition the_wave :: "codec_type \<Rightarrow> 's audio_play \<Rightarrow> audio_wave" where
  "the_wave ct a = (if ct = vct_speex then ap_wave8k a else ap_wave16k a)"

text \<open>
  The position is a fraction of the wave, rounded down, with the arithmetic of the floats exact.  A
  negative time and a wave without samples give a number that the conversion leaves undefined; here 0.
\<close>

definition seek_pos :: "audio_wave \<Rightarrow> rat \<Rightarrow> nat" where
  "seek_pos w s = nat \<lfloor>of_nat (num_frames w) * min s (wave_length w) / wave_length w\<rfloor>"

definition SoundSeek :: "codec_type \<Rightarrow> nat \<Rightarrow> nat \<Rightarrow> rat \<Rightarrow> seek_param \<Rightarrow> 's sounds \<Rightarrow> 's sounds" where
  "SoundSeek ct rcv k s how = change_sound k (\<lambda>a.
     let w = the_wave ct a in change_receiver (receiver_key rcv) (seek (seek_pos w s) (num_frames w) how) a)"

text \<open>The quotient of two integers is taken before it becomes a float; the divisor may be zero.\<close>

definition SoundTell :: "codec_type \<Rightarrow> bool \<Rightarrow> nat \<Rightarrow> nat \<Rightarrow> 's sounds \<Rightarrow> voice_error + rat" where
  "SoundTell ct active rcv k g =
     (case map_of (g_audio_waves g) k of
        None \<Rightarrow> Inr (- 1)
      | Some a \<Rightarrow>
          (case map_of (ap_receivers a) (receiver_key rcv) of
             None \<Rightarrow> Inr (- 1)
           | Some r \<Rightarrow>
               if \<not> active then Inr (- 1)
               else let w = the_wave ct a
                    in if num_frames w = 0 then Inl Zero_Frame
                       else Inr (of_nat (min (rc_pos r) (num_frames w) div num_frames w) * wave_length w)))"

definition SoundLength :: "nat \<Rightarrow> 's sounds \<Rightarrow> rat" where
  "SoundLength k g = (case map_of (g_audio_waves g) k of Some a \<Rightarrow> wave_length (ap_wave16k a) | None \<Rightarrow> - 1)"

section \<open>Mixing\<close>

definition mix_sample :: "sample \<Rightarrow> sample \<Rightarrow> sample" where
  "mix_sample a b =
     (let r = sint a + sint b
      in if 32767 < r then 32767 else if r < - 32768 then word_of_int (- 32768) else word_of_int r)"

fun mix_into :: "sample list \<Rightarrow> sample list \<Rightarrow> sample list" where
  "mix_into [] ys = ys"
| "mix_into xs [] = xs"
| "mix_into (x # xs) (y # ys) = mix_sample x y # mix_into xs ys"

section \<open>Sending\<close>

definition encode_voice ::
    "'s codec_class \<Rightarrow> (nat \<Rightarrow> sample list \<Rightarrow> sample list) \<Rightarrow> sample list \<Rightarrow> octet list \<Rightarrow> 's
     \<Rightarrow> voice_error + octet list \<times> 's" where
  "encode_voice v subscribers xs buf s =
     bind_r (v_Compress v (subscribers (v_SampleRate v s) xs) buf 0 4096 False s) (\<lambda>(n, m, s').
       Inr (if n \<le> 0 then [] else take (nat n) m, s'))"

text \<open>A sound that goes to the client in this frame: what it adds, and its receiver afterwards.\<close>

definition take_part ::
    "codec_type \<Rightarrow> nat \<Rightarrow> int \<Rightarrow> (nat \<Rightarrow> nat \<Rightarrow> int) \<Rightarrow> 's audio_play \<Rightarrow> voice_error + sample list \<times> 's audio_play" where
  "take_part ct i now offset a =
     (let w = the_wave ct a
      in case map_of (ap_receivers a) i of
           None \<Rightarrow> Inr ([], a)
         | Some r \<Rightarrow>
             bind_r (get_samples w (rc_pos r) (w_rate w div 10)) (\<lambda>xs.
               Inr (xs, a\<lparr>ap_check_clear := True,
                          ap_receivers := AList.update i (r\<lparr>rc_nextSend := now + offset (length xs) (w_rate w),
                                                            rc_pos := rc_pos r + length xs\<rparr>) (ap_receivers a)\<rparr>)))"

definition offset_us :: "nat \<Rightarrow> nat \<Rightarrow> int" where
  "offset_us n rate = int (n * 1000000 div rate)"

definition offset_ms :: "nat \<Rightarrow> nat \<Rightarrow> int" where
  "offset_ms n rate = int (n * 1000 div rate) * 1000"

fun mix_parts ::
    "codec_type \<Rightarrow> nat \<Rightarrow> int \<Rightarrow> nat list \<Rightarrow> sample list \<Rightarrow> 's sounds \<Rightarrow> voice_error + sample list \<times> 's sounds" where
  "mix_parts ct i now [] mix g = Inr (mix, g)"
| "mix_parts ct i now (k # ks) mix g =
     (case map_of (g_audio_waves g) k of
        None \<Rightarrow> mix_parts ct i now ks mix g
      | Some a \<Rightarrow>
          bind_r (take_part ct i now offset_ms a) (\<lambda>(xs, a').
            mix_parts ct i now ks (mix_into mix xs) (g\<lparr>g_audio_waves := AList.update k a' (g_audio_waves g)\<rparr>)))"

text \<open>The other sounds of the same sender that are played to the client, whatever their state.\<close>

definition need_mix :: "nat \<Rightarrow> nat \<Rightarrow> 's audio_play \<Rightarrow> 's sounds \<Rightarrow> nat list" where
  "need_mix i k a g =
     k # map fst (filter (\<lambda>(k2, a2). k2 \<noteq> k \<and> ap_sender a2 = ap_sender a \<and> map_of (ap_receivers a2) i \<noteq> None)
                   (g_audio_waves g))"

definition update_codec :: "nat \<Rightarrow> nat \<Rightarrow> codec_id \<Rightarrow> 's \<Rightarrow> 's sounds \<Rightarrow> 's sounds" where
  "update_codec i k c s = change_sound k (change_receiver i (\<lambda>r. r\<lparr>rc_Codec := (rc_Codec r)(c := s)\<rparr>))"

text \<open>
  One sound, mixed with the others of its sender or alone.  \<open>mix\<close> is the vector of the client, which
  nothing empties between the sounds.
\<close>

definition send_sound ::
    "(codec_id \<Rightarrow> 's codec_class) \<Rightarrow> (nat \<Rightarrow> sample list \<Rightarrow> sample list) \<Rightarrow> octet list \<Rightarrow> codec_type \<Rightarrow> nat \<Rightarrow> int
     \<Rightarrow> nat \<Rightarrow> 's audio_play \<Rightarrow> 's receiver \<Rightarrow> sample list \<Rightarrow> 's sounds
     \<Rightarrow> voice_error + octet list \<times> sample list \<times> 's sounds" where
  "send_sound vt subs buf ct i now k a r mix g =
     (let mixed = need_mix i k a g in
      if length mixed > 1 then
        bind_r (mix_parts ct i now mixed mix g) (\<lambda>(mix', g').
          if voice_buffer_bytes < 2 * length mix' then Inl (Write_Outside (int voice_buffer_bytes)) else
          bind_r (encode_voice (vt Opus_Codec) subs mix' buf (rc_Codec r Opus_Codec)) (\<lambda>(bs, s).
            Inr (bs, mix', update_codec i k Opus_Codec s g')))
      else
        bind_r (take_part ct i now offset_us a) (\<lambda>(xs, a').
          let c = (if ct = vct_speex then Speex_Codec else Opus_Codec)
          in if voice_buffer_bytes < 2 * length xs then Inl (Write_Outside (int voice_buffer_bytes)) else
             bind_r (encode_voice (vt c) subs xs buf (rc_Codec r c)) (\<lambda>(bs, s).
               Inr (bs, mix, update_codec i k c s (g\<lparr>g_audio_waves := AList.update k a' (g_audio_waves g)\<rparr>)))))"

definition send_datagram :: "nat \<Rightarrow> octet list \<Rightarrow> datagram \<Rightarrow> datagram" where
  "send_datagram sender bs d =
     (if bs = [] then d
      else if cursize d + length bs + 4 < maxsize d then write_voice sender bs d else d)"

text \<open>
  One round of the loop over the sounds for one client, at the position \<open>n\<close> of the iterator: the next
  position, the numbers in \<^verbatim>\<open>handled_sounds\<close>, the mix, the sounds and the datagram.  When a sound has been
  played to its end the subscribers are told, who may change the sounds, and the iterator goes back to
  the first sound, from which the loop steps on; with no sound left that step leaves the container.
  After mixing, it is the client's index that is put into \<^verbatim>\<open>handled_sounds\<close>.
\<close>

type_synonym 's sound_loop = "nat \<times> nat list \<times> sample list \<times> 's sounds \<times> datagram"

definition sound_round ::
    "(codec_id \<Rightarrow> 's codec_class) \<Rightarrow> (nat \<Rightarrow> nat \<Rightarrow> sample list \<Rightarrow> sample list) \<Rightarrow> (nat \<Rightarrow> nat \<Rightarrow> 's sounds \<Rightarrow> 's sounds)
     \<Rightarrow> (nat \<Rightarrow> nat \<Rightarrow> bool) \<Rightarrow> octet list \<Rightarrow> codec_type \<Rightarrow> nat \<Rightarrow> int \<Rightarrow> 's sound_loop \<Rightarrow> voice_error + 's sound_loop" where
  "sound_round vt subs finished mute buf ct i now st =
     (case st of (n, handled, mix, g, d) \<Rightarrow>
      case g_audio_waves g ! n of (k, a) \<Rightarrow>
        if k \<in> set handled \<or> mute i (ap_sender a) \<or> mute i 255 then Inr (n + 1, handled, mix, g, d)
        else case map_of (ap_receivers a) i of
          None \<Rightarrow> Inr (n + 1, handled, mix, g, d)
        | Some r \<Rightarrow>
            if rc_state r \<noteq> PLAY_PLAY then Inr (n + 1, handled, mix, g, d)
            else if num_frames (the_wave ct a) \<le> rc_pos r then
              (if ap_auto_clear a then Inr (n + 1, k # handled, mix, g, d)
               else Inr (1, k # handled, mix, finished (i + 1) k g, d))
            else if rc_nextSend r \<le> now then
              bind_r (send_sound vt (subs (ap_sender a)) buf ct i now k a r mix g) (\<lambda>(bs, mix', g').
                Inr (n + 1, (if length (need_mix i k a g) > 1 then i else k) # handled, mix', g',
                     send_datagram (ap_sender a) bs d))
            else Inr (n + 1, handled, mix, g, d))"

definition sounds_left :: "'s sound_loop \<Rightarrow> int" where
  "sounds_left st = (case st of (n, handled, mix, g, d) \<Rightarrow> int (length (g_audio_waves g)) - int n)"

partial_function (option) sound_loop ::
    "('s sound_loop \<Rightarrow> voice_error + 's sound_loop) \<Rightarrow> 's sound_loop \<Rightarrow> (voice_error + 's sound_loop) option" where
  "sound_loop body st =
     (if sounds_left st = 0 then Some (Inr st)
      else if sounds_left st < 0 then Some (Inl (Read_Outside (fst st)))
      else case body st of Inl e \<Rightarrow> Some (Inl e) | Inr st' \<Rightarrow> sound_loop body st')"

definition frame_sounds ::
    "(codec_id \<Rightarrow> 's codec_class) \<Rightarrow> (nat \<Rightarrow> nat \<Rightarrow> sample list \<Rightarrow> sample list) \<Rightarrow> (nat \<Rightarrow> nat \<Rightarrow> 's sounds \<Rightarrow> 's sounds)
     \<Rightarrow> (nat \<Rightarrow> nat \<Rightarrow> bool) \<Rightarrow> octet list \<Rightarrow> codec_type \<Rightarrow> nat \<Rightarrow> int \<Rightarrow> 's sounds \<Rightarrow> datagram
     \<Rightarrow> (voice_error + 's sound_loop) option" where
  "frame_sounds vt subs finished mute buf ct i now g d =
     sound_loop (sound_round vt subs finished mute buf ct i now) (0, [], [], g, d)"

declare sound_loop.simps [code]

section \<open>Trimming\<close>

text \<open>One wave: the samples that every receiver has heard are dropped and the positions moved.\<close>

definition trim_wave ::
    "(nat \<Rightarrow> bool) \<Rightarrow> audio_wave \<Rightarrow> (nat \<times> 's receiver) list \<Rightarrow> voice_error + audio_wave \<times> (nat \<times> 's receiver) list" where
  "trim_wave mine w rs =
     (let m = fold (\<lambda>(i, r) m. if mine i then min (rc_pos r) m else m) rs (num_frames w)
      in bind_r (clear_frames m w) (\<lambda>w'.
           Inr (w', map (\<lambda>(i, r). (i, if mine i then r\<lparr>rc_pos := rc_pos r - m\<rparr> else r)) rs)))"

definition trim_sound ::
    "(nat \<Rightarrow> codec_type) \<Rightarrow> (nat \<Rightarrow> bool) \<Rightarrow> 's audio_play \<Rightarrow> voice_error + 's audio_play" where
  "trim_sound ct active a =
     (if \<not> ap_auto_clear a \<or> \<not> ap_check_clear a then Inr a
      else
        let rs = filter (\<lambda>(i, r). active i) (ap_receivers a)
        in bind_r (trim_wave (\<lambda>i. ct i = vct_speex) (ap_wave8k a) rs) (\<lambda>(w8, rs1).
           bind_r (trim_wave (\<lambda>i. ct i \<noteq> vct_speex) (ap_wave16k a) rs1) (\<lambda>(w16, rs2).
             Inr (a\<lparr>ap_check_clear := False, ap_receivers := rs2, ap_wave8k := w8, ap_wave16k := w16\<rparr>))))"

fun trim_all ::
    "(nat \<Rightarrow> codec_type) \<Rightarrow> (nat \<Rightarrow> bool) \<Rightarrow> (nat \<times> 's audio_play) list \<Rightarrow> voice_error + (nat \<times> 's audio_play) list" where
  "trim_all ct active [] = Inr []"
| "trim_all ct active ((k, a) # sounds) =
     bind_r (trim_sound ct active a) (\<lambda>a'. bind_r (trim_all ct active sounds) (\<lambda>sounds'. Inr ((k, a') # sounds')))"

section \<open>Events\<close>

definition max_callback_count :: nat where
  "max_callback_count = 64"

definition event_add :: "'c \<Rightarrow> 'c list \<Rightarrow> 'c list" where
  "event_add c cs = (if length cs = max_callback_count then cs else cs @ [c])"

fun event_remove :: "'c \<Rightarrow> 'c list \<Rightarrow> 'c list" where
  "event_remove c [] = []"
| "event_remove c (x # xs) = (if x = c then xs else x # event_remove c xs)"

definition event_call :: "('c \<Rightarrow> 'e \<Rightarrow> 'e) \<Rightarrow> 'c list \<Rightarrow> 'e \<Rightarrow> 'e" where
  "event_call run cs e = fold run cs e"

end
