(* ===== verification/Voice_Api.thy ===== *)
theory Voice_Api
  imports Voice_Wave
begin

text \<open>
  The rest of the voice plugin's interface to other plugins (\<^verbatim>\<open>revoice_api.cpp\<close>): the players that are
  muted for each other, muted altogether or blocked; the start and the end of a map; the announcement
  of the codec (\<^verbatim>\<open>revoice_main.cpp\<close>); and the command that runs the configuration (\<^verbatim>\<open>revoice_cfg.cpp\<close>,
  \<^verbatim>\<open>revoice_utils.cpp\<close>).
\<close>

section \<open>Players by number\<close>

text \<open>\<open>None\<close> is the call of \<^verbatim>\<open>util_syserror\<close>, which ends the server.\<close>

definition get_player_by_index :: "nat \<Rightarrow> nat \<Rightarrow> nat option" where
  "get_player_by_index maxclients n = (if n < 1 \<or> maxclients < n then None else Some (n - 1))"

section \<open>Muting\<close>

text \<open>
  \<^verbatim>\<open>g_mute_map\<close>: for a listener, the senders that are muted for it; \<open>muted\<close> is \<^verbatim>\<open>g_mute_map[i][j]\<close>, whose
  value is false where there is none.  All numbers are kept as bytes, and receiver 0 is key 255.
\<close>

type_synonym mute_map = "nat \<rightharpoonup> (nat \<rightharpoonup> bool)"

definition muted :: "mute_map \<Rightarrow> nat \<Rightarrow> nat \<Rightarrow> bool" where
  "muted m i j = (case m i of None \<Rightarrow> False | Some r \<Rightarrow> r j = Some True)"

definition mute_row :: "mute_map \<Rightarrow> nat \<Rightarrow> nat \<rightharpoonup> bool" where
  "mute_row m i = (case m i of None \<Rightarrow> Map.empty | Some r \<Rightarrow> r)"

definition put_mute :: "bool \<Rightarrow> nat \<Rightarrow> nat \<Rightarrow> nat \<Rightarrow> mute_map \<Rightarrow> mute_map option" where
  "put_mute v maxclients c r m =
     (case get_player_by_index maxclients c of
        None \<Rightarrow> None
      | Some i \<Rightarrow> Some (m(receiver_key c \<mapsto> (mute_row m (receiver_key c))(receiver_key r \<mapsto> v))))"

definition MuteClient :: "nat \<Rightarrow> nat \<Rightarrow> nat \<Rightarrow> mute_map \<Rightarrow> mute_map option" where
  "MuteClient = put_mute True"

definition UnmuteClient :: "nat \<Rightarrow> nat \<Rightarrow> nat \<Rightarrow> mute_map \<Rightarrow> mute_map option" where
  "UnmuteClient = put_mute False"

text \<open>
  The iterator into one row is compared with the end of another row, which the subscript creates.
  The ends of all rows are the same null iterator in the library the plugin is built with.
\<close>

definition IsClientMuted :: "nat \<Rightarrow> nat \<Rightarrow> nat \<Rightarrow> mute_map \<Rightarrow> (bool \<times> mute_map) option" where
  "IsClientMuted maxclients c r m =
     (case get_player_by_index maxclients c of
        None \<Rightarrow> None
      | Some i \<Rightarrow>
          if m (receiver_key c) = None then Some (False, m)
          else let m' = m(receiver_key r \<mapsto> mute_row m (receiver_key r))
               in case mute_row m' (receiver_key c) (receiver_key r) of
                    None \<Rightarrow> Some (False, m')
                  | Some v \<Rightarrow> Some (v, m'))"

text \<open>The other interface mutes and blocks a player for everybody.\<close>

definition player_mute :: "'s revoice_player \<Rightarrow> 's revoice_player" where "player_mute p = p\<lparr>m_IsMuted_Old := True\<rparr>"
definition player_unmute :: "'s revoice_player \<Rightarrow> 's revoice_player" where "player_unmute p = p\<lparr>m_IsMuted_Old := False\<rparr>"
definition player_block :: "'s revoice_player \<Rightarrow> 's revoice_player" where "player_block p = p\<lparr>m_IsBlocked := True\<rparr>"
definition player_unblock :: "'s revoice_player \<Rightarrow> 's revoice_player" where "player_unblock p = p\<lparr>m_IsBlocked := False\<rparr>"

definition on_player ::
    "nat \<Rightarrow> nat \<Rightarrow> ('s revoice_player \<Rightarrow> 's revoice_player) \<Rightarrow> 's revoice_player list \<Rightarrow> 's revoice_player list option" where
  "on_player maxclients n f plrs =
     (case get_player_by_index maxclients n of None \<Rightarrow> None | Some i \<Rightarrow> Some (plrs[i := f (plrs ! i)]))"

section \<open>The map\<close>

definition server_deactivate :: "mute_map \<Rightarrow> 's sounds \<Rightarrow> mute_map \<times> 's sounds" where
  "server_deactivate m g = (Map.empty, g\<lparr>g_audio_waves := []\<rparr>)"

definition server_commands :: "string list" where
  "server_commands = [''VTC_CheckStart'', ''vgui_runscript'', ''VTC_CheckEnd'']"

text \<open>The codec and the quality that a client is told; \<open>None\<close> is the entry in the log.\<close>

definition write_voice_codec :: "codec_type \<Rightarrow> (string \<times> nat) option" where
  "write_voice_codec ct =
     (case ct of vct_none \<Rightarrow> None | vct_silk \<Rightarrow> Some (''voice_speex'', 5) | vct_opus \<Rightarrow> Some (''voice_speex'', 5)
      | vct_speex \<Rightarrow> Some (''voice_speex'', 5))"

section \<open>The configuration\<close>

definition normalize_char :: "char \<Rightarrow> char" where
  "normalize_char c = (let d = lower_ascii c in if d = CHR 0x5C then CHR ''/'' else d)"

definition normalize_path :: "string \<Rightarrow> string" where
  "normalize_path = map normalize_char"

text \<open>The path up to its last slash, of \<^verbatim>\<open>MAX_PATH\<close> characters at most, and the command of as many.\<close>

definition max_path :: nat where
  "max_path = 260"

definition keep_dir :: "string \<Rightarrow> string" where
  "keep_dir path = (case after_last (CHR ''/'') path of
     None \<Rightarrow> path | Some name \<Rightarrow> take (length path - length name) path)"

definition exec_config_cmd :: "string \<Rightarrow> string \<Rightarrow> string" where
  "exec_config_cmd gamedir plugin =
     (let rel = take (max_path - 1) (drop (length gamedir + 1) plugin)
      in take (max_path - 1) (''exec '' @ [CHR 0x22] @ keep_dir (normalize_path rel) @ ''revoice.cfg'' @ [CHR 0x22, CHR 0x0A]))"

definition command_matches :: "string \<Rightarrow> string list" where
  "command_matches cmd = filter (same_nocase cmd) [''version'', ''status'']"

section \<open>Properties\<close>

lemma muted_row: "muted m i j = (mute_row m i j = Some True)"
  by (simp add: muted_def mute_row_def split: option.split)

lemma mute_row_update: "mute_row (m(k \<mapsto> r)) i = (if i = k then r else mute_row m i)"
  by (simp add: mute_row_def)

lemma muted_put:
  assumes "put_mute v maxclients c r m = Some m'"
  shows "muted m' i j = (if i = receiver_key c \<and> j = receiver_key r then v else muted m i j)"
proof -
  have "m' = m(receiver_key c \<mapsto> (mute_row m (receiver_key c))(receiver_key r \<mapsto> v))"
    using assms by (simp add: put_mute_def split: option.splits)
  then show ?thesis
    by (simp add: muted_row mute_row_update)
qed

text \<open>Asking whether a client is muted adds an empty row at most, which mutes nobody.\<close>

lemma is_client_muted_value:
  assumes "IsClientMuted maxclients c r m = Some (b, m')"
  shows "b = muted m (receiver_key c) (receiver_key r)" "muted m' i j = muted m i j"
proof -
  have row: "mute_row (m(k \<mapsto> mute_row m k)) i = mute_row m i" for k i
    by (simp add: mute_row_update)
  show "b = muted m (receiver_key c) (receiver_key r)"
  proof (cases "m (receiver_key c) = None")
    case True
    then show ?thesis
      using assms by (simp add: IsClientMuted_def muted_def split: option.splits)
  next
    case False
    then show ?thesis
      using assms by (auto simp: IsClientMuted_def muted_row row Let_def split: option.splits)
  qed
  have "m' = m \<or> m' = m(receiver_key r \<mapsto> mute_row m (receiver_key r))"
    using assms by (simp add: IsClientMuted_def Let_def split: option.splits if_splits)
  then show "muted m' i j = muted m i j"
    by (elim disjE) (simp_all add: muted_row row)
qed

lemma relay_muted: "mute i src \<or> mute i 255 \<Longrightarrow> relay_client mute src stream steam speex i ct cl = cl"
  by (auto simp: relay_client_def)

lemma relay_only_depends:
  "mute i src = mute' i src \<Longrightarrow> mute i 255 = mute' i 255 \<Longrightarrow>
   relay_client mute src stream steam speex i ct cl = relay_client mute' src stream steam speex i ct cl"
  by (simp add: relay_client_def)

text \<open>
  Muting a sender for a client, or everybody when the sender is 0, keeps the relay from writing the
  sender's packets to that client and changes nothing for any other pair; asking answers what the
  relay does, and unmuting undoes it.
\<close>
theorem muting_silences:
  assumes "MuteClient maxclients c r m = Some m1" "UnmuteClient maxclients c r m1 = Some m2"
    and "IsClientMuted maxclients c r m1 = Some (b1, m3)" "IsClientMuted maxclients c r m2 = Some (b2, m4)"
  shows "relay_client (muted m1) src stream steam speex i ct cl =
           (if i = receiver_key c \<and> (src = receiver_key r \<or> receiver_key r = 255) then cl
            else relay_client (muted m) src stream steam speex i ct cl)
    \<and> b1 \<and> \<not> b2 \<and> muted m3 = muted m1
    \<and> muted m2 = (muted m)(receiver_key c := (muted m (receiver_key c))(receiver_key r := False))"
proof (intro conjI)
  note m1 = muted_put [OF assms(1) [unfolded MuteClient_def]]
  note m2 = muted_put [OF assms(2) [unfolded UnmuteClient_def]]
  show "relay_client (muted m1) src stream steam speex i ct cl =
      (if i = receiver_key c \<and> (src = receiver_key r \<or> receiver_key r = 255) then cl
       else relay_client (muted m) src stream steam speex i ct cl)"
    using relay_muted [of "muted m1" i src] relay_only_depends [of "muted m1" i src "muted m"] by (auto simp: m1)
  show "b1"
    using is_client_muted_value(1) [OF assms(3)] by (simp add: m1)
  show "\<not> b2"
    using is_client_muted_value(1) [OF assms(4)] by (simp add: m2)
  show "muted m3 = muted m1"
    by (intro ext is_client_muted_value(2) [OF assms(3)])
  show "muted m2 = (muted m)(receiver_key c := (muted m (receiver_key c))(receiver_key r := False))"
    by (intro ext) (simp add: m1 m2)
qed

lemma muting_silences_witness:
  "\<forall>stream steam speex ct (cl :: client).
     relay_client (muted [1 \<mapsto> [2 \<mapsto> True]]) 2 stream steam speex 1 ct cl = cl"
proof (intro allI)
  fix stream :: "32 word" and steam speex :: "octet list" and ct and cl :: client
  have keys: "receiver_key 2 = 1" "receiver_key 3 = 2"
    by (simp_all add: receiver_key_def)
  have "MuteClient 32 2 3 Map.empty = Some [1 \<mapsto> [2 \<mapsto> True]]"
    "UnmuteClient 32 2 3 [1 \<mapsto> [2 \<mapsto> True]] = Some [1 \<mapsto> [2 \<mapsto> False]]"
    "IsClientMuted 32 2 3 [1 \<mapsto> [2 \<mapsto> True]] = Some (True, [1 \<mapsto> [2 \<mapsto> True], 2 \<mapsto> Map.empty])"
    "IsClientMuted 32 2 3 [1 \<mapsto> [2 \<mapsto> False]] = Some (False, [1 \<mapsto> [2 \<mapsto> False], 2 \<mapsto> Map.empty])"
    by (simp_all add: MuteClient_def UnmuteClient_def IsClientMuted_def put_mute_def mute_row_def get_player_by_index_def keys)
  from muting_silences [OF this, of 2 stream steam speex 1 ct cl]
  show "relay_client (muted [1 \<mapsto> [2 \<mapsto> True]]) 2 stream steam speex 1 ct cl = cl"
    by (simp add: keys)
qed

text \<open>
  Every client answers the commands that the start of a map sends; one that knows them changes to Opus,
  and the code announces Speex all the same.
\<close>

lemma announced_codec: "ct \<noteq> vct_none \<Longrightarrow> write_voice_codec ct = Some (''voice_speex'', 5)"
  by (cases ct) (simp_all add: write_voice_codec_def)

lemma check_commands_opus: "m_CodecType (on_client_commands server_commands p) = vct_opus"
  by (simp add: server_commands_def on_client_command_def)

lemma exec_config_cmd_short: "length (exec_config_cmd gamedir plugin) < max_path"
  by (simp add: exec_config_cmd_def Let_def max_path_def)

end
