(* ===== verification/Voice_Debug.thy ===== *)
theory Voice_Debug
  imports Complex_Main Prelude
begin

unbundle bit_operations_syntax

text \<open>
  The log of measured times of \<^verbatim>\<open>revoice_debug.cpp\<close>, which counts what it sees and sums it up once per
  second, and the two hooks of \<^verbatim>\<open>revoice_main.cpp\<close> that only measure.  Times are microseconds of the
  steady clock, read by arguments; a line is what is written, without its format.
\<close>

section \<open>State\<close>

record packet =
  pk_player :: int
  pk_codec :: int
  pk_size :: int
  pk_first :: bool
  pk_total_us :: rat
  pk_overflow :: nat
  pk_gap_us :: rat
  pk_dgram_pct :: rat
  pk_burst :: nat

record counters =
  frame_max_us :: rat
  frame_sum_us :: rat
  pkt_count :: nat
  slow_count :: nat
  first_count :: nat
  dgram_max_pct :: rat
  overflow_cnt :: nat

definition no_counts :: counters where
  "no_counts = \<lparr>frame_max_us = 0, frame_sum_us = 0, pkt_count = 0, slow_count = 0, first_count = 0,
     dgram_max_pct = 0, overflow_cnt = 0\<rparr>"

datatype line =
    L_pkt packet
  | L_sum counters rat    \<comment> \<open>with the average\<close>
  | L_drop int string int
  | L_net int int rat bool
  | L_frame rat rat
  | L_text string

record dbg =
  g_open :: bool
  g_tried_open :: bool
  g_lines :: "line list"
  g_flushes :: "rat list"     \<comment> \<open>the times of all calls of \<^verbatim>\<open>fflush\<close>\<close>
  g_last_flush_us :: rat
  g_counters :: counters
  g_cur :: "packet option"
  last_us :: "int \<Rightarrow> rat"
  burst_cnt :: "int \<Rightarrow> nat"
  last_sum_us :: rat
  worst_us :: rat

definition dbg_init :: dbg where
  "dbg_init = \<lparr>g_open = False, g_tried_open = False, g_lines = [], g_flushes = [], g_last_flush_us = 0,
     g_counters = no_counts, g_cur = None, last_us = (\<lambda>_. 0), burst_cnt = (\<lambda>_. 0), last_sum_us = 0, worst_us = 0\<rparr>"

text \<open>The two cvars, \<open>None\<close> where the pointer is null.\<close>

record dbg_conf =
  cv_debug :: "rat option"
  cv_debug_ms :: "rat option"

definition RevDbgEnabled :: "dbg_conf \<Rightarrow> bool" where
  "RevDbgEnabled c = (case cv_debug c of None \<Rightarrow> False | Some v \<Rightarrow> v > 0)"

definition RevDbgLevel :: "dbg_conf \<Rightarrow> int" where
  "RevDbgLevel c = (case cv_debug c of None \<Rightarrow> 0 | Some v \<Rightarrow> if v > 0 then \<lfloor>v\<rfloor> else 0)"

definition RevDbgSlowMs :: "dbg_conf \<Rightarrow> rat" where
  "RevDbgSlowMs c = (case cv_debug_ms c of None \<Rightarrow> 5 | Some v \<Rightarrow> if v > 0 then v else 5)"

section \<open>The file\<close>

text \<open>\<open>opens\<close>: one of the two paths can be opened.\<close>

definition ensureOpen :: "bool \<Rightarrow> dbg \<Rightarrow> dbg" where
  "ensureOpen opens d = (if g_tried_open d then d else d\<lparr>g_tried_open := True, g_open := opens\<rparr>)"

definition put_line :: "line \<Rightarrow> dbg \<Rightarrow> dbg" where
  "put_line l d = d\<lparr>g_lines := g_lines d @ [l]\<rparr>"

definition fflush :: "rat \<Rightarrow> dbg \<Rightarrow> dbg" where
  "fflush now d = d\<lparr>g_flushes := g_flushes d @ [now]\<rparr>"

definition flushMaybe :: "rat \<Rightarrow> dbg \<Rightarrow> dbg" where
  "flushMaybe now d =
     (if \<not> g_open d \<or> now - g_last_flush_us d < 1000000 then d
      else fflush now (d\<lparr>g_last_flush_us := now\<rparr>))"

definition RevDbgClose :: "rat \<Rightarrow> dbg \<Rightarrow> dbg" where
  "RevDbgClose now d =
     (let d1 = d\<lparr>g_cur := None\<rparr>;
          d2 = (if g_open d1 then (fflush now d1)\<lparr>g_open := False\<rparr> else d1)
      in d2\<lparr>g_tried_open := False\<rparr>)"

section \<open>A packet\<close>

definition MAX_PLAYERS :: int where "MAX_PLAYERS = 32"

text \<open>The constructor of \<^verbatim>\<open>RevDbgScope\<close>; it gives the packet when it is active.\<close>

definition scope_begin :: "dbg_conf \<Rightarrow> rat \<Rightarrow> int \<Rightarrow> int \<Rightarrow> int \<Rightarrow> bool \<Rightarrow> dbg \<Rightarrow> packet option \<times> dbg" where
  "scope_begin c now player codec sz first d =
     (if \<not> RevDbgEnabled c then (None, d)
      else
        let pkt = \<lparr>pk_player = player, pk_codec = codec, pk_size = sz, pk_first = first, pk_total_us = 0, pk_overflow = 0,
                   pk_gap_us = 0, pk_dgram_pct = 0, pk_burst = 0\<rparr>;
            (pkt1, d1) =
              (if 0 \<le> player \<and> player < MAX_PLAYERS
               then let gap = (if last_us d player > 0 then now - last_us d player else 0);
                        burst = (if gap > 0 \<and> gap < 10000 then burst_cnt d player + 1 else 1)
                    in (pkt\<lparr>pk_gap_us := gap, pk_burst := burst\<rparr>,
                        d\<lparr>last_us := (last_us d)(player := now), burst_cnt := (burst_cnt d)(player := burst)\<rparr>)
               else (pkt, d))
        in (Some pkt1, d1\<lparr>g_cur := Some pkt1\<rparr>))"

definition count_packet :: "rat \<Rightarrow> packet \<Rightarrow> counters \<Rightarrow> counters" where
  "count_packet slow_ms p k =
     (let k1 = k\<lparr>frame_sum_us := frame_sum_us k + pk_total_us p, pkt_count := pkt_count k + 1\<rparr>;
          k2 = (if pk_total_us p > frame_max_us k1 then k1\<lparr>frame_max_us := pk_total_us p\<rparr> else k1);
          k3 = (if pk_total_us p > slow_ms * 1000 then k2\<lparr>slow_count := slow_count k2 + 1\<rparr> else k2);
          k4 = (if pk_first p then k3\<lparr>first_count := first_count k3 + 1\<rparr> else k3);
          k5 = (if pk_dgram_pct p > dgram_max_pct k4 then k4\<lparr>dgram_max_pct := pk_dgram_pct p\<rparr> else k4)
      in k5\<lparr>overflow_cnt := overflow_cnt k5 + pk_overflow p\<rparr>)"

text \<open>The destructor; \<open>p\<close> is the packet as it was filled in, \<open>took\<close> what the clock says it took.\<close>

definition scope_end :: "dbg_conf \<Rightarrow> bool \<Rightarrow> rat \<Rightarrow> rat \<Rightarrow> packet \<Rightarrow> dbg \<Rightarrow> dbg" where
  "scope_end c opens took now p d =
     (let d1 = ensureOpen opens (d\<lparr>g_cur := None\<rparr>)
      in if \<not> g_open d1 then d1
         else
           let p1 = p\<lparr>pk_total_us := took\<rparr>;
               d2 = d1\<lparr>g_counters := count_packet (RevDbgSlowMs c) p1 (g_counters d1)\<rparr>;
               d3 = (if RevDbgLevel c \<ge> 2 \<or> took > RevDbgSlowMs c * 1000 \<or> pk_first p1 then put_line (L_pkt p1) d2 else d2)
           in flushMaybe now d3)"

section \<open>Once per second\<close>

definition RevDbgFrameTick :: "dbg_conf \<Rightarrow> bool \<Rightarrow> rat \<Rightarrow> dbg \<Rightarrow> dbg" where
  "RevDbgFrameTick c opens now d =
     (if \<not> RevDbgEnabled c then d
      else
        let d1 = ensureOpen opens d
        in if \<not> g_open d1 \<or> now - last_sum_us d1 < 1000000 then d1
           else
             let d2 = d1\<lparr>last_sum_us := now\<rparr>; k = g_counters d2
             in if pkt_count k = 0 \<and> RevDbgLevel c < 2 then flushMaybe now d2
                else
                  let avg = (if pkt_count k > 0 then frame_sum_us k / of_nat (pkt_count k) else 0);
                      d3 = (put_line (L_sum k avg) d2)\<lparr>g_counters := no_counts\<rparr>
                  in (fflush now d3)\<lparr>g_last_flush_us := now\<rparr>)"

section \<open>Other lines\<close>

definition log_now :: "dbg_conf \<Rightarrow> bool \<Rightarrow> rat \<Rightarrow> line \<Rightarrow> dbg \<Rightarrow> dbg" where
  "log_now c opens now l d =
     (if \<not> RevDbgEnabled c then d
      else let d1 = ensureOpen opens d in if g_open d1 then fflush now (put_line l d1) else d1)"

definition RevDbgLine :: "dbg_conf \<Rightarrow> bool \<Rightarrow> rat \<Rightarrow> string \<Rightarrow> dbg \<Rightarrow> dbg" where
  "RevDbgLine c opens now msg d = log_now c opens now (L_text msg) d"

definition RevDbgDrop :: "dbg_conf \<Rightarrow> bool \<Rightarrow> rat \<Rightarrow> int \<Rightarrow> string \<Rightarrow> int \<Rightarrow> dbg \<Rightarrow> dbg" where
  "RevDbgDrop c opens now player reason sz d = log_now c opens now (L_drop player reason sz) d"

definition RevDbgNetOp :: "dbg_conf \<Rightarrow> bool \<Rightarrow> rat \<Rightarrow> int \<Rightarrow> int \<Rightarrow> rat \<Rightarrow> bool \<Rightarrow> dbg \<Rightarrow> dbg" where
  "RevDbgNetOp c opens now player opcode us voice d =
     (if RevDbgEnabled c \<and> (voice \<or> \<not> us < RevDbgSlowMs c * 1000)
      then log_now c opens now (L_net player opcode us voice) d else d)"

text \<open>The end of \<^verbatim>\<open>StartFrame_PostHook\<close>: \<open>us\<close> is how long the frame took.\<close>

definition frame_end :: "dbg_conf \<Rightarrow> bool \<Rightarrow> rat \<Rightarrow> rat \<Rightarrow> dbg \<Rightarrow> dbg" where
  "frame_end c opens now us d =
     (if \<not> RevDbgEnabled c then d
      else
        let d1 = (if us > worst_us d then d\<lparr>worst_us := us\<rparr> else d)
        in if us > RevDbgSlowMs c * 1000 then log_now c opens now (L_frame us (worst_us d1)) d1 else d1)"

text \<open>
  \<^verbatim>\<open>Rehlds_HandleNetCommand\<close>: voice is parsed by the plugin, all else is left to the engine, and both are
  measured.  \<open>'s\<close> is the state of the plugin and the engine.
\<close>

definition HandleNetCommand ::
  "dbg_conf \<Rightarrow> bool \<Rightarrow> rat \<Rightarrow> rat \<Rightarrow> ('s \<times> dbg \<Rightarrow> 's \<times> dbg) \<Rightarrow> ('s \<times> dbg \<Rightarrow> 's \<times> dbg) \<Rightarrow> int \<Rightarrow> int \<Rightarrow> 's \<times> dbg \<Rightarrow> 's \<times> dbg" where
  "HandleNetCommand c opens now us parse_voice call_next player opcode sd =
     (if opcode = 8
      then case parse_voice sd of (s, d) \<Rightarrow> (s, RevDbgNetOp c opens now player opcode us True d)
      else case call_next sd of (s, d) \<Rightarrow> (s, RevDbgNetOp c opens now player opcode us False d))"

section \<open>What the summary says\<close>

text \<open>
  A run of the log, with the packets that were measured since the last summary, each with the threshold
  at its time.
\<close>

inductive dbg_step :: "dbg \<times> (rat \<times> packet) list \<Rightarrow> dbg \<times> (rat \<times> packet) list \<Rightarrow> bool" where
  d_begin: "scope_begin c now player codec sz first d = (r, d') \<Longrightarrow> dbg_step (d, ps) (d', ps)"
| d_end: "d' = scope_end c opens took now p d \<Longrightarrow>
    ps' = (if g_open d' then ps @ [(RevDbgSlowMs c, p\<lparr>pk_total_us := took\<rparr>)] else ps) \<Longrightarrow> dbg_step (d, ps) (d', ps')"
| d_tick: "d' = RevDbgFrameTick c opens now d \<Longrightarrow>
    ps' = (if length (g_lines d') > length (g_lines d) then [] else ps) \<Longrightarrow> dbg_step (d, ps) (d', ps')"
| d_line: "dbg_step (d, ps) (RevDbgLine c opens now msg d, ps)"
| d_drop: "dbg_step (d, ps) (RevDbgDrop c opens now player reason sz d, ps)"
| d_net: "dbg_step (d, ps) (RevDbgNetOp c opens now player opcode us voice d, ps)"
| d_frame: "dbg_step (d, ps) (frame_end c opens now us d, ps)"
| d_close: "dbg_step (d, ps) (RevDbgClose now d, ps)"

definition summary :: "(rat \<times> packet) list \<Rightarrow> counters" where
  "summary ps =
     \<lparr>frame_max_us = foldl max 0 (map (pk_total_us \<circ> snd) ps), frame_sum_us = sum_list (map (pk_total_us \<circ> snd) ps),
      pkt_count = length ps, slow_count = length (filter (\<lambda>(slow, p). pk_total_us p > slow * 1000) ps),
      first_count = length (filter (pk_first \<circ> snd) ps), dgram_max_pct = foldl max 0 (map (pk_dgram_pct \<circ> snd) ps),
      overflow_cnt = sum_list (map (pk_overflow \<circ> snd) ps)\<rparr>"

lemma summary_empty: "summary [] = no_counts"
  by (simp add: summary_def no_counts_def)

lemma summary_snoc: "summary (ps @ [(slow, p)]) = count_packet slow p (summary ps)"
  by (simp add: summary_def count_packet_def Let_def max_def)

text \<open>What the helpers leave alone.\<close>

lemma file_frame [simp]:
  "g_counters (ensureOpen b d) = g_counters d" "g_lines (ensureOpen b d) = g_lines d"
  "g_counters (put_line l d) = g_counters d" "g_lines (put_line l d) = g_lines d @ [l]" "g_open (put_line l d) = g_open d"
  "g_counters (fflush now d) = g_counters d" "g_lines (fflush now d) = g_lines d" "g_open (fflush now d) = g_open d"
  "g_counters (flushMaybe now d) = g_counters d" "g_lines (flushMaybe now d) = g_lines d" "g_open (flushMaybe now d) = g_open d"
  by (simp_all add: ensureOpen_def put_line_def fflush_def flushMaybe_def)

lemma log_now_counters [simp]: "g_counters (log_now c opens now l d) = g_counters d"
  by (simp add: log_now_def Let_def)

lemma scope_begin_counters: "scope_begin c now player codec sz first d = (r, d') \<Longrightarrow> g_counters d' = g_counters d"
  by (auto simp: scope_begin_def Let_def split: if_splits)

lemma scope_end_counters:
  "g_counters (scope_end c opens took now p d)
     = (if g_open (scope_end c opens took now p d) then count_packet (RevDbgSlowMs c) (p\<lparr>pk_total_us := took\<rparr>) (g_counters d)
        else g_counters d)"
  by (simp add: scope_end_def Let_def)

lemma tick_cases:
  obtains (nothing) "g_lines (RevDbgFrameTick c opens now d) = g_lines d" "g_counters (RevDbgFrameTick c opens now d) = g_counters d"
  | (sum) "g_counters (RevDbgFrameTick c opens now d) = no_counts"
      "g_lines (RevDbgFrameTick c opens now d) = g_lines d @ [L_sum (g_counters d)
         (if pkt_count (g_counters d) > 0 then frame_sum_us (g_counters d) / of_nat (pkt_count (g_counters d)) else 0)]"
      "1000000 \<le> now - last_sum_us d" "last_sum_us (RevDbgFrameTick c opens now d) = now"
proof -
  have e: "last_sum_us (ensureOpen opens d) = last_sum_us d"
    by (simp add: ensureOpen_def)
  show thesis
  proof (cases "\<not> RevDbgEnabled c \<or> \<not> g_open (ensureOpen opens d) \<or> now - last_sum_us d < 1000000
      \<or> pkt_count (g_counters d) = 0 \<and> RevDbgLevel c < 2")
    case True
    show thesis
      by (rule nothing) (use True in \<open>auto simp: RevDbgFrameTick_def Let_def e\<close>)
  next
    case False
    show thesis
      by (rule sum) (use False in \<open>auto simp: RevDbgFrameTick_def Let_def e fflush_def put_line_def\<close>)
  qed
qed

lemma counters_summary:
  "dbg_step\<^sup>*\<^sup>* (dbg_init, []) (d, ps) \<Longrightarrow> g_counters d = summary ps"
proof (induction rule: rtranclp_induct2)
  case refl
  show ?case
    by (simp add: dbg_init_def summary_empty)
next
  case (step d ps d' ps')
  from step(2) show ?case
  proof (cases rule: dbg_step.cases)
    case (d_begin c now player codec sz first r)
    then show ?thesis
      using step(3) scope_begin_counters by simp
  next
    case (d_end c opens took now p)
    then show ?thesis
      using step(3) scope_end_counters [of c opens took now p d] by (simp add: summary_snoc)
  next
    case (d_tick c opens now)
    then show ?thesis
      using step(3) by (cases rule: tick_cases [of c opens now d]) (simp_all add: summary_empty)
  qed (use step(3) in \<open>auto simp: RevDbgLine_def RevDbgDrop_def RevDbgNetOp_def frame_end_def RevDbgClose_def Let_def\<close>)
qed

text \<open>
  In every run of the voice plugin a summary in the log of times tells exactly of the packets measured
  since the summary before: how many there were, how many were slow at the time, how many were the first
  of a speaker, the sum, the largest and the mean of their times, the fullest datagram and the packets
  that did not fit; and it comes at least a second after the last.
\<close>
theorem debug_summary_exact:
  assumes "dbg_step\<^sup>*\<^sup>* (dbg_init, []) (d, ps)" "RevDbgFrameTick c opens now d = d'" "length (g_lines d') \<noteq> length (g_lines d)"
  shows "g_lines d' = g_lines d @ [L_sum (summary ps)
           (if ps = [] then 0 else sum_list (map (pk_total_us \<circ> snd) ps) / of_nat (length ps))]
    \<and> g_counters d' = summary [] \<and> 1000000 \<le> now - last_sum_us d \<and> last_sum_us d' = now"
proof -
  have k: "g_counters d = summary ps"
    by (rule counters_summary [OF assms(1)])
  show ?thesis
    using tick_cases [of c opens now d]
  proof cases
    case nothing
    then show ?thesis
      using assms(2,3) by simp
  next
    case sum
    have "(if pkt_count (summary ps) > 0 then frame_sum_us (summary ps) / of_nat (pkt_count (summary ps)) else 0)
        = (if ps = [] then 0 else sum_list (map (pk_total_us \<circ> snd) ps) / of_nat (length ps))"
      by (simp add: summary_def)
    with sum show ?thesis
      unfolding assms(2) [symmetric] k summary_empty by simp
  qed
qed

definition demo_conf :: dbg_conf where
  "demo_conf = \<lparr>cv_debug = Some 1, cv_debug_ms = None\<rparr>"

definition demo_packet :: packet where
  "demo_packet = \<lparr>pk_player = 3, pk_codec = 3, pk_size = 40, pk_first = True, pk_total_us = 0, pk_overflow = 2,
     pk_gap_us = 0, pk_dgram_pct = 50, pk_burst = 1\<rparr>"

lemma debug_summary_exact_witness:
  "\<exists>d. dbg_step\<^sup>*\<^sup>* (dbg_init, []) (d, [(5, demo_packet\<lparr>pk_total_us := 6000\<rparr>)])
    \<and> last (g_lines (RevDbgFrameTick demo_conf True 2000000 d)) = L_sum (summary [(5, demo_packet\<lparr>pk_total_us := 6000\<rparr>)]) 6000"
proof -
  let ?d = "scope_end demo_conf True 6000 1000000 demo_packet dbg_init"
  let ?ps = "[(5, demo_packet\<lparr>pk_total_us := 6000\<rparr>)]"
  have "g_open ?d" "RevDbgSlowMs demo_conf = 5"
    by (simp_all add: scope_end_def ensureOpen_def dbg_init_def RevDbgSlowMs_def demo_conf_def Let_def)
  then have "dbg_step (dbg_init, []) (?d, ?ps)"
    by (intro d_end [where c = demo_conf and took = 6000 and p = demo_packet]) simp_all
  then have run: "dbg_step\<^sup>*\<^sup>* (dbg_init, []) (?d, ?ps)"
    by (rule r_into_rtranclp)
  obtain d' where d': "RevDbgFrameTick demo_conf True 2000000 ?d = d'"
    by blast
  moreover have "length (g_lines d') \<noteq> length (g_lines ?d)"
    unfolding d' [symmetric]
    by (simp add: RevDbgFrameTick_def scope_end_def ensureOpen_def dbg_init_def RevDbgSlowMs_def RevDbgEnabled_def demo_conf_def
        Let_def flushMaybe_def fflush_def put_line_def count_packet_def no_counts_def)
  ultimately show ?thesis
    using debug_summary_exact [OF run d'] run by (intro exI [of _ ?d]) simp
qed

text \<open>The file is written through at every line about a packet that was dropped, not once per second.\<close>

lemma drops_flush_every_line:
  assumes "RevDbgEnabled c" "g_open d" "g_tried_open d"
  shows "g_flushes (RevDbgDrop c b now p2 r2 s2 (RevDbgDrop c b now p1 r1 s1 d)) = g_flushes d @ [now, now]"
  using assms by (simp add: RevDbgDrop_def log_now_def ensureOpen_def fflush_def put_line_def)

section \<open>The ping of a client\<close>

text \<open>\<^verbatim>\<open>SV_CalcPing\<close> of \<^verbatim>\<open>revoice_main.cpp\<close>, over the times of the frames of a client.\<close>

datatype ping_error = UB_frame_index

fun ping_loop :: "rat list \<Rightarrow> int \<Rightarrow> int list \<Rightarrow> rat \<times> nat \<Rightarrow> ping_error + rat \<times> nat" where
  "ping_loop frames ack [] acc = Inr acc"
| "ping_loop frames ack (i # is) acc =
     (let idx = 64 AND (ack + NOT i)
      in if length frames \<le> nat idx then Inl UB_frame_index
         else let t = frames ! nat idx
              in ping_loop frames ack is (if t > 0 then (fst acc + t, snd acc + 1) else acc))"

definition SV_CalcPing :: "rat list \<Rightarrow> bool \<Rightarrow> int \<Rightarrow> ping_error + int" where
  "SV_CalcPing frames fakeclient ack =
     (if fakeclient then Inr 0
      else bind_r (ping_loop frames ack [0..15] (0, 0)) (\<lambda>(ping, n).
             Inr (if n > 0 \<and> ping / of_nat n > 0 then \<lfloor>ping / of_nat n * 1000\<rfloor> else 0)))"

lemma and_64: "(64 :: int) AND x = (if bit x 6 then 64 else 0)"
proof (rule bit_eqI)
  fix n
  have "bit (64 :: int) n \<longleftrightarrow> n = 6"
    using bit_exp_iff [of 6 n, where 'a = int] by (auto simp: possible_bit_def)
  then show "bit (64 AND x) n \<longleftrightarrow> bit (if bit x 6 then 64 else 0 :: int) n"
    by (auto simp: bit_and_iff)
qed

lemma ping_loop_64:
  assumes "length frames = 64"
  shows "ping_loop frames ack is acc =
     (if \<exists>i \<in> set is. bit (ack + NOT i) 6 then Inl UB_frame_index
      else Inr (if frames ! 0 > 0 then (fst acc + of_nat (length is) * frames ! 0, snd acc + length is) else acc))"
  using assms by (induction "is" arbitrary: acc) (auto simp: and_64 Let_def algebra_simps)

text \<open>
  The mask of the frame is 64 where the frames are 64: only the first frame is ever read, sixteen
  times, or the code reads behind the last one, as it does whenever one of the last sixteen numbers has
  the bit.
\<close>
theorem calc_ping_reads_one_frame:
  assumes "length frames = 64"
  shows "SV_CalcPing frames False ack =
     (if \<exists>i \<in> {0..15}. bit (ack + NOT i) 6 then Inl UB_frame_index
      else Inr (if frames ! 0 > 0 then \<lfloor>frames ! 0 * 1000\<rfloor> else 0))"
proof -
  have "length [0..15] = 16" "set [0..15] = {0..15 :: int}"
    by simp_all
  then show ?thesis
    unfolding SV_CalcPing_def ping_loop_64 [OF assms] by (simp add: bind_r_def)
qed

lemma calc_ping_reads_one_frame_witness:
  "SV_CalcPing (replicate 64 1) False 70 = Inl UB_frame_index \<and> SV_CalcPing (replicate 64 1) False 20 = Inr 1000"
proof -
  have 70: "\<exists>i \<in> {0..15}. bit ((70 :: int) + NOT i) 6"
    by (rule bexI [of _ 0]) simp_all
  have 20: "\<not> (\<exists>i \<in> {0..15}. bit ((20 :: int) + NOT i) 6)"
  proof -
    have "\<not> bit (20 + NOT i :: int) 6" if "0 \<le> i" "i \<le> 15" for i
    proof -
      have "20 + NOT i = take_bit 6 (20 + NOT i)"
        using that by (simp add: not_int_def take_bit_eq_mod)
      then show ?thesis
        by (metis bit_take_bit_iff less_irrefl)
    qed
    then show ?thesis
      by auto
  qed
  show ?thesis
    using calc_ping_reads_one_frame [of "replicate 64 1" 70] calc_ping_reads_one_frame [of "replicate 64 1" 20] 70 20
    by simp
qed

end
