(* ===== verification/Voice_Opus.thy ===== *)
theory Voice_Opus
  imports Complex_Main Voice_Codec
begin

text \<open>
  \<^verbatim>\<open>VoiceEncoder_Opus\<close> (\<^verbatim>\<open>VoiceEncoder_Opus.cpp\<close>): the frames of an Opus payload, their sequence
  numbers, packet loss concealment and discontinued transmission.  The library libopus is a parameter:
  a record of the functions the class calls, whose documented behaviour is \<open>opus_lib_ok\<close>.
\<close>

section \<open>The library and the state\<close>

record ('e, 'd) opus_lib =
  opus_encoder_init :: "nat \<Rightarrow> int \<Rightarrow> 'e"     \<comment> \<open>with the controls that \<^verbatim>\<open>Init\<close> sets: sampling rate, bit rate\<close>
  opus_decoder_init :: "nat \<Rightarrow> 'd"
  opus_encoder_reset :: "'e \<Rightarrow> 'e"
  opus_decoder_reset :: "'d \<Rightarrow> 'd"
  opus_encode :: "'e \<Rightarrow> sample list \<Rightarrow> int \<Rightarrow> int \<times> octet list \<times> 'e"
  opus_decode :: "'d \<Rightarrow> octet list option \<Rightarrow> nat \<Rightarrow> int \<times> sample list \<times> 'd"

record ('e, 'd) opus =
  m_pEncoder :: "'e option"
  m_pDecoder :: "'d option"
  m_bufOverflowBytes :: "sample list"
  m_samplerate :: nat
  m_bitrate :: int
  m_frameSize :: nat
  m_MaxframeSize :: nat
  m_nEncodeSeq :: "16 word"
  m_nDecodeSeq :: "16 word"
  m_PacketLossConcealment :: bool

definition max_packet_loss :: nat where
  "max_packet_loss = 10"

text \<open>The sampling rates \<^verbatim>\<open>opus_encoder_init\<close> and \<^verbatim>\<open>opus_decoder_init\<close> accept.\<close>

definition opus_rate_ok :: "nat \<Rightarrow> bool" where
  "opus_rate_ok fs = (fs = 48000 \<or> fs = 24000 \<or> fs = 16000 \<or> fs = 12000 \<or> fs = 8000)"

definition new_opus :: "('e, 'd) opus" where
  "new_opus = \<lparr>m_pEncoder = None, m_pDecoder = None, m_bufOverflowBytes = [], m_samplerate = 24000,
     m_bitrate = 10000, m_frameSize = 0, m_MaxframeSize = 0, m_nEncodeSeq = 0, m_nDecodeSeq = 0,
     m_PacketLossConcealment = False\<rparr>"

definition opus_reset :: "('e, 'd) opus_lib \<Rightarrow> ('e, 'd) opus \<Rightarrow> ('e, 'd) opus" where
  "opus_reset l s = s\<lparr>m_pEncoder := map_option (opus_encoder_reset l) (m_pEncoder s),
     m_pDecoder := map_option (opus_decoder_reset l) (m_pDecoder s), m_bufOverflowBytes := []\<rparr>"

definition opus_init :: "('e, 'd) opus_lib \<Rightarrow> ('e, 'd) opus \<Rightarrow> bool \<times> ('e, 'd) opus" where
  "opus_init l s =
     (let fs = m_samplerate s div 1000 * 20;
          s1 = s\<lparr>m_nEncodeSeq := 0, m_nDecodeSeq := 0, m_PacketLossConcealment := True,
                 m_frameSize := fs, m_MaxframeSize := fs * 2\<rparr>
      in if \<not> opus_rate_ok (m_samplerate s) then (False, s1\<lparr>m_pEncoder := None\<rparr>)
         else (True, opus_reset l
                 (s1\<lparr>m_pEncoder := Some (opus_encoder_init l (m_samplerate s) (m_bitrate s)),
                     m_pDecoder := Some (opus_decoder_init l (m_samplerate s))\<rparr>)))"

definition opus_set_sample_rate :: "('e, 'd) opus_lib \<Rightarrow> nat \<Rightarrow> ('e, 'd) opus \<Rightarrow> ('e, 'd) opus" where
  "opus_set_sample_rate l r s =
     (if r \<noteq> m_samplerate s
      then snd (opus_init l (s\<lparr>m_samplerate := r, m_pEncoder := None, m_pDecoder := None\<rparr>))
      else s)"

text \<open>The bit rate is the value of the cvar, whose fraction the assignment to the field drops.\<close>

definition opus_set_bit_rate :: "('e, 'd) opus_lib \<Rightarrow> rat \<Rightarrow> ('e, 'd) opus \<Rightarrow> ('e, 'd) opus" where
  "opus_set_bit_rate l b s =
     (if b \<noteq> of_int (m_bitrate s)
      then snd (opus_init l (s\<lparr>m_bitrate := (if b < 0 then \<lceil>b\<rceil> else \<lfloor>b\<rfloor>), m_pEncoder := None, m_pDecoder := None\<rparr>))
      else s)"

section \<open>Decompress\<close>

text \<open>
  One call of \<^verbatim>\<open>opus_decode\<close> with room for a frame behind the samples written so far; \<open>None\<close> asks
  for the concealment of a lost frame.  The call refuses an empty frame before it looks at the decoder.
\<close>

definition decode_frame ::
    "('e, 'd) opus_lib \<Rightarrow> nat \<Rightarrow> nat \<Rightarrow> octet list option \<Rightarrow> sample list \<Rightarrow> 'd option
     \<Rightarrow> voice_error + sample list \<times> 'd option" where
  "decode_frame l fs k data out d =
     (if fs = 0 then Inr (out, d)
      else case d of
        None \<Rightarrow> Inl Null_Decoder
      | Some st \<Rightarrow>
          if k < 2 * (length out + fs) then Inl (Write_Outside (int (2 * length out)))
          else (case opus_decode l st data fs of
                  (n, xs, st') \<Rightarrow> Inr (if n \<le> 0 then out else out @ xs, Some st')))"

fun conceal ::
    "('e, 'd) opus_lib \<Rightarrow> nat \<Rightarrow> nat \<Rightarrow> nat \<Rightarrow> nat \<Rightarrow> sample list \<Rightarrow> 'd option
     \<Rightarrow> voice_error + sample list \<times> 'd option" where
  "conceal l fs mfs k 0 out d = Inr (out, d)"
| "conceal l fs mfs k (Suc n) out d =
     (if k \<le> 2 * length out + mfs then Inr (out, d)
      else bind_r (decode_frame l fs k None out d) (\<lambda>(out', d'). conceal l fs mfs k n out' d'))"

text \<open>The sequence number of a frame against the one expected.\<close>

definition sequence_step ::
    "('e, 'd) opus_lib \<Rightarrow> nat \<Rightarrow> 16 word \<Rightarrow> sample list \<Rightarrow> ('e, 'd) opus
     \<Rightarrow> voice_error + sample list \<times> ('e, 'd) opus" where
  "sequence_step l k cur out s =
     bind_r
       (if cur < m_nDecodeSeq s then Inr (out, opus_reset l s)
        else if cur \<noteq> m_nDecodeSeq s then
          bind_r (conceal l (m_frameSize s) (m_MaxframeSize s) k
                    (min (unat cur - unat (m_nDecodeSeq s)) max_packet_loss) out (m_pDecoder s))
            (\<lambda>(out', d). Inr (out', s\<lparr>m_pDecoder := d\<rparr>))
        else Inr (out, s))
       (\<lambda>(out', s'). Inr (out', s'\<lparr>m_nDecodeSeq := cur + 1\<rparr>))"

definition read_sequence ::
    "('e, 'd) opus_lib \<Rightarrow> octet list \<Rightarrow> nat \<Rightarrow> nat \<Rightarrow> sample list \<Rightarrow> ('e, 'd) opus
     \<Rightarrow> voice_error + sample list \<times> ('e, 'd) opus" where
  "read_sequence l m k p out s =
     (if m_PacketLossConcealment s then bind_r (rd16 m p) (\<lambda>cur. sequence_step l k cur out s)
      else Inr (out, s))"

function opus_frames ::
    "('e, 'd) opus_lib \<Rightarrow> octet list \<Rightarrow> nat \<Rightarrow> nat \<Rightarrow> nat \<Rightarrow> sample list \<Rightarrow> ('e, 'd) opus
     \<Rightarrow> voice_error + sample list \<times> ('e, 'd) opus" where
  "opus_frames l m stop k p out s =
     (if stop \<le> p then Inr (out, s)
      else bind_r (rd16 m p) (\<lambda>size.
        if size = 0xFFFF then Inr (out, (opus_reset l s)\<lparr>m_nDecodeSeq := 0\<rparr>)
        else let q = (if m_PacketLossConcealment s then p + 4 else p + 2)
             in bind_r (read_sequence l m k (p + 2) out s) (\<lambda>(out1, s1).
               if stop < q + unat size then Inr (out1, s1)
               else if k < 2 * length out1 + m_MaxframeSize s1 then Inr (out1, s1)
               else if size = 0 then
                 opus_frames l m stop k q (out1 @ replicate (m_MaxframeSize s1 div 2) 0) s1
               else bind_r (rd_buf m q (unat size)) (\<lambda>bs.
                 bind_r (decode_frame l (m_frameSize s1) k (Some bs) out1 (m_pDecoder s1)) (\<lambda>(out2, d).
                   opus_frames l m stop k (q + unat size) out2 (s1\<lparr>m_pDecoder := d\<rparr>))))))"
  by pat_completeness auto

termination
  by (relation "measure (\<lambda>(l, m, stop, k, p, out, s). stop - p)") auto

declare opus_frames.simps [simp del]

definition opus_decompress ::
    "('e, 'd) opus_lib \<Rightarrow> octet list \<Rightarrow> nat \<Rightarrow> nat \<Rightarrow> nat \<Rightarrow> ('e, 'd) opus
     \<Rightarrow> voice_error + int \<times> sample list \<times> ('e, 'd) opus" where
  "opus_decompress l m p len k s =
     bind_r (opus_frames l m (p + len) k p [] s) (\<lambda>(out, s'). Inr (int (length out), out, s'))"

section \<open>Compress\<close>

text \<open>
  The loop over the whole frames: the size of a frame is stored before its sequence number after the
  frame is encoded, and a failed call moves the position back by the error code.
\<close>

fun opus_chunks ::
    "('e, 'd) opus_lib \<Rightarrow> int \<Rightarrow> nat \<Rightarrow> sample list \<Rightarrow> octet list \<Rightarrow> int \<Rightarrow> ('e, 'd) opus
     \<Rightarrow> voice_error + octet list \<times> int \<times> ('e, 'd) opus" where
  "opus_chunks l pmax 0 xs m p s = Inr (m, p, s)"
| "opus_chunks l pmax (Suc n) xs m p s =
     bind_r
       (if m_PacketLossConcealment s
        then bind_r (wr_buf m (p + 2) (le16 (m_nEncodeSeq s)))
               (\<lambda>m'. Inr (m', p + 4, s\<lparr>m_nEncodeSeq := m_nEncodeSeq s + 1\<rparr>))
        else Inr (m, p + 2, s))
       (\<lambda>(m1, p1, s1).
         let room = min (pmax - p1) 0x7FFF
         in case m_pEncoder s1 of
              None \<Rightarrow> Inl Null_Encoder
            | Some e \<Rightarrow>
                (case opus_encode l e (take (m_frameSize s1) xs) room of
                   (nbytes, bs, e') \<Rightarrow>
                     bind_r (wr_buf m1 p1 bs) (\<lambda>m2.
                     bind_r (wr_buf m2 p (le16 (word_of_int nbytes))) (\<lambda>m3.
                       opus_chunks l pmax n (drop (m_MaxframeSize s1 div 2) xs) m3 (p1 + nbytes)
                         (s1\<lparr>m_pEncoder := Some e'\<rparr>)))))"

definition opus_finish ::
    "('e, 'd) opus_lib \<Rightarrow> int \<Rightarrow> octet list \<Rightarrow> int \<Rightarrow> ('e, 'd) opus
     \<Rightarrow> voice_error + octet list \<times> int \<times> ('e, 'd) opus" where
  "opus_finish l pmax m p s =
     (let s' = (opus_reset l s)\<lparr>m_nEncodeSeq := 0\<rparr>
      in if pmax > p + 2 then bind_r (wr_buf m p (le16 0xFFFF)) (\<lambda>m'. Inr (m', p + 2, s'))
         else Inr (m, p, s'))"

definition opus_compress ::
    "('e, 'd) opus_lib \<Rightarrow> sample list \<Rightarrow> octet list \<Rightarrow> nat \<Rightarrow> nat \<Rightarrow> bool \<Rightarrow> ('e, 'd) opus
     \<Rightarrow> voice_error + int \<times> octet list \<times> ('e, 'd) opus" where
  "opus_compress l xs m p k fin s =
     (let q = m_bufOverflowBytes s; fs = m_frameSize s in
      if length xs + length q < fs \<and> \<not> fin then Inr (0, m, s\<lparr>m_bufOverflowBytes := q @ xs\<rparr>)
      else if fs = 0 then Inl Zero_Frame
      else
        let rem0 = length xs mod fs;
            ys = (if q \<noteq> [] \<or> rem0 \<noteq> 0 \<and> fin
                  then q @ xs @ (if fin \<and> rem0 \<noteq> 0 then replicate (fs - rem0) 0 else [])
                  else xs);
            left = length ys mod fs
        in bind_r (opus_chunks l (int (p + k)) (length ys div fs) ys m (int p) s) (\<lambda>(m1, p1, s1).
             let s2 = s1\<lparr>m_bufOverflowBytes := drop (length ys - left) ys\<rparr>
             in bind_r (if fin then opus_finish l (int (p + k)) m1 p1 s2 else Inr (m1, p1, s2))
                  (\<lambda>(m3, p3, s3). Inr (p3 - int p, m3, s3))))"

section \<open>Memory safety\<close>

text \<open>
  What libopus documents, for frames of 20 ms: a frame is encoded into at least one byte, at most the
  room given and at most 1276 bytes; a decoded frame has at most the samples asked for.
\<close>

definition opus_lib_ok :: "('e, 'd) opus_lib \<Rightarrow> bool" where
  "opus_lib_ok l =
     (\<forall>fs \<in> {160, 240, 320, 480, 960}.
        (\<forall>e xs k. length xs = fs \<longrightarrow> 0 < k \<longrightarrow>
           (case opus_encode l e xs k of (n, bs, e') \<Rightarrow> 0 < n \<and> n \<le> k \<and> n \<le> 1276 \<and> int (length bs) = n)) \<and>
        (\<forall>d data. case opus_decode l d data fs of (n, xs, d') \<Rightarrow>
           n \<le> int fs \<and> (0 < n \<longrightarrow> int (length xs) = n)))"

definition opus_inv :: "('e, 'd) opus_lib \<Rightarrow> ('e, 'd) opus \<Rightarrow> bool" where
  "opus_inv l s =
     (opus_lib_ok l \<and> opus_rate_ok (m_samplerate s) \<and> m_frameSize s = m_samplerate s div 1000 * 20
      \<and> m_MaxframeSize s = 2 * m_frameSize s \<and> m_pEncoder s \<noteq> None \<and> m_pDecoder s \<noteq> None
      \<and> length (m_bufOverflowBytes s) < m_frameSize s \<and> m_PacketLossConcealment s)"

lemma opus_frame_sizes:
  "opus_inv l s \<Longrightarrow> m_frameSize s \<in> {160, 240, 320, 480, 960}"
  by (auto simp: opus_inv_def opus_rate_ok_def)

lemma opus_decode_law:
  assumes "opus_lib_ok l" "fs \<in> {160, 240, 320, 480, 960}" "opus_decode l d data fs = (n, xs, d')"
  shows "n \<le> int fs" "0 < n \<Longrightarrow> int (length xs) = n"
proof -
  have "case opus_decode l d data fs of (n, xs, d') \<Rightarrow> n \<le> int fs \<and> (0 < n \<longrightarrow> int (length xs) = n)"
    using bspec [OF assms(1) [unfolded opus_lib_ok_def] assms(2)] by (elim conjE allE)
  then show "n \<le> int fs" "0 < n \<Longrightarrow> int (length xs) = n"
    by (simp_all add: assms(3))
qed

lemma opus_encode_law:
  assumes "opus_lib_ok l" "fs \<in> {160, 240, 320, 480, 960}" "length xs = fs" "0 < k"
    and "opus_encode l e xs k = (n, bs, e')"
  shows "0 < n" "n \<le> k" "n \<le> 1276" "int (length bs) = n"
proof -
  have "case opus_encode l e xs k of (n, bs, e') \<Rightarrow> 0 < n \<and> n \<le> k \<and> n \<le> 1276 \<and> int (length bs) = n"
    using bspec [OF assms(1) [unfolded opus_lib_ok_def] assms(2)] assms(3,4) by (elim conjE allE impE)
  then show "0 < n" "n \<le> k" "n \<le> 1276" "int (length bs) = n"
    by (simp_all add: assms(5))
qed

lemma decode_frame_safe:
  assumes "opus_lib_ok l" "fs \<in> {160, 240, 320, 480, 960}" "2 * (length out + fs) \<le> k"
  shows "\<exists>out' st'. decode_frame l fs k data out (Some st) = Inr (out', Some st') \<and> 2 * length out' \<le> k"
proof -
  obtain n xs st' where d: "opus_decode l st data fs = (n, xs, st')"
    by (cases "opus_decode l st data fs")
  note law = opus_decode_law [OF assms(1,2) d]
  have "2 * length (out @ xs) \<le> k" if "0 < n"
    using law that assms(3) by simp
  with assms d show ?thesis
    by (auto simp: decode_frame_def)
qed

lemma conceal_safe:
  assumes "opus_lib_ok l" "fs \<in> {160, 240, 320, 480, 960}" "2 * length out \<le> k"
  shows "\<exists>out' st'. conceal l fs (2 * fs) k n out (Some st) = Inr (out', Some st') \<and> 2 * length out' \<le> k"
  using assms(3)
proof (induction n arbitrary: out st)
  case (Suc n)
  show ?case
  proof (cases "k \<le> 2 * length out + 2 * fs")
    case True
    then show ?thesis using Suc.prems by simp
  next
    case False
    then have room: "2 * (length out + fs) \<le> k" by simp
    from decode_frame_safe [OF assms(1,2) room, of None st] obtain out' st' where
      d: "decode_frame l fs k None out (Some st) = Inr (out', Some st')" "2 * length out' \<le> k"
      by blast
    from Suc.IH [OF d(2), of st'] d(1) False show ?thesis by simp
  qed
qed simp

lemma opus_inv_reset: "opus_inv l s \<Longrightarrow> opus_inv l (opus_reset l s)"
  by (auto simp: opus_inv_def opus_reset_def opus_rate_ok_def)

lemma opus_inv_updates [simp]:
  "opus_inv l (s\<lparr>m_nDecodeSeq := w\<rparr>) = opus_inv l s"
  "opus_inv l (s\<lparr>m_nEncodeSeq := w\<rparr>) = opus_inv l s"
  "opus_inv l s \<Longrightarrow> opus_inv l (s\<lparr>m_pDecoder := Some d\<rparr>)"
  "opus_inv l s \<Longrightarrow> opus_inv l (s\<lparr>m_pEncoder := Some e\<rparr>)"
  by (auto simp: opus_inv_def)

lemma opus_inv_decoder: "opus_inv l s \<Longrightarrow> \<exists>d. m_pDecoder s = Some d"
  by (auto simp: opus_inv_def)

lemma opus_inv_encoder: "opus_inv l s \<Longrightarrow> \<exists>e. m_pEncoder s = Some e"
  by (auto simp: opus_inv_def)

lemma opus_inv_lib: "opus_inv l s \<Longrightarrow> opus_lib_ok l"
  by (simp add: opus_inv_def)

lemma opus_inv_max: "opus_inv l s \<Longrightarrow> m_MaxframeSize s = 2 * m_frameSize s"
  by (simp add: opus_inv_def)

lemma sequence_step_safe:
  assumes "opus_inv l s" "2 * length out \<le> k"
  shows "\<exists>out' s'. sequence_step l k cur out s = Inr (out', s') \<and> opus_inv l s' \<and> 2 * length out' \<le> k"
proof -
  obtain d where d: "m_pDecoder s = Some d" using opus_inv_decoder [OF assms(1)] by blast
  obtain out' st' where c: "conceal l (m_frameSize s) (m_MaxframeSize s) k
      (min (unat cur - unat (m_nDecodeSeq s)) max_packet_loss) out (Some d) = Inr (out', Some st')"
    "2 * length out' \<le> k"
    using conceal_safe [OF opus_inv_lib [OF assms(1)] opus_frame_sizes [OF assms(1)] assms(2)]
    unfolding opus_inv_max [OF assms(1)] by blast
  show ?thesis
    using assms c d by (auto simp: sequence_step_def opus_inv_reset)
qed

lemma opus_frames_safe:
  assumes "opus_inv l s" "2 * length out \<le> k" "stop + 3 \<le> length m"
  shows "\<exists>out' s'. opus_frames l m stop k p out s = Inr (out', s') \<and> opus_inv l s' \<and> 2 * length out' \<le> k"
  using assms(1,2)
proof (induction "stop - p" arbitrary: p out s rule: less_induct)
  case less
  show ?case
  proof (cases "stop \<le> p")
    case True
    then show ?thesis using less.prems by (subst opus_frames.simps) simp
  next
    case False
    obtain size where sz: "rd16 m p = Inr size"
      using rd16_safe [of p m] False assms(3) by auto
    show ?thesis
    proof (cases "size = 0xFFFF")
      case True
      then show ?thesis
        using less.prems False sz by (subst opus_frames.simps) (simp add: opus_inv_reset)
    next
      case ns: False
      define q where "q = (if m_PacketLossConcealment s then p + 4 else p + 2)"
      have q: "p < q" by (simp add: q_def)
      obtain cur where cur: "rd16 m (p + 2) = Inr cur"
        using rd16_safe [of "p + 2" m] False assms(3) by auto
      obtain out1 s1 where st: "read_sequence l m k (p + 2) out s = Inr (out1, s1)"
        "opus_inv l s1" "2 * length out1 \<le> k"
        using sequence_step_safe [OF less.prems, of cur] cur less.prems
        by (cases "m_PacketLossConcealment s") (auto simp: read_sequence_def)
      note unfolded = opus_frames.simps [of l m stop k p out s]
      show ?thesis
      proof (cases "stop < q + unat size \<or> k < 2 * length out1 + m_MaxframeSize s1")
        case True
        then show ?thesis
          unfolding unfolded using False sz ns st by (auto simp: q_def [symmetric])
      next
        case go: False
        have room: "2 * (length out1 + m_frameSize s1) \<le> k"
          using go opus_inv_max [OF st(2)] by simp
        have smaller: "stop - q' < stop - p" if "q \<le> q'" for q'
          using that q False by simp
        show ?thesis
        proof (cases "size = 0")
          case True
          have "2 * length (out1 @ replicate (m_MaxframeSize s1 div 2) 0) \<le> k"
            using room opus_inv_max [OF st(2)] by simp
          from less.hyps [OF smaller [OF order_refl] st(2) this] show ?thesis
            unfolding unfolded using False sz ns st go True by (simp add: q_def [symmetric])
        next
          case nz: False
          have bs: "rd_buf m q (unat size) = Inr (take (unat size) (drop q m))"
            by (rule rd_buf_safe) (use go assms(3) in simp)
          obtain d where d: "m_pDecoder s1 = Some d" using opus_inv_decoder [OF st(2)] by blast
          obtain out2 d2 where f: "decode_frame l (m_frameSize s1) k (Some (take (unat size) (drop q m))) out1 (Some d)
              = Inr (out2, Some d2)" "2 * length out2 \<le> k"
            using decode_frame_safe [OF opus_inv_lib [OF st(2)] opus_frame_sizes [OF st(2)] room] by blast
          from less.hyps [OF smaller [of "q + unat size"] opus_inv_updates(3) [OF st(2)] f(2)] show ?thesis
            unfolding unfolded using False sz ns st go nz bs d f(1) by (simp add: q_def [symmetric])
        qed
      qed
    qed
  qed
qed

lemma opus_decompress_safe:
  assumes "opus_inv l s" "p + len + 3 \<le> length m"
  shows "\<exists>out s'. opus_decompress l m p len k s = Inr (int (length out), out, s') \<and> opus_inv l s'
           \<and> 2 * length out \<le> k"
  using opus_frames_safe [OF assms(1), of "[]" k "p + len" m p] assms(2)
  by (auto simp: opus_decompress_def)

section \<open>The stream of frames\<close>

text \<open>
  What the memory holds after \<^verbatim>\<open>Compress\<close>, without the positions: the frames that libopus returned for
  the whole frames of the input, each behind its size and its sequence number.
\<close>

fun encode_frames ::
    "('e, 'd) opus_lib \<Rightarrow> nat \<Rightarrow> nat \<Rightarrow> int \<Rightarrow> sample list \<Rightarrow> 'e \<Rightarrow> octet list list \<times> 'e" where
  "encode_frames l fs 0 room xs e = ([], e)"
| "encode_frames l fs (Suc n) room xs e =
     (case opus_encode l e (take fs xs) (min (room - 4) 0x7FFF) of
        (nbytes, bs, e') \<Rightarrow>
          (case encode_frames l fs n (room - 4 - nbytes) (drop fs xs) e' of
             (frames, e'') \<Rightarrow> (bs # frames, e'')))"

fun frame_stream :: "16 word \<Rightarrow> octet list list \<Rightarrow> octet list" where
  "frame_stream seq [] = []"
| "frame_stream seq (f # frames) =
     le16 (of_nat (length f)) @ le16 seq @ f @ frame_stream (seq + 1) frames"

fun decode_frames ::
    "('e, 'd) opus_lib \<Rightarrow> nat \<Rightarrow> octet list list \<Rightarrow> sample list \<Rightarrow> 'd \<Rightarrow> sample list \<times> 'd" where
  "decode_frames l fs [] out d = (out, d)"
| "decode_frames l fs (f # frames) out d =
     (case opus_decode l d (Some f) fs of
        (n, xs, d') \<Rightarrow> decode_frames l fs frames (if n \<le> 0 then out else out @ xs) d')"

text \<open>One frame: the header is complete once the size has been stored.\<close>

lemma store_frame:
  assumes "p + 4 + length f \<le> length m"
  shows "\<exists>m1 m2 m3. wr_buf m (int p + 2) (le16 seq) = Inr m1 \<and> wr_buf m1 (int p + 4) f = Inr m2
    \<and> wr_buf m2 (int p) (le16 sz) = Inr m3 \<and> length m3 = length m
    \<and> take (p + 4 + length f) m3 = take p m @ le16 sz @ le16 seq @ f"
proof -
  define m1 where "m1 = take (p + 2) m @ le16 seq @ drop (p + 4) m"
  have w1: "wr_buf m (int p + 2) (le16 seq) = Inr m1"
    unfolding m1_def by (rule wr_buf_to) (use assms in simp_all)
  have l1: "length m1 = length m"
    using assms by (simp add: m1_def)
  have t1: "take (p + 4) m1 = take (p + 2) m @ le16 seq"
    unfolding m1_def using assms by simp
  define m2 where "m2 = take (p + 4) m1 @ f @ drop (p + 4 + length f) m1"
  have w2: "wr_buf m1 (int p + 4) f = Inr m2"
    unfolding m2_def by (rule wr_buf_to) (use assms l1 in simp_all)
  have l2: "length m2 = length m"
    using assms l1 by (simp add: m2_def)
  have t2: "take (p + 4 + length f) m2 = take (p + 2) m @ le16 seq @ f"
    unfolding m2_def t1 using assms l1 by simp
  define m3 where "m3 = take p m2 @ le16 sz @ drop (p + 2) m2"
  have w3: "wr_buf m2 (int p) (le16 sz) = Inr m3" and l3: "length m3 = length m"
    using assms l2 by (simp_all add: wr_buf_at m3_def)
  have a: "take p m2 = take p (take (p + 4 + length f) m2)" by simp
  have "take (p + 4 + length f) m3 = take p m2 @ le16 sz @ take (2 + length f) (drop (p + 2) m2)"
    unfolding m3_def using assms l2 by (simp add: add.commute)
  also have "take (2 + length f) (drop (p + 2) m2) = drop (p + 2) (take (p + 4 + length f) m2)"
    by (simp add: drop_take add.commute)
  also have "\<dots> = le16 seq @ f" unfolding t2 using assms by simp
  also have "take p m2 = take p m" unfolding a t2 using assms by simp
  finally show ?thesis using w1 w2 w3 l3 by blast
qed

lemma opus_chunks_stream:
  assumes "opus_inv l s" "m_PacketLossConcealment s" "m_pEncoder s = Some e"
    and "n * m_frameSize s \<le> length xs" "p + 1280 * n \<le> pmax" "pmax \<le> length m"
    and "encode_frames l (m_frameSize s) n (int pmax - int p) xs e = (frames, e')"
  shows "\<exists>m'. opus_chunks l (int pmax) n xs m (int p) s
      = Inr (m', int (p + length (frame_stream (m_nEncodeSeq s) frames)),
             s\<lparr>m_nEncodeSeq := m_nEncodeSeq s + of_nat n, m_pEncoder := Some e'\<rparr>)
    \<and> length m' = length m
    \<and> take (p + length (frame_stream (m_nEncodeSeq s) frames)) m' = take p m @ frame_stream (m_nEncodeSeq s) frames
    \<and> length (frame_stream (m_nEncodeSeq s) frames) \<le> 1280 * n
    \<and> length frames = n \<and> (\<forall>f \<in> set frames. 0 < length f \<and> length f \<le> 1276)"
  using assms
proof (induction n arbitrary: s e xs m p frames e')
  case 0
  have "s\<lparr>m_pEncoder := Some e\<rparr> = s" using "0.prems"(3) by (cases s) simp
  with 0 show ?case by simp
next
  case (Suc n)
  let ?fs = "m_frameSize s" and ?seq = "m_nEncodeSeq s"
  let ?room = "int pmax - int p"
  define r where "r = min (?room - 4) 0x7FFF"
  obtain nb bs e1 where enc: "opus_encode l e (take ?fs xs) r = (nb, bs, e1)"
    by (cases "opus_encode l e (take ?fs xs) r")
  obtain frames1 where rest: "encode_frames l ?fs n (?room - 4 - nb) (drop ?fs xs) e1 = (frames1, e')"
    and fr: "frames = bs # frames1"
    using Suc.prems(7) enc by (auto simp: r_def split: prod.splits)
  have len: "length (take ?fs xs) = ?fs" using Suc.prems(4) by simp
  have "0 < r" using Suc.prems(5) by (simp add: r_def)
  from opus_encode_law [OF opus_inv_lib [OF Suc.prems(1)] opus_frame_sizes [OF Suc.prems(1)] len this enc]
  have nb: "0 < nb" "nb \<le> 1276" "nb = int (length bs)" by simp_all
  then have bs: "0 < length bs" "length bs \<le> 1276" by linarith+
  have "p + 4 + length bs \<le> length m" using Suc.prems(5,6) bs by simp
  from store_frame [OF this, of ?seq "of_nat (length bs)"] obtain m1 m2 m3 where
    w: "wr_buf m (int p + 2) (le16 ?seq) = Inr m1" "wr_buf m1 (int p + 4) bs = Inr m2"
       "wr_buf m2 (int p) (le16 (of_nat (length bs))) = Inr m3" "length m3 = length m"
    and t3: "take (p + 4 + length bs) m3 = take p m @ le16 (of_nat (length bs)) @ le16 ?seq @ bs"
    by blast
  define p1 where "p1 = p + 4 + length bs"
  define s1 where "s1 = s\<lparr>m_nEncodeSeq := ?seq + 1, m_pEncoder := Some e1\<rparr>"
  have s1: "opus_inv l s1" "m_PacketLossConcealment s1" "m_pEncoder s1 = Some e1" "m_frameSize s1 = ?fs"
    "m_nEncodeSeq s1 = ?seq + 1"
    using Suc.prems(1,2) by (simp_all add: s1_def)
  have r1: "int pmax - int p1 = ?room - 4 - nb" by (simp add: p1_def nb(3))
  have pp: "int p + 4 + nb = int p1" by (simp add: p1_def nb(3))
  have "n * m_frameSize s1 \<le> length (drop ?fs xs)" "p1 + 1280 * n \<le> pmax" "pmax \<le> length m3"
    using Suc.prems(4-6) s1(4) w(4) bs by (simp_all add: p1_def)
  from Suc.IH [OF s1(1-3) this, of frames1 e'] rest r1 s1(4) obtain m' where
    ih: "opus_chunks l (int pmax) n (drop ?fs xs) m3 (int p1) s1
           = Inr (m', int (p1 + length (frame_stream (?seq + 1) frames1)),
                  s1\<lparr>m_nEncodeSeq := ?seq + 1 + of_nat n, m_pEncoder := Some e'\<rparr>)"
        "length m' = length m3"
        "take (p1 + length (frame_stream (?seq + 1) frames1)) m' = take p1 m3 @ frame_stream (?seq + 1) frames1"
        "length (frame_stream (?seq + 1) frames1) \<le> 1280 * n"
        "length frames1 = n" "\<forall>f \<in> set frames1. 0 < length f \<and> length f \<le> 1276"
    by (auto simp: s1(5))
  have half: "m_MaxframeSize s div 2 = ?fs" using opus_inv_max [OF Suc.prems(1)] by simp
  have upd: "s1\<lparr>m_nEncodeSeq := ?seq + 1 + of_nat n, m_pEncoder := Some e'\<rparr>
           = s\<lparr>m_nEncodeSeq := ?seq + of_nat (Suc n), m_pEncoder := Some e'\<rparr>"
    by (simp add: s1_def algebra_simps)
  have r': "min (int pmax - (int p + 4)) 0x7FFF = r"
    by (simp add: r_def algebra_simps)
  have sz: "word_of_int nb = (of_nat (length bs) :: 16 word)" by (simp add: nb(3))
  have step: "opus_chunks l (int pmax) (Suc n) xs m (int p) s
      = opus_chunks l (int pmax) n (drop ?fs xs) m3 (int p1) s1"
    using Suc.prems(2,3) w enc by (simp add: r' half pp sz Let_def s1_def)
  let ?rest = "frame_stream (?seq + 1) frames1"
  have len': "p + length (frame_stream ?seq frames) = p1 + length ?rest"
    by (simp add: fr p1_def)
  have "take (p1 + length ?rest) m' = take p m @ frame_stream ?seq frames"
    unfolding ih(3) by (simp add: fr p1_def t3)
  moreover have "length (frame_stream ?seq frames) \<le> 1280 * Suc n"
    using ih(4) bs by (simp add: fr)
  ultimately show ?case
    unfolding step ih(1) upd len' using ih(2,5,6) w(4) bs by (simp add: fr)
qed

definition opus_fits :: "('e, 'd) opus \<Rightarrow> nat \<Rightarrow> nat \<Rightarrow> bool" where
  "opus_fits s n k = (1280 * ((length (m_bufOverflowBytes s) + n) div m_frameSize s + 1) \<le> k)"

lemma opus_inv_plc: "opus_inv l s \<Longrightarrow> m_PacketLossConcealment s"
  by (simp add: opus_inv_def)

lemma opus_inv_frame: "opus_inv l s \<Longrightarrow> 0 < m_frameSize s"
  by (simp add: opus_inv_def)

lemma opus_inv_overflow:
  "opus_inv l s \<Longrightarrow> length q < m_frameSize s \<Longrightarrow> opus_inv l (s\<lparr>m_bufOverflowBytes := q\<rparr>)"
  by (simp add: opus_inv_def)

lemma opus_compress_chunks:
  assumes "opus_inv l s" "m_pEncoder s = Some e" "p + 1280 * (length ys div m_frameSize s) \<le> pmax"
    and "pmax \<le> length m"
    and "encode_frames l (m_frameSize s) (length ys div m_frameSize s) (int pmax - int p) ys e = (frames, e')"
  shows "\<exists>m'. opus_chunks l (int pmax) (length ys div m_frameSize s) ys m (int p) s
      = Inr (m', int (p + length (frame_stream (m_nEncodeSeq s) frames)),
             s\<lparr>m_nEncodeSeq := m_nEncodeSeq s + of_nat (length ys div m_frameSize s), m_pEncoder := Some e'\<rparr>)
    \<and> length m' = length m
    \<and> take (p + length (frame_stream (m_nEncodeSeq s) frames)) m' = take p m @ frame_stream (m_nEncodeSeq s) frames
    \<and> length (frame_stream (m_nEncodeSeq s) frames) \<le> 1280 * (length ys div m_frameSize s)
    \<and> length frames = length ys div m_frameSize s \<and> (\<forall>f \<in> set frames. 0 < length f \<and> length f \<le> 1276)"
  by (rule opus_chunks_stream [OF assms(1) opus_inv_plc [OF assms(1)] assms(2) _ assms(3-5)])
    (simp add: div_times_less_eq_dividend)

lemma opus_finish_safe:
  assumes "opus_inv l s" "q \<le> pmax" "pmax \<le> length m" "p \<le> q"
  shows "\<exists>n m' s'. opus_finish l (int pmax) m (int q) s = Inr (m', int n, s') \<and> p \<le> n \<and> n \<le> pmax
    \<and> length m' = length m \<and> take p m' = take p m \<and> opus_inv l s'"
proof (cases "int pmax > int q + 2")
  case True
  have "wr_buf m (int q) (le16 0xFFFF) = Inr (take q m @ le16 0xFFFF @ drop (q + 2) m)"
    by (rule wr_buf_to) (use assms True in simp_all)
  then have "opus_finish l (int pmax) m (int q) s
      = Inr (take q m @ le16 0xFFFF @ drop (q + 2) m, int (q + 2), (opus_reset l s)\<lparr>m_nEncodeSeq := 0\<rparr>)"
    using True by (simp add: opus_finish_def Let_def)
  then show ?thesis using assms True opus_inv_reset [OF assms(1)] by (intro exI [of _ "q + 2"] exI) auto
next
  case False
  then show ?thesis using assms opus_inv_reset [OF assms(1)] by (auto simp: opus_finish_def Let_def)
qed

lemma opus_compress_safe:
  assumes "opus_inv l s" "opus_fits s (length xs) k" "p + k \<le> length m"
  shows "\<exists>n m' s'. opus_compress l xs m p k fin s = Inr (int n, m', s') \<and> n \<le> k \<and> length m' = length m
     \<and> take p m' = take p m \<and> opus_inv l s'"
proof (cases "length xs + length (m_bufOverflowBytes s) < m_frameSize s \<and> \<not> fin")
  case True
  then have "opus_inv l (s\<lparr>m_bufOverflowBytes := m_bufOverflowBytes s @ xs\<rparr>)"
    by (intro opus_inv_overflow assms) simp
  with True show ?thesis by (auto simp: opus_compress_def Let_def)
next
  case False
  let ?fs = "m_frameSize s" and ?q = "m_bufOverflowBytes s"
  define r0 where "r0 = length xs mod ?fs"
  define ys where "ys = (if ?q \<noteq> [] \<or> r0 \<noteq> 0 \<and> fin
    then ?q @ xs @ (if fin \<and> r0 \<noteq> 0 then replicate (?fs - r0) 0 else []) else xs)"
  define fl where "fl = length ys div ?fs"
  have fs: "0 < ?fs" by (rule opus_inv_frame [OF assms(1)])
  have "length ys \<le> length ?q + length xs + ?fs" by (auto simp: ys_def)
  then have "fl \<le> (length ?q + length xs + ?fs) div ?fs"
    unfolding fl_def by (rule div_le_mono)
  also have "\<dots> = (length ?q + length xs) div ?fs + 1" using fs by simp
  finally have "1280 * fl \<le> k" using assms(2) by (simp add: opus_fits_def)
  then have room: "p + 1280 * (length ys div ?fs) \<le> p + k" by (simp add: fl_def)
  obtain e where e: "m_pEncoder s = Some e" using opus_inv_encoder [OF assms(1)] by blast
  obtain frames e' where fr: "encode_frames l ?fs (length ys div ?fs) (int (p + k) - int p) ys e = (frames, e')"
    by (cases "encode_frames l ?fs (length ys div ?fs) (int (p + k) - int p) ys e")
  let ?st = "frame_stream (m_nEncodeSeq s) frames"
  from opus_compress_chunks [OF assms(1) e room assms(3) fr] obtain m1 where
    c: "opus_chunks l (int (p + k)) (length ys div ?fs) ys m (int p) s
        = Inr (m1, int (p + length ?st),
               s\<lparr>m_nEncodeSeq := m_nEncodeSeq s + of_nat (length ys div ?fs), m_pEncoder := Some e'\<rparr>)"
    "length m1 = length m" "take (p + length ?st) m1 = take p m @ ?st"
    "length ?st \<le> 1280 * (length ys div ?fs)"
    by blast
  define s2 where "s2 = s\<lparr>m_nEncodeSeq := m_nEncodeSeq s + of_nat (length ys div ?fs), m_pEncoder := Some e',
     m_bufOverflowBytes := drop (length ys - length ys mod ?fs) ys\<rparr>"
  have s2: "opus_inv l s2"
    unfolding s2_def using assms(1) fs by (intro opus_inv_overflow) simp_all
  have t1: "take p m1 = take p m"
    using take_of_longer [OF c(3), of p] assms(3) by simp
  have q: "p + length ?st \<le> p + k" using c(4) room by linarith
  have main: "opus_compress l xs m p k fin s =
      bind_r (if fin then opus_finish l (int (p + k)) m1 (int (p + length ?st)) s2 else Inr (m1, int (p + length ?st), s2))
        (\<lambda>(m3, p3, s3). Inr (p3 - int p, m3, s3))"
    unfolding opus_compress_def Let_def using False fs
    by (simp only: r0_def [symmetric] ys_def [symmetric] c(1) s2_def if_False bind_r_Inr case_prod_conv) simp
  show ?thesis
  proof (cases fin)
    case False
    then show ?thesis unfolding main using t1 c(2) s2 q by auto
  next
    case True
    from opus_finish_safe [OF s2 q, of m1 p] c(2) assms(3) obtain n m' s' where
      f: "opus_finish l (int (p + k)) m1 (int (p + length ?st)) s2 = Inr (m', int n, s')"
      "p \<le> n" "n \<le> p + k" "length m' = length m1" "take p m' = take p m1" "opus_inv l s'"
      by auto
    have "int n - int p = int (n - p)" using f(2) by simp
    then show ?thesis unfolding main using True f t1 c(2) by (intro exI [of _ "n - p"] exI) auto
  qed
qed

interpretation opus_codec: voice_codec "opus_inv l" "\<lambda>_. True" 3 opus_fits "opus_compress l" "opus_decompress l"
  for l :: "('e, 'd) opus_lib"
  by unfold_locales (auto intro: opus_decompress_safe opus_compress_safe)

section \<open>Round trip\<close>

lemma opus_seq_update:
  "m_pDecoder s = Some d \<Longrightarrow> s\<lparr>m_nDecodeSeq := m_nDecodeSeq s, m_pDecoder := Some d\<rparr> = s"
  by (cases s) simp


lemma frame_size_word:
  assumes "0 < n" "n \<le> 1276"
  shows "unat (of_nat n :: 16 word) = n" "(of_nat n :: 16 word) \<noteq> 0" "(of_nat n :: 16 word) \<noteq> 0xFFFF"
proof -
  show n: "unat (of_nat n :: 16 word) = n"
    using assms by (simp add: unat_of_nat)
  show "(of_nat n :: 16 word) \<noteq> 0"
    using n assms(1) by (metis less_irrefl unsigned_0)
  show "(of_nat n :: 16 word) \<noteq> 0xFFFF"
  proof
    assume "(of_nat n :: 16 word) = 0xFFFF"
    then have "unat (of_nat n :: 16 word) = 65535" by simp
    with n assms(2) show False by simp
  qed
qed

lemma opus_frames_stream:
  assumes "opus_inv l s" "m_pDecoder s = Some d" "holds m p (frame_stream (m_nDecodeSeq s) frames)"
    and "\<forall>f \<in> set frames. 0 < length f \<and> length f \<le> 1276"
    and "2 * (length out + length frames * m_frameSize s) \<le> k"
    and "decode_frames l (m_frameSize s) frames out d = (out', d')"
  shows "opus_frames l m (p + length (frame_stream (m_nDecodeSeq s) frames)) k p out s
      = Inr (out', s\<lparr>m_nDecodeSeq := m_nDecodeSeq s + of_nat (length frames), m_pDecoder := Some d'\<rparr>)"
  using assms
proof (induction frames arbitrary: p out s d)
  case Nil
  then show ?case by (subst opus_frames.simps) (simp add: opus_seq_update)
next
  case (Cons f frames)
  let ?seq = "m_nDecodeSeq s" and ?fs = "m_frameSize s"
  let ?rest = "frame_stream (?seq + 1) frames"
  let ?stop = "p + length (frame_stream ?seq (f # frames))"
  have f: "0 < length f" "length f \<le> 1276" using Cons.prems(4) by simp_all
  note size = frame_size_word [OF f]
  have h: "holds m p (le16 (of_nat (length f)) @ le16 ?seq @ f @ ?rest)" using Cons.prems(3) by simp
  have h2: "holds m (p + 2) (le16 ?seq @ f @ ?rest)" by (rule holds_next [OF h]) simp
  have h4: "holds m (p + 4) (f @ ?rest)" by (rule holds_next [OF h2]) simp
  have hr: "holds m (p + 4 + length f) ?rest" by (rule holds_next [OF h4]) simp
  have r1: "rd16 m p = Inr (of_nat (length f))"
    by (rule rd16_le16) (use holds_take [OF h] in simp)
  have r2: "rd16 m (p + 2) = Inr ?seq"
    by (rule rd16_le16) (use holds_take [OF h2] in simp)
  have len4: "p + 4 + length f \<le> length m" using h4 by (simp add: holds_append holds_def)
  have r3: "rd_buf m (p + 4) (length f) = Inr f"
    using rd_buf_safe [OF len4] holds_take [OF h4] by simp
  obtain n xs d1 where dec: "opus_decode l d (Some f) ?fs = (n, xs, d1)"
    by (cases "opus_decode l d (Some f) ?fs")
  define out1 where "out1 = (if n \<le> 0 then out else out @ xs)"
  define s1 where "s1 = s\<lparr>m_nDecodeSeq := ?seq + 1, m_pDecoder := Some d1\<rparr>"
  have s1: "opus_inv l s1" "m_pDecoder s1 = Some d1" "m_nDecodeSeq s1 = ?seq + 1" "m_frameSize s1 = ?fs"
    using Cons.prems(1) by (simp_all add: s1_def)
  have room: "2 * (length out + ?fs) \<le> k" using Cons.prems(5) by simp
  have df: "decode_frame l ?fs k (Some f) out (Some d) = Inr (out1, Some d1)"
    using room opus_inv_frame [OF Cons.prems(1)] dec by (simp add: decode_frame_def out1_def)
  have "length out1 \<le> length out + ?fs"
    using opus_decode_law [OF opus_inv_lib [OF Cons.prems(1)] opus_frame_sizes [OF Cons.prems(1)] dec]
    by (auto simp: out1_def)
  then have k1: "2 * (length out1 + length frames * m_frameSize s1) \<le> k"
    using Cons.prems(5) by (simp add: s1(4) algebra_simps)
  have d1: "decode_frames l (m_frameSize s1) frames out1 d1 = (out', d')"
    using Cons.prems(6) dec by (simp add: s1(4) out1_def)
  have stop: "p + 4 + length f + length ?rest = ?stop" by simp
  have ih: "opus_frames l m ?stop k (p + 4 + length f) out1 s1
      = Inr (out', s1\<lparr>m_nDecodeSeq := ?seq + 1 + of_nat (length frames), m_pDecoder := Some d'\<rparr>)"
    using Cons.IH [OF s1(1,2), of "p + 4 + length f" out1] hr Cons.prems(4) k1 d1
    unfolding s1(3) stop by simp
  have rs: "read_sequence l m k (p + 2) out s = Inr (out, s\<lparr>m_nDecodeSeq := ?seq + 1\<rparr>)"
    using r2 opus_inv_plc [OF Cons.prems(1)] by (simp add: read_sequence_def sequence_step_def)
  have "opus_frames l m ?stop k p out s = opus_frames l m ?stop k (p + 4 + length f) out1 s1"
    unfolding opus_frames.simps [of l m ?stop k p out s]
    using r1 size rs r3 df opus_inv_plc [OF Cons.prems(1)] room opus_inv_max [OF Cons.prems(1)] Cons.prems(2)
    by (simp add: s1_def)
  then show ?case
    unfolding ih by (simp add: s1_def add.assoc)
qed

lemma opus_compress_stream:
  assumes "opus_inv l s" "m_pEncoder s = Some e" "ys = m_bufOverflowBytes s @ xs" "m_frameSize s \<le> length ys"
    and "opus_fits s (length xs) k" "p + k \<le> length m"
    and "encode_frames l (m_frameSize s) (length ys div m_frameSize s) (int k) ys e = (frames, e')"
  shows "\<exists>m'. opus_compress l xs m p k False s
      = Inr (int (length (frame_stream (m_nEncodeSeq s) frames)), m',
             s\<lparr>m_nEncodeSeq := m_nEncodeSeq s + of_nat (length frames), m_pEncoder := Some e',
               m_bufOverflowBytes := drop (length ys - length ys mod m_frameSize s) ys\<rparr>)
    \<and> length m' = length m \<and> take p m' = take p m \<and> holds m' p (frame_stream (m_nEncodeSeq s) frames)
    \<and> p + length (frame_stream (m_nEncodeSeq s) frames) \<le> p + k
    \<and> length frames = length ys div m_frameSize s \<and> (\<forall>f \<in> set frames. 0 < length f \<and> length f \<le> 1276)"
proof -
  let ?fs = "m_frameSize s"
  let ?st = "frame_stream (m_nEncodeSeq s) frames"
  have fs: "0 < ?fs" by (rule opus_inv_frame [OF assms(1)])
  have room: "1280 * (length ys div ?fs) \<le> k"
    using assms(3,5) by (simp add: opus_fits_def)
  then have "p + 1280 * (length ys div ?fs) \<le> p + k" by simp
  from opus_compress_chunks [OF assms(1,2) this assms(6), of frames e'] assms(7) obtain m' where
    c: "opus_chunks l (int (p + k)) (length ys div ?fs) ys m (int p) s
        = Inr (m', int (p + length ?st),
               s\<lparr>m_nEncodeSeq := m_nEncodeSeq s + of_nat (length ys div ?fs), m_pEncoder := Some e'\<rparr>)"
    "length m' = length m" "take (p + length ?st) m' = take p m @ ?st"
    "length ?st \<le> 1280 * (length ys div ?fs)"
    and fr: "length frames = length ys div ?fs" "\<forall>f \<in> set frames. 0 < length f \<and> length f \<le> 1276"
    by auto
  have q: "p + length ?st \<le> p + k" using c(4) room by linarith
  have nz: "?fs \<noteq> 0" using fs by simp
  have long: "\<not> (length xs + length (m_bufOverflowBytes s) < ?fs \<and> \<not> False)"
    using assms(3,4) by simp
  have ys: "(if m_bufOverflowBytes s \<noteq> [] \<or> length xs mod ?fs \<noteq> 0 \<and> False
      then m_bufOverflowBytes s @ xs @ (if False \<and> length xs mod ?fs \<noteq> 0 then replicate (?fs - length xs mod ?fs) 0 else [])
      else xs) = ys"
    using assms(3) by simp
  have "opus_compress l xs m p k False s
      = Inr (int (length ?st), m',
             s\<lparr>m_nEncodeSeq := m_nEncodeSeq s + of_nat (length frames), m_pEncoder := Some e',
               m_bufOverflowBytes := drop (length ys - length ys mod ?fs) ys\<rparr>)"
    unfolding opus_compress_def Let_def ys using long nz
    by (simp add: c(1) [unfolded of_nat_add] fr)
  moreover have t: "take p m' = take p m"
    using take_of_longer [OF c(3), of p] assms(6) by simp
  then have "holds m' p ?st"
    using c(2,3) q assms(6) by (intro holds_of_take) simp_all
  ultimately show ?thesis using c(2) fr q t by blast
qed

lemma opus_round_trip_lemma:
  assumes "opus_inv l s" "opus_inv l r" "m_frameSize r = m_frameSize s" "m_nDecodeSeq r = m_nEncodeSeq s"
    and "m_pEncoder s = Some e" "m_pDecoder r = Some d"
    and "m_frameSize s \<le> length (m_bufOverflowBytes s @ xs)"
    and "opus_fits s (length xs) k" "p + k \<le> length m"
    and "2 * length (m_bufOverflowBytes s @ xs) \<le> room"
    and "encode_frames l (m_frameSize s) (length (m_bufOverflowBytes s @ xs) div m_frameSize s) (int k)
           (m_bufOverflowBytes s @ xs) e = (frames, e')"
    and "decode_frames l (m_frameSize s) frames [] d = (out, d')"
  shows "\<exists>n m' s' r'. opus_compress l xs m p k False s = Inr (int n, m', s')
    \<and> opus_decompress l m' p n room r = Inr (int (length out), out, r')
    \<and> m_pEncoder s' = Some e' \<and> m_pDecoder r' = Some d' \<and> m_nDecodeSeq r' = m_nEncodeSeq s'
    \<and> m_bufOverflowBytes s' = drop (length (m_bufOverflowBytes s @ xs)
        - length (m_bufOverflowBytes s @ xs) mod m_frameSize s) (m_bufOverflowBytes s @ xs)"
proof -
  let ?ys = "m_bufOverflowBytes s @ xs"
  let ?st = "frame_stream (m_nEncodeSeq s) frames"
  obtain m' where c: "opus_compress l xs m p k False s
      = Inr (int (length ?st), m',
             s\<lparr>m_nEncodeSeq := m_nEncodeSeq s + of_nat (length frames), m_pEncoder := Some e',
               m_bufOverflowBytes := drop (length ?ys - length ?ys mod m_frameSize s) ?ys\<rparr>)"
    "length m' = length m" "holds m' p ?st"
    "length frames = length ?ys div m_frameSize s" "\<forall>f \<in> set frames. 0 < length f \<and> length f \<le> 1276"
    using opus_compress_stream [OF assms(1,5) refl assms(7-9) assms(11)] by blast
  have "length frames * m_frameSize s \<le> length ?ys"
    unfolding c(4) by (rule div_times_less_eq_dividend)
  then have k: "2 * (length ([] :: sample list) + length frames * m_frameSize r) \<le> room"
    using assms(3,10) by simp
  have d: "opus_frames l m' (p + length ?st) room p [] r
      = Inr (out, r\<lparr>m_nDecodeSeq := m_nDecodeSeq r + of_nat (length frames), m_pDecoder := Some d'\<rparr>)"
    using opus_frames_stream [OF assms(2,6) _ c(5) k, of m' p out d'] c(3) assms(12)
    unfolding assms(3,4) by blast
  show ?thesis
    by (rule exI [of _ "length ?st"]) (use c(1) d in \<open>simp add: opus_decompress_def assms(4)\<close>)
qed

end
