(* ===== verification/Voice_Steam.thy ===== *)
theory Voice_Steam
  imports Voice_Opus
begin

text \<open>
  \<^verbatim>\<open>CSteamP2PCodec\<close> (\<^verbatim>\<open>SteamP2PCodec.cpp\<close>): the envelope of a Steam voice packet, a stream of opcodes
  between the sender's id and a checksum, around a codec of the interface \<open>voice_codec\<close>.  The
  checksum is the engine's \<^verbatim>\<open>CRC32\<close>, a parameter.
\<close>

section \<open>The codec behind the envelope\<close>

record 's backend =
  b_Compress :: "sample list \<Rightarrow> octet list \<Rightarrow> nat \<Rightarrow> nat \<Rightarrow> bool \<Rightarrow> 's \<Rightarrow> voice_error + int \<times> octet list \<times> 's"
  b_Decompress :: "octet list \<Rightarrow> nat \<Rightarrow> nat \<Rightarrow> nat \<Rightarrow> 's \<Rightarrow> voice_error + int \<times> sample list \<times> 's"
  b_SetSampleRate :: "nat \<Rightarrow> 's \<Rightarrow> 's"
  b_SampleRate :: "'s \<Rightarrow> nat"
  b_CodecType :: octet

record 's steam =
  m_Steamid :: "64 word"
  m_BackendCodec :: 's

definition plt_Silk :: octet where "plt_Silk = 4"
definition plt_OPUS :: octet where "plt_OPUS = 5"
definition plt_OPUS_PLC :: octet where "plt_OPUS_PLC = 6"
definition plt_SamplingRate :: octet where "plt_SamplingRate = 11"

lemmas plt_defs = plt_Silk_def plt_OPUS_def plt_OPUS_PLC_def plt_SamplingRate_def

definition opus_backend :: "('e, 'd) opus_lib \<Rightarrow> ('e, 'd) opus backend" where
  "opus_backend l = \<lparr>b_Compress = opus_compress l, b_Decompress = opus_decompress l,
     b_SetSampleRate = opus_set_sample_rate l, b_SampleRate = m_samplerate, b_CodecType = plt_OPUS_PLC\<rparr>"

section \<open>The stream\<close>

function stream_decode ::
    "'s backend \<Rightarrow> octet list \<Rightarrow> nat \<Rightarrow> nat \<Rightarrow> nat \<Rightarrow> 's \<Rightarrow> voice_error + int \<times> sample list \<times> 's" where
  "stream_decode b m stop k p s =
     (if stop \<le> p then Inr (0, [], s)
      else bind_r (rd8 m p) (\<lambda>opcode.
        if opcode = plt_SamplingRate then
          (if stop < p + 3 then Inr (0, [], s)
           else bind_r (rd16 m (p + 1)) (\<lambda>rate.
             stream_decode b m stop k (p + 3) (b_SetSampleRate b (unat rate) s)))
        else if opcode = plt_Silk \<or> opcode = plt_OPUS \<or> opcode = plt_OPUS_PLC then
          (if stop < p + 3 then Inr (0, [], s)
           else bind_r (rd16 m (p + 1)) (\<lambda>len.
             if stop < p + 3 + unat len then Inr (0, [], s)
             else b_Decompress b m (p + 3) (unat len) k s))
        else Inr (0, [], s)))"
  by pat_completeness auto

termination
  by (relation "measure (\<lambda>(b, m, stop, k, p, s). stop - p)") auto

declare stream_decode.simps [simp del]

definition stream_encode ::
    "'s backend \<Rightarrow> sample list \<Rightarrow> octet list \<Rightarrow> nat \<Rightarrow> nat \<Rightarrow> bool \<Rightarrow> 's
     \<Rightarrow> voice_error + int \<times> octet list \<times> 's" where
  "stream_encode b xs m p k fin s =
     (if k < 10 then Inr (0, m, s)
      else
        bind_r (wr_buf m (int p) [plt_SamplingRate]) (\<lambda>m1.
        bind_r (wr_buf m1 (int (p + 1)) (le16 (of_nat (b_SampleRate b s)))) (\<lambda>m2.
        bind_r (wr_buf m2 (int (p + 3)) [b_CodecType b]) (\<lambda>m3.
        bind_r (b_Compress b xs m3 (p + 6) (k - 6) fin s) (\<lambda>(res, m4, s').
          if res = 0 then Inr (0, m4, s')
          else bind_r (wr_buf m4 (int (p + 4)) (le16 (word_of_int res))) (\<lambda>m5.
            Inr (6 + res, m5, s')))))))"

definition steam_decompress ::
    "(octet list \<Rightarrow> 32 word) \<Rightarrow> 's backend \<Rightarrow> octet list \<Rightarrow> nat \<Rightarrow> nat \<Rightarrow> nat \<Rightarrow> 's steam
     \<Rightarrow> voice_error + int \<times> sample list \<times> 's steam" where
  "steam_decompress crc b m p n k st =
     (if n < 12 then Inr (0, [], st)
      else
        bind_r (rd_buf m p (n - 4)) (\<lambda>body.
        bind_r (rd32 m (p + n - 4)) (\<lambda>wire.
          if crc body \<noteq> wire then Inr (0, [], st)
          else bind_r (stream_decode b m (p + n - 4) k (p + 8) (m_BackendCodec st)) (\<lambda>(r, out, s').
            Inr (r, out, st\<lparr>m_BackendCodec := s'\<rparr>)))))"

definition steam_compress ::
    "(octet list \<Rightarrow> 32 word) \<Rightarrow> 's backend \<Rightarrow> sample list \<Rightarrow> octet list \<Rightarrow> nat \<Rightarrow> nat \<Rightarrow> bool \<Rightarrow> 's steam
     \<Rightarrow> voice_error + int \<times> octet list \<times> 's steam" where
  "steam_compress crc b xs m p k fin st =
     (if k < 12 then Inr (0, m, st)
      else
        bind_r (wr_buf m (int p) (le64 (m_Steamid st))) (\<lambda>m1.
        bind_r (stream_encode b xs m1 (p + 8) (k - 12) fin (m_BackendCodec st)) (\<lambda>(res, m2, s').
          if res \<le> 0 then Inr (0, m2, st\<lparr>m_BackendCodec := s'\<rparr>)
          else
            bind_r (rd_buf m2 p (8 + nat res)) (\<lambda>body.
            bind_r (wr_buf m2 (int (p + 8) + res) (le32 (crc body))) (\<lambda>m3.
              Inr (12 + res, m3, st\<lparr>m_BackendCodec := s'\<rparr>))))))"

section \<open>A backend\<close>

text \<open>
  The envelope needs more of the codec behind it: it switches the sampling rate when the stream says
  so.  The checksum behind the stream gives the codec the four bytes of slack it may read.
\<close>

locale voice_backend =
  voice_codec inv "\<lambda>_. True" slack fits "b_Compress b" "b_Decompress b"
  for inv :: "'s \<Rightarrow> bool" and slack :: nat and fits :: "'s \<Rightarrow> nat \<Rightarrow> nat \<Rightarrow> bool" and b :: "'s backend" +
  fixes good_rate :: "nat \<Rightarrow> bool"
  assumes slack_le: "slack \<le> 4"
    and inv_rate: "inv s \<Longrightarrow> good_rate r \<Longrightarrow> inv (b_SetSampleRate b r s)"

text \<open>The sampling rates a stream switches to.\<close>

fun stream_rates :: "octet list \<Rightarrow> nat list" where
  "stream_rates (op # x # y # bs) =
     (if op = plt_SamplingRate
      then unat (ucast x OR push_bit 8 (ucast y) :: 16 word) # stream_rates bs else [])"
| "stream_rates _ = []"

definition steam_body :: "octet list \<Rightarrow> octet list" where
  "steam_body packet = drop 8 (take (length packet - 4) packet)"

definition steam_benign :: "(nat \<Rightarrow> bool) \<Rightarrow> octet list \<Rightarrow> bool" where
  "steam_benign good packet = (\<forall>r \<in> set (stream_rates (steam_body packet)). good r)"

definition steam_fits :: "('s \<Rightarrow> nat \<Rightarrow> nat \<Rightarrow> bool) \<Rightarrow> 's steam \<Rightarrow> nat \<Rightarrow> nat \<Rightarrow> bool" where
  "steam_fits fits st n k = (k < 22 \<or> fits (m_BackendCodec st) n (k - 18))"

lemma stream_rates_step:
  assumes "p + 3 \<le> stop" "stop \<le> length m" "m ! p = plt_SamplingRate"
  shows "stream_rates (drop p (take stop m))
       = unat (ucast (m ! (p + 1)) OR push_bit 8 (ucast (m ! (p + 2))) :: 16 word)
         # stream_rates (drop (p + 3) (take stop m))"
proof -
  have "drop p (take stop m) = m ! p # m ! (p + 1) # m ! (p + 2) # drop (p + 3) (take stop m)"
    using assms(1,2) by (simp add: Cons_nth_drop_Suc [symmetric] numeral_3_eq_3)
  with assms(3) show ?thesis by simp
qed

context voice_backend
begin

lemma stream_decode_safe:
  assumes "inv s" "stop + 4 \<le> length m" "\<forall>r \<in> set (stream_rates (drop p (take stop m))). good_rate r"
  shows "\<exists>out s'. stream_decode b m stop k p s = Inr (int (length out), out, s') \<and> inv s' \<and> 2 * length out \<le> k"
  using assms
proof (induction "stop - p" arbitrary: p s rule: less_induct)
  case less
  have unfolded: "stream_decode b m stop k p s =
     (if stop \<le> p then Inr (0, [], s)
      else bind_r (rd8 m p) (\<lambda>opcode.
        if opcode = plt_SamplingRate then
          (if stop < p + 3 then Inr (0, [], s)
           else bind_r (rd16 m (p + 1)) (\<lambda>rate.
             stream_decode b m stop k (p + 3) (b_SetSampleRate b (unat rate) s)))
        else if opcode = plt_Silk \<or> opcode = plt_OPUS \<or> opcode = plt_OPUS_PLC then
          (if stop < p + 3 then Inr (0, [], s)
           else bind_r (rd16 m (p + 1)) (\<lambda>len.
             if stop < p + 3 + unat len then Inr (0, [], s)
             else b_Decompress b m (p + 3) (unat len) k s))
        else Inr (0, [], s)))"
    by (rule stream_decode.simps)
  show ?case
  proof (cases "stop \<le> p \<or> stop < p + 3")
    case True
    then show ?thesis unfolding unfolded using less.prems by (auto simp: rd8_safe)
  next
    case False
    then have p3: "p + 3 \<le> stop" and ple: "\<not> stop \<le> p" "\<not> stop < p + 3" by simp_all
    have r8: "rd8 m p = Inr (m ! p)" using p3 less.prems(2) by (simp add: rd8_safe)
    define w where "w = (ucast (m ! (p + 1)) OR push_bit 8 (ucast (m ! (p + 2))) :: 16 word)"
    have r16: "rd16 m (p + 1) = Inr w" using p3 less.prems(2) by (simp add: rd16_def rd8_def w_def)
    consider (rate) "m ! p = plt_SamplingRate"
      | (voice) "m ! p \<noteq> plt_SamplingRate" "m ! p = plt_Silk \<or> m ! p = plt_OPUS \<or> m ! p = plt_OPUS_PLC"
          "p + 3 + unat w \<le> stop"
      | (other) "m ! p \<noteq> plt_SamplingRate"
          "\<not> (m ! p = plt_Silk \<or> m ! p = plt_OPUS \<or> m ! p = plt_OPUS_PLC) \<or> stop < p + 3 + unat w"
      by fastforce
    then show ?thesis
    proof cases
      case rate
      have le: "stop \<le> length m" using less.prems(2) by simp
      have rates: "good_rate (unat w)" "\<forall>r \<in> set (stream_rates (drop (p + 3) (take stop m))). good_rate r"
        using less.prems(3) unfolding stream_rates_step [OF p3 le rate] w_def by simp_all
      have "stop - (p + 3) < stop - p" using p3 by simp
      from less.hyps [OF this inv_rate [OF less.prems(1) rates(1)] less.prems(2) rates(2)] show ?thesis
        unfolding unfolded using ple rate r8 r16 by simp
    next
      case voice
      have "p + 3 + unat w + slack \<le> length m" using voice(3) slack_le less.prems(2) by linarith
      from decompress_safe [OF less.prems(1) this, of k] show ?thesis
        unfolding unfolded using ple r8 r16 voice by auto
    next
      case other
      then show ?thesis unfolding unfolded using ple r8 r16 less.prems(1) by auto
    qed
  qed
qed

lemma steam_decompress_safe:
  assumes "inv (m_BackendCodec st)" "p + n \<le> length m" "steam_benign good_rate (take n (drop p m))"
  shows "\<exists>out st'. steam_decompress crc b m p n k st = Inr (int (length out), out, st')
     \<and> inv (m_BackendCodec st') \<and> 2 * length out \<le> k"
proof (cases "n < 12")
  case True
  then show ?thesis using assms by (auto simp: steam_decompress_def)
next
  case False
  have r: "rd_buf m p (n - 4) = Inr (take (n - 4) (drop p m))"
    by (rule rd_buf_safe) (use assms in simp)
  obtain wire where w: "rd32 m (p + n - 4) = Inr wire"
    using rd32_safe [of "p + n - 4" m] False assms(2) by auto
  have "steam_body (take n (drop p m)) = drop (p + 8) (take (p + n - 4) m)"
  proof -
    have "length (take n (drop p m)) = n" using assms(2) by simp
    then have "steam_body (take n (drop p m)) = drop 8 (take (n - 4) (drop p m))"
      by (simp add: steam_body_def min_def)
    also have "\<dots> = drop 8 (drop p (take (p + n - 4) m))"
    proof -
      have "n - 4 + p = p + n - 4" using False by simp
      then show ?thesis by (simp only: take_drop)
    qed
    also have "\<dots> = drop (8 + p) (take (p + n - 4) m)" by (rule drop_drop)
    finally show ?thesis by (simp only: add.commute [of 8 p])
  qed
  then have "\<forall>r \<in> set (stream_rates (drop (p + 8) (take (p + n - 4) m))). good_rate r"
    using assms(3) by (simp add: steam_benign_def)
  from stream_decode_safe [OF assms(1) _ this, of k] False assms(2) obtain out s' where
    "stream_decode b m (p + n - 4) k (p + 8) (m_BackendCodec st) = Inr (int (length out), out, s')"
    "inv s'" "2 * length out \<le> k"
    by auto
  with r w False assms show ?thesis
    by (cases "crc (take (n - 4) (drop p m)) = wire") (auto simp: steam_decompress_def)
qed

lemma stream_encode_safe:
  assumes "inv s" "k < 10 \<or> fits s (length xs) (k - 6)" "p + k \<le> length m"
  shows "\<exists>r m' s'. stream_encode b xs m p k fin s = Inr (int r, m', s') \<and> r \<le> k \<and> length m' = length m
     \<and> take p m' = take p m \<and> inv s'"
proof (cases "k < 10")
  case True
  then show ?thesis using assms by (auto simp: stream_encode_def)
next
  case False
  define m1 where "m1 = take p m @ [plt_SamplingRate] @ drop (p + 1) m"
  have w1: "wr_buf m (int p) [plt_SamplingRate] = Inr m1" and l1: "length m1 = length m"
    using wr_buf_to [OF refl, of "p + 1" p "[plt_SamplingRate]" m] False assms(3) by (simp_all add: m1_def)
  define m2 where "m2 = take (p + 1) m1 @ le16 (of_nat (b_SampleRate b s)) @ drop (p + 3) m1"
  have w2: "wr_buf m1 (int (p + 1)) (le16 (of_nat (b_SampleRate b s))) = Inr m2" and l2: "length m2 = length m"
    using wr_buf_to [OF refl, of "p + 3" "p + 1" "le16 (of_nat (b_SampleRate b s))" m1] False assms(3) l1
    by (simp_all add: m2_def)
  define m3 where "m3 = take (p + 3) m2 @ [b_CodecType b] @ drop (p + 4) m2"
  have w3: "wr_buf m2 (int (p + 3)) [b_CodecType b] = Inr m3" and l3: "length m3 = length m"
    using wr_buf_to [OF refl, of "p + 4" "p + 3" "[b_CodecType b]" m2] False assms(3) l2
    by (simp_all add: m3_def)
  have t: "take p m3 = take p m"
    using False assms(3) by (simp add: m3_def m2_def m1_def min_def)
  have "fits s (length xs) (k - 6)" "p + 6 + (k - 6) \<le> length m3"
    using False assms(2,3) l3 by simp_all
  from compress_safe [OF assms(1) this, of fin] obtain n m4 s' where
    c: "b_Compress b xs m3 (p + 6) (k - 6) fin s = Inr (int n, m4, s')" "n \<le> k - 6" "length m4 = length m3"
       "take (p + 6) m4 = take (p + 6) m3" "inv s'"
    by blast
  have t4: "take p m4 = take p m"
    using take_of_longer [OF c(4), of p] t by simp
  define m5 where "m5 = take (p + 4) m4 @ le16 (of_nat n) @ drop (p + 6) m4"
  have w5: "wr_buf m4 (int (p + 4)) (le16 (word_of_int (int n))) = Inr m5" and l5: "length m5 = length m"
    using wr_buf_to [OF refl, of "p + 6" "p + 4" "le16 (of_nat n)" m4] False assms(3) l3 c(3)
    by (simp_all add: m5_def)
  have t5: "take p m5 = take p m"
    using False assms(3) l3 c(3) t4 by (simp add: m5_def min_def)
  show ?thesis
  proof (cases "n = 0")
    case True
    then show ?thesis
      using False w1 w2 w3 c t4 l3 by (auto simp: stream_encode_def simp del: of_nat_add)
  next
    case nz: False
    have e: "stream_encode b xs m p k fin s = Inr (int (6 + n), m5, s')"
      using False w1 w2 w3 w5 c nz by (simp add: stream_encode_def del: of_nat_add)
    have "6 + n \<le> k" using c(2) False by simp
    with e l5 t5 c(5) show ?thesis by blast
  qed
qed

lemma steam_compress_safe:
  assumes "inv (m_BackendCodec st)" "steam_fits fits st (length xs) k" "p + k \<le> length m"
  shows "\<exists>n m' st'. steam_compress crc b xs m p k fin st = Inr (int n, m', st') \<and> n \<le> k \<and> length m' = length m
     \<and> take p m' = take p m \<and> inv (m_BackendCodec st')"
proof (cases "k < 12")
  case True
  then show ?thesis using assms by (auto simp: steam_compress_def)
next
  case False
  define m1 where "m1 = take p m @ le64 (m_Steamid st) @ drop (p + 8) m"
  have w1: "wr_buf m (int p) (le64 (m_Steamid st)) = Inr m1" and l1: "length m1 = length m"
    using wr_buf_to [OF refl, of "p + 8" p "le64 (m_Steamid st)" m] False assms(3) by (simp_all add: m1_def)
  have t1: "take p m1 = take p m" using False assms(3) by (simp add: m1_def)
  have "k - 12 < 10 \<or> fits (m_BackendCodec st) (length xs) (k - 12 - 6)" "p + 8 + (k - 12) \<le> length m1"
    using assms(2,3) False l1 by (auto simp: steam_fits_def)
  from stream_encode_safe [OF assms(1) this, of fin] obtain r m2 s' where
    e: "stream_encode b xs m1 (p + 8) (k - 12) fin (m_BackendCodec st) = Inr (int r, m2, s')"
       "r \<le> k - 12" "length m2 = length m1" "take (p + 8) m2 = take (p + 8) m1" "inv s'"
    by blast
  have t2: "take p m2 = take p m"
    using take_of_longer [OF e(4), of p] t1 by simp
  show ?thesis
  proof (cases "r = 0")
    case True
    then show ?thesis using False w1 e t2 l1 by (auto simp: steam_compress_def)
  next
    case nz: False
    let ?body = "take (8 + r) (drop p m2)"
    have rb: "rd_buf m2 p (8 + r) = Inr ?body"
      by (rule rd_buf_safe) (use e l1 False assms(3) in simp)
    define m3 where "m3 = take (p + 8 + r) m2 @ le32 (crc ?body) @ drop (p + 12 + r) m2"
    have w3: "wr_buf m2 (int (p + 8) + int r) (le32 (crc ?body)) = Inr m3"
      unfolding m3_def by (rule wr_buf_to) (use e l1 False assms(3) in simp_all)
    have l3: "length m3 = length m" using e l1 False assms(3) by (simp add: m3_def)
    have "take p m3 = take p m2" using e l1 False assms(3) by (simp add: m3_def min_def)
    then have t3: "take p m3 = take p m" using t2 by simp
    have c: "steam_compress crc b xs m p k fin st = Inr (int (12 + r), m3, st\<lparr>m_BackendCodec := s'\<rparr>)"
      using False w1 e(1) rb w3 nz by (simp add: steam_compress_def del: of_nat_add)
    have "12 + r \<le> k" using e(2) False by simp
    with c l3 t3 e(5) show ?thesis by (intro exI [of _ "12 + r"] exI) auto
  qed
qed

end

section \<open>The envelope around Opus\<close>

lemma opus_inv_set_sample_rate:
  assumes "opus_inv l s" "opus_rate_ok r"
  shows "opus_inv l (opus_set_sample_rate l r s)"
  using assms by (auto simp: opus_set_sample_rate_def opus_init_def opus_inv_def opus_reset_def Let_def opus_rate_ok_def)

interpretation opus_behind: voice_backend "opus_inv l" 3 opus_fits "opus_backend l" opus_rate_ok
  for l :: "('e, 'd) opus_lib"
  by unfold_locales
    (auto simp: opus_backend_def intro: opus_decompress_safe opus_compress_safe opus_inv_set_sample_rate)

interpretation steam_codec: voice_codec
  "\<lambda>st. opus_inv l (m_BackendCodec st)" "steam_benign opus_rate_ok" 0 "steam_fits opus_fits"
  "steam_compress crc (opus_backend l)" "steam_decompress crc (opus_backend l)"
  for l :: "('e, 'd) opus_lib" and crc :: "octet list \<Rightarrow> 32 word"
  by unfold_locales (auto intro: opus_behind.steam_decompress_safe opus_behind.steam_compress_safe)

section \<open>Round trip\<close>

lemma wr_buf_extend:
  assumes "take q m = pre" "q \<le> length m" "ip = int q" "r = q + length bs" "r \<le> length m"
  shows "\<exists>m'. wr_buf m ip bs = Inr m' \<and> length m' = length m \<and> take r m' = pre @ bs \<and> drop r m' = drop r m"
  using assms by (auto simp: wr_buf_to)

definition stream_bytes :: "nat \<Rightarrow> octet \<Rightarrow> octet list \<Rightarrow> octet list" where
  "stream_bytes rate type payload =
     [plt_SamplingRate] @ le16 (of_nat rate) @ [type] @ le16 (of_nat (length payload)) @ payload"

lemma length_stream_bytes [simp]: "length (stream_bytes rate type payload) = 6 + length payload"
  by (simp add: stream_bytes_def)

lemma stream_encode_bytes:
  assumes "10 \<le> k" "p + k \<le> length m" "0 < length payload" "length payload \<le> k - 6"
    and "\<And>m3. length m3 = length m \<Longrightarrow>
           \<exists>m4. b_Compress b xs m3 (p + 6) (k - 6) fin s = Inr (int (length payload), m4, s') \<and> length m4 = length m3
             \<and> take (p + 6) m4 = take (p + 6) m3 \<and> holds m4 (p + 6) payload"
  shows "\<exists>m'. stream_encode b xs m p k fin s = Inr (int (6 + length payload), m', s') \<and> length m' = length m
    \<and> take (p + 6 + length payload) m' = take p m @ stream_bytes (b_SampleRate b s) (b_CodecType b) payload"
proof -
  let ?rate = "le16 (of_nat (b_SampleRate b s))"
  let ?n = "length payload"
  from wr_buf_extend [OF refl, of p m "int p" "p + 1" "[plt_SamplingRate]"] assms(1,2) obtain m1 where
    m1: "wr_buf m (int p) [plt_SamplingRate] = Inr m1" "length m1 = length m"
        "take (p + 1) m1 = take p m @ [plt_SamplingRate]"
    by auto
  from wr_buf_extend [OF m1(3), of "int (p + 1)" "p + 3" ?rate] assms(1,2) m1(2) obtain m2 where
    m2: "wr_buf m1 (int (p + 1)) ?rate = Inr m2" "length m2 = length m"
        "take (p + 3) m2 = (take p m @ [plt_SamplingRate]) @ ?rate"
    by auto
  from wr_buf_extend [OF m2(3), of "int (p + 3)" "p + 4" "[b_CodecType b]"] assms(1,2) m2(2) obtain m3 where
    m3: "wr_buf m2 (int (p + 3)) [b_CodecType b] = Inr m3" "length m3 = length m"
        "take (p + 4) m3 = ((take p m @ [plt_SamplingRate]) @ ?rate) @ [b_CodecType b]"
    by auto
  from assms(5) [OF m3(2)] obtain m4 where
    m4: "b_Compress b xs m3 (p + 6) (k - 6) fin s = Inr (int ?n, m4, s')" "length m4 = length m"
        "take (p + 6) m4 = take (p + 6) m3" "holds m4 (p + 6) payload"
    using m3(2) by auto
  have t4: "take (p + 4) m4 = ((take p m @ [plt_SamplingRate]) @ ?rate) @ [b_CodecType b]"
    using take_of_longer [OF m4(3), of "p + 4"] m3(3) by simp
  from wr_buf_extend [OF t4, of "int (p + 4)" "p + 6" "le16 (of_nat ?n)"] assms(1,2) m4(2) obtain m5 where
    m5: "wr_buf m4 (int (p + 4)) (le16 (of_nat ?n)) = Inr m5" "length m5 = length m"
        "take (p + 6) m5 = (((take p m @ [plt_SamplingRate]) @ ?rate) @ [b_CodecType b]) @ le16 (of_nat ?n)"
        "drop (p + 6) m5 = drop (p + 6) m4"
    by auto
  have "take (p + 6 + ?n) m5 = take (p + 6) m5 @ take ?n (drop (p + 6) m5)"
    by (rule take_add)
  also have "take ?n (drop (p + 6) m5) = payload"
    using m4(4) m5(4) by (simp add: holds_def)
  finally have "take (p + 6 + ?n) m5 = take p m @ stream_bytes (b_SampleRate b s) (b_CodecType b) payload"
    unfolding m5(3) by (simp add: stream_bytes_def)
  moreover have "stream_encode b xs m p k fin s = Inr (int (6 + ?n), m5, s')"
    using assms(1,3) m1(1) m2(1) m3(1) m4(1) m5(1) by (simp add: stream_encode_def del: of_nat_add)
  ultimately show ?thesis using m5(2) by blast
qed

definition packet_bytes :: "(octet list \<Rightarrow> 32 word) \<Rightarrow> 64 word \<Rightarrow> octet list \<Rightarrow> octet list" where
  "packet_bytes crc sid body = le64 sid @ body @ le32 (crc (le64 sid @ body))"

lemma length_packet_bytes [simp]: "length (packet_bytes crc sid body) = 12 + length body"
  by (simp add: packet_bytes_def)

lemma steam_compress_bytes:
  assumes "22 \<le> k" "p + k \<le> length m" "0 < length payload" "length payload \<le> k - 18"
    and "\<And>m3. length m3 = length m \<Longrightarrow>
           \<exists>m4. b_Compress b xs m3 (p + 14) (k - 18) fin (m_BackendCodec st) = Inr (int (length payload), m4, s')
             \<and> length m4 = length m3 \<and> take (p + 14) m4 = take (p + 14) m3 \<and> holds m4 (p + 14) payload"
  shows "\<exists>m'. steam_compress crc b xs m p k fin st
        = Inr (int (18 + length payload), m', st\<lparr>m_BackendCodec := s'\<rparr>) \<and> length m' = length m
    \<and> take (18 + length payload) (drop p m')
      = packet_bytes crc (m_Steamid st) (stream_bytes (b_SampleRate b (m_BackendCodec st)) (b_CodecType b) payload)"
proof -
  let ?n = "length payload"
  let ?id = "le64 (m_Steamid st)"
  let ?body = "stream_bytes (b_SampleRate b (m_BackendCodec st)) (b_CodecType b) payload"
  from wr_buf_extend [OF refl, of p m "int p" "p + 8" ?id] assms(1,2) obtain m1 where
    m1: "wr_buf m (int p) ?id = Inr m1" "length m1 = length m" "take (p + 8) m1 = take p m @ ?id"
    by auto
  have k: "k - 12 - 6 = k - 18" "p + 8 + 6 = p + 14" using assms(1) by simp_all
  have "\<exists>m2. stream_encode b xs m1 (p + 8) (k - 12) fin (m_BackendCodec st) = Inr (int (6 + ?n), m2, s')
    \<and> length m2 = length m1 \<and> take (p + 8 + 6 + ?n) m2 = take (p + 8) m1 @ ?body"
  proof (rule stream_encode_bytes)
    show "\<exists>m4. b_Compress b xs m3 (p + 8 + 6) (k - 12 - 6) fin (m_BackendCodec st) = Inr (int ?n, m4, s')
        \<and> length m4 = length m3 \<and> take (p + 8 + 6) m4 = take (p + 8 + 6) m3 \<and> holds m4 (p + 8 + 6) payload"
      if "length m3 = length m1" for m3
      unfolding k using assms(5) [of m3] that m1(2) by simp
  qed (use assms(1-4) m1(2) in simp_all)
  then obtain m2 where
    m2: "stream_encode b xs m1 (p + 8) (k - 12) fin (m_BackendCodec st) = Inr (int (6 + ?n), m2, s')"
        "length m2 = length m" "take (p + 14 + ?n) m2 = (take p m @ ?id) @ ?body"
    by (auto simp: m1 k)
  have "take (8 + nat (int (6 + ?n))) (drop p m2) = drop p (take (p + 14 + ?n) m2)"
    by (simp add: drop_take nat_add_distrib)
  also have "\<dots> = ?id @ ?body" unfolding m2(3) using assms(1,2) by simp
  finally have body: "take (8 + nat (int (6 + ?n))) (drop p m2) = ?id @ ?body" .
  have rb: "rd_buf m2 p (8 + nat (int (6 + ?n))) = Inr (?id @ ?body)"
    unfolding body [symmetric] by (rule rd_buf_safe) (use m2(2) assms(1,2,4) in simp)
  have "18 + ?n \<le> k" using assms(1,4) by arith
  then have room: "p + 18 + ?n \<le> length m" using assms(2) by linarith
  from wr_buf_extend [OF m2(3), of "int (p + 8) + int (6 + ?n)" "p + 18 + ?n" "le32 (crc (?id @ ?body))"]
    room m2(2) obtain m3 where
    m3: "wr_buf m2 (int (p + 8) + int (6 + ?n)) (le32 (crc (?id @ ?body))) = Inr m3" "length m3 = length m"
        "take (p + 18 + ?n) m3 = ((take p m @ ?id) @ ?body) @ le32 (crc (?id @ ?body))"
    by auto
  have "take (18 + ?n) (drop p m3) = drop p (take (p + 18 + ?n) m3)"
    by (simp add: drop_take)
  also have "\<dots> = packet_bytes crc (m_Steamid st) ?body"
    unfolding m3(3) packet_bytes_def using assms(1,2) by simp
  finally have "take (18 + ?n) (drop p m3) = packet_bytes crc (m_Steamid st) ?body" .
  moreover have "steam_compress crc b xs m p k fin st = Inr (int (18 + ?n), m3, st\<lparr>m_BackendCodec := s'\<rparr>)"
    using assms(1) m1(1) m2(1) rb m3(1) by (simp add: steam_compress_def del: of_nat_add)
  ultimately show ?thesis using m3(2) by blast
qed

lemma stream_decode_bytes:
  assumes "holds m p (stream_bytes rate type payload)" "stop = p + 6 + length payload"
    and "rate < 65536" "length payload < 65536" "type \<in> {plt_Silk, plt_OPUS, plt_OPUS_PLC}"
  shows "stream_decode b m stop k p s = b_Decompress b m (p + 6) (length payload) k (b_SetSampleRate b rate s)"
proof -
  let ?n = "length payload"
  have h0: "holds m p ([plt_SamplingRate] @ le16 (of_nat rate) @ [type] @ le16 (of_nat ?n) @ payload)"
    using assms(1) by (simp add: stream_bytes_def)
  have h1: "holds m (p + 1) (le16 (of_nat rate) @ [type] @ le16 (of_nat ?n) @ payload)"
    by (rule holds_next [OF h0]) simp
  have h3: "holds m (p + 3) ([type] @ le16 (of_nat ?n) @ payload)"
    by (rule holds_next [OF h1]) simp
  have h4: "holds m (p + 4) (le16 (of_nat ?n) @ payload)"
    by (rule holds_next [OF h3]) simp
  have len: "p + 6 + ?n \<le> length m" using assms(1) by (simp add: holds_def)
  have r0: "rd8 m p = Inr plt_SamplingRate" and r3: "rd8 m (p + 3) = Inr type"
    using holds_take [OF h0] holds_take [OF h3] len by (simp_all add: rd8_def take_Suc_conv_app_nth hd_drop_conv_nth take_Suc)
  have r1: "rd16 m (p + 1) = Inr (of_nat rate)"
    by (rule rd16_le16) (use holds_take [OF h1] in simp)
  have "rd16 m (p + 4) = Inr (of_nat ?n)"
    by (rule rd16_le16) (use holds_take [OF h4] in simp)
  moreover have "p + 4 = p + 3 + 1" by simp
  ultimately have r4: "rd16 m (p + 3 + 1) = Inr (of_nat ?n)" by (simp only:)
  have u: "unat (of_nat rate :: 16 word) = rate" "unat (of_nat ?n :: 16 word) = ?n"
    using assms(3,4) by (simp_all add: unat_of_nat)
  have t: "type \<noteq> plt_SamplingRate" "type = plt_Silk \<or> type = plt_OPUS \<or> type = plt_OPUS_PLC"
    using assms(5) by (auto simp: plt_defs)
  have "stream_decode b m stop k p s = stream_decode b m stop k (p + 3) (b_SetSampleRate b rate s)"
    unfolding stream_decode.simps [of b m stop k p s] using r0 r1 u assms(2) by simp
  also have "\<dots> = b_Decompress b m (p + 6) ?n k (b_SetSampleRate b rate s)"
    unfolding stream_decode.simps [of b m stop k "p + 3"] using r3 r4 u assms(2) t by (simp add: add.commute [of 6 p])
  finally show ?thesis .
qed

lemma steam_decompress_bytes:
  assumes "packet = packet_bytes crc sid (stream_bytes rate type payload)"
    and "rate < 65536" "length payload < 65536" "type \<in> {plt_Silk, plt_OPUS, plt_OPUS_PLC}"
  shows "steam_decompress crc b packet 0 (length packet) k st =
     bind_r (b_Decompress b packet 14 (length payload) k (b_SetSampleRate b rate (m_BackendCodec st)))
       (\<lambda>(r, out, s'). Inr (r, out, st\<lparr>m_BackendCodec := s'\<rparr>))"
proof -
  let ?body = "stream_bytes rate type payload"
  let ?n = "length payload"
  have len: "length packet = 18 + ?n" by (simp add: assms(1))
  have split: "packet = (le64 sid @ ?body) @ le32 (crc (le64 sid @ ?body))"
    by (simp add: assms(1) packet_bytes_def)
  have t: "take (14 + ?n) packet = le64 sid @ ?body" by (simp add: split)
  have d: "drop (14 + ?n) packet = le32 (crc (le64 sid @ ?body))" by (simp add: split)
  have rb: "rd_buf packet 0 (14 + ?n) = Inr (le64 sid @ ?body)"
    using rd_buf_safe [of 0 "14 + ?n" packet] len t by simp
  have r32: "rd32 packet (14 + ?n) = Inr (crc (le64 sid @ ?body))"
    by (rule rd32_le32) (simp add: d)
  have h: "holds packet 8 ?body"
    by (simp add: holds_def assms(1) packet_bytes_def)
  have sd: "stream_decode b packet (14 + ?n) k 8 (m_BackendCodec st)
      = b_Decompress b packet 14 ?n k (b_SetSampleRate b rate (m_BackendCodec st))"
    using stream_decode_bytes [OF h _ assms(2-4), of "14 + ?n" b k] by simp
  have e: "length packet - 4 = 14 + ?n" by (simp add: len)
  show ?thesis
    using rb r32 sd unfolding steam_decompress_def by (simp only: add_0 e) (simp add: len)
qed

lemma steam_round_trip_lemma:
  fixes s r :: "('e, 'd) opus steam"
  defines "ys \<equiv> m_bufOverflowBytes (m_BackendCodec s)"
  assumes "opus_inv l (m_BackendCodec s)" "opus_inv l d0"
    and "d0 = opus_set_sample_rate l (m_samplerate (m_BackendCodec s)) (m_BackendCodec r)"
    and "m_nDecodeSeq d0 = m_nEncodeSeq (m_BackendCodec s)"
    and "m_pEncoder (m_BackendCodec s) = Some e" "m_pDecoder d0 = Some d"
    and "m_frameSize (m_BackendCodec s) \<le> length (ys @ xs)"
    and "22 \<le> k" "k < 65536" "opus_fits (m_BackendCodec s) (length xs) (k - 18)" "p + k \<le> length m"
    and "2 * length (ys @ xs) \<le> room"
    and "encode_frames l (m_frameSize (m_BackendCodec s)) (length (ys @ xs) div m_frameSize (m_BackendCodec s))
           (int (k - 18)) (ys @ xs) e = (frames, e')"
    and "decode_frames l (m_frameSize (m_BackendCodec s)) frames [] d = (out, d')"
  shows "\<exists>n m' s' r'. steam_compress crc (opus_backend l) xs m p k False s = Inr (int n, m', s') \<and> n \<le> k
    \<and> steam_decompress crc (opus_backend l) (take n (drop p m')) 0 n room r = Inr (int (length out), out, r')
    \<and> m_nDecodeSeq (m_BackendCodec r') = m_nEncodeSeq (m_BackendCodec s')"
proof -
  let ?s = "m_BackendCodec s"
  let ?ys = "ys @ xs"
  let ?st = "frame_stream (m_nEncodeSeq ?s) frames"
  let ?s' = "?s\<lparr>m_nEncodeSeq := m_nEncodeSeq ?s + of_nat (length frames), m_pEncoder := Some e',
      m_bufOverflowBytes := drop (length ?ys - length ?ys mod m_frameSize ?s) ?ys\<rparr>"
  note inv_s = assms(2) and inv_r = assms(3)
  have ys: "?ys = m_bufOverflowBytes ?s @ xs" by (simp add: ys_def)
  have big: "\<exists>m4. opus_compress l xs m3 (p + 14) (k - 18) False ?s = Inr (int (length ?st), m4, ?s')
      \<and> length m4 = length m3 \<and> take (p + 14) m4 = take (p + 14) m3 \<and> holds m4 (p + 14) ?st
      \<and> p + 14 + length ?st \<le> p + 14 + (k - 18)
      \<and> length frames = length ?ys div m_frameSize ?s \<and> (\<forall>f \<in> set frames. 0 < length f \<and> length f \<le> 1276)"
    if "length m3 = length m" for m3
    by (rule opus_compress_stream [OF inv_s assms(6) ys assms(8,11) _ assms(14)])
      (use assms(9,12) that in simp)
  have comp: "\<exists>m4. opus_compress l xs m3 (p + 14) (k - 18) False ?s = Inr (int (length ?st), m4, ?s')
      \<and> length m4 = length m3 \<and> take (p + 14) m4 = take (p + 14) m3 \<and> holds m4 (p + 14) ?st"
    if "length m3 = length m" for m3
    using big [OF that] by blast
  have frs: "length frames = length ?ys div m_frameSize ?s" "\<forall>f \<in> set frames. 0 < length f \<and> length f \<le> 1276"
    and fits: "length ?st \<le> k - 18"
    using big [OF refl] by auto
  have fs: "0 < m_frameSize ?s" by (rule opus_inv_frame [OF inv_s])
  then have "frames \<noteq> []" using frs(1) assms(8) by (auto simp: div_eq_0_iff)
  then have pos: "0 < length ?st" by (cases frames) simp_all
  have type: "b_CodecType (opus_backend l) = plt_OPUS_PLC" by (simp add: opus_backend_def)
  have rate: "m_samplerate ?s < 65536"
    using inv_s by (auto simp: opus_inv_def opus_rate_ok_def)
  define packet where "packet = packet_bytes crc (m_Steamid s) (stream_bytes (m_samplerate ?s) plt_OPUS_PLC ?st)"
  obtain m' where c: "steam_compress crc (opus_backend l) xs m p k False s
        = Inr (int (18 + length ?st), m', s\<lparr>m_BackendCodec := ?s'\<rparr>)"
      "take (18 + length ?st) (drop p m') = packet"
    using steam_compress_bytes [OF assms(9,12) pos fits, of "opus_backend l" xs False s ?s' crc] comp
    unfolding packet_def type by (auto simp: opus_backend_def)
  have len: "length packet = 18 + length ?st" by (simp add: packet_def)
  have h: "holds packet 14 ?st"
    by (simp add: packet_def holds_def packet_bytes_def stream_bytes_def)
  have same: "m_frameSize d0 = m_frameSize ?s"
    using inv_s inv_r assms(4) unfolding opus_inv_def by (auto simp: opus_set_sample_rate_def opus_init_def opus_reset_def Let_def)
  have "length frames * m_frameSize ?s \<le> length ?ys"
    unfolding frs(1) by (rule div_times_less_eq_dividend)
  then have room: "2 * (length ([] :: sample list) + length frames * m_frameSize d0) \<le> room"
    using assms(13) by (simp add: same)
  have dec: "opus_frames l packet (14 + length ?st) room 14 [] d0
      = Inr (out, d0\<lparr>m_nDecodeSeq := m_nDecodeSeq d0 + of_nat (length frames), m_pDecoder := Some d'\<rparr>)"
    using opus_frames_stream [OF inv_r assms(7) _ frs(2) room, of packet 14 out d'] h assms(15)
    unfolding assms(5) same by blast
  have "steam_decompress crc (opus_backend l) packet 0 (length packet) room r
      = Inr (int (length out), out,
          r\<lparr>m_BackendCodec := d0\<lparr>m_nDecodeSeq := m_nDecodeSeq d0 + of_nat (length frames), m_pDecoder := Some d'\<rparr>\<rparr>)"
    using steam_decompress_bytes [OF packet_def rate, of "opus_backend l" room r] fits assms(10) dec
    by (simp add: opus_backend_def opus_decompress_def assms(4) plt_defs)
  then show ?thesis
    by (intro exI [of _ "18 + length ?st"] exI) (use c len fits assms(5,9) in auto)
qed

section \<open>Properties\<close>

text \<open>
  A library for the witnesses: it encodes a frame as its first sample and decodes it as a frame of
  that sample.
\<close>

definition first_sample_opus :: "(unit, unit) opus_lib" where
  "first_sample_opus = \<lparr>opus_encoder_init = \<lambda>_ _. (), opus_decoder_init = \<lambda>_. (),
     opus_encoder_reset = \<lambda>e. e, opus_decoder_reset = \<lambda>d. d,
     opus_encode = \<lambda>e xs k. (1, [ucast (hd xs)], ()),
     opus_decode = \<lambda>d data fs. (int fs, replicate fs (case data of None \<Rightarrow> 0 | Some bs \<Rightarrow> ucast (hd bs)), ())\<rparr>"

definition ready_opus :: "(unit, unit) opus" where
  "ready_opus = snd (opus_init first_sample_opus new_opus)"

lemma first_sample_opus_ok: "opus_lib_ok first_sample_opus"
  by (auto simp: opus_lib_ok_def first_sample_opus_def)

lemma ready_opus_inv: "opus_inv first_sample_opus ready_opus"
  by (simp add: opus_inv_def ready_opus_def opus_init_def new_opus_def opus_rate_ok_def opus_reset_def
      first_sample_opus_ok)

text \<open>
  C4: Decoding a Steam voice packet is memory safe.  Whatever bytes a client sends, as long as the
  packet switches only to sampling rates that Opus supports, \<^verbatim>\<open>CSteamP2PCodec::Decompress\<close> reads
  nothing outside of the packet (\<^verbatim>\<open>VoiceEncoder_Opus::Decompress\<close> reads a size and a sequence number
  without checking that they are there, and it is the checksum behind the stream that keeps these
  reads inside the packet), writes at most the room it was given, calls no null decoder, returns the
  number of samples it wrote and leaves the codec in order for the next packet.
\<close>

theorem steam_decode_memory_safe:
  assumes "opus_inv l (m_BackendCodec st)" "steam_benign opus_rate_ok packet"
  shows "\<exists>out st'. steam_decompress crc (opus_backend l) packet 0 (length packet) k st
      = Inr (int (length out), out, st') \<and> opus_inv l (m_BackendCodec st') \<and> 2 * length out \<le> k"
  using steam_codec.decompress_safe [of l st 0 "length packet" packet crc k] assms by simp

text \<open>A payload of one byte, whose header would need four.\<close>

definition short_packet :: "octet list" where
  "short_packet = replicate 8 0 @ [plt_OPUS_PLC, 1, 0, 0] @ replicate 4 0"

theorem steam_decode_memory_safe_witness:
  "\<exists>out st'. steam_decompress (\<lambda>_. 0) (opus_backend first_sample_opus) short_packet 0 (length short_packet) 32768
       \<lparr>m_Steamid = 0, m_BackendCodec = ready_opus\<rparr>
     = Inr (int (length out), out, st') \<and> opus_inv first_sample_opus (m_BackendCodec st') \<and> 2 * length out \<le> 32768"
  by (rule steam_decode_memory_safe)
    (simp_all add: ready_opus_inv steam_benign_def steam_body_def short_packet_def plt_defs)

text \<open>
  C6: The round trip of a voice packet.  When the two sides agree on the next sequence number, the
  packet that \<^verbatim>\<open>CSteamP2PCodec::Compress\<close> builds from the queued and the new samples fits its buffer, and
  \<^verbatim>\<open>CSteamP2PCodec::Decompress\<close> of the packet accepts the checksum, switches the receiver to the sender's
  sampling rate and hands libopus exactly the frames that the sender's libopus produced, in their
  order and nothing else; it returns all of their samples, and the two sides agree again.
\<close>

theorem steam_round_trip:
  assumes "opus_inv l (m_BackendCodec s)" "opus_inv l d0"
    and "d0 = opus_set_sample_rate l (m_samplerate (m_BackendCodec s)) (m_BackendCodec r)"
    and "m_nDecodeSeq d0 = m_nEncodeSeq (m_BackendCodec s)"
    and "m_pEncoder (m_BackendCodec s) = Some e" "m_pDecoder d0 = Some d"
    and "ys = m_bufOverflowBytes (m_BackendCodec s) @ xs" "fs = m_frameSize (m_BackendCodec s)" "fs \<le> length ys"
    and "22 \<le> k" "k < 65536" "opus_fits (m_BackendCodec s) (length xs) (k - 18)" "p + k \<le> length m"
    and "2 * length ys \<le> room"
    and "encode_frames l fs (length ys div fs) (int (k - 18)) ys e = (frames, e')"
    and "decode_frames l fs frames [] d = (out, d')"
  shows "\<exists>n m' s' r'. steam_compress crc (opus_backend l) xs m p k False s = Inr (int n, m', s') \<and> n \<le> k
    \<and> steam_decompress crc (opus_backend l) (take n (drop p m')) 0 n room r = Inr (int (length out), out, r')
    \<and> m_nDecodeSeq (m_BackendCodec r') = m_nEncodeSeq (m_BackendCodec s')"
  by (rule steam_round_trip_lemma [OF assms(1-6) assms(9) [unfolded assms(7,8)] assms(10-13)
        assms(14) [unfolded assms(7)] assms(15) [unfolded assms(7,8)] assms(16) [unfolded assms(8)]])

theorem steam_round_trip_witness:
  "\<exists>n m' s' r'. steam_compress (\<lambda>_. 0) (opus_backend first_sample_opus) (replicate 480 7) (replicate 4000 0) 0 4000 False
        \<lparr>m_Steamid = 0, m_BackendCodec = ready_opus\<rparr> = Inr (int n, m', s') \<and> n \<le> 4000
    \<and> steam_decompress (\<lambda>_. 0) (opus_backend first_sample_opus) (take n (drop 0 m')) 0 n 32768
        \<lparr>m_Steamid = 0, m_BackendCodec = ready_opus\<rparr> = Inr (int (length (replicate 480 (7 :: sample))), replicate 480 7, r')
    \<and> m_nDecodeSeq (m_BackendCodec r') = m_nEncodeSeq (m_BackendCodec s')"
proof (rule steam_round_trip [where ys = "replicate 480 7" and fs = 480 and frames = "[[7]]" and ?d0.0 = ready_opus])
  show "encode_frames first_sample_opus 480 (length (replicate 480 (7 :: sample)) div 480) (int (4000 - 18))
      (replicate 480 7) () = ([[7]], ())"
    by (simp add: first_sample_opus_def hd_replicate)
qed (simp_all add: ready_opus_inv, simp_all add: ready_opus_def first_sample_opus_def opus_init_def new_opus_def
      opus_rate_ok_def opus_reset_def opus_set_sample_rate_def opus_fits_def)

text \<open>
  A sampling rate that Opus does not support takes the decoder away.  A packet with a correct
  checksum that switches to such a rate of at least 1000 and then carries a voice payload of one byte
  makes \<^verbatim>\<open>VoiceEncoder_Opus::SetSampleRate\<close> free the decoder, \<^verbatim>\<open>Init\<close> fail before it makes a new one, and
  \<^verbatim>\<open>Decompress\<close> call \<^verbatim>\<open>opus_decode\<close> with a null pointer.  Nothing in the plugin checks the rate, and the
  checksum is no secret, so a client can stop the server this way.
\<close>

theorem foreign_rate_null_decoder:
  assumes "1000 \<le> r" "r < 65536" "\<not> opus_rate_ok r" "m_samplerate (m_BackendCodec st) \<noteq> r"
    and "packet = packet_bytes crc sid (stream_bytes r plt_OPUS_PLC [1, 0, 0, 0, x])"
  shows "steam_decompress crc (opus_backend l) packet 0 (length packet) 32768 st = Inl Null_Decoder"
proof -
  let ?s = "opus_set_sample_rate l r (m_BackendCodec st)"
  define fs where "fs = r div 1000 * 20"
  have "0 < r div 1000" using assms(1) by (simp add: div_greater_zero_iff)
  moreover have "r div 1000 \<le> 65" using assms(2) by simp
  ultimately have fs: "0 < fs" "fs \<le> 1300" by (simp_all add: fs_def)
  have s: "m_pDecoder ?s = None" "m_nDecodeSeq ?s = 0" "m_PacketLossConcealment ?s" "m_frameSize ?s = fs"
    "m_MaxframeSize ?s = fs * 2"
    using assms(3,4) by (simp_all add: opus_set_sample_rate_def opus_init_def Let_def fs_def)
  have p: "packet = le64 sid @ [plt_SamplingRate] @ le16 (of_nat r) @ [plt_OPUS_PLC] @ le16 5 @ [1, 0, 0, 0, x]
      @ le32 (crc (le64 sid @ stream_bytes r plt_OPUS_PLC [1, 0, 0, 0, x]))"
    using assms(5) by (simp add: packet_bytes_def stream_bytes_def)
  have h: "holds packet 14 ([1, 0] @ [0, 0] @ [x])"
    by (simp add: holds_def p)
  have h16: "holds packet 16 ([0, 0] @ [x])" by (rule holds_next [OF h]) simp
  have h18: "holds packet 18 [x]" by (rule holds_next [OF h16]) simp
  have le: "le16 1 = [1, 0]" "le16 0 = [0, 0]" by (simp_all add: le16_def)
  have r1: "rd16 packet 14 = Inr 1"
    by (rule rd16_le16) (use holds_take [OF h] le in \<open>simp add: numeral_2_eq_2\<close>)
  have r2: "rd16 packet 16 = Inr 0"
    by (rule rd16_le16) (use holds_take [OF h16] le in \<open>simp add: numeral_2_eq_2\<close>)
  have rb: "rd_buf packet 18 1 = Inr [x]"
    using h18 by (simp add: rd_buf_def holds_def)
  have rs: "read_sequence l packet 32768 16 [] ?s = Inr ([], ?s\<lparr>m_nDecodeSeq := 1\<rparr>)"
    using r2 s(2,3) by (simp add: read_sequence_def sequence_step_def)
  have "opus_frames l packet 19 32768 14 [] ?s = Inl Null_Decoder"
    unfolding opus_frames.simps [of l packet 19 32768 14 "[]" ?s]
    using r1 rs rb s fs by (simp add: decode_frame_def)
  then have "opus_decompress l packet 14 5 32768 ?s = Inl Null_Decoder"
    by (simp add: opus_decompress_def)
  moreover have five: "length [1, 0, 0, 0, x] = 5" by simp
  have "steam_decompress crc (opus_backend l) packet 0 (length packet) 32768 st =
     bind_r (b_Decompress (opus_backend l) packet 14 5 32768 (b_SetSampleRate (opus_backend l) r (m_BackendCodec st)))
       (\<lambda>(r, out, s'). Inr (r, out, st\<lparr>m_BackendCodec := s'\<rparr>))"
    using steam_decompress_bytes [OF assms(5,2), of "opus_backend l" 32768 st]
    by (simp only: five) (simp add: plt_defs)
  ultimately show ?thesis by (simp add: opus_backend_def)
qed

theorem foreign_rate_null_decoder_witness:
  "steam_decompress (\<lambda>_. 0) (opus_backend first_sample_opus)
     (packet_bytes (\<lambda>_. 0) 0 (stream_bytes 11025 plt_OPUS_PLC [1, 0, 0, 0, 9])) 0
     (length (packet_bytes (\<lambda>_. 0) 0 (stream_bytes 11025 plt_OPUS_PLC [1, 0, 0, 0, 9]))) 32768
     \<lparr>m_Steamid = 0, m_BackendCodec = ready_opus\<rparr> = Inl Null_Decoder"
  by (rule foreign_rate_null_decoder [OF _ _ _ _ refl])
    (simp_all add: opus_rate_ok_def ready_opus_def opus_init_def new_opus_def opus_reset_def)

end
