(* ===== verification/Voice_Frame.thy ===== *)
theory Voice_Frame
  imports Voice_Codec
begin

text \<open>
  \<^verbatim>\<open>VoiceCodec_Frame\<close> (\<^verbatim>\<open>voice_codec_frame.cpp\<close>), the codec that cuts the samples into frames of a
  fixed size for an \<^verbatim>\<open>IFrameEncoder\<close>, and the encoder it is used with, \<^verbatim>\<open>VoiceEncoder_Speex\<close>
  (\<^verbatim>\<open>VoiceEncoder_Speex.cpp\<close>).  The library libspeex is a parameter.
\<close>

section \<open>The frame encoder\<close>

record 'f frame_encoder =
  fe_Init :: "nat \<Rightarrow> 'f \<Rightarrow> (nat \<times> nat) option \<times> 'f"      \<comment> \<open>the sizes of a raw and of an encoded frame in bytes\<close>
  fe_EncodeFrame :: "'f \<Rightarrow> sample list \<Rightarrow> octet list \<times> 'f"
  fe_DecodeFrame :: "'f \<Rightarrow> octet list \<Rightarrow> sample list \<times> 'f"
  fe_ResetState :: "'f \<Rightarrow> 'f"

record 'f frame_codec =
  m_EncodeBuffer :: "sample list"      \<comment> \<open>its first \<^verbatim>\<open>m_nEncodeBufferSamples\<close> samples\<close>
  m_pFrameEncoder :: "'f option"
  m_nRawBytes :: nat
  m_nRawSamples :: nat
  m_nEncodedBytes :: nat

definition max_framebuffer_samples :: nat where
  "max_framebuffer_samples = 1024"

definition new_frame_codec :: "'f \<Rightarrow> 'f frame_codec" where
  "new_frame_codec f = \<lparr>m_EncodeBuffer = [], m_pFrameEncoder = Some f, m_nRawBytes = 0, m_nRawSamples = 0,
     m_nEncodedBytes = 0\<rparr>"

definition frame_init :: "'f frame_encoder \<Rightarrow> nat \<Rightarrow> 'f frame_codec \<Rightarrow> bool \<times> 'f frame_codec" where
  "frame_init fe quality c =
     (case m_pFrameEncoder c of
        None \<Rightarrow> (False, c)
      | Some f \<Rightarrow>
          (case fe_Init fe quality f of
             (Some (raw, enc), f') \<Rightarrow>
               (True, c\<lparr>m_pFrameEncoder := Some f', m_nRawBytes := raw, m_nEncodedBytes := enc,
                        m_nRawSamples := raw div 2\<rparr>)
           | (None, _) \<Rightarrow> (False, c\<lparr>m_pFrameEncoder := None\<rparr>)))"

definition frame_reset :: "'f frame_encoder \<Rightarrow> 'f frame_codec \<Rightarrow> bool \<times> 'f frame_codec" where
  "frame_reset fe c =
     (case m_pFrameEncoder c of
        None \<Rightarrow> (False, c)
      | Some f \<Rightarrow> (True, c\<lparr>m_pFrameEncoder := Some (fe_ResetState fe f)\<rparr>))"

section \<open>Compress\<close>

text \<open>
  The loop over the whole frames, with the samples that are left, the queued samples, the buffer
  written and the number of bytes in it.  It need not end when the frames have no size.
\<close>

partial_function (option) frame_loop ::
    "'f frame_encoder \<Rightarrow> nat \<Rightarrow> nat \<Rightarrow> nat \<Rightarrow> nat \<Rightarrow> sample list \<Rightarrow> sample list \<Rightarrow> octet list \<Rightarrow> nat \<Rightarrow> 'f
     \<Rightarrow> (voice_error + sample list \<times> sample list \<times> octet list \<times> nat \<times> 'f) option" where
  "frame_loop fe raw enc p k xs q m n f =
     (if raw \<le> length xs + length q \<and> n + enc \<le> k then
        (if max_framebuffer_samples < raw then Some (Inl (Write_Outside (int max_framebuffer_samples)))
         else
           (case fe_EncodeFrame fe f (q @ take (raw - length q) xs) of
              (bs, f') \<Rightarrow>
                (case wr_buf m (int (p + n)) bs of
                   Inl e \<Rightarrow> Some (Inl e)
                 | Inr m' \<Rightarrow> frame_loop fe raw enc p k (drop (raw - length q) xs) [] m' (n + enc) f')))
      else Some (Inr (xs, q, m, n, f)))"

text \<open>
  The samples that are left go to the queue: as many as it has room for, and the last of them.
\<close>

definition store_rest :: "nat \<Rightarrow> sample list \<Rightarrow> sample list \<Rightarrow> sample list" where
  "store_rest raw xs q = (let new = min (length xs) (min (raw - length q) raw) in q @ drop (length xs - new) xs)"

definition frame_compress ::
    "'f frame_encoder \<Rightarrow> sample list \<Rightarrow> octet list \<Rightarrow> nat \<Rightarrow> nat \<Rightarrow> bool \<Rightarrow> 'f frame_codec
     \<Rightarrow> voice_error + int \<times> octet list \<times> 'f frame_codec" where
  "frame_compress fe xs m p k fin c =
     (case m_pFrameEncoder c of
        None \<Rightarrow> Inr (0, m, c)
      | Some f \<Rightarrow>
          (case frame_loop fe (m_nRawSamples c) (m_nEncodedBytes c) p k xs (m_EncodeBuffer c) m 0 f of
             None \<Rightarrow> Inl No_Return
           | Some r \<Rightarrow> bind_r r (\<lambda>(xs', q, m', n, f').
               let q' = store_rest (m_nRawSamples c) xs' q in
               if fin \<and> q' \<noteq> [] \<and> n + m_nEncodedBytes c \<le> k then
                 (case fe_EncodeFrame fe f' (q' @ replicate (m_nRawSamples c - length q') 0) of
                    (bs, f'') \<Rightarrow> bind_r (wr_buf m' (int (p + n)) bs) (\<lambda>m''.
                      Inr (int (n + m_nEncodedBytes c), m'', c\<lparr>m_EncodeBuffer := [], m_pFrameEncoder := Some f''\<rparr>)))
               else Inr (int n, m', c\<lparr>m_EncodeBuffer := q', m_pFrameEncoder := Some f'\<rparr>))))"

section \<open>Decompress\<close>

partial_function (option) frame_decode_loop ::
    "'f frame_encoder \<Rightarrow> nat \<Rightarrow> nat \<Rightarrow> octet list \<Rightarrow> nat \<Rightarrow> nat \<Rightarrow> nat \<Rightarrow> sample list \<Rightarrow> 'f
     \<Rightarrow> (voice_error + sample list \<times> 'f) option" where
  "frame_decode_loop fe rawb enc m p stop k out f =
     (case rd_buf m p enc of
        Inl e \<Rightarrow> Some (Inl e)
      | Inr bs \<Rightarrow>
          (case fe_DecodeFrame fe f bs of
             (xs, f') \<Rightarrow>
               (if stop < p + enc + enc \<or> k < 2 * length (out @ xs) + rawb then Some (Inr (out @ xs, f'))
                else frame_decode_loop fe rawb enc m (p + enc) stop k (out @ xs) f')))"

definition frame_decompress ::
    "'f frame_encoder \<Rightarrow> octet list \<Rightarrow> nat \<Rightarrow> nat \<Rightarrow> nat \<Rightarrow> 'f frame_codec
     \<Rightarrow> voice_error + int \<times> sample list \<times> 'f frame_codec" where
  "frame_decompress fe m p len k c =
     (case m_pFrameEncoder c of
        None \<Rightarrow> Inr (0, [], c)
      | Some f \<Rightarrow>
          if len < m_nEncodedBytes c \<or> k < m_nRawBytes c then Inr (0, [], c)
          else (case frame_decode_loop fe (m_nRawBytes c) (m_nEncodedBytes c) m p (p + len) k [] f of
                  None \<Rightarrow> Inl No_Return
                | Some r \<Rightarrow> bind_r r (\<lambda>(out, f').
                    Inr (int (length out), out, c\<lparr>m_pFrameEncoder := Some f'\<rparr>))))"

section \<open>Speex\<close>

record 's speex_lib =
  speex_init :: "'s option"                                   \<comment> \<open>both states, or null\<close>
  speex_encode :: "'s \<Rightarrow> sample list \<Rightarrow> octet list \<times> 's"        \<comment> \<open>the bits of the frame\<close>
  speex_decode :: "'s \<Rightarrow> octet list \<Rightarrow> sample list \<times> 's"
  speex_set_quality :: "nat \<Rightarrow> 's \<Rightarrow> 's"
  speex_reset :: "'s \<Rightarrow> 's"

record 's speex =
  m_States :: "'s option"
  m_Quality :: nat

definition encoded_frame_size :: "nat list" where
  "encoded_frame_size = [0x6, 0x6, 0xF, 0xF, 0x14, 0x14, 0x1C, 0x1C, 0x26, 0x26, 0x26]"

definition speex_quality :: "nat \<Rightarrow> nat" where
  "speex_quality q = (if q = 2 then 2 else if q = 3 then 4 else if q = 4 then 6 else if q = 5 then 8 else 0)"

definition speex_frame_init :: "'s speex_lib \<Rightarrow> nat \<Rightarrow> 's speex \<Rightarrow> (nat \<times> nat) option \<times> 's speex" where
  "speex_frame_init l q s =
     (case speex_init l of
        None \<Rightarrow> (None, s\<lparr>m_States := None\<rparr>)
      | Some st \<Rightarrow>
          (Some (320, encoded_frame_size ! speex_quality q),
           s\<lparr>m_Quality := speex_quality q, m_States := Some (speex_set_quality l (speex_quality q) st)\<rparr>))"

text \<open>
  \<^verbatim>\<open>speex_bits_write\<close> writes at most the size of the frame, \<^verbatim>\<open>DecodeFrame\<close> always 160 samples.  The
  encoder is never used without its states: \<^verbatim>\<open>Init\<close> fails then, and \<^verbatim>\<open>VoiceCodec_Frame\<close> lets go of it.
\<close>

definition speex_encode_frame :: "'s speex_lib \<Rightarrow> 's speex \<Rightarrow> sample list \<Rightarrow> octet list \<times> 's speex" where
  "speex_encode_frame l s xs =
     (case m_States s of
        None \<Rightarrow> ([], s)
      | Some st \<Rightarrow>
          (case speex_encode l st (take 160 xs) of
             (bits, st') \<Rightarrow> (take (encoded_frame_size ! m_Quality s) bits, s\<lparr>m_States := Some st'\<rparr>)))"

definition speex_decode_frame :: "'s speex_lib \<Rightarrow> 's speex \<Rightarrow> octet list \<Rightarrow> sample list \<times> 's speex" where
  "speex_decode_frame l s bs =
     (case m_States s of
        None \<Rightarrow> (replicate 160 0, s)
      | Some st \<Rightarrow>
          (case speex_decode l st (take (encoded_frame_size ! m_Quality s) bs) of
             (xs, st') \<Rightarrow> (take 160 (xs @ replicate 160 0), s\<lparr>m_States := Some st'\<rparr>)))"

definition speex_reset_state :: "'s speex_lib \<Rightarrow> 's speex \<Rightarrow> 's speex" where
  "speex_reset_state l s = s\<lparr>m_States := map_option (speex_reset l) (m_States s)\<rparr>"

definition speex_frames :: "'s speex_lib \<Rightarrow> 's speex frame_encoder" where
  "speex_frames l = \<lparr>fe_Init = speex_frame_init l, fe_EncodeFrame = speex_encode_frame l,
     fe_DecodeFrame = speex_decode_frame l, fe_ResetState = speex_reset_state l\<rparr>"

section \<open>The contract of a frame encoder\<close>

text \<open>
  \<^verbatim>\<open>IFrameEncoder\<close>: a state that is in order stays so, an encoded frame takes at most its size and a
  decoded frame exactly its samples.
\<close>

definition frame_inv :: "('f \<Rightarrow> bool) \<Rightarrow> nat \<Rightarrow> nat \<Rightarrow> 'f frame_codec \<Rightarrow> bool" where
  "frame_inv good raw enc c =
     ((case m_pFrameEncoder c of None \<Rightarrow> False | Some f \<Rightarrow> good f) \<and> m_nRawBytes c = 2 * raw
      \<and> m_nRawSamples c = raw \<and> m_nEncodedBytes c = enc \<and> length (m_EncodeBuffer c) \<le> raw)"

locale sized_frames =
  fixes good :: "'f \<Rightarrow> bool" and fe :: "'f frame_encoder" and raw enc :: nat
  assumes raw_pos: "0 < raw" and raw_le: "raw \<le> max_framebuffer_samples" and enc_pos: "0 < enc"
    and encode_law: "good f \<Longrightarrow> length xs = raw \<Longrightarrow>
      length (fst (fe_EncodeFrame fe f xs)) \<le> enc \<and> good (snd (fe_EncodeFrame fe f xs))"
    and decode_law: "good f \<Longrightarrow> length bs = enc \<Longrightarrow>
      length (fst (fe_DecodeFrame fe f bs)) = raw \<and> good (snd (fe_DecodeFrame fe f bs))"
begin

lemma frame_loop_step:
  assumes "good f" "length q \<le> raw" "raw \<le> length xs + length q" "n + enc \<le> k" "p + k \<le> length m"
  shows "\<exists>m' f'. (\<forall>ys. frame_loop fe raw enc p k (xs @ ys) q m n f
        = frame_loop fe raw enc p k (drop (raw - length q) xs @ ys) [] m' (n + enc) f')
     \<and> good f' \<and> length m' = length m \<and> take (p + n) m' = take (p + n) m"
proof -
  obtain bs f' where e: "fe_EncodeFrame fe f (q @ take (raw - length q) xs) = (bs, f')"
    by (cases "fe_EncodeFrame fe f (q @ take (raw - length q) xs)")
  have law: "length bs \<le> enc" "good f'"
    using encode_law [OF assms(1), of "q @ take (raw - length q) xs"] assms(2,3) e by simp_all
  define m' where "m' = take (p + n) m @ bs @ drop (p + n + length bs) m"
  have w: "wr_buf m (int (p + n)) bs = Inr m'"
    unfolding m'_def by (rule wr_buf_at) (use law assms(4,5) in simp)
  have m': "length m' = length m" "take (p + n) m' = take (p + n) m"
    using law assms(4,5) by (simp_all add: m'_def)
  have "frame_loop fe raw enc p k (xs @ ys) q m n f
      = frame_loop fe raw enc p k (drop (raw - length q) xs @ ys) [] m' (n + enc) f'" for ys
  proof -
    have c: "raw \<le> length (xs @ ys) + length q \<and> n + enc \<le> k" using assms(3,4) by simp
    have l: "\<not> max_framebuffer_samples < raw" using raw_le by simp
    have t: "take (raw - length q) (xs @ ys) = take (raw - length q) xs"
      "drop (raw - length q) (xs @ ys) = drop (raw - length q) xs @ ys"
      using assms(3) by simp_all
    show ?thesis
      unfolding frame_loop.simps [of fe raw enc p k "xs @ ys"] if_P [OF c] if_not_P [OF l] t e prod.case w sum.case ..
  qed
  with law m' show ?thesis by blast
qed

lemma frame_loop_safe:
  assumes "good f" "length q \<le> raw" "n \<le> k" "p + k \<le> length m"
  shows "\<exists>xs' q' m' n' f'. frame_loop fe raw enc p k xs q m n f = Some (Inr (xs', q', m', n', f'))
     \<and> good f' \<and> length q' \<le> raw \<and> n' \<le> k \<and> length m' = length m \<and> take p m' = take p m"
  using assms
proof (induction "k - n" arbitrary: xs q m n f rule: less_induct)
  case less
  show ?case
  proof (cases "raw \<le> length xs + length q \<and> n + enc \<le> k")
    case True
    from frame_loop_step [OF less.prems(1,2) _ _ less.prems(4), of xs n] True obtain m' f' where
      "\<forall>ys. frame_loop fe raw enc p k (xs @ ys) q m n f
        = frame_loop fe raw enc p k (drop (raw - length q) xs @ ys) [] m' (n + enc) f'"
      and s': "good f'" "length m' = length m" "take (p + n) m' = take (p + n) m"
      by blast
    from this(1) [THEN spec, of "[]"]
    have "frame_loop fe raw enc p k xs q m n f = frame_loop fe raw enc p k (drop (raw - length q) xs) [] m' (n + enc) f'"
      by simp
    note s = this s'
    have "k - (n + enc) < k - n" "n + enc \<le> k" using True enc_pos by arith+
    from less.hyps [OF this(1) s(2) _ this(2), of "[]" m' "drop (raw - length q) xs"] s less.prems(4) obtain xs' q' m'' n' f'' where
      r: "frame_loop fe raw enc p k (drop (raw - length q) xs) [] m' (n + enc) f' = Some (Inr (xs', q', m'', n', f''))"
      "good f''" "length q' \<le> raw" "n' \<le> k" "length m'' = length m'" "take p m'' = take p m'"
      by auto
    have "take p m' = take p m" using take_of_longer [OF s(4), of p] by simp
    with r s show ?thesis by simp
  next
    case False
    show ?thesis
      unfolding frame_loop.simps [of fe raw enc p k xs q m n f] if_not_P [OF False] using less.prems by simp
  qed
qed

lemma store_rest_length: "length q \<le> raw \<Longrightarrow> length (store_rest raw xs q) \<le> raw"
  by (simp add: store_rest_def Let_def)

lemma frame_compress_safe:
  assumes "frame_inv good raw enc c" "p + k \<le> length m"
  shows "\<exists>n m' c'. frame_compress fe xs m p k fin c = Inr (int n, m', c') \<and> n \<le> k \<and> length m' = length m
     \<and> take p m' = take p m \<and> frame_inv good raw enc c'"
proof -
  obtain f where f: "m_pFrameEncoder c = Some f" "good f"
    using assms(1) by (auto simp: frame_inv_def split: option.splits)
  have c: "m_nRawSamples c = raw" "m_nEncodedBytes c = enc" "m_nRawBytes c = 2 * raw" "length (m_EncodeBuffer c) \<le> raw"
    using assms(1) by (simp_all add: frame_inv_def)
  from frame_loop_safe [OF f(2) c(4) _ assms(2), of 0 xs] obtain xs' q m' n f' where
    l: "frame_loop fe raw enc p k xs (m_EncodeBuffer c) m 0 f = Some (Inr (xs', q, m', n, f'))"
       "good f'" "length q \<le> raw" "n \<le> k" "length m' = length m" "take p m' = take p m"
    by auto
  define q' where "q' = store_rest raw xs' q"
  have q': "length q' \<le> raw" unfolding q'_def by (rule store_rest_length [OF l(3)])
  show ?thesis
  proof (cases "fin \<and> q' \<noteq> [] \<and> n + enc \<le> k")
    case True
    obtain bs f'' where e: "fe_EncodeFrame fe f' (q' @ replicate (raw - length q') 0) = (bs, f'')"
      by (cases "fe_EncodeFrame fe f' (q' @ replicate (raw - length q') 0)")
    have law: "length bs \<le> enc" "good f''"
      using encode_law [OF l(2), of "q' @ replicate (raw - length q') 0"] q' e by simp_all
    define m'' where "m'' = take (p + n) m' @ bs @ drop (p + n + length bs) m'"
    have w: "wr_buf m' (int (p + n)) bs = Inr m''"
      unfolding m''_def by (rule wr_buf_at) (use law True l(5) assms(2) in simp)
    have m'': "length m'' = length m" "take p m'' = take p m"
      using law True l(5,6) assms(2) by (simp_all add: m''_def)
    have "frame_compress fe xs m p k fin c = Inr (int (n + enc), m'', c\<lparr>m_EncodeBuffer := [], m_pFrameEncoder := Some f''\<rparr>)"
      using True f(1) c l(1) e w by (simp add: frame_compress_def q'_def [symmetric] del: of_nat_add)
    then show ?thesis using True m'' law c by (intro exI [of _ "n + enc"] exI) (auto simp: frame_inv_def)
  next
    case False
    have "frame_compress fe xs m p k fin c = Inr (int n, m', c\<lparr>m_EncodeBuffer := q', m_pFrameEncoder := Some f'\<rparr>)"
      using False f(1) c l(1) by (auto simp: frame_compress_def q'_def [symmetric] Let_def)
    then show ?thesis using l q' c by (intro exI [of _ n] exI) (auto simp: frame_inv_def)
  qed
qed

lemma frame_decode_loop_safe:
  assumes "good f" "stop \<le> length m" "p + enc \<le> stop" "2 * length out + 2 * raw \<le> k"
  shows "\<exists>out' f'. frame_decode_loop fe (2 * raw) enc m p stop k out f = Some (Inr (out', f'))
     \<and> good f' \<and> 2 * length out' \<le> k"
  using assms
proof (induction "stop - p" arbitrary: p out f rule: less_induct)
  case less
  have rb: "rd_buf m p enc = Inr (take enc (drop p m))"
    by (rule rd_buf_safe) (use less.prems in simp)
  obtain xs f' where d: "fe_DecodeFrame fe f (take enc (drop p m)) = (xs, f')"
    by (cases "fe_DecodeFrame fe f (take enc (drop p m))")
  have law: "length xs = raw" "good f'"
    using decode_law [OF less.prems(1), of "take enc (drop p m)"] d less.prems(2,3) by simp_all
  note unfolded = frame_decode_loop.simps [of fe "2 * raw" enc m p stop k out f]
  show ?case
  proof (cases "stop < p + enc + enc \<or> k < 2 * length (out @ xs) + 2 * raw")
    case True
    then show ?thesis unfolding unfolded using rb d law less.prems(4) by auto
  next
    case False
    have "stop - (p + enc) < stop - p" "p + enc + enc \<le> stop" "2 * length (out @ xs) + 2 * raw \<le> k"
      using False enc_pos less.prems(3) by auto
    from less.hyps [OF this(1) law(2) less.prems(2) this(2,3)] show ?thesis
      unfolding unfolded using rb d False by simp
  qed
qed

lemma frame_decompress_safe:
  assumes "frame_inv good raw enc c" "p + len \<le> length m"
  shows "\<exists>out c'. frame_decompress fe m p len k c = Inr (int (length out), out, c') \<and> frame_inv good raw enc c'
     \<and> 2 * length out \<le> k"
proof -
  obtain f where f: "m_pFrameEncoder c = Some f" "good f"
    using assms(1) by (auto simp: frame_inv_def split: option.splits)
  have c: "m_nEncodedBytes c = enc" "m_nRawBytes c = 2 * raw" using assms(1) by (simp_all add: frame_inv_def)
  show ?thesis
  proof (cases "len < enc \<or> k < 2 * raw")
    case True
    then show ?thesis using f c assms by (auto simp: frame_decompress_def)
  next
    case False
    then have "p + enc \<le> p + len" "2 * length ([] :: sample list) + 2 * raw \<le> k" by simp_all
    from frame_decode_loop_safe [OF f(2) assms(2) this] obtain out f' where
      "frame_decode_loop fe (2 * raw) enc m p (p + len) k [] f = Some (Inr (out, f'))" "good f'" "2 * length out \<le> k"
      by blast
    with False f c assms(1) show ?thesis by (auto simp: frame_decompress_def frame_inv_def)
  qed
qed

text \<open>
  Streaming: what the loop leaves over, put into the queue, is where a later call goes on.
\<close>

definition run :: "nat \<Rightarrow> nat \<Rightarrow> sample list \<Rightarrow> sample list \<Rightarrow> octet list \<Rightarrow> nat \<Rightarrow> 'f
    \<Rightarrow> (voice_error + sample list \<times> octet list \<times> nat \<times> 'f) option" where
  "run p k xs q m n f = map_option (\<lambda>r. bind_r r (\<lambda>(xs, q, m, n, f). Inr (store_rest raw xs q, m, n, f)))
     (frame_loop fe raw enc p k xs q m n f)"

lemma store_rest_short: "length xs + length q < raw \<Longrightarrow> store_rest raw xs q = q @ xs"
  by (simp add: store_rest_def Let_def)

lemma run_short:
  assumes "length xs + length q < raw"
  shows "run p k xs q m n f = Some (Inr (q @ xs, m, n, f))"
  unfolding run_def using assms by (subst frame_loop.simps) (simp add: store_rest_short)

lemma run_frame:
  assumes "length q + length xs < raw" "raw \<le> length (xs @ ys) + length q \<Longrightarrow> n + enc \<le> k"
  shows "run p k (xs @ ys) q m n f = run p k ys (q @ xs) m n f"
proof (cases "raw \<le> length (xs @ ys) + length q \<and> n + enc \<le> k")
  case True
  then have True': "raw \<le> length ys + length (q @ xs) \<and> n + enc \<le> k" by simp
  have t: "q @ take (raw - length q) (xs @ ys) = (q @ xs) @ take (raw - length (q @ xs)) ys"
    "drop (raw - length q) (xs @ ys) = drop (raw - length (q @ xs)) ys"
    using assms by simp_all
  show ?thesis
    unfolding run_def frame_loop.simps [of fe raw enc p k "xs @ ys"] frame_loop.simps [of fe raw enc p k ys]
      if_P [OF True] if_P [OF True'] t ..
next
  case False
  then have False': "\<not> (raw \<le> length ys + length (q @ xs) \<and> n + enc \<le> k)" by simp
  have "store_rest raw (xs @ ys) q = store_rest raw ys (q @ xs)"
    using False assms(2) store_rest_short [of "xs @ ys" q] store_rest_short [of ys "q @ xs"] by simp
  then show ?thesis
    unfolding run_def frame_loop.simps [of fe raw enc p k "xs @ ys"] frame_loop.simps [of fe raw enc p k ys]
      if_not_P [OF False] if_not_P [OF False'] by simp
qed

lemma run_append:
  assumes "good f" "length q \<le> raw" "n + (length q + length xs + length ys) div raw * enc \<le> k" "p + k \<le> length m"
    and "run p k xs q m n f = Some (Inr (q1, m1, n1, f1))"
  shows "run p k (xs @ ys) q m n f = run p k ys q1 m1 n1 f1"
  using assms
proof (induction "length xs + length q" arbitrary: xs q m n f rule: less_induct)
  case less
  let ?total = "length q + length xs + length ys"
  have more: "n + enc \<le> k" if "raw \<le> ?total"
  proof -
    have "1 \<le> ?total div raw" using that raw_pos by (simp add: div_greater_zero_iff Suc_le_eq)
    then have "enc \<le> ?total div raw * enc" by simp
    with less.prems(3) show ?thesis by linarith
  qed
  show ?case
  proof (cases "length xs + length q < raw")
    case True
    then have "q1 = q @ xs" "m1 = m" "n1 = n" "f1 = f"
      using run_short [OF True, of p k m n f] less.prems(5) by simp_all
    then show ?thesis using run_frame [of q xs ys n k p m f] True more by simp
  next
    case False
    then have go: "raw \<le> length xs + length q" "n + enc \<le> k" using more by simp_all
    from frame_loop_step [OF less.prems(1,2) go less.prems(4)] obtain m' f' where
      s: "\<forall>ys. frame_loop fe raw enc p k (xs @ ys) q m n f
        = frame_loop fe raw enc p k (drop (raw - length q) xs @ ys) [] m' (n + enc) f'"
         "good f'" "length m' = length m"
      by blast
    let ?rest = "drop (raw - length q) xs"
    have s0: "run p k (xs @ zs) q m n f = run p k (?rest @ zs) [] m' (n + enc) f'" for zs
      unfolding run_def by (simp only: s(1))
    have len: "length ?rest + length ([] :: sample list) < length xs + length q"
      using go(1) raw_pos less.prems(2) by simp
    have l1: "length ([] :: sample list) + length ?rest + length ys = ?total - raw"
      using go(1) less.prems(2) by simp
    have "?total div raw = Suc ((?total - raw) div raw)"
      by (rule le_div_geq) (use raw_pos go in simp_all)
    then have room: "n + enc + (length ([] :: sample list) + length ?rest + length ys) div raw * enc \<le> k"
      unfolding l1 using less.prems(3) by simp
    have mem: "p + k \<le> length m'" using s(3) less.prems(4) by simp
    have r: "run p k ?rest [] m' (n + enc) f' = Some (Inr (q1, m1, n1, f1))"
      using s0 [of "[]"] less.prems(5) by simp
    have "run p k (?rest @ ys) [] m' (n + enc) f' = run p k ys q1 m1 n1 f1"
      by (rule less.hyps [OF len s(2) _ room mem r]) simp
    then show ?thesis using s0 [of ys] by simp
  qed
qed

lemma run_shift:
  "run p (k + d) xs q m (n + d) f
   = map_option (\<lambda>r. bind_r r (\<lambda>(q, m, n, f). Inr (q, m, n + d, f))) (run (p + d) k xs q m n f)"
proof (induction "k - n" arbitrary: xs q m n f rule: less_induct)
  case less
  show ?case
  proof (cases "raw \<le> length xs + length q \<and> n + enc \<le> k")
    case True
    then have c: "raw \<le> length xs + length q \<and> n + d + enc \<le> k + d" by simp
    have l: "\<not> max_framebuffer_samples < raw" using raw_le by simp
    obtain bs f' where e: "fe_EncodeFrame fe f (q @ take (raw - length q) xs) = (bs, f')"
      by (cases "fe_EncodeFrame fe f (q @ take (raw - length q) xs)")
    have pos: "p + (n + d) = p + d + n" "n + d + enc = n + enc + d" by simp_all
    have smaller: "k - (n + enc) < k - n" using True enc_pos by arith
    show ?thesis
    proof (cases "wr_buf m (int (p + d + n)) bs")
      case (Inl err)
      then show ?thesis
        unfolding run_def frame_loop.simps [of fe raw enc p "k + d" xs] frame_loop.simps [of fe raw enc "p + d" k xs]
          if_P [OF c] if_P [OF True] if_not_P [OF l] e prod.case pos Inl sum.case using True by simp
    next
      case (Inr m')
      have "run p (k + d) xs q m (n + d) f = run p (k + d) (drop (raw - length q) xs) [] m' (n + enc + d) f'"
        unfolding run_def frame_loop.simps [of fe raw enc p "k + d" xs]
          if_P [OF c] if_not_P [OF l] e prod.case pos Inr sum.case using True by simp
      moreover have "run (p + d) k xs q m n f = run (p + d) k (drop (raw - length q) xs) [] m' (n + enc) f'"
        unfolding run_def frame_loop.simps [of fe raw enc "p + d" k xs]
          if_P [OF True] if_not_P [OF l] e prod.case Inr sum.case ..
      ultimately show ?thesis using less.hyps [OF smaller] by simp
    qed
  next
    case False
    then have c: "\<not> (raw \<le> length xs + length q \<and> n + d + enc \<le> k + d)" by simp
    show ?thesis
      unfolding run_def frame_loop.simps [of fe raw enc p "k + d" xs] frame_loop.simps [of fe raw enc "p + d" k xs]
        if_not_P [OF c] if_not_P [OF False] by simp
  qed
qed

lemma frame_compress_run:
  assumes "m_pFrameEncoder c = Some f" "m_nRawSamples c = raw" "m_nEncodedBytes c = enc"
  shows "frame_compress fe xs m p k False c =
     (case run p k xs (m_EncodeBuffer c) m 0 f of
        None \<Rightarrow> Inl No_Return
      | Some r \<Rightarrow> bind_r r (\<lambda>(q, m', n, f'). Inr (int n, m', c\<lparr>m_EncodeBuffer := q, m_pFrameEncoder := Some f'\<rparr>)))"
  unfolding frame_compress_def run_def assms option.case
  by (cases "frame_loop fe raw enc p k xs (m_EncodeBuffer c) m 0 f")
    (auto simp: bind_r_def Let_def split: sum.splits prod.splits)

lemma frame_compress_streaming:
  assumes "frame_inv good raw enc c"
    and "(length (m_EncodeBuffer c) + length xs + length ys) div raw * enc \<le> k" "p + k \<le> length m"
    and "frame_compress fe xs m p k False c = Inr (int n1, m1, c1)"
    and "frame_compress fe ys m1 (p + n1) (k - n1) False c1 = Inr (int n2, m2, c2)"
  shows "frame_compress fe (xs @ ys) m p k False c = Inr (int (n1 + n2), m2, c2)"
proof -
  obtain f where f: "m_pFrameEncoder c = Some f" "good f"
    using assms(1) by (auto simp: frame_inv_def split: option.splits)
  have c: "m_nRawSamples c = raw" "m_nEncodedBytes c = enc" "length (m_EncodeBuffer c) \<le> raw"
    using assms(1) by (simp_all add: frame_inv_def)
  note fc = frame_compress_run [OF f(1) c(1,2)]
  from frame_compress_safe [OF assms(1,3), of xs False] assms(4) have n1: "n1 \<le> k" by auto
  obtain q1 f1 where r1: "run p k xs (m_EncodeBuffer c) m 0 f = Some (Inr (q1, m1, n1, f1))"
    and c1: "c1 = c\<lparr>m_EncodeBuffer := q1, m_pFrameEncoder := Some f1\<rparr>"
    using assms(4) unfolding fc by (auto simp: bind_r_eq_Inr split: option.splits)
  have a: "run p k (xs @ ys) (m_EncodeBuffer c) m 0 f = run p k ys q1 m1 n1 f1"
    by (rule run_append [OF f(2) c(3) _ assms(3) r1]) (use assms(2) in simp)
  have fc1: "frame_compress fe ys m1 (p + n1) (k - n1) False c1 =
     (case run (p + n1) (k - n1) ys q1 m1 0 f1 of
        None \<Rightarrow> Inl No_Return
      | Some r \<Rightarrow> bind_r r (\<lambda>(q, m', n, f'). Inr (int n, m', c1\<lparr>m_EncodeBuffer := q, m_pFrameEncoder := Some f'\<rparr>)))"
    using frame_compress_run [of c1 f1 ys m1 "p + n1" "k - n1"] c by (simp add: c1)
  have "(case run (p + n1) (k - n1) ys q1 m1 0 f1 of
        None \<Rightarrow> Inl No_Return
      | Some r \<Rightarrow> bind_r r (\<lambda>(q, m', n, f'). Inr (int n, m', c1\<lparr>m_EncodeBuffer := q, m_pFrameEncoder := Some f'\<rparr>)))
      = Inr (int n2, m2, c2)"
    unfolding fc1 [symmetric] by (rule assms(5))
  then obtain q2 f2 where r2: "run (p + n1) (k - n1) ys q1 m1 0 f1 = Some (Inr (q2, m2, n2, f2))"
    and c2: "c2 = c1\<lparr>m_EncodeBuffer := q2, m_pFrameEncoder := Some f2\<rparr>"
    by (auto simp: bind_r_eq_Inr split: option.splits)
  have "run p k ys q1 m1 n1 f1 = Some (Inr (q2, m2, n2 + n1, f2))"
    using run_shift [of p "k - n1" n1 ys q1 m1 0 f1] n1 r2 by simp
  with a show ?thesis by (simp add: fc c2 c1)
qed

end

section \<open>Speex as a voice codec\<close>

definition speex_ready :: "'s speex \<Rightarrow> bool" where
  "speex_ready s = (m_States s \<noteq> None \<and> m_Quality s = 8)"

interpretation speex_sized: sized_frames speex_ready "speex_frames l" 160 38
  for l :: "'s speex_lib"
  by unfold_locales
    (auto simp: max_framebuffer_samples_def speex_ready_def speex_frames_def speex_encode_frame_def
       speex_decode_frame_def encoded_frame_size_def split: prod.splits option.splits)

interpretation speex_codec: voice_codec
  "frame_inv speex_ready 160 38" "\<lambda>_. True" 0 "\<lambda>_ _ _. True" "frame_compress (speex_frames l)" "frame_decompress (speex_frames l)"
  for l :: "'s speex_lib"
  by unfold_locales (auto intro: speex_sized.frame_decompress_safe speex_sized.frame_compress_safe)

text \<open>\<^verbatim>\<open>Init(SPEEX_VOICE_QUALITY)\<close> puts a new codec in order.\<close>

lemma speex_init_ready:
  assumes "speex_init l = Some st"
  shows "fst (frame_init (speex_frames l) 5 (new_frame_codec s))"
    and "frame_inv speex_ready 160 38 (snd (frame_init (speex_frames l) 5 (new_frame_codec s)))"
  using assms
  by (simp_all add: frame_init_def new_frame_codec_def speex_frames_def speex_frame_init_def speex_quality_def
      encoded_frame_size_def frame_inv_def speex_ready_def)

section \<open>Properties\<close>

text \<open>
  C17: Cutting the sound of a player into packets changes nothing about what Speex sends.  Two calls
  of \<^verbatim>\<open>VoiceCodec_Frame::Compress\<close>, the second writing behind the first, leave the same bytes, the same
  queue and the same encoder state as one call with all the samples, as long as the buffer has room
  for the whole frames: every sample goes into exactly one frame, in order, and the samples that do not
  fill a frame wait in the queue for the next call.
\<close>

theorem speex_compress_streaming:
  assumes "frame_inv speex_ready 160 38 c"
    and "(length (m_EncodeBuffer c) + length xs + length ys) div 160 * 38 \<le> k" "p + k \<le> length m"
    and "frame_compress (speex_frames l) xs m p k False c = Inr (int n1, m1, c1)"
    and "frame_compress (speex_frames l) ys m1 (p + n1) (k - n1) False c1 = Inr (int n2, m2, c2)"
  shows "frame_compress (speex_frames l) (xs @ ys) m p k False c = Inr (int (n1 + n2), m2, c2)"
  by (rule speex_sized.frame_compress_streaming [OF assms])

text \<open>A library that keeps no state and encodes every frame as silence, for the witness.\<close>

definition silent_speex :: "unit speex_lib" where
  "silent_speex = \<lparr>speex_init = Some (), speex_encode = \<lambda>_ xs. (replicate 38 0, ()),
     speex_decode = \<lambda>_ _. (replicate 160 0, ()), speex_set_quality = \<lambda>_ _. (), speex_reset = \<lambda>_. ()\<rparr>"

definition ready_speex :: "nat \<Rightarrow> unit speex frame_codec" where
  "ready_speex n = \<lparr>m_EncodeBuffer = replicate n 1, m_pFrameEncoder = Some \<lparr>m_States = Some (), m_Quality = 8\<rparr>,
     m_nRawBytes = 320, m_nRawSamples = 160, m_nEncodedBytes = 38\<rparr>"

lemma silent_frame_loop:
  assumes "length xs + length q < 160"
  shows "frame_loop fe 160 38 p k xs q m n f = Some (Inr (xs, q, m, n, f))"
  using assms by (subst frame_loop.simps) simp

text \<open>90 samples twice: nothing is sent for the first, one frame for both, and 20 samples wait.\<close>

theorem speex_compress_streaming_witness:
  "frame_compress (speex_frames silent_speex) (replicate 90 1 @ replicate 90 1) (replicate 50 7) 0 40 False (ready_speex 0)
   = Inr (int (0 + 38), replicate 38 0 @ replicate 12 7, ready_speex 20)"
proof (rule speex_compress_streaming)
  show "frame_compress (speex_frames silent_speex) (replicate 90 1) (replicate 50 7) 0 40 False (ready_speex 0)
      = Inr (int 0, replicate 50 7, ready_speex 90)"
    by (simp add: frame_compress_def ready_speex_def silent_frame_loop store_rest_def)
  have "frame_loop (speex_frames silent_speex) 160 38 0 40 (replicate 90 1) (replicate 90 1) (replicate 50 7) 0
      \<lparr>m_States = Some (), m_Quality = 8\<rparr>
    = Some (Inr (replicate 20 1, [], replicate 38 0 @ replicate 12 7, 38, \<lparr>m_States = Some (), m_Quality = 8\<rparr>))"
    by (subst frame_loop.simps)
      (simp add: max_framebuffer_samples_def speex_frames_def speex_encode_frame_def silent_speex_def
        encoded_frame_size_def wr_buf_def silent_frame_loop)
  then show "frame_compress (speex_frames silent_speex) (replicate 90 1) (replicate 50 7) (0 + 0) (40 - 0) False (ready_speex 90)
      = Inr (int 38, replicate 38 0 @ replicate 12 7, ready_speex 20)"
    by (simp add: frame_compress_def ready_speex_def store_rest_def)
qed (simp_all add: frame_inv_def ready_speex_def speex_ready_def)

end
