(* ===== verification/Voice_Silk.thy ===== *)
theory Voice_Silk
  imports Complex_Main Voice_Codec
begin

text \<open>
  \<^verbatim>\<open>VoiceEncoder_Silk\<close> (\<^verbatim>\<open>VoiceEncoder_Silk.cpp\<close>), the codec of the players whose type is \<^verbatim>\<open>vct_silk\<close>.
  The Silk library is a parameter.
\<close>

section \<open>The library and the state\<close>

record ('e, 'd) silk_lib =
  silk_encoder_init :: "'e"
  silk_decoder_init :: "'d"
  silk_Encode :: "'e \<Rightarrow> nat \<Rightarrow> int \<Rightarrow> sample list \<Rightarrow> 16 word \<Rightarrow> 16 word \<times> octet list \<times> 'e"
    \<comment> \<open>sampling rate, bit rate, samples and the room; the size it reports and the bytes\<close>
  silk_Decode :: "'d \<Rightarrow> nat \<Rightarrow> octet list \<Rightarrow> bool \<times> sample list \<times> bool \<times> 'd"
    \<comment> \<open>no error, the samples written, \<^verbatim>\<open>moreInternalDecoderFrames\<close>\<close>

record ('e, 'd) silk =
  s_Encoder :: "'e"
  s_Decoder :: "'d"
  s_bitrate :: int
  s_bufOverflowBytes :: "sample list"
  s_samplerate :: nat

definition silk_init :: "('e, 'd) silk_lib \<Rightarrow> ('e, 'd) silk \<Rightarrow> ('e, 'd) silk" where
  "silk_init l s = s\<lparr>s_bitrate := 10000, s_Encoder := silk_encoder_init l, s_Decoder := silk_decoder_init l\<rparr>"

definition silk_reset :: "('e, 'd) silk_lib \<Rightarrow> ('e, 'd) silk \<Rightarrow> ('e, 'd) silk" where
  "silk_reset l s = s\<lparr>s_Encoder := silk_encoder_init l, s_Decoder := silk_decoder_init l, s_bufOverflowBytes := []\<rparr>"

definition silk_set_sample_rate :: "('e, 'd) silk_lib \<Rightarrow> nat \<Rightarrow> ('e, 'd) silk \<Rightarrow> ('e, 'd) silk" where
  "silk_set_sample_rate l r s = (if r \<noteq> s_samplerate s then silk_init l (s\<lparr>s_samplerate := r\<rparr>) else s)"

text \<open>\<^verbatim>\<open>Init\<close> puts the default bit rate back over the one just set.\<close>

definition silk_set_bit_rate :: "('e, 'd) silk_lib \<Rightarrow> rat \<Rightarrow> ('e, 'd) silk \<Rightarrow> ('e, 'd) silk" where
  "silk_set_bit_rate l b s =
     (if b \<noteq> of_int (s_bitrate s)
      then silk_init l (s\<lparr>s_bitrate := (if b < 0 then \<lceil>b\<rceil> else \<lfloor>b\<rfloor>)\<rparr>) else s)"

section \<open>Compress\<close>

fun silk_chunks ::
    "('e, 'd) silk_lib \<Rightarrow> int \<Rightarrow> nat \<Rightarrow> nat \<Rightarrow> sample list \<Rightarrow> octet list \<Rightarrow> int \<Rightarrow> ('e, 'd) silk
     \<Rightarrow> voice_error + octet list \<times> int \<times> ('e, 'd) silk" where
  "silk_chunks l pmax frame 0 xs m p s = Inr (m, p, s)"
| "silk_chunks l pmax frame (Suc n) xs m p s =
     (let room = (if pmax - (p + 2) > 0xFFFF then - 1 else pmax - (p + 2))
      in case silk_Encode l (s_Encoder s) (s_samplerate s) (max 0 (s_bitrate s)) (take frame xs) (word_of_int room) of
           (nbytes, bs, e') \<Rightarrow>
             bind_r (wr_buf m (p + 2) bs) (\<lambda>m1.
             bind_r (wr_buf m1 p (le16 nbytes)) (\<lambda>m2.
               silk_chunks l pmax frame n (drop frame xs) m2 (p + 2 + sint nbytes) (s\<lparr>s_Encoder := e'\<rparr>))))"

definition silk_compress ::
    "('e, 'd) silk_lib \<Rightarrow> sample list \<Rightarrow> octet list \<Rightarrow> nat \<Rightarrow> nat \<Rightarrow> bool \<Rightarrow> ('e, 'd) silk
     \<Rightarrow> voice_error + int \<times> octet list \<times> ('e, 'd) silk" where
  "silk_compress l xs m p k fin s =
     (let ys = (if s_bufOverflowBytes s \<noteq> [] then s_bufOverflowBytes s @ xs else xs);
          frame = s_samplerate s div 50
      in if frame = 0 then Inl Zero_Frame
         else let left = length ys mod frame
              in bind_r (silk_chunks l (int (p + k)) frame (length ys div frame) ys m (int p) s) (\<lambda>(m1, p1, s1).
                   let s2 = s1\<lparr>s_bufOverflowBytes :=
                              (if left \<le> length xs \<and> left \<noteq> 0 then drop (length xs - left) xs else [])\<rparr>
                   in if fin then
                        (if int (p + k) > p1 + 2
                         then bind_r (wr_buf m1 p1 (le16 0xFFFF)) (\<lambda>m2. Inr (p1 + 2 - int p, m2, silk_reset l s2))
                         else Inr (p1 - int p, m1, silk_reset l s2))
                      else Inr (p1 - int p, m1, s2)))"

section \<open>Decompress\<close>

text \<open>
  One payload: the library is called as long as it has more frames.  Its samples go to the buffer
  behind those written so far; nothing compares them with the room that is left.
\<close>

partial_function (option) silk_payload ::
    "('e, 'd) silk_lib \<Rightarrow> nat \<Rightarrow> nat \<Rightarrow> octet list \<Rightarrow> sample list \<Rightarrow> 'd
     \<Rightarrow> (voice_error + bool \<times> sample list \<times> 'd) option" where
  "silk_payload l rate k bs out d =
     (case silk_Decode l d rate bs of
        (ok, xs, again, d') \<Rightarrow>
          if k < 2 * length (out @ xs) then Some (Inl (Write_Outside (int (2 * length out))))
          else if \<not> ok then Some (Inr (False, out, d'))
          else if again then silk_payload l rate k bs (out @ xs) d'
          else Some (Inr (True, out @ xs, d')))"

text \<open>The loop over the payloads; the boolean tells whether it was left by an error of the library.\<close>

function silk_payloads ::
    "('e, 'd) silk_lib \<Rightarrow> octet list \<Rightarrow> nat \<Rightarrow> nat \<Rightarrow> nat \<Rightarrow> sample list \<Rightarrow> ('e, 'd) silk
     \<Rightarrow> voice_error + bool \<times> sample list \<times> ('e, 'd) silk" where
  "silk_payloads l m stop k p out s =
     (if stop \<le> p \<or> stop - p < 2 then Inr (True, out, s)
      else bind_r (rd16 m p) (\<lambda>size.
        if size = 0xFFFF then Inr (True, out, silk_reset l s)
        else if size = 0 then
          (let frame = s_samplerate s div 50 in
           if sint (of_nat ((k - 2 * length out) div 2) :: 16 word) < int frame then Inr (True, out, s)
           else silk_payloads l m stop k (p + 2) (out @ replicate frame 0) s)
        else if stop < p + 2 + unat size then Inr (True, out, s)
        else bind_r (rd_buf m (p + 2) (unat size)) (\<lambda>bs.
          case silk_payload l (s_samplerate s) k bs out (s_Decoder s) of
            None \<Rightarrow> Inl No_Return
          | Some r \<Rightarrow> bind_r r (\<lambda>(ok, out', d).
              if ok then silk_payloads l m stop k (p + 2 + unat size) out' (s\<lparr>s_Decoder := d\<rparr>)
              else Inr (False, out', s\<lparr>s_Decoder := d\<rparr>)))))"
  by pat_completeness auto

termination
  by (relation "measure (\<lambda>(l, m, stop, k, p, out, s). stop - p)") auto

declare silk_payloads.simps [simp del]

text \<open>An error of the library returns the number of bytes, every other way out that of samples.\<close>

definition silk_decompress ::
    "('e, 'd) silk_lib \<Rightarrow> octet list \<Rightarrow> nat \<Rightarrow> nat \<Rightarrow> nat \<Rightarrow> ('e, 'd) silk
     \<Rightarrow> voice_error + int \<times> sample list \<times> ('e, 'd) silk" where
  "silk_decompress l m p len k s =
     bind_r (silk_payloads l m (p + len) k p [] s) (\<lambda>(ok, out, s').
       Inr (if ok then int (length out) else 2 * int (length out), out, s'))"

section \<open>Reading stays inside\<close>

definition read_error :: "voice_error + 'a \<Rightarrow> bool" where
  "read_error r = (case r of Inl (Read_Outside _) \<Rightarrow> True | _ \<Rightarrow> False)"

lemma read_error_simps [simp]:
  "\<not> read_error (Inr x)" "read_error (Inl (Read_Outside p))" "\<not> read_error (Inl (Write_Outside q))"
  "\<not> read_error (Inl No_Return)" "\<not> read_error (Inl Zero_Frame)"
  by (simp_all add: read_error_def)

lemma read_error_bind:
  "\<not> read_error m \<Longrightarrow> (\<And>x. m = Inr x \<Longrightarrow> \<not> read_error (f x)) \<Longrightarrow> \<not> read_error (bind_r m f)"
  by (cases m) (auto simp: read_error_def)

lemma silk_payload_no_read_error:
  fixes l :: "('x, 'y) silk_lib"
  assumes "silk_payload l rate k bs out d = Some r"
  shows "\<not> read_error r"
proof (rule silk_payload.raw_induct [where P = "\<lambda>l rate k bs out d r. \<not> read_error r", OF _ assms])
  fix rec :: "('x, 'y) silk_lib \<Rightarrow> nat \<Rightarrow> nat \<Rightarrow> octet list \<Rightarrow> sample list \<Rightarrow> 'y
     \<Rightarrow> (voice_error + bool \<times> sample list \<times> 'y) option"
    and l rate k bs out d r
  assume "\<And>l rate k bs out d r. rec l rate k bs out d = Some r \<Longrightarrow> \<not> read_error r"
    and "(case silk_Decode l d rate bs of
        (ok, xs, again, d') \<Rightarrow>
          if k < 2 * length (out @ xs) then Some (Inl (Write_Outside (int (2 * length out))))
          else if \<not> ok then Some (Inr (False, out, d'))
          else if again then rec l rate k bs (out @ xs) d'
          else Some (Inr (True, out @ xs, d'))) = Some r"
  then show "\<not> read_error r"
    by (auto split: prod.splits if_splits)
qed

lemma silk_payloads_no_read_error:
  assumes "stop \<le> length m"
  shows "\<not> read_error (silk_payloads l m stop k p out s)"
proof (induction "stop - p" arbitrary: p out s rule: less_induct)
  case less
  note unfolded = silk_payloads.simps [of l m stop k p out s]
  show ?case
  proof (cases "stop \<le> p \<or> stop - p < 2")
    case True
    then show ?thesis unfolding unfolded by auto
  next
    case False
    then have "p + 2 \<le> length m" using assms by linarith
    then obtain size where size: "rd16 m p = Inr size"
      using rd16_safe by blast
    have smaller: "stop - q < stop - p" if "p + 2 \<le> q" for q using that False by arith
    note ih = less.hyps [OF smaller]
    have rb: "rd_buf m (p + 2) (unat size) = Inr (take (unat size) (drop (p + 2) m))"
      if "\<not> stop < p + 2 + unat size"
      using that assms by (intro rd_buf_safe) simp
    have tail: "\<not> read_error (case silk_payload l (s_samplerate s) k bs out (s_Decoder s) of
            None \<Rightarrow> Inl No_Return
          | Some r \<Rightarrow> bind_r r (\<lambda>(ok, out', d).
              if ok then silk_payloads l m stop k (p + 2 + unat size) out' (s\<lparr>s_Decoder := d\<rparr>)
              else Inr (False, out', s\<lparr>s_Decoder := d\<rparr>)))" for bs
    proof (cases "silk_payload l (s_samplerate s) k bs out (s_Decoder s)")
      case (Some r)
      have "\<not> read_error (bind_r r (\<lambda>(ok, out', d).
              if ok then silk_payloads l m stop k (p + 2 + unat size) out' (s\<lparr>s_Decoder := d\<rparr>)
              else Inr (False, out', s\<lparr>s_Decoder := d\<rparr>)))"
        by (rule read_error_bind [OF silk_payload_no_read_error [OF Some]])
          (use ih [of "p + 2 + unat size"] in \<open>simp split: prod.split\<close>)
      with Some show ?thesis by simp
    qed simp
    show ?thesis
      unfolding unfolded size bind_r_Inr Let_def using False rb tail ih [of "p + 2"]
      by simp
  qed
qed

text \<open>
  C0: The Silk decoder never reads outside of a packet: whatever sizes the packet claims, every read of
  \<^verbatim>\<open>VoiceEncoder_Silk::Decompress\<close> lies inside the bytes it was given.
\<close>

theorem silk_reads_inside:
  assumes "p + len \<le> length m"
  shows "\<not> read_error (silk_decompress l m p len k s)"
  unfolding silk_decompress_def
  by (intro read_error_bind silk_payloads_no_read_error assms) (simp split: prod.split)

section \<open>Where the samples go\<close>

text \<open>
  What the decoder claims after an error of the library is twice what it wrote, so the caller goes on
  to encode samples that the packet does not contain.
\<close>

lemma silk_decompress_count:
  "silk_decompress l m p len k s = Inr (n, out, s') \<Longrightarrow> n = int (length out) \<or> n = 2 * int (length out)"
  by (auto simp: silk_decompress_def bind_r_eq_Inr split: if_splits)

text \<open>A stream of payloads of one byte each.\<close>

definition silk_stream :: "nat \<Rightarrow> octet list" where
  "silk_stream n = concat (replicate n [1, 0, 5])"

lemma silk_stream_Suc [simp]: "silk_stream 0 = []" "silk_stream (Suc n) = [1, 0, 5] @ silk_stream n"
  by (simp_all add: silk_stream_def)

lemma length_silk_stream [simp]: "length (silk_stream n) = 3 * n"
  by (induction n) simp_all

definition frame_each :: "nat \<Rightarrow> ('e, 'd) silk_lib \<Rightarrow> bool" where
  "frame_each frame l = (\<forall>d rate bs. \<exists>xs d'. silk_Decode l d rate bs = (True, xs, False, d') \<and> length xs = frame)"

lemma silk_payload_frame:
  assumes "frame_each frame l"
  shows "(k < 2 * (length out + frame) \<longrightarrow> silk_payload l rate k bs out d = Some (Inl (Write_Outside (int (2 * length out)))))
    \<and> (2 * (length out + frame) \<le> k \<longrightarrow>
         (\<exists>xs d'. silk_payload l rate k bs out d = Some (Inr (True, out @ xs, d')) \<and> length xs = frame))"
proof -
  obtain xs d' where "silk_Decode l d rate bs = (True, xs, False, d')" "length xs = frame"
    using assms unfolding frame_each_def by meson
  then show ?thesis by (subst (1 2) silk_payload.simps) auto
qed

lemma silk_payloads_overflow:
  assumes "frame_each frame l" "holds m p (silk_stream n)" "stop = p + 3 * n" "2 * length out \<le> k"
    and "k < 2 * (length out + frame * n)"
  shows "\<exists>q. silk_payloads l m stop k p out s = Inl (Write_Outside q)"
  using assms(2-)
proof (induction n arbitrary: p out s)
  case 0
  then show ?case by simp
next
  case (Suc n)
  have h: "holds m p ([1, 0] @ [5] @ silk_stream n)" using Suc.prems(1) by simp
  have h2: "holds m (p + 2) ([5] @ silk_stream n)" by (rule holds_next [OF h]) simp
  have h3: "holds m (p + 3) (silk_stream n)" by (rule holds_next [OF h2]) simp
  have "le16 1 = [1, 0]" by (simp add: le16_def)
  then have r: "rd16 m p = Inr 1"
    by (intro rd16_le16) (use holds_take [OF h] in \<open>simp add: numeral_2_eq_2\<close>)
  have rb: "rd_buf m (p + 2) 1 = Inr [5]"
    using h2 holds_take [OF h2] by (simp add: rd_buf_def holds_def)
  have stop: "\<not> (stop \<le> p \<or> stop - p < 2)" "\<not> stop < p + 2 + 1"
    using Suc.prems(2) by auto
  have u: "unat (1 :: 16 word) = 1" "(1 :: 16 word) \<noteq> 0xFFFF" "(1 :: 16 word) \<noteq> 0" by simp_all
  have step: "silk_payloads l m stop k p out s =
     (case silk_payload l (s_samplerate s) k [5] out (s_Decoder s) of
            None \<Rightarrow> Inl No_Return
          | Some r \<Rightarrow> bind_r r (\<lambda>(ok, out', d).
              if ok then silk_payloads l m stop k (p + 2 + 1) out' (s\<lparr>s_Decoder := d\<rparr>)
              else Inr (False, out', s\<lparr>s_Decoder := d\<rparr>)))"
    unfolding silk_payloads.simps [of l m stop k p out s] if_not_P [OF stop(1)] r bind_r_Inr u(1)
      if_not_P [OF u(2)] if_not_P [OF u(3)] if_not_P [OF stop(2)] rb ..
  show ?case
  proof (cases "k < 2 * (length out + frame)")
    case True
    then show ?thesis
      unfolding step using silk_payload_frame [OF assms(1)] by simp
  next
    case False
    then obtain xs d' where f: "silk_payload l (s_samplerate s) k [5] out (s_Decoder s) = Some (Inr (True, out @ xs, d'))"
      "length xs = frame"
      using silk_payload_frame [OF assms(1), of k out "s_samplerate s" "[5]" "s_Decoder s"] by auto
    have "\<exists>q. silk_payloads l m stop k (p + 3) (out @ xs) (s\<lparr>s_Decoder := d'\<rparr>) = Inl (Write_Outside q)"
      by (rule Suc.IH [OF h3]) (use Suc.prems False f(2) in \<open>auto simp: algebra_simps\<close>)
    moreover have "p + 2 + 1 = p + 3" by simp
    ultimately show ?thesis
      unfolding step f option.case bind_r_Inr prod.case if_True by (simp only:)
  qed
qed

text \<open>
  The Silk decoder can be made to write past the buffer.  A packet of small payloads, none of which
  breaks a rule that the code checks, decodes to one frame of 20 ms each, and the decoder is never
  asked whether the frame still fits: at 24 kHz, 35 payloads, 105 bytes, run over the 32768 bytes
  of the buffer that \<^verbatim>\<open>TranscodeVoice\<close> decodes into.
\<close>

theorem silk_overflow:
  assumes "frame_each 480 l" "35 \<le> n" "m = silk_stream n"
  shows "\<exists>q. silk_decompress l m 0 (length m) 32768 s = Inl (Write_Outside q)"
proof -
  have "holds m 0 (silk_stream n)" by (simp add: holds_def assms(3))
  from silk_payloads_overflow [OF assms(1) this, of "length m" "[]" 32768 s] assms(2,3)
  show ?thesis by (auto simp: silk_decompress_def)
qed

theorem silk_overflow_witness:
  "\<exists>q. silk_decompress \<lparr>silk_encoder_init = (), silk_decoder_init = (), silk_Encode = \<lambda>_ _ _ _ _. (0, [], ()),
        silk_Decode = \<lambda>_ _ _. (True, replicate 480 0, False, ())\<rparr>
      (silk_stream 35) 0 (length (silk_stream 35)) 32768
      \<lparr>s_Encoder = (), s_Decoder = (), s_bitrate = 10000, s_bufOverflowBytes = [], s_samplerate = 24000\<rparr>
    = Inl (Write_Outside q)"
  by (rule silk_overflow [OF _ _ refl]) (simp_all add: frame_each_def)

text \<open>
  Silk loses short packets.  When the queue and the new samples together do not fill a frame and
  the queue is not empty, \<^verbatim>\<open>Compress\<close> sends nothing and empties the queue, the new samples included.
\<close>

theorem silk_drops_queue:
  assumes "s_bufOverflowBytes s \<noteq> []" "length (s_bufOverflowBytes s @ xs) < s_samplerate s div 50"
  shows "silk_compress l xs m p k False s = Inr (0, m, s\<lparr>s_bufOverflowBytes := []\<rparr>)"
  using assms by (cases "s_samplerate s div 50") (auto simp: silk_compress_def Let_def)

theorem silk_drops_queue_witness:
  "silk_compress \<lparr>silk_encoder_init = (), silk_decoder_init = (), silk_Encode = \<lambda>_ _ _ _ _. (0, [], ()),
        silk_Decode = \<lambda>_ _ _. (True, [], False, ())\<rparr> [1, 2] [0, 0, 0] 0 3 False
      \<lparr>s_Encoder = (), s_Decoder = (), s_bitrate = 10000, s_bufOverflowBytes = [9], s_samplerate = 24000\<rparr>
    = Inr (0, [0, 0, 0], \<lparr>s_Encoder = (), s_Decoder = (), s_bitrate = 10000, s_bufOverflowBytes = [], s_samplerate = 24000\<rparr>)"
  by (subst silk_drops_queue) simp_all

end
