(* ===== verification/Voice_Props.thy ===== *)
theory Voice_Props
  imports Voice_Parse
begin

text \<open>
  What a voice packet changes (\<open>SV_ParseVoiceData_emu\<close>), the fall back to Speex, the safety of the
  relay and the order of the speaking events.
\<close>

section \<open>What a packet changes\<close>

text \<open>Transcoding only touches the codecs, the output buffers and the count of failures.\<close>

definition same_player :: "'s revoice_player \<Rightarrow> 's revoice_player \<Rightarrow> bool" where
  "same_player p q = (q = p\<lparr>m_Codec := m_Codec q, m_iDecodeFails := m_iDecodeFails q,
     m_steamBuff := m_steamBuff q, m_speexBuff := m_speexBuff q\<rparr>)"

lemma same_player_refl [simp]: "same_player p p"
  by (simp add: same_player_def)

lemma same_player_trans: "same_player p q \<Longrightarrow> same_player q r \<Longrightarrow> same_player p r"
  unfolding same_player_def by (cases p; cases q; cases r) simp

lemma same_player_fields:
  assumes "same_player p q"
  shows "m_CodecType q = m_CodecType p" "m_IsSpeaking q = m_IsSpeaking p" "m_IsBlocked q = m_IsBlocked p"
    "m_IsMuted_Old q = m_IsMuted_Old p" "m_VoiceBusy q = m_VoiceBusy p" "m_VoiceEndTime q = m_VoiceEndTime p"
  using assms unfolding same_player_def by (cases p; cases q; simp)+

lemma same_player_codec: "same_player p (p\<lparr>m_Codec := c\<rparr>)"
  by (simp add: same_player_def)

lemma same_player_fails: "same_player p (p\<lparr>m_Codec := c, m_iDecodeFails := n\<rparr>)"
  by (simp add: same_player_def)

lemma same_player_append:
  "same_player p (p\<lparr>m_Codec := c, m_speexBuff := b\<rparr>)" "same_player p (p\<lparr>m_Codec := c, m_steamBuff := b\<rparr>)"
  by (simp_all add: same_player_def)

lemma transcode_target_same:
  assumes "transcode_target vt env src xs cnt i (p, t) = Inr (r, q, t')"
  shows "same_player p q \<and> m_iDecodeFails q = m_iDecodeFails p"
  using assms
  by (auto simp: transcode_target_def Let_def bind_r_eq_Inr append_out_def
      intro: same_player_codec same_player_append split: if_splits)

lemma transcode_targets_same:
  "transcode_targets vt env src xs cnt is (p, t) = Inr (r, q, t') \<Longrightarrow>
   same_player p q \<and> m_iDecodeFails q = m_iDecodeFails p"
proof (induction "is" arbitrary: p t)
  case (Cons i "is")
  then obtain r1 p1 t1 where 1: "transcode_target vt env src xs cnt i (p, t) = Inr (r1, p1, t1)"
    and 2: "(if r1 = Some True then transcode_targets vt env src xs cnt is (p1, t1) else Inr (r1, p1, t1)) = Inr (r, q, t')"
    by (auto simp: bind_r_eq_Inr)
  note s1 = transcode_target_same [OF 1]
  show ?case
  proof (cases "r1 = Some True")
    case True
    then have "same_player p1 q \<and> m_iDecodeFails q = m_iDecodeFails p1" using 2 Cons.IH by simp
    with s1 show ?thesis using same_player_trans by metis
  next
    case False
    then show ?thesis using s1 2 by simp
  qed
qed simp

lemma transcode_voice_same:
  assumes "transcode_voice vt env src p orig t = Inr (r, q, orig', t')"
  shows "same_player p q"
    and "r = Some False \<Longrightarrow> m_iDecodeFails q \<le> m_iDecodeFails p + 1"
    and "r \<noteq> Some False \<Longrightarrow> m_iDecodeFails q = m_iDecodeFails p"
proof -
  from assms obtain n out s where
    d: "v_Decompress (vt src) (e_data env) 0 (length (e_data env)) voice_buffer_bytes (m_Codec p src) = Inr (n, out, s)"
    by (auto simp: transcode_voice_def bind_r_eq_Inr)
  define p1 where "p1 = p\<lparr>m_Codec := (m_Codec p)(src := s)\<rparr>"
  have p1: "same_player p p1" "m_iDecodeFails p1 = m_iDecodeFails p"
    by (simp_all add: p1_def same_player_codec)
  have all: "same_player p q \<and> (r = Some False \<longrightarrow> m_iDecodeFails q \<le> m_iDecodeFails p + 1)
    \<and> (r \<noteq> Some False \<longrightarrow> m_iDecodeFails q = m_iDecodeFails p)"
  proof (cases "n = 0")
    case True
    then show ?thesis
      using assms d by (auto simp: transcode_voice_def same_player_fails)
  next
    case False
    obtain samples cnt where sub: "e_subscribers env (v_SampleRate (vt src) s) (out @ drop (length out) orig) n = (samples, cnt)"
      by (cases "e_subscribers env (v_SampleRate (vt src) s) (out @ drop (length out) orig) n")
    have "transcode_targets vt env src samples cnt [Opus_Codec, Speex_Codec] (p1, t) = Inr (r, q, t')"
      using assms d False sub by (auto simp: transcode_voice_def bind_r_eq_Inr Let_def p1_def simp del: transcode_targets.simps)
    from transcode_targets_same [OF this] p1 show ?thesis
      using same_player_trans by fastforce
  qed
  then show "same_player p q" "r = Some False \<Longrightarrow> m_iDecodeFails q \<le> m_iDecodeFails p + 1"
    "r \<noteq> Some False \<Longrightarrow> m_iDecodeFails q = m_iDecodeFails p" by simp_all
qed

lemma relay_simps [simp]:
  "g_Players (relay n i sys) = g_Players sys" "g_speakPending (relay n i sys) = g_speakPending sys"
  "g_log (relay n i sys) = g_log sys" "g_mute_map (relay n i sys) = g_mute_map sys"
  "length (g_Clients (relay n i sys)) = length (g_Clients sys)"
  by (simp_all add: relay_def Let_def)

text \<open>What is sent to one client: nothing, or one message that fits.\<close>

definition heard :: "(nat \<Rightarrow> nat \<Rightarrow> bool) \<Rightarrow> nat \<Rightarrow> 32 word \<Rightarrow> nat \<Rightarrow> client \<Rightarrow> bool" where
  "heard mute src stream j c =
     (bit stream j \<and> c_active c \<and> c_connected c \<and> \<not> mute j src \<and> \<not> mute j 255 \<and> (j = src \<longrightarrow> c_loopback c))"

definition one_message :: "(nat \<Rightarrow> nat \<Rightarrow> bool) \<Rightarrow> nat \<Rightarrow> 32 word \<Rightarrow> nat \<Rightarrow> client \<Rightarrow> client \<Rightarrow> bool" where
  "one_message mute src stream j c c' =
     (c' = c \<or>
      (heard mute src stream j c \<and>
       (\<exists>bs. bs \<noteq> [] \<and> cursize (c_datagram c) + length bs + 4 < maxsize (c_datagram c)
          \<and> c' = c\<lparr>c_datagram := write_voice src bs (c_datagram c)\<rparr>)))"

lemma relay_client_message:
  "one_message mute src stream j c (relay_client mute src stream steam speex j ct c)"
  by (auto simp: one_message_def relay_client_def heard_def Let_def)

lemma relay_messages:
  assumes "j < length (g_Clients sys)"
  shows "one_message (g_mute_map sys) i (c_stream (g_Clients sys ! i)) j (g_Clients sys ! j) (g_Clients (relay n i sys) ! j)"
proof (cases "j < n")
  case True
  then show ?thesis using assms relay_client_message by (simp add: relay_def Let_def)
next
  case False
  then show ?thesis using assms by (simp add: relay_def Let_def one_message_def)
qed

text \<open>
  \<open>packet_effect i sys p' sys'\<close>: at most the player \<open>i\<close> has changed, to \<open>p'\<close>, the event for its first
  packet is noted, and every client got at most one message of \<open>i\<close>.
\<close>

definition packet_effect :: "nat \<Rightarrow> 's voice_sys \<Rightarrow> 's revoice_player \<Rightarrow> 's voice_sys \<Rightarrow> bool" where
  "packet_effect i sys p' sys' =
     (g_Players sys' = (g_Players sys)[i := p'] \<and> g_log sys' = g_log sys \<and> g_mute_map sys' = g_mute_map sys
      \<and> length (g_Clients sys') = length (g_Clients sys)
      \<and> (\<forall>j < length (g_Clients sys). one_message (g_mute_map sys) i (c_stream (g_Clients sys ! i)) j
            (g_Clients sys ! j) (g_Clients sys' ! j))
      \<and> (m_IsSpeaking p' = m_IsSpeaking (g_Players sys ! i) \<and> g_speakPending sys' = g_speakPending sys
         \<or> m_IsSpeaking p' \<and> g_speakPending sys' =
             (if m_IsSpeaking (g_Players sys ! i) then g_speakPending sys else (g_speakPending sys)[i := True]))
      \<and> (m_iDecodeFails (g_Players sys ! i) < decode_fail_limit \<longrightarrow> m_iDecodeFails p' < decode_fail_limit))"

lemma packet_effect_quiet:
  assumes "m_IsSpeaking p' = m_IsSpeaking (g_Players sys ! i)" "m_iDecodeFails p' = m_iDecodeFails (g_Players sys ! i)"
  shows "packet_effect i sys p' (sys\<lparr>g_Players := (g_Players sys)[i := p']\<rparr>)"
  using assms by (simp add: packet_effect_def one_message_def)

lemma after_failure_fails:
  "m_iDecodeFails p \<le> k + 1 \<Longrightarrow> k < decode_fail_limit \<Longrightarrow> m_iDecodeFails (after_failure p) < decode_fail_limit"
  by (auto simp: after_failure_def decode_fail_limit_def)

lemma note_voice_fields [simp]:
  "m_IsSpeaking (note_voice env p)" "m_iDecodeFails (note_voice env p) = m_iDecodeFails p"
  "m_CodecType (note_voice env p) = m_CodecType p" "m_VoiceBusy (note_voice env p) = m_VoiceBusy p"
  "m_IsBlocked (note_voice env p) = m_IsBlocked p" "m_Codec (note_voice env p) = m_Codec p"
  "m_IsMuted_Old (note_voice env p) = m_IsMuted_Old p"
  by (simp_all add: note_voice_def increase_voice_rate_def set_last_voice_time_def update_voice_rate_def speak_def Let_def)

lemma finish_packet_effect:
  assumes "transcode_voice vt env src p orig t = Inr res" "i < length (g_Players sys)"
  shows "\<exists>q c. finish_packet env i res sys
      = sys\<lparr>g_Players := (g_Players sys)[i := q], g_Clients := c, originalBuf := fst (snd (snd res)), transCodedBuf := snd (snd (snd res))\<rparr>
    \<and> m_IsSpeaking q = m_IsSpeaking p
    \<and> (m_iDecodeFails p < decode_fail_limit \<longrightarrow> m_iDecodeFails q < decode_fail_limit)
    \<and> length c = length (g_Clients sys)
    \<and> (\<forall>j < length (g_Clients sys). one_message (g_mute_map sys) i (c_stream (g_Clients sys ! i)) j
            (g_Clients sys ! j) (c ! j))"
proof -
  obtain r q orig' t' where res: "res = (r, q, orig', t')" by (cases res)
  note same = transcode_voice_same [OF assms(1) [unfolded res]]
  note fields = same_player_fields [OF same(1)]
  let ?sys1 = "sys\<lparr>originalBuf := orig', transCodedBuf := t'\<rparr>"
  have none: "\<forall>j < length (g_Clients sys). one_message mute i st j (g_Clients sys ! j) (g_Clients sys ! j)" for mute st
    by (simp add: one_message_def)
  consider "r = None" | "r = Some False" | "r = Some True" by (metis (full_types) option.exhaust)
  then show ?thesis
  proof cases
    case 1
    then show ?thesis
      unfolding res using same fields none
      by (intro exI [of _ "q\<lparr>m_steamBuff := [], m_speexBuff := []\<rparr>"] exI [of _ "g_Clients sys"])
        (simp add: finish_packet_def Let_def)
  next
    case 2
    have "m_IsSpeaking (after_failure q) = m_IsSpeaking q" by (simp add: after_failure_def)
    then show ?thesis
      unfolding res using 2 same fields none after_failure_fails [of q "m_iDecodeFails p"]
      by (intro exI [of _ "after_failure q"] exI [of _ "g_Clients sys"]) (simp add: finish_packet_def Let_def)
  next
    case 3
    define sys2 where "sys2 = ?sys1\<lparr>g_Players := (g_Players sys)[i := q\<lparr>m_iDecodeFails := 0\<rparr>]\<rparr>"
    define c where "c = (if m_IsMuted_Old q then g_Clients sys else g_Clients (relay (e_maxclients env) i sys2))"
    have rel: "relay (e_maxclients env) i sys2 = sys2\<lparr>g_Clients := g_Clients (relay (e_maxclients env) i sys2)\<rparr>"
      by (simp add: relay_def Let_def)
    have msgs: "one_message (g_mute_map sys) i (c_stream (g_Clients sys ! i)) j (g_Clients sys ! j) (c ! j)"
      if "j < length (g_Clients sys)" for j
      using relay_messages [of j sys2 i "e_maxclients env"] that by (simp add: c_def sys2_def one_message_def)
    have len: "length c = length (g_Clients sys)" by (simp add: c_def sys2_def)
    have eq: "finish_packet env i res sys
        = sys\<lparr>g_Players := (g_Players sys)[i := q\<lparr>m_iDecodeFails := 0\<rparr>], g_Clients := c, originalBuf := orig', transCodedBuf := t'\<rparr>"
    proof (cases "m_IsMuted_Old q")
      case True
      then show ?thesis using 3 by (simp add: res finish_packet_def Let_def c_def)
    next
      case False
      have "finish_packet env i res sys = relay (e_maxclients env) i sys2"
        using 3 False by (simp add: res finish_packet_def Let_def sys2_def)
      also have "\<dots> = sys2\<lparr>g_Clients := c\<rparr>" using False rel by (simp add: c_def)
      finally show ?thesis by (simp add: sys2_def)
    qed
    show ?thesis
      unfolding eq
      by (intro exI [of _ "q\<lparr>m_iDecodeFails := 0\<rparr>"] exI [of _ c])
        (use fields msgs len in \<open>simp add: res decode_fail_limit_def\<close>)
  qed
qed

lemma packet_effect_statics:
  "packet_effect i sys p (s\<lparr>originalBuf := o1, transCodedBuf := t1\<rparr>) = packet_effect i sys p s"
  by (simp add: packet_effect_def)

lemma parse_voice_effect:
  assumes "parse_voice vt env i sys = Inr sys'" "i < length (g_Players sys)" "length (e_data env) \<le> 8192"
  shows "\<exists>p'. packet_effect i sys p' sys'"
proof -
  let ?p = "g_Players sys ! i"
  define p0 where "p0 = ?p\<lparr>m_steamBuff := [], m_speexBuff := []\<rparr>"
  define p1 where "p1 = note_voice env p0"
  have p0: "m_IsSpeaking p0 = m_IsSpeaking ?p" "m_iDecodeFails p0 = m_iDecodeFails ?p" "m_IsBlocked p0 = m_IsBlocked ?p"
    "m_CodecType p0 = m_CodecType ?p"
    by (simp_all add: p0_def)
  define sys0 where "sys0 = sys\<lparr>g_Players := (g_Players sys)[i := p0]\<rparr>"
  define pend where "pend = (if \<not> m_IsSpeaking p0 then (g_speakPending sys)[i := True] else g_speakPending sys)"
  define sys1 where "sys1 = sys0\<lparr>g_Players := (g_Players sys0)[i := p1], g_speakPending := pend\<rparr>"
  have quiet: "packet_effect i sys p0 sys0"
    unfolding sys0_def by (rule packet_effect_quiet) (simp_all add: p0)
  have noted: "packet_effect i sys p1 sys1"
    by (auto simp: packet_effect_def sys1_def sys0_def pend_def p1_def p0 one_message_def)
  note small = assms(3)
  have parse: "parse_voice vt env i sys =
     (if m_VoiceBusy ?p then Inr sys
      else if \<not> e_voiceenable env then Inr sys0
      else if m_IsBlocked ?p then Inr sys0
      else (case source_codec (m_CodecType ?p) of
              None \<Rightarrow> Inr sys1
            | Some src \<Rightarrow> bind_r (transcode_voice vt env src p1 (originalBuf sys) (transCodedBuf sys))
                            (\<lambda>res. Inr (finish_packet env i res sys1))))"
    unfolding parse_voice_def Let_def
    using small assms(2) by (simp add: sys1_def sys0_def p1_def p0_def pend_def cong: if_cong option.case_cong)
  show ?thesis
  proof (cases "m_VoiceBusy ?p \<or> \<not> e_voiceenable env \<or> m_IsBlocked ?p")
    case True
    have "packet_effect i sys ?p sys"
      using packet_effect_quiet [of ?p sys i] by simp
    with True quiet parse assms(1) show ?thesis by (auto split: if_splits)
  next
    case False
    show ?thesis
    proof (cases "source_codec (m_CodecType ?p)")
      case None
      with False noted parse assms(1) show ?thesis by auto
    next
      case (Some src)
      have "bind_r (transcode_voice vt env src p1 (originalBuf sys) (transCodedBuf sys))
          (\<lambda>res. Inr (finish_packet env i res sys1)) = Inr sys'"
        unfolding assms(1) [symmetric] parse using False Some by simp
      then obtain res where
        t: "transcode_voice vt env src p1 (originalBuf sys) (transCodedBuf sys) = Inr res"
        and s: "sys' = finish_packet env i res sys1"
        by (auto elim: bind_r_InrE)
      have "i < length (g_Players sys1)" using assms(2) by (simp add: sys1_def sys0_def)
      from finish_packet_effect [OF t this] obtain q c where
        f: "sys' = sys1\<lparr>g_Players := (g_Players sys1)[i := q], g_Clients := c, originalBuf := fst (snd (snd res)),
              transCodedBuf := snd (snd (snd res))\<rparr>"
           "m_IsSpeaking q = m_IsSpeaking p1"
           "m_iDecodeFails p1 < decode_fail_limit \<longrightarrow> m_iDecodeFails q < decode_fail_limit"
           "length c = length (g_Clients sys1)"
           "\<forall>j < length (g_Clients sys1). one_message (g_mute_map sys1) i (c_stream (g_Clients sys1 ! i)) j
              (g_Clients sys1 ! j) (c ! j)"
        unfolding s by blast
      have "packet_effect i sys q sys'"
        using f by (auto simp: packet_effect_def sys1_def sys0_def pend_def p1_def p0)
      then show ?thesis ..
    qed
  qed
qed

lemma drop_client_effect:
  assumes "parse_voice vt env i sys = Inr sys'" "i < length (g_Players sys)" "8192 < length (e_data env)"
    "\<not> m_VoiceBusy (g_Players sys ! i)"
  shows "sys' = drop_client i (sys\<lparr>g_Players := (g_Players sys)[i := (g_Players sys ! i)\<lparr>m_steamBuff := [], m_speexBuff := []\<rparr>]\<rparr>)"
  using assms by (simp add: parse_voice_def Let_def)

section \<open>Properties\<close>

text \<open>
  C5: A voice packet concerns only its sender and its listeners.  \<^verbatim>\<open>SV_ParseVoiceData_emu\<close> changes no
  other player; every client gets at most one message, with the sender's index; only a client gets it
  that is active and connected, is in the sender's stream, has muted neither the sender nor everybody
  and, when it is the sender, has loopback on; the message leaves the datagram below its size,
  header included; and the count of decoding failures stays below the limit.
\<close>

theorem voice_packet_isolated:
  assumes "parse_voice vt env i sys = Inr sys'" "i < length (g_Players sys)" "length (e_data env) \<le> 8192"
    and "j < length (g_Clients sys)"
    and "\<forall>p \<in> set (g_Players sys). m_iDecodeFails p < decode_fail_limit"
  shows "(\<forall>k. k \<noteq> i \<longrightarrow> g_Players sys' ! k = g_Players sys ! k)
    \<and> one_message (g_mute_map sys) i (c_stream (g_Clients sys ! i)) j (g_Clients sys ! j) (g_Clients sys' ! j)
    \<and> (\<forall>p \<in> set (g_Players sys'). m_iDecodeFails p < decode_fail_limit)"
proof -
  obtain p' where e: "packet_effect i sys p' sys'"
    using parse_voice_effect [OF assms(1-3)] by blast
  have "m_iDecodeFails (g_Players sys ! i) < decode_fail_limit" using assms(2,5) by simp
  with e have "m_iDecodeFails p' < decode_fail_limit" by (simp add: packet_effect_def)
  then have "\<forall>p \<in> set (g_Players sys'). m_iDecodeFails p < decode_fail_limit"
    using e assms(5) set_update_subset_insert [of "g_Players sys" i p'] by (auto simp: packet_effect_def)
  with e assms(4) show ?thesis by (simp add: packet_effect_def)
qed

text \<open>The witnesses use a codec whose packets are its samples.\<close>

definition plain_codec :: "unit codec_class" where
  "plain_codec = \<lparr>v_Compress = \<lambda>xs m p k fin s. Inr (int (length xs), map ucast xs @ drop (length xs) m, s),
     v_Decompress = \<lambda>m p n k s. Inr (int n, map ucast (take n (drop p m)), s),
     v_ResetState = \<lambda>s. s, v_SampleRate = \<lambda>s. 8000, v_SetBitRate = \<lambda>_ s. s, v_SetSteamid = \<lambda>_ s. s\<rparr>"

definition some_packet :: "octet list \<Rightarrow> packet_env" where
  "some_packet bs = \<lparr>e_data = bs, e_voiceenable = True, e_time = 1, e_now = 1000, e_maxclients = 2,
     e_subscribers = \<lambda>_ xs n. (xs, n), e_resample = \<lambda>_ _ xs _. xs, e_bad_alloc = \<lambda>_. False\<rparr>"

definition two_players :: "unit voice_sys" where
  "two_players = \<lparr>g_Players = replicate 2 ((fresh_player (\<lambda>_. ()))\<lparr>m_CodecType := vct_opus\<rparr>),
     g_Clients = replicate 2 \<lparr>c_active = True, c_connected = True, c_loopback = False, c_stream = 3,
       c_datagram = \<lparr>cursize = 0, maxsize = 100, d_voice = []\<rparr>\<rparr>,
     g_speakPending = [False, False], g_mute_map = \<lambda>_ _. False, originalBuf = [], transCodedBuf = [], g_log = []\<rparr>"

definition heard_packet :: "unit voice_sys" where
  "heard_packet = (case parse_voice (\<lambda>_. plain_codec) (some_packet [1, 2]) 0 two_players of Inr s \<Rightarrow> s | Inl _ \<Rightarrow> two_players)"

lemma heard_packet: "parse_voice (\<lambda>_. plain_codec) (some_packet [1, 2]) 0 two_players = Inr heard_packet"
proof -
  have "ok_r (parse_voice (\<lambda>_. plain_codec) (some_packet [1, 2]) 0 two_players)"
    by (simp add: parse_voice_def Let_def two_players_def fresh_player_def some_packet_def source_codec_def
        transcode_voice_def transcode_target_def plain_codec_def voice_buffer_bytes_def append_out_def)
  then show ?thesis by (auto simp: heard_packet_def ok_r_iff)
qed

theorem voice_packet_isolated_witness:
  "g_Players heard_packet ! 1 = g_Players two_players ! 1
    \<and> one_message (\<lambda>_ _. False) 0 3 1 (g_Clients two_players ! 1) (g_Clients heard_packet ! 1)"
  using voice_packet_isolated [OF heard_packet, of 1]
  by (simp add: two_players_def some_packet_def fresh_player_def decode_fail_limit_def)

fun parse_all ::
    "(codec_id \<Rightarrow> 's codec_class) \<Rightarrow> packet_env list \<Rightarrow> nat \<Rightarrow> 's voice_sys \<Rightarrow> voice_error + 's voice_sys" where
  "parse_all vt [] i sys = Inr sys"
| "parse_all vt (env # envs) i sys = bind_r (parse_voice vt env i sys) (parse_all vt envs i)"

definition decodes_nothing :: "'s codec_class \<Rightarrow> bool" where
  "decodes_nothing v = (\<forall>bs s. \<exists>s'. v_Decompress v bs 0 (length bs) voice_buffer_bytes s = Inr (0, [], s'))"

lemma undecodable_packet:
  assumes "decodes_nothing (vt src)" "i < length (g_Players sys)" "p = g_Players sys ! i"
    and "\<not> m_VoiceBusy p" "\<not> m_IsBlocked p" "source_codec (m_CodecType p) = Some src"
    and "e_voiceenable env" "length (e_data env) \<le> 8192"
  shows "\<exists>sys' q. parse_voice vt env i sys = Inr sys' \<and> length (g_Players sys') = length (g_Players sys)
    \<and> q = g_Players sys' ! i \<and> \<not> m_VoiceBusy q \<and> \<not> m_IsBlocked q
    \<and> m_CodecType q = (if m_iDecodeFails p + 1 < decode_fail_limit then m_CodecType p else vct_speex)
    \<and> m_iDecodeFails q = (if m_iDecodeFails p + 1 < decode_fail_limit then m_iDecodeFails p + 1 else 0)"
proof -
  define p0 where "p0 = p\<lparr>m_steamBuff := [], m_speexBuff := []\<rparr>"
  define p1 where "p1 = note_voice env p0"
  define pend where "pend = (if \<not> m_IsSpeaking p0 then (g_speakPending sys)[i := True] else g_speakPending sys)"
  define sys1 where "sys1 = sys\<lparr>g_Players := ((g_Players sys)[i := p0])[i := p1], g_speakPending := pend\<rparr>"
  obtain s' where d: "v_Decompress (vt src) (e_data env) 0 (length (e_data env)) voice_buffer_bytes (m_Codec p src) = Inr (0, [], s')"
    using assms(1) unfolding decodes_nothing_def by blast
  define q where "q = p1\<lparr>m_Codec := (m_Codec p1)(src := s'), m_iDecodeFails := m_iDecodeFails p + 1\<rparr>"
  have t: "transcode_voice vt env src p1 orig tb = Inr (Some False, q, orig, tb)" for orig tb
    using d by (simp add: transcode_voice_def p1_def p0_def q_def)
  have q: "m_CodecType q = m_CodecType p" "\<not> m_IsBlocked q" "\<not> m_VoiceBusy q" "m_iDecodeFails q = m_iDecodeFails p + 1"
    using assms(4,5) by (simp_all add: q_def p1_def p0_def)
  have p1: "source_codec (m_CodecType p1) = Some src" "\<not> m_IsBlocked p0"
    using assms(5,6) by (simp_all add: p1_def p0_def)
  have big: "\<not> 8192 < length (e_data env)" using assms(8) by simp
  have pt: "g_Players sys1 = (g_Players sys)[i := p1]" by (simp add: sys1_def)
  have "parse_voice vt env i sys = Inr (finish_packet env i (Some False, q, originalBuf sys, transCodedBuf sys) sys1)"
    unfolding parse_voice_def Let_def assms(3) [symmetric] p0_def [symmetric] p1_def [symmetric]
    using assms(4,7) p1 big t by (simp add: sys1_def pend_def)
  moreover have "g_Players (finish_packet env i (Some False, q, originalBuf sys, transCodedBuf sys) sys1)
      = (g_Players sys)[i := after_failure q]"
    by (simp add: finish_packet_def Let_def pt)
  ultimately show ?thesis
    using assms(2) q by (auto simp: after_failure_def)
qed

lemma undecodable_packets:
  assumes "decodes_nothing (vt src)" "i < length (g_Players sys)" "p = g_Players sys ! i"
    and "\<not> m_VoiceBusy p" "\<not> m_IsBlocked p" "source_codec (m_CodecType p) = Some src"
    and "\<forall>env \<in> set envs. e_voiceenable env \<and> length (e_data env) \<le> 8192"
    and "m_iDecodeFails p + length envs \<le> decode_fail_limit" "m_iDecodeFails p < decode_fail_limit"
  shows "\<exists>sys' q. parse_all vt envs i sys = Inr sys' \<and> q = g_Players sys' ! i
    \<and> m_CodecType q = (if m_iDecodeFails p + length envs < decode_fail_limit then m_CodecType p else vct_speex)
    \<and> m_iDecodeFails q = (if m_iDecodeFails p + length envs < decode_fail_limit then m_iDecodeFails p + length envs else 0)"
  using assms(2-)
proof (induction envs arbitrary: sys p)
  case Nil
  then show ?case by simp
next
  case (Cons env envs)
  obtain sys1 q where s: "parse_voice vt env i sys = Inr sys1" "length (g_Players sys1) = length (g_Players sys)"
    "q = g_Players sys1 ! i" "\<not> m_VoiceBusy q" "\<not> m_IsBlocked q"
    "m_CodecType q = (if m_iDecodeFails p + 1 < decode_fail_limit then m_CodecType p else vct_speex)"
    "m_iDecodeFails q = (if m_iDecodeFails p + 1 < decode_fail_limit then m_iDecodeFails p + 1 else 0)"
    using undecodable_packet [where vt = vt and src = src, OF assms(1) Cons.prems(1-5), of env] Cons.prems(6) by auto
  show ?case
  proof (cases "m_iDecodeFails p + 1 < decode_fail_limit")
    case True
    with Cons.IH [of sys1 q] Cons.prems s show ?thesis by auto
  next
    case False
    then have "length envs = 0" using Cons.prems(7) by (simp only: list.size)
    then have "envs = []" by simp
    with s False show ?thesis by simp
  qed
qed



section \<open>Speaking events\<close>

fun speech :: "nat \<Rightarrow> voice_event list \<Rightarrow> bool list" where
  "speech i [] = []"
| "speech i (Start_Speak n # es) = (if n = i + 1 then True # speech i es else speech i es)"
| "speech i (Stop_Speak n # es) = (if n = i + 1 then False # speech i es else speech i es)"
| "speech i (Drop_Client n # es) = speech i es"

fun alternates :: "bool \<Rightarrow> bool list \<Rightarrow> bool" where
  "alternates b [] = True"
| "alternates b (x # xs) = (x = b \<and> alternates (\<not> b) xs)"

lemma speech_append: "speech i (as @ bs) = speech i as @ speech i bs"
  by (induction i as rule: speech.induct) simp_all

lemma alternates_append: "alternates b (xs @ [x]) \<longleftrightarrow> alternates b xs \<and> x = (b = even (length xs))"
  by (induction xs arbitrary: b) auto

text \<open>
  The steps of a server whose clients stay active: a packet of any client, and a frame.
\<close>

inductive voice_run :: "(codec_id \<Rightarrow> 's codec_class) \<Rightarrow> 's voice_sys \<Rightarrow> 's voice_sys \<Rightarrow> bool"
  for vt sys0 where
    begin_run: "voice_run vt sys0 sys0"
  | packet: "voice_run vt sys0 sys \<Longrightarrow> i < length (g_Players sys) \<Longrightarrow> length (e_data env) \<le> 8192 \<Longrightarrow>
      parse_voice vt env i sys = Inr sys' \<Longrightarrow> voice_run vt sys0 sys'"
  | frame: "voice_run vt sys0 sys \<Longrightarrow> n \<le> length (g_Players sys) \<Longrightarrow> voice_run vt sys0 (frame_speaking now n sys)"

text \<open>
  The invariant: the log of a player alternates, the last event is a start exactly when the player
  speaks and the start is not pending any more, and a start is only pending for a speaking player.
\<close>

definition all_active :: "'s voice_sys \<Rightarrow> bool" where
  "all_active sys = (length (g_Clients sys) = length (g_Players sys) \<and> length (g_speakPending sys) = length (g_Players sys)
     \<and> (\<forall>c \<in> set (g_Clients sys). c_active c \<and> c_connected c))"

definition speech_ok :: "'s voice_sys \<Rightarrow> nat \<Rightarrow> bool" where
  "speech_ok sys i =
     (alternates True (speech i (g_log sys))
      \<and> (odd (length (speech i (g_log sys))) \<longleftrightarrow> m_IsSpeaking (g_Players sys ! i) \<and> \<not> g_speakPending sys ! i)
      \<and> (g_speakPending sys ! i \<longrightarrow> m_IsSpeaking (g_Players sys ! i)))"

lemma one_message_active:
  "one_message mute i st j c c' \<Longrightarrow> c_active c' = c_active c \<and> c_connected c' = c_connected c"
  by (auto simp: one_message_def)

lemma packet_speech_ok:
  assumes "packet_effect i sys p' sys'" "i < length (g_Players sys)" "all_active sys"
    and "\<forall>j < length (g_Players sys). speech_ok sys j"
  shows "all_active sys' \<and> (\<forall>j < length (g_Players sys'). speech_ok sys' j)"
proof -
  note e = assms(1) [unfolded packet_effect_def]
  have pl: "g_Players sys' = (g_Players sys)[i := p']" and log: "g_log sys' = g_log sys" using e by simp_all
  have pend: "m_IsSpeaking p' = m_IsSpeaking (g_Players sys ! i) \<and> g_speakPending sys' = g_speakPending sys
      \<or> m_IsSpeaking p' \<and> g_speakPending sys' =
             (if m_IsSpeaking (g_Players sys ! i) then g_speakPending sys else (g_speakPending sys)[i := True])"
    using e by blast
  have len: "length (g_speakPending sys') = length (g_speakPending sys)" using pend by (auto split: if_splits)
  have "\<forall>j < length (g_Clients sys'). c_active (g_Clients sys' ! j) \<and> c_connected (g_Clients sys' ! j)"
  proof (intro allI impI)
    fix j assume "j < length (g_Clients sys')"
    then have j: "j < length (g_Clients sys)" using e by simp
    then have "one_message (g_mute_map sys) i (c_stream (g_Clients sys ! i)) j (g_Clients sys ! j) (g_Clients sys' ! j)"
      using e by blast
    from one_message_active [OF this] show "c_active (g_Clients sys' ! j) \<and> c_connected (g_Clients sys' ! j)"
      using assms(3) j by (simp add: all_active_def)
  qed
  moreover have "length (g_Clients sys') = length (g_Clients sys)" using e by blast
  ultimately have "all_active sys'"
    using assms(3) len unfolding all_active_def all_set_conv_all_nth by (simp add: pl)
  moreover have "speech_ok sys' j" if "j < length (g_Players sys)" for j
  proof (cases "j = i")
    case True
    have "i < length (g_speakPending sys)" using assms(2,3) by (simp add: all_active_def)
    with assms(4) that True pend show ?thesis
      by (auto simp: speech_ok_def pl log split: if_splits)
  next
    case False
    then have "g_speakPending sys' ! j = g_speakPending sys ! j" using pend by (auto split: if_splits)
    with assms(4) that False show ?thesis by (simp add: speech_ok_def pl log)
  qed
  ultimately show ?thesis by (simp add: pl)
qed

lemma frame_client_other:
  assumes "j \<noteq> i"
  shows "g_Players (frame_client now i sys) ! j = g_Players sys ! j"
    and "g_speakPending (frame_client now i sys) ! j = g_speakPending sys ! j"
    and "speech j (g_log (frame_client now i sys)) = speech j (g_log sys)"
  using assms by (simp_all add: frame_client_def Let_def speech_append)

lemma frame_client_lengths [simp]:
  "length (g_Players (frame_client now i sys)) = length (g_Players sys)"
  "length (g_speakPending (frame_client now i sys)) = length (g_speakPending sys)"
  "g_Clients (frame_client now i sys) = g_Clients sys"
  by (simp_all add: frame_client_def Let_def)

lemma frame_client_speech_ok:
  assumes "all_active sys" "i < length (g_Players sys)" "\<forall>j < length (g_Players sys). speech_ok sys j"
  shows "all_active (frame_client now i sys)
    \<and> (\<forall>j < length (g_Players sys). speech_ok (frame_client now i sys) j)"
proof -
  have act: "c_active (g_Clients sys ! i)" "c_connected (g_Clients sys ! i)"
    and pend: "i < length (g_speakPending sys)"
    using assms(1,2) by (auto simp: all_active_def)
  have "speech_ok (frame_client now i sys) i"
    using assms(2,3) act pend
    by (auto simp: speech_ok_def frame_client_def Let_def speech_append alternates_append speak_done_def)
  then have "speech_ok (frame_client now i sys) j" if "j < length (g_Players sys)" for j
  proof (cases "j = i")
    case False
    have "speech_ok (frame_client now i sys) j = speech_ok sys j"
      unfolding speech_ok_def frame_client_other [OF False] ..
    with assms(3) that show ?thesis by simp
  qed (use that \<open>speech_ok (frame_client now i sys) i\<close> in simp)
  then show ?thesis using assms(1) by (simp add: all_active_def)
qed

lemma frame_speech_ok:
  assumes "all_active sys" "n \<le> length (g_Players sys)" "\<forall>j < length (g_Players sys). speech_ok sys j"
  shows "all_active (frame_speaking now n sys) \<and> length (g_Players (frame_speaking now n sys)) = length (g_Players sys)
    \<and> (\<forall>j < length (g_Players sys). speech_ok (frame_speaking now n sys) j)"
  using assms(2)
proof (induction n)
  case 0
  then show ?case using assms by (simp add: frame_speaking_def)
next
  case (Suc n)
  then have ih: "all_active (frame_speaking now n sys)" "length (g_Players (frame_speaking now n sys)) = length (g_Players sys)"
    "\<forall>j < length (g_Players (frame_speaking now n sys)). speech_ok (frame_speaking now n sys) j"
    by simp_all
  have "frame_speaking now (Suc n) sys = frame_client now n (frame_speaking now n sys)"
    by (simp add: frame_speaking_def)
  with frame_client_speech_ok [OF ih(1) _ ih(3), of n now] ih(2) Suc.prems show ?case by simp
qed

lemma voice_run_ok:
  assumes "voice_run vt sys0 sys" "all_active sys0" "\<forall>j < length (g_Players sys0). speech_ok sys0 j"
  shows "all_active sys \<and> (\<forall>j < length (g_Players sys). speech_ok sys j)"
  using assms
proof induction
  case (packet sys i env sys')
  then show ?case using parse_voice_effect [of vt env i sys sys'] packet_speech_ok by blast
next
  case (frame sys n now)
  then show ?case using frame_speech_ok [of sys n now] by simp
qed simp



inductive_cases packet_runE: "voice_run vt sys0 sys"

end
