(* ===== verification/Voice_Plugin.thy ===== *)
theory Voice_Plugin
  imports Voice_Steam Voice_Frame Voice_Silk Voice_Props
begin

text \<open>
  The codecs of a player put together as \<^verbatim>\<open>CRevoicePlayer::CRevoicePlayer\<close> makes them, and what their
  contracts give for a voice packet.
\<close>

section \<open>The codecs of a player\<close>

datatype ('e, 'd, 's, 'x, 'y) codec_state =
    Opus_State "('e, 'd) opus steam"
  | Speex_State "'s speex frame_codec"
  | Silk_State "('x, 'y) silk steam"

record ('e, 'd, 's, 'x, 'y) voice_libs =
  lib_opus :: "('e, 'd) opus_lib"
  lib_speex :: "'s speex_lib"
  lib_silk :: "('x, 'y) silk_lib"
  lib_crc :: "octet list \<Rightarrow> 32 word"

definition silk_backend :: "('x, 'y) silk_lib \<Rightarrow> ('x, 'y) silk backend" where
  "silk_backend l = \<lparr>b_Compress = silk_compress l, b_Decompress = silk_decompress l,
     b_SetSampleRate = silk_set_sample_rate l, b_SampleRate = s_samplerate, b_CodecType = plt_Silk\<rparr>"

definition retag :: "('s \<Rightarrow> 't) \<Rightarrow> voice_error + 'a \<times> 'b \<times> 's \<Rightarrow> voice_error + 'a \<times> 'b \<times> 't" where
  "retag f r = bind_r r (\<lambda>(a, b, s). Inr (a, b, f s))"

text \<open>The calls go to the class of the object.\<close>

definition codec_compress ::
    "('e, 'd, 's, 'x, 'y) voice_libs \<Rightarrow> sample list \<Rightarrow> octet list \<Rightarrow> nat \<Rightarrow> nat \<Rightarrow> bool
     \<Rightarrow> ('e, 'd, 's, 'x, 'y) codec_state \<Rightarrow> voice_error + int \<times> octet list \<times> ('e, 'd, 's, 'x, 'y) codec_state" where
  "codec_compress l xs m p k fin c =
     (case c of
        Opus_State s \<Rightarrow> retag Opus_State (steam_compress (lib_crc l) (opus_backend (lib_opus l)) xs m p k fin s)
      | Silk_State s \<Rightarrow> retag Silk_State (steam_compress (lib_crc l) (silk_backend (lib_silk l)) xs m p k fin s)
      | Speex_State s \<Rightarrow> retag Speex_State (frame_compress (speex_frames (lib_speex l)) xs m p k fin s))"

definition codec_decompress ::
    "('e, 'd, 's, 'x, 'y) voice_libs \<Rightarrow> octet list \<Rightarrow> nat \<Rightarrow> nat \<Rightarrow> nat
     \<Rightarrow> ('e, 'd, 's, 'x, 'y) codec_state \<Rightarrow> voice_error + int \<times> sample list \<times> ('e, 'd, 's, 'x, 'y) codec_state" where
  "codec_decompress l m p n k c =
     (case c of
        Opus_State s \<Rightarrow> retag Opus_State (steam_decompress (lib_crc l) (opus_backend (lib_opus l)) m p n k s)
      | Silk_State s \<Rightarrow> retag Silk_State (steam_decompress (lib_crc l) (silk_backend (lib_silk l)) m p n k s)
      | Speex_State s \<Rightarrow> retag Speex_State (frame_decompress (speex_frames (lib_speex l)) m p n k s))"

fun codec_reset :: "('e, 'd, 's, 'x, 'y) voice_libs \<Rightarrow> ('e, 'd, 's, 'x, 'y) codec_state \<Rightarrow> ('e, 'd, 's, 'x, 'y) codec_state" where
  "codec_reset l (Opus_State s) = Opus_State (s\<lparr>m_BackendCodec := opus_reset (lib_opus l) (m_BackendCodec s)\<rparr>)"
| "codec_reset l (Silk_State s) = Silk_State (s\<lparr>m_BackendCodec := silk_reset (lib_silk l) (m_BackendCodec s)\<rparr>)"
| "codec_reset l (Speex_State s) = Speex_State (snd (frame_reset (speex_frames (lib_speex l)) s))"

fun codec_rate :: "('e, 'd, 's, 'x, 'y) codec_state \<Rightarrow> nat" where
  "codec_rate (Opus_State s) = m_samplerate (m_BackendCodec s)"
| "codec_rate (Silk_State s) = s_samplerate (m_BackendCodec s)"
| "codec_rate (Speex_State s) = 8000"

fun codec_bit_rate ::
    "('e, 'd, 's, 'x, 'y) voice_libs \<Rightarrow> rat \<Rightarrow> ('e, 'd, 's, 'x, 'y) codec_state \<Rightarrow> ('e, 'd, 's, 'x, 'y) codec_state" where
  "codec_bit_rate l b (Opus_State s) = Opus_State (s\<lparr>m_BackendCodec := opus_set_bit_rate (lib_opus l) b (m_BackendCodec s)\<rparr>)"
| "codec_bit_rate l b (Silk_State s) = Silk_State (s\<lparr>m_BackendCodec := silk_set_bit_rate (lib_silk l) b (m_BackendCodec s)\<rparr>)"
| "codec_bit_rate l b (Speex_State s) = Speex_State s"

fun codec_steamid :: "64 word \<Rightarrow> ('e, 'd, 's, 'x, 'y) codec_state \<Rightarrow> ('e, 'd, 's, 'x, 'y) codec_state" where
  "codec_steamid w (Opus_State s) = Opus_State (s\<lparr>m_Steamid := w\<rparr>)"
| "codec_steamid w (Silk_State s) = Silk_State (s\<lparr>m_Steamid := w\<rparr>)"
| "codec_steamid w (Speex_State s) = Speex_State s"

definition codecs :: "('e, 'd, 's, 'x, 'y) voice_libs \<Rightarrow> codec_id \<Rightarrow> ('e, 'd, 's, 'x, 'y) codec_state codec_class" where
  "codecs l i = \<lparr>v_Compress = codec_compress l, v_Decompress = codec_decompress l, v_ResetState = codec_reset l,
     v_SampleRate = codec_rate, v_SetBitRate = codec_bit_rate l, v_SetSteamid = codec_steamid\<rparr>"

section \<open>How much Speex decodes\<close>

context sized_frames
begin

lemma frame_decode_loop_count:
  assumes "good f" "stop \<le> length m" "p + enc * Suc j \<le> stop" "2 * (length out + raw * Suc j) \<le> k"
  shows "\<exists>out' f'. frame_decode_loop fe (2 * raw) enc m p stop k out f = Some (Inr (out', f')) \<and> good f'
     \<and> length out + raw * Suc j \<le> length out' \<and> length out' * enc \<le> length out * enc + raw * (stop - p) \<and> 2 * length out' \<le> k"
  using assms
proof (induction "stop - p" arbitrary: p out f j rule: less_induct)
  case less
  have rb: "rd_buf m p enc = Inr (take enc (drop p m))"
    by (rule rd_buf_safe) (use less.prems in simp)
  obtain xs f' where d: "fe_DecodeFrame fe f (take enc (drop p m)) = (xs, f')"
    by (cases "fe_DecodeFrame fe f (take enc (drop p m))")
  have law: "length xs = raw" "good f'"
    using decode_law [OF less.prems(1), of "take enc (drop p m)"] d less.prems(2,3) by simp_all
  note unfolded = frame_decode_loop.simps [of fe "2 * raw" enc m p stop k out f]
  have pe: "p + enc \<le> stop" using less.prems(3) by simp
  then have room: "raw * enc \<le> raw * (stop - p)" by (intro mult_le_mono2) simp
  show ?case
  proof (cases "stop < p + enc + enc \<or> k < 2 * length (out @ xs) + 2 * raw")
    case True
    have "j = 0"
    proof (rule ccontr)
      assume "j \<noteq> 0"
      then obtain j' where j: "j = Suc j'" by (cases j) auto
      have "p + enc + enc \<le> p + enc * Suc j" "2 * length (out @ xs) + 2 * raw \<le> 2 * (length out + raw * Suc j)"
        by (simp_all add: j law(1))
      with True less.prems(3,4) show False by linarith
    qed
    then show ?thesis
      unfolding unfolded using True rb d law less.prems(4) room by (simp add: algebra_simps)
  next
    case False
    have smaller: "stop - (p + enc) < stop - p" using enc_pos pe by arith
    define j1 where "j1 = (if j = 0 then 0 else j - 1)"
    have j1: "p + enc + enc * Suc j1 \<le> stop" "2 * (length (out @ xs) + raw * Suc j1) \<le> k"
      using False less.prems(3,4) law(1) by (cases j; simp add: j1_def algebra_simps)+
    from less.hyps [OF smaller law(2) less.prems(2) j1] obtain out' f'' where
      r: "frame_decode_loop fe (2 * raw) enc m (p + enc) stop k (out @ xs) f' = Some (Inr (out', f''))" "good f''"
         "length (out @ xs) + raw * Suc j1 \<le> length out'"
         "length out' * enc \<le> length (out @ xs) * enc + raw * (stop - (p + enc))" "2 * length out' \<le> k"
      by blast
    have "length out + raw * Suc j \<le> length out'"
      using r(3) law(1) by (cases j) (simp_all add: j1_def)
    moreover have "raw * enc + raw * (stop - (p + enc)) = raw * (stop - p)"
      using pe by (simp add: add_mult_distrib2 [symmetric])
    then have "length out' * enc \<le> length out * enc + raw * (stop - p)"
      using r(4) law(1) by (simp add: add_mult_distrib)
    ultimately show ?thesis
      unfolding unfolded using rb d False r(1,2,5) by simp
  qed
qed

lemma frame_decompress_count:
  assumes "frame_inv good raw enc c" "p + len \<le> length m" "enc * Suc j \<le> len" "2 * (raw * Suc j) \<le> k"
  shows "\<exists>out c'. frame_decompress fe m p len k c = Inr (int (length out), out, c') \<and> frame_inv good raw enc c'
     \<and> raw * Suc j \<le> length out \<and> length out * enc \<le> raw * len \<and> 2 * length out \<le> k"
proof -
  obtain f where f: "m_pFrameEncoder c = Some f" "good f"
    using assms(1) by (auto simp: frame_inv_def split: option.splits)
  have c: "m_nEncodedBytes c = enc" "m_nRawBytes c = 2 * raw" using assms(1) by (simp_all add: frame_inv_def)
  have "p + enc * Suc j \<le> p + len" "2 * (length ([] :: sample list) + raw * Suc j) \<le> k"
    using assms(3,4) by simp_all
  from frame_decode_loop_count [OF f(2) assms(2) this] obtain out f' where
    r: "frame_decode_loop fe (2 * raw) enc m p (p + len) k [] f = Some (Inr (out, f'))" "good f'"
       "raw * Suc j \<le> length out" "length out * enc \<le> raw * len" "2 * length out \<le> k"
    by auto
  have "\<not> (len < enc \<or> k < 2 * raw)" using assms(3,4) by auto
  with r f c assms(1) show ?thesis by (auto simp: frame_decompress_def frame_inv_def)
qed

end

section \<open>A Speex packet\<close>

text \<open>The player's Speex and Opus codecs are in order and Opus runs at its usual rate.\<close>

definition codecs_ready :: "('e, 'd, 's, 'x, 'y) voice_libs \<Rightarrow> ('e, 'd, 's, 'x, 'y) codec_state revoice_player \<Rightarrow> bool" where
  "codecs_ready l p =
     ((case m_Codec p Speex_Codec of Speex_State c \<Rightarrow> frame_inv speex_ready 160 38 c | _ \<Rightarrow> False)
      \<and> (case m_Codec p Opus_Codec of
           Opus_State s \<Rightarrow> opus_inv (lib_opus l) (m_BackendCodec s) \<and> m_samplerate (m_BackendCodec s) = 24000
         | _ \<Rightarrow> False))"

text \<open>Subscribers may change the samples, not their number; the resampler makes what was asked for.\<close>

definition keeps_count :: "packet_env \<Rightarrow> bool" where
  "keeps_count env = (\<forall>r xs n. snd (e_subscribers env r xs n) = n \<and> length (fst (e_subscribers env r xs n)) = length xs)"

definition resamples :: "packet_env \<Rightarrow> bool" where
  "resamples env = (\<forall>xs olen. length (e_resample env 8000 24000 xs olen) = min olen (3 * length xs))"

lemma codecs_simps [simp]:
  "v_Compress (codecs l i) = codec_compress l" "v_Decompress (codecs l i) = codec_decompress l"
  "v_SampleRate (codecs l i) = codec_rate"
  by (simp_all add: codecs_def)

lemma codecs_readyE:
  assumes "codecs_ready l p"
  obtains c s where "m_Codec p Speex_Codec = Speex_State c" "frame_inv speex_ready 160 38 c"
    "m_Codec p Opus_Codec = Opus_State s" "opus_inv (lib_opus l) (m_BackendCodec s)"
    "m_samplerate (m_BackendCodec s) = 24000"
  using assms by (auto simp: codecs_ready_def split: codec_state.splits)

lemma speex_decode_count:
  assumes "frame_inv speex_ready 160 38 c" "38 * Suc j \<le> length bs" "j < 102"
  shows "\<exists>out c'. codec_decompress l bs 0 (length bs) voice_buffer_bytes (Speex_State c) = Inr (int (length out), out, Speex_State c')
     \<and> frame_inv speex_ready 160 38 c' \<and> 160 * Suc j \<le> length out \<and> length out * 38 \<le> 160 * length bs"
proof -
  have "2 * (160 * Suc j) \<le> voice_buffer_bytes" using assms(3) by (simp add: voice_buffer_bytes_def)
  from speex_sized.frame_decompress_count [OF assms(1) _ assms(2) this, of 0 bs "lib_speex l"]
  show ?thesis by (auto simp: codec_decompress_def retag_def)
qed

lemma speex_transcode_overflow:
  assumes "codecs_ready l p" "1330 \<le> length (e_data env)" "keeps_count env" "resamples env"
  shows "transcode_voice (codecs l) env Speex_Codec p orig tb = Inl (Write_Outside 32768)"
proof -
  obtain c s where r: "m_Codec p Speex_Codec = Speex_State c" "frame_inv speex_ready 160 38 c"
    "m_Codec p Opus_Codec = Opus_State s" "opus_inv (lib_opus l) (m_BackendCodec s)" "m_samplerate (m_BackendCodec s) = 24000"
    using codecs_readyE [OF assms(1)] by metis
  obtain out c' where d: "codec_decompress l (e_data env) 0 (length (e_data env)) voice_buffer_bytes (Speex_State c)
      = Inr (int (length out), out, Speex_State c')" "5600 \<le> length out"
    using speex_decode_count [OF r(2), of 34 "e_data env" l] assms(2) by auto
  obtain samples cnt where sub: "e_subscribers env 8000 (out @ drop (length out) orig) (int (length out)) = (samples, cnt)"
    by (cases "e_subscribers env 8000 (out @ drop (length out) orig) (int (length out))")
  have cnt: "cnt = int (length out)" "length out \<le> length samples"
    using assms(3) sub unfolding keeps_count_def by (metis snd_conv, metis fst_conv length_append le_add1)
  have len: "length (e_resample env 8000 24000 (take (length out) samples) voice_buffer_bytes)
      = min voice_buffer_bytes (3 * length out)"
    using assms(4) cnt(2) unfolding resamples_def by simp
  have "transcode_target (codecs l) env Speex_Codec samples cnt Opus_Codec
      (p\<lparr>m_Codec := (m_Codec p)(Speex_Codec := Speex_State c')\<rparr>, tb) = Inl (Write_Outside 32768)"
    using r cnt len d(2) by (simp add: transcode_target_def Let_def voice_buffer_bytes_def)
  moreover have "out \<noteq> []" using d(2) by auto
  ultimately show ?thesis
    using d(1) r(1) sub by (simp add: transcode_voice_def Let_def)
qed

text \<open>
  C33: The resampler is given room that does not exist.  \<^verbatim>\<open>TranscodeVoice\<close> passes the size of its output
  buffer in bytes where libsoxr takes a number of samples.  A Speex packet of 35 frames or more, 1330
  of the 8192 bytes that the handler allows, decodes to samples that at 24 kHz need more than the
  32768 bytes of the buffer: the server's memory behind it is overwritten.
\<close>

theorem resampler_overflow:
  assumes "i < length (g_Players sys)" "p = g_Players sys ! i" "codecs_ready l p"
    and "\<not> m_VoiceBusy p" "\<not> m_IsBlocked p" "m_CodecType p = vct_speex" "e_voiceenable env"
    and "1330 \<le> length (e_data env)" "length (e_data env) \<le> 8192" "keeps_count env" "resamples env"
  shows "parse_voice (codecs l) env i sys = Inl (Write_Outside 32768)"
proof -
  define p1 where "p1 = note_voice env (p\<lparr>m_steamBuff := [], m_speexBuff := []\<rparr>)"
  have "m_Codec p1 = m_Codec p" "m_CodecType p1 = vct_speex" using assms(6) by (simp_all add: p1_def)
  then have ready: "codecs_ready l p1" and src: "source_codec (m_CodecType p1) = Some Speex_Codec"
    using assms(3) by (simp_all add: codecs_ready_def source_codec_def)
  note t = speex_transcode_overflow [OF ready assms(8,10,11)]
  show ?thesis
    unfolding parse_voice_def Let_def assms(2) [symmetric]
    using assms(1,4,5,7,9) t src by (simp add: p1_def)
qed

lemma opus_target_safe:
  assumes "opus_inv (lib_opus l) (m_BackendCodec s)" "m_samplerate (m_BackendCodec s) = 24000"
    and "length xs \<le> 11520" "length tb = voice_buffer_bytes"
  shows "\<exists>n tb' s'. codec_compress l xs tb 0 voice_buffer_bytes False (Opus_State s) = Inr (int n, tb', Opus_State s')
     \<and> length tb' = voice_buffer_bytes"
proof -
  let ?s = "m_BackendCodec s"
  have fs: "m_frameSize ?s = 480" using assms(1,2) by (simp add: opus_inv_def)
  then have "length (m_bufOverflowBytes ?s) < 480" using assms(1) by (simp add: opus_inv_def)
  then have "(length (m_bufOverflowBytes ?s) + length xs) div 480 \<le> 24" using assms(3) by simp
  then have "steam_fits opus_fits s (length xs) voice_buffer_bytes"
    by (simp add: steam_fits_def opus_fits_def fs voice_buffer_bytes_def)
  from opus_behind.steam_compress_safe [OF assms(1) this, of 0 tb "lib_crc l" False] assms(4)
  show ?thesis by (auto simp: codec_compress_def retag_def)
qed

lemma speex_target_safe:
  assumes "frame_inv speex_ready 160 38 c" "length tb = voice_buffer_bytes"
  shows "\<exists>n tb' c'. codec_compress l xs tb 0 voice_buffer_bytes False (Speex_State c) = Inr (int n, tb', Speex_State c')"
  using speex_sized.frame_compress_safe [OF assms(1), of 0 voice_buffer_bytes tb "lib_speex l" xs False] assms(2)
  by (auto simp: codec_compress_def retag_def)

lemma speex_transcode_safe:
  assumes "codecs_ready l p" "length (e_data env) < 912" "keeps_count env" "resamples env"
    and "length tb = voice_buffer_bytes"
  shows "\<exists>res. transcode_voice (codecs l) env Speex_Codec p orig tb = Inr res"
proof -
  obtain c s where r: "m_Codec p Speex_Codec = Speex_State c" "frame_inv speex_ready 160 38 c"
    "m_Codec p Opus_Codec = Opus_State s" "opus_inv (lib_opus l) (m_BackendCodec s)" "m_samplerate (m_BackendCodec s) = 24000"
    using codecs_readyE [OF assms(1)] by metis
  show ?thesis
  proof (cases "length (e_data env) < 38")
    case True
    have "m_pFrameEncoder c \<noteq> None" "m_nEncodedBytes c = 38"
      using r(2) by (auto simp: frame_inv_def split: option.splits)
    then have "codec_decompress l (e_data env) 0 (length (e_data env)) voice_buffer_bytes (Speex_State c) = Inr (0, [], Speex_State c)"
      using True by (auto simp: codec_decompress_def retag_def frame_decompress_def)
    then show ?thesis using r(1) by (simp add: transcode_voice_def)
  next
    case False
    obtain out c' where d: "codec_decompress l (e_data env) 0 (length (e_data env)) voice_buffer_bytes (Speex_State c)
        = Inr (int (length out), out, Speex_State c')" "frame_inv speex_ready 160 38 c'"
      "160 \<le> length out" "length out * 38 \<le> 160 * length (e_data env)"
      using speex_decode_count [OF r(2), of 0 "e_data env" l] False by auto
    have few: "3 * length out \<le> 11520" using d(4) assms(2) by linarith
    obtain samples cnt where sub: "e_subscribers env 8000 (out @ drop (length out) orig) (int (length out)) = (samples, cnt)"
      by (cases "e_subscribers env 8000 (out @ drop (length out) orig) (int (length out))")
    have cnt: "cnt = int (length out)" "length out \<le> length samples"
      using assms(3) sub unfolding keeps_count_def by (metis snd_conv, metis fst_conv length_append le_add1)
    let ?ys = "e_resample env 8000 24000 (take (length out) samples) voice_buffer_bytes"
    have len: "length ?ys \<le> 11520"
      using assms(4) cnt(2) few unfolding resamples_def by simp
    define p1 where "p1 = p\<lparr>m_Codec := (m_Codec p)(Speex_Codec := Speex_State c')\<rparr>"
    obtain n tb1 s1 where o: "codec_compress l ?ys tb 0 voice_buffer_bytes False (Opus_State s) = Inr (int n, tb1, Opus_State s1)"
      "length tb1 = voice_buffer_bytes"
      using opus_target_safe [OF r(4,5) len assms(5)] by blast
    have "\<exists>r q. transcode_target (codecs l) env Speex_Codec samples cnt Opus_Codec (p1, tb) = Inr (r, q, tb1)
        \<and> m_Codec q Speex_Codec = Speex_State c'"
      using r cnt len o
      by (cases "n = 0"; cases "e_bad_alloc env Opus_Codec")
        (simp_all add: transcode_target_def Let_def p1_def voice_buffer_bytes_def append_out_def)
    then obtain r1 q where t1: "transcode_target (codecs l) env Speex_Codec samples cnt Opus_Codec (p1, tb) = Inr (r1, q, tb1)"
      and q: "m_Codec q Speex_Codec = Speex_State c'"
      by blast
    obtain n2 tb2 c2 where sp: "codec_compress l (take (length out) samples) tb1 0 voice_buffer_bytes False (Speex_State c')
        = Inr (int n2, tb2, Speex_State c2)"
      using speex_target_safe [OF d(2) o(2)] by blast
    have "\<exists>res. transcode_target (codecs l) env Speex_Codec samples cnt Speex_Codec (q, tb1) = Inr res"
      using q cnt sp by (simp add: transcode_target_def Let_def)
    then obtain r2 q2 t2 where t2: "transcode_target (codecs l) env Speex_Codec samples cnt Speex_Codec (q, tb1) = Inr (r2, q2, t2)"
      by auto
    have "\<exists>res. transcode_targets (codecs l) env Speex_Codec samples cnt [Opus_Codec, Speex_Codec] (p1, tb) = Inr res"
      using t1 t2 by simp
    then show ?thesis
      using d(1) r(1) sub by (auto simp: transcode_voice_def Let_def p1_def simp del: transcode_targets.simps)
  qed
qed

text \<open>
  C10: A Speex packet of ordinary size is safe.  With the codecs of the player in order, a packet of fewer
  than 24 frames (a client sends at most six), whatever its bytes are, is decoded, handed to the
  subscribers, resampled for Opus, encoded for both kinds of receivers and relayed without a read or
  a write outside any buffer, a null pointer or an endless loop.
\<close>

theorem speex_packet_safe:
  assumes "i < length (g_Players sys)" "codecs_ready l (g_Players sys ! i)" "m_CodecType (g_Players sys ! i) = vct_speex"
    and "length (e_data env) < 912" "keeps_count env" "resamples env" "length (transCodedBuf sys) = voice_buffer_bytes"
  shows "\<exists>sys'. parse_voice (codecs l) env i sys = Inr sys'"
proof -
  let ?p = "g_Players sys ! i"
  define p1 where "p1 = note_voice env (?p\<lparr>m_steamBuff := [], m_speexBuff := []\<rparr>)"
  have "m_Codec p1 = m_Codec ?p" "m_CodecType p1 = vct_speex" using assms(3) by (simp_all add: p1_def)
  then have ready: "codecs_ready l p1" and src: "source_codec (m_CodecType p1) = Some Speex_Codec"
    using assms(2) by (simp_all add: codecs_ready_def source_codec_def)
  obtain res where "transcode_voice (codecs l) env Speex_Codec p1 (originalBuf sys) (transCodedBuf sys) = Inr res"
    using speex_transcode_safe [OF ready assms(4-7)] by blast
  then show ?thesis
    unfolding parse_voice_def Let_def using assms(1,4) src by (simp add: p1_def)
qed

section \<open>Witnesses\<close>

definition some_libs :: "(unit, unit, unit, unit, unit) voice_libs" where
  "some_libs = \<lparr>lib_opus = first_sample_opus, lib_speex = silent_speex,
     lib_silk = \<lparr>silk_encoder_init = (), silk_decoder_init = (), silk_Encode = \<lambda>_ _ _ _ _. (0, [], ()),
       silk_Decode = \<lambda>_ _ _. (True, [], False, ())\<rparr>, lib_crc = \<lambda>_. 0\<rparr>"

definition some_codecs :: "codec_id \<Rightarrow> (unit, unit, unit, unit, unit) codec_state" where
  "some_codecs i =
     (case i of
        Opus_Codec \<Rightarrow> Opus_State \<lparr>m_Steamid = 0, m_BackendCodec = ready_opus\<rparr>
      | Speex_Codec \<Rightarrow> Speex_State (ready_speex 0)
      | Silk_Codec \<Rightarrow> Silk_State \<lparr>m_Steamid = 0, m_BackendCodec =
          \<lparr>s_Encoder = (), s_Decoder = (), s_bitrate = 10000, s_bufOverflowBytes = [], s_samplerate = 24000\<rparr>\<rparr>)"

definition speex_speaker :: "(unit, unit, unit, unit, unit) codec_state voice_sys" where
  "speex_speaker = \<lparr>g_Players = [(fresh_player some_codecs)\<lparr>m_CodecType := vct_speex\<rparr>],
     g_Clients = [\<lparr>c_active = True, c_connected = True, c_loopback = True, c_stream = 1,
       c_datagram = \<lparr>cursize = 0, maxsize = 4000, d_voice = []\<rparr>\<rparr>],
     g_speakPending = [False], g_mute_map = \<lambda>_ _. False, originalBuf = [],
     transCodedBuf = replicate voice_buffer_bytes 0, g_log = []\<rparr>"

definition speex_packet :: "nat \<Rightarrow> packet_env" where
  "speex_packet n = (some_packet (replicate n 0))\<lparr>e_resample := \<lambda>_ _ xs olen. take olen (xs @ xs @ xs)\<rparr>"

lemma speex_packet_env: "keeps_count (speex_packet n)" "resamples (speex_packet n)"
  by (auto simp: keeps_count_def resamples_def speex_packet_def some_packet_def)

lemma some_codecs_ready: "codecs_ready some_libs ((fresh_player some_codecs)\<lparr>m_CodecType := vct_speex\<rparr>)"
proof -
  have "m_samplerate ready_opus = 24000"
    by (simp add: ready_opus_def opus_init_def new_opus_def opus_rate_ok_def opus_reset_def)
  then show ?thesis
    by (simp add: codecs_ready_def fresh_player_def some_codecs_def some_libs_def ready_opus_inv
        frame_inv_def ready_speex_def speex_ready_def)
qed

theorem resampler_overflow_witness:
  "parse_voice (codecs some_libs) (speex_packet 1330) 0 speex_speaker = Inl (Write_Outside 32768)"
proof (rule resampler_overflow [OF _ refl])
  show "codecs_ready some_libs (g_Players speex_speaker ! 0)"
    using some_codecs_ready by (simp add: speex_speaker_def)
qed (simp_all add: speex_packet_env, simp_all add: speex_speaker_def fresh_player_def speex_packet_def some_packet_def)

theorem speex_packet_safe_witness:
  "\<exists>sys'. parse_voice (codecs some_libs) (speex_packet 228) 0 speex_speaker = Inr sys'"
proof (rule speex_packet_safe)
  show "codecs_ready some_libs (g_Players speex_speaker ! 0)"
    using some_codecs_ready by (simp add: speex_speaker_def)
qed (simp_all add: speex_packet_env, simp_all add: speex_speaker_def fresh_player_def speex_packet_def some_packet_def)

end
