(* ===== verification/Voice_Wave_Props.thy ===== *)
theory Voice_Wave_Props
  imports Voice_Wave
begin

text \<open>
  What holds of the sounds: the loop over them comes to an end, trimming takes nothing from a client
  that it has still to hear, mixing saturates, and where telling the position goes wrong.
\<close>

section \<open>Association lists\<close>

lemma map_of_map_key: "map_of (map (\<lambda>(i, r). (i, f i r)) xs) i = map_option (f i) (map_of xs i)"
  by (induction xs) auto

lemma map_of_filter_key: "map_of (filter (\<lambda>(i, r). P i) xs) i = (if P i then map_of xs i else None)"
  by (induction xs) auto

lemma keys_update_known: "map_of al k = Some a \<Longrightarrow> map fst (AList.update k b al) = map fst al"
  using map_of_SomeD [of al k a] by (force simp: update_keys)

lemma keys_update_at: "n < length al \<Longrightarrow> al ! n = (k, a) \<Longrightarrow> map fst (AList.update k b al) = map fst al"
  by (force simp: update_keys dest: nth_mem)

section \<open>The loop over the sounds\<close>

definition sound_keys :: "'s sounds \<Rightarrow> nat list" where
  "sound_keys g = map fst (g_audio_waves g)"

lemma sound_keys_length: "length (g_audio_waves g) = length (sound_keys g)"
  by (simp add: sound_keys_def)

lemma keys_change_sound [simp]: "sound_keys (change_sound k f g) = sound_keys g"
  by (auto simp: change_sound_def sound_keys_def keys_update_known split: option.splits)

lemma keys_update_codec [simp]: "sound_keys (update_codec i k c s g) = sound_keys g"
  by (simp add: update_codec_def)

lemma keys_mix_parts: "mix_parts ct i now ks mix g = Inr (m, g') \<Longrightarrow> sound_keys g' = sound_keys g"
proof (induction ks arbitrary: mix g)
  case (Cons k ks)
  show ?case
  proof (cases "map_of (g_audio_waves g) k")
    case None
    then show ?thesis
      using Cons by simp
  next
    case (Some a)
    obtain p where p: "take_part ct i now offset_ms a = Inr p"
      using Cons.prems Some by (cases "take_part ct i now offset_ms a") (auto simp: bind_r_def)
    obtain xs a' where ab: "p = (xs, a')"
      by (cases p)
    have "sound_keys g' = sound_keys (g\<lparr>g_audio_waves := AList.update k a' (g_audio_waves g)\<rparr>)"
      by (rule Cons.IH [of "mix_into mix xs"]) (use Cons.prems Some p ab in \<open>simp add: bind_r_def\<close>)
    also have "\<dots> = sound_keys g"
      by (simp add: sound_keys_def keys_update_known [OF Some])
    finally show ?thesis .
  qed
qed simp

lemma keys_send_sound:
  assumes sent: "send_sound vt subs buf ct i now k a r mix g = Inr (bs, mix', g')"
    and n: "n < length (g_audio_waves g)" "g_audio_waves g ! n = (k, a)"
  shows "sound_keys g' = sound_keys g"
proof (cases "length (need_mix i k a g) > 1")
  case True
  then obtain mx gm where m: "mix_parts ct i now (need_mix i k a g) mix g = Inr (mx, gm)"
    using sent by (auto simp: send_sound_def Let_def bind_r_def split: sum.splits prod.splits)
  obtain s where "g' = update_codec i k Opus_Codec s gm"
    using sent True m by (auto simp: send_sound_def Let_def bind_r_def split: sum.splits prod.splits if_splits)
  then show ?thesis
    using keys_mix_parts [OF m] by simp
next
  case False
  obtain xs a' where t: "take_part ct i now offset_us a = Inr (xs, a')"
    using sent False by (cases "take_part ct i now offset_us a") (auto simp: send_sound_def Let_def bind_r_def)
  obtain c s where "g' = update_codec i k c s (g\<lparr>g_audio_waves := AList.update k a' (g_audio_waves g)\<rparr>)"
    using sent False t by (auto simp: send_sound_def Let_def bind_r_def split: sum.splits prod.splits if_splits)
  then have "sound_keys g' = sound_keys (g\<lparr>g_audio_waves := AList.update k a' (g_audio_waves g)\<rparr>)"
    by simp
  also have "\<dots> = sound_keys g"
    by (simp add: sound_keys_def keys_update_at [OF n])
  finally show ?thesis .
qed

text \<open>A round either steps on and keeps the sounds, or handles one more sound.\<close>

lemma sound_round_cases:
  assumes "sound_round vt subs finished mute buf ct i now (n, handled, mix, g, d) = Inr (n', handled', mix', g', d')"
    and n: "n < length (g_audio_waves g)"
    and fin: "\<And>j k g. set (sound_keys (finished j k g)) \<subseteq> set (sound_keys g)"
  shows "n' = n + 1 \<and> sound_keys g' = sound_keys g \<and> set handled \<subseteq> set handled'
       \<or> (\<exists>k \<in> set (sound_keys g) - set handled. handled' = k # handled \<and> set (sound_keys g') \<subseteq> set (sound_keys g))"
proof -
  obtain k a where ka: "g_audio_waves g ! n = (k, a)"
    by (cases "g_audio_waves g ! n")
  have k: "k \<in> set (sound_keys g)"
    using nth_mem [OF n] ka by (force simp: sound_keys_def)
  note run = assms(1) [unfolded sound_round_def prod.case ka]
  show ?thesis
  proof (cases "k \<in> set handled \<or> mute i (ap_sender a) \<or> mute i 255")
    case True
    then show ?thesis
      using run by simp
  next
    case False
    note run = run [unfolded if_not_P [OF False]]
    show ?thesis
    proof (cases "map_of (ap_receivers a) i")
      case None
      then show ?thesis
        using run by simp
    next
      case (Some r)
      note run = run [unfolded Some option.case]
      consider "rc_state r \<noteq> PLAY_PLAY" | "rc_state r = PLAY_PLAY" "num_frames (the_wave ct a) \<le> rc_pos r"
        | "rc_state r = PLAY_PLAY" "\<not> num_frames (the_wave ct a) \<le> rc_pos r"
        by blast
      then show ?thesis
      proof cases
        case 1
        then show ?thesis
          using run by simp
      next
        case 2
        then show ?thesis
          using run False k fin [of "i + 1" k g] by (auto split: if_splits)
      next
        case 3
        show ?thesis
        proof (cases "rc_nextSend r \<le> now")
          case True
          then obtain bs c where "send_sound vt (subs (ap_sender a)) buf ct i now k a r mix g = Inr (bs, mix', g')"
              "n' = n + 1" "handled' = c # handled"
            using run 3 by (auto simp: bind_r_def split: sum.splits prod.splits)
          then show ?thesis
            using keys_send_sound [OF _ n ka] by (metis set_subset_Cons)
        qed (use run 3 in simp)
      qed
    qed
  qed
qed

definition sound_measure :: "'s sound_loop \<Rightarrow> nat \<times> nat" where
  "sound_measure st =
     (case st of (n, handled, mix, g, d) \<Rightarrow> (card (set (sound_keys g) - set handled), length (sound_keys g) - n))"

lemma sound_round_measure:
  assumes run: "sound_round vt subs finished mute buf ct i now st = Inr st'"
    and left: "sounds_left st > 0"
    and fin: "\<And>j k g. set (sound_keys (finished j k g)) \<subseteq> set (sound_keys g)"
  shows "(sound_measure st', sound_measure st) \<in> less_than <*lex*> less_than"
proof -
  obtain n handled mix g d n' handled' mix' g' d' where
    st: "st = (n, handled, mix, g, d)" "st' = (n', handled', mix', g', d')"
    by (metis prod_cases5)
  have n: "n < length (g_audio_waves g)"
    using left by (simp add: sounds_left_def st)
  from sound_round_cases [OF run [unfolded st] n fin]
  show ?thesis
  proof (elim disjE conjE bexE)
    assume step: "n' = n + 1" "sound_keys g' = sound_keys g" "set handled \<subseteq> set handled'"
    have "card (set (sound_keys g) - set handled') \<le> card (set (sound_keys g) - set handled)"
      by (rule card_mono) (use step in auto)
    then show ?thesis
      using n step by (auto simp: sound_measure_def st sound_keys_length)
  next
    fix k assume step: "k \<in> set (sound_keys g) - set handled" "handled' = k # handled" "set (sound_keys g') \<subseteq> set (sound_keys g)"
    have "card (set (sound_keys g') - set handled') < card (set (sound_keys g) - set handled)"
      by (rule psubset_card_mono) (use step in auto)
    then show ?thesis
      by (simp add: sound_measure_def st)
  qed
qed

lemma sound_loop_returns:
  assumes fin: "\<And>j k g. set (sound_keys (finished j k g)) \<subseteq> set (sound_keys g)"
  shows "\<exists>out. sound_loop (sound_round vt subs finished mute buf ct i now) st = Some out"
proof (induction st rule: wf_induct [OF wf_inv_image [OF wf_lex_prod [OF wf_less_than wf_less_than], of sound_measure]])
  case (1 st)
  show ?case
  proof (cases "sounds_left st > 0")
    case True
    show ?thesis
    proof (cases "sound_round vt subs finished mute buf ct i now st")
      case (Inl e)
      then show ?thesis
        using True by (simp add: sound_loop.simps [of _ st])
    next
      case (Inr st')
      have "\<exists>out. sound_loop (sound_round vt subs finished mute buf ct i now) st' = Some out"
        by (rule 1 [rule_format]) (use sound_round_measure [OF Inr True fin] in \<open>simp add: inv_image_def\<close>)
      then show ?thesis
        using True Inr by (simp add: sound_loop.simps [of _ st])
    qed
  next
    case False
    then show ?thesis
      by (simp add: sound_loop.simps [of _ st])
  qed
qed


definition one_receiver :: "nat \<Rightarrow> unit receiver" where
  "one_receiver pos = \<lparr>rc_Codec = \<lambda>_. (), rc_state = PLAY_PLAY, rc_nextSend = 0, rc_pos = pos\<rparr>"

definition one_sound :: "sample list \<Rightarrow> nat \<Rightarrow> unit sounds" where
  "one_sound xs pos =
     \<lparr>g_numAudioWaves = 1,
      g_audio_waves = [(0, \<lparr>ap_sender = 32, ap_receivers = [(0, one_receiver pos)], ap_auto_clear = False, ap_check_clear = True,
        ap_wave8k = \<lparr>w_channels = 1, w_rate = 8000, w_data = xs\<rparr>,
        ap_wave16k = \<lparr>w_channels = 1, w_rate = 16000, w_data = xs\<rparr>\<rparr>)]\<rparr>"


text \<open>
  A subscriber that deletes the sound it is told about, the last one there is, makes the loop step past
  the end of the container: after the call the iterator is the first element, which does not exist,
  and \<^verbatim>\<open>sound++\<close> follows before it is compared with the end.
\<close>
theorem deleted_last_sound_past_end:
  "frame_sounds vt subs (\<lambda>_ k g. SoundDelete k g) (\<lambda>_ _. False) buf vct_opus 0 now (one_sound xs (length xs)) d
     = Some (Inl (Read_Outside 1))"
  by (simp add: frame_sounds_def sound_loop.simps sounds_left_def sound_round_def one_sound_def one_receiver_def
      the_wave_def num_frames_def SoundDelete_def)

section \<open>Trimming\<close>

definition unheard :: "audio_wave \<Rightarrow> 's receiver \<Rightarrow> sample list" where
  "unheard w r = drop (rc_pos r) (w_data w)"

lemma fold_min_le: "fold (\<lambda>(i, r) m. if P i then min (rc_pos r) m else m) rs m \<le> m"
proof (induction rs arbitrary: m)
  case (Cons x rs)
  obtain i r where x: "x = (i, r)" by (cases x)
  show ?case
    using Cons [of "if P i then min (rc_pos r) m else m"] by (auto simp: x)
qed simp

lemma fold_min_le_pos:
  "(i, r) \<in> set rs \<Longrightarrow> P i \<Longrightarrow> fold (\<lambda>(i, r) m. if P i then min (rc_pos r) m else m) rs m \<le> rc_pos r"
proof (induction rs arbitrary: m)
  case (Cons x rs)
  show ?case
  proof (cases "x = (i, r)")
    case True
    then show ?thesis
      using Cons.prems fold_min_le [of P rs "min (rc_pos r) m"] by simp
  next
    case False
    then show ?thesis
      using Cons by simp
  qed
qed simp

text \<open>Trimming one wave: nobody who listens to it loses samples, nobody else is moved.\<close>

lemma trim_wave_ok:
  obtains w' rs' where "trim_wave P w rs = Inr (w', rs')"
    "\<And>i. map_option (unheard (if P i then w' else v)) (map_of rs' i) = map_option (unheard (if P i then w else v)) (map_of rs i)"
proof -
  let ?m = "fold (\<lambda>(i, r) m. if P i then min (rc_pos r) m else m) rs (num_frames w)"
  let ?w = "w\<lparr>w_data := drop ?m (w_data w)\<rparr>"
  let ?rs = "map (\<lambda>(i, r). (i, if P i then r\<lparr>rc_pos := rc_pos r - ?m\<rparr> else r)) rs"
  have "clear_frames ?m w = Inr ?w"
    using fold_min_le [of P rs "num_frames w"] by (simp add: clear_frames_def num_frames_def)
  then have "trim_wave P w rs = Inr (?w, ?rs)"
    by (simp add: trim_wave_def Let_def)
  moreover have "map_option (unheard (if P i then ?w else v)) (map_of ?rs i)
      = map_option (unheard (if P i then w else v)) (map_of rs i)" for i
  proof (cases "map_of rs i")
    case (Some r)
    then show ?thesis
      using fold_min_le_pos [where P = P and m = "num_frames w", OF map_of_SomeD [OF Some]]
      by (simp add: map_of_map_key [where f = "\<lambda>i r. if P i then r\<lparr>rc_pos := rc_pos r - ?m\<rparr> else r"] unheard_def)
  qed (simp add: map_of_map_key [where f = "\<lambda>i r. if P i then r\<lparr>rc_pos := rc_pos r - ?m\<rparr> else r"])
  ultimately show ?thesis
    by (rule that)
qed

definition trimmed :: "'s audio_play \<Rightarrow> bool" where
  "trimmed a = (ap_auto_clear a \<and> ap_check_clear a)"

lemma trim_sound_ok:
  "\<exists>a'. trim_sound ct active a = Inr a' \<and>
     (\<forall>i. map_option (unheard (the_wave (ct i) a')) (map_of (ap_receivers a') i) =
          (if trimmed a \<and> \<not> active i then None
           else map_option (unheard (the_wave (ct i) a)) (map_of (ap_receivers a) i)))"
proof (cases "trimmed a")
  case False
  then have "trim_sound ct active a = Inr a"
    by (simp add: trim_sound_def trimmed_def)
  with False show ?thesis
    by simp
next
  case True
  let ?rs = "filter (\<lambda>(i, r). active i) (ap_receivers a)"
  obtain w8 rs1 where 1: "trim_wave (\<lambda>i. ct i = vct_speex) (ap_wave8k a) ?rs = Inr (w8, rs1)"
    "\<And>i. map_option (unheard (if ct i = vct_speex then w8 else ap_wave16k a)) (map_of rs1 i)
       = map_option (unheard (if ct i = vct_speex then ap_wave8k a else ap_wave16k a)) (map_of ?rs i)"
    by (rule trim_wave_ok [where P = "\<lambda>i. ct i = vct_speex" and w = "ap_wave8k a" and rs = ?rs and v = "ap_wave16k a"]) (rule that)
  obtain w16 rs2 where 2: "trim_wave (\<lambda>i. ct i \<noteq> vct_speex) (ap_wave16k a) rs1 = Inr (w16, rs2)"
    "\<And>i. map_option (unheard (if ct i \<noteq> vct_speex then w16 else w8)) (map_of rs2 i)
       = map_option (unheard (if ct i \<noteq> vct_speex then ap_wave16k a else w8)) (map_of rs1 i)"
    by (rule trim_wave_ok [where P = "\<lambda>i. ct i \<noteq> vct_speex" and w = "ap_wave16k a" and rs = rs1 and v = w8]) (rule that)
  let ?a = "a\<lparr>ap_check_clear := False, ap_receivers := rs2, ap_wave8k := w8, ap_wave16k := w16\<rparr>"
  have "trim_sound ct active a = Inr ?a"
    using True by (simp add: trim_sound_def trimmed_def Let_def 1(1) 2(1))
  moreover have "map_option (unheard (the_wave (ct i) ?a)) (map_of rs2 i) =
      (if \<not> active i then None else map_option (unheard (the_wave (ct i) a)) (map_of (ap_receivers a) i))" for i
    using 1(2) [of i] 2(2) [of i] by (auto simp: the_wave_def map_of_filter_key)
  ultimately show ?thesis
    using True by auto
qed

text \<open>
  C18: Trimming a sound never fails, and for every client it keeps exactly the samples the client has
  still to hear in the wave of its codec; only clients that are gone are taken off the sound, and
  only when the sound is trimmed at all.
\<close>
theorem trim_keeps_unheard:
  "\<exists>a'. trim_sound ct active a = Inr a' \<and>
     (\<forall>i. map_option (unheard (the_wave (ct i) a')) (map_of (ap_receivers a') i) =
          (if trimmed a \<and> \<not> active i then None
           else map_option (unheard (the_wave (ct i) a)) (map_of (ap_receivers a) i)))"
  by (rule trim_sound_ok)

section \<open>Mixing\<close>

definition saturate :: "int \<Rightarrow> int" where
  "saturate v = max (- 32768) (min 32767 v)"

lemma sint_sample: "- 32768 \<le> sint (a :: sample)" "sint a \<le> 32767"
  using sint_greater_eq [of a] sint_lt [of a] by simp_all

lemma sint_of_sample: "- 32768 \<le> v \<Longrightarrow> v \<le> 32767 \<Longrightarrow> sint (word_of_int v :: sample) = v"
  by (simp add: sint_sbintrunc' signed_take_bit_int_eq_self)

lemma sint_mix_sample: "sint (mix_sample a b) = saturate (sint a + sint b)"
proof -
  consider "32767 < sint a + sint b" | "sint a + sint b < - 32768"
    | "\<not> 32767 < sint a + sint b" "\<not> sint a + sint b < - 32768"
    by blast
  then show ?thesis
  proof cases
    case 1
    then show ?thesis
      by (simp add: mix_sample_def Let_def saturate_def)
  next
    case 2
    then show ?thesis
      by (simp add: mix_sample_def Let_def saturate_def)
  next
    case 3
    then show ?thesis
      using sint_of_sample [of "sint a + sint b"] by (simp add: mix_sample_def Let_def saturate_def)
  qed
qed

lemma mix_sample_commute: "mix_sample a b = mix_sample b a"
  by (simp add: mix_sample_def add.commute)

lemma mix_into_commute: "mix_into xs ys = mix_into ys xs"
proof (induction xs ys rule: mix_into.induct)
  case (1 ys)
  then show ?case by (cases ys) simp_all
next
  case (3 x xs y ys)
  then show ?case by (simp add: mix_sample_commute [of x y])
qed simp

lemma mix_into_length: "length (mix_into xs ys) = max (length xs) (length ys)"
  by (induction xs ys rule: mix_into.induct) simp_all

lemma mix_into_common:
  "map sint (take (min (length xs) (length ys)) (mix_into xs ys)) = map (\<lambda>(a, b). saturate (sint a + sint b)) (zip xs ys)"
  by (induction xs ys rule: mix_into.induct) (simp_all add: sint_mix_sample)

lemma mix_into_rest: "drop (length ys) (mix_into xs ys) = drop (length ys) xs"
  by (induction xs ys rule: mix_into.induct) simp_all

text \<open>
  Two sounds are mixed sample by sample, each sum cut to the range of a 16-bit sample and none
  wrapped around, the longer sound goes on alone, and the order of the two sounds does not matter.
\<close>
theorem mixing_saturates:
  "length (mix_into xs ys) = max (length xs) (length ys)
   \<and> map sint (take (min (length xs) (length ys)) (mix_into xs ys)) = map (\<lambda>(a, b). saturate (sint a + sint b)) (zip xs ys)
   \<and> drop (length ys) (mix_into xs ys) = drop (length ys) xs
   \<and> mix_into xs ys = mix_into ys xs"
  by (intro conjI mix_into_length mix_into_common mix_into_rest mix_into_commute)

section \<open>Sending a wave piece by piece\<close>

text \<open>The samples that one client receives, \<open>n\<close> pieces of a tenth of a second.\<close>

fun pieces :: "nat \<Rightarrow> nat \<Rightarrow> audio_wave \<Rightarrow> voice_error + sample list list" where
  "pieces 0 pos w = Inr []"
| "pieces (Suc n) pos w =
     bind_r (get_samples w pos (w_rate w div 10)) (\<lambda>xs. bind_r (pieces n (pos + length xs) w) (\<lambda>yss. Inr (xs # yss)))"

lemma get_samples_ok:
  "pos \<le> length (w_data w) \<Longrightarrow> get_samples w pos len = Inr (take (len * w_channels w) (drop pos (w_data w)))"
  by (auto simp: get_samples_def Let_def)

lemma pieces_concat:
  "pos \<le> length (w_data w) \<Longrightarrow>
   \<exists>yss. pieces n pos w = Inr yss \<and> concat yss = take (n * (w_rate w div 10 * w_channels w)) (drop pos (w_data w))"
proof (induction n arbitrary: pos)
  case (Suc n)
  let ?c = "w_rate w div 10 * w_channels w"
  let ?xs = "take ?c (drop pos (w_data w))"
  have "pos + length ?xs \<le> length (w_data w)"
    using Suc.prems by simp
  from Suc.IH [OF this] obtain yss where yss: "pieces n (pos + length ?xs) w = Inr yss"
    "concat yss = take (n * ?c) (drop (pos + length ?xs) (w_data w))"
    by blast
  have "take (n * ?c) (drop (pos + length ?xs) (w_data w)) = take (n * ?c) (drop ?c (drop pos (w_data w)))"
    by (cases "?c \<le> length (w_data w) - pos") (simp_all add: min_def add.commute)
  then have "concat (?xs # yss) = take (?c + n * ?c) (drop pos (w_data w))"
    by (simp only: take_add concat.simps yss(2))
  moreover have "pieces (Suc n) pos w = Inr (?xs # yss)"
    unfolding pieces.simps get_samples_ok [OF Suc.prems] bind_r_Inr yss(1) ..
  ultimately show ?case
    by (intro exI [of _ "?xs # yss"]) simp
qed simp

text \<open>
  A client that a sound is played to receives every sample from its position on, once and in order:
  the pieces that are sent, a tenth of a second each, joined together are the wave.
\<close>
theorem sound_played_completely:
  assumes "pos \<le> length (w_data w)" "0 < w_rate w div 10 * w_channels w"
  shows "\<exists>yss. pieces (length (w_data w)) pos w = Inr yss \<and> concat yss = drop pos (w_data w)"
proof -
  have "length (w_data w) \<le> length (w_data w) * (w_rate w div 10 * w_channels w)"
    using assms(2) by (cases "w_rate w div 10 * w_channels w") simp_all
  then have "length (drop pos (w_data w)) \<le> length (w_data w) * (w_rate w div 10 * w_channels w)"
    unfolding length_drop by (rule le_trans [OF diff_le_self])
  then show ?thesis
    using pieces_concat [OF assms(1), of "length (w_data w)"] by (metis take_all)
qed

lemma sound_played_completely_witness:
  "\<exists>yss. pieces 3 1 \<lparr>w_channels = 1, w_rate = 20, w_data = [1, 2, 3]\<rparr> = Inr yss \<and> concat yss = [2, 3]"
  using sound_played_completely [of 1 "\<lparr>w_channels = 1, w_rate = 20, w_data = [1, 2, 3]\<rparr>"] by (simp add: numeral_3_eq_3)

section \<open>Telling the position\<close>

text \<open>
  \<^verbatim>\<open>SoundTell\<close> answers 0 for every position before the end of the sound, the position is divided
  by the number of samples as integers before the quotient becomes a float; and for a sound without
  samples, what trimming leaves of one that was heard to its end, it divides by zero.
\<close>
theorem sound_tell_before_end:
  assumes "map_of (g_audio_waves g) k = Some a" "map_of (ap_receivers a) (receiver_key rcv) = Some r"
    and "rc_pos r < num_frames (the_wave ct a) \<or> num_frames (the_wave ct a) = 0"
  shows "SoundTell ct True rcv k g = (if num_frames (the_wave ct a) = 0 then Inl Zero_Frame else Inr 0)"
  using assms by (auto simp: SoundTell_def Let_def)

lemma sound_tell_before_end_witness:
  "SoundTell vct_opus True 1 0 (one_sound [1, 2] 1) = Inr 0 \<and> SoundTell vct_opus True 1 0 (one_sound [] 0) = Inl Zero_Frame"
proof (rule conjI)
  show "SoundTell vct_opus True 1 0 (one_sound [1, 2] 1) = Inr 0"
    using sound_tell_before_end [of "one_sound [1, 2] 1" 0 "snd (hd (g_audio_waves (one_sound [1, 2] 1)))" 1 "one_receiver 1" vct_opus]
    by (simp add: one_sound_def one_receiver_def the_wave_def num_frames_def receiver_key_def)
  show "SoundTell vct_opus True 1 0 (one_sound [] 0) = Inl Zero_Frame"
    using sound_tell_before_end [of "one_sound [] 0" 0 "snd (hd (g_audio_waves (one_sound [] 0)))" 1 "one_receiver 0" vct_opus]
    by (simp add: one_sound_def one_receiver_def the_wave_def num_frames_def receiver_key_def)
qed

end
