(* ===== verification/Spec2Isabelle.thy ===== *)
theory Spec2Isabelle
  imports Convert Cvar_Natives Entities_Refine Guards Info_String Map_Lifecycle Message_Types Mysql_Race Mysql_Wait Sql_Results Sync_Conn Transfer_Items Utl_Buffer Voice_Api Voice_Debug Voice_Plugin Voice_Wave_Props
begin

text \<open>
  Verification of refsapi, an AMX Mod X module for Counter-Strike servers (\<^verbatim>\<open>src/\<close>), and of the voice
  plugin that it ships with (\<^verbatim>\<open>src/revoice-plus/revoice/src/\<close>).

  \<^bold>\<open>The program.\<close>  The module keeps a handful of managers, global objects that the hooks of the game and
  the natives of the plugins call: timers (\<^verbatim>\<open>refsapi_timer_mngr.h\<close>), database queries
  (\<^verbatim>\<open>refsapi_mysql_mngr.h\<close>), log files (\<^verbatim>\<open>refsapi_log_mngr.h\<close>), cvars (\<^verbatim>\<open>refsapi_cvar_mngr.h\<close>) and recoil
  (\<^verbatim>\<open>refsapi_recoil_mngr.h\<close>).  The first three share their work between the thread of the game, which
  runs once per frame, and threads of their own.  \<^verbatim>\<open>refsapi.cpp\<close> holds the hooks, the registry of the
  entities by class and the counts of the players by team; \<^verbatim>\<open>refsapi_misc.cpp\<close> the helpers: strings,
  UTF-8, the similarity of nicknames; \<^verbatim>\<open>natives_refsapi.cpp\<close> what the plugins see.  The voice plugin reads
  the voice packets of the clients, decodes them with the codec of the sender, encodes them for the
  two kinds of receivers and relays them; it also plays sounds to clients.

  \<^bold>\<open>How the code is modelled.\<close>  A class is a record of its fields, a method a function on it that returns
  the record updated; a call into undefined behaviour, an exception and a failure is the left value of
  a sum, with a constructor that tells which, so that \<open>Inr\<close> in a theorem means that nothing of this
  kind happens.  Threads are inductive step relations, one step per critical section, and the theorems
  range over all interleavings.  Machine integers are words, or integers with the wrap-around written
  out where it matters; floats and doubles are exact rational numbers (reals where a logarithm or a
  power is taken), except for the recoil, where the product is a parameter.  Memory is a heap of cells where aliasing or freeing matters (the data of
  timers, the queries) and a list of bytes with positions where bounds do (the codecs).

  \<^bold>\<open>The theories.\<close>
    \<^item> \<open>Prelude\<close>: results, ordered maps, priority queues.  \<open>Text_Utils\<close>: the string helpers of
      \<^verbatim>\<open>refsapi_misc.h\<close>.  \<open>Flags\<close>: the flag strings of \<^verbatim>\<open>sdk_util.cpp\<close>.
    \<^item> \<open>Timer_Mngr\<close>, \<open>Timer_Inv\<close>, \<open>Timer_Ops\<close>, \<open>Timer_Run\<close>, \<open>Timer_Props\<close>: \<^verbatim>\<open>timer_mngr\<close>; its invariant, its
      operations, the two threads, and what follows: no freed memory is read, the queue is rebuilt
      exactly, the earliest timer is taken, a timer fires as often as it should.
    \<^item> \<open>Mysql_Mngr\<close>, \<open>Mysql_Props\<close>, \<open>Mysql_Race\<close>: \<^verbatim>\<open>mysql_mngr\<close>, its worker threads and its frame; handlers see
      successful queries only, a worker never touches a deleted query.  \<open>Sync_Conn\<close>: the connections plugins
      open and close themselves.  \<open>Sql_Results\<close>: the results after the first one, which are skipped.  \<open>Frame_Pacing\<close>: the rate at which the managers serve a frame.
      \<open>Mysql_Wait\<close>: the waits on a socket, which end in time.
    \<^item> \<open>Log_Mngr\<close>, \<open>Log_Props\<close>, \<open>Log_Threads\<close>: \<^verbatim>\<open>log_mngr\<close> and its writers; no line is lost or written twice,
      the writers do not block each other.  \<open>Log_Shutdown\<close>: closing the log, which waits for the writers
      and always ends.
    \<^item> \<open>Cvar_Mngr\<close>, \<open>Cvar_Props\<close>, \<open>Cvar_Inv\<close>, \<open>Cvar_Config\<close>, \<open>Cvar_Natives\<close>: \<^verbatim>\<open>cvar_mngr\<close>, its consistency over all
      its operations, the configuration files and the natives.
    \<^item> \<open>Recoil_Mngr\<close>: \<^verbatim>\<open>recoil_mngr\<close>.  \<open>Entities\<close>, \<open>Entities_Props\<close>, \<open>Entities_Refine\<close>: the registry of the
      entities, which refines one map from entities to classes.  \<open>Clients\<close>, \<open>Clients_Props\<close>,
      \<open>Message_Types\<close>: the players, their counts per team, and the dispatch of messages.
      \<open>Module_Hooks\<close>: the hooks that lead to several managers.  \<open>Transfer_Items\<close>: the native that moves the
      items of a player to another one.  \<open>Map_Lifecycle\<close>: the start and the end of a map in \<^verbatim>\<open>main.cpp\<close>
      over the state of all managers, of which nothing of the map is left.
    \<^item> \<open>Utf8\<close>, \<open>Utf8_Simd\<close>: the validators of UTF-8, which agree with each other and with the reference.
      \<open>Nick_Similarity\<close>: distance, common substrings, similarity; \<open>Artificiality\<close>: the entropy of a name
      and its score.  \<open>Guards\<close>: the hooks built on both.  \<open>Convert\<close>: bytes and wide strings, rounding.
    \<^item> \<open>Info_String\<close>: the info strings of \<^verbatim>\<open>info.cpp\<close>, keys and values in a buffer of fixed size; setting and
      removing keys stays inside the buffer and behaves like a map.  \<open>Utl_Buffer\<close>: the growing buffers of
      the voice plugin, which refine a queue of bytes.
    \<^item> \<open>Voice_Codec\<close>: bytes, memory and the interface of a codec.  \<open>Voice_Opus\<close>, \<open>Voice_Frame\<close> (with Speex)
      and \<open>Voice_Silk\<close>: the codecs.  \<open>Voice_Steam\<close>: the envelope of a Steam packet around a codec.
      \<open>Voice_Player\<close>, \<open>Voice_Parse\<close>, \<open>Voice_Props\<close>: the players, a voice packet from the network to the
      receivers, the events of speaking.  \<open>Voice_Plugin\<close>: all of this put together.  \<open>Voice_Wave\<close>,
      \<open>Voice_Wave_Props\<close>: the sounds that are played, mixed and trimmed.  \<open>Voice_Api\<close>: muting, blocking and
      the start and end of a map.  \<open>Voice_Debug\<close>: the log of measured times, whose summaries are exact.

  \<^bold>\<open>Interfaces.\<close>  Where one part relies on another through operations with laws, the laws are a locale:
  \<open>voice_codec\<close> (what \<^verbatim>\<open>IVoiceCodec\<close> promises), \<open>voice_backend\<close> (a codec behind the Steam envelope) and
  \<open>sized_frames\<close> (an encoder of frames of a fixed size), with interpretations on the models of Opus, of
  the Steam codec around it and of Speex; the other locales are described where they stand.

  \<^bold>\<open>Loops, fuel and bounds.\<close>  A loop is a recursion with its measure.  One that need not end is a
  \<open>partial_function\<close>, and then its end is a theorem: the writer of the log, the waits on a socket, the
  loop over the sounds, the frames of a codec.  The nesting of cvar changes that the engine calls back
  is given a depth of three, which the hooks of one change do not exceed.

  \<^bold>\<open>Parameters.\<close>  The engine, the game, AMX Mod X, the client library of MariaDB, the clocks, the file
  system, \<^verbatim>\<open>std::sort\<close> and the codec libraries (libopus, libspeex, Silk, soxr, vendored sources that the
  plugin calls) are arguments; what is used of them are hypotheses that state their documentation,
  such as \<open>opus_lib_ok\<close>, each with a witness.  The order of iteration of an unordered map is not used:
  such a map is a function, or a list of which a theorem assumes no order.

  \<^bold>\<open>Flaws.\<close>  Where the code does not do what it means to, a theorem shows the case: a packet that makes the
  plugin decode with a null decoder or write past the buffer of the resampler or of the Silk decoder,
  positions of sounds that are never told, timers and queries lost in an interleaving.

  \<^bold>\<open>Not modelled.\<close>  The entry points and function tables of the two plugins, the natives of ReAPI under
  \<^verbatim>\<open>natives/\<close>, which the \<^verbatim>\<open>Makefile\<close> does not compile, vendored libraries and SDKs, the lists of symbol
  versions for the linker, the commands that print to the console, debugging output,
  and the information about processor and threads in \<^verbatim>\<open>refsapi_misc.cpp\<close>: they
  decide nothing, or they are not code of this program.
\<close>

end
